(* ===== verification/Nits_Prelude.thy ===== *)
theory Nits_Prelude
  imports Main "HOL-Library.Word" "HOL-Library.List_Lexorder" "HOL-Library.Char_ord"
    "HOL-Library.Product_Lexorder"
begin

text \<open>
  Shared vocabulary of the development: results of fallible Rust functions
  (\<open>Result\<close>) as sums, the \<open>?\<close> operator as \<open>bindR\<close>, the iterator and string functions of
  Rust's standard library that the sources use, and ordered key-value tables, the view the
  store takes of the tables of its embedded database.
\<close>

named_theorems result_simps \<open>elimination of error-propagating binds\<close>
named_theorems table_simps \<open>laws of ordered tables\<close>

section \<open>Results\<close>

text \<open>\<open>Result<T, E>\<close> is \<open>'e + 'a\<close>, with \<open>Inl\<close> for \<open>Err\<close>; \<open>bindR m f\<close> is \<open>f(m?)\<close>.\<close>

type_synonym ('e, 'a) result = "'e + 'a"

definition bindR :: "('e, 'a) result \<Rightarrow> ('a \<Rightarrow> ('e, 'b) result) \<Rightarrow> ('e, 'b) result" where
  "bindR m f = (case m of Inl e \<Rightarrow> Inl e | Inr x \<Rightarrow> f x)"

definition ok_or :: "'e \<Rightarrow> 'a option \<Rightarrow> ('e, 'a) result" where
  "ok_or e x = (case x of None \<Rightarrow> Inl e | Some v \<Rightarrow> Inr v)"

definition map_err :: "('e \<Rightarrow> 'f) \<Rightarrow> ('e, 'a) result \<Rightarrow> ('f, 'a) result" where
  "map_err g m = (case m of Inl e \<Rightarrow> Inl (g e) | Inr x \<Rightarrow> Inr x)"

definition is_ok :: "('e, 'a) result \<Rightarrow> bool" where
  "is_ok m = (case m of Inl _ \<Rightarrow> False | Inr _ \<Rightarrow> True)"

lemma bindR_simps [simp]:
  "bindR (Inl e) f = Inl e"
  "bindR (Inr x) f = f x"
  by (simp_all add: bindR_def)

lemma ok_or_simps [simp]:
  "ok_or e None = Inl e"
  "ok_or e (Some v) = Inr v"
  by (simp_all add: ok_or_def)

lemma map_err_simps [simp]:
  "map_err g (Inl e) = Inl (g e)"
  "map_err g (Inr x) = Inr x"
  by (simp_all add: map_err_def)

lemma is_ok_simps [simp]:
  "is_ok (Inl e) = False"
  "is_ok (Inr x) = True"
  by (simp_all add: is_ok_def)

lemma bindR_Inr_iff [result_simps]:
  "bindR m f = Inr y \<longleftrightarrow> (\<exists>x. m = Inr x \<and> f x = Inr y)"
  by (cases m) simp_all

lemma bindR_Inl_iff [result_simps]:
  "bindR m f = Inl e \<longleftrightarrow> m = Inl e \<or> (\<exists>x. m = Inr x \<and> f x = Inl e)"
  by (cases m) simp_all

lemma ok_or_Inr_iff [result_simps]: "ok_or e x = Inr v \<longleftrightarrow> x = Some v"
  by (cases x) simp_all

lemma ok_or_Inl_iff [result_simps]: "ok_or e x = Inl e' \<longleftrightarrow> x = None \<and> e' = e"
  by (cases x) auto

lemma map_err_Inr_iff [result_simps]: "map_err g m = Inr x \<longleftrightarrow> m = Inr x"
  by (cases m) simp_all

lemma is_ok_iff: "is_ok m \<longleftrightarrow> (\<exists>x. m = Inr x)"
  by (cases m) simp_all

lemma bindR_assoc: "bindR (bindR m f) g = bindR m (\<lambda>x. bindR (f x) g)"
  by (cases m) simp_all

text \<open>\<open>iter.map(f).collect::<Result<Vec<_>, _>>()\<close>: the first error wins.\<close>

fun collectR :: "('a \<Rightarrow> ('e, 'b) result) \<Rightarrow> 'a list \<Rightarrow> ('e, 'b list) result" where
  "collectR f [] = Inr []"
| "collectR f (x # xs) = bindR (f x) (\<lambda>y. bindR (collectR f xs) (\<lambda>ys. Inr (y # ys)))"

lemma collectR_Inr_iff: "collectR f xs = Inr ys \<longleftrightarrow> list_all2 (\<lambda>x y. f x = Inr y) xs ys"
proof (induction xs arbitrary: ys)
  case Nil
  show ?case by auto
next
  case (Cons x xs)
  show ?case by (cases ys) (auto simp: result_simps Cons.IH)
qed

lemma collectR_length: "collectR f xs = Inr ys \<Longrightarrow> length ys = length xs"
  by (simp add: collectR_Inr_iff list_all2_lengthD)

text \<open>A \<open>for\<close> loop whose body can leave the function with \<open>?\<close>.\<close>

fun foldR :: "('a \<Rightarrow> 's \<Rightarrow> ('e, 's) result) \<Rightarrow> 'a list \<Rightarrow> 's \<Rightarrow> ('e, 's) result" where
  "foldR f [] s = Inr s"
| "foldR f (x # xs) s = bindR (f x s) (foldR f xs)"

lemma foldR_append: "foldR f (xs @ ys) s = bindR (foldR f xs s) (foldR f ys)"
proof (induction xs arbitrary: s)
  case (Cons x xs)
  have "foldR f (xs @ ys) = (\<lambda>t. bindR (foldR f xs t) (foldR f ys))"
    using Cons.IH by auto
  then show ?case by (simp add: bindR_assoc)
qed simp

lemma foldR_snoc: "foldR f (xs @ [y]) s = bindR (foldR f xs s) (f y)"
proof -
  have "foldR f [y] = f y"
  proof
    fix t show "foldR f [y] t = f y t" by (cases "f y t") simp_all
  qed
  then show ?thesis by (simp only: foldR_append)
qed

lemma foldR_invariant:
  assumes "foldR f xs s = Inr t" and "P s"
    and "\<And>x s s'. \<lbrakk>x \<in> set xs; P s; f x s = Inr s'\<rbrakk> \<Longrightarrow> P s'"
  shows "P t"
  using assms
proof (induction xs arbitrary: s)
  case Nil
  then show ?case by simp
next
  case (Cons x xs)
  from Cons.prems(1) obtain s' where s': "f x s = Inr s'" "foldR f xs s' = Inr t"
    by (auto simp: result_simps)
  with Cons.prems have "P s'" by auto
  with s'(2) Cons.prems(3) show ?case by (intro Cons.IH) auto
qed

section \<open>Slices and strings of the standard library\<close>

text \<open>A Rust \<open>String\<close> is its UTF-8 bytes: a \<open>char\<close> of HOL is one byte.\<close>

text \<open>\<open>s.split(c)\<close>: always at least one piece.\<close>

fun split_on :: "'a \<Rightarrow> 'a list \<Rightarrow> 'a list list" where
  "split_on c [] = [[]]"
| "split_on c (x # xs) =
     (if x = c then [] # split_on c xs
      else case split_on c xs of [] \<Rightarrow> [[x]] | p # ps \<Rightarrow> (x # p) # ps)"

text \<open>Joining pieces with a separator, the inverse of \<open>split\<close>.\<close>

fun join_with :: "'a \<Rightarrow> 'a list list \<Rightarrow> 'a list" where
  "join_with c [] = []"
| "join_with c [p] = p"
| "join_with c (p # q # ps) = p @ c # join_with c (q # ps)"

lemma split_on_ne [simp]: "split_on c xs \<noteq> []"
  by (cases xs) (auto split: list.splits)

lemma split_on_no_sep: "p \<in> set (split_on c xs) \<Longrightarrow> c \<notin> set p"
proof (induction xs arbitrary: p)
  case Nil
  then show ?case by simp
next
  case (Cons x xs)
  obtain q qs where q: "split_on c xs = q # qs" by (cases "split_on c xs") auto
  from Cons.prems Cons.IH q show ?case by (auto split: if_splits)
qed

lemma join_with_Cons_Cons: "join_with c ((x # p) # ps) = x # join_with c (p # ps)"
  by (cases ps) simp_all

lemma join_with_Nil_Cons: "ps \<noteq> [] \<Longrightarrow> join_with c ([] # ps) = c # join_with c ps"
  by (cases ps) simp_all

lemma join_split_on [simp]: "join_with c (split_on c xs) = xs"
proof (induction xs)
  case Nil
  show ?case by simp
next
  case (Cons x xs)
  obtain q qs where q: "split_on c xs = q # qs" by (cases "split_on c xs") auto
  with Cons.IH show ?case by (simp add: join_with_Cons_Cons join_with_Nil_Cons)
qed

lemma split_on_append_sep: "c \<notin> set p \<Longrightarrow> split_on c (p @ c # xs) = p # split_on c xs"
  by (induction p) auto

lemma split_on_no_occ: "c \<notin> set p \<Longrightarrow> split_on c p = [p]"
  by (induction p) auto

lemma split_join_with:
  "ps \<noteq> [] \<Longrightarrow> \<forall>p\<in>set ps. c \<notin> set p \<Longrightarrow> split_on c (join_with c ps) = ps"
proof (induction c ps rule: join_with.induct)
  case (3 c p q ps)
  then show ?case by (simp add: split_on_append_sep)
qed (simp_all add: split_on_no_occ)

lemma split_on_inj: "split_on c xs = split_on c ys \<Longrightarrow> xs = ys"
  by (metis join_split_on)

text \<open>\<open>slice.split_inclusive(|b| b == c)\<close>: pieces keep their terminator, no empty last piece.\<close>

fun split_incl :: "'a \<Rightarrow> 'a list \<Rightarrow> 'a list list" where
  "split_incl c [] = []"
| "split_incl c (x # xs) =
     (if x = c then [x] # split_incl c xs
      else case split_incl c xs of [] \<Rightarrow> [[x]] | p # ps \<Rightarrow> (x # p) # ps)"

lemma concat_split_incl [simp]: "concat (split_incl c xs) = xs"
proof (induction xs)
  case (Cons x xs)
  then show ?case by (cases "split_incl c xs") auto
qed simp

lemma split_incl_eq_Nil [simp]: "split_incl c xs = [] \<longleftrightarrow> xs = []"
  by (cases xs) (auto split: list.splits)

text \<open>A source line is nonempty and holds the terminator at most once, at its end.\<close>

definition is_line :: "'a \<Rightarrow> 'a list \<Rightarrow> bool" where
  "is_line c l \<longleftrightarrow> l \<noteq> [] \<and> c \<notin> set (butlast l)"

definition terminated :: "'a \<Rightarrow> 'a list \<Rightarrow> bool" where
  "terminated c l \<longleftrightarrow> l \<noteq> [] \<and> last l = c"

text \<open>The lines of a file: only the last may lack its terminator.\<close>

definition is_lines :: "'a \<Rightarrow> 'a list list \<Rightarrow> bool" where
  "is_lines c ls \<longleftrightarrow> (\<forall>l\<in>set ls. is_line c l) \<and> (\<forall>l\<in>set (butlast ls). terminated c l)"

lemma is_line_Cons: "is_line c (x # l) \<longleftrightarrow> l = [] \<or> (x \<noteq> c \<and> is_line c l)"
  by (auto simp: is_line_def)

lemma terminated_Cons: "terminated c (x # l) \<longleftrightarrow> (if l = [] then x = c else terminated c l)"
  by (auto simp: terminated_def)

lemma is_lines_Nil [simp]: "is_lines c []"
  by (simp add: is_lines_def)

lemma is_lines_Cons:
  "is_lines c (l # ls) \<longleftrightarrow> is_line c l \<and> (ls = [] \<or> terminated c l) \<and> is_lines c ls"
  by (auto simp: is_lines_def)

lemma is_lines_split_incl [simp, intro]: "is_lines c (split_incl c xs)"
proof (induction xs)
  case Nil
  show ?case by simp
next
  case (Cons x xs)
  show ?case
  proof (cases "split_incl c xs")
    case Nil
    then show ?thesis by (auto simp: is_lines_Cons is_line_Cons)
  next
    case (Cons p ps)
    with \<open>is_lines c (split_incl c xs)\<close> show ?thesis
      by (auto simp: is_lines_Cons is_line_Cons terminated_Cons is_line_def terminated_def)
  qed
qed

lemma split_incl_append_line:
  "is_line c l \<Longrightarrow> terminated c l \<Longrightarrow> split_incl c (l @ xs) = l # split_incl c xs"
proof (induction l)
  case Nil
  then show ?case by (simp add: terminated_def)
next
  case (Cons x l)
  then show ?case by (auto simp: is_line_Cons terminated_Cons split: if_splits)
qed

lemma split_incl_line: "is_line c l \<Longrightarrow> split_incl c l = [l]"
proof (induction l)
  case Nil
  then show ?case by (simp add: is_line_def)
next
  case (Cons x l)
  show ?case
  proof (cases "l = []")
    case False
    with Cons show ?thesis by (auto simp: is_line_Cons)
  qed auto
qed

text \<open>Splitting and concatenating are inverse on files: the line view loses nothing.\<close>

lemma split_incl_concat: "is_lines c ls \<Longrightarrow> split_incl c (concat ls) = ls"
proof (induction ls)
  case (Cons l ls)
  show ?case
  proof (cases "ls = []")
    case True
    with Cons show ?thesis by (simp add: is_lines_Cons split_incl_line)
  next
    case False
    with Cons have "is_line c l" "terminated c l" "is_lines c ls"
      by (auto simp: is_lines_Cons)
    with Cons.IH show ?thesis by (simp add: split_incl_append_line)
  qed
qed simp

text \<open>\<open>slice.get(i..j)\<close>: \<open>None\<close> unless the range is in bounds and ordered.\<close>

definition slice_get :: "'a list \<Rightarrow> nat \<Rightarrow> nat \<Rightarrow> 'a list option" where
  "slice_get xs i j = (if i \<le> j \<and> j \<le> length xs then Some (take (j - i) (drop i xs)) else None)"

definition slice_at :: "'a list \<Rightarrow> nat \<Rightarrow> 'a option" where
  "slice_at xs i = (if i < length xs then Some (xs ! i) else None)"

text \<open>\<open>str.strip_prefix\<close>, \<open>str.strip_suffix\<close> and \<open>str.split_once\<close>.\<close>

fun strip_prefix :: "'a list \<Rightarrow> 'a list \<Rightarrow> 'a list option" where
  "strip_prefix [] ys = Some ys"
| "strip_prefix (x # xs) [] = None"
| "strip_prefix (x # xs) (y # ys) = (if x = y then strip_prefix xs ys else None)"

definition starts_with :: "'a list \<Rightarrow> 'a list \<Rightarrow> bool" where
  "starts_with p s = (strip_prefix p s \<noteq> None)"

definition strip_suffix :: "'a list \<Rightarrow> 'a list \<Rightarrow> 'a list option" where
  "strip_suffix p s = map_option rev (strip_prefix (rev p) (rev s))"

definition ends_with :: "'a list \<Rightarrow> 'a list \<Rightarrow> bool" where
  "ends_with p s = (strip_suffix p s \<noteq> None)"

fun split_once :: "'a list \<Rightarrow> 'a list \<Rightarrow> ('a list \<times> 'a list) option" where
  "split_once p [] = (if p = [] then Some ([], []) else None)"
| "split_once p (x # xs) =
     (case strip_prefix p (x # xs) of
        Some r \<Rightarrow> Some ([], r)
      | None \<Rightarrow> map_option (\<lambda>(a, b). (x # a, b)) (split_once p xs))"

lemma strip_prefix_Some_iff: "strip_prefix p s = Some r \<longleftrightarrow> s = p @ r"
  by (induction p s rule: strip_prefix.induct) auto

lemma starts_with_iff: "starts_with p s \<longleftrightarrow> (\<exists>r. s = p @ r)"
  by (cases "strip_prefix p s") (auto simp: starts_with_def simp flip: strip_prefix_Some_iff)

lemma strip_suffix_Some_iff: "strip_suffix p s = Some r \<longleftrightarrow> s = r @ p"
proof -
  have "strip_suffix p s = Some r \<longleftrightarrow> strip_prefix (rev p) (rev s) = Some (rev r)"
    by (auto simp: strip_suffix_def map_option_case split: option.splits)
  also have "\<dots> \<longleftrightarrow> rev s = rev p @ rev r" by (simp add: strip_prefix_Some_iff)
  also have "\<dots> \<longleftrightarrow> s = r @ p" by (metis rev_append rev_rev_ident)
  finally show ?thesis .
qed

lemma ends_with_iff: "ends_with p s \<longleftrightarrow> (\<exists>r. s = r @ p)"
  by (cases "strip_suffix p s") (auto simp: ends_with_def simp flip: strip_suffix_Some_iff)

lemma split_once_SomeD: "split_once p s = Some (a, b) \<Longrightarrow> s = a @ p @ b"
  by (induction s arbitrary: a)
    (auto simp: strip_prefix_Some_iff split: if_splits option.splits)

text \<open>\<open>str.contains\<close>.\<close>

fun contains_str :: "'a list \<Rightarrow> 'a list \<Rightarrow> bool" where
  "contains_str p [] = (p = [])"
| "contains_str p (x # xs) = (starts_with p (x # xs) \<or> contains_str p xs)"

lemma contains_str_iff: "contains_str p s \<longleftrightarrow> (\<exists>a b. s = a @ p @ b)"
proof (induction s)
  case (Cons x xs)
  have "(\<exists>a b. x # xs = a @ p @ b) \<longleftrightarrow> (\<exists>b. x # xs = p @ b) \<or> (\<exists>a b. xs = a @ p @ b)"
    by (metis append_Cons append_Nil list.exhaust list.inject)
  then show ?case by (simp add: Cons.IH starts_with_iff)
qed simp

text \<open>\<open>Option::is_some_and\<close> and \<open>Option::is_none_or\<close>.\<close>

primrec is_some_and :: "('a \<Rightarrow> bool) \<Rightarrow> 'a option \<Rightarrow> bool" where
  "is_some_and P None \<longleftrightarrow> False"
| "is_some_and P (Some x) \<longleftrightarrow> P x"

primrec is_none_or :: "('a \<Rightarrow> bool) \<Rightarrow> 'a option \<Rightarrow> bool" where
  "is_none_or P None \<longleftrightarrow> True"
| "is_none_or P (Some x) \<longleftrightarrow> P x"

lemma not_is_some_and: "\<not> is_some_and P x \<longleftrightarrow> is_none_or (\<lambda>y. \<not> P y) x"
  by (cases x) simp_all

text \<open>\<open>iter.find(p)\<close> on a list of distinct keys.\<close>

lemma find_Some_in: "find P xs = Some x \<Longrightarrow> x \<in> set xs \<and> P x"
  by (auto simp: find_Some_iff in_set_conv_nth)

end
