(* ===== verification/Ordered_Table.thy ===== *)
theory Ordered_Table
  imports Nits_Prelude
begin

text \<open>
  The tables of the embedded database, as the store uses them: a table maps keys to values,
  \<open>insert\<close> overwrites, \<open>remove\<close> deletes, and \<open>iter\<close>/\<open>range\<close> visit the entries in key
  order. The contract is the locale \<open>ordered_kv\<close>; \<open>table\<close> is its executable model, a list
  of entries with strictly increasing keys.
\<close>

section \<open>The contract\<close>

locale ordered_kv =
  fixes kv_empty :: "'t"
    and kv_get :: "'t \<Rightarrow> 'k::linorder \<Rightarrow> 'v option"
    and kv_insert :: "'k \<Rightarrow> 'v \<Rightarrow> 't \<Rightarrow> 't"
    and kv_remove :: "'k \<Rightarrow> 't \<Rightarrow> 't"
    and kv_entries :: "'t \<Rightarrow> ('k \<times> 'v) list"
  assumes get_empty: "kv_get kv_empty = Map.empty"
    and get_insert: "kv_get (kv_insert k v t) = (kv_get t)(k \<mapsto> v)"
    and get_remove: "kv_get (kv_remove k t) = (kv_get t)(k := None)"
    and entries_sorted: "sorted_wrt (<) (map fst (kv_entries t))"
    and get_entries: "kv_get t = map_of (kv_entries t)"
begin

lemma entries_distinct: "distinct (map fst (kv_entries t))"
  using entries_sorted [of t] by (simp add: strict_sorted_iff)

lemma in_entries_iff: "(k, v) \<in> set (kv_entries t) \<longleftrightarrow> kv_get t k = Some v"
  by (simp add: get_entries entries_distinct)

lemma entries_eqI: "kv_get t = kv_get u \<Longrightarrow> kv_entries t = kv_entries u"
proof -
  assume eq: "kv_get t = kv_get u"
  have sets: "set (kv_entries t) = set (kv_entries u)"
    using eq in_entries_iff [of _ _ t] in_entries_iff [of _ _ u] by auto
  have keys: "map fst (kv_entries t) = map fst (kv_entries u)"
  proof (rule sorted_distinct_set_unique)
    show "sorted (map fst (kv_entries t))" "sorted (map fst (kv_entries u))"
      using entries_sorted by (simp_all add: strict_sorted_iff)
    show "set (map fst (kv_entries t)) = set (map fst (kv_entries u))"
      using sets by simp
  qed (simp_all add: entries_distinct)
  show "kv_entries t = kv_entries u"
  proof (rule nth_equalityI)
    show len: "length (kv_entries t) = length (kv_entries u)"
      using arg_cong [OF keys, of length] by simp
    fix i assume i: "i < length (kv_entries t)"
    have k: "fst (kv_entries t ! i) = fst (kv_entries u ! i)"
      using i len arg_cong [OF keys, of "\<lambda>xs. xs ! i"] by simp
    have "kv_get t (fst (kv_entries t ! i)) = Some (snd (kv_entries t ! i))"
      using i by (simp flip: in_entries_iff)
    moreover have "kv_get u (fst (kv_entries u ! i)) = Some (snd (kv_entries u ! i))"
      using i len by (simp flip: in_entries_iff)
    ultimately show "kv_entries t ! i = kv_entries u ! i"
      using k eq by (simp add: prod_eq_iff)
  qed
qed

lemma get_insert_same: "kv_get (kv_insert k v t) k = Some v"
  by (simp add: get_insert)

lemma get_insert_other: "k' \<noteq> k \<Longrightarrow> kv_get (kv_insert k v t) k' = kv_get t k'"
  by (simp add: get_insert)

end

section \<open>The model: sorted association lists\<close>

fun ins_list :: "'k::linorder \<Rightarrow> 'v \<Rightarrow> ('k \<times> 'v) list \<Rightarrow> ('k \<times> 'v) list" where
  "ins_list k v [] = [(k, v)]"
| "ins_list k v ((k', v') # es) =
     (if k = k' then (k, v) # es
      else if k < k' then (k, v) # (k', v') # es
      else (k', v') # ins_list k v es)"

abbreviation sorted_keys :: "('k::linorder \<times> 'v) list \<Rightarrow> bool" where
  "sorted_keys es \<equiv> sorted_wrt (<) (map fst es)"

lemma set_ins_list_keys: "fst ` set (ins_list k v es) = insert k (fst ` set es)"
  by (induction k v es rule: ins_list.induct) auto

lemma sorted_ins_list: "sorted_keys es \<Longrightarrow> sorted_keys (ins_list k v es)"
proof (induction k v es rule: ins_list.induct)
  case (2 k v k' v' es)
  then show ?case using set_ins_list_keys [of k v es] by auto
qed simp

lemma map_of_ins_list: "map_of (ins_list k v es) = (map_of es)(k \<mapsto> v)"
  by (induction k v es rule: ins_list.induct) auto

lemma sorted_filter_keys: "sorted_keys es \<Longrightarrow> sorted_keys (filter P es)"
  by (induction es) auto

lemma map_of_filter_key: "map_of (filter (\<lambda>e. fst e \<noteq> k) es) = (map_of es)(k := None)"
  by (induction es) auto

typedef (overloaded) ('k::linorder, 'v) table = "{es :: ('k \<times> 'v) list. sorted_keys es}"
  morphisms tbl_entries Table
proof
  show "[] \<in> {es :: ('k \<times> 'v) list. sorted_keys es}" by simp
qed

setup_lifting type_definition_table

lift_definition tbl_empty :: "('k::linorder, 'v) table" is "[]"
  by simp

lift_definition tbl_insert :: "'k::linorder \<Rightarrow> 'v \<Rightarrow> ('k, 'v) table \<Rightarrow> ('k, 'v) table"
  is ins_list
  by (rule sorted_ins_list)

lift_definition tbl_remove :: "'k::linorder \<Rightarrow> ('k, 'v) table \<Rightarrow> ('k, 'v) table"
  is "\<lambda>k es. filter (\<lambda>e. fst e \<noteq> k) es"
  by (rule sorted_filter_keys)

lift_definition tbl_get :: "('k::linorder, 'v) table \<Rightarrow> 'k \<Rightarrow> 'v option"
  is map_of .

text \<open>\<open>table.iter()\<close> and \<open>table.range(..)\<close>: values in key order, keys restricted to a range.\<close>

definition tbl_values :: "('k::linorder, 'v) table \<Rightarrow> 'v list" where
  "tbl_values t = map snd (tbl_entries t)"

definition tbl_range :: "('k::linorder \<Rightarrow> bool) \<Rightarrow> ('k, 'v) table \<Rightarrow> ('k \<times> 'v) list" where
  "tbl_range P t = filter (\<lambda>e. P (fst e)) (tbl_entries t)"

text \<open>\<open>table.last()\<close>: the entry with the greatest key.\<close>

definition tbl_last :: "('k::linorder, 'v) table \<Rightarrow> ('k \<times> 'v) option" where
  "tbl_last t = (if tbl_entries t = [] then None else Some (last (tbl_entries t)))"

interpretation tbl: ordered_kv tbl_empty tbl_get tbl_insert tbl_remove tbl_entries
proof unfold_locales
  fix k :: "'a::linorder" and v :: 'b and t :: "('a, 'b) table"
  show "tbl_get tbl_empty = (Map.empty :: 'a \<rightharpoonup> 'b)" by transfer simp
  show "tbl_get (tbl_insert k v t) = (tbl_get t)(k \<mapsto> v)"
    by transfer (rule map_of_ins_list)
  show "tbl_get (tbl_remove k t) = (tbl_get t)(k := None)"
    by transfer (rule map_of_filter_key)
  show "sorted_keys (tbl_entries t)" by transfer simp
  show "tbl_get t = map_of (tbl_entries t)" by transfer simp
qed

lemmas table_laws [simp, table_simps] = tbl.get_empty tbl.get_insert tbl.get_remove

lemma tbl_eqI: "tbl_get t = tbl_get u \<Longrightarrow> t = u"
  using tbl.entries_eqI [of t u] by (simp add: tbl_entries_inject)

lemma tbl_entries_empty [simp]: "tbl_entries tbl_empty = []"
  by transfer simp

lemma tbl_entries_insert: "tbl_entries (tbl_insert k v t) = ins_list k v (tbl_entries t)"
  by transfer simp

lemma tbl_range_iff: "(k, v) \<in> set (tbl_range P t) \<longleftrightarrow> P k \<and> tbl_get t k = Some v"
  by (auto simp: tbl_range_def tbl.in_entries_iff)

lemma tbl_range_values_iff: "v \<in> snd ` set (tbl_range P t) \<longleftrightarrow> (\<exists>k. P k \<and> tbl_get t k = Some v)"
proof
  assume "v \<in> snd ` set (tbl_range P t)"
  then obtain k where "(k, v) \<in> set (tbl_range P t)" by auto
  then show "\<exists>k. P k \<and> tbl_get t k = Some v" unfolding tbl_range_iff by blast
next
  assume "\<exists>k. P k \<and> tbl_get t k = Some v"
  then obtain k where "(k, v) \<in> set (tbl_range P t)" unfolding tbl_range_iff by blast
  then show "v \<in> snd ` set (tbl_range P t)" by (metis imageI snd_conv)
qed

lemma tbl_values_iff: "v \<in> set (tbl_values t) \<longleftrightarrow> (\<exists>k. tbl_get t k = Some v)"
  unfolding tbl_values_def by (force simp flip: tbl.in_entries_iff)

text \<open>Inserting beyond the greatest key appends.\<close>

lemma ins_list_snoc: "\<forall>k'\<in>fst ` set es. k' < k \<Longrightarrow> ins_list k v es = es @ [(k, v)]"
  by (induction k v es rule: ins_list.induct) auto

lemma tbl_insert_snoc:
  "\<forall>k'\<in>fst ` set (tbl_entries t). k' < k \<Longrightarrow>
     tbl_entries (tbl_insert k v t) = tbl_entries t @ [(k, v)]"
  by (simp add: tbl_entries_insert ins_list_snoc)

text \<open>A predicate that every stored row satisfies.\<close>

definition tbl_all :: "('k::linorder \<Rightarrow> 'v \<Rightarrow> bool) \<Rightarrow> ('k, 'v) table \<Rightarrow> bool" where
  "tbl_all P t \<longleftrightarrow> (\<forall>e\<in>set (tbl_entries t). P (fst e) (snd e))"

lemma tbl_all_iff: "tbl_all P t \<longleftrightarrow> (\<forall>k v. tbl_get t k = Some v \<longrightarrow> P k v)"
  by (force simp: tbl_all_def simp flip: tbl.in_entries_iff)

lemma tbl_all_empty [simp]: "tbl_all P tbl_empty"
  by (simp add: tbl_all_def)

lemma tbl_allD: "tbl_all P t \<Longrightarrow> tbl_get t k = Some v \<Longrightarrow> P k v"
  by (simp add: tbl_all_iff)

lemma tbl_all_insert: "tbl_all P t \<Longrightarrow> P k v \<Longrightarrow> tbl_all P (tbl_insert k v t)"
  by (auto simp: tbl_all_iff)

lemma tbl_all_remove: "tbl_all P t \<Longrightarrow> tbl_all P (tbl_remove k t)"
  by (auto simp: tbl_all_iff)

lemmas tbl_all_intros = tbl_all_empty tbl_all_insert tbl_all_remove

text \<open>Collecting values into a table under distinct keys.\<close>

lemma fold_insert_iff:
  assumes "distinct (map key xs)"
  shows "tbl_get (fold (\<lambda>x. tbl_insert (key x) (val x)) xs tbl_empty) k = Some v
    \<longleftrightarrow> (\<exists>x\<in>set xs. key x = k \<and> val x = v)"
  using assms
proof (induction xs rule: rev_induct)
  case (snoc x xs)
  then show ?case by (auto simp: image_iff)
qed simp

lemma values_distinct: "tbl_all (\<lambda>k v. key v = k) t \<Longrightarrow> distinct (map key (tbl_values t))"
proof -
  assume "tbl_all (\<lambda>k v. key v = k) t"
  then have "map key (tbl_values t) = map fst (tbl_entries t)" by (auto simp: tbl_all_def tbl_values_def)
  then show ?thesis using tbl.entries_distinct [of t] by simp
qed

lemma entries_card: "length (tbl_entries t) = card (dom (tbl_get t))"
proof -
  have "dom (tbl_get t) = set (map fst (tbl_entries t))" by (simp add: tbl.get_entries dom_map_of_conv_image_fst)
  then show ?thesis using distinct_card [OF tbl.entries_distinct [of t]] by simp
qed

lemma finite_dom_tbl: "finite (dom (tbl_get t))"
  by (simp add: tbl.get_entries finite_dom_map_of)

end
