(* ===== verification/Nits_Ids.thy ===== *)
theory Nits_Ids
  imports Ordered_Table
begin

text \<open>
  Identifiers of the wire protocol (\<open>crates/nits-protocol/src/ids.rs\<close>): ULID-backed entity
  ids, git object ids with their hexadecimal form, sequence numbers.
\<close>

unbundle bit_operations_syntax

type_synonym u8 = "8 word"
type_synonym u32 = "32 word"
type_synonym u64 = "64 word"
type_synonym u128 = "128 word"

section \<open>Entity ids\<close>

text \<open>
  A ULID is a 48-bit millisecond timestamp and 80 bits of entropy, ordered by the timestamp
  first; \<open>from_parts\<close> keeps the low bits of both. Its canonical text is injective and sorts
  like the value, so a table keyed by that text is keyed here by the ULID itself.
\<close>

datatype ulid = Ulid (ulid_timestamp_ms: "48 word") (ulid_random: "80 word")

instantiation ulid :: linorder
begin

definition less_eq_ulid :: "ulid \<Rightarrow> ulid \<Rightarrow> bool" where
  "less_eq_ulid a b \<longleftrightarrow>
     (ulid_timestamp_ms a, ulid_random a) \<le> (ulid_timestamp_ms b, ulid_random b)"

definition less_ulid :: "ulid \<Rightarrow> ulid \<Rightarrow> bool" where
  "less_ulid a b \<longleftrightarrow>
     (ulid_timestamp_ms a, ulid_random a) < (ulid_timestamp_ms b, ulid_random b)"

instance
proof
  fix a b c :: ulid
  show "a < b \<longleftrightarrow> a \<le> b \<and> \<not> b \<le> a"
    unfolding less_ulid_def less_eq_ulid_def by auto
  show "a \<le> a" unfolding less_eq_ulid_def by simp
  show "a \<le> b \<Longrightarrow> b \<le> c \<Longrightarrow> a \<le> c" unfolding less_eq_ulid_def by (rule order_trans)
  show "a \<le> b \<Longrightarrow> b \<le> a \<Longrightarrow> a = b"
    unfolding less_eq_ulid_def by (cases a; cases b) auto
  show "a \<le> b \<or> b \<le> a" unfolding less_eq_ulid_def by auto
qed

end

definition ulid_from_parts :: "u64 \<Rightarrow> u128 \<Rightarrow> ulid" where
  "ulid_from_parts timestamp_ms random = Ulid (ucast timestamp_ms) (ucast random)"

definition timestamp_ms :: "ulid \<Rightarrow> u64" where
  "timestamp_ms u = ucast (ulid_timestamp_ms u)"

definition random_part :: "ulid \<Rightarrow> u128" where
  "random_part u = ucast (ulid_random u)"

datatype workspace_id = WorkspaceId (workspace_key: ulid)
datatype repo_id = RepoId (repo_key: ulid)
datatype review_id = ReviewId (review_key: ulid)
datatype comment_id = CommentId (comment_key: ulid)
datatype thread_id = ThreadId (thread_key: ulid)
datatype client_id = ClientId (client_key: ulid)

text \<open>An id is its key.\<close>

lemma id_key_inject [simp]:
  "workspace_key w = workspace_key w' \<longleftrightarrow> w = w'"
  "repo_key p = repo_key p' \<longleftrightarrow> p = p'"
  "review_key r = review_key r' \<longleftrightarrow> r = r'"
  "comment_key c = comment_key c' \<longleftrightarrow> c = c'"
  "thread_key t = thread_key t' \<longleftrightarrow> t = t'"
  by (auto intro: workspace_id.expand repo_id.expand review_id.expand comment_id.expand
      thread_id.expand)

lemma ulid_parts_roundtrip: "ulid_from_parts (timestamp_ms u) (random_part u) = u"
proof -
  have "(ucast (ucast x :: u64) :: 48 word) = x" for x :: "48 word"
    by (rule ucast_up_ucast_id) (simp add: is_up_def source_size_def target_size_def word_size)
  moreover have "(ucast (ucast y :: u128) :: 80 word) = y" for y :: "80 word"
    by (rule ucast_up_ucast_id) (simp add: is_up_def source_size_def target_size_def word_size)
  ultimately show ?thesis
    by (simp add: ulid_from_parts_def timestamp_ms_def random_part_def)
qed

section \<open>Sequence numbers\<close>

type_synonym seq = u64
type_synonym client_seq = u64
type_synonym timestamp = int

definition seq_FIRST :: seq where
  "seq_FIRST = 1"

text \<open>\<open>Seq::next\<close> adds one in 64 bits.\<close>

definition seq_next :: "seq \<Rightarrow> seq" where
  "seq_next s = s + 1"

definition client_seq_next :: "client_seq \<Rightarrow> client_seq" where
  "client_seq_next s = s + 1"

lemma seq_next_of_nat: "seq_next (of_nat n) = of_nat (Suc n)"
  by (simp add: seq_next_def)

lemma seq_of_nat_less: "m < n \<Longrightarrow> n < 2 ^ 64 \<Longrightarrow> (of_nat m :: seq) < of_nat n"
  by (simp add: word_less_nat_alt unat_of_nat take_bit_nat_eq_self)

datatype review_request_id = ReviewRequestId (request_event_seq: seq)
datatype review_checkpoint_id = ReviewCheckpointId (checkpoint_event_seq: seq)

section \<open>Object ids\<close>

text \<open>\<open>Oid([u8; 20])\<close>; the array length is the well-formedness condition \<open>oid_wf\<close>.\<close>

datatype oid = Oid (oid_bytes: "u8 list")

definition oid_wf :: "oid \<Rightarrow> bool" where
  "oid_wf x \<longleftrightarrow> length (oid_bytes x) = 20"

definition oid_zero :: oid where
  "oid_zero = Oid (replicate 20 0)"

datatype blob_oid = BlobOid (blob_oid_oid: oid)
datatype commit_oid = CommitOid (commit_oid_oid: oid)
datatype tree_oid = TreeOid (tree_oid_oid: oid)

datatype parse_id_error = ParseUlid string | ParseOid string

definition byte_of :: "char \<Rightarrow> u8" where
  "byte_of c = of_nat (of_char c)"

definition char_of_byte :: "u8 \<Rightarrow> char" where
  "char_of_byte b = char_of (unat b)"

text \<open>One digit of \<open>{:02x}\<close>.\<close>

definition hex_digit :: "u8 \<Rightarrow> char" where
  "hex_digit n = char_of_byte (if n < 10 then n + 48 else n + 87)"

fun hex_bytes :: "u8 list \<Rightarrow> string" where
  "hex_bytes [] = []"
| "hex_bytes (b # bs) = hex_digit (drop_bit 4 b) # hex_digit (b AND 15) # hex_bytes bs"

definition oid_display :: "oid \<Rightarrow> string" where
  "oid_display x = hex_bytes (oid_bytes x)"

definition hex_val :: "u8 \<Rightarrow> u8 option" where
  "hex_val c =
     (if 48 \<le> c \<and> c \<le> 57 then Some (c - 48)
      else if 97 \<le> c \<and> c \<le> 102 then Some (c - 97 + 10)
      else if 65 \<le> c \<and> c \<le> 70 then Some (c - 65 + 10)
      else None)"

text \<open>The loop over \<open>chunks(2)\<close>; a dangling half byte cannot occur after the length check.\<close>

fun hex_pairs :: "u8 list \<Rightarrow> u8 list option" where
  "hex_pairs [] = Some []"
| "hex_pairs [c] = None"
| "hex_pairs (c # d # cs) =
     (case hex_val c of
        None \<Rightarrow> None
      | Some hi \<Rightarrow>
          (case hex_val d of
             None \<Rightarrow> None
           | Some lo \<Rightarrow> map_option (\<lambda>bs. (push_bit 4 hi OR lo) # bs) (hex_pairs cs)))"

definition oid_from_str :: "string \<Rightarrow> (parse_id_error, oid) result" where
  "oid_from_str s =
     (if length s \<noteq> 40 then Inl (ParseOid s)
      else case hex_pairs (map byte_of s) of
             None \<Rightarrow> Inl (ParseOid s)
           | Some bs \<Rightarrow> Inr (Oid bs))"

subsection \<open>Printing and parsing agree\<close>

lemma unat_byte_of [simp]: "unat (byte_of c) = of_char c"
proof -
  have "(of_char c :: nat) < 256" by simp
  then show ?thesis by (simp add: byte_of_def unat_of_nat)
qed

lemma char_of_byte_of [simp]: "char_of_byte (byte_of c) = c"
  by (simp add: char_of_byte_def)

lemma byte_of_char_of_byte [simp]: "byte_of (char_of_byte b) = b"
proof -
  have "unat b < 256" using unsigned_less [of b] by simp
  then have "unat (byte_of (char_of_byte b)) = unat b"
    by (simp add: char_of_byte_def unat_byte_of)
  then show ?thesis by (simp only: unsigned_word_eqI)
qed

lemma byte_cases:
  assumes "lo \<le> (c :: u8)" "c \<le> hi"
  shows "\<exists>k\<in>set [unat lo..<Suc (unat hi)]. c = of_nat k"
proof
  show "c = of_nat (unat c)" by simp
  show "unat c \<in> set [unat lo..<Suc (unat hi)]"
    using assms by (simp only: set_upt atLeastLessThan_iff word_le_nat_alt less_Suc_eq_le)
qed

lemma hex_val_digit: "n < 16 \<Longrightarrow> hex_val (byte_of (hex_digit n)) = Some n"
proof -
  assume "n < 16"
  then have "0 \<le> n" "n \<le> 15" by (simp_all add: word_less_nat_alt word_le_nat_alt)
  from byte_cases [OF this] obtain k where k: "k \<in> set [0..<16]" "n = of_nat k" by auto
  have "[0..<16] = [0, 1, 2, 3, 4, 5, 6, 7, 8, 9, 10, 11, 12, 13, 14, 15]"
    by (simp add: upt_conv_Cons)
  with k(1) have "k \<in> set [0, 1, 2, 3, 4, 5, 6, 7, 8, 9, 10, 11, 12, 13, 14, 15]" by (simp only:)
  then show ?thesis
    unfolding hex_digit_def hex_val_def byte_of_char_of_byte k(2) list.set insert_iff empty_iff
    by (elim disjE FalseE; hypsubst) simp_all
qed

lemma nibbles: "push_bit 4 (drop_bit 4 b) OR (b AND 15) = (b :: u8)"
proof -
  have m: "(15 :: u8) = mask 4" by (simp add: mask_eq_decr_exp)
  show ?thesis unfolding m by (rule bit_word_eqI) (auto simp: bit_simps)
qed

lemma high_nibble: "drop_bit 4 (b :: u8) < 16"
proof -
  have "unat b < 256" using unsigned_less [of b] by simp
  then have "unat (drop_bit 4 b) < 16" by (simp add: drop_bit_eq_div unat_div)
  then show ?thesis by (simp add: word_less_nat_alt)
qed

lemma low_nibble: "(b AND 15 :: u8) < 16"
proof -
  have "b AND 15 \<le> (15 :: u8)" by (rule word_and_le1)
  also have "\<dots> < 16" by simp
  finally show ?thesis .
qed

lemma hex_pairs_hex_bytes: "hex_pairs (map byte_of (hex_bytes bs)) = Some bs"
proof (induction bs)
  case (Cons b bs)
  then show ?case
    by (simp add: hex_val_digit high_nibble low_nibble nibbles)
qed simp

lemma length_hex_bytes [simp]: "length (hex_bytes bs) = 2 * length bs"
  by (induction bs) simp_all

lemma hex_pairs_length: "hex_pairs cs = Some bs \<Longrightarrow> length cs = 2 * length bs"
  by (induction cs arbitrary: bs rule: hex_pairs.induct) (auto split: option.splits)

lemma oid_display_inj: "oid_display x = oid_display y \<Longrightarrow> x = y"
proof -
  assume "oid_display x = oid_display y"
  then have "hex_pairs (map byte_of (hex_bytes (oid_bytes x))) =
      hex_pairs (map byte_of (hex_bytes (oid_bytes y)))"
    by (simp add: oid_display_def)
  then show "x = y" by (simp add: hex_pairs_hex_bytes oid.expand)
qed

text \<open>Lower-casing of the letters \<open>A\<close> to \<open>F\<close>, the only freedom the parser leaves.\<close>

definition hex_lower :: "char \<Rightarrow> char" where
  "hex_lower c = (if 65 \<le> byte_of c \<and> byte_of c \<le> 70 then char_of_byte (byte_of c + 32) else c)"

lemma hex_val_SomeD:
  assumes "hex_val (byte_of c) = Some n"
  shows "n < 16 \<and> hex_digit n = hex_lower c"
proof -
  define b where "b = byte_of c"
  have c: "c = char_of_byte b" by (simp add: b_def)
  consider (digit) "48 \<le> b" "b \<le> 57" | (lower) "97 \<le> b" "b \<le> 102" | (upper) "65 \<le> b" "b \<le> 70"
    using assms by (auto simp: hex_val_def b_def split: if_splits)
  then show ?thesis
  proof cases
    case digit
    from byte_cases [OF this] assms show ?thesis
      unfolding c hex_digit_def hex_lower_def hex_val_def byte_of_char_of_byte
      by (auto simp: upt_rec)
  next
    case lower
    from byte_cases [OF this] assms show ?thesis
      unfolding c hex_digit_def hex_lower_def hex_val_def byte_of_char_of_byte
      by (auto simp: upt_rec)
  next
    case upper
    from byte_cases [OF this] assms show ?thesis
      unfolding c hex_digit_def hex_lower_def hex_val_def byte_of_char_of_byte
      by (auto simp: upt_rec)
  qed
qed

lemma join_nibbles:
  assumes "hi < (16 :: u8)" "lo < 16"
  shows "drop_bit 4 (push_bit 4 hi OR lo) = hi" "(push_bit 4 hi OR lo) AND 15 = lo"
proof -
  have small: "\<not> bit x n" if "x < 16" "4 \<le> n" for x :: u8 and n
  proof -
    have "unat x < 16" using that(1) by (simp add: word_less_nat_alt)
    also have "(16 :: nat) = 2 ^ 4" by simp
    also have "\<dots> \<le> 2 ^ n" using that(2) by (rule power_increasing) simp
    finally have "\<not> bit (unat x) n" by (simp add: bit_iff_odd)
    then show ?thesis by (simp add: bit_unsigned_iff)
  qed
  have m: "(15 :: u8) = mask 4" by (simp add: mask_eq_decr_exp)
  show "drop_bit 4 (push_bit 4 hi OR lo) = hi"
    by (rule bit_word_eqI)
      (use small [OF assms(1)] small [OF assms(2)] in \<open>auto simp: bit_simps intro: ccontr\<close>)
  show "(push_bit 4 hi OR lo) AND 15 = lo"
    unfolding m by (rule bit_word_eqI) (use small [OF assms(2)] in \<open>auto simp: bit_simps intro: ccontr\<close>)
qed

lemma hex_bytes_hex_pairs:
  "hex_pairs (map byte_of s) = Some bs \<Longrightarrow> hex_bytes bs = map hex_lower s"
proof (induction "map byte_of s" arbitrary: s bs rule: hex_pairs.induct)
  case (3 c d cs)
  then obtain c' d' s' where s: "s = c' # d' # s'" "c = byte_of c'" "d = byte_of d'"
      "cs = map byte_of s'"
    by (auto simp: Cons_eq_map_conv)
  from 3 s obtain hi lo bs' where h: "hex_val (byte_of c') = Some hi"
      "hex_val (byte_of d') = Some lo" "hex_pairs (map byte_of s') = Some bs'"
      "bs = (push_bit 4 hi OR lo) # bs'"
    by (auto split: option.splits)
  with 3(1) s have "hex_bytes bs' = map hex_lower s'" by simp
  then show ?case
    using hex_val_SomeD [OF h(1)] hex_val_SomeD [OF h(2)] by (simp add: s h(4) join_nibbles del: drop_bit_or)
qed auto

text \<open>
  An object id prints to 40 characters that parse back to the same id, and whenever a
  string parses, it has 40 characters and the id prints back to that string in lower case: the
  printed form is the one canonical spelling.
\<close>

lemma oid_display_parse:
  "(oid_wf x \<longrightarrow> oid_from_str (oid_display x) = Inr x) \<and>
   (oid_from_str s = Inr y \<longrightarrow> oid_wf y \<and> length s = 40 \<and> oid_display y = map hex_lower s)"
proof (intro conjI impI)
  assume "oid_wf x"
  then show "oid_from_str (oid_display x) = Inr x"
    by (simp add: oid_from_str_def oid_display_def oid_wf_def hex_pairs_hex_bytes)
next
  assume "oid_from_str s = Inr y"
  then obtain bs where "length s = 40" "hex_pairs (map byte_of s) = Some bs" "y = Oid bs"
    by (auto simp: oid_from_str_def split: if_splits option.splits)
  then show "oid_wf y" "length s = 40" "oid_display y = map hex_lower s"
    using hex_pairs_length [of "map byte_of s" bs]
    by (simp_all add: oid_wf_def oid_display_def hex_bytes_hex_pairs)
qed

section \<open>Checked arithmetic\<close>

definition u32_checked_add :: "u32 \<Rightarrow> u32 \<Rightarrow> u32 option" where
  "u32_checked_add a b = (if unat a + unat b < 2 ^ 32 then Some (a + b) else None)"

lemma u32_checked_add_of_nat: "Suc n < 2 ^ 32 \<Longrightarrow> u32_checked_add (of_nat n) 1 = Some (of_nat (Suc n))"
  by (simp add: u32_checked_add_def unat_of_nat take_bit_nat_eq_self)

end
