(* ===== verification/Nits_Invariants.thy ===== *)
theory Nits_Invariants
  imports Nits_Ids
begin

text \<open>
  The invariant-carrying wire types of \<open>crates/nits-protocol/src/invariants.rs\<close>: nonempty
  lists, 1-based line numbers and ranges, half-open column ranges, normalised repository
  paths and their display order. A private field of the source with a checking constructor is
  a datatype here with a well-formedness predicate, and every constructor is shown to
  establish it.
\<close>

datatype invariant_error =
    EmptyList
  | Inverted u32 u32
  | PathError string string

section \<open>Nonempty lists\<close>

datatype 'a nonempty = NonEmpty (ne_items: "'a list")

definition ne_wf :: "'a nonempty \<Rightarrow> bool" where
  "ne_wf n \<longleftrightarrow> ne_items n \<noteq> []"

definition ne_new :: "'a list \<Rightarrow> (invariant_error, 'a nonempty) result" where
  "ne_new items = (if items = [] then Inl EmptyList else Inr (NonEmpty items))"

definition ne_singleton :: "'a \<Rightarrow> 'a nonempty" where
  "ne_singleton item = NonEmpty [item]"

text \<open>\<open>&self.0[0]\<close>: \<open>None\<close> is the out-of-bounds panic.\<close>

definition ne_first :: "'a nonempty \<Rightarrow> 'a option" where
  "ne_first n = slice_at (ne_items n) 0"

definition ne_len :: "'a nonempty \<Rightarrow> nat" where
  "ne_len n = length (ne_items n)"

definition ne_push :: "'a nonempty \<Rightarrow> 'a \<Rightarrow> 'a nonempty" where
  "ne_push n item = NonEmpty (ne_items n @ [item])"

lemma ne_new_Inr_iff [result_simps]: "ne_new xs = Inr n \<longleftrightarrow> xs \<noteq> [] \<and> n = NonEmpty xs"
  by (auto simp: ne_new_def)

lemma ne_wf_intros [simp]:
  "ne_new xs = Inr n \<Longrightarrow> ne_wf n"
  "ne_wf (ne_singleton x)"
  "ne_wf (ne_push n x)"
  by (auto simp: ne_wf_def ne_singleton_def ne_push_def result_simps)

lemma ne_first_wf: "ne_wf n \<Longrightarrow> ne_first n = Some (hd (ne_items n))"
  by (cases n) (auto simp: ne_wf_def ne_first_def slice_at_def hd_conv_nth)

section \<open>Lines and ranges\<close>

datatype line_no = LineNo (line_get: u32)

definition line_wf :: "line_no \<Rightarrow> bool" where
  "line_wf l \<longleftrightarrow> line_get l \<noteq> 0"

definition line_new :: "u32 \<Rightarrow> line_no option" where
  "line_new n = (if n = 0 then None else Some (LineNo n))"

definition line_FIRST :: line_no where
  "line_FIRST = LineNo 1"

text \<open>\<open>NonZeroU32::new(i + 1)\<close>: at \<open>u32::MAX\<close> the sum wraps to 0 and the line is the first.\<close>

definition line_from_index :: "u32 \<Rightarrow> line_no" where
  "line_from_index i = (if i + 1 = 0 then line_FIRST else LineNo (i + 1))"

definition line_index :: "line_no \<Rightarrow> u32" where
  "line_index l = line_get l - 1"

lemma line_new_Some_iff [result_simps]: "line_new n = Some l \<longleftrightarrow> n \<noteq> 0 \<and> l = LineNo n"
  by (auto simp: line_new_def)

lemma line_wf_from_index [simp]: "line_wf (line_from_index i)"
  by (simp add: line_wf_def line_from_index_def line_FIRST_def)

lemma line_from_index_index [simp]: "line_wf l \<Longrightarrow> line_from_index (line_index l) = l"
  by (cases l) (simp add: line_wf_def line_from_index_def line_index_def)

lemma line_index_from_index: "i \<noteq> - 1 \<Longrightarrow> line_index (line_from_index i) = i"
  by (simp add: line_from_index_def line_index_def eq_neg_iff_add_eq_0)

datatype line_range = LineRange (range_start: line_no) (range_end: line_no)

definition range_wf :: "line_range \<Rightarrow> bool" where
  "range_wf r \<longleftrightarrow> line_wf (range_start r) \<and> line_wf (range_end r) \<and>
     line_get (range_start r) \<le> line_get (range_end r)"

definition range_new :: "line_no \<Rightarrow> line_no \<Rightarrow> (invariant_error, line_range) result" where
  "range_new s e =
     (if line_get s \<le> line_get e then Inr (LineRange s e)
      else Inl (Inverted (line_get s) (line_get e)))"

definition range_single :: "line_no \<Rightarrow> line_range" where
  "range_single l = LineRange l l"

definition range_len :: "line_range \<Rightarrow> u32" where
  "range_len r = line_get (range_end r) - line_get (range_start r) + 1"

definition range_contains :: "line_range \<Rightarrow> line_no \<Rightarrow> bool" where
  "range_contains r l \<longleftrightarrow>
     line_get (range_start r) \<le> line_get l \<and> line_get l \<le> line_get (range_end r)"

lemma range_new_Inr_iff [result_simps]:
  "range_new s e = Inr r \<longleftrightarrow> line_get s \<le> line_get e \<and> r = LineRange s e"
  by (auto simp: range_new_def)

lemma range_wf_intros [simp]:
  "line_wf s \<Longrightarrow> line_wf e \<Longrightarrow> range_new s e = Inr r \<Longrightarrow> range_wf r"
  "line_wf l \<Longrightarrow> range_wf (range_single l)"
  by (auto simp: range_wf_def range_single_def result_simps)

text \<open>a well-formed line range never overflows its length: \<open>len\<close> is the exact number of
  line numbers the range contains, and it is at least one.\<close>

lemma range_len_counts:
  assumes "range_wf r"
  shows "unat (range_len r) = card {l. range_contains r l} \<and> 0 < unat (range_len r)"
proof -
  define s e where "s = line_get (range_start r)" and "e = line_get (range_end r)"
  from assms have s: "0 < unat s" and se: "s \<le> e"
    by (auto simp: range_wf_def line_wf_def s_def e_def unat_gt_0)
  from se have le: "unat s \<le> unat e" by (simp add: word_le_nat_alt)
  have e: "unat e < 2 ^ 32" using unsigned_less [of e] by simp
  have "unat (e - s) = unat e - unat s" using se by (rule unat_sub)
  moreover from this s e le have "unat (e - s) + 1 < 2 ^ 32" by linarith
  ultimately have len: "unat (range_len r) = Suc (unat e - unat s)"
    by (simp add: range_len_def s_def e_def unat_word_ariths)
  have "{l. range_contains r l} = LineNo ` (word_of_nat ` {unat s..unat e})"
  proof (intro equalityI subsetI)
    fix l assume "l \<in> {l. range_contains r l}"
    then have "unat (line_get l) \<in> {unat s..unat e}"
      by (simp add: range_contains_def s_def e_def word_le_nat_alt)
    moreover have "l = LineNo (word_of_nat (unat (line_get l)))" by simp
    ultimately show "l \<in> LineNo ` (word_of_nat ` {unat s..unat e})" by blast
  next
    fix l assume "l \<in> LineNo ` (word_of_nat ` {unat s..unat e})"
    then obtain n where "l = LineNo (word_of_nat n)" "unat s \<le> n" "n \<le> unat e" by auto
    with e show "l \<in> {l. range_contains r l}"
      by (simp add: range_contains_def word_le_nat_alt unat_of_nat s_def e_def take_bit_nat_eq_self)
  qed
  moreover have "inj_on (word_of_nat :: nat \<Rightarrow> u32) {unat s..unat e}"
    by (rule inj_onI) (use e in \<open>simp add: word_of_nat_eq_iff take_bit_nat_eq_self\<close>)
  ultimately have "card {l. range_contains r l} = Suc (unat e - unat s)"
    using le by (simp add: card_image inj_on_def)
  with len show ?thesis by simp
qed

datatype col_range = ColRange (col_start: u32) (col_end: u32)

definition col_wf :: "col_range \<Rightarrow> bool" where
  "col_wf c \<longleftrightarrow> col_start c \<le> col_end c"

definition col_new :: "u32 \<Rightarrow> u32 \<Rightarrow> (invariant_error, col_range) result" where
  "col_new s e = (if s \<le> e then Inr (ColRange s e) else Inl (Inverted s e))"

definition col_len :: "col_range \<Rightarrow> u32" where
  "col_len c = col_end c - col_start c"

definition col_is_empty :: "col_range \<Rightarrow> bool" where
  "col_is_empty c \<longleftrightarrow> col_start c = col_end c"

lemma col_new_wf: "col_new s e = Inr c \<Longrightarrow> col_wf c \<and> unat (col_len c) = unat e - unat s"
  by (auto simp: col_new_def col_wf_def col_len_def unat_sub split: if_splits)

section \<open>Repository paths\<close>

abbreviation slash :: char where
  "slash \<equiv> CHR ''/''"

datatype repo_path = RepoPath (path_str: string)

definition repo_path_new :: "string \<Rightarrow> (invariant_error, repo_path) result" where
  "repo_path_new s =
     (if s = '''' then Inl (PathError s ''empty'')
      else if CHR 0x00 \<in> set s then Inl (PathError s ''contains NUL'')
      else if starts_with [slash] s then Inl (PathError s ''absolute'')
      else if ends_with [slash] s then Inl (PathError s ''trailing slash'')
      else case find (\<lambda>cn. cn = '''' \<or> cn = ''.'' \<or> cn = ''..'') (split_on slash s) of
             None \<Rightarrow> Inr (RepoPath s)
           | Some cn \<Rightarrow>
               Inl (PathError s (if cn = '''' then ''empty component'' else ''relative component'')))"

definition path_components :: "repo_path \<Rightarrow> string list" where
  "path_components p = split_on slash (path_str p)"

text \<open>\<open>rsplit_once('/')\<close>: the last component and what precedes its separator.\<close>

definition rsplit_once :: "'a \<Rightarrow> 'a list \<Rightarrow> ('a list \<times> 'a list) option" where
  "rsplit_once c s =
     (let ps = split_on c s
      in if length ps = 1 then None else Some (join_with c (butlast ps), last ps))"

definition path_file_name :: "repo_path \<Rightarrow> string" where
  "path_file_name p = last (split_on slash (path_str p))"

definition path_parent :: "repo_path \<Rightarrow> repo_path option" where
  "path_parent p = map_option (\<lambda>(q, _). RepoPath q) (rsplit_once slash (path_str p))"

definition path_extension :: "repo_path \<Rightarrow> string option" where
  "path_extension p =
     (case rsplit_once (CHR ''.'') (path_file_name p) of
        None \<Rightarrow> None
      | Some (stem, ext) \<Rightarrow> (if stem \<noteq> '''' then Some ext else None))"

text \<open>The invariant: no NUL, and no component is empty, \<open>.\<close> or \<open>..\<close>.\<close>

definition path_wf :: "repo_path \<Rightarrow> bool" where
  "path_wf p \<longleftrightarrow> CHR 0x00 \<notin> set (path_str p) \<and>
     set (path_components p) \<inter> {'''', ''.'', ''..''} = {}"

lemma starts_with_split_on: "starts_with [c] s \<Longrightarrow> [] \<in> set (split_on c s)"
  by (auto simp: starts_with_iff)

lemma split_on_snoc_sep: "split_on c (s @ [c]) = split_on c s @ [[]]"
proof (induction s)
  case (Cons x s)
  obtain q qs where "split_on c s = q # qs" by (cases "split_on c s") auto
  with Cons show ?case by auto
qed simp

lemma ends_with_split_on: "ends_with [c] s \<Longrightarrow> [] \<in> set (split_on c s)"
  by (auto simp: ends_with_iff split_on_snoc_sep)

lemma repo_path_new_Inr_iff:
  "repo_path_new s = Inr p \<longleftrightarrow> p = RepoPath s \<and> path_wf (RepoPath s)"
  by (auto simp: repo_path_new_def path_wf_def path_components_def find_None_iff
      dest: starts_with_split_on ends_with_split_on split: option.splits)
    (auto simp: find_Some_iff in_set_conv_nth)

lemma join_with_snoc: "ps \<noteq> [] \<Longrightarrow> join_with c (ps @ [p]) = join_with c ps @ c # p"
proof (induction ps)
  case (Cons q qs)
  then show ?case by (cases qs) auto
qed simp

lemma split_on_butlast: "butlast (split_on c s) \<noteq> [] \<Longrightarrow>
    split_on c (join_with c (butlast (split_on c s))) = butlast (split_on c s)"
  by (rule split_join_with) (auto dest: in_set_butlastD split_on_no_sep)

lemma path_parent_Some:
  assumes "path_parent p = Some q"
  shows "path_str p = path_str q @ slash # path_file_name p"
    and "path_components q = butlast (path_components p)"
proof -
  define ps where "ps = split_on slash (path_str p)"
  from assms have ne: "butlast ps \<noteq> []" and q: "path_str q = join_with slash (butlast ps)"
    by (cases ps, auto simp: path_parent_def rsplit_once_def Let_def ps_def split: if_splits)
  have "path_str p = join_with slash ps" "ps = butlast ps @ [last ps]"
    by (simp_all add: ps_def)
  then have "path_str p = join_with slash (butlast ps) @ slash # last ps"
    by (metis join_with_snoc [OF ne])
  then show "path_str p = path_str q @ slash # path_file_name p"
    by (simp only: q path_file_name_def ps_def)
  show "path_components q = butlast (path_components p)"
    using split_on_butlast [of slash "path_str p"] ne by (simp add: path_components_def q ps_def)
qed

lemma path_parent_wf: "path_wf p \<Longrightarrow> path_parent p = Some q \<Longrightarrow> path_wf q"
  using path_parent_Some [of p q] by (auto simp: path_wf_def dest: in_set_butlastD)

text \<open>
  \<open>RepoPath::new\<close> accepts exactly the strings whose \<open>/\<close>-separated components are
  none of the empty string, \<open>.\<close> and \<open>..\<close> and that hold no NUL byte, so a path can neither
  be absolute nor escape the repository; a path with a parent is its parent, a slash and its
  file name, and the parent is again a valid path.
\<close>

lemma repo_path_sound:
  "(repo_path_new s = Inr p \<longleftrightarrow>
      p = RepoPath s \<and> CHR 0x00 \<notin> set s \<and> set (split_on slash s) \<inter> {'''', ''.'', ''..''} = {}) \<and>
   (repo_path_new s = Inr p \<longrightarrow>
      (case path_parent p of
         None \<Rightarrow> path_file_name p = s
       | Some q \<Rightarrow> s = path_str q @ slash # path_file_name p \<and> repo_path_new (path_str q) = Inr q))"
proof (intro conjI impI)
  show "repo_path_new s = Inr p \<longleftrightarrow>
      p = RepoPath s \<and> CHR 0x00 \<notin> set s \<and> set (split_on slash s) \<inter> {'''', ''.'', ''..''} = {}"
    by (simp add: repo_path_new_Inr_iff path_wf_def path_components_def)
next
  assume "repo_path_new s = Inr p"
  then have p: "p = RepoPath s" "path_wf p" by (simp_all add: repo_path_new_Inr_iff)
  show "case path_parent p of
         None \<Rightarrow> path_file_name p = s
       | Some q \<Rightarrow> s = path_str q @ slash # path_file_name p \<and> repo_path_new (path_str q) = Inr q"
  proof (cases "path_parent p")
    case None
    then obtain x where "split_on slash s = [x]"
      by (cases "split_on slash s")
        (auto simp: path_parent_def rsplit_once_def Let_def p(1) split: if_splits)
    then have "x = s" by (metis join_split_on join_with.simps(2))
    with None \<open>split_on slash s = [x]\<close> show ?thesis by (simp add: path_file_name_def p(1))
  next
    case (Some q)
    with p path_parent_Some(1) [OF Some] path_parent_wf [OF p(2) Some] show ?thesis
      by (simp add: repo_path_new_Inr_iff)
  qed
qed

section \<open>Tree display order\<close>

datatype ordering = Less | Equal | Greater

definition cmp_of :: "'a::linorder \<Rightarrow> 'a \<Rightarrow> ordering" where
  "cmp_of x y = (if x < y then Less else if x = y then Equal else Greater)"

fun then_with :: "ordering \<Rightarrow> ordering \<Rightarrow> ordering" where
  "then_with Equal o' = o'"
| "then_with o' _ = o'"

text \<open>The loop over both component iterators; \<open>as \<noteq> []\<close> is \<open>xa.clone().next().is_some()\<close>.\<close>

fun tree_cmp :: "string list \<Rightarrow> string list \<Rightarrow> ordering" where
  "tree_cmp (ca # as) (cb # bs) =
     (let da = (as \<noteq> []); db = (bs \<noteq> [])
      in case then_with (cmp_of db da) (cmp_of ca cb) of
           Equal \<Rightarrow> tree_cmp as bs
         | other \<Rightarrow> other)"
| "tree_cmp as bs = cmp_of (as \<noteq> []) (bs \<noteq> [])"

definition tree_order :: "repo_path \<Rightarrow> repo_path \<Rightarrow> ordering" where
  "tree_order p q = tree_cmp (split_on slash (path_str p)) (split_on slash (path_str q))"

text \<open>The reference order: components tagged with whether they are the last one, compared
  lexicographically, so that a directory (\<open>False\<close>) precedes a file (\<open>True\<close>).\<close>

fun tree_key :: "string list \<Rightarrow> (bool \<times> string) list" where
  "tree_key [] = []"
| "tree_key (c # cs) = (cs = [], c) # tree_key cs"

lemma tree_key_Nil_iff: "tree_key cs = [] \<longleftrightarrow> cs = []" "[] = tree_key cs \<longleftrightarrow> cs = []"
  by (cases cs; simp)+

lemma tree_key_inj: "tree_key xs = tree_key ys \<Longrightarrow> xs = ys"
proof (induction xs arbitrary: ys)
  case Nil
  then show ?case by (cases ys) simp_all
next
  case (Cons x xs)
  then show ?case by (cases ys) auto
qed

lemma cmp_of_eq_simps:
  "cmp_of x y = Equal \<longleftrightarrow> x = y"
  "cmp_of x y = Less \<longleftrightarrow> x < y"
  "cmp_of x y = Greater \<longleftrightarrow> y < x"
  by (auto simp: cmp_of_def)

lemma cmp_of_Cons:
  "cmp_of (x # xs) (y # ys) = then_with (cmp_of x y) (cmp_of xs ys)"
  by (auto simp: cmp_of_def)

lemma cmp_of_Pair: "cmp_of (a, b) (c, d) = then_with (cmp_of a c) (cmp_of b d)"
  by (auto simp: cmp_of_def)

lemma cmp_of_not: "cmp_of (\<not> a) (\<not> b) = cmp_of b a"
  by (auto simp: cmp_of_def)

lemma tree_cmp_key: "tree_cmp xs ys = cmp_of (tree_key xs) (tree_key ys)"
proof (induction xs ys rule: tree_cmp.induct)
  case (1 ca as cb bs)
  show ?case
  proof (cases "then_with (cmp_of (bs \<noteq> []) (as \<noteq> [])) (cmp_of ca cb)")
    case Equal
    with 1 have "tree_cmp as bs = cmp_of (tree_key as) (tree_key bs)" by (simp add: Let_def)
    with Equal show ?thesis
      using cmp_of_not [of "as \<noteq> []" "bs \<noteq> []"] by (simp add: Let_def cmp_of_Cons cmp_of_Pair)
  qed (use cmp_of_not [of "as \<noteq> []" "bs \<noteq> []"] in \<open>simp_all add: Let_def cmp_of_Cons cmp_of_Pair\<close>)
qed (auto simp: cmp_of_def tree_key_Nil_iff neq_Nil_conv)

lemma tree_order_key:
  "tree_order p q = cmp_of (tree_key (path_components p)) (tree_key (path_components q))"
  by (simp add: tree_order_def tree_cmp_key path_components_def)

lemma tree_key_components_inj:
  "tree_key (path_components p) = tree_key (path_components q) \<longleftrightarrow> p = q"
proof
  assume "tree_key (path_components p) = tree_key (path_components q)"
  then have "path_str p = path_str q"
    unfolding path_components_def by (rule split_on_inj [OF tree_key_inj])
  then show "p = q" by (rule repo_path.expand)
qed simp

text \<open>
  The order file lists are served in is a strict total order on paths: two paths
  compare equal only when they are the same path, swapping the arguments swaps \<open>Less\<close> and
  \<open>Greater\<close>, and \<open>Less\<close> is transitive; and below one directory every subdirectory entry
  sorts before every plain file.
\<close>

lemma tree_order_strict_total:
  "(tree_order p q = Equal \<longleftrightarrow> p = q) \<and>
   (tree_order p q = Less \<longleftrightarrow> tree_order q p = Greater) \<and>
   (tree_order p q = Less \<longrightarrow> tree_order q r = Less \<longrightarrow> tree_order p r = Less) \<and>
   (path_components p = ds @ d # e # es \<longrightarrow> path_components q = ds @ [f] \<longrightarrow>
      tree_order p q = Less)"
proof (intro conjI impI)
  show "tree_order p q = Equal \<longleftrightarrow> p = q"
    by (simp add: tree_order_key cmp_of_eq_simps tree_key_components_inj)
  show "tree_order p q = Less \<longleftrightarrow> tree_order q p = Greater"
    by (simp add: tree_order_key cmp_of_eq_simps)
  show "tree_order p q = Less \<Longrightarrow> tree_order q r = Less \<Longrightarrow> tree_order p r = Less"
    unfolding tree_order_key cmp_of_eq_simps by (rule order_less_trans)
  assume p: "path_components p = ds @ d # e # es" and q: "path_components q = ds @ [f]"
  have "tree_key (ds @ d # e # es) < tree_key (ds @ [f])"
    by (induction ds) simp_all
  then show "tree_order p q = Less" by (simp add: tree_order_key cmp_of_eq_simps p q)
qed

end
