(* ===== verification/Nits_Domain.thy ===== *)
theory Nits_Domain
  imports Nits_Invariants
begin

text \<open>
  The domain model of \<open>crates/nits-protocol/src/domain.rs\<close>, \<open>suggestion.rs\<close> and
  \<open>events.rs\<close>: workspaces, reviews, targets, authors, anchors, comments, threads, viewed
  marks, changes, trees, and the events of the log. Structs are records whose fields carry a
  short prefix of their type; enum variants are named \<open>Type_Variant\<close>.
\<close>

section \<open>Workspaces, targets and reviews\<close>

record repo =
  rp_id :: repo_id
  rp_path :: string
  rp_display_name :: string

record workspace =
  ws_id :: workspace_id
  ws_name :: string
  ws_repos :: "repo list"

datatype revision_expr = RevisionExpr string

datatype ref_spec =
    RefSpec_Branch string
  | RefSpec_Commit commit_oid
  | RefSpec_Tag string
  | RefSpec_Revision revision_expr
  | RefSpec_WorkingTree
  | RefSpec_Upstream
  | RefSpec_Head

datatype base_ref_spec =
    BaseRefSpec_Branch string
  | BaseRefSpec_Commit commit_oid
  | BaseRefSpec_Tag string
  | BaseRefSpec_Revision revision_expr
  | BaseRefSpec_Upstream
  | BaseRefSpec_Head

fun ref_spec_from_base :: "base_ref_spec \<Rightarrow> ref_spec" where
  "ref_spec_from_base (BaseRefSpec_Branch name) = RefSpec_Branch name"
| "ref_spec_from_base (BaseRefSpec_Commit oid) = RefSpec_Commit oid"
| "ref_spec_from_base (BaseRefSpec_Tag name) = RefSpec_Tag name"
| "ref_spec_from_base (BaseRefSpec_Revision e) = RefSpec_Revision e"
| "ref_spec_from_base BaseRefSpec_Upstream = RefSpec_Upstream"
| "ref_spec_from_base BaseRefSpec_Head = RefSpec_Head"

datatype target_revision =
    TargetRevision_Base base_ref_spec
  | TargetRevision_Head ref_spec

record review_target_update =
  rtu_repo_id :: repo_id
  rtu_revision :: target_revision

datatype resolved_source =
    Source_Commit commit_oid
  | Source_WorkingTree (source_dirty: "repo_path list") (source_branch: "string option")
      (source_head: "commit_oid option")

record resolved_ref =
  rr_tree :: tree_oid
  rr_source :: resolved_source

record review_target =
  rt_repo_id :: repo_id
  rt_base :: ref_spec
  rt_head :: ref_spec

record resolved_target =
  rs_repo_id :: repo_id
  rs_base :: resolved_ref
  rs_head :: resolved_ref

datatype review_status = Status_Open | Status_Archived

record review =
  rv_id :: review_id
  rv_workspace_id :: workspace_id
  rv_title :: string
  rv_targets :: "review_target nonempty"
  rv_created :: timestamp
  rv_status :: review_status

record sig =
  sg_name :: string
  sg_email :: string
  sg_time :: timestamp
  sg_offset_minutes :: int

record commit_info =
  ci_oid :: commit_oid
  ci_parents :: "commit_oid list"
  ci_tree :: tree_oid
  ci_author :: sig
  ci_committer :: sig
  ci_subject :: string
  ci_body :: string

section \<open>Authors\<close>

record human =
  hm_name :: string
  hm_machine :: string

datatype agent_via = Via_Mcp | Via_Cli

datatype author =
    Author_Human string string
  | Author_Agent string string string "human option" agent_via
  | Author_Daemon string

definition author_human :: "human \<Rightarrow> author" where
  "author_human h = Author_Human (hm_name h) (hm_machine h)"

fun as_human :: "author \<Rightarrow> human option" where
  "as_human (Author_Human name machine) = Some \<lparr>hm_name = name, hm_machine = machine\<rparr>"
| "as_human (Author_Agent _ _ _ _ _) = None"
| "as_human (Author_Daemon _) = None"

fun_cases as_human_SomeE: "as_human a = Some h"

lemma as_human_author_human [simp]: "as_human (author_human h) = Some h"
  by (simp add: author_human_def)

section \<open>Anchors, comments and threads\<close>

datatype side = Side_Base | Side_Head

fun side_other :: "side \<Rightarrow> side" where
  "side_other Side_Base = Side_Head"
| "side_other Side_Head = Side_Base"

datatype context_hash = ContextHash (context_hash_get: u64)

datatype anchor =
    Anchor_Review
  | Anchor_File repo_id repo_path blob_oid
  | Anchor_Lines repo_id repo_path side blob_oid line_range context_hash

datatype comment_kind =
    Kind_Note
  | Kind_Informational
  | Kind_Suggestion string
  | Kind_Request

datatype comment_state =
    State_Live
  | State_Outdated (last_good_anchor: anchor)
  | State_Deleted

datatype blob_mode = Mode_Regular | Mode_Executable | Mode_Symlink | Mode_Unknown

fun blob_mode_octal :: "blob_mode \<Rightarrow> string option" where
  "blob_mode_octal Mode_Regular = Some ''100644''"
| "blob_mode_octal Mode_Executable = Some ''100755''"
| "blob_mode_octal Mode_Symlink = Some ''120000''"
| "blob_mode_octal Mode_Unknown = None"

record blob_entry =
  be_oid :: blob_oid
  be_mode :: blob_mode

datatype viewed_content =
    Viewed_Missing
  | Viewed_Blob blob_entry
  | Viewed_Submodule commit_oid

definition viewed_content_from_blob :: "blob_oid option \<Rightarrow> viewed_content" where
  "viewed_content_from_blob b =
     (case b of None \<Rightarrow> Viewed_Missing
      | Some oid \<Rightarrow> Viewed_Blob \<lparr>be_oid = oid, be_mode = Mode_Unknown\<rparr>)"

section \<open>Changes\<close>

datatype submodule_change =
    Submodule_Added commit_oid
  | Submodule_Deleted commit_oid
  | Submodule_Updated commit_oid commit_oid
  | Submodule_Renamed repo_path commit_oid commit_oid
  | Submodule_BlobToSubmodule blob_entry commit_oid
  | Submodule_SubmoduleToBlob commit_oid blob_entry

fun submodule_old_blob :: "submodule_change \<Rightarrow> blob_oid option" where
  "submodule_old_blob (Submodule_BlobToSubmodule old _) = Some (be_oid old)"
| "submodule_old_blob _ = None"

fun submodule_new_blob :: "submodule_change \<Rightarrow> blob_oid option" where
  "submodule_new_blob (Submodule_SubmoduleToBlob _ new) = Some (be_oid new)"
| "submodule_new_blob _ = None"

fun submodule_viewed_content :: "submodule_change \<Rightarrow> viewed_content" where
  "submodule_viewed_content (Submodule_Deleted _) = Viewed_Missing"
| "submodule_viewed_content (Submodule_SubmoduleToBlob _ new) = Viewed_Blob new"
| "submodule_viewed_content (Submodule_Added new) = Viewed_Submodule new"
| "submodule_viewed_content (Submodule_Updated _ new) = Viewed_Submodule new"
| "submodule_viewed_content (Submodule_Renamed _ _ new) = Viewed_Submodule new"
| "submodule_viewed_content (Submodule_BlobToSubmodule _ new) = Viewed_Submodule new"

datatype change_kind =
    Change_Submodule submodule_change
  | Change_Added blob_entry
  | Change_Deleted blob_entry
  | Change_Modified blob_entry blob_entry
  | Change_Renamed repo_path blob_entry blob_entry

fun change_viewed_content :: "change_kind \<Rightarrow> viewed_content" where
  "change_viewed_content (Change_Submodule c) = submodule_viewed_content c"
| "change_viewed_content (Change_Deleted _) = Viewed_Missing"
| "change_viewed_content (Change_Added new) = Viewed_Blob new"
| "change_viewed_content (Change_Modified _ new) = Viewed_Blob new"
| "change_viewed_content (Change_Renamed _ _ new) = Viewed_Blob new"

fun change_old_blob :: "change_kind \<Rightarrow> blob_oid option" where
  "change_old_blob (Change_Submodule c) = submodule_old_blob c"
| "change_old_blob (Change_Added _) = None"
| "change_old_blob (Change_Deleted old) = Some (be_oid old)"
| "change_old_blob (Change_Modified old _) = Some (be_oid old)"
| "change_old_blob (Change_Renamed _ old _) = Some (be_oid old)"

fun change_new_blob :: "change_kind \<Rightarrow> blob_oid option" where
  "change_new_blob (Change_Submodule c) = submodule_new_blob c"
| "change_new_blob (Change_Deleted _) = None"
| "change_new_blob (Change_Added new) = Some (be_oid new)"
| "change_new_blob (Change_Modified _ new) = Some (be_oid new)"
| "change_new_blob (Change_Renamed _ _ new) = Some (be_oid new)"

text \<open>The viewed identity of a change is the new blob exactly when the change has one.\<close>

lemma change_new_blob_viewed:
  "change_new_blob k = Some b \<longleftrightarrow> (\<exists>e. change_viewed_content k = Viewed_Blob e \<and> be_oid e = b)"
proof (cases k)
  case (Change_Submodule c)
  then show ?thesis by (cases c) auto
qed auto

record file_change =
  fc_repo_id :: repo_id
  fc_path :: repo_path
  fc_kind :: change_kind

datatype tree_entry_kind =
    TreeEntry_File blob_oid u64 bool
  | TreeEntry_Dir tree_oid
  | TreeEntry_Symlink blob_oid
  | TreeEntry_Submodule commit_oid

fun tree_blob_entry :: "tree_entry_kind \<Rightarrow> blob_entry option" where
  "tree_blob_entry (TreeEntry_File oid _ executable) =
     Some \<lparr>be_oid = oid, be_mode = (if executable then Mode_Executable else Mode_Regular)\<rparr>"
| "tree_blob_entry (TreeEntry_Symlink oid) = Some \<lparr>be_oid = oid, be_mode = Mode_Symlink\<rparr>"
| "tree_blob_entry (TreeEntry_Dir _) = None"
| "tree_blob_entry (TreeEntry_Submodule _) = None"

record tree_entry =
  te_path :: repo_path
  te_kind :: tree_entry_kind

record tree_snapshot =
  ts_repo_id :: repo_id
  ts_root_oid :: tree_oid
  ts_entries :: "tree_entry list"

record tree_delta =
  td_repo_id :: repo_id
  td_from_root :: tree_oid
  td_to_root :: tree_oid
  td_added :: "tree_entry list"
  td_removed :: "repo_path list"
  td_changed :: "tree_entry list"

section \<open>Comments\<close>

datatype comment_context =
    Context_Diff change_kind
  | Context_Browse ref_spec

record comment =
  cm_id :: comment_id
  cm_review_id :: review_id
  cm_thread_id :: thread_id
  cm_author :: author
  cm_kind :: comment_kind
  cm_anchor :: anchor
  cm_body :: string
  cm_created :: timestamp
  cm_edited :: "timestamp option"
  cm_state :: comment_state
  cm_context :: "comment_context option"

datatype deferral_reason = DeferralReason string
datatype tracking_url = TrackingUrl string

datatype thread_resolution =
    Resolution_Informational
  | Resolution_Open
  | Resolution_Deferred deferral_reason "tracking_url option" author timestamp
  | Resolution_Resolved author timestamp

fun resolution_for_root :: "comment_kind \<Rightarrow> thread_resolution" where
  "resolution_for_root Kind_Informational = Resolution_Informational"
| "resolution_for_root Kind_Note = Resolution_Open"
| "resolution_for_root (Kind_Suggestion _) = Resolution_Open"
| "resolution_for_root Kind_Request = Resolution_Open"

datatype comment_intent = Intent_Finding | Intent_Informational

fun kind_from_intent :: "comment_intent \<Rightarrow> comment_kind" where
  "kind_from_intent Intent_Finding = Kind_Note"
| "kind_from_intent Intent_Informational = Kind_Informational"

record thread =
  th_id :: thread_id
  th_review_id :: review_id
  th_root :: comment_id
  th_replies :: "comment_id list"
  th_resolution :: thread_resolution

record viewed_mark =
  vm_review_id :: review_id
  vm_repo_id :: repo_id
  vm_path :: repo_path
  vm_viewer :: human
  vm_content :: viewed_content

datatype diff_scope =
    Scope_All
  | Scope_Committed
  | Scope_Commit repo_id commit_oid
  | Scope_Worktree repo_id
  | Scope_Requested review_request_id
  | Scope_SinceCheckpoint review_checkpoint_id

section \<open>Requests and checkpoints\<close>

datatype requested_targets =
    Requested_Unknown
  | Requested_Captured "resolved_target nonempty"

datatype target_comparison = SameTargets | ChangedTargets | UnknownRevision

datatype request_checkpoint_comparison =
    Comparison_Unknown
  | Comparison_NoCheckpoint
  | Comparison_Compared review_checkpoint_id target_comparison

datatype reviewer_identity =
    Reviewer_Human string string
  | Reviewer_Agent string

fun reviewer_from_author :: "author \<Rightarrow> reviewer_identity option" where
  "reviewer_from_author (Author_Human name machine) = Some (Reviewer_Human name machine)"
| "reviewer_from_author (Author_Agent name _ _ _ _) = Some (Reviewer_Agent name)"
| "reviewer_from_author (Author_Daemon _) = None"

datatype review_round =
    Round_Request review_request_id
  | Round_Checkpoint review_checkpoint_id

record review_request =
  rq_id :: review_request_id
  rq_review_id :: review_id
  rq_requester :: author
  rq_recipient :: string
  rq_targets :: requested_targets
  rq_comparison :: request_checkpoint_comparison
  rq_note :: string
  rq_created :: timestamp

record review_checkpoint =
  cp_id :: review_checkpoint_id
  cp_review_id :: review_id
  cp_reviewer :: reviewer_identity
  cp_author :: author
  cp_created :: timestamp
  cp_targets :: "resolved_target nonempty"
  cp_in_reply_to :: "review_round option"

datatype checkpoint_freshness = Fresh_Current | Fresh_Changed | Fresh_Unknown

record reviewer_checkpoint =
  rc_checkpoint :: review_checkpoint
  rc_freshness :: checkpoint_freshness

section \<open>Events\<close>

datatype event_body =
    WorkspaceCreated workspace
  | WorkspaceUpdated workspace_id string
  | RepoAttached workspace_id repo
  | RepoDetached workspace_id repo_id
  | ReviewCreated review
  | ReviewUpdated review_id string review_status
  | ReviewTargetUpdated review_id review_target
  | ReviewDeleted review_id
  | ReviewTargetsResolved review_id "resolved_target nonempty"
  | CommentCreated comment
  | CommentEdited review_id comment_id string
  | CommentDeleted review_id comment_id
  | CommentReanchored review_id comment_id anchor comment_state
  | ThreadDeferred review_id thread_id deferral_reason "tracking_url option"
  | ThreadResolved review_id thread_id
  | ThreadUnresolved review_id thread_id
  | FileViewed review_id repo_id repo_path human viewed_content
  | FileUnviewed review_id repo_id repo_path human
  | ReviewRequested review_id string string requested_targets request_checkpoint_comparison
  | ReviewChecked review_id reviewer_identity "resolved_target nonempty" "review_round option"
  | SuggestionApplied review_id comment_id repo_id repo_path blob_oid

record event =
  ev_seq :: seq
  ev_ts :: timestamp
  ev_author :: author
  ev_client_id :: client_id
  ev_client_seq :: client_seq
  ev_body :: event_body

fun body_review_id :: "event_body \<Rightarrow> review_id option" where
  "body_review_id (WorkspaceCreated _) = None"
| "body_review_id (WorkspaceUpdated _ _) = None"
| "body_review_id (RepoAttached _ _) = None"
| "body_review_id (RepoDetached _ _) = None"
| "body_review_id (ReviewCreated review) = Some (rv_id review)"
| "body_review_id (CommentCreated comment) = Some (cm_review_id comment)"
| "body_review_id (ReviewUpdated review_id _ _) = Some review_id"
| "body_review_id (ReviewTargetUpdated review_id _) = Some review_id"
| "body_review_id (ReviewDeleted review_id) = Some review_id"
| "body_review_id (ReviewTargetsResolved review_id _) = Some review_id"
| "body_review_id (CommentEdited review_id _ _) = Some review_id"
| "body_review_id (CommentDeleted review_id _) = Some review_id"
| "body_review_id (CommentReanchored review_id _ _ _) = Some review_id"
| "body_review_id (ThreadDeferred review_id _ _ _) = Some review_id"
| "body_review_id (ThreadResolved review_id _) = Some review_id"
| "body_review_id (ThreadUnresolved review_id _) = Some review_id"
| "body_review_id (FileViewed review_id _ _ _ _) = Some review_id"
| "body_review_id (FileUnviewed review_id _ _ _) = Some review_id"
| "body_review_id (ReviewRequested review_id _ _ _ _) = Some review_id"
| "body_review_id (ReviewChecked review_id _ _ _) = Some review_id"
| "body_review_id (SuggestionApplied review_id _ _ _ _) = Some review_id"

fun body_workspace_id :: "event_body \<Rightarrow> workspace_id option" where
  "body_workspace_id (WorkspaceCreated workspace) = Some (ws_id workspace)"
| "body_workspace_id (WorkspaceUpdated workspace_id _) = Some workspace_id"
| "body_workspace_id (RepoAttached workspace_id _) = Some workspace_id"
| "body_workspace_id (RepoDetached workspace_id _) = Some workspace_id"
| "body_workspace_id (ReviewCreated review) = Some (rv_workspace_id review)"
| "body_workspace_id _ = None"

fun request_of_body :: "event \<Rightarrow> event_body \<Rightarrow> review_request option" where
  "request_of_body e (ReviewRequested review_id agent note targets comparison) =
     Some \<lparr>rq_id = ReviewRequestId (ev_seq e), rq_review_id = review_id,
           rq_requester = ev_author e, rq_recipient = agent, rq_targets = targets,
           rq_comparison = comparison, rq_note = note, rq_created = ev_ts e\<rparr>"
| "request_of_body e _ = None"

definition request_from_event :: "event \<Rightarrow> review_request option" where
  "request_from_event e = request_of_body e (ev_body e)"

fun checkpoint_of_body :: "event \<Rightarrow> event_body \<Rightarrow> review_checkpoint option" where
  "checkpoint_of_body e (ReviewChecked review_id reviewer targets in_reply_to) =
     Some \<lparr>cp_id = ReviewCheckpointId (ev_seq e), cp_review_id = review_id,
           cp_reviewer = reviewer, cp_author = ev_author e, cp_created = ev_ts e,
           cp_targets = targets, cp_in_reply_to = in_reply_to\<rparr>"
| "checkpoint_of_body e _ = None"

definition checkpoint_from_event :: "event \<Rightarrow> review_checkpoint option" where
  "checkpoint_from_event e = checkpoint_of_body e (ev_body e)"

section \<open>Suggestions\<close>

record suggestion_receipt =
  sr_seq :: seq
  sr_at :: timestamp
  sr_author :: author
  sr_repo_id :: repo_id
  sr_path :: repo_path
  sr_result_blob :: blob_oid

datatype suggestion_outcome =
    Outcome_Unapplied
  | Outcome_Applied suggestion_receipt

record suggestion_record =
  sg_review_id :: review_id
  sg_comment_id :: comment_id
  sg_anchor :: anchor
  sg_patch :: string
  sg_outcome :: suggestion_outcome

definition suggestion_from_created :: "comment \<Rightarrow> suggestion_record option" where
  "suggestion_from_created c =
     (case cm_kind c of
        Kind_Suggestion patch \<Rightarrow>
          Some \<lparr>sg_review_id = cm_review_id c, sg_comment_id = cm_id c,
                sg_anchor = (case cm_state c of
                               State_Live \<Rightarrow> cm_anchor c
                             | State_Deleted \<Rightarrow> cm_anchor c
                             | State_Outdated last_good \<Rightarrow> last_good),
                sg_patch = patch, sg_outcome = Outcome_Unapplied\<rparr>
      | Kind_Note \<Rightarrow> None
      | Kind_Informational \<Rightarrow> None
      | Kind_Request \<Rightarrow> None)"

lemma suggestion_from_created_key:
  "suggestion_from_created c = Some s \<Longrightarrow> sg_review_id s = cm_review_id c \<and> sg_comment_id s = cm_id c"
  by (auto simp: suggestion_from_created_def split: comment_kind.splits)

end
