(* ===== verification/Nits_Patch.thy ===== *)
theory Nits_Patch
  imports Nits_Domain
begin

text \<open>
  Strict application of unified diffs, \<open>crates/nits-review-core/src/patch.rs\<close>: the parser, the
  line-by-line application to the original bytes and the preview with line numbers. Text and
  bytes are both lists of characters below 256 (the UTF-8 bytes of a Rust string); a \<open>usize\<close>
  is a natural number with the 64-bit bound written where the source checks it. An error that
  the source formats lossily carries the bytes themselves.
\<close>

abbreviation newline :: char where
  "newline \<equiv> CHR 0x0A"

abbreviation carriage_return :: char where
  "carriage_return \<equiv> CHR 0x0D"

section \<open>Errors and hunks\<close>

datatype patch_error =
    Patch_Header string
  | Patch_Line string
  | Patch_Empty
  | Patch_Count string
  | Patch_UnterminatedPatchLine
  | Patch_MisplacedEndOfFile
  | Patch_Mismatch nat string "string option"

record hunk_range =
  hr_offset :: nat
  hr_count :: nat

definition usize_bound :: nat where
  "usize_bound = 2 ^ 64"

definition ascii_digit :: "char \<Rightarrow> bool" where
  "ascii_digit c \<longleftrightarrow> 48 \<le> (of_char c :: nat) \<and> (of_char c :: nat) \<le> 57"

fun decimal :: "nat \<Rightarrow> string \<Rightarrow> nat" where
  "decimal acc [] = acc"
| "decimal acc (c # cs) = decimal (acc * 10 + (of_char c - 48)) cs"

text \<open>All digits, then \<open>value.parse().ok()\<close>, which fails when the value needs more than 64 bits.\<close>

definition patch_number :: "string \<Rightarrow> nat option" where
  "patch_number value =
     (if value = [] \<or> \<not> list_all ascii_digit value then None
      else if decimal 0 value < usize_bound then Some (decimal 0 value) else None)"

definition range_of_numbers :: "nat \<Rightarrow> nat \<Rightarrow> hunk_range option" where
  "range_of_numbers start count =
     (if count \<noteq> 0 \<and> start = 0 then None
      else let offset = (if count = 0 then start else start - 1)
           in if offset + count < usize_bound then Some \<lparr>hr_offset = offset, hr_count = count\<rparr> else None)"

definition hunk_range_parse :: "string \<Rightarrow> hunk_range option" where
  "hunk_range_parse value =
     (case split_once '','' value of
        Some (start, count) \<Rightarrow>
          Option.bind (patch_number start) (\<lambda>a. Option.bind (patch_number count) (range_of_numbers a))
      | None \<Rightarrow> Option.bind (patch_number value) (\<lambda>a. range_of_numbers a 1))"

datatype line_kind = Line_Context | Line_Remove | Line_Add

record body_line =
  bl_kind :: line_kind
  bl_bytes :: string

record hunk =
  hk_header :: string
  hk_old :: hunk_range
  hk_new :: hunk_range
  hk_lines :: "body_line list"

definition hunk_header_parse :: "string \<Rightarrow> hunk option" where
  "hunk_header_parse header =
     Option.bind (strip_prefix ''@@ -'' header) (\<lambda>s.
     Option.bind (split_once '' +'' s) (\<lambda>(old, rest).
     Option.bind (split_once '' @@'' rest) (\<lambda>(new, suffix).
       if suffix \<noteq> [] \<and> \<not> starts_with '' '' suffix then None
       else
         Option.bind (hunk_range_parse old) (\<lambda>old_range.
         Option.bind (hunk_range_parse new) (\<lambda>new_range.
           if hr_count old_range = 0 \<and> hr_count new_range = 0 then None
           else Some \<lparr>hk_header = header, hk_old = old_range, hk_new = new_range, hk_lines = []\<rparr>)))))"

definition hunk_header :: "string \<Rightarrow> (patch_error, hunk) result" where
  "hunk_header header = ok_or (Patch_Header header) (hunk_header_parse header)"

fun count_sides :: "body_line list \<Rightarrow> nat \<Rightarrow> nat \<Rightarrow> nat \<times> nat" where
  "count_sides [] old new = (old, new)"
| "count_sides (l # ls) old new =
     (case bl_kind l of
        Line_Context \<Rightarrow> count_sides ls (old + 1) (new + 1)
      | Line_Remove \<Rightarrow> count_sides ls (old + 1) new
      | Line_Add \<Rightarrow> count_sides ls old (new + 1))"

definition validate_counts :: "hunk \<Rightarrow> (patch_error, unit) result" where
  "validate_counts h =
     (case count_sides (hk_lines h) 0 0 of (old, new) \<Rightarrow>
        if old \<noteq> hr_count (hk_old h) \<or> new \<noteq> hr_count (hk_new h)
        then Inl (Patch_Count (hk_header h)) else Inr ())"

section \<open>The parser\<close>

fun line_kind_of :: "string \<Rightarrow> (line_kind \<times> string) option" where
  "line_kind_of [] = None"
| "line_kind_of (c # content) =
     (if c = CHR '' '' then Some (Line_Context, content)
      else if c = CHR ''-'' then Some (Line_Remove, content)
      else if c = CHR ''+'' then Some (Line_Add, content)
      else None)"

definition trim_end_newlines :: "string \<Rightarrow> string" where
  "trim_end_newlines s = rev (dropWhile (\<lambda>c. c = newline) (rev s))"

definition is_marker :: "string \<Rightarrow> bool" where
  "is_marker l \<longleftrightarrow> trim_end_newlines l = CHR 0x5C # '' No newline at end of file''"

text \<open>The bytes of a body line, and the lines left after a no-newline marker is consumed.\<close>

fun take_marker :: "string \<Rightarrow> string list \<Rightarrow> (patch_error, string \<times> string list) result" where
  "take_marker content (l # lines) =
     (if is_marker l
      then bindR (ok_or Patch_UnterminatedPatchLine (strip_suffix [newline] content))
             (\<lambda>bytes. Inr (bytes, lines))
      else Inr (content, l # lines))"
| "take_marker content [] = Inr (content, [])"

lemma take_marker_length: "take_marker content lines = Inr (bytes, rest) \<Longrightarrow> length rest \<le> length lines"
  by (cases lines) (auto simp: result_simps split: if_splits)

function parse_body :: "string list \<Rightarrow> body_line list \<Rightarrow> (patch_error, body_line list \<times> string list) result" where
  "parse_body [] acc = Inr (acc, [])"
| "parse_body (body # lines) acc =
     (if starts_with ''@@ '' body then Inr (acc, body # lines)
      else case line_kind_of body of
        None \<Rightarrow> Inl (Patch_Line (trim_end_newlines body))
      | Some (kind, content) \<Rightarrow>
          if \<not> ends_with [newline] content then Inl Patch_UnterminatedPatchLine
          else (case take_marker content lines of
                  Inl e \<Rightarrow> Inl e
                | Inr (bytes, rest) \<Rightarrow>
                    if bytes = [] then Inl Patch_MisplacedEndOfFile
                    else parse_body rest (acc @ [\<lparr>bl_kind = kind, bl_bytes = bytes\<rparr>])))"
  by pat_completeness auto
termination
  by (relation "measure (\<lambda>(lines, acc). length lines)") (auto dest!: take_marker_length)

lemma parse_body_length: "parse_body lines acc = Inr (ls, rest) \<Longrightarrow> length rest \<le> length lines"
proof (induction lines acc rule: parse_body.induct)
  case (2 body lines acc)
  then show ?case by (fastforce split: if_splits option.splits sum.splits dest: take_marker_length)
qed simp

function parse_hunks :: "string list \<Rightarrow> (patch_error, hunk list) result" where
  "parse_hunks [] = Inr []"
| "parse_hunks (line # lines) =
     (let header = (case strip_suffix [newline] line of Some h \<Rightarrow> h | None \<Rightarrow> line)
      in case hunk_header header of
           Inl e \<Rightarrow> Inl e
         | Inr h \<Rightarrow>
             (case parse_body lines [] of
                Inl e \<Rightarrow> Inl e
              | Inr (ls, rest) \<Rightarrow>
                  (case validate_counts (h\<lparr>hk_lines := ls\<rparr>) of
                     Inl e \<Rightarrow> Inl e
                   | Inr _ \<Rightarrow> bindR (parse_hunks rest) (\<lambda>hs. Inr (h\<lparr>hk_lines := ls\<rparr> # hs)))))"
  by pat_completeness auto
termination
  by (relation "measure length") (auto dest!: parse_body_length)

definition skip_file_header :: "string list \<Rightarrow> (patch_error, string list) result" where
  "skip_file_header lines =
     (case lines of
        l # rest \<Rightarrow>
          if starts_with ''--- '' l
          then (case rest of
                  m # rest' \<Rightarrow>
                    if starts_with ''+++ '' m then Inr rest'
                    else Inl (Patch_Header ''expected +++ file header'')
                | [] \<Rightarrow> Inl (Patch_Header ''expected +++ file header''))
          else Inr lines
      | [] \<Rightarrow> Inr [])"

definition patch_try_from :: "string \<Rightarrow> (patch_error, hunk list) result" where
  "patch_try_from patch =
     bindR (skip_file_header (split_incl newline patch)) (\<lambda>lines.
     bindR (parse_hunks lines) (\<lambda>hunks.
       if hunks = [] then Inl Patch_Empty else Inr hunks))"

section \<open>Application\<close>

fun apply_lines :: "string list \<Rightarrow> body_line list \<Rightarrow> nat \<Rightarrow> string list
    \<Rightarrow> (patch_error, nat \<times> string list) result" where
  "apply_lines old_lines [] cursor out = Inr (cursor, out)"
| "apply_lines old_lines (l # ls) cursor out =
     (case bl_kind l of
        Line_Add \<Rightarrow> apply_lines old_lines ls cursor (out @ [bl_bytes l])
      | kind \<Rightarrow>
          if slice_at old_lines cursor \<noteq> Some (bl_bytes l)
          then Inl (Patch_Mismatch (cursor + 1) (bl_bytes l) (slice_at old_lines cursor))
          else apply_lines old_lines ls (cursor + 1)
                 (if kind = Line_Context then out @ [bl_bytes l] else out))"

definition apply_hunk :: "string list \<Rightarrow> hunk \<Rightarrow> nat \<times> string list \<Rightarrow> (patch_error, nat \<times> string list) result" where
  "apply_hunk old_lines h st =
     (case st of (cursor, out) \<Rightarrow>
        bindR (ok_or (Patch_Header (hk_header h)) (slice_get old_lines cursor (hr_offset (hk_old h))))
          (\<lambda>untouched.
             let out = out @ untouched
             in if length out \<noteq> hr_offset (hk_new h) then Inl (Patch_Header (hk_header h))
                else apply_lines old_lines (hk_lines h) (hr_offset (hk_old h)) out))"

definition apply_parsed :: "string \<Rightarrow> hunk list \<Rightarrow> (patch_error, string) result" where
  "apply_parsed original hunks =
     (let old_lines = split_incl newline original in
      bindR (foldR (apply_hunk old_lines) hunks (0, [])) (\<lambda>(cursor, out).
      bindR (ok_or Patch_MisplacedEndOfFile (slice_get old_lines cursor (length old_lines))) (\<lambda>tail.
        let out = out @ tail
        in if list_ex (\<lambda>l. \<not> ends_with [newline] l) (tl (rev out)) then Inl Patch_MisplacedEndOfFile
           else Inr (concat out))))"

definition patch_apply :: "string \<Rightarrow> string \<Rightarrow> (patch_error, string) result" where
  "patch_apply original patch = bindR (patch_try_from patch) (apply_parsed original)"

section \<open>Preview\<close>

datatype line_ending = Ending_Lf | Ending_CrLf | Ending_Missing

fun ending_as_str :: "line_ending \<Rightarrow> string" where
  "ending_as_str Ending_Lf = [newline]"
| "ending_as_str Ending_CrLf = [carriage_return, newline]"
| "ending_as_str Ending_Missing = []"

datatype suggestion_line_kind =
    SLine_Context line_no line_no
  | SLine_Remove line_no
  | SLine_Add line_no

record suggestion_line =
  sl_kind :: suggestion_line_kind
  sl_text :: string
  sl_ending :: line_ending

record suggestion_hunk =
  sh_header :: string
  sh_lines :: "suggestion_line list"

record patch_preview =
  pp_hunks :: "suggestion_hunk list"
  pp_result :: string

text \<open>\<open>offset.checked_add(1)\<close>, \<open>u32::try_from\<close> and \<open>LineNo::new\<close>, or the header error.\<close>

definition preview_line_no :: "string \<Rightarrow> nat \<Rightarrow> (patch_error, line_no) result" where
  "preview_line_no header offset =
     (if offset + 1 < 2 ^ 32 then ok_or (Patch_Header header) (line_new (of_nat (offset + 1)))
      else Inl (Patch_Header header))"

definition split_ending :: "string \<Rightarrow> string \<times> line_ending" where
  "split_ending bytes =
     (case strip_suffix [carriage_return, newline] bytes of
        Some text \<Rightarrow> (text, Ending_CrLf)
      | None \<Rightarrow>
          (case strip_suffix [newline] bytes of
             Some text \<Rightarrow> (text, Ending_Lf)
           | None \<Rightarrow> (bytes, Ending_Missing)))"

definition suggestion_line_of :: "suggestion_line_kind \<Rightarrow> string \<Rightarrow> suggestion_line" where
  "suggestion_line_of kind bytes =
     (case split_ending bytes of (text, ending) \<Rightarrow>
        \<lparr>sl_kind = kind, sl_text = text, sl_ending = ending\<rparr>)"

fun preview_lines :: "string \<Rightarrow> body_line list \<Rightarrow> nat \<Rightarrow> nat \<Rightarrow> (patch_error, suggestion_line list) result" where
  "preview_lines header [] old new = Inr []"
| "preview_lines header (l # ls) old new =
     (case bl_kind l of
        Line_Context \<Rightarrow>
          bindR (preview_line_no header old) (\<lambda>o1.
          bindR (preview_line_no header new) (\<lambda>n1.
          bindR (preview_lines header ls (old + 1) (new + 1)) (\<lambda>rest.
            Inr (suggestion_line_of (SLine_Context o1 n1) (bl_bytes l) # rest))))
      | Line_Remove \<Rightarrow>
          bindR (preview_line_no header old) (\<lambda>o1.
          bindR (preview_lines header ls (old + 1) new) (\<lambda>rest.
            Inr (suggestion_line_of (SLine_Remove o1) (bl_bytes l) # rest)))
      | Line_Add \<Rightarrow>
          bindR (preview_line_no header new) (\<lambda>n1.
          bindR (preview_lines header ls old (new + 1)) (\<lambda>rest.
            Inr (suggestion_line_of (SLine_Add n1) (bl_bytes l) # rest))))"

definition preview_hunk :: "hunk \<Rightarrow> (patch_error, suggestion_hunk) result" where
  "preview_hunk h =
     bindR (preview_lines (hk_header h) (hk_lines h) (hr_offset (hk_old h)) (hr_offset (hk_new h)))
       (\<lambda>lines. Inr \<lparr>sh_header = hk_header h, sh_lines = lines\<rparr>)"

definition patch_preview_of :: "string \<Rightarrow> string \<Rightarrow> (patch_error, patch_preview) result" where
  "patch_preview_of original source =
     bindR (patch_try_from source) (\<lambda>hunks.
     bindR (apply_parsed original hunks) (\<lambda>result.
     bindR (collectR preview_hunk hunks) (\<lambda>shown.
       Inr \<lparr>pp_hunks = shown, pp_result = result\<rparr>)))"

end
