(* ===== verification/Nits_Lines.thy ===== *)
theory Nits_Lines
  imports Nits_Patch
begin

text \<open>
  The line view of a blob, \<open>crates/nits-review-core/src/render/lines.rs\<close> and \<open>lines_of\<close> of
  \<open>render/mod.rs\<close>: split after each newline, take the terminator off, decode lossily. Bytes
  are characters below 256 and a decoded string is its UTF-8 bytes, so decoding is the
  identity but for the replacement of ill-formed sequences.
\<close>

section \<open>Lossy UTF-8\<close>

definition byte_in :: "nat \<Rightarrow> nat \<Rightarrow> char \<Rightarrow> bool" where
  "byte_in lo hi c \<longleftrightarrow> lo \<le> (of_char c :: nat) \<and> (of_char c :: nat) \<le> hi"

text \<open>The ranges the bytes after the first one must lie in; \<open>None\<close> for a byte that starts nothing.\<close>

definition utf8_tail :: "char \<Rightarrow> (nat \<times> nat) list option" where
  "utf8_tail c =
     (let b = (of_char c :: nat); t = (128, 191) in
      if b < 128 then Some []
      else if 194 \<le> b \<and> b \<le> 223 then Some [t]
      else if b = 224 then Some [(160, 191), t]
      else if b = 237 then Some [(128, 159), t]
      else if 225 \<le> b \<and> b \<le> 239 then Some [t, t]
      else if b = 240 then Some [(144, 191), t, t]
      else if 241 \<le> b \<and> b \<le> 243 then Some [t, t, t]
      else if b = 244 then Some [(128, 143), t, t]
      else None)"

fun match_tail :: "(nat \<times> nat) list \<Rightarrow> string \<Rightarrow> nat" where
  "match_tail ((lo, hi) # rs) (c # cs) = (if byte_in lo hi c then Suc (match_tail rs cs) else 0)"
| "match_tail _ _ = 0"

text \<open>One step: whether a scalar starts here, and how many bytes it or its ill-formed start takes.\<close>

definition utf8_step :: "char \<Rightarrow> string \<Rightarrow> bool \<times> nat" where
  "utf8_step c cs =
     (case utf8_tail c of
        None \<Rightarrow> (False, 1)
      | Some rs \<Rightarrow> (match_tail rs cs = length rs, Suc (match_tail rs cs)))"

definition replacement :: string where
  "replacement = [CHR 0xEF, CHR 0xBF, CHR 0xBD]"

text \<open>The decoded text, one string of bytes for each of its scalars.\<close>

function utf8_scalars :: "string \<Rightarrow> string list" where
  "utf8_scalars [] = []"
| "utf8_scalars (c # cs) =
     (case utf8_step c cs of (ok, n) \<Rightarrow>
        (if ok then take n (c # cs) else replacement) # utf8_scalars (drop (n - 1) cs))"
  by pat_completeness auto
termination
  by (relation "measure length") auto

definition from_utf8_lossy :: "string \<Rightarrow> string" where
  "from_utf8_lossy bytes = concat (utf8_scalars bytes)"

text \<open>\<open>char::is_whitespace\<close>, on the UTF-8 bytes of a scalar.\<close>

definition is_whitespace :: "string \<Rightarrow> bool" where
  "is_whitespace s \<longleftrightarrow>
     (case s of
        [a] \<Rightarrow> byte_in 9 13 a \<or> a = CHR '' ''
      | [a, b] \<Rightarrow> a = CHR 0xC2 \<and> (b = CHR 0x85 \<or> b = CHR 0xA0)
      | [a, b, c] \<Rightarrow>
          a = CHR 0xE1 \<and> b = CHR 0x9A \<and> c = CHR 0x80
          \<or> a = CHR 0xE2 \<and> b = CHR 0x80 \<and> (byte_in 128 138 c \<or> c = CHR 0xA8 \<or> c = CHR 0xA9 \<or> c = CHR 0xAF)
          \<or> a = CHR 0xE2 \<and> b = CHR 0x81 \<and> c = CHR 0x9F
          \<or> a = CHR 0xE3 \<and> b = CHR 0x80 \<and> c = CHR 0x80
      | _ \<Rightarrow> False)"

section \<open>Lines\<close>

record source_line =
  ln_text :: string
  ln_ending :: line_ending
  ln_normalised :: string

definition split_terminator :: "string \<Rightarrow> string \<times> line_ending" where
  "split_terminator raw =
     (case strip_suffix [newline] raw of
        Some line \<Rightarrow>
          (case strip_suffix [carriage_return] line of
             Some line' \<Rightarrow> (line', Ending_CrLf)
           | None \<Rightarrow> (line, Ending_Lf))
      | None \<Rightarrow> (raw, Ending_Missing))"

definition source_line_of :: "string \<Rightarrow> source_line" where
  "source_line_of raw =
     (case split_terminator raw of (line, ending) \<Rightarrow>
        let text = from_utf8_lossy line
        in \<lparr>ln_text = text, ln_ending = ending,
            ln_normalised = concat (filter (\<lambda>s. \<not> is_whitespace s) (utf8_scalars text))\<rparr>)"

definition split_lines :: "string \<Rightarrow> source_line list" where
  "split_lines bytes = (if bytes = [] then [] else map source_line_of (split_incl newline bytes))"

definition lines_of :: "string \<Rightarrow> string list" where
  "lines_of bytes = map ln_text (split_lines bytes)"

section \<open>Reading a file back from its lines\<close>

definition well_formed :: "string \<Rightarrow> bool" where
  "well_formed bytes \<longleftrightarrow> from_utf8_lossy bytes = bytes"

definition line_bytes :: "source_line \<Rightarrow> string" where
  "line_bytes l = ln_text l @ ending_as_str (ln_ending l)"

lemma split_terminator_rejoin: "split_terminator raw = (line, ending) \<Longrightarrow> line @ ending_as_str ending = raw"
  by (auto simp: split_terminator_def strip_suffix_Some_iff split: option.splits)

lemma split_lines_map: "split_lines bytes = map source_line_of (split_incl newline bytes)"
  by (simp add: split_lines_def)

lemma length_lines_of: "length (lines_of bytes) = length (split_incl newline bytes)"
  by (simp add: lines_of_def split_lines_map)

lemma missing_only_last:
  assumes "is_line newline raw" "terminated newline raw"
  shows "ln_ending (source_line_of raw) \<noteq> Ending_Missing"
proof -
  obtain line where "raw = line @ [newline]"
    using assms(2) by (metis append_butlast_last_id terminated_def)
  then have "strip_suffix [newline] raw = Some line" by (simp add: strip_suffix_Some_iff)
  then show ?thesis
    by (auto simp: source_line_of_def split_terminator_def Let_def split: option.splits prod.splits)
qed

text \<open>
  The line view loses nothing: a file whose lines are well-formed UTF-8 is exactly its
  lines' texts with their endings, and only the last line can lack a terminator.
\<close>

lemma split_lines_reconstruct:
  assumes "list_all (\<lambda>raw. well_formed (fst (split_terminator raw))) (split_incl newline bytes)"
  shows "concat (map line_bytes (split_lines bytes)) = bytes
    \<and> list_all (\<lambda>l. ln_ending l \<noteq> Ending_Missing) (butlast (split_lines bytes))"
proof
  have "line_bytes (source_line_of raw) = raw" if "raw \<in> set (split_incl newline bytes)" for raw
    using assms that split_terminator_rejoin [of raw]
    by (auto simp: list_all_iff line_bytes_def source_line_of_def well_formed_def Let_def split: prod.splits)
  then have "map (line_bytes \<circ> source_line_of) (split_incl newline bytes) = split_incl newline bytes"
    by (simp add: map_idI)
  then show "concat (map line_bytes (split_lines bytes)) = bytes" by (simp add: split_lines_map)
  have "ln_ending (source_line_of raw) \<noteq> Ending_Missing" if "raw \<in> set (butlast (split_incl newline bytes))" for raw
    using is_lines_split_incl [of newline bytes] that missing_only_last
    by (auto simp: is_lines_def dest: in_set_butlastD)
  then show "list_all (\<lambda>l. ln_ending l \<noteq> Ending_Missing) (butlast (split_lines bytes))"
    by (auto simp: split_lines_map list_all_iff map_butlast [symmetric])
qed

end
