(* ===== verification/Nits_Texts.thy ===== *)
theory Nits_Texts
  imports Nits_Lines
begin

text \<open>
  The validated texts of the protocol: Git revisions, remote names and reference specifications of
  \<open>crates/nits-protocol/src/revision.rs\<close>, deferral reasons and tracking URLs of \<open>deferral.rs\<close>, the
  protocol version of \<open>version.rs\<close>, and the release channel of \<open>lifecycle.rs\<close>. A string is its UTF-8
  bytes; \<open>url::Url::parse\<close> is third-party code and a parameter. Error texts are left out: a
  rejection is \<open>None\<close> where the source has one message.
\<close>

section \<open>Characters\<close>

text \<open>\<open>char::is_control\<close>, on the UTF-8 bytes of a scalar.\<close>

definition is_control :: "string \<Rightarrow> bool" where
  "is_control s \<longleftrightarrow>
     (case s of
        [a] \<Rightarrow> byte_in 0 31 a \<or> a = CHR 0x7F
      | [a, b] \<Rightarrow> a = CHR 0xC2 \<and> byte_in 128 159 b
      | _ \<Rightarrow> False)"

definition str_trim :: "string \<Rightarrow> string" where
  "str_trim s = concat (rev (dropWhile is_whitespace (rev (dropWhile is_whitespace (utf8_scalars s)))))"

definition any_scalar :: "(string \<Rightarrow> bool) \<Rightarrow> string \<Rightarrow> bool" where
  "any_scalar P s \<longleftrightarrow> list_ex P (utf8_scalars s)"

definition is_alphanumeric :: "char \<Rightarrow> bool" where
  "is_alphanumeric c \<longleftrightarrow> byte_in 48 57 c \<or> byte_in 65 90 c \<or> byte_in 97 122 c"

definition is_hexdigit :: "char \<Rightarrow> bool" where
  "is_hexdigit c \<longleftrightarrow> byte_in 48 57 c \<or> byte_in 65 70 c \<or> byte_in 97 102 c"

definition ascii_lower :: "char \<Rightarrow> char" where
  "ascii_lower c = (if byte_in 65 90 c then char_of ((of_char c :: nat) + 32) else c)"

section \<open>Revisions\<close>

definition revision_expr_try_from :: "string \<Rightarrow> revision_expr option" where
  "revision_expr_try_from value =
     (if str_trim value = [] \<or> any_scalar is_control value then None else Some (RevisionExpr value))"

datatype remote_name = RemoteName (remote_str: string)

definition remote_name_default :: remote_name where
  "remote_name_default = RemoteName ''origin''"

definition remote_part_bad :: "string \<Rightarrow> bool" where
  "remote_part_bad part \<longleftrightarrow> part = [] \<or> starts_with ''.'' part \<or> ends_with ''.lock'' part"

definition remote_name_try_from :: "string \<Rightarrow> remote_name option" where
  "remote_name_try_from value =
     (if value = []
        \<or> starts_with ''-'' value
        \<or> ends_with ''.'' value
        \<or> contains_str ''..'' value
        \<or> contains_str [CHR ''@'', CHR ''{''] value
        \<or> any_scalar (\<lambda>c. is_control c \<or> is_whitespace c \<or> contains_str c (''~^:?*['' @ [CHR 0x5C])) value
        \<or> list_ex remote_part_bad (split_on (CHR ''/'') value)
      then None else Some (RemoteName value))"

datatype ref_spec_error =
    BadRevision
  | BadCommitOid parse_id_error

definition commit_ref :: "string \<Rightarrow> (ref_spec_error, ref_spec) result" where
  "commit_ref s = bindR (map_err BadCommitOid (oid_from_str s)) (\<lambda>oid. Inr (RefSpec_Commit (CommitOid oid)))"

definition revision_text :: "string \<Rightarrow> (ref_spec_error, string) result" where
  "revision_text s =
     (case revision_expr_try_from s of None \<Rightarrow> Inl BadRevision | Some (RevisionExpr text) \<Rightarrow> Inr text)"

definition ref_spec_from_str :: "string \<Rightarrow> (ref_spec_error, ref_spec) result" where
  "ref_spec_from_str s =
     (let value = str_trim s; lower = map ascii_lower value in
      if lower \<in> {''worktree'', ''working-tree'', ''wt''} then Inr RefSpec_WorkingTree
      else if lower = ''head'' then Inr RefSpec_Head
      else if lower \<in> {''upstream'', CHR ''@'' # ''{upstream}'', CHR ''@'' # ''{u}''} then Inr RefSpec_Upstream
      else case strip_prefix ''branch:'' value of
             Some name \<Rightarrow> bindR (revision_text name) (\<lambda>n. Inr (RefSpec_Branch n))
           | None \<Rightarrow>
               (case strip_prefix ''tag:'' value of
                  Some name \<Rightarrow> bindR (revision_text name) (\<lambda>n. Inr (RefSpec_Tag n))
                | None \<Rightarrow>
                    (case strip_prefix ''commit:'' value of
                       Some oid \<Rightarrow> commit_ref oid
                     | None \<Rightarrow>
                         if length value = 40 \<and> list_all is_hexdigit value then commit_ref value
                         else bindR (revision_text value) (\<lambda>t. Inr (RefSpec_Revision (RevisionExpr t))))))"

fun base_ref_spec_try_from :: "ref_spec \<Rightarrow> base_ref_spec option" where
  "base_ref_spec_try_from (RefSpec_Branch name) = Some (BaseRefSpec_Branch name)"
| "base_ref_spec_try_from (RefSpec_Tag name) = Some (BaseRefSpec_Tag name)"
| "base_ref_spec_try_from (RefSpec_Commit oid) = Some (BaseRefSpec_Commit oid)"
| "base_ref_spec_try_from (RefSpec_Revision e) = Some (BaseRefSpec_Revision e)"
| "base_ref_spec_try_from RefSpec_Upstream = Some BaseRefSpec_Upstream"
| "base_ref_spec_try_from RefSpec_Head = Some BaseRefSpec_Head"
| "base_ref_spec_try_from RefSpec_WorkingTree = None"

lemma base_ref_spec_iff: "base_ref_spec_try_from r = Some b \<longleftrightarrow> ref_spec_from_base b = r"
  by (cases r; cases b) auto

section \<open>Deferrals\<close>

definition deferral_reason_try_from :: "string \<Rightarrow> deferral_reason option" where
  "deferral_reason_try_from s =
     (let value = str_trim s in
      if value = [] \<or> any_scalar (\<lambda>c. is_control c \<and> c \<noteq> [CHR 0x0A] \<and> c \<noteq> [CHR 0x09]) value then None
      else Some (DeferralReason value))"

record parsed_url =
  pu_scheme :: string
  pu_host :: "string option"
  pu_username :: string
  pu_password :: "string option"

definition tracking_url_try_from :: "(string \<Rightarrow> parsed_url option) \<Rightarrow> string \<Rightarrow> tracking_url option" where
  "tracking_url_try_from url_parse value =
     (case url_parse value of
        None \<Rightarrow> None
      | Some parsed \<Rightarrow>
          if pu_scheme parsed \<notin> {''http'', ''https''}
             \<or> pu_host parsed = None
             \<or> pu_username parsed \<noteq> []
             \<or> pu_password parsed \<noteq> None
             \<or> any_scalar is_whitespace value
             \<or> any_scalar is_control value
             \<or> contains_str [CHR 0x5C] value
             \<or> \<not> (starts_with ''https://'' value \<or> starts_with ''http://'' value)
          then None else Some (TrackingUrl value))"

section \<open>Versions\<close>

type_synonym u16 = "16 word"

record protocol_version =
  pv_major :: u16
  pv_minor :: u16
  pv_patch :: u16

definition protocol_CURRENT :: protocol_version where
  "protocol_CURRENT = \<lparr>pv_major = 0, pv_minor = 21, pv_patch = 0\<rparr>"

definition can_serve :: "protocol_version \<Rightarrow> protocol_version \<Rightarrow> bool" where
  "can_serve self requested \<longleftrightarrow> pv_major self = pv_major requested \<and> pv_minor requested \<le> pv_minor self"

text \<open>\<open>u16\<close> in decimal, and its parser, which admits a leading plus sign and leading zeros.\<close>

fun nat_digits :: "nat \<Rightarrow> string" where
  "nat_digits n = (if n < 10 then [char_of (48 + n)] else nat_digits (n div 10) @ [char_of (48 + n mod 10)])"

declare nat_digits.simps [simp del]

definition u16_from_str :: "string \<Rightarrow> u16 option" where
  "u16_from_str s =
     (let digits = (case s of c # cs \<Rightarrow> if c = CHR ''+'' then cs else s | [] \<Rightarrow> s) in
      if digits = [] \<or> \<not> list_all ascii_digit digits then None
      else if decimal 0 digits < 2 ^ 16 then Some (of_nat (decimal 0 digits)) else None)"

definition version_display :: "protocol_version \<Rightarrow> string" where
  "version_display v =
     nat_digits (unat (pv_major v)) @ ''.'' @ nat_digits (unat (pv_minor v)) @ ''.'' @ nat_digits (unat (pv_patch v))"

definition version_from_str :: "string \<Rightarrow> protocol_version option" where
  "version_from_str s =
     (case split_on (CHR ''.'') s of
        a # rest1 \<Rightarrow>
          Option.bind (u16_from_str a) (\<lambda>major.
          case rest1 of
            [] \<Rightarrow> None
          | b # rest2 \<Rightarrow>
              Option.bind (u16_from_str b) (\<lambda>minor.
              case rest2 of
                [] \<Rightarrow> None
              | c # rest3 \<Rightarrow>
                  Option.bind (u16_from_str c) (\<lambda>patch.
                  if rest3 \<noteq> [] then None else Some \<lparr>pv_major = major, pv_minor = minor, pv_patch = patch\<rparr>)))
      | [] \<Rightarrow> None)"

definition release_channel_from_str :: "string \<Rightarrow> string option" where
  "release_channel_from_str value =
     (if value = [] \<or> length value > 64
        \<or> \<not> list_all (\<lambda>c. is_alphanumeric c \<or> c \<in> {CHR ''.'', CHR ''_'', CHR ''-''}) value
      then None else Some value)"

section \<open>A version reads back\<close>

lemma digit_char: "d < 10 \<Longrightarrow> ascii_digit (char_of (48 + d :: nat)) \<and> (of_char (char_of (48 + d)) :: nat) = 48 + d"
  by (simp add: ascii_digit_def of_char_of)

lemma nat_digits_digits: "list_all ascii_digit (nat_digits n)" "nat_digits n \<noteq> []"
proof -
  show "list_all ascii_digit (nat_digits n)"
    by (induction n rule: nat_digits.induct) (subst nat_digits.simps, auto simp: digit_char)
  show "nat_digits n \<noteq> []" by (subst nat_digits.simps) auto
qed

lemma decimal_append: "decimal acc (xs @ ys) = decimal (decimal acc xs) ys"
  by (induction acc xs rule: decimal.induct) auto

lemma decimal_nat_digits: "decimal 0 (nat_digits n) = n"
proof (induction n rule: nat_digits.induct)
  case (1 n)
  then show ?case
    by (subst nat_digits.simps) (auto simp: decimal_append digit_char)
qed

lemma u16_roundtrip: "u16_from_str (nat_digits (unat x)) = Some x"
proof -
  have "hd (nat_digits (unat x)) \<noteq> CHR ''+''"
    using nat_digits_digits [of "unat x"] by (cases "nat_digits (unat x)") (auto simp: ascii_digit_def)
  moreover have "unat x < 2 ^ 16" using unsigned_less [of x] by simp
  ultimately show ?thesis
    using nat_digits_digits [of "unat x"] decimal_nat_digits [of "unat x"]
    by (cases "nat_digits (unat x)") (auto simp: u16_from_str_def)
qed

lemma nat_digits_no_dot: "CHR ''.'' \<notin> set (nat_digits n)"
  using nat_digits_digits(1) [of n] by (auto simp: list_all_iff ascii_digit_def)

lemma version_roundtrip: "version_from_str (version_display v) = Some v"
  by (simp add: version_from_str_def version_display_def split_on_append_sep split_on_no_occ
      nat_digits_no_dot u16_roundtrip)

end
