(* ===== verification/Nits_Wire.thy ===== *)
theory Nits_Wire
  imports Nits_Texts
begin

text \<open>
  Frames and their transports: the length-prefixed codec of \<open>crates/nitsd/src/codec.rs\<close> and the byte
  and WebSocket transports of \<open>transport.rs\<close>. A byte stream is what is left to read and how it ends; a
  writer is what has been written and the error it meets, if any. JSON is a parameter, and so is what the
  WebSocket library delivers of the messages that were handed to it.
\<close>

section \<open>Envelopes\<close>

record 'm envelope =
  en_v :: protocol_version
  en_msg :: 'm

definition envelope_current :: "'m \<Rightarrow> 'm envelope" where
  "envelope_current msg = \<lparr>en_v = protocol_CURRENT, en_msg = msg\<rparr>"

text \<open>\<open>serde_json\<close>: to bytes and back.\<close>

record 'm json =
  js_to_vec :: "'m envelope \<Rightarrow> (string, string) result"
  js_from_slice :: "string \<Rightarrow> (string, 'm envelope) result"

section \<open>Byte streams\<close>

datatype io_error = Io_UnexpectedEof | Io_Other string

datatype stream_end = At_Eof | Breaks io_error

record byte_reader =
  rd_bytes :: string
  rd_end :: stream_end

text \<open>\<open>AsyncReadExt::read_exact\<close>: all of the bytes asked for, or the error that ends the stream.\<close>

definition read_exact :: "nat \<Rightarrow> byte_reader \<Rightarrow> (io_error, string) result \<times> byte_reader" where
  "read_exact n r =
     (if n \<le> length (rd_bytes r) then (Inr (take n (rd_bytes r)), r\<lparr>rd_bytes := drop n (rd_bytes r)\<rparr>)
      else (Inl (case rd_end r of At_Eof \<Rightarrow> Io_UnexpectedEof | Breaks e \<Rightarrow> e), r\<lparr>rd_bytes := []\<rparr>))"

text \<open>A writer that takes everything (\<open>wr_breaks = None\<close>), or breaks after a number of bytes.\<close>

record byte_writer =
  wr_bytes :: string
  wr_breaks :: "(nat \<times> io_error) option"

definition write_all :: "string \<Rightarrow> byte_writer \<Rightarrow> (io_error, unit) result \<times> byte_writer" where
  "write_all bs w =
     (case wr_breaks w of
        None \<Rightarrow> (Inr (), w\<lparr>wr_bytes := wr_bytes w @ bs\<rparr>)
      | Some (room, e) \<Rightarrow>
          if length bs \<le> room then (Inr (), w\<lparr>wr_bytes := wr_bytes w @ bs, wr_breaks := Some (room - length bs, e)\<rparr>)
          else (Inl e, w\<lparr>wr_bytes := wr_bytes w @ take room bs, wr_breaks := Some (0, e)\<rparr>))"

definition flush :: "byte_writer \<Rightarrow> (io_error, unit) result" where
  "flush w = (case wr_breaks w of Some (0, e) \<Rightarrow> Inl e | _ \<Rightarrow> Inr ())"

section \<open>The codec\<close>

datatype codec_error =
    Oversized u32
  | Malformed string
  | Codec_Io io_error

definition MAX_FRAME :: u32 where
  "MAX_FRAME = 64 * 1024 * 1024"

definition oversized :: "nat \<Rightarrow> bool" where
  "oversized n \<longleftrightarrow> int n > 64 * 1024 * 1024"

definition clamp_u32 :: "nat \<Rightarrow> u32" where
  "clamp_u32 n = (if int n < 2 ^ 32 then of_nat n else - 1)"

definition encode_frame :: "'m json \<Rightarrow> 'm envelope \<Rightarrow> (codec_error, string) result" where
  "encode_frame J env =
     bindR (map_err Malformed (js_to_vec J env)) (\<lambda>bytes.
       if oversized (length bytes) then Inl (Oversized (clamp_u32 (length bytes))) else Inr bytes)"

definition decode_frame :: "'m json \<Rightarrow> string \<Rightarrow> (codec_error, 'm envelope) result" where
  "decode_frame J bytes = map_err Malformed (js_from_slice J bytes)"

text \<open>\<open>u32::to_be_bytes\<close> and \<open>u32::from_be_bytes\<close>.\<close>

definition be_bytes :: "u32 \<Rightarrow> string" where
  "be_bytes n = map (\<lambda>k. char_of (unat (drop_bit k n))) [24, 16, 8, 0]"

definition be_u32 :: "string \<Rightarrow> u32" where
  "be_u32 bs = foldl (\<lambda>acc c. 256 * acc + of_nat (of_char c)) 0 bs"

definition read_frame :: "byte_reader \<Rightarrow> (codec_error, string option) result \<times> byte_reader" where
  "read_frame r =
     (case read_exact 4 r of
        (Inl e, r1) \<Rightarrow> (if e = Io_UnexpectedEof then Inr None else Inl (Codec_Io e), r1)
      | (Inr len_bytes, r1) \<Rightarrow>
          (let len = be_u32 len_bytes in
           if len > MAX_FRAME then (Inl (Oversized len), r1)
           else case read_exact (unat len) r1 of
                  (Inl e, r2) \<Rightarrow> (Inl (Codec_Io e), r2)
                | (Inr buf, r2) \<Rightarrow> (Inr (Some buf), r2)))"

definition write_frame :: "string \<Rightarrow> byte_writer \<Rightarrow> (codec_error, unit) result \<times> byte_writer" where
  "write_frame payload w =
     (if oversized (length payload) then (Inl (Oversized (clamp_u32 (length payload))), w)
      else case write_all (be_bytes (of_nat (length payload))) w of
        (Inl e, w1) \<Rightarrow> (Inl (Codec_Io e), w1)
      | (Inr _, w1) \<Rightarrow>
          (case write_all payload w1 of
             (Inl e, w2) \<Rightarrow> (Inl (Codec_Io e), w2)
           | (Inr _, w2) \<Rightarrow> (map_err Codec_Io (flush w2), w2)))"

text \<open>
  A message over a way of receiving or sending frames: \<open>recv_msg\<close> and \<open>send_msg\<close>; over the byte codec
  they are \<open>read_msg\<close> and \<open>write_msg\<close>.
\<close>

definition recv_msg :: "('r \<Rightarrow> (codec_error, string option) result \<times> 'r) \<Rightarrow> 'm json \<Rightarrow> 'r
    \<Rightarrow> (codec_error, 'm envelope option) result \<times> 'r" where
  "recv_msg recv J r =
     (case recv r of
        (Inl e, r') \<Rightarrow> (Inl e, r')
      | (Inr None, r') \<Rightarrow> (Inr None, r')
      | (Inr (Some bytes), r') \<Rightarrow> (bindR (decode_frame J bytes) (\<lambda>env. Inr (Some env)), r'))"

definition send_msg :: "(string \<Rightarrow> 'w \<Rightarrow> (codec_error, unit) result \<times> 'w) \<Rightarrow> 'm json \<Rightarrow> 'm envelope \<Rightarrow> 'w
    \<Rightarrow> (codec_error, unit) result \<times> 'w" where
  "send_msg send J env w = (case encode_frame J env of Inl e \<Rightarrow> (Inl e, w) | Inr bytes \<Rightarrow> send bytes w)"

abbreviation read_msg :: "'m json \<Rightarrow> byte_reader \<Rightarrow> (codec_error, 'm envelope option) result \<times> byte_reader" where
  "read_msg \<equiv> recv_msg read_frame"

abbreviation write_msg :: "'m json \<Rightarrow> 'm envelope \<Rightarrow> byte_writer \<Rightarrow> (codec_error, unit) result \<times> byte_writer" where
  "write_msg \<equiv> send_msg write_frame"

section \<open>WebSockets\<close>

datatype ws_message =
    Ws_Binary string
  | Ws_Text string
  | Ws_Close
  | Ws_Ping
  | Ws_Pong
  | Ws_Frame

datatype ws_error =
    Ws_Io io_error
  | Ws_ConnectionClosed
  | Ws_AlreadyClosed
  | Ws_ResetWithoutClosing
  | Ws_Other string

fun ws_codec_error :: "ws_error \<Rightarrow> codec_error" where
  "ws_codec_error (Ws_Io e) = Codec_Io e"
| "ws_codec_error Ws_ConnectionClosed = Codec_Io Io_UnexpectedEof"
| "ws_codec_error Ws_AlreadyClosed = Codec_Io Io_UnexpectedEof"
| "ws_codec_error Ws_ResetWithoutClosing = Codec_Io (Io_Other ''reset without closing handshake'')"
| "ws_codec_error (Ws_Other e) = Codec_Io (Io_Other e)"

text \<open>The socket's stream of items; the empty list is a stream that has ended.\<close>

fun ws_recv :: "(ws_error, ws_message) result list
    \<Rightarrow> (codec_error, string option) result \<times> (ws_error, ws_message) result list" where
  "ws_recv [] = (Inr None, [])"
| "ws_recv (Inr (Ws_Binary b) # items) =
     (if oversized (length b) then Inl (Oversized (clamp_u32 (length b))) else Inr (Some b), items)"
| "ws_recv (Inr (Ws_Text t) # items) = (Inr (Some t), items)"
| "ws_recv (Inr Ws_Close # items) = (Inr None, items)"
| "ws_recv (Inr Ws_Ping # items) = ws_recv items"
| "ws_recv (Inr Ws_Pong # items) = ws_recv items"
| "ws_recv (Inr Ws_Frame # items) = ws_recv items"
| "ws_recv (Inl e # items) =
     (if e \<in> {Ws_ConnectionClosed, Ws_AlreadyClosed, Ws_ResetWithoutClosing} then Inr None
      else Inl (ws_codec_error e), items)"

record ws_writer =
  ww_sent :: "ws_message list"
  ww_fails :: "ws_error option"

definition ws_send :: "string \<Rightarrow> ws_writer \<Rightarrow> (codec_error, unit) result \<times> ws_writer" where
  "ws_send frame w =
     (if oversized (length frame) then (Inl (Oversized (clamp_u32 (length frame))), w)
      else case ww_fails w of
        None \<Rightarrow> (Inr (), w\<lparr>ww_sent := ww_sent w @ [Ws_Binary frame]\<rparr>)
      | Some e \<Rightarrow> (Inl (ws_codec_error e), w))"

section \<open>Framed transports\<close>

text \<open>
  The contract of a framed transport: a frame whose sending succeeds is received by the peer after the
  frames sent before it when the channel passes them all, the frames are followed by a clean end, and no
  frame above the limit is sent. \<open>carries w fs\<close> says that the writer has sent \<open>fs\<close>; \<open>holds r fs\<close> that the
  reader still has to receive them; \<open>passes fs\<close> that the channel between them delivers them.
\<close>

locale framed =
  fixes send :: "string \<Rightarrow> 'w \<Rightarrow> (codec_error, unit) result \<times> 'w"
    and recv :: "'r \<Rightarrow> (codec_error, string option) result \<times> 'r"
    and peer :: "'w \<Rightarrow> 'r"
    and carries :: "'w \<Rightarrow> string list \<Rightarrow> bool"
    and holds :: "'r \<Rightarrow> string list \<Rightarrow> bool"
    and passes :: "string list \<Rightarrow> bool"
  assumes sent: "carries w fs \<Longrightarrow> send f w = (Inr (), w') \<Longrightarrow> carries w' (fs @ [f])"
    and refused: "oversized (length f) \<Longrightarrow> send f w = (Inl (Oversized (clamp_u32 (length f))), w)"
    and received: "holds r (f # fs) \<Longrightarrow> \<exists>r'. recv r = (Inr (Some f), r') \<and> holds r' fs"
    and ended: "holds r [] \<Longrightarrow> fst (recv r) = Inr None"
    and carried: "carries w fs \<Longrightarrow> passes fs \<Longrightarrow> holds (peer w) fs"
begin

lemma send_msg_carries:
  assumes "carries w fs" "send_msg send J env w = (Inr (), w')"
  shows "\<exists>bytes. js_to_vec J env = Inr bytes \<and> carries w' (fs @ [bytes])"
  using assms sent by (auto simp: send_msg_def encode_frame_def result_simps split: sum.splits if_splits)

lemma send_all_carries:
  "foldR (\<lambda>env w. case send_msg send J env w of (Inl e, _) \<Rightarrow> Inl e | (Inr _, w') \<Rightarrow> Inr w') envs w = Inr w' \<Longrightarrow>
   carries w fs \<Longrightarrow> \<exists>bs. list_all2 (\<lambda>env b. js_to_vec J env = Inr b) envs bs \<and> carries w' (fs @ bs)"
proof (induction envs arbitrary: w fs)
  case (Cons env envs)
  then obtain w1 where w1: "send_msg send J env w = (Inr (), w1)"
    and rest: "foldR (\<lambda>env w. case send_msg send J env w of (Inl e, _) \<Rightarrow> Inl e | (Inr _, w') \<Rightarrow> Inr w') envs w1 = Inr w'"
    by (auto simp: result_simps split: sum.splits prod.splits)
  obtain b where b: "js_to_vec J env = Inr b" "carries w1 (fs @ [b])"
    using send_msg_carries [OF Cons.prems(2) w1] by blast
  obtain bs where "list_all2 (\<lambda>env b. js_to_vec J env = Inr b) envs bs" "carries w' ((fs @ [b]) @ bs)"
    using Cons.IH [OF rest b(2)] by blast
  then show ?case using b(1) by (intro exI [of _ "b # bs"]) simp
qed auto

end

text \<open>A reader that takes messages until the end, as the connection's loops do, at most \<open>n\<close> of them.\<close>

fun recv_all :: "nat \<Rightarrow> ('r \<Rightarrow> (codec_error, string option) result \<times> 'r) \<Rightarrow> 'm json \<Rightarrow> 'r
    \<Rightarrow> (codec_error, 'm envelope list) result option" where
  "recv_all 0 recv J r = None"
| "recv_all (Suc n) recv J r =
     (case recv_msg recv J r of
        (Inl e, _) \<Rightarrow> Some (Inl e)
      | (Inr None, _) \<Rightarrow> Some (Inr [])
      | (Inr (Some env), r') \<Rightarrow> map_option (\<lambda>rest. bindR rest (\<lambda>envs. Inr (env # envs))) (recv_all n recv J r'))"

definition send_all :: "(string \<Rightarrow> 'w \<Rightarrow> (codec_error, unit) result \<times> 'w) \<Rightarrow> 'm json \<Rightarrow> 'm envelope list \<Rightarrow> 'w
    \<Rightarrow> (codec_error, 'w) result" where
  "send_all send J envs w =
     foldR (\<lambda>env w. case send_msg send J env w of (Inl e, _) \<Rightarrow> Inl e | (Inr _, w') \<Rightarrow> Inr w') envs w"

context framed begin

lemma recv_all_holds:
  "holds r bs \<Longrightarrow> list_all2 (\<lambda>env b. js_from_slice J b = Inr env) envs bs \<Longrightarrow>
   recv_all (Suc (length envs)) recv J r = Some (Inr envs)"
proof (induction envs arbitrary: r bs)
  case Nil
  then show ?case using ended [of r] by (auto simp: recv_msg_def split: prod.splits)
next
  case (Cons env envs)
  then obtain b bs' where bs: "bs = b # bs'" "js_from_slice J b = Inr env"
    "list_all2 (\<lambda>env b. js_from_slice J b = Inr env) envs bs'" by (auto simp: list_all2_Cons1)
  obtain r' where r': "recv r = (Inr (Some b), r')" "holds r' bs'" using received Cons.prems(1) bs(1) by blast
  have "recv_msg recv J r = (Inr (Some env), r')"
    by (simp add: recv_msg_def r'(1) decode_frame_def bs(2) result_simps)
  then show ?case using Cons.IH [OF r'(2) bs(3)] by (simp add: result_simps)
qed

lemma messages_arrive:
  assumes "\<And>env b. js_to_vec J env = Inr b \<Longrightarrow> js_from_slice J b = Inr env"
    and "carries w []" "send_all send J envs w = Inr w'"
    and "\<And>bs. list_all2 (\<lambda>env b. js_to_vec J env = Inr b) envs bs \<Longrightarrow> passes bs"
  shows "recv_all (Suc (length envs)) recv J (peer w') = Some (Inr envs)"
proof -
  obtain bs where bs: "list_all2 (\<lambda>env b. js_to_vec J env = Inr b) envs bs" "carries w' bs"
    using send_all_carries [OF assms(3) [unfolded send_all_def] assms(2)] by auto
  have "list_all2 (\<lambda>env b. js_from_slice J b = Inr env) envs bs" by (rule list_all2_mono [OF bs(1) assms(1)])
  then show ?thesis by (rule recv_all_holds [OF carried [OF bs(2) assms(4) [OF bs(1)]]])
qed

end

section \<open>The byte transport\<close>

lemma be_bytes_length [simp]: "length (be_bytes n) = 4"
  by (simp add: be_bytes_def)

lemma base_256: "n div (256 * k) * 256 + n div k mod 256 = n div (k :: nat)"
  by (simp only: mult.commute [of 256 k] div_mult2_eq div_mult_mod_eq)

lemma four_bytes:
  assumes "n < 2 ^ 32"
  shows "((n div 2 ^ 24 mod 256 * 256 + n div 2 ^ 16 mod 256) * 256 + n div 2 ^ 8 mod 256) * 256 + n mod 256 = (n :: nat)"
proof -
  have "n div 2 ^ 24 < 256" using assms by (simp add: less_mult_imp_div_less)
  then have top: "n div 2 ^ 24 mod 256 = n div 2 ^ 24" by (rule mod_less)
  show ?thesis
    using base_256 [of n "2 ^ 16"] base_256 [of n "2 ^ 8"] base_256 [of n 1] unfolding top by simp
qed

lemma be_u32_be_bytes [simp]: "be_u32 (be_bytes n) = n"
proof -
  let ?n = "unat n"
  have "be_u32 (be_bytes n) =
      of_nat (((?n div 2 ^ 24 mod 256 * 256 + ?n div 2 ^ 16 mod 256) * 256 + ?n div 2 ^ 8 mod 256) * 256 + ?n mod 256)"
    by (simp add: be_u32_def be_bytes_def unat_drop_bit_eq drop_bit_eq_div [where ?'a = nat] of_char_of algebra_simps)
  also have "\<dots> = of_nat ?n" using unsigned_less [of n] by (subst four_bytes) simp_all
  finally show ?thesis by simp
qed

text \<open>The bytes of a list of frames.\<close>

definition frame_bytes :: "string \<Rightarrow> string" where
  "frame_bytes f = be_bytes (of_nat (length f)) @ f"

definition byte_carries :: "byte_writer \<Rightarrow> string list \<Rightarrow> bool" where
  "byte_carries w fs \<longleftrightarrow> wr_bytes w = concat (map frame_bytes fs) \<and> list_all (\<lambda>f. \<not> oversized (length f)) fs"

definition byte_holds :: "byte_reader \<Rightarrow> string list \<Rightarrow> bool" where
  "byte_holds r fs \<longleftrightarrow> r = \<lparr>rd_bytes = concat (map frame_bytes fs), rd_end = At_Eof\<rparr>
     \<and> list_all (\<lambda>f. \<not> oversized (length f)) fs"

definition byte_peer :: "byte_writer \<Rightarrow> byte_reader" where
  "byte_peer w = \<lparr>rd_bytes = wr_bytes w, rd_end = At_Eof\<rparr>"

lemma write_all_ok: "write_all bs w = (Inr (), w') \<Longrightarrow> wr_bytes w' = wr_bytes w @ bs"
  by (auto simp: write_all_def split: option.splits if_splits)

lemma write_frame_ok:
  "write_frame f w = (Inr (), w') \<Longrightarrow> wr_bytes w' = wr_bytes w @ frame_bytes f \<and> \<not> oversized (length f)"
  by (auto simp: write_frame_def frame_bytes_def dest!: write_all_ok split: prod.splits sum.splits if_splits)

lemma frame_len:
  assumes "\<not> oversized n"
  shows "unat (of_nat n :: u32) = n" "(of_nat n :: u32) \<le> MAX_FRAME"
proof -
  show n: "unat (of_nat n :: u32) = n"
    using assms by (simp add: oversized_def unat_of_nat take_bit_nat_eq_self)
  have "unat MAX_FRAME = 67108864" by (simp add: MAX_FRAME_def)
  then show "(of_nat n :: u32) \<le> MAX_FRAME"
    unfolding word_le_nat_alt n using assms by (simp add: oversized_def)
qed

lemma read_frame_frame:
  assumes "\<not> oversized (length f)"
  shows "read_frame \<lparr>rd_bytes = frame_bytes f @ rest, rd_end = e\<rparr> = (Inr (Some f), \<lparr>rd_bytes = rest, rd_end = e\<rparr>)"
  using frame_len [OF assms] by (simp add: read_frame_def read_exact_def frame_bytes_def Let_def not_less)

interpretation bytes: framed write_frame read_frame byte_peer byte_carries byte_holds "\<lambda>_. True"
proof unfold_locales
  show "byte_carries w fs \<Longrightarrow> write_frame f w = (Inr (), w') \<Longrightarrow> byte_carries w' (fs @ [f])" for w fs f w'
    by (auto simp: byte_carries_def dest!: write_frame_ok)
  show "oversized (length f) \<Longrightarrow> write_frame f w = (Inl (Oversized (clamp_u32 (length f))), w)" for f w
    by (simp add: write_frame_def)
  show "byte_holds r (f # fs) \<Longrightarrow> \<exists>r'. read_frame r = (Inr (Some f), r') \<and> byte_holds r' fs" for r f fs
    by (auto simp: byte_holds_def read_frame_frame)
  show "byte_holds r [] \<Longrightarrow> fst (read_frame r) = Inr None" for r
    by (simp add: byte_holds_def read_frame_def read_exact_def)
  show "byte_carries w fs \<Longrightarrow> byte_holds (byte_peer w) fs" for w fs
    by (simp add: byte_carries_def byte_holds_def byte_peer_def)
qed

section \<open>The WebSocket transport\<close>

definition ws_carries :: "ws_writer \<Rightarrow> string list \<Rightarrow> bool" where
  "ws_carries w fs \<longleftrightarrow> ww_sent w = map Ws_Binary fs \<and> list_all (\<lambda>f. \<not> oversized (length f)) fs"

definition ws_holds :: "(ws_error, ws_message) result list \<Rightarrow> string list \<Rightarrow> bool" where
  "ws_holds r fs \<longleftrightarrow> r = map (\<lambda>f. Inr (Ws_Binary f)) fs @ [Inr Ws_Close] \<and> list_all (\<lambda>f. \<not> oversized (length f)) fs"

text \<open>
  \<open>deliver\<close> is the WebSocket library and the network below it: what the stream of the peer yields of the
  messages that were sent, the closing handshake included.
\<close>

type_synonym ws_channel = "ws_message list \<Rightarrow> (ws_error, ws_message) result list"

definition ws_passes :: "ws_channel \<Rightarrow> string list \<Rightarrow> bool" where
  "ws_passes deliver fs \<longleftrightarrow> deliver (map Ws_Binary fs) = map (\<lambda>f. Inr (Ws_Binary f)) fs @ [Inr Ws_Close]"

interpretation ws: framed ws_send ws_recv "\<lambda>w. deliver (ww_sent w)" ws_carries ws_holds "ws_passes deliver" for deliver
proof unfold_locales
  show "ws_carries w fs \<Longrightarrow> ws_send f w = (Inr (), w') \<Longrightarrow> ws_carries w' (fs @ [f])" for w fs f w'
    by (auto simp: ws_carries_def ws_send_def split: if_splits option.splits)
  show "oversized (length f) \<Longrightarrow> ws_send f w = (Inl (Oversized (clamp_u32 (length f))), w)" for f w
    by (simp add: ws_send_def)
  show "ws_holds r (f # fs) \<Longrightarrow> \<exists>r'. ws_recv r = (Inr (Some f), r') \<and> ws_holds r' fs" for r f fs
    by (auto simp: ws_holds_def)
  show "ws_holds r [] \<Longrightarrow> fst (ws_recv r) = Inr None" for r by (simp add: ws_holds_def)
  show "ws_carries w fs \<Longrightarrow> ws_passes deliver fs \<Longrightarrow> ws_holds (deliver (ww_sent w)) fs" for w fs
    by (simp add: ws_carries_def ws_holds_def ws_passes_def)
qed

text \<open>
  Both ends of a WebSocket keep the library's defaults (\<open>accept_async\<close> in \<open>server.rs\<close>, \<open>connect_async\<close> in \<open>client.rs\<close>,
  without a configuration): a message is one frame, and the receiver refuses a frame above 16 MiB. This is the
  library's documented behaviour on the messages it delivers.
\<close>

definition ws_frame_limit :: int where
  "ws_frame_limit = 16 * 1024 * 1024"

definition fits_ws :: "string \<Rightarrow> bool" where
  "fits_ws b \<longleftrightarrow> int (length b) \<le> ws_frame_limit"

text \<open>
  C24: Messages arrive: over either transport, everything that was sent without an error is received by
  the peer, whole, once each and in order, followed by a clean end, whenever JSON reads back what it wrote;
  over a WebSocket, when each message fits the library's frame limit of 16 MiB and the library delivers what
  fits. Between that limit and the 64 MiB up to which the transport sends, the library's receiver refuses what
  was sent without an error, and nothing is claimed.
\<close>

theorem transports_deliver:
  assumes "\<And>env b. js_to_vec J env = Inr b \<Longrightarrow> js_from_slice J b = Inr env"
    and "\<And>fs. list_all fits_ws fs \<Longrightarrow> deliver (map Ws_Binary fs) = map (\<lambda>f. Inr (Ws_Binary f)) fs @ [Inr Ws_Close]"
  shows "(wr_bytes w = [] \<and> send_all write_frame J envs w = Inr w' \<longrightarrow>
      recv_all (Suc (length envs)) read_frame J \<lparr>rd_bytes = wr_bytes w', rd_end = At_Eof\<rparr> = Some (Inr envs))
    \<and> (ww_sent v = [] \<and> send_all ws_send J envs v = Inr v' \<and> list_all (\<lambda>env. case js_to_vec J env of Inr b \<Rightarrow> fits_ws b | Inl _ \<Rightarrow> False) envs \<longrightarrow>
      recv_all (Suc (length envs)) ws_recv J (deliver (ww_sent v')) = Some (Inr envs))"
proof -
  have "ws_passes deliver bs" if "list_all (\<lambda>env. case js_to_vec J env of Inr b \<Rightarrow> fits_ws b | Inl _ \<Rightarrow> False) envs"
    "list_all2 (\<lambda>env b. js_to_vec J env = Inr b) envs bs" for bs
  proof -
    have "list_all fits_ws bs" using that(2,1) by (induction rule: list_all2_induct) simp_all
    then show ?thesis using assms(2) by (simp add: ws_passes_def)
  qed
  then show ?thesis
    using bytes.messages_arrive [OF assms(1), of w envs w'] ws.messages_arrive [OF assms(1), of v envs v' deliver]
    by (simp add: byte_carries_def byte_peer_def ws_carries_def)
qed

text \<open>The transport sends a frame the library's receiver refuses.\<close>

lemma ws_send_above_limit:
  assumes "ww_fails w = None" "length f = 16 * 1024 * 1024 + 1"
  shows "\<not> fits_ws f \<and> ws_send f w = (Inr (), w\<lparr>ww_sent := ww_sent w @ [Ws_Binary f]\<rparr>)"
  using assms by (simp add: fits_ws_def ws_frame_limit_def ws_send_def oversized_def)

text \<open>A JSON in which the message is one byte and the version is implied.\<close>

definition byte_json :: "char json" where
  "byte_json = \<lparr>js_to_vec = (\<lambda>env. if en_v env = protocol_CURRENT then Inr [en_msg env] else Inl ''version''),
     js_from_slice = (\<lambda>b. case b of [c] \<Rightarrow> Inr (envelope_current c) | _ \<Rightarrow> Inl ''length'')\<rparr>"

text \<open>A library that delivers the frames that fit and ends the stream at the first one that does not.\<close>

fun sample_channel :: ws_channel where
  "sample_channel [] = [Inr Ws_Close]"
| "sample_channel (Ws_Binary b # ms) = (if fits_ws b then Inr (Ws_Binary b) # sample_channel ms else [Inl (Ws_Other ''capacity'')])"
| "sample_channel (m # ms) = Inr m # sample_channel ms"

lemma sample_channel_delivers:
  "list_all fits_ws fs \<Longrightarrow> sample_channel (map Ws_Binary fs) = map (\<lambda>f. Inr (Ws_Binary f)) fs @ [Inr Ws_Close]"
  by (induction fs) simp_all

theorem transports_deliver_witness:
  "recv_all 3 read_frame byte_json
     \<lparr>rd_bytes = frame_bytes ''a'' @ frame_bytes ''b'', rd_end = At_Eof\<rparr>
     = Some (Inr [envelope_current CHR ''a'', envelope_current CHR ''b''])
   \<and> recv_all 3 ws_recv byte_json (sample_channel [Ws_Binary ''a'', Ws_Binary ''b''])
     = Some (Inr [envelope_current CHR ''a'', envelope_current CHR ''b''])"
proof -
  let ?envs = "[envelope_current CHR ''a'', envelope_current CHR ''b'']"
  let ?w = "\<lparr>wr_bytes = [], wr_breaks = None\<rparr>" and ?v = "\<lparr>ww_sent = [], ww_fails = None\<rparr>"
  let ?w' = "\<lparr>wr_bytes = frame_bytes ''a'' @ frame_bytes ''b'', wr_breaks = None\<rparr>"
  let ?v' = "\<lparr>ww_sent = [Ws_Binary ''a'', Ws_Binary ''b''], ww_fails = None\<rparr>"
  have small: "\<not> oversized 1" by (simp add: oversized_def)
  have "send_all write_frame byte_json ?envs ?w = Inr ?w'"
    by (simp add: send_all_def send_msg_def encode_frame_def byte_json_def envelope_current_def small write_frame_def
        write_all_def flush_def frame_bytes_def result_simps oversized_def)
  moreover have "send_all ws_send byte_json ?envs ?v = Inr ?v'"
    by (simp add: send_all_def send_msg_def encode_frame_def byte_json_def envelope_current_def small ws_send_def result_simps oversized_def)
  moreover have "list_all (\<lambda>env. case js_to_vec byte_json env of Inr b \<Rightarrow> fits_ws b | Inl _ \<Rightarrow> False) ?envs"
    by (simp add: byte_json_def envelope_current_def fits_ws_def ws_frame_limit_def)
  moreover have "js_to_vec byte_json env = Inr b \<Longrightarrow> js_from_slice byte_json b = Inr env" for env b
    by (auto simp: byte_json_def envelope_current_def split: if_splits)
  ultimately show ?thesis
    using transports_deliver [of byte_json sample_channel ?w ?envs ?w' ?v ?v', OF _ sample_channel_delivers]
    by (simp add: numeral_3_eq_3 del: recv_all.simps sample_channel.simps)
qed

section \<open>What a cut stream reads as\<close>

text \<open>
  A stream cut inside a frame: nothing at all reads as a clean end, so do one to three bytes of the
  length, and from there on the cut is an end-of-file error, whatever part of the payload is missing. A
  length above the limit is refused before any of the payload is read.
\<close>

lemma read_frame_cut:
  assumes "\<not> oversized (length f)" "k \<le> length (frame_bytes f)" "MAX_FRAME < len"
  shows "fst (read_frame \<lparr>rd_bytes = take k (frame_bytes f), rd_end = At_Eof\<rparr>) =
      (if k < 4 then Inr None else if k < length (frame_bytes f) then Inl (Codec_Io Io_UnexpectedEof) else Inr (Some f))
    \<and> read_frame \<lparr>rd_bytes = be_bytes len @ rest, rd_end = e\<rparr> = (Inl (Oversized len), \<lparr>rd_bytes = rest, rd_end = e\<rparr>)"
proof
  have "take k (frame_bytes f) = be_bytes (of_nat (length f)) @ take (k - 4) f" if "4 \<le> k"
    using that by (simp add: frame_bytes_def)
  then show "fst (read_frame \<lparr>rd_bytes = take k (frame_bytes f), rd_end = At_Eof\<rparr>) =
      (if k < 4 then Inr None else if k < length (frame_bytes f) then Inl (Codec_Io Io_UnexpectedEof) else Inr (Some f))"
    using frame_len [OF assms(1)] assms(2)
    by (auto simp: read_frame_def read_exact_def frame_bytes_def not_less Let_def)
qed (use assms(3) in \<open>simp add: read_frame_def read_exact_def\<close>)

end
