(* ===== verification/Nits_Spans.thy ===== *)
theory Nits_Spans
  imports Nits_Lines
begin

text \<open>
  Ranges within a line: syntax spans, \<open>crates/nits-review-core/src/render/highlight.rs\<close>, and the
  words that changed between two lines, \<open>render/intraline.rs\<close>. The parser of the syntax library, the
  token diff and the character table are parameters.
\<close>

section \<open>Spans\<close>

datatype span_class =
    Class_Keyword | Class_String | Class_Number | Class_Comment | Class_Type | Class_Function | Class_Variable
  | Class_Constant | Class_Operator | Class_Punctuation | Class_Attribute | Class_Tag | Class_Other

record span =
  sp_range :: col_range
  sp_class :: span_class

text \<open>\<open>u32::try_from(n).unwrap_or(u32::MAX)\<close>.\<close>

definition to_u32 :: "nat \<Rightarrow> u32" where
  "to_u32 n = (if int n < 2 ^ 32 then of_nat n else - 1)"

record hunk =
  hb_start :: nat
  hb_end :: nat
  ha_start :: nat
  ha_end :: nat

type_synonym line_key = "string \<times> line_ending"

text \<open>
  The libraries of a render: the line diff, the highlighter (the code passes \<open>Highlighter::highlight\<close>,
  modelled as \<open>highlight\<close> below), the token diff and \<open>char::is_alphanumeric\<close> on the bytes of a scalar.
\<close>

record render_libs =
  rl_diff :: "line_key list \<Rightarrow> line_key list \<Rightarrow> hunk list"
  rl_highlight :: "string \<Rightarrow> string list \<Rightarrow> span list list"
  rl_token_diff :: "string list \<Rightarrow> string list \<Rightarrow> hunk list"
  rl_alphanumeric :: "string \<Rightarrow> bool"

section \<open>Highlighting\<close>

record ('y, 's, 'o, 'k) syntect =
  sy_find :: "string \<Rightarrow> 'y option"
  sy_start :: "'y \<Rightarrow> 's"
  sy_parse :: "'s \<Rightarrow> string \<Rightarrow> 's \<times> (nat \<times> 'o) list option"
  sy_empty :: 'k
  sy_apply :: "'o \<Rightarrow> 'k \<Rightarrow> 'k"
  sy_scopes :: "'k \<Rightarrow> string list"

definition classify :: "string \<Rightarrow> span_class option" where
  "classify scope =
     (let first = hd (split_on (CHR ''.'') scope); under = (\<lambda>p. starts_with p scope) in
      if first = ''comment'' then Some Class_Comment
      else if first = ''string'' then Some Class_String
      else if first = ''constant'' then Some (if under ''constant.numeric'' then Class_Number else Class_Constant)
      else if first = ''keyword'' then Some (if under ''keyword.operator'' then Class_Operator else Class_Keyword)
      else if first = ''storage'' then Some Class_Keyword
      else if first = ''entity'' then
        (if under ''entity.name.function'' then Some Class_Function
         else if under ''entity.name.type'' \<or> under ''entity.name.class'' \<or> under ''entity.name.struct''
           \<or> under ''entity.name.enum'' \<or> under ''entity.name.trait'' then Some Class_Type
         else if under ''entity.name.tag'' then Some Class_Tag
         else if under ''entity.other.attribute-name'' then Some Class_Attribute
         else None)
      else if first = ''support'' then
        Some (if under ''support.function'' then Class_Function
              else if under ''support.type'' \<or> under ''support.class'' then Class_Type
              else Class_Constant)
      else if first = ''variable'' then Some Class_Variable
      else if first = ''punctuation'' then Some Class_Punctuation
      else if first = ''meta'' \<and> (under ''meta.attribute'' \<or> under ''meta.annotation'') then Some Class_Attribute
      else None)"

text \<open>The most specific scope wins: the first from the top that has a class.\<close>

fun find_map :: "('a \<Rightarrow> 'b option) \<Rightarrow> 'a list \<Rightarrow> 'b option" where
  "find_map f [] = None"
| "find_map f (x # xs) = (case f x of None \<Rightarrow> find_map f xs | Some y \<Rightarrow> Some y)"

definition class_for :: "string list \<Rightarrow> span_class option" where
  "class_for stack = find_map classify (rev stack)"

definition u32_try :: "nat \<Rightarrow> u32 option" where
  "u32_try n = (if int n < 2 ^ 32 then Some (of_nat n) else None)"

text \<open>Extend the last range when it ends where the new one starts, else push the new one.\<close>

definition push_span :: "span list \<Rightarrow> nat \<Rightarrow> nat \<Rightarrow> span_class option \<Rightarrow> span list" where
  "push_span spans start end' class =
     (case (class, u32_try start, u32_try end') of
        (Some c, Some s, Some e) \<Rightarrow>
          if spans \<noteq> [] \<and> sp_class (last spans) = c \<and> col_end (sp_range (last spans)) = s
             \<and> is_ok (col_new (col_start (sp_range (last spans))) e)
          then butlast spans @ [(last spans)\<lparr>sp_range := ColRange (col_start (sp_range (last spans))) e\<rparr>]
          else (case col_new s e of Inr r \<Rightarrow> spans @ [\<lparr>sp_range = r, sp_class = c\<rparr>] | Inl _ \<Rightarrow> spans)
      | _ \<Rightarrow> spans)"

text \<open>The operations of one line: the spans, how far they reach, and the stack of scopes.\<close>

fun line_spans :: "('y, 's, 'o, 'k) syntect \<Rightarrow> nat \<Rightarrow> (nat \<times> 'o) list \<Rightarrow> span list \<Rightarrow> nat \<Rightarrow> 'k \<Rightarrow> span list \<times> 'k" where
  "line_spans Y line_len [] spans cursor stack =
     ((if line_len > cursor then push_span spans cursor line_len (class_for (sy_scopes Y stack)) else spans), stack)"
| "line_spans Y line_len ((off, op1) # ops) spans cursor stack =
     (let offset = min off line_len;
          current = class_for (sy_scopes Y stack);
          spans' = (if offset > cursor then push_span spans cursor offset current else spans)
      in line_spans Y line_len ops spans' (max cursor offset) (sy_apply Y op1 stack))"

fun highlight_lines :: "('y, 's, 'o, 'k) syntect \<Rightarrow> 's \<Rightarrow> 'k \<Rightarrow> string list \<Rightarrow> span list list" where
  "highlight_lines Y state stack [] = []"
| "highlight_lines Y state stack (line # lines) =
     (case sy_parse Y state (line @ [newline]) of
        (state', None) \<Rightarrow> [] # highlight_lines Y state' stack lines
      | (state', Some ops) \<Rightarrow>
          (let (spans, stack') = line_spans Y (length line) ops [] 0 stack
           in spans # highlight_lines Y state' stack' lines))"

definition highlight :: "('y, 's, 'o, 'k) syntect \<Rightarrow> string \<Rightarrow> string list \<Rightarrow> span list list" where
  "highlight Y lang lines =
     (case sy_find Y lang of
        None \<Rightarrow> map (\<lambda>_. []) lines
      | Some syntax \<Rightarrow> highlight_lines Y (sy_start Y syntax) (sy_empty Y) lines)"

section \<open>Words\<close>

record tok =
  tk_text :: string
  tk_start :: u32
  tk_end :: u32

datatype tok_class = Tok_Word | Tok_Space | Tok_Other

definition class_of :: "(string \<Rightarrow> bool) \<Rightarrow> string \<Rightarrow> tok_class" where
  "class_of alnum c = (if alnum c \<or> c = ''_'' then Tok_Word else if is_whitespace c then Tok_Space else Tok_Other)"

text \<open>The scalars a token takes after its first one.\<close>

definition token_rest :: "(string \<Rightarrow> bool) \<Rightarrow> string \<Rightarrow> string list \<Rightarrow> string list" where
  "token_rest alnum c cs =
     (if class_of alnum c = Tok_Other then [] else takeWhile (\<lambda>d. class_of alnum d = class_of alnum c) cs)"

lemma token_rest_split: "cs = token_rest alnum c cs @ drop (length (token_rest alnum c cs)) cs"
proof (cases "class_of alnum c = Tok_Other")
  case False
  then show ?thesis by (simp add: token_rest_def dropWhile_eq_drop [symmetric])
qed (simp add: token_rest_def)

function tokens_from :: "(string \<Rightarrow> bool) \<Rightarrow> nat \<Rightarrow> string list \<Rightarrow> tok list" where
  "tokens_from alnum start [] = []"
| "tokens_from alnum start (c # cs) =
     (let text = concat (c # token_rest alnum c cs)
      in \<lparr>tk_text = text, tk_start = to_u32 start, tk_end = to_u32 (start + length text)\<rparr>
         # tokens_from alnum (start + length text) (drop (length (token_rest alnum c cs)) cs))"
  by pat_completeness auto
termination
  by (relation "measure (\<lambda>(alnum, start, cs). length cs)") auto

definition tokens :: "(string \<Rightarrow> bool) \<Rightarrow> string \<Rightarrow> tok list" where
  "tokens alnum s = tokens_from alnum 0 (utf8_scalars s)"

definition push_range :: "tok list \<Rightarrow> col_range list \<Rightarrow> nat \<Rightarrow> nat \<Rightarrow> col_range list" where
  "push_range toks out s e =
     (if s \<ge> e then out
      else let start = tk_start (toks ! s); end' = tk_end (toks ! (e - 1)) in
        if out \<noteq> [] \<and> col_end (last out) = start \<and> is_ok (col_new (col_start (last out)) end')
        then butlast out @ [ColRange (col_start (last out)) end']
        else (case col_new start end' of Inr r \<Rightarrow> out @ [r] | Inl _ \<Rightarrow> out))"

definition changed_ranges :: "render_libs \<Rightarrow> string \<Rightarrow> string \<Rightarrow> col_range list \<times> col_range list" where
  "changed_ranges L left right =
     (let lt = tokens (rl_alphanumeric L) left;
          rt = tokens (rl_alphanumeric L) right;
          hunks = rl_token_diff L (map tk_text lt) (map tk_text rt)
      in (foldl (\<lambda>out h. push_range lt out (hb_start h) (hb_end h)) [] hunks,
          foldl (\<lambda>out h. push_range rt out (ha_start h) (ha_end h)) [] hunks))"

end
