(* ===== verification/Nits_Targets.thy ===== *)
theory Nits_Targets
  imports Nits_Domain Ordered_Table
begin

text \<open>
  The operations of \<open>crates/nits-protocol/src/domain.rs\<close> on context hashes, render
  expansions, resolved targets, request comparisons and checkpoints, and the validated
  targets of \<open>creation.rs\<close>. \<open>BTreeMap\<close> and \<open>BTreeSet\<close> are the ordered table and a list of
  the elements seen.
\<close>

section \<open>Context hashes as text\<close>

text \<open>
  \<open>u64::from_str_radix(s, 16)\<close>: an optional leading \<open>+\<close>, then at least one hex digit of
  either case, with a checked multiply and add; \<open>None\<close> is any of its errors.
\<close>

fun radix16_digits :: "nat \<Rightarrow> u8 list \<Rightarrow> nat option" where
  "radix16_digits acc [] = Some acc"
| "radix16_digits acc (c # cs) =
     (case hex_val c of
        None \<Rightarrow> None
      | Some d \<Rightarrow> if acc * 16 + unat d < 2 ^ 64 then radix16_digits (acc * 16 + unat d) cs else None)"

definition u64_from_str_radix_16 :: "string \<Rightarrow> u64 option" where
  "u64_from_str_radix_16 s =
     (let digits = (case strip_prefix ''+'' s of Some rest \<Rightarrow> rest | None \<Rightarrow> s)
      in if digits = [] then None else map_option of_nat (radix16_digits 0 (map byte_of digits)))"

datatype context_hash_error = ContextHash_Length string | ContextHash_Digits string

definition context_hash_try_from :: "string \<Rightarrow> (context_hash_error, context_hash) result" where
  "context_hash_try_from s =
     (if length s \<noteq> 16 then Inl (ContextHash_Length s)
      else case u64_from_str_radix_16 s of
        None \<Rightarrow> Inl (ContextHash_Digits s)
      | Some h \<Rightarrow> Inr (ContextHash h))"

text \<open>\<open>{:016x}\<close>: the low sixteen lower-case hex digits, most significant first.\<close>

fun hex_padded :: "nat \<Rightarrow> nat \<Rightarrow> string" where
  "hex_padded 0 n = []"
| "hex_padded (Suc k) n = hex_padded k (n div 16) @ [hex_digit (of_nat (n mod 16))]"

definition context_hash_into :: "context_hash \<Rightarrow> string" where
  "context_hash_into h = hex_padded 16 (unat (context_hash_get h))"

section \<open>Render options\<close>

datatype gap = Gap (gap_get: u32)

record gap_expansion =
  ge_gap :: gap
  ge_up :: u32
  ge_down :: u32

datatype expansions_error =
    Expansions_Duplicate gap
  | Expansions_Unordered

datatype expansions = Expansions (expansions_as_slice: "gap_expansion list")

text \<open>The loop over \<open>v.windows(2)\<close>.\<close>

fun expansions_check :: "gap_expansion list \<Rightarrow> (expansions_error, unit) result" where
  "expansions_check (a # b # v) =
     (if ge_gap a = ge_gap b then Inl (Expansions_Duplicate (ge_gap a))
      else if gap_get (ge_gap b) < gap_get (ge_gap a) then Inl Expansions_Unordered
      else expansions_check (b # v))"
| "expansions_check _ = Inr ()"

definition expansions_try_from :: "gap_expansion list \<Rightarrow> (expansions_error, expansions) result" where
  "expansions_try_from v = bindR (expansions_check v) (\<lambda>_. Inr (Expansions v))"

definition expansions_is_empty :: "expansions \<Rightarrow> bool" where
  "expansions_is_empty e \<longleftrightarrow> expansions_as_slice e = []"

definition expansions_of :: "expansions \<Rightarrow> gap \<Rightarrow> u32 \<times> u32" where
  "expansions_of e gap =
     (case find (\<lambda>x. ge_gap x = gap) (expansions_as_slice e) of
        None \<Rightarrow> (0, 0)
      | Some x \<Rightarrow> (ge_up x, ge_down x))"

datatype expand_dir = Dir_Up | Dir_Down | Dir_Both

definition u32_saturating_add :: "u32 \<Rightarrow> u32 \<Rightarrow> u32" where
  "u32_saturating_add a b = (if unat a + unat b < 2 ^ 32 then a + b else - 1)"

definition opened_step :: "expand_dir \<Rightarrow> u32 \<Rightarrow> u32 \<times> u32 \<Rightarrow> u32 \<times> u32" where
  "opened_step dir step ud =
     (case ud of (up, down) \<Rightarrow>
        (case dir of
           Dir_Up \<Rightarrow> (u32_saturating_add up step, down)
         | Dir_Down \<Rightarrow> (up, u32_saturating_add down step)
         | Dir_Both \<Rightarrow> (u32_saturating_add up step, u32_saturating_add down step)))"

definition expansions_opened :: "expansions \<Rightarrow> gap \<Rightarrow> expand_dir \<Rightarrow> u32 \<Rightarrow> expansions" where
  "expansions_opened e gap dir step =
     (let (up, down) = opened_step dir step (expansions_of e gap);
          out = filter (\<lambda>x. ge_gap x \<noteq> gap) (expansions_as_slice e)
                  @ [\<lparr>ge_gap = gap, ge_up = up, ge_down = down\<rparr>]
      in Expansions (sort_key (\<lambda>x. gap_get (ge_gap x)) out))"

record render_opts =
  ro_ignore_whitespace :: bool
  ro_context_lines :: u32
  ro_expanded :: expansions

definition render_opts_default :: render_opts where
  "render_opts_default =
     \<lparr>ro_ignore_whitespace = False, ro_context_lines = 3, ro_expanded = Expansions []\<rparr>"

section \<open>Comparing resolved targets\<close>

definition same_ref :: "resolved_ref \<Rightarrow> resolved_ref \<Rightarrow> bool" where
  "same_ref a b \<longleftrightarrow>
     rr_tree a = rr_tree b \<and>
     (case (rr_source a, rr_source b) of
        (Source_Commit x, Source_Commit y) \<Rightarrow> x = y
      | (Source_WorkingTree _ _ _, Source_WorkingTree _ _ _) \<Rightarrow> True
      | (Source_Commit _, Source_WorkingTree _ _ _) \<Rightarrow> False
      | (Source_WorkingTree _ _ _, Source_Commit _) \<Rightarrow> False)"

definition same_target :: "resolved_target \<Rightarrow> resolved_target \<Rightarrow> bool" where
  "same_target a b \<longleftrightarrow>
     rs_repo_id a = rs_repo_id b \<and> same_ref (rs_base a) (rs_base b)
     \<and> same_ref (rs_head a) (rs_head b)"

definition same_targets :: "resolved_target nonempty \<Rightarrow> resolved_target nonempty \<Rightarrow> bool" where
  "same_targets a b \<longleftrightarrow>
     ne_len a = ne_len b
     \<and> list_all (\<lambda>x. list_ex (\<lambda>y. same_target x y) (ne_items b)) (ne_items a)"

text \<open>
  The loop of \<open>RequestCheckpointComparison::against\<close> over one target's pair of refs: \<open>Inl ()\<close>
  is the early return of \<open>ChangedTargets\<close>, otherwise the outcome carried on.
\<close>

fun against_ref :: "resolved_source \<times> resolved_source \<Rightarrow> target_comparison
    \<Rightarrow> (unit, target_comparison) result" where
  "against_ref (Source_WorkingTree _ _ old, Source_WorkingTree _ _ new) outcome =
     (case (old, new) of
        (Some o1, Some n1) \<Rightarrow> if o1 \<noteq> n1 then Inl () else Inr outcome
      | (None, _) \<Rightarrow> Inr UnknownRevision
      | (Some _, None) \<Rightarrow> Inr UnknownRevision)"
| "against_ref _ outcome = Inr outcome"

definition against_target :: "resolved_target list \<Rightarrow> resolved_target \<Rightarrow> target_comparison
    \<Rightarrow> (unit, target_comparison) result" where
  "against_target targets old outcome =
     (case find (\<lambda>new. rs_repo_id new = rs_repo_id old) targets of
        None \<Rightarrow> Inr outcome
      | Some new \<Rightarrow>
          foldR against_ref
            [(rr_source (rs_base old), rr_source (rs_base new)),
             (rr_source (rs_head old), rr_source (rs_head new))] outcome)"

definition comparison_against :: "review_checkpoint option \<Rightarrow> resolved_target nonempty
    \<Rightarrow> request_checkpoint_comparison" where
  "comparison_against checkpoint targets =
     (case checkpoint of
        None \<Rightarrow> Comparison_NoCheckpoint
      | Some cp \<Rightarrow>
          if \<not> same_targets (cp_targets cp) targets
          then Comparison_Compared (cp_id cp) ChangedTargets
          else case foldR (against_target (ne_items targets)) (ne_items (cp_targets cp)) SameTargets of
            Inl _ \<Rightarrow> Comparison_Compared (cp_id cp) ChangedTargets
          | Inr outcome \<Rightarrow> Comparison_Compared (cp_id cp) outcome)"

section \<open>Reviewers and their latest checkpoints\<close>

text \<open>\<open>#[derive(Ord)]\<close>: variants in declaration order, then their fields.\<close>

fun reviewer_rank :: "reviewer_identity \<Rightarrow> nat \<times> string \<times> string" where
  "reviewer_rank (Reviewer_Human name machine) = (0, name, machine)"
| "reviewer_rank (Reviewer_Agent name) = (1, name, [])"

lemma reviewer_rank_inj: "reviewer_rank a = reviewer_rank b \<Longrightarrow> a = b"
  by (cases a; cases b) auto

instantiation reviewer_identity :: linorder
begin

definition less_eq_reviewer_identity :: "reviewer_identity \<Rightarrow> reviewer_identity \<Rightarrow> bool" where
  "less_eq_reviewer_identity a b \<longleftrightarrow> reviewer_rank a \<le> reviewer_rank b"

definition less_reviewer_identity :: "reviewer_identity \<Rightarrow> reviewer_identity \<Rightarrow> bool" where
  "less_reviewer_identity a b \<longleftrightarrow> reviewer_rank a < reviewer_rank b"

instance
proof
  fix a b c :: reviewer_identity
  show "a < b \<longleftrightarrow> a \<le> b \<and> \<not> b \<le> a"
    unfolding less_reviewer_identity_def less_eq_reviewer_identity_def by (rule less_le_not_le)
  show "a \<le> a" unfolding less_eq_reviewer_identity_def by simp
  show "a \<le> b \<Longrightarrow> b \<le> c \<Longrightarrow> a \<le> c"
    unfolding less_eq_reviewer_identity_def by (rule order_trans)
  show "a \<le> b \<Longrightarrow> b \<le> a \<Longrightarrow> a = b"
    unfolding less_eq_reviewer_identity_def by (rule reviewer_rank_inj) (rule order_antisym)
  show "a \<le> b \<or> b \<le> a" unfolding less_eq_reviewer_identity_def by (rule linear)
qed

end

definition checkpoint_freshness_of :: "resolved_target nonempty option \<Rightarrow> review_checkpoint
    \<Rightarrow> checkpoint_freshness" where
  "checkpoint_freshness_of current cp =
     (case current of
        None \<Rightarrow> Fresh_Unknown
      | Some targets \<Rightarrow> if same_targets (cp_targets cp) targets then Fresh_Current else Fresh_Changed)"

text \<open>\<open>entry(reviewer).or_insert(checkpoint)\<close>, then the replacement by a greater id.\<close>

definition latest_step :: "review_checkpoint \<Rightarrow> (reviewer_identity, review_checkpoint) table
    \<Rightarrow> (reviewer_identity, review_checkpoint) table" where
  "latest_step cp latest =
     (let entry = (case tbl_get latest (cp_reviewer cp) of None \<Rightarrow> cp | Some old \<Rightarrow> old)
      in tbl_insert (cp_reviewer cp)
           (if checkpoint_event_seq (cp_id entry) < checkpoint_event_seq (cp_id cp) then cp else entry)
           latest)"

definition latest_checkpoints :: "review_checkpoint list \<Rightarrow> resolved_target nonempty option
    \<Rightarrow> reviewer_checkpoint list" where
  "latest_checkpoints checkpoints current =
     map (\<lambda>cp. \<lparr>rc_checkpoint = cp, rc_freshness = checkpoint_freshness_of current cp\<rparr>)
       (tbl_values (fold latest_step checkpoints tbl_empty))"

section \<open>Targets of a new review\<close>

datatype create_review_targets_error =
    CreateTargets_Empty
  | CreateTargets_Duplicate repo_id

datatype create_review_targets = CreateReviewTargets (as_targets: "review_target nonempty")

definition create_targets_singleton :: "review_target \<Rightarrow> create_review_targets" where
  "create_targets_singleton target = CreateReviewTargets (ne_singleton target)"

fun check_repositories_from :: "repo_id list \<Rightarrow> repo_id list
    \<Rightarrow> (create_review_targets_error, unit) result" where
  "check_repositories_from seen [] = Inr ()"
| "check_repositories_from seen (r # rs) =
     (if r \<in> set seen then Inl (CreateTargets_Duplicate r)
      else check_repositories_from (r # seen) rs)"

definition check_repositories :: "repo_id list \<Rightarrow> (create_review_targets_error, unit) result" where
  "check_repositories repositories = check_repositories_from [] repositories"

definition create_targets_try_from :: "review_target nonempty
    \<Rightarrow> (create_review_targets_error, create_review_targets) result" where
  "create_targets_try_from targets =
     bindR (check_repositories (map rt_repo_id (ne_items targets)))
       (\<lambda>_. Inr (CreateReviewTargets targets))"

definition create_targets_try_from_vec :: "review_target list
    \<Rightarrow> (create_review_targets_error, create_review_targets) result" where
  "create_targets_try_from_vec targets =
     bindR (map_err (\<lambda>_. CreateTargets_Empty) (ne_new targets)) create_targets_try_from"

section \<open>Context hashes survive their text\<close>

lemma radix16_digits_append:
  "radix16_digits acc (xs @ ys) = Option.bind (radix16_digits acc xs) (\<lambda>a. radix16_digits a ys)"
  by (induction xs arbitrary: acc) (auto split: option.splits)

lemma hex_val_hex_digit_nat: "hex_val (byte_of (hex_digit (of_nat (n mod 16)))) = Some (of_nat (n mod 16))"
  by (rule hex_val_digit) (simp add: word_less_nat_alt unat_of_nat take_bit_nat_eq_self)

lemma mod_16_power: "(n div 16) mod 16 ^ k * 16 + n mod 16 = n mod (16 * 16 ^ k :: nat)"
  by (simp add: mod_mult2_eq)

lemma radix16_hex_padded:
  "16 ^ k \<le> (2 :: nat) ^ 64 \<Longrightarrow>
     radix16_digits 0 (map byte_of (hex_padded k n)) = Some (n mod 16 ^ k)"
proof (induction k arbitrary: n)
  case (Suc k)
  have le: "(16 :: nat) ^ k \<le> 2 ^ 64" using Suc.prems by simp
  have lt: "(n div 16) mod 16 ^ k * 16 + n mod 16 < 2 ^ 64"
    unfolding mod_16_power
    by (rule less_le_trans [OF mod_less_divisor]) (use Suc.prems in simp_all)
  have d: "unat (of_nat (n mod 16) :: u8) = n mod 16"
    by (simp add: unat_of_nat take_bit_nat_eq_self)
  show ?case
    using lt
    by (simp add: radix16_digits_append Suc.IH [OF le] hex_val_hex_digit_nat d)
      (simp add: mod_16_power)
qed simp

lemma length_hex_padded [simp]: "length (hex_padded k n) = k"
  by (induction k arbitrary: n) auto

lemma hex_digit_not_plus: "hex_digit (of_nat (n mod 16)) \<noteq> CHR ''+''"
proof
  assume "hex_digit (of_nat (n mod 16)) = CHR ''+''"
  then have "hex_val (byte_of (CHR ''+'')) = Some (of_nat (n mod 16))"
    using hex_val_hex_digit_nat [of n] by simp
  then show False by (simp add: hex_val_def byte_of_def)
qed

lemma hex_padded_not_plus: "CHR ''+'' \<notin> set (hex_padded k n)"
  by (induction k arbitrary: n) (simp_all add: hex_digit_not_plus [symmetric])

text \<open>
  A context hash written as text (sixteen lower-case hex digits) parses back to the same
  hash, for every 64-bit value.
\<close>

lemma context_hash_roundtrip: "context_hash_try_from (context_hash_into h) = Inr h"
proof -
  let ?s = "hex_padded 16 (unat (context_hash_get h))"
  have np: "strip_prefix ''+'' ?s = None"
    using hex_padded_not_plus [of 16 "unat (context_hash_get h)"]
    by (cases "strip_prefix ''+'' ?s") (auto simp: strip_prefix_Some_iff simp del: hex_padded.simps)
  have ne: "?s \<noteq> []" using length_hex_padded [of 16] by (metis list.size(3) zero_neq_numeral)
  have "unat (context_hash_get h) < 2 ^ 64" using unsigned_less [of "context_hash_get h"] by simp
  then have "radix16_digits 0 (map byte_of ?s) = Some (unat (context_hash_get h))"
    by (subst radix16_hex_padded) simp_all
  then have "u64_from_str_radix_16 ?s = Some (context_hash_get h)"
    using np ne by (simp add: u64_from_str_radix_16_def Let_def)
  then show ?thesis
    by (simp add: context_hash_try_from_def context_hash_into_def del: hex_padded.simps)
qed

section \<open>Expansions stay canonical\<close>

definition expansion_keys :: "gap_expansion list \<Rightarrow> u32 list" where
  "expansion_keys v = map (\<lambda>x. gap_get (ge_gap x)) v"

lemma expansions_check_iff:
  "expansions_check v = Inr () \<longleftrightarrow> sorted_wrt (<) (expansion_keys v)"
proof (induction v rule: expansions_check.induct)
  case (1 a b v)
  have "gap_get (ge_gap a) \<noteq> gap_get (ge_gap b) \<longleftrightarrow> ge_gap a \<noteq> ge_gap b"
    by (cases "ge_gap a"; cases "ge_gap b") simp
  with 1 show ?case
    by (auto simp: expansion_keys_def neq_iff intro: order.strict_trans)
qed (simp_all add: expansion_keys_def)

lemma expansions_try_from_iff:
  "expansions_try_from v = Inr e \<longleftrightarrow> sorted_wrt (<) (expansion_keys v) \<and> e = Expansions v"
  by (auto simp: expansions_try_from_def result_simps simp flip: expansions_check_iff)

lemma find_distinct_key:
  "distinct (map f xs) \<Longrightarrow> x \<in> set xs \<Longrightarrow> f x = k \<Longrightarrow> find (\<lambda>y. f y = k) xs = Some x"
  by (induction xs) (auto simp: image_iff)

lemma find_same_set:
  assumes "distinct (map f xs)" "distinct (map f ys)"
    and "\<And>x. f x = k \<Longrightarrow> x \<in> set xs \<longleftrightarrow> x \<in> set ys"
  shows "find (\<lambda>y. f y = k) xs = find (\<lambda>y. f y = k) ys"
proof (cases "\<exists>x\<in>set xs. f x = k")
  case True
  then obtain x where x: "x \<in> set xs" "f x = k" by blast
  then have "x \<in> set ys" using assms(3) by blast
  then show ?thesis
    using x find_distinct_key [OF assms(1)] find_distinct_key [OF assms(2)] by simp
next
  case False
  then have "find (\<lambda>y. f y = k) xs = None" "find (\<lambda>y. f y = k) ys = None"
    using assms(3) by (auto simp: find_None_iff)
  then show ?thesis by simp
qed

lemma strictly_sorted_sort_key:
  "distinct (map f xs) \<Longrightarrow> sorted_wrt (<) (map f (sort_key f xs))"
  for f :: "'a \<Rightarrow> 'b::linorder"
  by (simp add: strict_sorted_iff distinct_map)

text \<open>
  Opening a gap of a canonical expansion set gives a canonical set (one that
  \<open>try_from\<close> accepts, strictly ordered by gap): the opened gap grows by the step in the asked
  direction, saturating, and every other gap keeps what it had.
\<close>

lemma expansions_opened_spec:
  assumes "expansions_try_from (expansions_as_slice e) = Inr e"
  shows "expansions_try_from (expansions_as_slice (expansions_opened e g dir step))
           = Inr (expansions_opened e g dir step)
         \<and> expansions_of (expansions_opened e g dir step)
           = (expansions_of e)(g := opened_step dir step (expansions_of e g))"
proof -
  obtain v where e: "e = Expansions v" by (cases e)
  obtain up down where ud: "opened_step dir step (expansions_of e g) = (up, down)" by fastforce
  let ?new = "\<lparr>ge_gap = g, ge_up = up, ge_down = down\<rparr>"
  let ?out = "filter (\<lambda>x. ge_gap x \<noteq> g) v @ [?new]"
  let ?key = "\<lambda>x. gap_get (ge_gap x)"
  have op: "expansions_opened e g dir step = Expansions (sort_key ?key ?out)"
    using ud by (simp add: expansions_opened_def e)
  have sv: "sorted_wrt (<) (map ?key v)"
    using assms by (simp add: e expansions_try_from_iff expansion_keys_def)
  then have dk: "distinct (map ?key v)" by (simp add: strict_sorted_iff)
  then have dv: "distinct (map ge_gap v)" by (auto simp: distinct_map inj_on_def)
  have dout: "distinct (map ge_gap ?out)" using dv by (auto simp: distinct_map inj_on_def)
  have kout: "distinct (map ?key ?out)" using dout by (auto simp: distinct_map inj_on_def gap.expand)
  have canon: "expansions_try_from (sort_key ?key ?out) = Inr (Expansions (sort_key ?key ?out))"
    using strictly_sorted_sort_key [OF kout] by (simp add: expansions_try_from_iff expansion_keys_def)
  have ds: "distinct (map ge_gap (sort_key ?key ?out))" using dout by (simp add: distinct_map)
  have "expansions_of (Expansions (sort_key ?key ?out)) h
          = ((expansions_of e)(g := (up, down))) h" for h
  proof (cases "h = g")
    case True
    have "find (\<lambda>x. ge_gap x = g) (sort_key ?key ?out) = Some ?new"
      by (rule find_distinct_key [OF ds]) simp_all
    then show ?thesis using True by (simp add: expansions_of_def)
  next
    case False
    have "find (\<lambda>x. ge_gap x = h) (sort_key ?key ?out) = find (\<lambda>x. ge_gap x = h) v"
      by (rule find_same_set [OF ds dv]) (use False in auto)
    then show ?thesis using False by (simp add: expansions_of_def e)
  qed
  then show ?thesis using canon by (auto simp: op ud)
qed

section \<open>Sameness of targets\<close>

lemma same_ref_refl [simp]: "same_ref a a"
  by (auto simp: same_ref_def split: resolved_source.split)

lemma same_ref_sym: "same_ref a b \<longleftrightarrow> same_ref b a"
  by (auto simp: same_ref_def split: resolved_source.splits)

lemma same_ref_trans: "same_ref a b \<Longrightarrow> same_ref b c \<Longrightarrow> same_ref a c"
  by (auto simp: same_ref_def split: resolved_source.splits)

lemma same_targets_alt:
  "same_targets a b \<longleftrightarrow>
     length (ne_items a) = length (ne_items b)
     \<and> (\<forall>x\<in>set (ne_items a). \<exists>y\<in>set (ne_items b). same_target x y)"
  by (simp add: same_targets_def ne_len_def list_all_iff list_ex_iff)

definition repo_ids :: "resolved_target nonempty \<Rightarrow> repo_id list" where
  "repo_ids ts = map rs_repo_id (ne_items ts)"

text \<open>
  For target lists that name each repository once, \<open>same_targets\<close> holds exactly when
  both lists name the same repositories and the two targets of each repository have the same
  refs: the same trees from the same commits, or from working trees whatever their dirty
  paths, branch and head. In particular it does not depend on the order of either list.
\<close>

lemma same_targets_iff:
  assumes "distinct (repo_ids a)" "distinct (repo_ids b)"
  shows "same_targets a b \<longleftrightarrow>
    set (repo_ids a) = set (repo_ids b)
    \<and> (\<forall>x\<in>set (ne_items a). \<forall>y\<in>set (ne_items b). rs_repo_id x = rs_repo_id y \<longrightarrow>
          same_ref (rs_base x) (rs_base y) \<and> same_ref (rs_head x) (rs_head y))"
    (is "_ \<longleftrightarrow> ?repos \<and> ?refs")
proof
  assume same: "same_targets a b"
  have sub: "set (repo_ids a) \<subseteq> set (repo_ids b)"
    using same by (force simp: same_targets_alt same_target_def repo_ids_def)
  have "card (set (repo_ids a)) = card (set (repo_ids b))"
    using same assms by (simp add: distinct_card same_targets_alt repo_ids_def del: set_map)
  then have repos: ?repos using sub by (simp add: card_subset_eq)
  have ?refs
  proof (intro ballI impI)
    fix x y
    assume x: "x \<in> set (ne_items a)" and y: "y \<in> set (ne_items b)"
      and eq: "rs_repo_id x = rs_repo_id y"
    obtain z where z: "z \<in> set (ne_items b)" "same_target x z"
      using same x by (auto simp: same_targets_alt)
    then have "z = y"
      using assms(2) y eq by (auto simp: repo_ids_def distinct_map inj_on_def same_target_def)
    then show "same_ref (rs_base x) (rs_base y) \<and> same_ref (rs_head x) (rs_head y)"
      using z by (simp add: same_target_def)
  qed
  then show "?repos \<and> ?refs" using repos by blast
next
  assume r: "?repos \<and> ?refs"
  have "length (repo_ids a) = length (repo_ids b)"
    using r assms by (metis distinct_card)
  moreover have "\<exists>y\<in>set (ne_items b). same_target x y" if x: "x \<in> set (ne_items a)" for x
  proof -
    have "rs_repo_id x \<in> set (repo_ids b)" using r x by (auto simp: repo_ids_def)
    then obtain y where "y \<in> set (ne_items b)" "rs_repo_id y = rs_repo_id x"
      by (auto simp: repo_ids_def)
    then show ?thesis using r x unfolding same_target_def by metis
  qed
  ultimately show "same_targets a b" by (simp add: same_targets_alt repo_ids_def)
qed

definition sample_target :: resolved_target where
  "sample_target =
     \<lparr>rs_repo_id = RepoId (Ulid 1 1),
      rs_base = \<lparr>rr_tree = TreeOid oid_zero, rr_source = Source_Commit (CommitOid oid_zero)\<rparr>,
      rs_head = \<lparr>rr_tree = TreeOid oid_zero, rr_source = Source_WorkingTree [] None None\<rparr>\<rparr>"

section \<open>What a request is compared with\<close>

text \<open>The pairs of refs the comparison looks at, in the order it looks at them.\<close>

definition ref_pairs :: "resolved_target list \<Rightarrow> resolved_target
    \<Rightarrow> (resolved_source \<times> resolved_source) list" where
  "ref_pairs targets old =
     (case find (\<lambda>new. rs_repo_id new = rs_repo_id old) targets of
        None \<Rightarrow> []
      | Some new \<Rightarrow>
          [(rr_source (rs_base old), rr_source (rs_base new)),
           (rr_source (rs_head old), rr_source (rs_head new))])"

fun heads_differ :: "resolved_source \<times> resolved_source \<Rightarrow> bool" where
  "heads_differ (Source_WorkingTree _ _ (Some a), Source_WorkingTree _ _ (Some b)) \<longleftrightarrow> a \<noteq> b"
| "heads_differ _ \<longleftrightarrow> False"

fun heads_unknown :: "resolved_source \<times> resolved_source \<Rightarrow> bool" where
  "heads_unknown (Source_WorkingTree _ _ a, Source_WorkingTree _ _ b) \<longleftrightarrow> a = None \<or> b = None"
| "heads_unknown _ \<longleftrightarrow> False"

lemma against_ref_cases:
  "against_ref p outcome =
     (if heads_differ p then Inl () else Inr (if heads_unknown p then UnknownRevision else outcome))"
  by (cases p; cases "fst p"; cases "snd p") (auto split: option.splits)

lemma foldR_against_ref:
  "foldR against_ref ps outcome =
     (if list_ex heads_differ ps then Inl ()
      else Inr (if list_ex heads_unknown ps then UnknownRevision else outcome))"
  by (induction ps arbitrary: outcome) (auto simp: against_ref_cases)

lemma against_target_pairs:
  "against_target targets old outcome = foldR against_ref (ref_pairs targets old) outcome"
  by (simp add: against_target_def ref_pairs_def split: option.split)

lemma foldR_against_target:
  "foldR (against_target targets) olds outcome
     = foldR against_ref (concat (map (ref_pairs targets) olds)) outcome"
  by (induction olds arbitrary: outcome)
    (auto simp: foldR_append against_target_pairs foldR_against_ref)

text \<open>
  Comparing a request with the latest checkpoint: no checkpoint gives \<open>NoCheckpoint\<close>;
  different targets give \<open>ChangedTargets\<close>; and for the same targets, two recorded
  working-tree heads that differ anywhere give \<open>ChangedTargets\<close> wherever an unrecorded head
  stands before or after them, otherwise an unrecorded head gives \<open>UnknownRevision\<close>, otherwise
  the outcome is \<open>SameTargets\<close>.
\<close>

lemma comparison_against_cases:
  "comparison_against None ts = Comparison_NoCheckpoint
   \<and> comparison_against (Some cp) ts =
       (let pairs = concat (map (ref_pairs (ne_items ts)) (ne_items (cp_targets cp)))
        in Comparison_Compared (cp_id cp)
             (if same_targets (cp_targets cp) ts \<and> \<not> list_ex heads_differ pairs
              then (if list_ex heads_unknown pairs then UnknownRevision else SameTargets)
              else ChangedTargets))"
  by (simp add: comparison_against_def Let_def foldR_against_target foldR_against_ref)

section \<open>The latest checkpoint of each reviewer\<close>

definition latest_of :: "review_checkpoint list \<Rightarrow> (reviewer_identity, review_checkpoint) table" where
  "latest_of cps = fold latest_step cps tbl_empty"

definition is_latest :: "review_checkpoint list \<Rightarrow> reviewer_identity \<Rightarrow> review_checkpoint \<Rightarrow> bool" where
  "is_latest cps r cp \<longleftrightarrow>
     cp \<in> set cps \<and> cp_reviewer cp = r
     \<and> (\<forall>c\<in>set cps. cp_reviewer c = r \<longrightarrow>
          checkpoint_event_seq (cp_id c) \<le> checkpoint_event_seq (cp_id cp))"

lemma latest_of_snoc: "latest_of (cps @ [c]) = latest_step c (latest_of cps)"
  by (simp add: latest_of_def)

lemma latest_of_get:
  "(case tbl_get (latest_of cps) r of
      None \<Rightarrow> r \<notin> cp_reviewer ` set cps
    | Some cp \<Rightarrow> is_latest cps r cp)"
proof (induction cps rule: rev_induct)
  case Nil
  then show ?case by (simp add: latest_of_def)
next
  case (snoc c cps)
  show ?case
  proof (cases "cp_reviewer c = r")
    case False
    then show ?thesis
      using snoc.IH
      by (auto simp: latest_of_snoc latest_step_def Let_def is_latest_def split: option.split)
  next
    case True
    show ?thesis
    proof (cases "tbl_get (latest_of cps) r")
      case None
      then show ?thesis
        using snoc.IH True
        by (auto simp: latest_of_snoc latest_step_def is_latest_def image_iff)
    next
      case (Some old)
      then show ?thesis
        using snoc.IH True
        by (auto simp: latest_of_snoc latest_step_def is_latest_def intro: order_trans)
    qed
  qed
qed

lemma latest_of_keys: "tbl_get (latest_of cps) r = Some cp \<Longrightarrow> cp_reviewer cp = r"
  using latest_of_get [where cps = cps and r = r] by (simp add: is_latest_def)

lemma latest_values_reviewers:
  "map cp_reviewer (tbl_values (latest_of cps)) = map fst (tbl_entries (latest_of cps))"
  by (auto simp: tbl_values_def tbl.in_entries_iff latest_of_keys)

text \<open>
  \<open>latest_checkpoints\<close> lists each reviewer who checked the review once, in reviewer order,
  with one of their checkpoints of the greatest id; its freshness compares that checkpoint
  with the current targets, and is unknown without them.
\<close>

lemma latest_checkpoints_spec:
  "sorted_wrt (<) (map (cp_reviewer \<circ> rc_checkpoint) (latest_checkpoints cps current))
   \<and> set (map (cp_reviewer \<circ> rc_checkpoint) (latest_checkpoints cps current)) = cp_reviewer ` set cps
   \<and> list_all (\<lambda>rc. is_latest cps (cp_reviewer (rc_checkpoint rc)) (rc_checkpoint rc)
        \<and> rc_freshness rc = checkpoint_freshness_of current (rc_checkpoint rc))
       (latest_checkpoints cps current)"
proof -
  have reviewers: "map (cp_reviewer \<circ> rc_checkpoint) (latest_checkpoints cps current)
      = map fst (tbl_entries (latest_of cps))"
    by (simp add: latest_checkpoints_def comp_def flip: latest_of_def latest_values_reviewers)
  have sorted: "sorted_wrt (<) (map fst (tbl_entries (latest_of cps)))"
    by (rule tbl.entries_sorted)
  have "r \<in> fst ` set (tbl_entries (latest_of cps)) \<longleftrightarrow> r \<in> cp_reviewer ` set cps" for r
  proof -
    have "r \<in> fst ` set (tbl_entries (latest_of cps)) \<longleftrightarrow> (\<exists>cp. tbl_get (latest_of cps) r = Some cp)"
      by (force simp flip: tbl.in_entries_iff)
    then show ?thesis
      using latest_of_get [where cps = cps and r = r]
      by (cases "tbl_get (latest_of cps) r") (auto simp: is_latest_def)
  qed
  then have keys: "fst ` set (tbl_entries (latest_of cps)) = cp_reviewer ` set cps" by blast
  have "is_latest cps (cp_reviewer cp) cp" if "cp \<in> set (tbl_values (latest_of cps))" for cp
  proof -
    from that obtain k where k: "tbl_get (latest_of cps) k = Some cp" by (auto simp: tbl_values_iff)
    then show ?thesis
      using latest_of_get [where cps = cps and r = k] by (simp add: latest_of_keys [OF k])
  qed
  then have "list_all (\<lambda>rc. is_latest cps (cp_reviewer (rc_checkpoint rc)) (rc_checkpoint rc)
        \<and> rc_freshness rc = checkpoint_freshness_of current (rc_checkpoint rc))
       (latest_checkpoints cps current)"
    by (auto simp: latest_checkpoints_def list_all_iff simp flip: latest_of_def)
  then show ?thesis using reviewers sorted keys by simp
qed

section \<open>Targets of a new review name each repository once\<close>

lemma check_repositories_from_ok:
  "check_repositories_from seen rs = Inr () \<longleftrightarrow> distinct rs \<and> set rs \<inter> set seen = {}"
  by (induction rs arbitrary: seen) auto

lemma check_repositories_from_err:
  "check_repositories_from seen rs = Inl e \<Longrightarrow>
     \<exists>xs r ys. rs = xs @ r # ys \<and> e = CreateTargets_Duplicate r \<and> r \<in> set seen \<union> set xs
       \<and> distinct xs \<and> set xs \<inter> set seen = {}"
proof (induction rs arbitrary: seen)
  case (Cons a rs)
  show ?case
  proof (cases "a \<in> set seen")
    case True
    then show ?thesis using Cons.prems by (intro exI [of _ "[]"]) auto
  next
    case False
    with Cons.prems have "check_repositories_from (a # seen) rs = Inl e" by simp
    from Cons.IH [OF this] obtain xs r ys where
      "rs = xs @ r # ys" "e = CreateTargets_Duplicate r" "r \<in> set (a # seen) \<union> set xs"
      "distinct xs" "set xs \<inter> set (a # seen) = {}" by blast
    then show ?thesis using False by (intro exI [of _ "a # xs"]) auto
  qed
qed simp

text \<open>
  A list of targets is accepted for a new review exactly when it is nonempty and names no
  repository twice, and is then kept as given; the error is \<open>Empty\<close> for no target and
  otherwise names the first repository that repeats an earlier one.
\<close>

lemma create_targets_accepts:
  "(case create_targets_try_from_vec ts of
      Inr c \<Rightarrow> ts \<noteq> [] \<and> distinct (map rt_repo_id ts) \<and> ne_items (as_targets c) = ts
    | Inl CreateTargets_Empty \<Rightarrow> ts = []
    | Inl (CreateTargets_Duplicate r) \<Rightarrow>
        (\<exists>xs t ys. ts = xs @ t # ys \<and> rt_repo_id t = r \<and> r \<in> rt_repo_id ` set xs
           \<and> distinct (map rt_repo_id xs)))"
proof (cases "create_targets_try_from_vec ts")
  case (Inr c)
  then have "ts \<noteq> [] \<and> distinct (map rt_repo_id ts) \<and> ne_items (as_targets c) = ts"
    by (auto simp: create_targets_try_from_vec_def create_targets_try_from_def
        check_repositories_def check_repositories_from_ok ne_new_def result_simps split: if_splits)
  then show ?thesis by (simp add: Inr)
next
  case (Inl e)
  show ?thesis
  proof (cases "ts = []")
    case True
    then show ?thesis using Inl by (auto simp: create_targets_try_from_vec_def ne_new_def)
  next
    case False
    then have "check_repositories_from [] (map rt_repo_id ts) = Inl e"
      using Inl
      by (auto simp: create_targets_try_from_vec_def create_targets_try_from_def
          check_repositories_def ne_new_def result_simps)
    from check_repositories_from_err [OF this] obtain xs r ys where
      split: "map rt_repo_id ts = xs @ r # ys" and e: "e = CreateTargets_Duplicate r"
      and r: "r \<in> set xs" "distinct xs" by auto
    from split obtain us t vs where "ts = us @ t # vs" "xs = map rt_repo_id us" "r = rt_repo_id t"
      by (auto simp: map_eq_append_conv map_eq_Cons_conv)
    then show ?thesis using Inl e r by auto
  qed
qed

end
