(* ===== verification/Nits_Render.thy ===== *)
theory Nits_Render
  imports Nits_Spans Nits_Texts Nits_Targets
begin

text \<open>
  The diff render model: the rows, cells and gap tables of \<open>crates/nits-protocol/src/render.rs\<close> and
  the renderer of \<open>crates/nits-review-core/src/render/mod.rs\<close>, which turns two blobs into rows.
  The line diff is a field of \<open>render_libs\<close>. Positions are the code's \<open>usize\<close>
  indexes as natural numbers: on the hunks of a diff, which are in order, no subtraction below runs
  under zero.
\<close>

section \<open>Rows\<close>

record cell =
  cl_line_no :: line_no
  cl_text :: string
  cl_ending :: line_ending
  cl_spans :: "span list"
  cl_changed :: "col_range list"

datatype row =
    Row_HunkHeader string
  | Row_Context cell cell
  | Row_Removed cell
  | Row_Added cell
  | Row_Modified cell cell
  | Row_Expander u32 expand_dir gap
  | Row_WhitespaceOnly

datatype chunk_index = ChunkIndex (chunk_get: u32)

record gap_row =
  gr_gap :: gap
  gr_row :: u32

datatype gap_table_error =
    GapTable_Unordered
  | GapTable_UnorderedGaps
  | GapTable_Duplicate gap

datatype gap_table = GapTable (gap_table_as_slice: "gap_row list")

fun gap_table_check :: "gap_row list \<Rightarrow> (gap_table_error, unit) result" where
  "gap_table_check (a # b # rest) =
     (if gr_gap a = gr_gap b then Inl (GapTable_Duplicate (gr_gap a))
      else if gap_get (gr_gap a) > gap_get (gr_gap b) then Inl GapTable_UnorderedGaps
      else if gr_row a \<ge> gr_row b then Inl GapTable_Unordered
      else gap_table_check (b # rest))"
| "gap_table_check _ = Inr ()"

definition gap_table_try_from :: "gap_row list \<Rightarrow> (gap_table_error, gap_table) result" where
  "gap_table_try_from v = bindR (gap_table_check v) (\<lambda>_. Inr (GapTable v))"

definition gap_table_nearest :: "gap_table \<Rightarrow> u32 \<Rightarrow> bool \<Rightarrow> gap option" where
  "gap_table_nearest t row up =
     map_option gr_gap
       (if up then find (\<lambda>g. gr_row g \<le> row) (rev (gap_table_as_slice t))
        else find (\<lambda>g. gr_row g \<ge> row) (gap_table_as_slice t))"

datatype render_content =
    Content_Submodule
  | Content_Binary
  | Content_Text (ct_total_rows: u32) (ct_chunk_rows: u32) (ct_chunk_count: u32) (ct_highlighted: bool)
      (ct_additions: u32) (ct_deletions: u32) (ct_gaps: gap_table)

record render_chunk =
  rc_index :: chunk_index
  rc_rows :: "row list"

record rendered =
  rd_content :: render_content
  rd_rows :: "row list"

section \<open>Chunks\<close>

definition CHUNK_ROWS :: nat where
  "CHUNK_ROWS = 500"

definition HIGHLIGHT_BYTE_CAP :: int where
  "HIGHLIGHT_BYTE_CAP = 1048576"

definition HIGHLIGHT_LINE_CAP :: int where
  "HIGHLIGHT_LINE_CAP = 20000"

definition chunk_count :: "nat \<Rightarrow> u32" where
  "chunk_count rows = to_u32 (max ((rows + CHUNK_ROWS - 1) div CHUNK_ROWS) 1)"

definition rendered_chunk :: "rendered \<Rightarrow> chunk_index \<Rightarrow> render_chunk option" where
  "rendered_chunk r index =
     (let start = unat (chunk_get index) * CHUNK_ROWS in
      if start \<ge> length (rd_rows r) \<and> \<not> (rd_rows r = [] \<and> chunk_get index = 0) then None
      else Some \<lparr>rc_index = index, rc_rows = drop start (take (min (start + CHUNK_ROWS) (length (rd_rows r))) (rd_rows r))\<rparr>)"

definition rendered_chunks :: "rendered \<Rightarrow> render_chunk list" where
  "rendered_chunks r =
     map (\<lambda>i. \<lparr>rc_index = ChunkIndex (of_nat i),
               rc_rows = drop (i * CHUNK_ROWS) (take (min ((i + 1) * CHUNK_ROWS) (length (rd_rows r))) (rd_rows r))\<rparr>)
       [0..<unat (chunk_count (length (rd_rows r)))]"

section \<open>Comparing lines\<close>

definition is_binary :: "string \<Rightarrow> bool" where
  "is_binary bytes \<longleftrightarrow> list_ex (\<lambda>b. b = CHR 0x00) (take 8000 bytes)"

definition should_highlight :: "string option \<Rightarrow> string option \<Rightarrow> source_line list \<Rightarrow> source_line list
    \<Rightarrow> string option \<Rightarrow> bool" where
  "should_highlight old new old_lines new_lines lang \<longleftrightarrow>
     lang \<noteq> None
     \<and> is_none_or (\<lambda>b. int (length b) \<le> HIGHLIGHT_BYTE_CAP) old
     \<and> is_none_or (\<lambda>b. int (length b) \<le> HIGHLIGHT_BYTE_CAP) new
     \<and> int (length old_lines) \<le> HIGHLIGHT_LINE_CAP
     \<and> int (length new_lines) \<le> HIGHLIGHT_LINE_CAP"

definition spans_for :: "render_libs \<Rightarrow> bool \<Rightarrow> string option \<Rightarrow> source_line list \<Rightarrow> span list list" where
  "spans_for L enabled lang lines =
     (case (enabled, lang) of
        (True, Some l) \<Rightarrow> rl_highlight L l (map ln_text lines)
      | _ \<Rightarrow> replicate (length lines) [])"

definition line_key_of :: "bool \<Rightarrow> source_line \<Rightarrow> line_key" where
  "line_key_of ignore_whitespace l =
     (if ignore_whitespace then (ln_normalised l, Ending_Missing) else (ln_text l, ln_ending l))"

definition diff_hunks :: "render_libs \<Rightarrow> source_line list \<Rightarrow> source_line list \<Rightarrow> bool \<Rightarrow> hunk list" where
  "diff_hunks L old new ignore_whitespace =
     rl_diff L (map (line_key_of ignore_whitespace) old) (map (line_key_of ignore_whitespace) new)"

section \<open>Building rows\<close>

definition cell_at :: "nat \<Rightarrow> source_line \<Rightarrow> span list list \<Rightarrow> col_range list \<Rightarrow> cell" where
  "cell_at index line spans changed =
     \<lparr>cl_line_no = line_from_index (if int index < 2 ^ 32 then of_nat index else - 2),
      cl_text = ln_text line, cl_ending = ln_ending line,
      cl_spans = (if index < length spans then spans ! index else []), cl_changed = changed\<rparr>"

text \<open>The two sides of a render: lines and spans.\<close>

record sides =
  sd_old :: "source_line list"
  sd_new :: "source_line list"
  sd_old_spans :: "span list list"
  sd_new_spans :: "span list list"

definition old_cell :: "sides \<Rightarrow> nat \<Rightarrow> col_range list \<Rightarrow> cell" where
  "old_cell S i changed = cell_at i (sd_old S ! i) (sd_old_spans S) changed"

definition new_cell :: "sides \<Rightarrow> nat \<Rightarrow> col_range list \<Rightarrow> cell" where
  "new_cell S i changed = cell_at i (sd_new S ! i) (sd_new_spans S) changed"

definition emit_context :: "sides \<Rightarrow> nat \<Rightarrow> nat \<Rightarrow> nat \<Rightarrow> row list" where
  "emit_context S oi ni count =
     map (\<lambda>k. Row_Context (old_cell S (oi + k) []) (new_cell S (ni + k) [])) [0..<count]"

definition hunk_header_text :: "nat \<Rightarrow> nat \<Rightarrow> nat \<Rightarrow> nat \<Rightarrow> string" where
  "hunk_header_text old_start old_len new_start new_len =
     (let s = (\<lambda>start len. if len = 0 then start else start + 1) in
      ''@@ -'' @ nat_digits (s old_start old_len) @ '','' @ nat_digits old_len
      @ '' +'' @ nat_digits (s new_start new_len) @ '','' @ nat_digits new_len @ '' @@'')"

text \<open>A hunk's own rows: paired lines, then what is left of either side.\<close>

definition change_rows :: "render_libs \<Rightarrow> sides \<Rightarrow> hunk \<Rightarrow> row list" where
  "change_rows L S h =
     (let removed = hb_end h - hb_start h; added = ha_end h - ha_start h; paired = min removed added in
      map (\<lambda>k. let (lc, rc) = changed_ranges L (ln_text (sd_old S ! (hb_start h + k))) (ln_text (sd_new S ! (ha_start h + k)))
               in Row_Modified (old_cell S (hb_start h + k) lc) (new_cell S (ha_start h + k) rc)) [0..<paired]
      @ map (\<lambda>o1. Row_Removed (old_cell S o1 [])) [hb_start h + paired..<hb_end h]
      @ map (\<lambda>n. Row_Added (new_cell S n [])) [ha_start h + paired..<ha_end h])"

text \<open>Ranges of indexes are pairs; the loops that extend the last range or push a new one.\<close>

definition group_step :: "nat \<Rightarrow> hunk list \<Rightarrow> (nat \<times> nat) list \<Rightarrow> nat \<Rightarrow> (nat \<times> nat) list" where
  "group_step ctx hunks groups i =
     (if hb_start (hunks ! i) - hb_end (hunks ! (i - 1)) \<le> 2 * ctx
      then butlast groups @ [(fst (last groups), i + 1)]
      else groups @ [(i, i + 1)])"

definition groups_of :: "nat \<Rightarrow> hunk list \<Rightarrow> (nat \<times> nat) list" where
  "groups_of ctx hunks = foldl (group_step ctx hunks) [(0, 1)] [1..<length hunks]"

record window =
  wn_start_o :: nat
  wn_end_o :: nat
  wn_start_n :: nat
  wn_end_n :: nat

text \<open>The window of one group, given where the previous window ended.\<close>

definition window_of :: "nat \<Rightarrow> expansions \<Rightarrow> nat \<Rightarrow> hunk list \<Rightarrow> nat \<Rightarrow> nat \<Rightarrow> nat \<Rightarrow> (nat \<times> nat)
    \<Rightarrow> (nat \<times> nat) list \<Rightarrow> window" where
  "window_of ctx expanded old_len hunks g_idx oi ni g rest =
     (let first_hunk = hunks ! fst g;
          last_hunk = hunks ! (snd g - 1);
          up = fst (expansions_of expanded (Gap (to_u32 g_idx)));
          down = snd (expansions_of expanded (Gap (to_u32 (g_idx + 1))));
          start_o = max (hb_start first_hunk - (ctx + unat up)) oi;
          start_n = ni + (start_o - oi);
          next_change = (case rest of [] \<Rightarrow> old_len | ng # _ \<Rightarrow> hb_start (hunks ! fst ng));
          end_o = min (min (hb_end last_hunk + (ctx + unat down)) old_len) next_change;
          end_n = ha_end last_hunk + (end_o - hb_end last_hunk)
      in \<lparr>wn_start_o = start_o, wn_end_o = end_o, wn_start_n = start_n, wn_end_n = end_n\<rparr>)"

fun windows_from :: "nat \<Rightarrow> expansions \<Rightarrow> nat \<Rightarrow> hunk list \<Rightarrow> nat \<Rightarrow> nat \<Rightarrow> nat \<Rightarrow> (nat \<times> nat) list \<Rightarrow> window list" where
  "windows_from ctx expanded old_len hunks g_idx oi ni [] = []"
| "windows_from ctx expanded old_len hunks g_idx oi ni (g # gs) =
     (let w = window_of ctx expanded old_len hunks g_idx oi ni g gs
      in w # windows_from ctx expanded old_len hunks (g_idx + 1) (wn_end_o w) (wn_end_n w) gs)"

definition block_step :: "window list \<Rightarrow> (nat \<times> nat) list \<Rightarrow> nat \<Rightarrow> (nat \<times> nat) list" where
  "block_step windows blocks g_idx =
     (if blocks \<noteq> [] \<and> wn_start_o (windows ! g_idx) \<le> wn_end_o (windows ! (snd (last blocks) - 1))
      then butlast blocks @ [(fst (last blocks), g_idx + 1)]
      else blocks @ [(g_idx, g_idx + 1)])"

definition blocks_of :: "window list \<Rightarrow> nat \<Rightarrow> (nat \<times> nat) list" where
  "blocks_of windows n = foldl (block_step windows) [] [0..<n]"

definition sub_range :: "(nat \<times> nat) \<Rightarrow> 'a list \<Rightarrow> 'a list" where
  "sub_range r xs = take (snd r - fst r) (drop (fst r) xs)"

fun hunks_rows :: "render_libs \<Rightarrow> sides \<Rightarrow> nat \<Rightarrow> nat \<Rightarrow> hunk list \<Rightarrow> row list \<times> nat \<times> nat" where
  "hunks_rows L S co cn [] = ([], co, cn)"
| "hunks_rows L S co cn (h # hs) =
     (let (rows, co', cn') = hunks_rows L S (hb_end h) (ha_end h) hs
      in (emit_context S co cn (hb_start h - co) @ change_rows L S h @ rows, co', cn'))"

definition block_rows :: "render_libs \<Rightarrow> sides \<Rightarrow> hunk list \<Rightarrow> (nat \<times> nat) list \<Rightarrow> window list \<Rightarrow> nat
    \<Rightarrow> (nat \<times> nat) \<Rightarrow> row list" where
  "block_rows L S hunks groups windows oi b =
     (let head = windows ! fst b;
          tail = windows ! (snd b - 1);
          hidden_before = wn_start_o head - oi;
          (rows, co, cn) = hunks_rows L S (wn_start_o head) (wn_start_n head)
                             (concat (map (\<lambda>g. sub_range g hunks) (sub_range b groups)))
      in (if hidden_before > 0
          then [Row_Expander (to_u32 hidden_before) (if fst b = 0 then Dir_Up else Dir_Both) (Gap (to_u32 (fst b)))] else [])
         @ Row_HunkHeader (hunk_header_text (wn_start_o head) (wn_end_o tail - wn_start_o head)
                             (wn_start_n head) (wn_end_n tail - wn_start_n head))
         # rows @ emit_context S co cn (wn_end_o tail - co))"

fun blocks_rows :: "render_libs \<Rightarrow> sides \<Rightarrow> hunk list \<Rightarrow> (nat \<times> nat) list \<Rightarrow> window list \<Rightarrow> nat
    \<Rightarrow> (nat \<times> nat) list \<Rightarrow> row list \<times> nat" where
  "blocks_rows L S hunks groups windows oi [] = ([], oi)"
| "blocks_rows L S hunks groups windows oi (b # bs) =
     (let (rows, oi') = blocks_rows L S hunks groups windows (wn_end_o (windows ! (snd b - 1))) bs
      in (block_rows L S hunks groups windows oi b @ rows, oi'))"

definition whole_file_rows :: "sides \<Rightarrow> expansions \<Rightarrow> row list" where
  "whole_file_rows S expanded =
     (let n = length (sd_old S) in
      if n = 0 then []
      else let (up, down) = expansions_of expanded (Gap 0);
               shown = min (unat up + unat down) n;
               head = min (unat down) shown;
               tail = shown - head;
               hidden = n - shown;
               from = n - tail
           in emit_context S 0 0 head
              @ (if hidden > 0 then [Row_Expander (to_u32 hidden) Dir_Both (Gap 0)] else [])
              @ emit_context S from from tail)"

text \<open>The counters are 32-bit additions of saturated lengths.\<close>

definition count_changes :: "hunk list \<Rightarrow> u32 \<times> u32" where
  "count_changes hunks =
     (sum_list (map (\<lambda>h. to_u32 (ha_end h - ha_start h)) hunks), sum_list (map (\<lambda>h. to_u32 (hb_end h - hb_start h)) hunks))"

definition build_rows :: "render_libs \<Rightarrow> sides \<Rightarrow> hunk list \<Rightarrow> u32 \<Rightarrow> expansions \<Rightarrow> row list \<times> u32 \<times> u32" where
  "build_rows L S hunks ctx32 expanded =
     (let ctx = unat ctx32 in
      if hunks = [] then (whole_file_rows S expanded, 0, 0)
      else let groups = groups_of ctx hunks;
               windows = windows_from ctx expanded (length (sd_old S)) hunks 0 0 0 groups;
               blocks = blocks_of windows (length groups);
               (rows, oi) = blocks_rows L S hunks groups windows 0 blocks;
               hidden_tail = length (sd_old S) - oi;
               (additions, deletions) = count_changes (concat (map (\<lambda>b. concat (map (\<lambda>g. sub_range g hunks) (sub_range b groups))) blocks))
           in (rows @ (if hidden_tail > 0 then [Row_Expander (to_u32 hidden_tail) Dir_Down (Gap (to_u32 (length groups)))] else []),
               additions, deletions))"

section \<open>Rendering\<close>

fun gap_row_of :: "nat \<times> row \<Rightarrow> gap_row option" where
  "gap_row_of (i, Row_Expander _ _ gap) = Some \<lparr>gr_gap = gap, gr_row = to_u32 i\<rparr>"
| "gap_row_of _ = None"

definition gaps_of :: "row list \<Rightarrow> gap_table" where
  "gaps_of rows =
     (case gap_table_try_from (List.map_filter gap_row_of (enumerate 0 rows)) of
        Inr t \<Rightarrow> t
      | Inl _ \<Rightarrow> GapTable [])"

definition render_file :: "render_libs \<Rightarrow> string option \<Rightarrow> string option \<Rightarrow> string option \<Rightarrow> render_opts \<Rightarrow> rendered" where
  "render_file L old new lang opts =
     (if is_some_and is_binary old \<or> is_some_and is_binary new
      then \<lparr>rd_content = Content_Binary, rd_rows = []\<rparr>
      else let old_lines = split_lines (case old of None \<Rightarrow> [] | Some b \<Rightarrow> b);
               new_lines = split_lines (case new of None \<Rightarrow> [] | Some b \<Rightarrow> b);
               hunks = diff_hunks L old_lines new_lines (ro_ignore_whitespace opts)
           in if hunks = [] \<and> ro_ignore_whitespace opts \<and> old \<noteq> new
              then \<lparr>rd_content = Content_Text 1 (of_nat CHUNK_ROWS) 1 False 0 0 (GapTable []), rd_rows = [Row_WhitespaceOnly]\<rparr>
              else let highlighted = should_highlight old new old_lines new_lines lang;
                       S = \<lparr>sd_old = old_lines, sd_new = new_lines,
                            sd_old_spans = spans_for L highlighted lang old_lines,
                            sd_new_spans = spans_for L highlighted lang new_lines\<rparr>;
                       (rows, additions, deletions) = build_rows L S hunks (ro_context_lines opts) (ro_expanded opts)
                   in \<lparr>rd_content = Content_Text (to_u32 (length rows)) (of_nat CHUNK_ROWS) (chunk_count (length rows))
                          highlighted additions deletions (gaps_of rows),
                       rd_rows = rows\<rparr>)"

definition render_blob :: "render_libs \<Rightarrow> string \<Rightarrow> string option \<Rightarrow> rendered" where
  "render_blob L bytes lang =
     (if is_binary bytes then \<lparr>rd_content = Content_Binary, rd_rows = []\<rparr>
      else let lines = split_lines bytes;
               highlighted = should_highlight (Some bytes) (Some bytes) lines lines lang;
               spans = spans_for L highlighted lang lines;
               rows = map (\<lambda>i. Row_Context (cell_at i (lines ! i) spans []) (cell_at i (lines ! i) spans [])) [0..<length lines]
           in \<lparr>rd_content = Content_Text (to_u32 (length rows)) (of_nat CHUNK_ROWS) (chunk_count (length rows))
                  highlighted 0 0 (GapTable []),
               rd_rows = rows\<rparr>)"

end
