(* ===== verification/Nits_Render_Laws.thy ===== *)
theory Nits_Render_Laws
  imports Nits_Render
begin

text \<open>
  What a render shows: read from top to bottom, its rows account for every line of both files once
  and in order, hide only lines the two files share, and its headers, counts, gap table and chunks
  describe exactly these rows.
\<close>

section \<open>Edit scripts\<close>

definition same_run :: "'a list \<Rightarrow> 'a list \<Rightarrow> nat \<Rightarrow> nat \<Rightarrow> nat \<Rightarrow> bool" where
  "same_run a b p q n \<longleftrightarrow> p + n \<le> length a \<and> q + n \<le> length b \<and> (\<forall>k<n. a ! (p + k) = b ! (q + k))"

text \<open>What the diff library promises: hunks in order, with equal lines between them.\<close>

fun script :: "'a list \<Rightarrow> 'a list \<Rightarrow> hunk list \<Rightarrow> nat \<Rightarrow> nat \<Rightarrow> bool" where
  "script a b [] p q \<longleftrightarrow> p \<le> length a \<and> length b = q + (length a - p) \<and> same_run a b p q (length a - p)"
| "script a b (h # hs) p q \<longleftrightarrow>
     p \<le> hb_start h \<and> hb_start h \<le> hb_end h \<and> hb_end h \<le> length a
     \<and> ha_start h = q + (hb_start h - p) \<and> ha_start h \<le> ha_end h \<and> ha_end h \<le> length b
     \<and> same_run a b p q (hb_start h - p)
     \<and> script a b hs (hb_end h) (ha_end h)"

definition next_stop :: "'a list \<Rightarrow> hunk list \<Rightarrow> nat" where
  "next_stop a hs = (case hs of [] \<Rightarrow> length a | h # _ \<Rightarrow> hb_start h)"

lemma same_run_split:
  "same_run a b p q (m + n) \<longleftrightarrow> same_run a b p q m \<and> same_run a b (p + m) (q + m) n"
proof
  assume r: "same_run a b p q (m + n)"
  then have "a ! (p + m + k) = b ! (q + m + k)" if "k < n" for k
    using that unfolding same_run_def by (metis add.assoc nat_add_left_cancel_less)
  then show "same_run a b p q m \<and> same_run a b (p + m) (q + m) n" using r by (auto simp: same_run_def)
next
  assume r: "same_run a b p q m \<and> same_run a b (p + m) (q + m) n"
  have "a ! (p + k) = b ! (q + k)" if "k < m + n" for k
  proof (cases "k < m")
    case False
    then obtain j where j: "k = m + j" by (metis le_Suc_ex not_le)
    then have "a ! (p + m + j) = b ! (q + m + j)" using r that unfolding same_run_def by simp
    then show ?thesis by (simp add: j add.assoc)
  qed (use r in \<open>simp add: same_run_def\<close>)
  then show "same_run a b p q (m + n)" using r by (auto simp: same_run_def)
qed

lemma script_advance:
  assumes "script a b hs p q" "p \<le> p'" "p' \<le> next_stop a hs"
  shows "same_run a b p q (p' - p)" "script a b hs p' (q + (p' - p))"
proof -
  let ?n = "next_stop a hs"
  have run: "same_run a b p q (?n - p)" using assms(1) by (cases hs) (simp_all add: next_stop_def)
  have "?n - p = (p' - p) + (?n - p')" using assms(2,3) by simp
  then have split: "same_run a b p q (p' - p)" "same_run a b p' (q + (p' - p)) (?n - p')"
    using run same_run_split [of a b p q "p' - p" "?n - p'"] assms(2) by auto
  show "same_run a b p q (p' - p)" by (rule split)
  show "script a b hs p' (q + (p' - p))"
    using assms split(2) by (cases hs) (auto simp: next_stop_def)
qed

lemma script_bounds: "script a b hs p q \<Longrightarrow> p \<le> next_stop a hs \<and> next_stop a hs \<le> length a \<and> q \<le> length b"
  by (cases hs) (auto simp: next_stop_def same_run_def)

section \<open>Walking the rows\<close>

text \<open>A cell shows line \<open>i\<close> of its file.\<close>

definition shows_line :: "source_line list \<Rightarrow> nat \<Rightarrow> cell \<Rightarrow> bool" where
  "shows_line lines i c \<longleftrightarrow> i < length lines \<and> cl_line_no c = LineNo (of_nat (i + 1))
     \<and> cl_text c = ln_text (lines ! i) \<and> cl_ending c = ln_ending (lines ! i)"

text \<open>How many lines of either file the rows show before the next expander or header.\<close>

fun old_span :: "row list \<Rightarrow> nat" where
  "old_span (Row_Context _ _ # rs) = Suc (old_span rs)"
| "old_span (Row_Removed _ # rs) = Suc (old_span rs)"
| "old_span (Row_Added _ # rs) = old_span rs"
| "old_span (Row_Modified _ _ # rs) = Suc (old_span rs)"
| "old_span _ = 0"

fun new_span :: "row list \<Rightarrow> nat" where
  "new_span (Row_Context _ _ # rs) = Suc (new_span rs)"
| "new_span (Row_Removed _ # rs) = new_span rs"
| "new_span (Row_Added _ # rs) = Suc (new_span rs)"
| "new_span (Row_Modified _ _ # rs) = Suc (new_span rs)"
| "new_span _ = 0"

text \<open>
  The rows continue the files from line \<open>p\<close> of the old and \<open>q\<close> of the new one to their ends; \<open>a\<close> and
  \<open>b\<close> are the keys by which lines are compared.
\<close>

fun walks :: "sides \<Rightarrow> 'a list \<Rightarrow> 'a list \<Rightarrow> row list \<Rightarrow> nat \<Rightarrow> nat \<Rightarrow> bool" where
  "walks S a b [] p q \<longleftrightarrow> p = length a \<and> q = length b"
| "walks S a b (Row_HunkHeader t # rs) p q \<longleftrightarrow>
     t = hunk_header_text p (old_span rs) q (new_span rs) \<and> walks S a b rs p q"
| "walks S a b (Row_Context l r # rs) p q \<longleftrightarrow>
     shows_line (sd_old S) p l \<and> shows_line (sd_new S) q r \<and> same_run a b p q 1 \<and> walks S a b rs (Suc p) (Suc q)"
| "walks S a b (Row_Removed l # rs) p q \<longleftrightarrow> shows_line (sd_old S) p l \<and> walks S a b rs (Suc p) q"
| "walks S a b (Row_Added r # rs) p q \<longleftrightarrow> shows_line (sd_new S) q r \<and> walks S a b rs p (Suc q)"
| "walks S a b (Row_Modified l r # rs) p q \<longleftrightarrow>
     shows_line (sd_old S) p l \<and> shows_line (sd_new S) q r \<and> walks S a b rs (Suc p) (Suc q)"
| "walks S a b (Row_Expander n d g # rs) p q \<longleftrightarrow>
     n \<noteq> 0 \<and> same_run a b p q (unat n) \<and> walks S a b rs (p + unat n) (q + unat n)"
| "walks S a b (Row_WhitespaceOnly # rs) p q \<longleftrightarrow> False"

definition sides_fit :: "sides \<Rightarrow> 'a list \<Rightarrow> 'a list \<Rightarrow> bool" where
  "sides_fit S a b \<longleftrightarrow> length (sd_old S) = length a \<and> length (sd_new S) = length b
     \<and> length a < 2 ^ 32 \<and> length b < 2 ^ 32"

lemma shows_cell:
  assumes "i < n" "n < 2 ^ 32"
  shows "cl_line_no (cell_at i l spans ch) = LineNo (1 + of_nat i)"
    "cl_text (cell_at i l spans ch) = ln_text l" "cl_ending (cell_at i l spans ch) = ln_ending l"
proof -
  have "unat (of_nat (i + 1) :: u32) = i + 1"
    unfolding unat_of_nat by (rule mod_less) (use assms in simp)
  then have "(of_nat i + 1 :: u32) \<noteq> 0" by (metis add_is_0 of_nat_1 of_nat_add unat_0 zero_neq_one)
  then show "cl_line_no (cell_at i l spans ch) = LineNo (1 + of_nat i)"
    using assms by (simp add: cell_at_def line_from_index_def add.commute)
qed (simp_all add: cell_at_def)

lemma shows_old: "sides_fit S a b \<Longrightarrow> i < length a \<Longrightarrow> shows_line (sd_old S) i (old_cell S i ch)"
  by (simp add: shows_line_def old_cell_def sides_fit_def shows_cell)

lemma shows_new: "sides_fit S a b \<Longrightarrow> i < length b \<Longrightarrow> shows_line (sd_new S) i (new_cell S i ch)"
  by (simp add: shows_line_def new_cell_def sides_fit_def shows_cell)

lemma emit_Suc: "emit_context S p q (Suc n) = Row_Context (old_cell S p []) (new_cell S q []) # emit_context S (Suc p) (Suc q) n"
  by (simp add: emit_context_def upt_conv_Cons map_Suc_upt [symmetric] comp_def del: upt_Suc)

lemma emit_0 [simp]: "emit_context S p q 0 = []"
  by (simp add: emit_context_def)

lemma walks_emit:
  assumes "sides_fit S a b"
  shows "same_run a b p q n \<Longrightarrow> walks S a b rest (p + n) (q + n) \<Longrightarrow> walks S a b (emit_context S p q n @ rest) p q"
proof (induction n arbitrary: p q)
  case (Suc n)
  have "same_run a b p q 1" "same_run a b (Suc p) (Suc q) n"
    using Suc.prems(1) same_run_split [of a b p q 1 n] by simp_all
  moreover from this have "p < length a" "q < length b" by (simp_all add: same_run_def)
  ultimately show ?case
    using Suc assms by (simp add: emit_Suc shows_old [OF assms] shows_new [OF assms])
qed simp

lemma span_emit [simp]:
  "old_span (emit_context S p q n @ rest) = n + old_span rest"
  "new_span (emit_context S p q n @ rest) = n + new_span rest"
  by (induction n arbitrary: p q) (simp_all add: emit_Suc)

lemma walks_modified:
  assumes fit: "sides_fit S a b"
  shows "p + n \<le> length a \<Longrightarrow> q + n \<le> length b \<Longrightarrow> walks S a b rest (p + n) (q + n) \<Longrightarrow>
    walks S a b (map (\<lambda>k. let (lc, rc) = f k in Row_Modified (old_cell S (p + k) lc) (new_cell S (q + k) rc)) [0..<n] @ rest) p q"
proof (induction n arbitrary: p q f)
  case (Suc n)
  from Suc.IH [of "Suc p" "Suc q" "f \<circ> Suc"] Suc.prems show ?case
    by (simp add: upt_conv_Cons map_Suc_upt [symmetric] comp_def shows_old [OF fit] shows_new [OF fit]
        split: prod.split del: upt_Suc)
qed simp

lemma walks_removed:
  assumes fit: "sides_fit S a b"
  shows "p \<le> e \<Longrightarrow> e \<le> length a \<Longrightarrow> walks S a b rest e q \<Longrightarrow>
    walks S a b (map (\<lambda>i. Row_Removed (old_cell S i [])) [p..<e] @ rest) p q"
proof (induction "e - p" arbitrary: p)
  case (Suc n)
  then have "p < e" by simp
  with Suc.hyps(1) [of "Suc p"] Suc show ?case by (simp add: upt_conv_Cons shows_old [OF fit])
qed simp

lemma walks_added:
  assumes fit: "sides_fit S a b"
  shows "q \<le> e \<Longrightarrow> e \<le> length b \<Longrightarrow> walks S a b rest p e \<Longrightarrow>
    walks S a b (map (\<lambda>i. Row_Added (new_cell S i [])) [q..<e] @ rest) p q"
proof (induction "e - q" arbitrary: q)
  case (Suc n)
  then have "q < e" by simp
  with Suc.hyps(1) [of "Suc q"] Suc show ?case by (simp add: upt_conv_Cons shows_new [OF fit])
qed simp

lemma span_maps [simp]:
  "old_span (map (\<lambda>k. let (lc, rc) = f k in Row_Modified (g k lc) (h k rc)) ks @ rest) = length ks + old_span rest"
  "new_span (map (\<lambda>k. let (lc, rc) = f k in Row_Modified (g k lc) (h k rc)) ks @ rest) = length ks + new_span rest"
  "old_span (map (\<lambda>i. Row_Removed (u i)) ks @ rest) = length ks + old_span rest"
  "new_span (map (\<lambda>i. Row_Removed (u i)) ks @ rest) = new_span rest"
  "old_span (map (\<lambda>i. Row_Added (u i)) ks @ rest) = old_span rest"
  "new_span (map (\<lambda>i. Row_Added (u i)) ks @ rest) = length ks + new_span rest"
  by (induction ks) (simp_all split: prod.split)

lemma walks_change:
  assumes fit: "sides_fit S a b" and "hb_start h \<le> hb_end h" "hb_end h \<le> length a"
    "ha_start h \<le> ha_end h" "ha_end h \<le> length b" "walks S a b rest (hb_end h) (ha_end h)"
  shows "walks S a b (change_rows L S h @ rest) (hb_start h) (ha_start h)"
  unfolding change_rows_def Let_def append_assoc
  by (intro walks_modified [OF fit, unfolded Let_def] walks_removed [OF fit] walks_added [OF fit]) (use assms in auto)

lemma span_change:
  assumes "hb_start h \<le> hb_end h" "ha_start h \<le> ha_end h"
  shows "old_span (change_rows L S h @ rest) = hb_end h - hb_start h + old_span rest"
    "new_span (change_rows L S h @ rest) = ha_end h - ha_start h + new_span rest"
  using assms by (simp_all add: change_rows_def Let_def span_maps [unfolded Let_def])

lemma walks_hunks:
  assumes fit: "sides_fit S a b"
  shows "script a b (hs @ hs') p q \<Longrightarrow> hunks_rows L S p q hs = (rows, p', q') \<Longrightarrow>
     p' = (if hs = [] then p else hb_end (last hs)) \<and> q' = (if hs = [] then q else ha_end (last hs))
     \<and> script a b hs' p' q' \<and> p \<le> p' \<and> q \<le> q'
     \<and> (walks S a b rest p' q' \<longrightarrow> walks S a b (rows @ rest) p q)
     \<and> old_span (rows @ rest) = p' - p + old_span rest \<and> new_span (rows @ rest) = q' - q + new_span rest"
proof (induction hs arbitrary: p q rows)
  case (Cons h hs)
  obtain rows1 where r: "hunks_rows L S (hb_end h) (ha_end h) hs = (rows1, p', q')"
    and rows: "rows = emit_context S p q (hb_start h - p) @ change_rows L S h @ rows1"
    using Cons.prems(2) by (auto split: prod.splits)
  have sc: "script a b (h # hs @ hs') p q" using Cons.prems(1) by (simp only: append_Cons)
  then have H: "p \<le> hb_start h" "hb_start h \<le> hb_end h" "hb_end h \<le> length a" "ha_start h = q + (hb_start h - p)"
    "ha_start h \<le> ha_end h" "ha_end h \<le> length b" "same_run a b p q (hb_start h - p)"
    unfolding script.simps by blast+
  have tail: "script a b (hs @ hs') (hb_end h) (ha_end h)" using sc by (simp only: script.simps)
  have IH: "p' = (if hs = [] then hb_end h else hb_end (last hs))" "q' = (if hs = [] then ha_end h else ha_end (last hs))"
    "script a b hs' p' q'" "hb_end h \<le> p'" "ha_end h \<le> q'"
    "walks S a b rest p' q' \<longrightarrow> walks S a b (rows1 @ rest) (hb_end h) (ha_end h)"
    "old_span (rows1 @ rest) = p' - hb_end h + old_span rest" "new_span (rows1 @ rest) = q' - ha_end h + new_span rest"
    using Cons.IH [OF tail r] by blast+
  have "walks S a b (rows @ rest) p q" if "walks S a b rest p' q'"
  proof -
    have "walks S a b (change_rows L S h @ rows1 @ rest) (hb_start h) (ha_start h)"
      by (rule walks_change [OF fit H(2,3,5,6)]) (use IH(6) that in simp)
    then show ?thesis using H(1,4) walks_emit [OF fit H(7)] by (simp add: rows)
  qed
  moreover have "old_span (rows @ rest) = p' - p + old_span rest" "new_span (rows @ rest) = q' - q + new_span rest"
    using H IH(4,5,7,8) by (simp_all add: rows span_change [OF H(2,5)])
  moreover have "p \<le> hb_end h" "q \<le> ha_end h" using H by linarith+
  ultimately show ?case using IH by simp
qed auto

section \<open>Ranges that tile an interval\<close>

fun tiling :: "(nat \<times> nat) list \<Rightarrow> nat \<Rightarrow> nat \<Rightarrow> bool" where
  "tiling [] a b \<longleftrightarrow> a = b"
| "tiling (r # rs) a b \<longleftrightarrow> fst r = a \<and> fst r < snd r \<and> tiling rs (snd r) b"

lemma tiling_append: "tiling (rs @ us) a b \<longleftrightarrow> (\<exists>c. tiling rs a c \<and> tiling us c b)"
  by (induction rs arbitrary: a) auto

lemma tiling_le: "tiling rs a b \<Longrightarrow> a \<le> b"
  by (induction rs arbitrary: a) fastforce+

lemma tiling_extend:
  "tiling rs a b \<Longrightarrow> rs \<noteq> [] \<Longrightarrow> tiling (butlast rs @ [(fst (last rs), Suc b)]) a (Suc b)"
  by (induction rs rule: rev_induct) (auto simp: tiling_append)

lemma tiling_push: "tiling rs a b \<Longrightarrow> tiling (rs @ [(b, Suc b)]) a (Suc b)"
  by (auto simp: tiling_append)

lemma tiling_nth: "tiling rs a b \<Longrightarrow> i < length rs \<Longrightarrow>
   fst (rs ! i) < snd (rs ! i) \<and> snd (rs ! i) = (if Suc i < length rs then fst (rs ! Suc i) else b)"
proof (induction rs arbitrary: a i)
  case (Cons r rs)
  then show ?case by (cases i; cases rs) auto
qed simp

lemma sub_range_empty [simp]: "sub_range (a, a) xs = []"
  by (simp add: sub_range_def)

lemma sub_range_append:
  assumes "a \<le> b" "b \<le> c"
  shows "sub_range (a, b) xs @ sub_range (b, c) xs = sub_range (a, c) xs"
proof -
  have "drop b xs = drop (b - a) (drop a xs)" "c - a = (b - a) + (c - b)" using assms by simp_all
  then show ?thesis by (simp add: sub_range_def take_add)
qed

lemma concat_tiling: "tiling rs a b \<Longrightarrow> concat (map (\<lambda>r. sub_range r xs) rs) = sub_range (a, b) xs"
proof (induction rs arbitrary: a)
  case (Cons r rs)
  then have "concat (map (\<lambda>r. sub_range r xs) rs) = sub_range (snd r, b) xs" "a \<le> snd r" "snd r \<le> b" "r = (a, snd r)"
    using tiling_le [of rs "snd r" b] by (auto simp: prod_eq_iff)
  then show ?case using sub_range_append [of a "snd r" b xs] by simp
qed simp

text \<open>Where the range with index \<open>i\<close> starts; past the last one, where the tiling ends.\<close>

definition start_of :: "(nat \<times> nat) list \<Rightarrow> nat \<Rightarrow> nat \<Rightarrow> nat" where
  "start_of rs b i = (if i < length rs then fst (rs ! i) else b)"

lemma tiling_drop: "tiling rs a b \<Longrightarrow> i \<le> length rs \<Longrightarrow> tiling (drop i rs) (start_of rs b i) b"
proof (induction rs arbitrary: a i)
  case (Cons r rs)
  show ?case
  proof (cases i)
    case (Suc j)
    then show ?thesis using Cons.IH [of "snd r" j] Cons.prems by (auto simp: start_of_def split: if_splits)
  qed (use Cons.prems in \<open>simp add: start_of_def\<close>)
qed (simp add: start_of_def)

lemma tiling_slice:
  assumes "tiling rs a b" "s \<le> e" "e \<le> length rs"
  shows "tiling (sub_range (s, e) rs) (start_of rs b s) (start_of rs b e)"
proof -
  have d: "tiling (drop s rs) (start_of rs b s) b" "tiling (drop e rs) (start_of rs b e) b"
    using assms tiling_drop by auto
  have "drop s rs = sub_range (s, e) rs @ drop e rs"
    using assms(2,3) unfolding sub_range_def by (metis append_take_drop_id drop_drop fst_conv le_add_diff_inverse2 snd_conv)
  then have "tiling (sub_range (s, e) rs @ drop e rs) (start_of rs b s) b" using d(1) by simp
  then obtain c where c: "tiling (sub_range (s, e) rs) (start_of rs b s) c" "tiling (drop e rs) c b"
    unfolding tiling_append by blast
  have "c = start_of rs b e" using c(2) d(2) by (cases "drop e rs") auto
  then show ?thesis using c(1) by simp
qed

lemma groups_of_tiling: "hunks \<noteq> [] \<Longrightarrow> tiling (groups_of ctx hunks) 0 (length hunks)"
proof -
  have "tiling (foldl (group_step ctx hunks) [(0, 1)] [1..<Suc n]) 0 (Suc n)
    \<and> foldl (group_step ctx hunks) [(0, 1)] [1..<Suc n] \<noteq> []" for n
  proof (induction n)
    case (Suc n)
    have "[1..<Suc (Suc n)] = [1..<Suc n] @ [Suc n]" by simp
    then show ?case using Suc tiling_extend tiling_push unfolding foldl_append by (auto simp: group_step_def)
  qed simp
  from this [of "length hunks - 1"] show "hunks \<noteq> [] \<Longrightarrow> tiling (groups_of ctx hunks) 0 (length hunks)"
    by (simp add: groups_of_def)
qed

lemma blocks_of_tiling: "tiling (blocks_of windows n) 0 n"
  unfolding blocks_of_def
proof (induction n)
  case (Suc n)
  then show ?case using tiling_extend tiling_push by (auto simp: block_step_def)
qed simp

section \<open>Windows\<close>

definition window_end :: "window list \<Rightarrow> nat \<Rightarrow> nat \<times> nat" where
  "window_end ws s = (if s = 0 then (0, 0) else (wn_end_o (ws ! (s - 1)), wn_end_n (ws ! (s - 1))))"

lemma windows_from_nth:
  "g < length gs \<Longrightarrow> windows_from ctx e n hunks i oi ni gs ! g
     = window_of ctx e n hunks (i + g)
         (if g = 0 then oi else wn_end_o (windows_from ctx e n hunks i oi ni gs ! (g - 1)))
         (if g = 0 then ni else wn_end_n (windows_from ctx e n hunks i oi ni gs ! (g - 1)))
         (gs ! g) (drop (Suc g) gs)"
proof (induction gs arbitrary: i oi ni g)
  case (Cons x gs)
  show ?case
  proof (cases g)
    case (Suc k)
    then show ?thesis using Cons.IH [of k] Cons.prems by (cases k) (simp_all add: Let_def)
  qed (simp add: Let_def)
qed simp

text \<open>The windows of a list of groups that tile the hunks.\<close>

definition windows_ok :: "'a list \<Rightarrow> hunk list \<Rightarrow> (nat \<times> nat) list \<Rightarrow> window list \<Rightarrow> bool" where
  "windows_ok a hunks groups ws \<longleftrightarrow> (\<forall>g<length groups.
     wn_start_o (ws ! g) = max (wn_start_o (ws ! g)) (fst (window_end ws g))
     \<and> wn_start_o (ws ! g) \<le> max (hb_start (hunks ! fst (groups ! g))) (fst (window_end ws g))
     \<and> wn_start_n (ws ! g) = snd (window_end ws g) + (wn_start_o (ws ! g) - fst (window_end ws g))
     \<and> wn_end_o (ws ! g) \<ge> min (hb_end (hunks ! (snd (groups ! g) - 1)))
         (min (length a) (next_stop a (drop (start_of groups (length hunks) (Suc g)) hunks)))
     \<and> wn_end_o (ws ! g) \<le> next_stop a (drop (start_of groups (length hunks) (Suc g)) hunks)
     \<and> wn_end_n (ws ! g) = ha_end (hunks ! (snd (groups ! g) - 1)) + (wn_end_o (ws ! g) - hb_end (hunks ! (snd (groups ! g) - 1))))"

lemma next_stop_drop: "i < length hunks \<Longrightarrow> next_stop a (drop i hunks) = hb_start (hunks ! i)"
  by (simp add: next_stop_def Cons_nth_drop_Suc [symmetric])

lemma windows_are_ok:
  assumes "tiling groups 0 (length hunks)"
  shows "windows_ok a hunks groups (windows_from ctx e (length a) hunks 0 0 0 groups)" (is "windows_ok _ _ _ ?ws")
  unfolding windows_ok_def
proof (intro allI impI)
  fix g assume g: "g < length groups"
  have ws: "?ws ! g = window_of ctx e (length a) hunks g (fst (window_end ?ws g)) (snd (window_end ?ws g))
      (groups ! g) (drop (Suc g) groups)"
    using windows_from_nth [OF g, of ctx e "length a" hunks 0 0 0] by (simp add: window_end_def)
  have stop: "(case drop (Suc g) groups of [] \<Rightarrow> length a | ng # _ \<Rightarrow> hb_start (hunks ! fst ng))
      = next_stop a (drop (start_of groups (length hunks) (Suc g)) hunks)"
  proof (cases "Suc g < length groups")
    case True
    have "fst (groups ! Suc g) < length hunks"
      using tiling_nth [OF assms True] tiling_le [OF tiling_drop [OF assms, of "Suc (Suc g)"]] True
      by (auto simp: start_of_def split: if_splits)
    then have "next_stop a (drop (start_of groups (length hunks) (Suc g)) hunks) = hb_start (hunks ! fst (groups ! Suc g))"
      using True by (simp add: start_of_def next_stop_drop)
    moreover have "drop (Suc g) groups = groups ! Suc g # drop (Suc (Suc g)) groups"
      using True by (simp add: Cons_nth_drop_Suc)
    ultimately show ?thesis by simp
  qed (simp add: start_of_def next_stop_def)
  let ?w = "?ws ! g"
  show "wn_start_o ?w = max (wn_start_o ?w) (fst (window_end ?ws g))
     \<and> wn_start_o ?w \<le> max (hb_start (hunks ! fst (groups ! g))) (fst (window_end ?ws g))
     \<and> wn_start_n ?w = snd (window_end ?ws g) + (wn_start_o ?w - fst (window_end ?ws g))
     \<and> wn_end_o ?w \<ge> min (hb_end (hunks ! (snd (groups ! g) - 1)))
         (min (length a) (next_stop a (drop (start_of groups (length hunks) (Suc g)) hunks)))
     \<and> wn_end_o ?w \<le> next_stop a (drop (start_of groups (length hunks) (Suc g)) hunks)
     \<and> wn_end_n ?w = ha_end (hunks ! (snd (groups ! g) - 1)) + (wn_end_o ?w - hb_end (hunks ! (snd (groups ! g) - 1)))"
    unfolding ws window_of_def Let_def stop by auto
qed

section \<open>Blocks\<close>

lemma sub_range_props:
  assumes "s < e" "e \<le> length xs"
  shows "sub_range (s, e) xs \<noteq> []" "hd (sub_range (s, e) xs) = xs ! s" "last (sub_range (s, e) xs) = xs ! (e - 1)"
    "drop s xs = sub_range (s, e) xs @ drop e xs"
proof -
  show ne: "sub_range (s, e) xs \<noteq> []" using assms by (simp add: sub_range_def)
  show "hd (sub_range (s, e) xs) = xs ! s" using assms by (simp add: sub_range_def hd_drop_conv_nth)
  have "length (sub_range (s, e) xs) = e - s" using assms by (simp add: sub_range_def)
  then show "last (sub_range (s, e) xs) = xs ! (e - 1)"
    using ne assms by (simp add: last_conv_nth) (simp add: sub_range_def)
  show "drop s xs = sub_range (s, e) xs @ drop e xs"
    using append_take_drop_id [of "e - s" "drop s xs"] assms by (simp add: sub_range_def)
qed

lemma script_after:
  "script a b (hs @ hs') p q \<Longrightarrow> hs \<noteq> [] \<Longrightarrow> script a b hs' (hb_end (last hs)) (ha_end (last hs))"
proof (induction hs arbitrary: p q)
  case (Cons h hs)
  then have "script a b (hs @ hs') (hb_end h) (ha_end h)" by (simp only: append_Cons script.simps)
  then show ?case using Cons.IH by (cases "hs = []") simp_all
qed simp

text \<open>At every window's end the files agree up to the next hunk.\<close>

lemma window_ends:
  assumes ok: "windows_ok a hunks groups ws" and til: "tiling groups 0 (length hunks)"
    and scr: "script a b hunks 0 0"
  shows "s \<le> length groups \<Longrightarrow>
    script a b (drop (start_of groups (length hunks) s) hunks) (fst (window_end ws s)) (snd (window_end ws s))"
proof (induction s)
  case 0
  then show ?case using scr til by (cases groups) (simp_all add: window_end_def start_of_def)
next
  case (Suc g)
  let ?i = "start_of groups (length hunks) g"
  let ?j = "start_of groups (length hunks) (Suc g)"
  let ?h = "hunks ! (snd (groups ! g) - 1)"
  have g: "g < length groups" using Suc by simp
  have ij: "?i < ?j" "?j = snd (groups ! g)" "?j \<le> length hunks"
    using tiling_nth [OF til g] tiling_le [OF tiling_drop [OF til, of "Suc g"]] g by (auto simp: start_of_def)
  have "script a b (sub_range (?i, ?j) hunks @ drop ?j hunks) (fst (window_end ws g)) (snd (window_end ws g))"
    using Suc g sub_range_props(4) [OF ij(1,3)] by simp
  from script_after [OF this] have after: "script a b (drop ?j hunks) (hb_end ?h) (ha_end ?h)"
    using sub_range_props(1,3) [OF ij(1,3)] ij(2) by simp
  let ?w = "ws ! g"
  have w: "min (hb_end ?h) (min (length a) (next_stop a (drop ?j hunks))) \<le> wn_end_o ?w"
    "wn_end_o ?w \<le> next_stop a (drop ?j hunks)" "wn_end_n ?w = ha_end ?h + (wn_end_o ?w - hb_end ?h)"
    using ok g unfolding windows_ok_def by blast+
  have "hb_end ?h \<le> wn_end_o ?w" using w(1) script_bounds [OF after] by linarith
  from script_advance(2) [OF after this w(2)] show ?case by (simp add: window_end_def w(3))
qed

text \<open>A window surrounds its group.\<close>

lemma window_bounds:
  assumes ok: "windows_ok a hunks groups ws" and til: "tiling groups 0 (length hunks)"
    and scr: "script a b hunks 0 0" and g: "g < length groups"
  defines "last_hunk \<equiv> hunks ! (snd (groups ! g) - 1)"
  shows "fst (window_end ws g) \<le> wn_start_o (ws ! g)" "wn_start_o (ws ! g) \<le> next_stop a (drop (fst (groups ! g)) hunks)"
    "wn_start_n (ws ! g) = snd (window_end ws g) + (wn_start_o (ws ! g) - fst (window_end ws g))"
    "hb_end last_hunk \<le> wn_end_o (ws ! g)"
    "wn_end_o (ws ! g) \<le> next_stop a (drop (start_of groups (length hunks) (Suc g)) hunks)"
    "wn_end_n (ws ! g) = ha_end last_hunk + (wn_end_o (ws ! g) - hb_end last_hunk)"
    "script a b (drop (start_of groups (length hunks) (Suc g)) hunks) (hb_end last_hunk) (ha_end last_hunk)"
proof -
  let ?i = "start_of groups (length hunks) g"
  let ?j = "start_of groups (length hunks) (Suc g)"
  have ij: "?i = fst (groups ! g)" "?i < ?j" "?j = snd (groups ! g)" "?j \<le> length hunks"
    using tiling_nth [OF til g] tiling_le [OF tiling_drop [OF til, of "Suc g"]] g by (auto simp: start_of_def)
  have before: "script a b (drop ?i hunks) (fst (window_end ws g)) (snd (window_end ws g))"
    using window_ends [OF ok til scr, of g] g by simp
  then have "script a b (sub_range (?i, ?j) hunks @ drop ?j hunks) (fst (window_end ws g)) (snd (window_end ws g))"
    using sub_range_props(4) [OF ij(2,4)] by simp
  from script_after [OF this] show after: "script a b (drop ?j hunks) (hb_end last_hunk) (ha_end last_hunk)"
    using sub_range_props(1,3) [OF ij(2,4)] ij(3) by (simp add: last_hunk_def)
  note w = ok [unfolded windows_ok_def, rule_format, OF g, folded last_hunk_def]
  have "next_stop a (drop ?i hunks) = hb_start (hunks ! ?i)" using ij by (simp add: next_stop_drop)
  moreover have "fst (window_end ws g) \<le> next_stop a (drop ?i hunks)" using script_bounds [OF before] by simp
  ultimately show "wn_start_o (ws ! g) \<le> next_stop a (drop (fst (groups ! g)) hunks)" using w ij(1) by simp
  show "fst (window_end ws g) \<le> wn_start_o (ws ! g)" using w by (metis max.cobounded2)
  show "hb_end last_hunk \<le> wn_end_o (ws ! g)" using w script_bounds [OF after] by linarith
qed (use ok [unfolded windows_ok_def, rule_format, OF g, folded last_hunk_def] in blast)+

lemma unat_to_u32: "n < 2 ^ 32 \<Longrightarrow> unat (to_u32 n) = n"
  by (simp add: to_u32_def unat_of_nat)

lemma walks_expander:
  assumes "same_run a b p q n" "length a < 2 ^ 32" "n > 0" "walks S a b rest (p + n) (q + n)"
  shows "walks S a b (Row_Expander (to_u32 n) d g # rest) p q"
proof -
  have "unat (to_u32 n) = n" using assms(1,2) by (intro unat_to_u32) (simp add: same_run_def)
  moreover from this have "to_u32 n \<noteq> 0" using assms(3) by (metis unat_0 less_irrefl)
  ultimately show ?thesis using assms by simp
qed

lemma block_walks:
  assumes fit: "sides_fit S a b" and ok: "windows_ok a hunks groups ws" and til: "tiling groups 0 (length hunks)"
    and scr: "script a b hunks 0 0" and se: "s < e" "e \<le> length groups"
    and rest: "walks S a b rest (fst (window_end ws e)) (snd (window_end ws e))" "old_span rest = 0" "new_span rest = 0"
  shows "walks S a b (block_rows L S hunks groups ws (fst (window_end ws s)) (s, e) @ rest)
    (fst (window_end ws s)) (snd (window_end ws s))"
proof -
  let ?i = "start_of groups (length hunks) s"
  let ?j = "start_of groups (length hunks) e"
  let ?hs = "sub_range (?i, ?j) hunks"
  let ?oi = "fst (window_end ws s)"
  let ?ni = "snd (window_end ws s)"
  let ?so = "wn_start_o (ws ! s)"
  let ?sn = "wn_start_n (ws ! s)"
  let ?eo = "wn_end_o (ws ! (e - 1))"
  let ?en = "wn_end_n (ws ! (e - 1))"
  have s: "s < length groups" "e - 1 < length groups" "Suc (e - 1) = e" using se by simp_all
  note wb = window_bounds [OF ok til scr s(1)]
  note we = window_bounds [OF ok til scr s(2), unfolded s(3)]
  have "tiling (sub_range (s, e) groups) ?i ?j" by (rule tiling_slice [OF til]) (use se in simp_all)
  then have hs: "concat (map (\<lambda>g. sub_range g hunks) (sub_range (s, e) groups)) = ?hs" and le: "?i \<le> ?j"
    by (simp_all add: concat_tiling tiling_le)
  have j: "?j = snd (groups ! (e - 1))" "?j \<le> length hunks"
    using tiling_nth [OF til s(2)] tiling_le [OF tiling_drop [OF til, of e]] se s(3) by (auto simp: start_of_def)
  have i: "?i = fst (groups ! s)" "?i < ?j"
  proof -
    show "?i = fst (groups ! s)" using s by (simp add: start_of_def)
    have "sub_range (s, e) groups \<noteq> []" by (rule sub_range_props(1)) (use se in simp_all)
    with \<open>tiling (sub_range (s, e) groups) ?i ?j\<close> show "?i < ?j"
      using tiling_le by (cases "sub_range (s, e) groups") fastforce+
  qed
  have last: "last ?hs = hunks ! (snd (groups ! (e - 1)) - 1)" using sub_range_props(3) [OF i(2) j(2)] j(1) by simp
  have at_start: "script a b (?hs @ drop ?j hunks) ?oi ?ni"
    using window_ends [OF ok til scr, of s] s sub_range_props(4) [OF i(2) j(2)] by simp
  have adv: "same_run a b ?oi ?ni (?so - ?oi)" "script a b (?hs @ drop ?j hunks) ?so ?sn"
    using script_advance [OF at_start wb(1)] wb(2,3) i(1) sub_range_props(4) [OF i(2) j(2)] by simp_all
  obtain rows co cn where r: "hunks_rows L S ?so ?sn ?hs = (rows, co, cn)" by (metis prod_cases3)
  have co: "co = hb_end (last ?hs)" "cn = ha_end (last ?hs)"
    using walks_hunks [OF fit adv(2) r] sub_range_props(1) [OF i(2) j(2)] by simp_all
  have ends: "co \<le> ?eo" "?en = cn + (?eo - co)" using we(4,6) co last by simp_all
  have run: "same_run a b co cn (?eo - co)"
    using script_advance(1) [OF we(7) we(4,5)] co last by simp
  let ?after = "emit_context S co cn (?eo - co) @ rest"
  have e: "window_end ws e = (?eo, ?en)" using se by (simp add: window_end_def)
  have walk: "walks S a b ?after co cn" using walks_emit [OF fit run] rest(1) ends e by simp
  have H: "?so \<le> co" "?sn \<le> cn" "walks S a b ?after co cn \<longrightarrow> walks S a b (rows @ ?after) ?so ?sn"
    "old_span (rows @ ?after) = co - ?so + old_span ?after" "new_span (rows @ ?after) = cn - ?sn + new_span ?after"
    using walks_hunks [OF fit adv(2) r, of ?after] by blast+
  then have W: "walks S a b (rows @ ?after) ?so ?sn" "?so \<le> co" "?sn \<le> cn"
    "old_span (rows @ ?after) = co - ?so + (?eo - co)" "new_span (rows @ ?after) = cn - ?sn + (?eo - co)"
    using walk rest(2,3) by simp_all
  have header: "walks S a b (Row_HunkHeader (hunk_header_text ?so (?eo - ?so) ?sn (?en - ?sn)) # rows @ ?after) ?so ?sn"
    using W ends by simp
  have parts: "block_rows L S hunks groups ws ?oi (s, e) @ rest
      = (if ?so - ?oi > 0 then [Row_Expander (to_u32 (?so - ?oi)) (if s = 0 then Dir_Up else Dir_Both) (Gap (to_u32 s))] else [])
        @ Row_HunkHeader (hunk_header_text ?so (?eo - ?so) ?sn (?en - ?sn)) # rows @ ?after"
    by (simp add: block_rows_def Let_def hs r)
  show ?thesis
  proof (cases "?so - ?oi > 0")
    case True
    have at: "?oi + (?so - ?oi) = ?so" "?ni + (?so - ?oi) = ?sn" using wb(1,3) by simp_all
    have "length a < 2 ^ 32" using fit by (simp add: sides_fit_def)
    from walks_expander [OF adv(1) this True, unfolded at, OF header] have "walks S a b (Row_Expander (to_u32 (?so - ?oi)) d g
        # Row_HunkHeader (hunk_header_text ?so (?eo - ?so) ?sn (?en - ?sn)) # rows @ ?after) ?oi ?ni" for d g .
    then show ?thesis using True by (simp add: block_rows_def Let_def hs r del: walks.simps)
  next
    case False
    then have so: "?so = ?oi" "?sn = ?ni" using wb(1,3) by simp_all
    show ?thesis unfolding parts if_not_P [OF False] append_Nil unfolding so by (rule header [unfolded so])
  qed
qed

lemma span_block: "old_span (block_rows L S hunks groups ws oi b @ rest) = 0" "new_span (block_rows L S hunks groups ws oi b @ rest) = 0"
  by (simp_all add: block_rows_def Let_def split: prod.split)

lemma blocks_walk:
  assumes fit: "sides_fit S a b" and ok: "windows_ok a hunks groups ws" and til: "tiling groups 0 (length hunks)"
    and scr: "script a b hunks 0 0"
    and rest: "walks S a b rest (fst (window_end ws n)) (snd (window_end ws n))" "old_span rest = 0" "new_span rest = 0"
  shows "tiling bs s n \<Longrightarrow> n \<le> length groups \<Longrightarrow>
    blocks_rows L S hunks groups ws (fst (window_end ws s)) bs = (rows, oi) \<Longrightarrow>
    oi = fst (window_end ws n) \<and> walks S a b (rows @ rest) (fst (window_end ws s)) (snd (window_end ws s))
    \<and> old_span (rows @ rest) = 0 \<and> new_span (rows @ rest) = 0"
proof (induction bs arbitrary: s rows)
  case (Cons r bs)
  obtain e where r: "r = (s, e)" "s < e" "tiling bs e n" using Cons.prems(1) by (cases r) auto
  have "wn_end_o (ws ! (e - 1)) = fst (window_end ws e)" using r(2) by (simp add: window_end_def)
  then obtain rows1 where rows1: "blocks_rows L S hunks groups ws (fst (window_end ws e)) bs = (rows1, oi)"
    and rows: "rows = block_rows L S hunks groups ws (fst (window_end ws s)) (s, e) @ rows1"
    using Cons.prems(3) r(1) by (auto split: prod.splits)
  have "e \<le> length groups" using tiling_le [OF r(3)] Cons.prems(2) by simp
  with Cons.IH [OF r(3) Cons.prems(2) rows1] show ?case
    using block_walks [OF fit ok til scr r(2), of "rows1 @ rest" L] by (simp add: rows span_block)
qed (use rest in simp)

section \<open>The rows of a file\<close>

lemma expansions_of_nat: "\<exists>up down. expansions_of e g = (up, down)"
  by fastforce

lemma whole_file_walks:
  assumes fit: "sides_fit S a b" and scr: "script a b [] 0 0"
  shows "walks S a b (whole_file_rows S expanded) 0 0"
proof (cases "length a = 0")
  case True
  then have "whole_file_rows S expanded = []" using fit by (simp add: whole_file_rows_def sides_fit_def)
  then show ?thesis using scr True by simp
next
  case False
  obtain up down where e: "expansions_of expanded (Gap 0) = (up, down)" by fastforce
  let ?n = "length a"
  define shown where "shown = min (unat up + unat down) ?n"
  define head where "head = min (unat down) shown"
  have le: "head \<le> shown" "shown \<le> ?n" unfolding shown_def head_def by linarith+
  have rows: "whole_file_rows S expanded = emit_context S 0 0 head
      @ (if ?n - shown > 0 then [Row_Expander (to_u32 (?n - shown)) Dir_Both (Gap 0)] else [])
      @ emit_context S (?n - (shown - head)) (?n - (shown - head)) (shown - head)"
    using False fit by (simp add: whole_file_rows_def e sides_fit_def shown_def head_def Let_def)
  have "same_run a b 0 0 (head + ((?n - shown) + (shown - head)))" "length b = ?n" using scr le by simp_all
  then have runs: "same_run a b 0 0 head" "same_run a b head head (?n - shown)"
    "same_run a b (head + (?n - shown)) (head + (?n - shown)) (shown - head)" "length b = ?n"
    unfolding same_run_split by simp_all
  have tail: "walks S a b (emit_context S (?n - (shown - head)) (?n - (shown - head)) (shown - head))
      (head + (?n - shown)) (head + (?n - shown))"
  proof -
    have pos: "?n - (shown - head) = head + (?n - shown)" using le by simp
    show ?thesis unfolding pos using walks_emit [OF fit runs(3), of "[]"] le runs(4) by simp
  qed
  have "walks S a b ((if ?n - shown > 0 then [Row_Expander (to_u32 (?n - shown)) Dir_Both (Gap 0)] else [])
      @ emit_context S (?n - (shown - head)) (?n - (shown - head)) (shown - head)) head head"
  proof (cases "?n - shown > 0")
    case True
    have "?n < 2 ^ 32" using fit by (simp add: sides_fit_def)
    from walks_expander [OF runs(2) this True tail] show ?thesis using True by (simp only: if_True append_Cons append_Nil)
  qed (use tail in simp)
  then show ?thesis unfolding rows using walks_emit [OF fit runs(1)] by simp
qed

lemma window_end_last:
  assumes til: "tiling groups 0 (length hunks)" and ok: "windows_ok a hunks groups ws" and scr: "script a b hunks 0 0"
  shows "script a b [] (fst (window_end ws (length groups))) (snd (window_end ws (length groups)))"
  using window_ends [OF ok til scr, of "length groups"] by (simp add: start_of_def)

lemma build_rows_walks:
  assumes fit: "sides_fit S a b" and scr: "script a b hunks 0 0"
    and run: "build_rows L S hunks ctx expanded = (rows, additions, deletions)"
  shows "walks S a b rows 0 0"
proof (cases "hunks = []")
  case True
  then show ?thesis using run scr whole_file_walks [OF fit, of expanded] by (simp add: build_rows_def Let_def)
next
  case False
  let ?gs = "groups_of (unat ctx) hunks"
  let ?ws = "windows_from (unat ctx) expanded (length a) hunks 0 0 0 ?gs"
  let ?n = "length ?gs"
  obtain body oi where body: "blocks_rows L S hunks ?gs ?ws 0 (blocks_of ?ws ?n) = (body, oi)" by fastforce
  let ?tail = "if length a - oi > 0 then [Row_Expander (to_u32 (length a - oi)) Dir_Down (Gap (to_u32 ?n))] else []"
  have "length (sd_old S) = length a" using fit by (simp add: sides_fit_def)
  then have rows: "rows = body @ ?tail" using run False body by (auto simp: build_rows_def Let_def split: prod.splits)
  have til: "tiling ?gs 0 (length hunks)" by (rule groups_of_tiling [OF False])
  have ok: "windows_ok a hunks ?gs ?ws" by (rule windows_are_ok [OF til])
  note fin = window_end_last [OF til ok scr]
  have stop: "old_span r = 0 \<and> new_span r = 0" if "r = [] \<or> (\<exists>n d g. r = [Row_Expander n d g])" for r
    using that by auto
  have tail: "walks S a b (if length a - fst (window_end ?ws ?n) > 0
      then [Row_Expander (to_u32 (length a - fst (window_end ?ws ?n))) Dir_Down (Gap (to_u32 ?n))] else [])
      (fst (window_end ?ws ?n)) (snd (window_end ?ws ?n))"
  proof (cases "length a - fst (window_end ?ws ?n) > 0")
    case True
    have "length a < 2 ^ 32" using fit by (simp add: sides_fit_def)
    from walks_expander [OF _ this True, of b "fst (window_end ?ws ?n)" "snd (window_end ?ws ?n)" S "[]"] fin True
    show ?thesis by (simp del: walks.simps(7))
  qed (use fin in simp)
  let ?rest = "if length a - fst (window_end ?ws ?n) > 0
      then [Row_Expander (to_u32 (length a - fst (window_end ?ws ?n))) Dir_Down (Gap (to_u32 ?n))] else []"
  have z: "fst (window_end ?ws 0) = 0" "snd (window_end ?ws 0) = 0" by (simp_all add: window_end_def)
  have "old_span ?rest = 0" "new_span ?rest = 0" by simp_all
  from blocks_walk [OF fit ok til scr tail this blocks_of_tiling order_refl, where L = L and rows = body and oi = oi, unfolded z, OF body]
  have oi: "oi = fst (window_end ?ws ?n)" and w: "walks S a b (body @ ?rest) 0 0" by blast+
  show ?thesis unfolding rows oi by (rule w)
qed

section \<open>Counts\<close>

fun adds_line :: "row \<Rightarrow> bool" where
  "adds_line (Row_Added _) = True"
| "adds_line (Row_Modified _ _) = True"
| "adds_line _ = False"

fun drops_line :: "row \<Rightarrow> bool" where
  "drops_line (Row_Removed _) = True"
| "drops_line (Row_Modified _ _) = True"
| "drops_line _ = False"

definition added_rows :: "row list \<Rightarrow> nat" where
  "added_rows rows = length (filter adds_line rows)"

definition dropped_rows :: "row list \<Rightarrow> nat" where
  "dropped_rows rows = length (filter drops_line rows)"

lemma changed_rows_append [simp]:
  "added_rows (xs @ ys) = added_rows xs + added_rows ys" "dropped_rows (xs @ ys) = dropped_rows xs + dropped_rows ys"
  "added_rows [] = 0" "dropped_rows [] = 0"
  "added_rows (Row_HunkHeader t # xs) = added_rows xs" "dropped_rows (Row_HunkHeader t # xs) = dropped_rows xs"
  "added_rows (Row_Expander n d g # xs) = added_rows xs" "dropped_rows (Row_Expander n d g # xs) = dropped_rows xs"
  by (simp_all add: added_rows_def dropped_rows_def)

lemma changed_rows_emit [simp]: "added_rows (emit_context S p q n) = 0" "dropped_rows (emit_context S p q n) = 0"
  by (simp_all add: emit_context_def added_rows_def dropped_rows_def filter_empty_conv)

lemma changed_rows_maps:
  "added_rows (map (\<lambda>k. let (lc, rc) = f k in Row_Modified (g k lc) (h k rc)) ks) = length ks"
  "dropped_rows (map (\<lambda>k. let (lc, rc) = f k in Row_Modified (g k lc) (h k rc)) ks) = length ks"
  "added_rows (map (\<lambda>i. Row_Removed (u i)) ks) = 0" "dropped_rows (map (\<lambda>i. Row_Removed (u i)) ks) = length ks"
  "added_rows (map (\<lambda>i. Row_Added (u i)) ks) = length ks" "dropped_rows (map (\<lambda>i. Row_Added (u i)) ks) = 0"
  by (induction ks) (simp_all add: added_rows_def dropped_rows_def split: prod.split)

lemma changed_rows_change:
  "added_rows (change_rows L S h) = ha_end h - ha_start h" "dropped_rows (change_rows L S h) = hb_end h - hb_start h"
  by (simp_all add: change_rows_def Let_def changed_rows_maps [unfolded Let_def])

lemma changed_rows_hunks:
  "hunks_rows L S p q hs = (rows, p', q') \<Longrightarrow>
     added_rows rows = sum_list (map (\<lambda>h. ha_end h - ha_start h) hs)
     \<and> dropped_rows rows = sum_list (map (\<lambda>h. hb_end h - hb_start h) hs)"
proof (induction hs arbitrary: p q rows)
  case (Cons h hs)
  then show ?case by (auto simp: changed_rows_change split: prod.splits)
qed simp

lemma changed_rows_block:
  "added_rows (block_rows L S hunks groups ws oi b)
     = sum_list (map (\<lambda>h. ha_end h - ha_start h) (concat (map (\<lambda>g. sub_range g hunks) (sub_range b groups))))"
  "dropped_rows (block_rows L S hunks groups ws oi b)
     = sum_list (map (\<lambda>h. hb_end h - hb_start h) (concat (map (\<lambda>g. sub_range g hunks) (sub_range b groups))))"
  unfolding block_rows_def Let_def
  by (auto split: prod.split dest: changed_rows_hunks)

lemma changed_rows_blocks:
  "blocks_rows L S hunks groups ws oi bs = (rows, oi') \<Longrightarrow>
     added_rows rows = sum_list (map (\<lambda>h. ha_end h - ha_start h)
       (concat (map (\<lambda>b. concat (map (\<lambda>g. sub_range g hunks) (sub_range b groups))) bs)))
     \<and> dropped_rows rows = sum_list (map (\<lambda>h. hb_end h - hb_start h)
       (concat (map (\<lambda>b. concat (map (\<lambda>g. sub_range g hunks) (sub_range b groups))) bs)))"
proof (induction bs arbitrary: oi rows)
  case (Cons b bs)
  then show ?case by (auto simp: changed_rows_block split: prod.splits)
qed simp

lemma script_hunk: "script a b hs p q \<Longrightarrow> h \<in> set hs \<Longrightarrow> hb_end h \<le> length a \<and> ha_end h \<le> length b"
proof (induction hs arbitrary: p q)
  case (Cons x hs)
  have "script a b hs (hb_end x) (ha_end x)" "hb_end x \<le> length a" "ha_end x \<le> length b"
    using Cons.prems(1) unfolding script.simps by blast+
  then show ?case using Cons by auto
qed simp

lemma concat_map_maps: "concat (map (\<lambda>b. concat (map f (g b))) bs) = concat (map f (concat (map g bs)))"
  by (induction bs) simp_all

lemma sum_to_u32: "(\<And>x. x \<in> set xs \<Longrightarrow> f x < 2 ^ 32) \<Longrightarrow> sum_list (map (\<lambda>x. to_u32 (f x)) xs) = of_nat (sum_list (map f xs))"
  by (induction xs) (simp_all add: to_u32_def)

lemma build_rows_counts:
  assumes fit: "sides_fit S a b" and scr: "script a b hunks 0 0"
    and run: "build_rows L S hunks ctx expanded = (rows, additions, deletions)"
  shows "additions = of_nat (added_rows rows) \<and> deletions = of_nat (dropped_rows rows)"
proof (cases "hunks = []")
  case True
  have "added_rows (whole_file_rows S expanded) = 0 \<and> dropped_rows (whole_file_rows S expanded) = 0"
    by (auto simp: whole_file_rows_def Let_def split: prod.split)
  then show ?thesis using True run by (simp add: build_rows_def Let_def)
next
  case False
  let ?gs = "groups_of (unat ctx) hunks"
  let ?ws = "windows_from (unat ctx) expanded (length (sd_old S)) hunks 0 0 0 ?gs"
  let ?bs = "blocks_of ?ws (length ?gs)"
  obtain body oi where body: "blocks_rows L S hunks ?gs ?ws 0 ?bs = (body, oi)" by fastforce
  have til: "tiling ?gs 0 (length hunks)" by (rule groups_of_tiling [OF False])
  have "concat (map (\<lambda>b. sub_range b ?gs) ?bs) = ?gs"
    using concat_tiling [OF blocks_of_tiling, of ?gs ?ws "length ?gs"] by (simp add: sub_range_def)
  then have all: "concat (map (\<lambda>b. concat (map (\<lambda>g. sub_range g hunks) (sub_range b ?gs))) ?bs)
      = concat (map (\<lambda>g. sub_range g hunks) ?gs)"
    using concat_map_maps [of "\<lambda>g. sub_range g hunks" "\<lambda>b. sub_range b ?gs" ?bs] by simp
  also have "\<dots> = hunks" using concat_tiling [OF til, of hunks] by (simp add: sub_range_def)
  finally have hs: "concat (map (\<lambda>b. concat (map (\<lambda>g. sub_range g hunks) (sub_range b ?gs))) ?bs) = hunks" .
  have small: "hb_end h - hb_start h < 2 ^ 32 \<and> ha_end h - ha_start h < 2 ^ 32" if "h \<in> set hunks" for h
    using script_hunk [OF scr that] fit by (auto simp: sides_fit_def)
  have "additions = of_nat (added_rows body)" "deletions = of_nat (dropped_rows body)"
    using run False body changed_rows_blocks [OF body] small
    by (simp_all add: build_rows_def Let_def hs count_changes_def sum_to_u32)
  moreover have "added_rows rows = added_rows body" "dropped_rows rows = dropped_rows body"
    using run False body by (auto simp: build_rows_def Let_def split: prod.splits)
  ultimately show ?thesis by simp
qed

section \<open>Gap tables and chunks\<close>

definition gap_numbers :: "row list \<Rightarrow> nat list" where
  "gap_numbers rows = List.map_filter (\<lambda>r. case r of Row_Expander _ _ g \<Rightarrow> Some (unat (gap_get g)) | _ \<Rightarrow> None) rows"

lemma gap_numbers_simps [simp]:
  "gap_numbers [] = []" "gap_numbers (xs @ ys) = gap_numbers xs @ gap_numbers ys"
  "gap_numbers (Row_Expander n d g # xs) = unat (gap_get g) # gap_numbers xs"
  "gap_numbers (Row_HunkHeader t # xs) = gap_numbers xs"
  by (simp_all add: gap_numbers_def map_filter_simps) (simp add: List.map_filter_def)

lemma gap_numbers_none: "\<forall>r\<in>set rows. \<forall>n d g. r \<noteq> Row_Expander n d g \<Longrightarrow> gap_numbers rows = []"
proof (induction rows)
  case (Cons r rows)
  then show ?case by (cases r) (auto simp: gap_numbers_def map_filter_simps)
qed simp

lemma gap_numbers_emit [simp]: "gap_numbers (emit_context S p q n) = []"
  by (rule gap_numbers_none) (auto simp: emit_context_def)

lemma gap_numbers_change [simp]: "gap_numbers (change_rows L S h) = []"
  by (rule gap_numbers_none) (auto simp: change_rows_def Let_def split: prod.splits)

lemma gap_numbers_hunks: "hunks_rows L S p q hs = (rows, p', q') \<Longrightarrow> gap_numbers rows = []"
  by (induction hs arbitrary: p q rows) (auto split: prod.splits)

lemma gap_numbers_blocks:
  "tiling bs s n \<Longrightarrow> n < 2 ^ 32 \<Longrightarrow> blocks_rows L S hunks groups ws oi bs = (rows, oi') \<Longrightarrow>
     sorted_wrt (<) (gap_numbers rows) \<and> (\<forall>g\<in>set (gap_numbers rows). s \<le> g \<and> g < n)"
proof (induction bs arbitrary: s oi rows)
  case (Cons b bs)
  obtain rows1 where rows1: "blocks_rows L S hunks groups ws (wn_end_o (ws ! (snd b - 1))) bs = (rows1, oi')"
    and rows: "rows = block_rows L S hunks groups ws oi b @ rows1"
    using Cons.prems(3) by (auto split: prod.splits)
  have b: "fst b = s" "s < snd b" "tiling bs (snd b) n" "s < n" using Cons.prems(1) tiling_le by fastforce+
  have "gap_numbers (block_rows L S hunks groups ws oi b) \<in> {[], [s]}"
    using b Cons.prems(2) gap_numbers_hunks
    by (auto simp: block_rows_def Let_def unat_to_u32 split: prod.split)
  then show ?case using Cons.IH [OF b(3) Cons.prems(2) rows1] b by (fastforce simp: rows)
qed simp

lemma build_rows_gaps:
  assumes run: "build_rows L S hunks ctx expanded = (rows, additions, deletions)" and len: "length hunks < 2 ^ 32"
  shows "sorted_wrt (<) (gap_numbers rows)"
proof (cases "hunks = []")
  case True
  then show ?thesis using run by (auto simp: build_rows_def whole_file_rows_def Let_def split: prod.splits)
next
  case False
  let ?gs = "groups_of (unat ctx) hunks"
  let ?ws = "windows_from (unat ctx) expanded (length (sd_old S)) hunks 0 0 0 ?gs"
  obtain body oi where body: "blocks_rows L S hunks ?gs ?ws 0 (blocks_of ?ws (length ?gs)) = (body, oi)" by fastforce
  have "length rs \<le> b - a" if "tiling rs a b" for rs a b
    using that tiling_le by (induction rs arbitrary: a) fastforce+
  from this [OF groups_of_tiling [OF False, of "unat ctx"]] len have n: "length ?gs < 2 ^ 32" by simp
  from gap_numbers_blocks [OF blocks_of_tiling n body] run False body n
  show ?thesis by (auto simp: build_rows_def Let_def unat_to_u32 sorted_wrt_append split: prod.splits)
qed

lemma gap_table_check_sorted:
  "sorted_wrt (\<lambda>x y. gap_get (gr_gap x) < gap_get (gr_gap y) \<and> gr_row x < gr_row y) v \<Longrightarrow> gap_table_check v = Inr ()"
  by (induction v rule: gap_table_check.induct) auto

definition gap_rows :: "nat \<Rightarrow> row list \<Rightarrow> gap_row list" where
  "gap_rows i rows = List.map_filter gap_row_of (enumerate i rows)"

lemma gap_rows_Cons:
  "gap_rows i (r # rs) = (case gap_row_of (i, r) of None \<Rightarrow> gap_rows (Suc i) rs | Some g \<Rightarrow> g # gap_rows (Suc i) rs)"
  by (simp add: gap_rows_def map_filter_simps split: option.split)

lemma gap_rows_sorted:
  "i + length rows < 2 ^ 32 \<Longrightarrow> sorted_wrt (<) (gap_numbers rows) \<Longrightarrow>
     sorted_wrt (\<lambda>x y. gap_get (gr_gap x) < gap_get (gr_gap y) \<and> gr_row x < gr_row y) (gap_rows i rows)
     \<and> (\<forall>x\<in>set (gap_rows i rows). i \<le> unat (gr_row x) \<and> unat (gap_get (gr_gap x)) \<in> set (gap_numbers rows))"
proof (induction rows arbitrary: i)
  case Nil
  show ?case by (simp add: gap_rows_def map_filter_simps)
next
  case (Cons r rows)
  have IH: "sorted_wrt (<) (gap_numbers rows) \<Longrightarrow>
     sorted_wrt (\<lambda>x y. gap_get (gr_gap x) < gap_get (gr_gap y) \<and> gr_row x < gr_row y) (gap_rows (Suc i) rows)
     \<and> (\<forall>x\<in>set (gap_rows (Suc i) rows). Suc i \<le> unat (gr_row x) \<and> unat (gap_get (gr_gap x)) \<in> set (gap_numbers rows))"
    using Cons.IH [of "Suc i"] Cons.prems(1) by simp
  show ?case
  proof (cases r)
    case (Row_Expander n d g)
    have "unat (to_u32 i) = i" using Cons.prems(1) by (simp add: unat_to_u32)
    then show ?thesis using Cons.prems(2) IH Row_Expander
      by (auto simp: gap_rows_Cons word_less_nat_alt Suc_le_eq)
  qed (use Cons.prems IH in \<open>auto simp: gap_rows_Cons gap_numbers_def map_filter_simps Suc_le_eq\<close>)
qed

lemma gaps_of_total:
  assumes "sorted_wrt (<) (gap_numbers rows)" "length rows < 2 ^ 32"
  shows "gaps_of rows = GapTable (gap_rows 0 rows)"
  using gap_table_check_sorted gap_rows_sorted [of 0 rows] assms
  by (simp add: gaps_of_def gap_table_try_from_def gap_rows_def)

lemma less_ceil: "0 < c \<Longrightarrow> i < (n + c - 1) div c \<longleftrightarrow> i * c < (n :: nat)"
  using less_eq_div_iff_mult_less_eq [of c "Suc i" "n + c - 1"] by auto

lemma chunk_count_bound:
  assumes "n \<le> CHUNK_ROWS * (2 ^ 32 - 1)"
  shows "unat (chunk_count n) = max ((n + CHUNK_ROWS - 1) div CHUNK_ROWS) 1"
proof -
  have "n + 499 < 500 * 2 ^ 32" using assms by (simp add: CHUNK_ROWS_def)
  then have "(n + 499) div 500 < 2 ^ 32" by (simp add: div_less_iff_less_mult)
  then show ?thesis unfolding chunk_count_def by (subst unat_to_u32) (simp_all add: CHUNK_ROWS_def)
qed

lemma concat_chunks: "0 < c \<Longrightarrow> concat (map (\<lambda>i. drop (i * c) (take (min ((i + 1) * c) (length xs)) xs)) [0..<m]) = take (m * c) xs"
proof (induction m)
  case (Suc m)
  have "take (m * c) xs @ drop (m * c) (take (min ((m + 1) * c) (length xs)) xs) = take ((m + 1) * c) xs"
    by (simp add: min_def drop_take flip: take_add) (metis (no_types, lifting) add.commute append_take_drop_id drop_take le_add2 min.absorb2 min_def take_all_iff take_take)
  then show ?case using Suc by simp
qed simp

lemma in_gap_rows:
  "x \<in> set (gap_rows i rows) \<longleftrightarrow>
     (\<exists>k<length rows. (\<exists>n d. rows ! k = Row_Expander n d (gr_gap x)) \<and> x = \<lparr>gr_gap = gr_gap x, gr_row = to_u32 (i + k)\<rparr>)"
proof (induction rows arbitrary: i)
  case Nil
  show ?case by (simp add: gap_rows_def map_filter_simps)
next
  case (Cons r rows)
  have "x \<in> set (gap_rows i (r # rows)) \<longleftrightarrow> gap_row_of (i, r) = Some x \<or> x \<in> set (gap_rows (Suc i) rows)"
    by (auto simp: gap_rows_Cons split: option.split)
  also have "gap_row_of (i, r) = Some x \<longleftrightarrow> (\<exists>n d. r = Row_Expander n d (gr_gap x)) \<and> x = \<lparr>gr_gap = gr_gap x, gr_row = to_u32 i\<rparr>"
    by (cases r; cases x) auto
  finally show ?case unfolding Cons.IH
    by (simp add: Ex_less_Suc2)
qed

lemma find_sorted:
  assumes "sorted_wrt R xs" "\<And>x y. R x y \<Longrightarrow> \<not> R y x"
  shows "find P xs = Some x \<longleftrightarrow> x \<in> set xs \<and> P x \<and> (\<forall>y\<in>set xs. P y \<longrightarrow> y = x \<or> R x y)"
  using assms(1)
proof (induction xs)
  case (Cons z xs)
  have z: "\<forall>y\<in>set xs. R z y" using Cons.prems by simp
  show ?case
  proof (cases "P z")
    case True
    then have "x \<in> set (z # xs) \<and> P x \<and> (\<forall>y\<in>set (z # xs). P y \<longrightarrow> y = x \<or> R x y) \<longleftrightarrow> x = z"
      using z assms(2) by (metis list.set_intros(1) set_ConsD)
    then show ?thesis using True by auto
  qed (use Cons in auto)
qed simp

lemma walks_cong: "sd_old S = sd_old S' \<Longrightarrow> sd_new S = sd_new S' \<Longrightarrow> walks S a b rows p q = walks S' a b rows p q"
  by (induction S a b rows p q rule: walks.induct) simp_all

section \<open>What a render is\<close>

definition file_lines :: "string option \<Rightarrow> source_line list" where
  "file_lines file = split_lines (case file of None \<Rightarrow> [] | Some b \<Rightarrow> b)"

definition plain_sides :: "string option \<Rightarrow> string option \<Rightarrow> sides" where
  "plain_sides old new = \<lparr>sd_old = file_lines old, sd_new = file_lines new, sd_old_spans = [], sd_new_spans = []\<rparr>"

abbreviation render_keys :: "render_opts \<Rightarrow> string option \<Rightarrow> line_key list" where
  "render_keys opts file \<equiv> map (line_key_of (ro_ignore_whitespace opts)) (file_lines file)"

definition text_files :: "string option \<Rightarrow> string option \<Rightarrow> bool" where
  "text_files old new \<longleftrightarrow> \<not> is_some_and is_binary old \<and> \<not> is_some_and is_binary new
     \<and> length (file_lines old) < 2 ^ 32 \<and> length (file_lines new) < 2 ^ 32"

lemma render_file_text:
  assumes "text_files old new"
  obtains "rl_diff L (render_keys opts old) (render_keys opts new) = []" "ro_ignore_whitespace opts" "old \<noteq> new"
    "rd_rows (render_file L old new lang opts) = [Row_WhitespaceOnly]"
    "rd_content (render_file L old new lang opts) = Content_Text 1 (of_nat CHUNK_ROWS) 1 False 0 0 (GapTable [])"
  | S rows additions deletions highlighted where "sd_old S = file_lines old" "sd_new S = file_lines new"
    "build_rows L S (rl_diff L (render_keys opts old) (render_keys opts new)) (ro_context_lines opts) (ro_expanded opts)
      = (rows, additions, deletions)"
    "rd_rows (render_file L old new lang opts) = rows"
    "rd_content (render_file L old new lang opts) = Content_Text (to_u32 (length rows)) (of_nat CHUNK_ROWS)
      (chunk_count (length rows)) highlighted additions deletions (gaps_of rows)"
proof -
  let ?iw = "ro_ignore_whitespace opts"
  let ?h = "should_highlight old new (file_lines old) (file_lines new) lang"
  let ?S = "\<lparr>sd_old = file_lines old, sd_new = file_lines new, sd_old_spans = spans_for L ?h lang (file_lines old),
    sd_new_spans = spans_for L ?h lang (file_lines new)\<rparr>"
  let ?D = "diff_hunks L (file_lines old) (file_lines new) ?iw"
  have D: "?D = rl_diff L (render_keys opts old) (render_keys opts new)" by (simp add: diff_hunks_def)
  obtain rows additions deletions where
    build: "build_rows L ?S ?D (ro_context_lines opts) (ro_expanded opts) = (rows, additions, deletions)"
    by (metis prod_cases3)
  have eq: "render_file L old new lang opts = (if ?D = [] \<and> ?iw \<and> old \<noteq> new
      then \<lparr>rd_content = Content_Text 1 (of_nat CHUNK_ROWS) 1 False 0 0 (GapTable []), rd_rows = [Row_WhitespaceOnly]\<rparr>
      else \<lparr>rd_content = Content_Text (to_u32 (length rows)) (of_nat CHUNK_ROWS) (chunk_count (length rows))
              ?h additions deletions (gaps_of rows), rd_rows = rows\<rparr>)"
    using assms unfolding render_file_def Let_def file_lines_def [symmetric] build prod.case text_files_def by simp
  show ?thesis
  proof (cases "?D = [] \<and> ?iw \<and> old \<noteq> new")
    case True
    note r = eq [unfolded if_P [OF True]]
    show ?thesis by (rule that(1)) (use True [unfolded D] in \<open>auto simp only: r rendered.simps\<close>)
  next
    case False
    note r = eq [unfolded if_not_P [OF False]]
    show ?thesis by (rule that(2) [of ?S rows additions deletions ?h])
      (simp_all only: r rendered.simps sides.simps build [unfolded D])
  qed
qed

text \<open>
  C11: A render accounts for both files. Whatever context and expansions are asked for, its rows, read in
  order, show or hide every line of the old and of the new file exactly once: each cell shows the line
  at its place with its number, an expander hides only lines the files share and counts them, a header
  states the ranges of the rows under it, and the counts are the added and the dropped rows. Only when
  whitespace is ignored can a text render be the single whitespace row, for files with equal keys.
\<close>

theorem render_rows_account:
  fixes opts :: render_opts and lang :: "string option"
  assumes lib: "\<And>a b. script a b (rl_diff L a b) 0 0" and files: "text_files old new"
  defines "r \<equiv> render_file L old new lang opts"
  shows "(rd_rows r = [Row_WhitespaceOnly] \<and> ro_ignore_whitespace opts \<and> render_keys opts old = render_keys opts new)
    \<or> (walks (plain_sides old new) (render_keys opts old) (render_keys opts new) (rd_rows r) 0 0
       \<and> ct_additions (rd_content r) = of_nat (added_rows (rd_rows r))
       \<and> ct_deletions (rd_content r) = of_nat (dropped_rows (rd_rows r)))"
proof -
  let ?a = "render_keys opts old"
  let ?b = "render_keys opts new"
  from files show ?thesis
  proof (cases rule: render_file_text [where L = L and lang = lang and opts = opts])
    case 1
    have "same_run ?a ?b 0 0 (length ?a)" "length ?b = length ?a" using lib [of ?a ?b] 1(1) by simp_all
    then have "?a = ?b" by (intro nth_equalityI) (simp_all only: same_run_def, simp)
    then show ?thesis using 1 by (simp add: r_def)
  next
    case (2 S rows additions deletions highlighted)
    have fit: "sides_fit S ?a ?b" using 2(1,2) files by (simp add: sides_fit_def text_files_def)
    have "walks (plain_sides old new) ?a ?b rows 0 0 = walks S ?a ?b rows 0 0"
      by (rule walks_cong) (simp_all add: 2(1,2) plain_sides_def)
    then have "walks (plain_sides old new) ?a ?b rows 0 0" using build_rows_walks [OF fit lib 2(3)] by simp
    then show ?thesis using build_rows_counts [OF fit lib 2(3)] 2(4,5) by (simp add: r_def)
  qed
qed

text \<open>A diff that replaces everything, for the witnesses.\<close>

definition replace_all_libs :: render_libs where
  "replace_all_libs =
     \<lparr>rl_diff = (\<lambda>a b. if a = b then [] else [\<lparr>hb_start = 0, hb_end = length a, ha_start = 0, ha_end = length b\<rparr>]),
      rl_highlight = (\<lambda>_ lines. replicate (length lines) []), rl_token_diff = (\<lambda>a b. if a = b then [] else [\<lparr>hb_start = 0, hb_end = length a, ha_start = 0, ha_end = length b\<rparr>]),
      rl_alphanumeric = (\<lambda>_. False)\<rparr>"

lemma replace_all_scripts: "script a b (rl_diff replace_all_libs a b) 0 0"
  by (simp add: replace_all_libs_def same_run_def)

theorem render_rows_account_witness:
  "let r = render_file replace_all_libs (Some ''a'') (Some ''b'') None render_opts_default
   in ct_additions (rd_content r) = of_nat (added_rows (rd_rows r)) \<and> added_rows (rd_rows r) = 1"
proof -
  let ?r = "render_file replace_all_libs (Some ''a'') (Some ''b'') None render_opts_default"
  have "length (file_lines (Some ''a'')) = 1 \<and> length (file_lines (Some ''b'')) = 1" by code_simp
  then have files: "text_files (Some ''a'') (Some ''b'')" by (simp add: text_files_def is_binary_def)
  have rows: "added_rows (rd_rows ?r) = 1" by code_simp
  have "rd_rows ?r \<noteq> [Row_WhitespaceOnly]" using rows by (auto simp: added_rows_def)
  then show ?thesis
    using render_rows_account [of replace_all_libs, OF replace_all_scripts files, where opts = render_opts_default and lang = None] rows
    by (simp add: Let_def)
qed

text \<open>
  C40: A render's gap table is never lost to its own check: the rows of the expanders ascend with their
  gaps, so the table in the header lists exactly the expanders of the rows, and the nearest gap at or
  above a row is that of the last expander not below it, and the nearest at or below that of the first
  expander not above it.
\<close>

theorem render_gap_table:
  fixes opts :: render_opts and lang :: "string option"
  assumes files: "text_files old new"
    and small: "length (rl_diff L (render_keys opts old) (render_keys opts new)) < 2 ^ 32"
      "length (rd_rows (render_file L old new lang opts)) < 2 ^ 32"
  defines "rows \<equiv> rd_rows (render_file L old new lang opts)"
  defines "t \<equiv> ct_gaps (rd_content (render_file L old new lang opts))"
  shows "gap_table_try_from (gap_table_as_slice t) = Inr t
    \<and> (\<forall>x. x \<in> set (gap_table_as_slice t) \<longleftrightarrow>
        (\<exists>k<length rows. (\<exists>n d. rows ! k = Row_Expander n d (gr_gap x)) \<and> gr_row x = of_nat k))
    \<and> (\<forall>row g. gap_table_nearest t row True = Some g \<longleftrightarrow>
        (\<exists>x\<in>set (gap_table_as_slice t). gr_gap x = g \<and> gr_row x \<le> row
           \<and> (\<forall>y\<in>set (gap_table_as_slice t). gr_row y \<le> row \<longrightarrow> y = x \<or> gr_row y < gr_row x)))
    \<and> (\<forall>row g. gap_table_nearest t row False = Some g \<longleftrightarrow>
        (\<exists>x\<in>set (gap_table_as_slice t). gr_gap x = g \<and> gr_row x \<ge> row
           \<and> (\<forall>y\<in>set (gap_table_as_slice t). gr_row y \<ge> row \<longrightarrow> y = x \<or> gr_row x < gr_row y)))"
proof -
  have gaps: "t = GapTable (gap_rows 0 rows) \<and> sorted_wrt (<) (gap_numbers rows)"
    using files
  proof (cases rule: render_file_text [where L = L and lang = lang and opts = opts])
    case 1
    then show ?thesis by (simp add: t_def rows_def gap_rows_def gap_numbers_def map_filter_simps)
  next
    case (2 S rows' additions deletions highlighted)
    then show ?thesis using build_rows_gaps [OF 2(3) small(1)] gaps_of_total [of rows'] small(2)
      by (simp add: t_def rows_def)
  qed
  have len: "0 + length rows < 2 ^ 32" using small(2) by (simp add: rows_def)
  from gap_rows_sorted [OF len] gaps
  have sorted: "sorted_wrt (\<lambda>x y. gap_get (gr_gap x) < gap_get (gr_gap y) \<and> gr_row x < gr_row y) (gap_rows 0 rows)" by blast
  then have by_row: "sorted_wrt (\<lambda>x y. gr_row x < gr_row y) (gap_rows 0 rows)"
    by (rule sorted_wrt_mono_rel [rotated]) simp
  then have rev_row: "sorted_wrt (\<lambda>x y. gr_row y < gr_row x) (rev (gap_rows 0 rows))"
    by (simp add: sorted_wrt_rev)
  have "gap_table_try_from (gap_table_as_slice t) = Inr t"
    using gap_table_check_sorted [OF sorted] gaps by (simp add: gap_table_try_from_def)
  moreover have "x \<in> set (gap_table_as_slice t) \<longleftrightarrow>
        (\<exists>k<length rows. (\<exists>n d. rows ! k = Row_Expander n d (gr_gap x)) \<and> gr_row x = of_nat k)" for x
  proof -
    have "x = \<lparr>gr_gap = gr_gap x, gr_row = to_u32 (0 + k)\<rparr> \<longleftrightarrow> gr_row x = of_nat k" if "k < length rows" for k
      using that len by (cases x) (auto simp: to_u32_def)
    then show ?thesis using gaps by (simp add: in_gap_rows) blast
  qed
  moreover have "gap_table_nearest t row True = Some g \<longleftrightarrow>
        (\<exists>x\<in>set (gap_table_as_slice t). gr_gap x = g \<and> gr_row x \<le> row
           \<and> (\<forall>y\<in>set (gap_table_as_slice t). gr_row y \<le> row \<longrightarrow> y = x \<or> gr_row y < gr_row x))" for row g
    using gaps find_sorted [OF rev_row] by (auto simp: gap_table_nearest_def)
  moreover have "gap_table_nearest t row False = Some g \<longleftrightarrow>
        (\<exists>x\<in>set (gap_table_as_slice t). gr_gap x = g \<and> gr_row x \<ge> row
           \<and> (\<forall>y\<in>set (gap_table_as_slice t). gr_row y \<ge> row \<longrightarrow> y = x \<or> gr_row x < gr_row y))" for row g
    using gaps find_sorted [OF by_row] by (auto simp: gap_table_nearest_def)
  ultimately show ?thesis by blast
qed

theorem render_gap_table_witness:
  "gap_table_try_from (gap_table_as_slice (ct_gaps (rd_content
      (render_file replace_all_libs (Some ''a'') (Some ''a'') None render_opts_default))))
   = Inr (ct_gaps (rd_content (render_file replace_all_libs (Some ''a'') (Some ''a'') None render_opts_default)))"
proof -
  have "length (file_lines (Some ''a'')) = 1" by code_simp
  then have files: "text_files (Some ''a'') (Some ''a'')" by (simp add: text_files_def is_binary_def)
  have "length (rd_rows (render_file replace_all_libs (Some ''a'') (Some ''a'') None render_opts_default)) = 1" by code_simp
  then show ?thesis
    using render_gap_table [OF files, where L = replace_all_libs and opts = render_opts_default and lang = None]
    by (simp add: replace_all_libs_def)
qed

text \<open>Asking for a chunk by its index.\<close>

lemma rendered_chunk_at:
  assumes "length (rd_rows r) \<le> CHUNK_ROWS * (2 ^ 32 - 1)"
  shows "rendered_chunk r (ChunkIndex i) =
    (if i < chunk_count (length (rd_rows r)) then Some (rendered_chunks r ! unat i) else None)"
proof -
  let ?n = "length (rd_rows r)"
  let ?m = "unat (chunk_count ?n)"
  have m: "?m = max ((?n + CHUNK_ROWS - 1) div CHUNK_ROWS) 1" by (rule chunk_count_bound [OF assms])
  have c: "0 < CHUNK_ROWS" by (simp add: CHUNK_ROWS_def)
  have "unat i < ?m \<longleftrightarrow> unat i * CHUNK_ROWS < ?n \<or> ?n = 0 \<and> unat i = 0"
    unfolding m less_max_iff_disj less_ceil [OF c] using c by auto
  then show ?thesis
    by (cases "unat i < ?m") (auto simp: rendered_chunk_def rendered_chunks_def Let_def word_less_nat_alt unat_eq_0 add.commute)
qed

text \<open>
  Chunking loses nothing: the chunks of a render, in order, are its rows, and asking for a chunk by
  its index gives that chunk below the chunk count and nothing from there on.
\<close>

lemma chunks_cover:
  assumes "length (rd_rows r) \<le> CHUNK_ROWS * (2 ^ 32 - 1)"
  shows "concat (map rc_rows (rendered_chunks r)) = rd_rows r
    \<and> length (rendered_chunks r) = unat (chunk_count (length (rd_rows r)))
    \<and> (\<forall>i. rendered_chunk r (ChunkIndex i) =
          (if i < chunk_count (length (rd_rows r)) then Some (rendered_chunks r ! unat i) else None))"
proof -
  let ?n = "length (rd_rows r)"
  let ?m = "unat (chunk_count ?n)"
  have m: "?m = max ((?n + CHUNK_ROWS - 1) div CHUNK_ROWS) 1" by (rule chunk_count_bound [OF assms])
  have c: "0 < CHUNK_ROWS" by (simp add: CHUNK_ROWS_def)
  have below: "i < ?m \<longleftrightarrow> i * CHUNK_ROWS < ?n \<or> ?n = 0 \<and> i = 0" for i
    unfolding m less_max_iff_disj less_ceil [OF c] using c by auto
  have le: "?n \<le> ?m * CHUNK_ROWS" using below [of ?m] by linarith
  have "concat (map rc_rows (rendered_chunks r)) = rd_rows r"
    using concat_chunks [of CHUNK_ROWS "rd_rows r" ?m] le by (simp add: rendered_chunks_def comp_def CHUNK_ROWS_def)
  then show ?thesis using rendered_chunk_at [OF assms] by (simp add: rendered_chunks_def)
qed

end
