(* ===== verification/Nits_Store.thy ===== *)
theory Nits_Store
  imports Nits_Targets
begin

text \<open>
  The event store of \<open>crates/nits-review-core/src/store\<close>: an append-only log and the view
  tables derived from it. The tables of \<open>tables.rs\<close> are ordered tables; a key that the source
  spells as the canonical text of a ULID is the ULID. A value is the decoded row (encoding
  and decoding by serde are the identity here), a transaction is atomic, and reads and writes
  of the database itself do not fail. An error carries the reason as a value rather than as
  formatted text.
\<close>

section \<open>Errors\<close>

datatype inconsistency =
    UnknownWorkspace workspace_id
  | UnknownReview review_id
  | ReviewHasNoRepo repo_id
  | ReplyToUnknownThread comment_id thread_id
  | UnknownComment comment_id review_id
  | UnknownThread thread_id review_id
  | UnknownSuggestion comment_id

datatype replay_reason =
    ReplayEndBeyondHead seq seq
  | ReplayEventTooLarge seq

datatype json_error =
    Json_NotAString
  | Json_BadId parse_id_error

datatype corruption =
    Undecodable
  | ThreadHasNoRoot thread_id comment_id
  | ThreadHasNoComment thread_id comment_id
  | EmptyConversation
  | QueryCountExceedsU32
  | ReviewHasNoWorkspace review_id workspace_id
  | NoCommittedActivity review_id
  | TooManyOpenFindings review_id

datatype 'e migration_error =
    Migration_Missing u32 u32
  | Migration_Failed u32 u32 'e

datatype store_error =
    SchemaTooNew u32 u32
  | Migration "store_error migration_error"
  | Corrupt seq corruption
  | Inconsistent seq inconsistency
  | Replay replay_reason
  | Json json_error

section \<open>Tables\<close>

datatype review_lifecycle =
    Lifecycle_Live
  | Lifecycle_Deleted seq

record review_record =
  rec_review :: review
  rec_resolved :: "resolved_target nonempty option"
  rec_lifecycle :: review_lifecycle

record views =
  v_workspaces :: "(ulid, workspace) table"
  v_reviews :: "(ulid, review_record) table"
  v_comments :: "(ulid \<times> ulid, comment) table"
  v_suggestions :: "(ulid \<times> ulid, suggestion_record) table"
  v_threads :: "(ulid \<times> ulid, thread) table"
  v_requests :: "(ulid \<times> u64, review_request) table"
  v_checkpoints :: "(ulid \<times> u64, review_checkpoint) table"
  v_viewed :: "(ulid \<times> ulid \<times> string, viewed_mark) table"
  v_anchors :: "(ulid \<times> string \<times> ulid, review_id) table"

definition views_empty :: views where
  "views_empty =
     \<lparr>v_workspaces = tbl_empty, v_reviews = tbl_empty, v_comments = tbl_empty,
      v_suggestions = tbl_empty, v_threads = tbl_empty, v_requests = tbl_empty,
      v_checkpoints = tbl_empty, v_viewed = tbl_empty, v_anchors = tbl_empty\<rparr>"

record new_event =
  ne_ts :: timestamp
  ne_author :: author
  ne_client_id :: client_id
  ne_client_seq :: client_seq
  ne_body :: event_body

record stored_event =
  se_schema :: u32
  se_event :: event

record store =
  st_schema :: "u64 option"
  st_view_seq :: "seq option"
  st_events :: "(u64, stored_event) table"
  st_views :: views

definition schema_CURRENT :: u32 where
  "schema_CURRENT = 11"

section \<open>Rows\<close>

definition load_workspace :: "seq \<Rightarrow> workspace_id \<Rightarrow> views \<Rightarrow> (store_error, workspace) result" where
  "load_workspace seq the_id t =
     ok_or (Inconsistent seq (UnknownWorkspace the_id)) (tbl_get (v_workspaces t) (workspace_key the_id))"

definition put_workspace :: "workspace_id \<Rightarrow> workspace \<Rightarrow> views \<Rightarrow> views" where
  "put_workspace the_id ws t = t\<lparr>v_workspaces := tbl_insert (workspace_key the_id) ws (v_workspaces t)\<rparr>"

definition load_review :: "seq \<Rightarrow> review_id \<Rightarrow> views \<Rightarrow> (store_error, review_record) result" where
  "load_review seq the_id t =
     ok_or (Inconsistent seq (UnknownReview the_id)) (tbl_get (v_reviews t) (review_key the_id))"

definition save_review :: "review_record \<Rightarrow> views \<Rightarrow> views" where
  "save_review rec t =
     t\<lparr>v_reviews := tbl_insert (review_key (rv_id (rec_review rec))) rec (v_reviews t)\<rparr>"

definition load_comment :: "seq \<Rightarrow> review_id \<Rightarrow> comment_id \<Rightarrow> views \<Rightarrow> (store_error, comment) result" where
  "load_comment seq review the_id t =
     ok_or (Inconsistent seq (UnknownComment the_id review))
       (tbl_get (v_comments t) (review_key review, comment_key the_id))"

definition save_comment :: "comment \<Rightarrow> views \<Rightarrow> views" where
  "save_comment c t =
     t\<lparr>v_comments := tbl_insert (review_key (cm_review_id c), comment_key (cm_id c)) c (v_comments t)\<rparr>"

definition load_thread :: "seq \<Rightarrow> review_id \<Rightarrow> thread_id \<Rightarrow> views \<Rightarrow> (store_error, thread) result" where
  "load_thread seq review the_id t =
     ok_or (Inconsistent seq (UnknownThread the_id review))
       (tbl_get (v_threads t) (review_key review, thread_key the_id))"

definition save_thread :: "thread \<Rightarrow> views \<Rightarrow> views" where
  "save_thread th t =
     t\<lparr>v_threads := tbl_insert (review_key (th_review_id th), thread_key (th_id th)) th (v_threads t)\<rparr>"

definition anchor_key :: "repo_id \<Rightarrow> blob_oid \<Rightarrow> comment_id \<Rightarrow> ulid \<times> string \<times> ulid" where
  "anchor_key repo blob c = (repo_key repo, oid_display (blob_oid_oid blob), comment_key c)"

definition index_anchor :: "review_id \<Rightarrow> comment \<Rightarrow> views \<Rightarrow> views" where
  "index_anchor review c t =
     (case cm_anchor c of
        Anchor_Review \<Rightarrow> t
      | Anchor_File repo _ blob \<Rightarrow>
          t\<lparr>v_anchors := tbl_insert (anchor_key repo blob (cm_id c)) review (v_anchors t)\<rparr>
      | Anchor_Lines repo _ _ blob _ _ \<Rightarrow>
          t\<lparr>v_anchors := tbl_insert (anchor_key repo blob (cm_id c)) review (v_anchors t)\<rparr>)"

definition unindex_anchor :: "comment \<Rightarrow> views \<Rightarrow> views" where
  "unindex_anchor c t =
     (case cm_anchor c of
        Anchor_Review \<Rightarrow> t
      | Anchor_File repo _ blob \<Rightarrow>
          t\<lparr>v_anchors := tbl_remove (anchor_key repo blob (cm_id c)) (v_anchors t)\<rparr>
      | Anchor_Lines repo _ _ blob _ _ \<Rightarrow>
          t\<lparr>v_anchors := tbl_remove (anchor_key repo blob (cm_id c)) (v_anchors t)\<rparr>)"

section \<open>Applying an event to the views\<close>

text \<open>\<open>iter_mut().find(..)\<close> with assignment: the first target of the repository is replaced.\<close>

fun replace_target :: "review_target \<Rightarrow> review_target list \<Rightarrow> review_target list option" where
  "replace_target target [] = None"
| "replace_target target (t # ts) =
     (if rt_repo_id t = rt_repo_id target then Some (target # ts)
      else map_option (\<lambda>us. t # us) (replace_target target ts))"

definition target_updated :: "seq \<Rightarrow> review_target \<Rightarrow> review_record \<Rightarrow> (store_error, review_record) result" where
  "target_updated seq target rec =
     bindR (ok_or (Inconsistent seq (ReviewHasNoRepo (rt_repo_id target)))
              (replace_target target (ne_items (rv_targets (rec_review rec)))))
       (\<lambda>ts. Inr (rec\<lparr>rec_review := (rec_review rec)\<lparr>rv_targets := NonEmpty ts\<rparr>\<rparr>))"

definition thread_with_comment :: "seq \<Rightarrow> comment \<Rightarrow> views \<Rightarrow> (store_error, thread) result" where
  "thread_with_comment seq c t =
     (case tbl_get (v_threads t) (review_key (cm_review_id c), thread_key (cm_thread_id c)) of
        Some th \<Rightarrow> Inr (th\<lparr>th_replies := th_replies th @ [cm_id c]\<rparr>)
      | None \<Rightarrow>
          if thread_key (cm_thread_id c) \<noteq> comment_key (cm_id c)
          then Inl (Inconsistent seq (ReplyToUnknownThread (cm_id c) (cm_thread_id c)))
          else Inr \<lparr>th_id = cm_thread_id c, th_review_id = cm_review_id c, th_root = cm_id c,
                    th_replies = [], th_resolution = resolution_for_root (cm_kind c)\<rparr>)"

definition put_thread :: "ulid \<times> ulid \<Rightarrow> thread \<Rightarrow> views \<Rightarrow> views" where
  "put_thread key th t = t\<lparr>v_threads := tbl_insert key th (v_threads t)\<rparr>"

definition put_suggestion_of :: "comment \<Rightarrow> views \<Rightarrow> views" where
  "put_suggestion_of c t =
     (case suggestion_from_created c of
        None \<Rightarrow> t
      | Some s \<Rightarrow>
          t\<lparr>v_suggestions :=
              tbl_insert (review_key (cm_review_id c), comment_key (cm_id c)) s (v_suggestions t)\<rparr>)"

definition comment_created :: "seq \<Rightarrow> comment \<Rightarrow> views \<Rightarrow> (store_error, views) result" where
  "comment_created seq c t =
     bindR (load_review seq (cm_review_id c) t) (\<lambda>_.
     bindR (thread_with_comment seq c t) (\<lambda>th.
       Inr (index_anchor (cm_review_id c) c
             (put_suggestion_of c
               (save_comment c
                 (put_thread (review_key (cm_review_id c), thread_key (cm_thread_id c)) th t))))))"

definition comment_reanchored :: "anchor \<Rightarrow> comment_state \<Rightarrow> review_id \<Rightarrow> comment \<Rightarrow> views \<Rightarrow> views" where
  "comment_reanchored anchor state review_id c t =
     (let c' = c\<lparr>cm_anchor := anchor, cm_state := state\<rparr>;
          t' = save_comment c' (unindex_anchor c t)
      in if state = State_Deleted then t' else index_anchor review_id c' t')"

definition suggestion_applied :: "event \<Rightarrow> repo_id \<Rightarrow> repo_path \<Rightarrow> blob_oid \<Rightarrow> suggestion_record
    \<Rightarrow> suggestion_record" where
  "suggestion_applied e repo_id path result_blob s =
     s\<lparr>sg_outcome := Outcome_Applied
        \<lparr>sr_seq = ev_seq e, sr_at = ev_ts e, sr_author = ev_author e, sr_repo_id = repo_id,
         sr_path = path, sr_result_blob = result_blob\<rparr>\<rparr>"

definition set_resolution :: "thread_resolution \<Rightarrow> thread \<Rightarrow> views \<Rightarrow> (store_error, views) result" where
  "set_resolution resolution th t = Inr (save_thread (th\<lparr>th_resolution := resolution\<rparr>) t)"

fun apply_body :: "event \<Rightarrow> event_body \<Rightarrow> views \<Rightarrow> (store_error, views) result" where
  "apply_body e (WorkspaceCreated workspace) t =
     Inr (put_workspace (ws_id workspace) workspace t)"
| "apply_body e (WorkspaceUpdated workspace_id name) t =
     bindR (load_workspace (ev_seq e) workspace_id t) (\<lambda>ws.
       Inr (put_workspace workspace_id (ws\<lparr>ws_name := name\<rparr>) t))"
| "apply_body e (RepoAttached workspace_id repo) t =
     bindR (load_workspace (ev_seq e) workspace_id t) (\<lambda>ws.
       Inr (put_workspace workspace_id
              (ws\<lparr>ws_repos := filter (\<lambda>r. rp_id r \<noteq> rp_id repo) (ws_repos ws) @ [repo]\<rparr>) t))"
| "apply_body e (RepoDetached workspace_id repo_id) t =
     bindR (load_workspace (ev_seq e) workspace_id t) (\<lambda>ws.
       Inr (put_workspace workspace_id
              (ws\<lparr>ws_repos := filter (\<lambda>r. rp_id r \<noteq> repo_id) (ws_repos ws)\<rparr>) t))"
| "apply_body e (ReviewCreated review) t =
     Inr (save_review
            \<lparr>rec_review = review, rec_resolved = None, rec_lifecycle = Lifecycle_Live\<rparr> t)"
| "apply_body e (ReviewUpdated review_id title status) t =
     bindR (load_review (ev_seq e) review_id t) (\<lambda>rec.
       Inr (save_review
              (rec\<lparr>rec_review := (rec_review rec)\<lparr>rv_title := title, rv_status := status\<rparr>\<rparr>) t))"
| "apply_body e (ReviewTargetUpdated review_id target) t =
     bindR (load_review (ev_seq e) review_id t) (\<lambda>rec.
     bindR (target_updated (ev_seq e) target rec) (\<lambda>rec'.
       Inr (save_review rec' t)))"
| "apply_body e (ReviewDeleted review_id) t =
     bindR (load_review (ev_seq e) review_id t) (\<lambda>rec.
       Inr (save_review (rec\<lparr>rec_lifecycle := Lifecycle_Deleted (ev_seq e)\<rparr>) t))"
| "apply_body e (ReviewTargetsResolved review_id targets) t =
     bindR (load_review (ev_seq e) review_id t) (\<lambda>rec.
       Inr (save_review (rec\<lparr>rec_resolved := Some targets\<rparr>) t))"
| "apply_body e (CommentCreated comment) t = comment_created (ev_seq e) comment t"
| "apply_body e (CommentEdited review_id comment_id body) t =
     bindR (load_comment (ev_seq e) review_id comment_id t) (\<lambda>c.
       Inr (save_comment (c\<lparr>cm_body := body, cm_edited := Some (ev_ts e)\<rparr>) t))"
| "apply_body e (CommentDeleted review_id comment_id) t =
     bindR (load_comment (ev_seq e) review_id comment_id t) (\<lambda>c.
       Inr (save_comment (c\<lparr>cm_state := State_Deleted\<rparr>) (unindex_anchor c t)))"
| "apply_body e (CommentReanchored review_id comment_id anchor state) t =
     bindR (load_comment (ev_seq e) review_id comment_id t) (\<lambda>c.
       Inr (comment_reanchored anchor state review_id c t))"
| "apply_body e (ThreadDeferred review_id thread_id reason tracking_url) t =
     bindR (load_thread (ev_seq e) review_id thread_id t) (\<lambda>th.
       set_resolution (Resolution_Deferred reason tracking_url (ev_author e) (ev_ts e)) th t)"
| "apply_body e (ThreadResolved review_id thread_id) t =
     bindR (load_thread (ev_seq e) review_id thread_id t) (\<lambda>th.
       set_resolution (Resolution_Resolved (ev_author e) (ev_ts e)) th t)"
| "apply_body e (ThreadUnresolved review_id thread_id) t =
     bindR (load_thread (ev_seq e) review_id thread_id t) (\<lambda>th.
       set_resolution Resolution_Open th t)"
| "apply_body e (FileViewed review_id repo_id path viewer content) t =
     bindR (load_review (ev_seq e) review_id t) (\<lambda>_.
       Inr (t\<lparr>v_viewed :=
                tbl_insert (review_key review_id, repo_key repo_id, path_str path)
                  \<lparr>vm_review_id = review_id, vm_repo_id = repo_id, vm_path = path,
                   vm_viewer = viewer, vm_content = content\<rparr> (v_viewed t)\<rparr>))"
| "apply_body e (FileUnviewed review_id repo_id path viewer) t =
     Inr (t\<lparr>v_viewed :=
              tbl_remove (review_key review_id, repo_key repo_id, path_str path) (v_viewed t)\<rparr>)"
| "apply_body e (ReviewRequested review_id agent note targets comparison) t =
     (case request_from_event e of
        None \<Rightarrow> Inr t
      | Some request \<Rightarrow>
          Inr (t\<lparr>v_requests :=
                   tbl_insert (review_key (rq_review_id request), request_event_seq (rq_id request))
                     request (v_requests t)\<rparr>))"
| "apply_body e (ReviewChecked review_id reviewer targets in_reply_to) t =
     (case checkpoint_from_event e of
        None \<Rightarrow> Inr t
      | Some cp \<Rightarrow>
          Inr (t\<lparr>v_checkpoints :=
                   tbl_insert (review_key (cp_review_id cp), checkpoint_event_seq (cp_id cp))
                     cp (v_checkpoints t)\<rparr>))"
| "apply_body e (SuggestionApplied review_id comment_id repo_id path result_blob) t =
     bindR (ok_or (Inconsistent (ev_seq e) (UnknownSuggestion comment_id))
              (tbl_get (v_suggestions t) (review_key review_id, comment_key comment_id))) (\<lambda>s.
       Inr (t\<lparr>v_suggestions :=
                tbl_insert (review_key review_id, comment_key comment_id)
                  (suggestion_applied e repo_id path result_blob s) (v_suggestions t)\<rparr>))"

definition apply_event :: "event \<Rightarrow> views \<Rightarrow> (store_error, views) result" where
  "apply_event e t = apply_body e (ev_body e) t"

section \<open>The log\<close>

definition store_empty :: store where
  "store_empty =
     \<lparr>st_schema = None, st_view_seq = None, st_events = tbl_empty, st_views = views_empty\<rparr>"

text \<open>\<open>tables::ensure\<close>: stamp an unstamped store, current when its log is empty.\<close>

definition tables_ensure :: "store \<Rightarrow> u32 \<times> store" where
  "tables_ensure s =
     (let v = (case st_schema s of
                 Some v \<Rightarrow> v
               | None \<Rightarrow> if tbl_entries (st_events s) = [] then ucast schema_CURRENT else 0)
      in (ucast v, s\<lparr>st_schema := Some v\<rparr>))"

definition last_seq :: "store \<Rightarrow> seq option" where
  "last_seq s = map_option fst (tbl_last (st_events s))"

definition next_seq :: "store \<Rightarrow> seq" where
  "next_seq s = (case last_seq s of None \<Rightarrow> seq_FIRST | Some q \<Rightarrow> seq_next q)"

definition put_event :: "stored_event \<Rightarrow> store \<Rightarrow> store" where
  "put_event stored s =
     s\<lparr>st_events := tbl_insert (ev_seq (se_event stored)) stored (st_events s)\<rparr>"

definition event_at :: "seq \<Rightarrow> new_event \<Rightarrow> event" where
  "event_at seq new =
     \<lparr>ev_seq = seq, ev_ts = ne_ts new, ev_author = ne_author new, ev_client_id = ne_client_id new,
      ev_client_seq = ne_client_seq new, ev_body = ne_body new\<rparr>"

definition append_event :: "new_event \<Rightarrow> store \<Rightarrow> (store_error, event \<times> store) result" where
  "append_event new s =
     (let event = event_at (next_seq s) new
      in bindR (apply_event event (st_views s)) (\<lambda>t.
           Inr (event,
             (put_event \<lparr>se_schema = schema_CURRENT, se_event = event\<rparr> s)
               \<lparr>st_views := t, st_view_seq := Some (ev_seq event)\<rparr>)))"

definition events_after :: "seq option \<Rightarrow> store \<Rightarrow> event list" where
  "events_after after s =
     map (\<lambda>e. se_event (snd e))
       (tbl_range (\<lambda>k. case after of None \<Rightarrow> True | Some q \<Rightarrow> q < k) (st_events s))"

definition all_events :: "store \<Rightarrow> (seq \<times> stored_event) list" where
  "all_events s = tbl_entries (st_events s)"

definition rebuild_views :: "store \<Rightarrow> (store_error, store) result" where
  "rebuild_views s =
     bindR (foldR (\<lambda>(seq, stored) (t, last).
              bindR (apply_event (se_event stored) t) (\<lambda>t'. Inr (t', Some seq)))
              (all_events s) (views_empty, None))
       (\<lambda>(t, last). Inr (s\<lparr>st_views := t, st_view_seq := last\<rparr>))"

definition schema_version :: "store \<Rightarrow> u32" where
  "schema_version s = (case st_schema s of None \<Rightarrow> 0 | Some v \<Rightarrow> ucast v)"

definition store_len :: "store \<Rightarrow> nat" where
  "store_len s = length (tbl_entries (st_events s))"

definition store_is_empty :: "store \<Rightarrow> bool" where
  "store_is_empty s \<longleftrightarrow> store_len s = 0"

section \<open>Queries over the views\<close>

definition store_workspaces :: "store \<Rightarrow> workspace list" where
  "store_workspaces s = tbl_values (v_workspaces (st_views s))"

definition store_workspace :: "store \<Rightarrow> workspace_id \<Rightarrow> workspace option" where
  "store_workspace s the_id = tbl_get (v_workspaces (st_views s)) (workspace_key the_id)"

definition is_live :: "review_record \<Rightarrow> bool" where
  "is_live rec \<longleftrightarrow> (case rec_lifecycle rec of Lifecycle_Live \<Rightarrow> True | Lifecycle_Deleted _ \<Rightarrow> False)"

definition store_reviews :: "store \<Rightarrow> workspace_id \<Rightarrow> review_record list" where
  "store_reviews s workspace =
     filter (\<lambda>rec. rv_workspace_id (rec_review rec) = workspace \<and> is_live rec)
       (tbl_values (v_reviews (st_views s)))"

definition store_review :: "store \<Rightarrow> review_id \<Rightarrow> review_record option" where
  "store_review s the_id = tbl_get (v_reviews (st_views s)) (review_key the_id)"

text \<open>The range of a composite key with the review's key as its first part.\<close>

definition rows_of :: "review_id \<Rightarrow> (ulid \<times> 'k::linorder, 'v) table \<Rightarrow> 'v list" where
  "rows_of review t = map snd (tbl_range (\<lambda>k. fst k = review_key review) t)"

definition store_comments :: "store \<Rightarrow> review_id \<Rightarrow> comment list" where
  "store_comments s review = rows_of review (v_comments (st_views s))"

definition store_suggestion :: "store \<Rightarrow> review_id \<Rightarrow> comment_id \<Rightarrow> suggestion_record option" where
  "store_suggestion s review c =
     tbl_get (v_suggestions (st_views s)) (review_key review, comment_key c)"

definition store_comment :: "store \<Rightarrow> review_id \<Rightarrow> comment_id \<Rightarrow> comment option" where
  "store_comment s review the_id = tbl_get (v_comments (st_views s)) (review_key review, comment_key the_id)"

definition store_threads :: "store \<Rightarrow> review_id \<Rightarrow> thread list" where
  "store_threads s review = rows_of review (v_threads (st_views s))"

definition store_viewed :: "store \<Rightarrow> review_id \<Rightarrow> viewed_mark list" where
  "store_viewed s review = rows_of review (v_viewed (st_views s))"

definition comments_on_blob :: "store \<Rightarrow> repo_id \<Rightarrow> blob_oid \<Rightarrow> (review_id \<times> comment_id) list" where
  "comments_on_blob s repo blob =
     map (\<lambda>(k, review). (review, CommentId (snd (snd k))))
       (tbl_range (\<lambda>k. fst k = repo_key repo \<and> fst (snd k) = oid_display (blob_oid_oid blob))
          (v_anchors (st_views s)))"

record review_snapshot =
  sn_review :: review
  sn_resolved :: "resolved_target nonempty option"
  sn_threads :: "thread list"
  sn_comments :: "comment list"
  sn_suggestions :: "suggestion_record list"
  sn_viewed :: "viewed_mark list"
  sn_requests :: "review_request list"
  sn_checkpoints :: "review_checkpoint list"
  sn_seq :: seq

definition snapshot_in_transaction :: "store \<Rightarrow> review_id \<Rightarrow> review_snapshot option" where
  "snapshot_in_transaction s the_id =
     (let t = st_views s in
      case tbl_get (v_reviews t) (review_key the_id) of
        None \<Rightarrow> None
      | Some rec \<Rightarrow>
          (case rec_lifecycle rec of
             Lifecycle_Deleted _ \<Rightarrow> None
           | Lifecycle_Live \<Rightarrow>
               Some \<lparr>sn_review = rec_review rec, sn_resolved = rec_resolved rec,
                     sn_threads = rows_of the_id (v_threads t),
                     sn_comments = rows_of the_id (v_comments t),
                     sn_suggestions = rows_of the_id (v_suggestions t),
                     sn_viewed = rows_of the_id (v_viewed t),
                     sn_requests = rows_of the_id (v_requests t),
                     sn_checkpoints = rows_of the_id (v_checkpoints t),
                     sn_seq = (case st_view_seq s of None \<Rightarrow> 0 | Some q \<Rightarrow> q)\<rparr>))"

definition store_review_snapshot :: "store \<Rightarrow> review_id \<Rightarrow> review_snapshot option" where
  "store_review_snapshot s the_id = snapshot_in_transaction s the_id"

end
