(* ===== verification/Nits_Store_Log.thy ===== *)
theory Nits_Store_Log
  imports Nits_Store
begin

text \<open>
  The log as the only source of truth: the stores that opening, appending and rebuilding can
  reach, the invariant that relates a log to its views, and what follows of the sequence
  numbers, of \<open>events_after\<close> and of \<open>rebuild_views\<close>. Invariants of the views are stated once
  as a locale over guarded appends and carried to every reachable store.
\<close>

section \<open>Reachable stores\<close>

text \<open>
  Appends are guarded by what the caller has validated against the current views; the guard
  \<open>\<lambda>_ _. True\<close> admits every append the store itself accepts.
\<close>

inductive reachable_by :: "(views \<Rightarrow> event \<Rightarrow> bool) \<Rightarrow> store \<Rightarrow> bool"
  for guard where
  fresh: "reachable_by guard (snd (tables_ensure store_empty))"
| appended: "reachable_by guard s \<Longrightarrow> guard (st_views s) (event_at (next_seq s) new) \<Longrightarrow>
    append_event new s = Inr (e, s') \<Longrightarrow> reachable_by guard s'"
| rebuilt: "reachable_by guard s \<Longrightarrow> rebuild_views s = Inr s' \<Longrightarrow> reachable_by guard s'"

abbreviation reachable :: "store \<Rightarrow> bool" where
  "reachable \<equiv> reachable_by (\<lambda>_ _. True)"

lemma reachable_by_mono: "reachable_by g s \<Longrightarrow> (\<And>t e. g t e \<Longrightarrow> h t e) \<Longrightarrow> reachable_by h s"
  by (induction rule: reachable_by.induct) (auto intro: reachable_by.intros)

text \<open>A sequence of guarded appends; \<open>None\<close> when a guard or an append refuses.\<close>

fun append_all :: "(views \<Rightarrow> event \<Rightarrow> bool) \<Rightarrow> new_event list \<Rightarrow> store \<Rightarrow> store option" where
  "append_all guard [] s = Some s"
| "append_all guard (new # news) s =
     (if guard (st_views s) (event_at (next_seq s) new)
      then (case append_event new s of Inl _ \<Rightarrow> None | Inr (_, s') \<Rightarrow> append_all guard news s')
      else None)"

lemma append_all_reachable:
  "append_all guard news s = Some s' \<Longrightarrow> reachable_by guard s \<Longrightarrow> reachable_by guard s'"
  by (induction news arbitrary: s)
    (auto split: if_splits sum.splits prod.splits intro: appended)

definition fresh_store :: store where
  "fresh_store = snd (tables_ensure store_empty)"

lemma reachable_fresh_store: "reachable_by guard fresh_store"
  unfolding fresh_store_def by (rule fresh)

section \<open>A small log\<close>

definition sample_new :: "event_body \<Rightarrow> new_event" where
  "sample_new body =
     \<lparr>ne_ts = 5, ne_author = Author_Human ''ada'' ''m'', ne_client_id = ClientId (Ulid 9 9),
      ne_client_seq = 1, ne_body = body\<rparr>"

definition sample_workspace :: workspace where
  "sample_workspace = \<lparr>ws_id = WorkspaceId (Ulid 1 1), ws_name = ''w'', ws_repos = []\<rparr>"

definition sample_review :: review where
  "sample_review =
     \<lparr>rv_id = ReviewId (Ulid 2 2), rv_workspace_id = WorkspaceId (Ulid 1 1), rv_title = ''t'',
      rv_targets = NonEmpty [\<lparr>rt_repo_id = RepoId (Ulid 3 3), rt_base = RefSpec_Branch ''b'',
        rt_head = RefSpec_WorkingTree\<rparr>],
      rv_created = 5, rv_status = Status_Open\<rparr>"

definition sample_comment :: "ulid \<Rightarrow> ulid \<Rightarrow> comment" where
  "sample_comment thread k =
     \<lparr>cm_id = CommentId k, cm_review_id = ReviewId (Ulid 2 2), cm_thread_id = ThreadId thread,
      cm_author = Author_Human ''ada'' ''m'', cm_kind = Kind_Note,
      cm_anchor = Anchor_File (RepoId (Ulid 3 3)) (RepoPath ''f'') (BlobOid (Oid [7])), cm_body = ''n'',
      cm_created = 5, cm_edited = None, cm_state = State_Live, cm_context = None\<rparr>"

definition sample_log :: "new_event list" where
  "sample_log =
     [sample_new (WorkspaceCreated sample_workspace), sample_new (ReviewCreated sample_review),
      sample_new (CommentCreated (sample_comment (Ulid 4 4) (Ulid 4 4))),
      sample_new (CommentCreated (sample_comment (Ulid 4 4) (Ulid 5 5)))]"

lemma sample_log_appends: "\<exists>s. append_all (\<lambda>_ _. True) sample_log fresh_store = Some s \<and> store_len s = 4"
proof -
  have "map_option store_len (append_all (\<lambda>_ _. True) sample_log fresh_store) = Some 4" by code_simp
  then show ?thesis by simp
qed

section \<open>The log invariant\<close>

definition log_events :: "store \<Rightarrow> event list" where
  "log_events s = map (\<lambda>e. se_event (snd e)) (tbl_entries (st_events s))"

lemma length_log_events: "length (log_events s) = store_len s"
  by (simp add: log_events_def store_len_def)

definition log_inv :: "store \<Rightarrow> bool" where
  "log_inv s \<longleftrightarrow>
     map fst (tbl_entries (st_events s)) = map (\<lambda>i. of_nat (Suc i)) [0..<store_len s]
     \<and> list_all (\<lambda>e. ev_seq (se_event (snd e)) = fst e) (tbl_entries (st_events s))
     \<and> st_view_seq s = last_seq s
     \<and> foldR apply_event (log_events s) views_empty = Inr (st_views s)"

lemma length_ins_list: "length es \<le> length (ins_list k v es)"
  by (induction k v es rule: ins_list.induct) auto

lemma append_Inr_iff:
  "append_event new s = Inr (e, s') \<longleftrightarrow>
     e = event_at (next_seq s) new
     \<and> (\<exists>t. apply_event e (st_views s) = Inr t
          \<and> s' = (put_event \<lparr>se_schema = schema_CURRENT, se_event = e\<rparr> s)
                   \<lparr>st_views := t, st_view_seq := Some (ev_seq e)\<rparr>)"
  by (auto simp: append_event_def Let_def result_simps)

lemma append_store_len: "append_event new s = Inr (e, s') \<Longrightarrow> store_len s \<le> store_len s'"
  by (auto simp: append_Inr_iff put_event_def store_len_def tbl_entries_insert length_ins_list)

lemma last_seq_of_keys:
  assumes "map fst (tbl_entries (st_events s)) = map (\<lambda>i. of_nat (Suc i)) [0..<n]"
  shows "last_seq s = (if n = 0 then None else Some (of_nat n))"
proof (cases n)
  case 0
  then show ?thesis using assms by (simp add: last_seq_def tbl_last_def)
next
  case (Suc m)
  then have ne: "tbl_entries (st_events s) \<noteq> []" using assms by auto
  have "fst (last (tbl_entries (st_events s))) = last (map fst (tbl_entries (st_events s)))"
    by (rule last_map [OF ne, symmetric])
  also have "\<dots> = of_nat n" unfolding assms Suc by simp
  finally show ?thesis using ne Suc by (simp add: last_seq_def tbl_last_def)
qed

lemma next_seq_of_keys:
  assumes "map fst (tbl_entries (st_events s)) = map (\<lambda>i. of_nat (Suc i)) [0..<n]"
  shows "next_seq s = of_nat (Suc n)"
  using last_seq_of_keys [OF assms] by (simp add: next_seq_def seq_FIRST_def seq_next_def)

lemma ev_seq_event_at [simp]: "ev_seq (event_at q new) = q"
  by (simp add: event_at_def)

lemma append_entries:
  assumes inv: "log_inv s" and bound: "Suc (store_len s) < 2 ^ 64"
    and app: "append_event new s = Inr (e, s')"
  shows "tbl_entries (st_events s') =
    tbl_entries (st_events s) @ [(of_nat (Suc (store_len s)), \<lparr>se_schema = schema_CURRENT, se_event = e\<rparr>)]"
proof -
  let ?k = "of_nat (Suc (store_len s)) :: seq"
  have keys: "map fst (tbl_entries (st_events s)) = map (\<lambda>i. of_nat (Suc i)) [0..<store_len s]"
    using inv by (simp add: log_inv_def)
  have "ev_seq e = ?k" using app next_seq_of_keys [OF keys] by (auto simp: append_Inr_iff)
  moreover have "k' < ?k" if "k' \<in> fst ` set (tbl_entries (st_events s))" for k'
  proof -
    have "k' \<in> set (map (\<lambda>i. of_nat (Suc i)) [0..<store_len s])" using that keys by (metis set_map)
    then obtain i where "k' = of_nat (Suc i)" "i < store_len s" by auto
    then show ?thesis using seq_of_nat_less [of "Suc i" "Suc (store_len s)"] bound by simp
  qed
  ultimately show ?thesis
    using app by (auto simp: append_Inr_iff put_event_def tbl_insert_snoc)
qed

lemma log_inv_append:
  assumes inv: "log_inv s" and bound: "Suc (store_len s) < 2 ^ 64"
    and app: "append_event new s = Inr (e, s')"
  shows "log_inv s'"
proof -
  let ?n = "store_len s"
  note entries = append_entries [OF assms]
  have keys: "map fst (tbl_entries (st_events s)) = map (\<lambda>i. of_nat (Suc i)) [0..<?n]"
    and seqs: "list_all (\<lambda>e. ev_seq (se_event (snd e)) = fst e) (tbl_entries (st_events s))"
    and views: "foldR apply_event (log_events s) views_empty = Inr (st_views s)"
    using inv by (simp_all add: log_inv_def)
  have len: "store_len s' = Suc ?n" by (simp add: store_len_def entries)
  have keys': "map fst (tbl_entries (st_events s')) = map (\<lambda>i. of_nat (Suc i)) [0..<Suc ?n]"
    using keys by (simp add: entries)
  have e: "ev_seq e = of_nat (Suc ?n)"
    using app next_seq_of_keys [OF keys] by (auto simp: append_Inr_iff)
  then have "st_view_seq s' = last_seq s'"
    using app last_seq_of_keys [OF keys'] by (auto simp: append_Inr_iff put_event_def)
  moreover have "foldR apply_event (log_events s') views_empty = Inr (st_views s')"
    using views app by (auto simp: log_events_def entries foldR_snoc append_Inr_iff)
  moreover have "list_all (\<lambda>e. ev_seq (se_event (snd e)) = fst e) (tbl_entries (st_events s'))"
    using seqs e by (simp add: entries)
  ultimately show ?thesis using keys' len by (simp add: log_inv_def)
qed

lemma log_inv_fresh: "log_inv (snd (tables_ensure store_empty))"
  by (simp add: log_inv_def tables_ensure_def store_empty_def store_len_def log_events_def
      last_seq_def tbl_last_def Let_def)

section \<open>Rebuilding\<close>

lemma rebuild_fold:
  "foldR (\<lambda>(seq, stored) (t, lst). bindR (apply_event (se_event stored) t) (\<lambda>t'. Inr (t', Some seq)))
     es (t, q)
   = bindR (foldR apply_event (map (\<lambda>e. se_event (snd e)) es) t)
       (\<lambda>t'. Inr (t', if es = [] then q else Some (fst (last es))))"
proof (induction es arbitrary: t q)
  case (Cons e es)
  then show ?case
    by (cases e; cases "apply_event (se_event (snd e)) t") auto
qed simp

lemma rebuild_views_alt:
  "rebuild_views s =
     bindR (foldR apply_event (log_events s) views_empty)
       (\<lambda>t. Inr (s\<lparr>st_views := t, st_view_seq := last_seq s\<rparr>))"
  by (cases "foldR apply_event (log_events s) views_empty")
    (auto simp: rebuild_views_def rebuild_fold all_events_def log_events_def last_seq_def tbl_last_def)

lemma rebuild_views_log_inv: "log_inv s \<Longrightarrow> rebuild_views s = Inr s"
  by (simp add: rebuild_views_alt log_inv_def)

lemma reachable_log_inv: "reachable_by g s \<Longrightarrow> store_len s < 2 ^ 64 - 1 \<Longrightarrow> log_inv s"
proof (induction rule: reachable_by.induct)
  case fresh
  show ?case by (rule log_inv_fresh)
next
  case (appended s new e s')
  then have "store_len s \<le> store_len s'" by (blast intro: append_store_len)
  then have bound: "Suc (store_len s) < 2 ^ 64" and "log_inv s"
    using appended.IH appended.prems by simp_all
  then show ?case using appended.hyps by (blast intro: log_inv_append)
next
  case (rebuilt s s')
  then have "store_len s' = store_len s"
    by (auto simp: rebuild_views_alt result_simps store_len_def)
  then have "log_inv s" using rebuilt by simp
  then show ?case using rebuilt.hyps rebuild_views_log_inv by simp
qed

text \<open>
  C1: Dropping every view table and folding the whole log again gives back exactly the store,
  for every store reached by opening, appending and rebuilding whose log has fewer than
  \<open>2^64 - 1\<close> events (the 64-bit sequence number does not wrap): the incremental views and the
  rebuilt ones never disagree.
\<close>

theorem rebuild_views_identity:
  "reachable s \<Longrightarrow> store_len s < 2 ^ 64 - 1 \<Longrightarrow> rebuild_views s = Inr s"
  by (rule rebuild_views_log_inv) (rule reachable_log_inv)

theorem rebuild_views_identity_witness:
  "\<exists>s. append_all (\<lambda>_ _. True) sample_log fresh_store = Some s \<and> store_len s = 4 \<and> rebuild_views s = Inr s"
proof -
  obtain s where s: "append_all (\<lambda>_ _. True) sample_log fresh_store = Some s" "store_len s = 4"
    using sample_log_appends by blast
  have "reachable s" by (rule append_all_reachable [OF s(1) reachable_fresh_store])
  then show ?thesis using s rebuild_views_identity [of s] by auto
qed

section \<open>Sequence numbers and the events after one\<close>

lemma log_inv_seqs:
  assumes "log_inv s"
  shows "map ev_seq (log_events s) = map (\<lambda>i. of_nat (Suc i)) [0..<store_len s]"
proof -
  have "\<forall>e\<in>set (tbl_entries (st_events s)). ev_seq (se_event (snd e)) = fst e"
    using assms by (simp add: log_inv_def list_all_iff)
  then have "map ev_seq (log_events s) = map fst (tbl_entries (st_events s))"
    by (auto simp: log_events_def)
  then show ?thesis using assms by (simp add: log_inv_def)
qed

lemma drop_as_filter:
  assumes "sorted_wrt (<) (map f xs)" and "\<And>i. i < length xs \<Longrightarrow> c < f (xs ! i) \<longleftrightarrow> k \<le> i"
  shows "filter (\<lambda>x. c < f x) xs = drop k xs"
proof -
  have "filter (\<lambda>x. c < f x) (take k xs) = []"
    using assms(2) by (auto simp: filter_empty_conv in_set_conv_nth)
  moreover have "filter (\<lambda>x. c < f x) (drop k xs) = drop k xs"
    using assms(2) by (auto simp: filter_id_conv in_set_conv_nth)
  ultimately show ?thesis
    by (metis append_Nil append_take_drop_id filter_append)
qed

lemma events_after_drop:
  assumes inv: "log_inv s" and bound: "store_len s < 2 ^ 64" and k: "k \<le> store_len s"
  shows "events_after (Some (of_nat k)) s = drop k (log_events s)"
proof -
  let ?es = "tbl_entries (st_events s)"
  have nth: "fst (?es ! i) = of_nat (Suc i)" if "i < store_len s" for i
  proof -
    have "map fst ?es ! i = map (\<lambda>i. of_nat (Suc i)) [0..<store_len s] ! i"
      using inv by (simp only: log_inv_def)
    then show ?thesis using that by (simp add: store_len_def)
  qed
  have "(of_nat k < (of_nat (Suc i) :: seq)) = (k \<le> i)" if "i < store_len s" for i
  proof -
    have "(of_nat k < (of_nat (Suc i) :: seq)) = (k < Suc i)"
      using that k bound by (simp only: of_nat_word_less_iff) (simp add: take_bit_nat_eq_self)
    then show ?thesis by auto
  qed
  then have "filter (\<lambda>e. (of_nat k :: seq) < fst e) ?es = drop k ?es"
    using nth by (intro drop_as_filter [OF tbl.entries_sorted]) (simp add: store_len_def)
  then show ?thesis
    by (simp add: events_after_def tbl_range_def log_events_def drop_map)
qed

lemma events_after_None: "events_after None s = log_events s"
  by (simp add: events_after_def log_events_def tbl_range_def)

text \<open>
  C26: The log numbers its events 1, 2, 3, \<dots> without a gap, the views are exactly as far as
  the log, and asking for the events after number \<open>k\<close> returns the log without its first \<open>k\<close>
  events, in order.
\<close>

theorem log_is_contiguous:
  assumes "reachable s" "store_len s < 2 ^ 64 - 1" "k \<le> store_len s"
  shows "map ev_seq (events_after None s) = map of_nat [1..<Suc (store_len s)]
    \<and> st_view_seq s = last_seq s
    \<and> events_after (Some (of_nat k)) s = drop k (events_after None s)"
proof -
  have inv: "log_inv s" using assms reachable_log_inv by blast
  have "map ev_seq (events_after None s) = map of_nat [1..<Suc (store_len s)]"
    using log_inv_seqs [OF inv]
    by (simp add: events_after_None map_Suc_upt [symmetric] comp_def del: upt_Suc)
  then show ?thesis
    using inv assms events_after_drop [of s k] by (simp add: events_after_None log_inv_def)
qed

theorem log_is_contiguous_witness:
  "\<exists>s. append_all (\<lambda>_ _. True) sample_log fresh_store = Some s
     \<and> map ev_seq (events_after None s) = [1, 2, 3, 4] \<and> length (events_after (Some 3) s) = 1"
proof -
  obtain s where s: "append_all (\<lambda>_ _. True) sample_log fresh_store = Some s" "store_len s = 4"
    using sample_log_appends by blast
  have r: "reachable s" by (rule append_all_reachable [OF s(1) reachable_fresh_store])
  have seqs: "map ev_seq (events_after None s) = [1, 2, 3, 4]"
    using log_is_contiguous [of s 3, OF r] s(2) by (simp add: upt_rec)
  then have "length (map ev_seq (events_after None s)) = 4" by simp
  then show ?thesis using s(1) seqs log_is_contiguous [of s 3, OF r] s(2) by auto
qed

section \<open>Invariants of the views\<close>

text \<open>
  The contract of a view invariant: it holds of empty views and every accepted event that
  satisfies the guard keeps it. Then it holds of the views of every store reached by guarded
  appends.
\<close>

locale view_invariant =
  fixes inv :: "views \<Rightarrow> bool"
    and guard :: "views \<Rightarrow> event \<Rightarrow> bool"
  assumes inv_empty: "inv views_empty"
    and inv_apply: "inv t \<Longrightarrow> guard t e \<Longrightarrow> apply_event e t = Inr t' \<Longrightarrow> inv t'"
begin

lemma append_keeps:
  "inv (st_views s) \<Longrightarrow> guard (st_views s) (event_at (next_seq s) new) \<Longrightarrow>
     append_event new s = Inr (e, s') \<Longrightarrow> inv (st_views s')"
  by (auto simp: append_Inr_iff intro: inv_apply)

lemma reachable_inv:
  "reachable_by guard s \<Longrightarrow> store_len s < 2 ^ 64 - 1 \<Longrightarrow> inv (st_views s)"
proof (induction rule: reachable_by.induct)
  case fresh
  show ?case using inv_empty by (simp add: tables_ensure_def store_empty_def Let_def)
next
  case (appended s new e s')
  then have "store_len s \<le> store_len s'" by (blast intro: append_store_len)
  then show ?case using appended append_keeps by simp
next
  case (rebuilt s s')
  then have "store_len s' = store_len s"
    by (auto simp: rebuild_views_alt result_simps store_len_def)
  then have bound: "store_len s < 2 ^ 64 - 1" using rebuilt.prems by simp
  then have "rebuild_views s = Inr s"
    using rebuilt.hyps(1) by (intro rebuild_views_log_inv reachable_log_inv)
  then show ?case using rebuilt.IH [OF bound] rebuilt.hyps(2) by simp
qed

text \<open>An invariant that no event can break needs no bound: a rebuild keeps it too.\<close>

lemma reachable_inv_unguarded:
  assumes "\<And>t e. guard t e" "reachable_by g s"
  shows "inv (st_views s)"
  using assms(2)
proof (induction rule: reachable_by.induct)
  case fresh
  show ?case using inv_empty by (simp add: tables_ensure_def store_empty_def Let_def)
next
  case (appended s new e s')
  then show ?case using append_keeps assms(1) by blast
next
  case (rebuilt s s')
  then obtain t where t: "foldR apply_event (log_events s) views_empty = Inr t" "st_views s' = t"
    by (auto simp: rebuild_views_alt result_simps)
  have "inv t" by (rule foldR_invariant [where P = inv, OF t(1) inv_empty]) (blast intro: inv_apply assms(1))
  then show ?case using t(2) by simp
qed

end

end
