(* ===== verification/Nits_Store_Views.thy ===== *)
theory Nits_Store_Views
  imports Nits_Store_Log
begin

text \<open>
  Invariants of the view tables: every row is stored under its own key, the discussion is
  referentially intact (an abstract skeleton that \<open>apply\<close> refines), and the index from blobs
  to comments lists exactly the anchored comments. Each is an interpretation of the contract
  \<open>view_invariant\<close> on \<open>apply_event\<close>.
\<close>

section \<open>Rows are stored under their own key\<close>

definition keys_ok :: "views \<Rightarrow> bool" where
  "keys_ok t \<longleftrightarrow>
     tbl_all (\<lambda>k w. workspace_key (ws_id w) = k) (v_workspaces t)
     \<and> tbl_all (\<lambda>k r. review_key (rv_id (rec_review r)) = k) (v_reviews t)
     \<and> tbl_all (\<lambda>k c. (review_key (cm_review_id c), comment_key (cm_id c)) = k) (v_comments t)
     \<and> tbl_all (\<lambda>k s. (review_key (sg_review_id s), comment_key (sg_comment_id s)) = k) (v_suggestions t)
     \<and> tbl_all (\<lambda>k th. (review_key (th_review_id th), thread_key (th_id th)) = k) (v_threads t)
     \<and> tbl_all (\<lambda>k q. (review_key (rq_review_id q), request_event_seq (rq_id q)) = k) (v_requests t)
     \<and> tbl_all (\<lambda>k c. (review_key (cp_review_id c), checkpoint_event_seq (cp_id c)) = k) (v_checkpoints t)
     \<and> tbl_all (\<lambda>k m. (review_key (vm_review_id m), repo_key (vm_repo_id m), path_str (vm_path m)) = k)
         (v_viewed t)"

lemmas row_defs = load_workspace_def put_workspace_def load_review_def save_review_def
  load_comment_def save_comment_def load_thread_def save_thread_def put_thread_def
  set_resolution_def

lemma index_anchor_sel [simp]:
  "v_workspaces (index_anchor r c t) = v_workspaces t"
  "v_reviews (index_anchor r c t) = v_reviews t"
  "v_comments (index_anchor r c t) = v_comments t"
  "v_suggestions (index_anchor r c t) = v_suggestions t"
  "v_threads (index_anchor r c t) = v_threads t"
  "v_requests (index_anchor r c t) = v_requests t"
  "v_checkpoints (index_anchor r c t) = v_checkpoints t"
  "v_viewed (index_anchor r c t) = v_viewed t"
  by (simp_all add: index_anchor_def split: anchor.split)

lemma unindex_anchor_sel [simp]:
  "v_workspaces (unindex_anchor c t) = v_workspaces t"
  "v_reviews (unindex_anchor c t) = v_reviews t"
  "v_comments (unindex_anchor c t) = v_comments t"
  "v_suggestions (unindex_anchor c t) = v_suggestions t"
  "v_threads (unindex_anchor c t) = v_threads t"
  "v_requests (unindex_anchor c t) = v_requests t"
  "v_checkpoints (unindex_anchor c t) = v_checkpoints t"
  "v_viewed (unindex_anchor c t) = v_viewed t"
  by (simp_all add: unindex_anchor_def split: anchor.split)

lemma put_suggestion_of_sel [simp]:
  "v_workspaces (put_suggestion_of c t) = v_workspaces t"
  "v_reviews (put_suggestion_of c t) = v_reviews t"
  "v_comments (put_suggestion_of c t) = v_comments t"
  "v_threads (put_suggestion_of c t) = v_threads t"
  "v_requests (put_suggestion_of c t) = v_requests t"
  "v_checkpoints (put_suggestion_of c t) = v_checkpoints t"
  "v_viewed (put_suggestion_of c t) = v_viewed t"
  "v_anchors (put_suggestion_of c t) = v_anchors t"
  by (simp_all add: put_suggestion_of_def split: option.split)

lemma comment_reanchored_sel [simp]:
  "v_workspaces (comment_reanchored a st r c t) = v_workspaces t"
  "v_reviews (comment_reanchored a st r c t) = v_reviews t"
  "v_comments (comment_reanchored a st r c t)
     = tbl_insert (review_key (cm_review_id c), comment_key (cm_id c))
         (c\<lparr>cm_anchor := a, cm_state := st\<rparr>) (v_comments t)"
  "v_suggestions (comment_reanchored a st r c t) = v_suggestions t"
  "v_threads (comment_reanchored a st r c t) = v_threads t"
  "v_requests (comment_reanchored a st r c t) = v_requests t"
  "v_checkpoints (comment_reanchored a st r c t) = v_checkpoints t"
  "v_viewed (comment_reanchored a st r c t) = v_viewed t"
  by (simp_all add: comment_reanchored_def save_comment_def Let_def)

lemma v_suggestions_put_suggestion_of:
  "v_suggestions (put_suggestion_of c t) =
     (case suggestion_from_created c of
        None \<Rightarrow> v_suggestions t
      | Some s \<Rightarrow> tbl_insert (review_key (cm_review_id c), comment_key (cm_id c)) s (v_suggestions t))"
  by (simp add: put_suggestion_of_def split: option.split)

lemma keys_okD:
  "keys_ok t \<Longrightarrow> tbl_get (v_workspaces t) wk = Some w \<Longrightarrow> workspace_key (ws_id w) = wk"
  "keys_ok t \<Longrightarrow> tbl_get (v_reviews t) rk = Some r \<Longrightarrow> review_key (rv_id (rec_review r)) = rk"
  "keys_ok t \<Longrightarrow> tbl_get (v_comments t) (a, b) = Some c \<Longrightarrow>
     review_key (cm_review_id c) = a \<and> comment_key (cm_id c) = b"
  "keys_ok t \<Longrightarrow> tbl_get (v_suggestions t) (a, b) = Some sg \<Longrightarrow>
     review_key (sg_review_id sg) = a \<and> comment_key (sg_comment_id sg) = b"
  "keys_ok t \<Longrightarrow> tbl_get (v_threads t) (a, b) = Some th \<Longrightarrow>
     review_key (th_review_id th) = a \<and> thread_key (th_id th) = b"
  by (simp_all add: keys_ok_def tbl_all_iff)

lemma thread_with_comment_key:
  "keys_ok t \<Longrightarrow> thread_with_comment q c t = Inr th \<Longrightarrow>
     th_review_id th = cm_review_id c \<and> th_id th = cm_thread_id c"
  by (auto simp: thread_with_comment_def split: option.splits if_splits dest!: keys_okD)

text \<open>Every write keeps the keys.\<close>

lemma keys_ok_writes:
  assumes "keys_ok t"
  shows "workspace_key (ws_id w) = workspace_key i \<Longrightarrow> keys_ok (put_workspace i w t)"
    and "keys_ok (save_review rec t)"
    and "keys_ok (save_comment c t)"
    and "keys_ok (save_thread th t)"
    and "(review_key (th_review_id th), thread_key (th_id th)) = k \<Longrightarrow> keys_ok (put_thread k th t)"
    and "keys_ok (index_anchor r c t)"
    and "keys_ok (unindex_anchor c t)"
    and "(review_key (sg_review_id s), comment_key (sg_comment_id s)) = ck \<Longrightarrow>
           keys_ok (t\<lparr>v_suggestions := tbl_insert ck s (v_suggestions t)\<rparr>)"
    and "keys_ok (t\<lparr>v_viewed := tbl_remove vk (v_viewed t)\<rparr>)"
    and "(review_key (vm_review_id m), repo_key (vm_repo_id m), path_str (vm_path m)) = vk \<Longrightarrow>
           keys_ok (t\<lparr>v_viewed := tbl_insert vk m (v_viewed t)\<rparr>)"
    and "(review_key (rq_review_id q), request_event_seq (rq_id q)) = qk \<Longrightarrow>
           keys_ok (t\<lparr>v_requests := tbl_insert qk q (v_requests t)\<rparr>)"
    and "(review_key (cp_review_id p), checkpoint_event_seq (cp_id p)) = pk \<Longrightarrow>
           keys_ok (t\<lparr>v_checkpoints := tbl_insert pk p (v_checkpoints t)\<rparr>)"
  using assms by (simp_all add: keys_ok_def row_defs tbl_all_insert tbl_all_remove)

lemma keys_ok_put_suggestion_of: "keys_ok t \<Longrightarrow> keys_ok (put_suggestion_of c t)"
  by (auto simp: put_suggestion_of_def intro!: keys_ok_writes dest: suggestion_from_created_key
      split: option.split)

lemma replace_target_repo_ids:
  "replace_target target ts = Some us \<Longrightarrow> map rt_repo_id us = map rt_repo_id ts"
  by (induction target ts arbitrary: us rule: replace_target.induct) (auto split: if_splits)

lemma target_updated_id:
  "target_updated q target rec = Inr rec' \<Longrightarrow>
     rv_id (rec_review rec') = rv_id (rec_review rec)
     \<and> rv_workspace_id (rec_review rec') = rv_workspace_id (rec_review rec)
     \<and> rec_lifecycle rec' = rec_lifecycle rec"
  by (auto simp: target_updated_def result_simps)

lemma keys_ok_comment_created:
  assumes "keys_ok t" "comment_created q c t = Inr t'"
  shows "keys_ok t'"
proof -
  from assms(2) obtain th where th: "thread_with_comment q c t = Inr th"
    and t': "t' = index_anchor (cm_review_id c) c (put_suggestion_of c (save_comment c
      (put_thread (review_key (cm_review_id c), thread_key (cm_thread_id c)) th t)))"
    by (auto simp: comment_created_def result_simps)
  show ?thesis
    unfolding t' by (intro keys_ok_writes keys_ok_put_suggestion_of assms(1)) (use thread_with_comment_key [OF assms(1) th] in simp)
qed

lemma keys_ok_comment_reanchored: "keys_ok t \<Longrightarrow> keys_ok (comment_reanchored a st r c t)"
  by (simp add: comment_reanchored_def Let_def keys_ok_writes)

lemma keys_ok_apply: "keys_ok t \<Longrightarrow> apply_event e t = Inr t' \<Longrightarrow> keys_ok t'"
  unfolding apply_event_def
  by (cases "ev_body e")
    (auto simp: load_workspace_def load_review_def load_comment_def load_thread_def
      set_resolution_def suggestion_applied_def request_from_event_def checkpoint_from_event_def
      result_simps keys_okD
      intro: keys_ok_comment_created intro!: keys_ok_writes keys_ok_comment_reanchored
      split: option.splits)

interpretation row_keys: view_invariant keys_ok "\<lambda>_ _. True"
proof unfold_locales
  show "keys_ok views_empty" by (simp add: keys_ok_def views_empty_def)
qed (auto intro: keys_ok_apply)

lemma reachable_keys: "reachable_by g s \<Longrightarrow> keys_ok (st_views s)"
  by (rule row_keys.reachable_inv_unguarded) simp

section \<open>The skeleton of the discussion\<close>

text \<open>
  What the views promise of a discussion, without its texts and states: which workspaces
  exist, which workspace a review is in, the thread and kind of a comment, the root, replies
  and informational lifecycle of a thread, and the patch of a suggestion.
\<close>

record skeleton =
  sk_workspaces :: "ulid \<Rightarrow> bool"
  sk_reviews :: "ulid \<rightharpoonup> ulid"
  sk_comments :: "ulid \<times> ulid \<rightharpoonup> ulid \<times> comment_kind"
  sk_threads :: "ulid \<times> ulid \<rightharpoonup> ulid \<times> ulid list \<times> bool"
  sk_suggestions :: "ulid \<times> ulid \<rightharpoonup> string"

definition review_shape :: "review_record \<Rightarrow> ulid" where
  "review_shape rec = workspace_key (rv_workspace_id (rec_review rec))"

definition comment_shape :: "comment \<Rightarrow> ulid \<times> comment_kind" where
  "comment_shape c = (thread_key (cm_thread_id c), cm_kind c)"

definition thread_shape :: "thread \<Rightarrow> ulid \<times> ulid list \<times> bool" where
  "thread_shape th =
     (comment_key (th_root th), map comment_key (th_replies th),
      th_resolution th = Resolution_Informational)"

definition skeleton :: "views \<Rightarrow> skeleton" where
  "skeleton t =
     \<lparr>sk_workspaces = (\<lambda>k. tbl_get (v_workspaces t) k \<noteq> None),
      sk_reviews = map_option review_shape \<circ> tbl_get (v_reviews t),
      sk_comments = map_option comment_shape \<circ> tbl_get (v_comments t),
      sk_threads = map_option thread_shape \<circ> tbl_get (v_threads t),
      sk_suggestions = map_option sg_patch \<circ> tbl_get (v_suggestions t)\<rparr>"

definition sk_comment_created :: "comment \<Rightarrow> skeleton \<Rightarrow> skeleton" where
  "sk_comment_created c sk =
     (let r = review_key (cm_review_id c); k = comment_key (cm_id c); tk = thread_key (cm_thread_id c)
      in sk\<lparr>sk_comments := (sk_comments sk)((r, k) \<mapsto> (tk, cm_kind c)),
            sk_threads := (sk_threads sk)((r, tk) \<mapsto>
              (case sk_threads sk (r, tk) of
                 None \<Rightarrow> (k, [], cm_kind c = Kind_Informational)
               | Some (root, replies, info) \<Rightarrow> (root, replies @ [k], info))),
            sk_suggestions :=
              (case cm_kind c of
                 Kind_Suggestion patch \<Rightarrow> (sk_suggestions sk)((r, k) \<mapsto> patch)
               | _ \<Rightarrow> sk_suggestions sk)\<rparr>)"

fun sk_step :: "event_body \<Rightarrow> skeleton \<Rightarrow> skeleton" where
  "sk_step (WorkspaceCreated w) sk =
     sk\<lparr>sk_workspaces := (sk_workspaces sk)(workspace_key (ws_id w) := True)\<rparr>"
| "sk_step (ReviewCreated rv) sk =
     sk\<lparr>sk_reviews := (sk_reviews sk)(review_key (rv_id rv) \<mapsto> workspace_key (rv_workspace_id rv))\<rparr>"
| "sk_step (CommentCreated c) sk = sk_comment_created c sk"
| "sk_step _ sk = sk"

text \<open>What a caller has validated before it appends.\<close>

definition thread_actionable :: "views \<Rightarrow> review_id \<Rightarrow> thread_id \<Rightarrow> bool" where
  "thread_actionable t r tid \<longleftrightarrow>
     (case tbl_get (v_threads t) (review_key r, thread_key tid) of
        None \<Rightarrow> True
      | Some th \<Rightarrow> th_resolution th \<noteq> Resolution_Informational)"

fun validated_body :: "views \<Rightarrow> event_body \<Rightarrow> bool" where
  "validated_body t (ReviewCreated rv) \<longleftrightarrow>
     tbl_get (v_workspaces t) (workspace_key (rv_workspace_id rv)) \<noteq> None"
| "validated_body t (CommentCreated c) \<longleftrightarrow>
     tbl_get (v_comments t) (review_key (cm_review_id c), comment_key (cm_id c)) = None"
| "validated_body t (ThreadDeferred r th _ _) \<longleftrightarrow> thread_actionable t r th"
| "validated_body t (ThreadResolved r th) \<longleftrightarrow> thread_actionable t r th"
| "validated_body t (ThreadUnresolved r th) \<longleftrightarrow> thread_actionable t r th"
| "validated_body t _ \<longleftrightarrow> True"

definition validated :: "views \<Rightarrow> event \<Rightarrow> bool" where
  "validated t e \<longleftrightarrow> validated_body t (ev_body e)"

lemma skeleton_anchors [simp]:
  "skeleton (index_anchor r c t) = skeleton t"
  "skeleton (unindex_anchor c t) = skeleton t"
  by (simp_all add: skeleton_def)

text \<open>Overwriting a row by one of the same shape does not change the skeleton.\<close>

lemma skeleton_save_review:
  "tbl_get (v_reviews t) (review_key (rv_id (rec_review rec))) = Some old \<Longrightarrow>
     review_shape rec = review_shape old \<Longrightarrow> skeleton (save_review rec t) = skeleton t"
  by (auto simp: skeleton_def save_review_def)

lemma skeleton_save_comment:
  "tbl_get (v_comments t) (review_key (cm_review_id c), comment_key (cm_id c)) = Some old \<Longrightarrow>
     comment_shape c = comment_shape old \<Longrightarrow> skeleton (save_comment c t) = skeleton t"
  by (auto simp: skeleton_def save_comment_def)

lemma skeleton_save_thread:
  "tbl_get (v_threads t) (review_key (th_review_id th), thread_key (th_id th)) = Some old \<Longrightarrow>
     thread_shape th = thread_shape old \<Longrightarrow> skeleton (save_thread th t) = skeleton t"
  by (auto simp: skeleton_def save_thread_def)

lemma skeleton_put_workspace:
  "skeleton (put_workspace i w t) =
     (skeleton t)\<lparr>sk_workspaces := (sk_workspaces (skeleton t))(workspace_key i := True)\<rparr>"
  by (auto simp: skeleton_def put_workspace_def)

lemma skeleton_comment_created:
  assumes "comment_created q c t = Inr t'"
  shows "skeleton t' = sk_comment_created c (skeleton t)"
proof -
  from assms obtain th where th: "thread_with_comment q c t = Inr th"
    and t': "t' = index_anchor (cm_review_id c) c (put_suggestion_of c (save_comment c
      (put_thread (review_key (cm_review_id c), thread_key (cm_thread_id c)) th t)))"
    by (auto simp: comment_created_def result_simps)
  have shape: "thread_shape th =
      (case map_option thread_shape (tbl_get (v_threads t)
              (review_key (cm_review_id c), thread_key (cm_thread_id c))) of
         None \<Rightarrow> (comment_key (cm_id c), [], cm_kind c = Kind_Informational)
       | Some (root, replies, info) \<Rightarrow> (root, replies @ [comment_key (cm_id c)], info))"
    using th
    by (cases "cm_kind c")
      (auto simp: thread_with_comment_def thread_shape_def split: option.splits if_splits)
  show ?thesis
    using shape
    by (cases "cm_kind c")
      (auto simp: t' skeleton_def sk_comment_created_def row_defs v_suggestions_put_suggestion_of
        suggestion_from_created_def comment_shape_def Let_def)
qed

text \<open>The refinement: an accepted, validated event changes the skeleton as \<open>sk_step\<close> says.\<close>

lemma skeleton_set_resolution:
  assumes "keys_ok t" "tbl_get (v_threads t) (review_key r, thread_key i) = Some th"
    and "thread_actionable t r i" "res \<noteq> Resolution_Informational"
    and "set_resolution res th t = Inr t'"
  shows "skeleton t' = skeleton t"
proof -
  have "review_key (th_review_id th) = review_key r \<and> thread_key (th_id th) = thread_key i"
    using assms keys_okD(5) by blast
  then show ?thesis
    using assms by (auto simp: set_resolution_def thread_actionable_def thread_shape_def
        intro!: skeleton_save_thread)
qed

lemma skeleton_review_edit:
  assumes "keys_ok t" "tbl_get (v_reviews t) k = Some rec"
    and "rv_id (rec_review rec') = rv_id (rec_review rec)"
    and "rv_workspace_id (rec_review rec') = rv_workspace_id (rec_review rec)"
  shows "skeleton (save_review rec' t) = skeleton t"
  using assms keys_okD(2) [OF assms(1,2)]
  by (intro skeleton_save_review [where old = rec]) (simp_all add: review_shape_def)

lemma skeleton_comment_edit:
  assumes "keys_ok t" "tbl_get (v_comments t) (a, b) = Some c"
    and "cm_review_id c' = cm_review_id c" "cm_id c' = cm_id c"
    and "cm_thread_id c' = cm_thread_id c" "cm_kind c' = cm_kind c"
    and "v_comments u = v_comments t" "skeleton u = skeleton t"
  shows "skeleton (save_comment c' u) = skeleton t"
  using assms keys_okD(3) [OF assms(1,2)] skeleton_save_comment [of u c' c]
  by (simp add: comment_shape_def)

lemma skeleton_simple_updates [simp]:
  "skeleton (t\<lparr>v_viewed := vs\<rparr>) = skeleton t"
  "skeleton (t\<lparr>v_requests := rqs\<rparr>) = skeleton t"
  "skeleton (t\<lparr>v_checkpoints := cps\<rparr>) = skeleton t"
  by (simp_all add: skeleton_def)

lemma skeleton_workspace_edit:
  "tbl_get (v_workspaces t) (workspace_key i) = Some w \<Longrightarrow> skeleton (put_workspace i w' t) = skeleton t"
  by (auto simp: skeleton_def put_workspace_def)

lemma skeleton_reanchored:
  "keys_ok t \<Longrightarrow> tbl_get (v_comments t) (a, b) = Some c \<Longrightarrow>
     skeleton (comment_reanchored anchor st r c t) = skeleton t"
  by (auto simp: comment_reanchored_def Let_def intro!: skeleton_comment_edit)

lemma skeleton_suggestion_applied:
  "tbl_get (v_suggestions t) k = Some sg \<Longrightarrow>
     skeleton (t\<lparr>v_suggestions := tbl_insert k (suggestion_applied e p path b sg) (v_suggestions t)\<rparr>)
       = skeleton t"
  by (auto simp: skeleton_def suggestion_applied_def)

lemma skeleton_refines:
  assumes "keys_ok t" "validated t e" "apply_event e t = Inr t'"
  shows "skeleton t' = sk_step (ev_body e) (skeleton t)"
proof (cases "ev_body e")
  case (WorkspaceCreated w)
  then show ?thesis using assms by (auto simp: apply_event_def skeleton_put_workspace)
next
  case (ReviewCreated rv)
  then show ?thesis
    using assms by (auto simp: apply_event_def skeleton_def save_review_def review_shape_def)
next
  case (CommentCreated c)
  then show ?thesis using assms by (auto simp: apply_event_def skeleton_comment_created)
next
  case (ReviewTargetUpdated r tg)
  then obtain rec rec' where "tbl_get (v_reviews t) (review_key r) = Some rec"
    "target_updated (ev_seq e) tg rec = Inr rec'" "t' = save_review rec' t"
    using assms by (auto simp: apply_event_def load_review_def result_simps)
  then show ?thesis
    using assms ReviewTargetUpdated target_updated_id [of "ev_seq e" tg rec rec']
      skeleton_review_edit [OF assms(1)] by simp
next
  case (ThreadDeferred r i reason url)
  then show ?thesis
    using assms by (auto simp: apply_event_def validated_def load_thread_def result_simps
        dest: skeleton_set_resolution)
next
  case (ThreadResolved r i)
  then show ?thesis
    using assms by (auto simp: apply_event_def validated_def load_thread_def result_simps
        dest: skeleton_set_resolution)
next
  case (ThreadUnresolved r i)
  then show ?thesis
    using assms by (auto simp: apply_event_def validated_def load_thread_def result_simps
        dest: skeleton_set_resolution)
qed (use assms in \<open>auto simp: apply_event_def load_workspace_def load_review_def load_comment_def
    request_from_event_def checkpoint_from_event_def result_simps
    skeleton_suggestion_applied skeleton_reanchored skeleton_workspace_edit
    intro!: skeleton_review_edit skeleton_comment_edit\<close>)

section \<open>Referential integrity\<close>

definition threads_ok :: "skeleton \<Rightarrow> bool" where
  "threads_ok sk \<longleftrightarrow>
     (\<forall>r k root replies info. sk_threads sk (r, k) = Some (root, replies, info) \<longrightarrow>
        root = k \<and> distinct (root # replies)
        \<and> (\<exists>kind. sk_comments sk (r, root) = Some (k, kind) \<and> (info \<longleftrightarrow> kind = Kind_Informational))
        \<and> (\<forall>c\<in>set replies. \<exists>kind. sk_comments sk (r, c) = Some (k, kind)))"

definition comments_ok :: "skeleton \<Rightarrow> bool" where
  "comments_ok sk \<longleftrightarrow>
     (\<forall>r c k kind. sk_comments sk (r, c) = Some (k, kind) \<longrightarrow>
        sk_reviews sk r \<noteq> None
        \<and> (\<exists>root replies info. sk_threads sk (r, k) = Some (root, replies, info)
             \<and> c \<in> set (root # replies)))"

definition suggestions_ok :: "skeleton \<Rightarrow> bool" where
  "suggestions_ok sk \<longleftrightarrow>
     (\<forall>k patch. sk_suggestions sk k = Some patch \<longleftrightarrow>
        (\<exists>th. sk_comments sk k = Some (th, Kind_Suggestion patch)))"

definition reviews_ok :: "skeleton \<Rightarrow> bool" where
  "reviews_ok sk \<longleftrightarrow> (\<forall>r w. sk_reviews sk r = Some w \<longrightarrow> sk_workspaces sk w)"

definition refs_ok :: "views \<Rightarrow> bool" where
  "refs_ok t \<longleftrightarrow> keys_ok t \<and> threads_ok (skeleton t) \<and> comments_ok (skeleton t)
     \<and> suggestions_ok (skeleton t) \<and> reviews_ok (skeleton t)"

lemma comment_created_facts:
  assumes "comment_created q c t = Inr t'"
  shows "sk_reviews (skeleton t) (review_key (cm_review_id c)) \<noteq> None"
    and "sk_threads (skeleton t) (review_key (cm_review_id c), thread_key (cm_thread_id c)) = None \<Longrightarrow>
      thread_key (cm_thread_id c) = comment_key (cm_id c)"
  using assms
  by (auto simp: comment_created_def load_review_def thread_with_comment_def skeleton_def result_simps
      split: option.splits if_splits)

lemma threads_ok_created:
  assumes ok: "threads_ok sk" "comments_ok sk"
    and fresh: "sk_comments sk (review_key (cm_review_id c), comment_key (cm_id c)) = None"
    and root: "sk_threads sk (review_key (cm_review_id c), thread_key (cm_thread_id c)) = None \<Longrightarrow>
      thread_key (cm_thread_id c) = comment_key (cm_id c)"
  shows "threads_ok (sk_comment_created c sk)"
proof -
  let ?r = "review_key (cm_review_id c)" and ?k = "comment_key (cm_id c)"
    and ?tk = "thread_key (cm_thread_id c)"
  have new: "root' = ?tk \<and> distinct (root' # replies) \<and> (\<exists>kind. sk_comments (sk_comment_created c sk)
      (?r, root') = Some (?tk, kind) \<and> (info \<longleftrightarrow> kind = Kind_Informational))
      \<and> (\<forall>x\<in>set replies. \<exists>kind. sk_comments (sk_comment_created c sk) (?r, x) = Some (?tk, kind))"
    if "sk_threads (sk_comment_created c sk) (?r, ?tk) = Some (root', replies, info)"
    for root' replies info
  proof (cases "sk_threads sk (?r, ?tk)")
    case None
    then show ?thesis using that root by (simp add: sk_comment_created_def Let_def)
  next
    case (Some old)
    then obtain root0 replies0 info0 where old: "sk_threads sk (?r, ?tk) = Some (root0, replies0, info0)"
      by (cases old) auto
    then have facts: "root0 = ?tk" "distinct (root0 # replies0)"
      "\<exists>kind. sk_comments sk (?r, root0) = Some (?tk, kind) \<and> (info0 \<longleftrightarrow> kind = Kind_Informational)"
      "\<forall>x\<in>set replies0. \<exists>kind. sk_comments sk (?r, x) = Some (?tk, kind)"
      using ok(1) unfolding threads_ok_def by blast+
    have "root' = root0" "replies = replies0 @ [?k]" "info = info0"
      using that old by (simp_all add: sk_comment_created_def Let_def)
    moreover have "?k \<notin> set (root0 # replies0)"
      using facts(3,4) fresh by fastforce
    ultimately show ?thesis using facts by (auto simp: sk_comment_created_def Let_def)
  qed
  have other: "sk_comments (sk_comment_created c sk) (r, x) = sk_comments sk (r, x)"
    if "sk_comments sk (r, x) = Some v" for r x v
    using that fresh by (auto simp: sk_comment_created_def Let_def)
  show ?thesis
    unfolding threads_ok_def
  proof (intro allI impI, goal_cases)
    case (1 r k root' replies info)
    show ?case
    proof (cases "(r, k) = (?r, ?tk)")
      case True
      then have rk: "r = ?r" "k = ?tk" by simp_all
      show ?thesis unfolding rk by (rule new) (use 1 rk in simp)
    next
      case False
      then have "sk_threads sk (r, k) = Some (root', replies, info)"
        using 1 by (auto simp: sk_comment_created_def Let_def)
      then show ?thesis using ok(1) other unfolding threads_ok_def by metis
    qed
  qed
qed

lemma comments_ok_created:
  assumes ok: "comments_ok sk"
    and review: "sk_reviews sk (review_key (cm_review_id c)) \<noteq> None"
  shows "comments_ok (sk_comment_created c sk)"
proof -
  have reviews: "sk_reviews (sk_comment_created c sk) = sk_reviews sk"
    by (simp add: sk_comment_created_def Let_def)
  have grows: "\<exists>root replies' info. sk_threads (sk_comment_created c sk) (r, k) = Some (root, replies', info)
      \<and> x \<in> set (root # replies')"
    if "sk_threads sk (r, k) = Some (root, replies, info)" "x \<in> set (root # replies)"
    for r k root replies info x
    using that by (auto simp: sk_comment_created_def Let_def)
  show ?thesis
    unfolding comments_ok_def
  proof (intro allI impI, goal_cases)
    case (1 r x k kind)
    show ?case
    proof (cases "(r, x) = (review_key (cm_review_id c), comment_key (cm_id c))")
      case True
      then have "k = thread_key (cm_thread_id c)" using 1 by (simp add: sk_comment_created_def Let_def)
      then show ?thesis
        using True review by (auto simp: sk_comment_created_def Let_def split: option.split)
    next
      case False
      then have "sk_comments sk (r, x) = Some (k, kind)"
        using 1 by (auto simp: sk_comment_created_def Let_def)
      then obtain root replies info where "sk_reviews sk r \<noteq> None"
        "sk_threads sk (r, k) = Some (root, replies, info)" "x \<in> set (root # replies)"
        using ok unfolding comments_ok_def by metis
      then show ?thesis using grows reviews by simp
    qed
  qed
qed

lemma suggestions_ok_created:
  "suggestions_ok sk \<Longrightarrow>
     sk_comments sk (review_key (cm_review_id c), comment_key (cm_id c)) = None \<Longrightarrow>
     suggestions_ok (sk_comment_created c sk)"
  by (cases "cm_kind c") (auto simp: suggestions_ok_def sk_comment_created_def Let_def)

lemma refs_ok_apply:
  assumes ok: "refs_ok t" and val: "validated t e" and app: "apply_event e t = Inr t'"
  shows "refs_ok t'"
proof -
  have keys: "keys_ok t" using ok by (simp add: refs_ok_def)
  have step: "skeleton t' = sk_step (ev_body e) (skeleton t)"
    by (rule skeleton_refines [OF keys val app])
  have "threads_ok (skeleton t') \<and> comments_ok (skeleton t') \<and> suggestions_ok (skeleton t')
      \<and> reviews_ok (skeleton t')"
  proof (cases "ev_body e")
    case (CommentCreated c)
    then have created: "comment_created (ev_seq e) c t = Inr t'"
      using app by (simp add: apply_event_def)
    have fresh: "sk_comments (skeleton t) (review_key (cm_review_id c), comment_key (cm_id c)) = None"
      using val CommentCreated by (simp add: validated_def skeleton_def)
    have "reviews_ok (sk_comment_created c (skeleton t))"
      using ok by (simp add: refs_ok_def reviews_ok_def sk_comment_created_def Let_def)
    then show ?thesis
      using ok fresh comment_created_facts [OF created]
      by (simp add: step CommentCreated refs_ok_def threads_ok_created comments_ok_created
          suggestions_ok_created)
  next
    case (ReviewCreated rv)
    have "sk_workspaces (skeleton t) (workspace_key (rv_workspace_id rv))"
      using val ReviewCreated by (simp add: validated_def skeleton_def)
    then show ?thesis
      using ok ReviewCreated
      by (simp add: step refs_ok_def threads_ok_def comments_ok_def suggestions_ok_def reviews_ok_def)
        blast
  next
    case (WorkspaceCreated w)
    then show ?thesis
      using ok
      by (simp add: step refs_ok_def threads_ok_def comments_ok_def suggestions_ok_def reviews_ok_def)
  qed (use ok in \<open>simp_all add: step refs_ok_def\<close>)
  then show ?thesis using keys app keys_ok_apply by (simp add: refs_ok_def)
qed

interpretation references: view_invariant refs_ok validated
proof unfold_locales
  show "refs_ok views_empty"
    using row_keys.inv_empty
    by (simp add: refs_ok_def threads_ok_def comments_ok_def suggestions_ok_def reviews_ok_def
        skeleton_def views_empty_def)
qed (rule refs_ok_apply)

lemma rows_of_iff: "v \<in> set (rows_of r t) \<longleftrightarrow> (\<exists>k. tbl_get t (review_key r, k) = Some v)"
  by (auto simp: rows_of_def tbl_range_values_iff)

lemma find_row:
  assumes "\<And>k v. tbl_get t (review_key r, k) = Some v \<Longrightarrow> P v \<longleftrightarrow> k = k0"
  shows "find P (rows_of r t) = tbl_get t (review_key r, k0)"
proof (cases "tbl_get t (review_key r, k0)")
  case None
  then have "\<not> P x" if "x \<in> set (rows_of r t)" for x
    using that assms unfolding rows_of_iff by fastforce
  then show ?thesis using None by (simp add: find_None_iff)
next
  case (Some v)
  then have "v \<in> set (rows_of r t)" "P v" using assms by (auto simp: rows_of_iff)
  then obtain x where x: "find P (rows_of r t) = Some x" by (metis find_None_iff not_None_eq)
  from find_Some_in [OF this] assms Some have "x = v" unfolding rows_of_iff by fastforce
  with x Some show ?thesis by simp
qed

lemma find_thread:
  assumes "keys_ok t"
  shows "find (\<lambda>th. th_id th = tid) (rows_of review (v_threads t))
    = tbl_get (v_threads t) (review_key review, thread_key tid)"
proof (rule find_row)
  fix k th
  assume "tbl_get (v_threads t) (review_key review, k) = Some th"
  then have "thread_key (th_id th) = k" using keys_okD(5) [OF assms] by blast
  then show "th_id th = tid \<longleftrightarrow> k = thread_key tid" by auto
qed

lemma find_comment:
  assumes "keys_ok t"
  shows "find (\<lambda>c. cm_id c = cid) (rows_of review (v_comments t))
    = tbl_get (v_comments t) (review_key review, comment_key cid)"
proof (rule find_row)
  fix k c
  assume "tbl_get (v_comments t) (review_key review, k) = Some c"
  then have "comment_key (cm_id c) = k" using keys_okD(3) [OF assms] by blast
  then show "cm_id c = cid \<longleftrightarrow> k = comment_key cid" by auto
qed

lemma skeleton_sel:
  "sk_comments (skeleton t) k = map_option comment_shape (tbl_get (v_comments t) k)"
  "sk_threads (skeleton t) k = map_option thread_shape (tbl_get (v_threads t) k)"
  "sk_reviews (skeleton t) i = map_option review_shape (tbl_get (v_reviews t) i)"
  by (simp_all add: skeleton_def)

lemma thread_of_comment:
  assumes ok: "refs_ok t" and cm: "cm \<in> set (rows_of r (v_comments t))"
  shows "tbl_get (v_reviews t) (review_key r) \<noteq> None
    \<and> (\<exists>th\<in>set (rows_of r (v_threads t)). th_id th = cm_thread_id cm \<and> cm_id cm \<in> set (th_root th # th_replies th))"
proof -
  have keys: "keys_ok t" using ok by (simp add: refs_ok_def)
  from cm obtain k where k: "tbl_get (v_comments t) (review_key r, k) = Some cm"
    by (auto simp: rows_of_iff)
  then have id: "comment_key (cm_id cm) = k" using keys keys_okD(3) by blast
  have "sk_comments (skeleton t) (review_key r, k) = Some (thread_key (cm_thread_id cm), cm_kind cm)"
    using k by (simp add: skeleton_sel comment_shape_def)
  then obtain root replies info where rev: "sk_reviews (skeleton t) (review_key r) \<noteq> None"
    and th: "sk_threads (skeleton t) (review_key r, thread_key (cm_thread_id cm)) = Some (root, replies, info)"
    and mem: "k \<in> set (root # replies)"
    using ok unfolding refs_ok_def comments_ok_def by metis
  from th obtain thr where thr: "tbl_get (v_threads t) (review_key r, thread_key (cm_thread_id cm)) = Some thr"
    and shape: "thread_shape thr = (root, replies, info)" by (auto simp: skeleton_sel)
  have "thread_key (th_id thr) = thread_key (cm_thread_id cm)" using keys thr keys_okD(5) by blast
  moreover have "cm_id cm \<in> set (th_root thr # th_replies thr)"
    using mem shape id by (auto simp: thread_shape_def)
  moreover have "thr \<in> set (rows_of r (v_threads t))" using thr by (auto simp: rows_of_iff)
  ultimately show ?thesis using rev by (auto simp: skeleton_sel)
qed

lemma comments_of_thread:
  assumes ok: "refs_ok t" and th: "th \<in> set (rows_of r (v_threads t))"
  shows "thread_key (th_id th) = comment_key (th_root th) \<and> distinct (th_root th # th_replies th)"
    and "c \<in> set (th_root th # th_replies th) \<Longrightarrow>
      \<exists>cm. tbl_get (v_comments t) (review_key r, comment_key c) = Some cm \<and> cm_thread_id cm = th_id th"
    and "th_resolution th = Resolution_Informational \<longleftrightarrow>
      (\<exists>cm. tbl_get (v_comments t) (review_key r, comment_key (th_root th)) = Some cm
            \<and> cm_kind cm = Kind_Informational)"
proof -
  have keys: "keys_ok t" using ok by (simp add: refs_ok_def)
  from th obtain k where k: "tbl_get (v_threads t) (review_key r, k) = Some th"
    by (auto simp: rows_of_iff)
  then have id: "thread_key (th_id th) = k" using keys keys_okD(5) by blast
  have sk: "sk_threads (skeleton t) (review_key r, k) = Some (comment_key (th_root th),
      map comment_key (th_replies th), th_resolution th = Resolution_Informational)"
    using k by (simp add: skeleton_sel thread_shape_def)
  then have facts: "comment_key (th_root th) = k"
    "distinct (map comment_key (th_root th # th_replies th))"
    "\<exists>kind. sk_comments (skeleton t) (review_key r, k) = Some (k, kind)
       \<and> (th_resolution th = Resolution_Informational \<longleftrightarrow> kind = Kind_Informational)"
    "\<forall>x\<in>set (th_replies th). \<exists>kind. sk_comments (skeleton t) (review_key r, comment_key x) = Some (k, kind)"
    using ok unfolding refs_ok_def threads_ok_def by force+
  show "thread_key (th_id th) = comment_key (th_root th) \<and> distinct (th_root th # th_replies th)"
    using facts(1,2) id unfolding distinct_map by simp
  show "\<exists>cm. tbl_get (v_comments t) (review_key r, comment_key c) = Some cm \<and> cm_thread_id cm = th_id th"
    if "c \<in> set (th_root th # th_replies th)"
  proof -
    have "\<exists>kind. sk_comments (skeleton t) (review_key r, comment_key c) = Some (thread_key (th_id th), kind)"
      using that facts(1,3,4) unfolding id by auto
    then show ?thesis by (auto simp: skeleton_sel comment_shape_def)
  qed
  show "th_resolution th = Resolution_Informational \<longleftrightarrow>
      (\<exists>cm. tbl_get (v_comments t) (review_key r, comment_key (th_root th)) = Some cm
            \<and> cm_kind cm = Kind_Informational)"
    using facts(1,3) by (auto simp: skeleton_sel comment_shape_def)
qed

text \<open>
  C2: In every store reached by validated appends the discussion is intact: each comment is in
  an existing review and in exactly the thread it names; each thread has its root's id, names
  no comment twice, all its comments exist and name it, and it is informational exactly when
  its root comment is.
\<close>

theorem discussion_intact:
  assumes "reachable_by validated s" "store_len s < 2 ^ 64 - 1"
  shows "(\<forall>cm\<in>set (store_comments s r).
        store_review s r \<noteq> None
        \<and> (\<exists>th\<in>set (store_threads s r).
             th_id th = cm_thread_id cm \<and> cm_id cm \<in> set (th_root th # th_replies th)))
    \<and> (\<forall>th\<in>set (store_threads s r).
        thread_key (th_id th) = comment_key (th_root th)
        \<and> distinct (th_root th # th_replies th)
        \<and> (\<forall>c\<in>set (th_root th # th_replies th).
             \<exists>cm. store_comment s r c = Some cm \<and> cm_thread_id cm = th_id th)
        \<and> (th_resolution th = Resolution_Informational \<longleftrightarrow>
             (\<exists>cm. store_comment s r (th_root th) = Some cm \<and> cm_kind cm = Kind_Informational)))"
proof -
  have ok: "refs_ok (st_views s)" by (rule references.reachable_inv [OF assms])
  show ?thesis
    using thread_of_comment [OF ok] comments_of_thread [OF ok]
    by (simp add: store_comments_def store_threads_def store_comment_def store_review_def)
qed

theorem discussion_intact_witness:
  "\<exists>s. append_all validated sample_log fresh_store = Some s \<and> store_len s = 4
     \<and> map cm_id (store_comments s (ReviewId (Ulid 2 2))) = [CommentId (Ulid 4 4), CommentId (Ulid 5 5)]
     \<and> (\<forall>cm\<in>set (store_comments s (ReviewId (Ulid 2 2))). store_review s (ReviewId (Ulid 2 2)) \<noteq> None)"
proof -
  have "map_option (\<lambda>s. (store_len s, map cm_id (store_comments s (ReviewId (Ulid 2 2)))))
      (append_all validated sample_log fresh_store)
      = Some (4, [CommentId (Ulid 4 4), CommentId (Ulid 5 5)])" by code_simp
  then obtain s where s: "append_all validated sample_log fresh_store = Some s" "store_len s = 4"
    "map cm_id (store_comments s (ReviewId (Ulid 2 2))) = [CommentId (Ulid 4 4), CommentId (Ulid 5 5)]"
    by auto
  have "reachable_by validated s" by (rule append_all_reachable [OF s(1) reachable_fresh_store])
  then show ?thesis using s discussion_intact [of s "ReviewId (Ulid 2 2)"] by auto
qed

section \<open>The index from blobs to comments\<close>

text \<open>The blob a comment is indexed under; a deleted comment is under none.\<close>

fun anchor_blob :: "anchor \<Rightarrow> (ulid \<times> string) option" where
  "anchor_blob Anchor_Review = None"
| "anchor_blob (Anchor_File repo _ blob) = Some (repo_key repo, oid_display (blob_oid_oid blob))"
| "anchor_blob (Anchor_Lines repo _ _ blob _ _) = Some (repo_key repo, oid_display (blob_oid_oid blob))"

definition indexed_under :: "comment \<Rightarrow> (ulid \<times> string) option" where
  "indexed_under c = (if cm_state c = State_Deleted then None else anchor_blob (cm_anchor c))"

text \<open>
  A comment id is new to the whole store, not only to its review: the index has no review in
  its key.
\<close>

fun globally_fresh :: "views \<Rightarrow> event_body \<Rightarrow> bool" where
  "globally_fresh t (CommentCreated c) \<longleftrightarrow>
     cm_state c \<noteq> State_Deleted \<and> tbl_all (\<lambda>k _. snd k \<noteq> comment_key (cm_id c)) (v_comments t)"
| "globally_fresh t _ \<longleftrightarrow> True"

definition index_guard :: "views \<Rightarrow> event \<Rightarrow> bool" where
  "index_guard t e \<longleftrightarrow> globally_fresh t (ev_body e)"

definition ids_unique :: "views \<Rightarrow> bool" where
  "ids_unique t \<longleftrightarrow>
     (\<forall>r r' k c c'. tbl_get (v_comments t) (r, k) = Some c \<longrightarrow>
        tbl_get (v_comments t) (r', k) = Some c' \<longrightarrow> r = r')"

definition index_exact :: "views \<Rightarrow> bool" where
  "index_exact t \<longleftrightarrow>
     (\<forall>repo blob k review. tbl_get (v_anchors t) (repo, blob, k) = Some review \<longleftrightarrow>
        (\<exists>c. tbl_get (v_comments t) (review_key review, k) = Some c
             \<and> indexed_under c = Some (repo, blob)))"

definition index_ok :: "views \<Rightarrow> bool" where
  "index_ok t \<longleftrightarrow> keys_ok t \<and> ids_unique t \<and> index_exact t"

lemma get_index_anchor:
  "tbl_get (v_anchors (index_anchor r c t)) (repo, blob, k) =
     (if anchor_blob (cm_anchor c) = Some (repo, blob) \<and> k = comment_key (cm_id c) then Some r
      else tbl_get (v_anchors t) (repo, blob, k))"
  by (auto simp: index_anchor_def anchor_key_def split: anchor.split)

lemma get_unindex_anchor:
  "tbl_get (v_anchors (unindex_anchor c t)) (repo, blob, k) =
     (if anchor_blob (cm_anchor c) = Some (repo, blob) \<and> k = comment_key (cm_id c) then None
      else tbl_get (v_anchors t) (repo, blob, k))"
  by (auto simp: unindex_anchor_def anchor_key_def split: anchor.split)

text \<open>Rewriting one comment's row: unindex the old row, write the new one, index it.\<close>

lemma index_exact_rewrite:
  assumes uniq: "ids_unique t" and exact: "index_exact t"
    and old: "tbl_get (v_comments t) (review_key r, k) = Some c"
    and comments: "v_comments u = tbl_insert (review_key r, k) c' (v_comments t)"
    and anchors: "\<And>repo blob k'. tbl_get (v_anchors u) (repo, blob, k') =
      (if k' = k then (if indexed_under c' = Some (repo, blob) then Some r
                       else if anchor_blob (cm_anchor c) = Some (repo, blob) then None
                       else tbl_get (v_anchors t) (repo, blob, k'))
       else tbl_get (v_anchors t) (repo, blob, k'))"
  shows "index_exact u \<and> ids_unique u"
proof -
  have only: "rk = review_key r" if "tbl_get (v_comments t) (rk, k) = Some x" for rk x
    using uniq old that unfolding ids_unique_def by blast
  then have none: "tbl_get (v_comments t) (rk, k) = None" if "rk \<noteq> review_key r" for rk
    using that by (cases "tbl_get (v_comments t) (rk, k)") auto
  have "tbl_get (v_anchors u) (repo, blob, k') = Some review \<longleftrightarrow>
      (\<exists>x. tbl_get (v_comments u) (review_key review, k') = Some x \<and> indexed_under x = Some (repo, blob))"
    for repo blob k' review
  proof (cases "k' = k")
    case False
    then show ?thesis using exact by (simp add: anchors comments index_exact_def)
  next
    case True
    have stale: "tbl_get (v_anchors t) (repo, blob, k) = None"
      if "anchor_blob (cm_anchor c) \<noteq> Some (repo, blob)"
    proof (rule ccontr)
      assume "tbl_get (v_anchors t) (repo, blob, k) \<noteq> None"
      then obtain rv x where "tbl_get (v_comments t) (review_key rv, k) = Some x"
        "indexed_under x = Some (repo, blob)"
        using exact by (auto simp: index_exact_def)
      then have "indexed_under c = Some (repo, blob)" using only old by fastforce
      then show False using that by (simp add: indexed_under_def split: if_splits)
    qed
    show ?thesis using True stale none by (auto simp: anchors comments)
  qed
  moreover have "ids_unique u"
    using uniq none by (auto simp: ids_unique_def comments)
  ultimately show ?thesis by (simp add: index_exact_def)
qed

lemma index_exact_same:
  assumes "ids_unique t" "index_exact t" "tbl_get (v_comments t) (r, k) = Some c"
    and "indexed_under c' = indexed_under c"
    and "v_comments u = tbl_insert (r, k) c' (v_comments t)" "v_anchors u = v_anchors t"
  shows "index_exact u \<and> ids_unique u"
proof -
  have "ids_unique u"
    unfolding ids_unique_def assms(5)
    using assms(1,3) unfolding ids_unique_def by (metis tbl.get_insert fun_upd_apply prod.inject)
  then show ?thesis using assms(2-6) by (auto simp: index_exact_def)
qed

lemma index_exact_created:
  assumes uniq: "ids_unique t" and exact: "index_exact t"
    and live: "cm_state c \<noteq> State_Deleted"
    and fresh: "tbl_all (\<lambda>k _. snd k \<noteq> comment_key (cm_id c)) (v_comments t)"
    and created: "comment_created q c t = Inr u"
  shows "index_exact u \<and> ids_unique u"
proof -
  let ?k = "comment_key (cm_id c)"
  from created have comments: "v_comments u = tbl_insert (review_key (cm_review_id c), ?k) c (v_comments t)"
    by (auto simp: comment_created_def row_defs result_simps)
  from created have anchors: "v_anchors u = v_anchors (index_anchor (cm_review_id c) c t)"
    by (auto simp: comment_created_def row_defs result_simps index_anchor_def split: anchor.split)
  have none: "tbl_get (v_comments t) (rk, ?k) = None" for rk
    using fresh by (cases "tbl_get (v_comments t) (rk, ?k)") (auto dest: tbl_allD)
  have stale: "tbl_get (v_anchors t) (repo, blob, ?k) = None" for repo blob
    using exact none by (cases "tbl_get (v_anchors t) (repo, blob, ?k)") (auto simp: index_exact_def)
  have "index_exact u"
    unfolding index_exact_def
  proof (intro allI)
    fix repo blob k review
    show "tbl_get (v_anchors u) (repo, blob, k) = Some review \<longleftrightarrow>
      (\<exists>x. tbl_get (v_comments u) (review_key review, k) = Some x \<and> indexed_under x = Some (repo, blob))"
      using exact live none stale
      by (cases "k = ?k") (auto simp: anchors comments get_index_anchor indexed_under_def index_exact_def)
  qed
  moreover have "ids_unique u" using uniq none by (auto simp: ids_unique_def comments)
  ultimately show ?thesis by simp
qed

lemma apply_keeps_index:
  assumes "apply_event e t = Inr t'"
    and "\<And>c. ev_body e \<noteq> CommentCreated c" "\<And>r k b. ev_body e \<noteq> CommentEdited r k b"
    and "\<And>r k. ev_body e \<noteq> CommentDeleted r k" "\<And>r k a st. ev_body e \<noteq> CommentReanchored r k a st"
  shows "v_comments t' = v_comments t \<and> v_anchors t' = v_anchors t"
  using assms
  by (cases "ev_body e")
    (auto simp: apply_event_def row_defs result_simps request_from_event_def checkpoint_from_event_def)

lemma v_anchors_save_comment [simp]: "v_anchors (save_comment c t) = v_anchors t"
  by (simp add: save_comment_def)

lemma index_ok_apply:
  assumes ok: "index_ok t" and guard: "index_guard t e" and app: "apply_event e t = Inr t'"
  shows "index_ok t'"
proof -
  have keys: "keys_ok t" and uniq: "ids_unique t" and exact: "index_exact t"
    using ok by (simp_all add: index_ok_def)
  have row: "cm_review_id c = r \<and> cm_id c = i"
    if "tbl_get (v_comments t) (review_key r, comment_key i) = Some c" for r i c
    using keys_okD(3) [OF keys that] by simp
  have "index_exact t' \<and> ids_unique t'"
  proof (cases "ev_body e")
    case (CommentCreated c)
    then show ?thesis
      using guard app
      by (intro index_exact_created [OF uniq exact, where c = c and q = "ev_seq e"])
        (simp_all add: index_guard_def apply_event_def)
  next
    case (CommentEdited r i body)
    then obtain c where c: "tbl_get (v_comments t) (review_key r, comment_key i) = Some c"
      and t': "t' = save_comment (c\<lparr>cm_body := body, cm_edited := Some (ev_ts e)\<rparr>) t"
      using app by (auto simp: apply_event_def load_comment_def result_simps)
    show ?thesis
      by (rule index_exact_same [OF uniq exact c, where c' = "c\<lparr>cm_body := body, cm_edited := Some (ev_ts e)\<rparr>"])
        (use row [OF c] in \<open>simp_all add: t' save_comment_def indexed_under_def\<close>)
  next
    case (CommentDeleted r i)
    then obtain c where c: "tbl_get (v_comments t) (review_key r, comment_key i) = Some c"
      and t': "t' = save_comment (c\<lparr>cm_state := State_Deleted\<rparr>) (unindex_anchor c t)"
      using app by (auto simp: apply_event_def load_comment_def result_simps)
    show ?thesis
      by (rule index_exact_rewrite [OF uniq exact c, where c' = "c\<lparr>cm_state := State_Deleted\<rparr>"])
        (use row [OF c] in \<open>auto simp: t' save_comment_def indexed_under_def get_unindex_anchor\<close>)
  next
    case (CommentReanchored r i a st)
    then obtain c where c: "tbl_get (v_comments t) (review_key r, comment_key i) = Some c"
      and t': "t' = comment_reanchored a st r c t"
      using app by (auto simp: apply_event_def load_comment_def result_simps)
    show ?thesis
      by (rule index_exact_rewrite [OF uniq exact c, where c' = "c\<lparr>cm_anchor := a, cm_state := st\<rparr>"])
        (use row [OF c] in \<open>auto simp: t' comment_reanchored_def Let_def indexed_under_def
          get_index_anchor get_unindex_anchor save_comment_def\<close>)
  qed (use apply_keeps_index [OF app] uniq exact in \<open>simp_all add: index_exact_def ids_unique_def\<close>)
  then show ?thesis using keys app keys_ok_apply by (simp add: index_ok_def)
qed

interpretation blob_index: view_invariant index_ok index_guard
proof unfold_locales
  show "index_ok views_empty"
    using row_keys.inv_empty by (simp add: index_ok_def index_exact_def ids_unique_def views_empty_def)
qed (rule index_ok_apply)

lemma comments_on_blob_iff:
  "(review, c) \<in> set (comments_on_blob s repo blob) \<longleftrightarrow>
     tbl_get (v_anchors (st_views s)) (anchor_key repo blob c) = Some review"
proof -
  let ?P = "\<lambda>k. fst k = repo_key repo \<and> fst (snd k) = oid_display (blob_oid_oid blob)"
  have "(review, c) \<in> set (comments_on_blob s repo blob) \<longleftrightarrow>
      (anchor_key repo blob c, review) \<in> set (tbl_range ?P (v_anchors (st_views s)))"
  proof
    assume "(review, c) \<in> set (comments_on_blob s repo blob)"
    then obtain k where k: "(k, review) \<in> set (tbl_range ?P (v_anchors (st_views s)))"
      and c: "c = CommentId (snd (snd k))" by (auto simp: comments_on_blob_def)
    then have "k = anchor_key repo blob c" by (cases k) (auto simp: anchor_key_def tbl_range_def)
    then show "(anchor_key repo blob c, review) \<in> set (tbl_range ?P (v_anchors (st_views s)))"
      using k by simp
  next
    assume "(anchor_key repo blob c, review) \<in> set (tbl_range ?P (v_anchors (st_views s)))"
    moreover have "(review, c) = (\<lambda>(k, review). (review, CommentId (snd (snd k)))) (anchor_key repo blob c, review)"
      by (simp add: anchor_key_def)
    ultimately show "(review, c) \<in> set (comments_on_blob s repo blob)"
      unfolding comments_on_blob_def set_map by (rule rev_image_eqI)
  qed
  then show ?thesis by (simp add: tbl_range_iff anchor_key_def)
qed

text \<open>
  C25: When comment ids are new to the whole store, \<open>comments_on_blob\<close> returns exactly the
  comments that are not deleted and whose anchor is on that blob of that repository, with
  their reviews: no stale entry survives a deletion or a re-anchoring and none is missing.
\<close>

theorem comments_on_blob_exact:
  assumes "reachable_by index_guard s" "store_len s < 2 ^ 64 - 1"
  shows "(review, c) \<in> set (comments_on_blob s repo blob) \<longleftrightarrow>
    (\<exists>cm. store_comment s review c = Some cm \<and> cm_state cm \<noteq> State_Deleted
        \<and> anchor_blob (cm_anchor cm) = Some (repo_key repo, oid_display (blob_oid_oid blob)))"
proof -
  let ?b = "oid_display (blob_oid_oid blob)"
  have exact: "index_exact (st_views s)"
    using blob_index.reachable_inv [OF assms] by (simp add: index_ok_def)
  have "(review, c) \<in> set (comments_on_blob s repo blob) \<longleftrightarrow>
      tbl_get (v_anchors (st_views s)) (repo_key repo, ?b, comment_key c) = Some review"
    by (simp add: comments_on_blob_iff anchor_key_def)
  then show ?thesis
    using exact by (auto simp: index_exact_def store_comment_def indexed_under_def split: if_splits)
qed

theorem comments_on_blob_exact_witness:
  "\<exists>s. append_all index_guard sample_log fresh_store = Some s
     \<and> (ReviewId (Ulid 2 2), CommentId (Ulid 5 5))
         \<in> set (comments_on_blob s (RepoId (Ulid 3 3)) (BlobOid (Oid [7])))"
proof -
  have "map_option (\<lambda>s. (store_len s, store_comment s (ReviewId (Ulid 2 2)) (CommentId (Ulid 5 5))))
      (append_all index_guard sample_log fresh_store)
      = Some (4, Some (sample_comment (Ulid 4 4) (Ulid 5 5)))" by code_simp
  then obtain s where s: "append_all index_guard sample_log fresh_store = Some s" "store_len s = 4"
    "store_comment s (ReviewId (Ulid 2 2)) (CommentId (Ulid 5 5)) = Some (sample_comment (Ulid 4 4) (Ulid 5 5))"
    by auto
  have "reachable_by index_guard s" by (rule append_all_reachable [OF s(1) reachable_fresh_store])
  then show ?thesis
    using s comments_on_blob_exact [of s "ReviewId (Ulid 2 2)" "CommentId (Ulid 5 5)" "RepoId (Ulid 3 3)"]
    by (simp add: sample_comment_def)
qed

end
