(* ===== verification/Nits_Replay.thy ===== *)
theory Nits_Replay
  imports Nits_Store_Views
begin

text \<open>
  Bounded event replay: the cursor, position and page of \<open>crates/nits-protocol/src/replay.rs\<close>,
  the page scan of \<open>crates/nits-review-core/src/store/replay.rs\<close> and the scope filter of
  \<open>rpc.rs\<close>. The byte lengths of a stored row and of an encoded event belong to serde and are
  parameters of the scan.
\<close>

section \<open>Positions and pages\<close>

datatype replay_cursor = ReplayCursor (cursor_after: seq) (cursor_through: seq)

datatype replay_cursor_error = ReplayCursorError seq seq

definition replay_cursor_new :: "seq \<Rightarrow> seq \<Rightarrow> (replay_cursor_error, replay_cursor) result" where
  "replay_cursor_new after through =
     (if after < through then Inr (ReplayCursor after through)
      else Inl (ReplayCursorError after through))"

datatype since = Since_Now | Since_After seq

datatype replay_position =
    Position_Start since
  | Position_Continue replay_cursor
  | Position_Follow seq

datatype replay_progress =
    Progress_More seq
  | Progress_Complete

record replay_page =
  pg_through :: seq
  pg_events :: "event list"
  pg_progress :: replay_progress

section \<open>Scanning one page\<close>

definition REPLAY_SCAN_LIMIT :: nat where
  "REPLAY_SCAN_LIMIT = 256"

definition REPLAY_PAGE_BYTES :: nat where
  "REPLAY_PAGE_BYTES = 1024 * 1024"

definition REPLAY_EVENT_BYTES :: nat where
  "REPLAY_EVENT_BYTES = 64 * 1024 * 1024 - 4096"

text \<open>Byte lengths: of the row in the database, and of the event on the wire.\<close>

record byte_lengths =
  stored_len :: "stored_event \<Rightarrow> nat"
  wire_len :: "event \<Rightarrow> nat"

fun replay_scan :: "byte_lengths \<Rightarrow> (u64 \<times> stored_event) list \<Rightarrow> event list \<Rightarrow> nat \<Rightarrow> nat \<Rightarrow> seq
    \<Rightarrow> (store_error, event list \<times> seq) result" where
  "replay_scan len [] events stored_bytes wire_bytes after = Inr (events, after)"
| "replay_scan len ((key, stored) # entries) events stored_bytes wire_bytes after =
     (if events \<noteq> [] \<and> stored_bytes + stored_len len stored > REPLAY_PAGE_BYTES
      then Inr (events, after)
      else if stored_len len stored > REPLAY_EVENT_BYTES then Inl (Replay (ReplayEventTooLarge key))
      else let encoded = wire_len len (se_event stored) in
        if encoded > REPLAY_EVENT_BYTES then Inl (Replay (ReplayEventTooLarge key))
        else if events \<noteq> [] \<and> wire_bytes + encoded + 1 > REPLAY_PAGE_BYTES
        then Inr (events, after)
        else replay_scan len entries (events @ [se_event stored])
               (stored_bytes + stored_len len stored) (wire_bytes + encoded + 1) key)"

definition replay_window :: "seq \<Rightarrow> replay_position \<Rightarrow> (store_error, seq \<times> seq) result" where
  "replay_window head position =
     (case position of
        Position_Start Since_Now \<Rightarrow> Inr (head, head)
      | Position_Start (Since_After seq) \<Rightarrow> Inr (seq, max head seq)
      | Position_Follow seq \<Rightarrow> Inr (seq, max head seq)
      | Position_Continue cursor \<Rightarrow>
          if cursor_through cursor > head
          then Inl (Replay (ReplayEndBeyondHead (cursor_through cursor) head))
          else Inr (cursor_after cursor, cursor_through cursor))"

definition replay_page :: "byte_lengths \<Rightarrow> replay_position \<Rightarrow> store \<Rightarrow> (store_error, replay_page) result" where
  "replay_page len position s =
     (let head = (case last_seq s of None \<Rightarrow> 0 | Some q \<Rightarrow> q) in
      bindR (replay_window head position) (\<lambda>(after, through).
        if after \<ge> through
        then Inr \<lparr>pg_through = through, pg_events = [], pg_progress = Progress_Complete\<rparr>
        else
          bindR (replay_scan len
                   (take REPLAY_SCAN_LIMIT
                     (tbl_range (\<lambda>k. after < k \<and> k \<le> through) (st_events s))) [] 0 0 after)
            (\<lambda>(events, after').
               Inr \<lparr>pg_through = through, pg_events = events,
                    pg_progress = (if after' \<ge> through then Progress_Complete
                                   else Progress_More after')\<rparr>)))"

section \<open>Scopes\<close>

datatype subscribe_scope =
    Scope_Everything
  | Scope_Workspace workspace_id
  | Scope_Review review_id
  | Scope_AwaitingAgent string

fun scope_matches :: "subscribe_scope \<Rightarrow> event \<Rightarrow> (review_id \<Rightarrow> workspace_id option) \<Rightarrow> bool" where
  "scope_matches Scope_Everything event workspace_of \<longleftrightarrow> True"
| "scope_matches (Scope_Workspace workspace_id) event workspace_of \<longleftrightarrow>
     (case body_workspace_id (ev_body event) of
        Some w \<Rightarrow> Some w
      | None \<Rightarrow> Option.bind (body_review_id (ev_body event)) workspace_of) = Some workspace_id"
| "scope_matches (Scope_Review review_id) event workspace_of \<longleftrightarrow>
     body_review_id (ev_body event) = Some review_id"
| "scope_matches (Scope_AwaitingAgent agent) event workspace_of \<longleftrightarrow>
     (case ev_body event of
        ReviewRequested _ recipient _ _ _ \<Rightarrow> recipient = agent
      | _ \<Rightarrow> False)"

section \<open>What a scan returns\<close>

definition sizes_ok :: "byte_lengths \<Rightarrow> stored_event \<Rightarrow> bool" where
  "sizes_ok len stored \<longleftrightarrow>
     stored_len len stored \<le> REPLAY_EVENT_BYTES \<and> wire_len len (se_event stored) \<le> REPLAY_EVENT_BYTES"

text \<open>
  A scan over rows of acceptable size takes a prefix of them, and a nonempty one when it
  starts a page.
\<close>

lemma replay_scan_prefix:
  "list_all (\<lambda>e. sizes_ok len (snd e)) es \<Longrightarrow>
     \<exists>n\<le>length es. replay_scan len es evs sb wb after =
         Inr (evs @ map (\<lambda>e. se_event (snd e)) (take n es),
              if n = 0 then after else fst (es ! (n - 1)))
       \<and> (evs = [] \<longrightarrow> es \<noteq> [] \<longrightarrow> 0 < n)"
proof (induction es arbitrary: evs sb wb after)
  case (Cons e es)
  obtain key stored where e: "e = (key, stored)" by (cases e)
  let ?big = "evs \<noteq> [] \<and> sb + stored_len len stored > REPLAY_PAGE_BYTES
    \<or> evs \<noteq> [] \<and> wb + wire_len len (se_event stored) + 1 > REPLAY_PAGE_BYTES"
  have ok: "sizes_ok len stored" using Cons.prems e by simp
  show ?case
  proof (cases ?big)
    case True
    then have "replay_scan len (e # es) evs sb wb after = Inr (evs, after)"
      using ok by (auto simp: e sizes_ok_def Let_def)
    then show ?thesis using True by (intro exI [of _ 0]) auto
  next
    case False
    then have step: "replay_scan len (e # es) evs sb wb after =
        replay_scan len es (evs @ [se_event stored]) (sb + stored_len len stored)
          (wb + wire_len len (se_event stored) + 1) key"
      using ok by (auto simp: e sizes_ok_def Let_def)
    obtain n where n: "n \<le> length es"
      "replay_scan len es (evs @ [se_event stored]) (sb + stored_len len stored)
          (wb + wire_len len (se_event stored) + 1) key =
        Inr ((evs @ [se_event stored]) @ map (\<lambda>e. se_event (snd e)) (take n es),
             if n = 0 then key else fst (es ! (n - 1)))"
      using Cons.IH [of "evs @ [se_event stored]" "sb + stored_len len stored"
          "wb + wire_len len (se_event stored) + 1" key] Cons.prems by auto
    then show ?thesis
      unfolding step n(2) by (intro exI [of _ "Suc n"]) (cases n; simp add: e)
  qed
qed simp

text \<open>The budgets of one page.\<close>

lemma replay_scan_budget:
  "replay_scan len es evs sb wb after = Inr (out, after') \<Longrightarrow>
     (evs \<noteq> [] \<longrightarrow> (length evs \<le> 1 \<or> wb \<le> REPLAY_PAGE_BYTES))
     \<Longrightarrow> wb = sum_list (map (\<lambda>e. wire_len len e + 1) evs)
     \<Longrightarrow> list_all (\<lambda>e. wire_len len e \<le> REPLAY_EVENT_BYTES) evs \<Longrightarrow>
     length out \<le> length evs + length es
     \<and> (length out \<le> 1 \<or> sum_list (map (\<lambda>e. wire_len len e + 1) out) \<le> REPLAY_PAGE_BYTES)
     \<and> list_all (\<lambda>e. wire_len len e \<le> REPLAY_EVENT_BYTES) out"
proof (induction es arbitrary: evs sb wb after)
  case (Cons e es)
  obtain key stored where e: "e = (key, stored)" by (cases e)
  show ?case
  proof (cases "out = evs")
    case True
    then show ?thesis using Cons.prems by auto
  next
    case False
    let ?evs = "evs @ [se_event stored]"
    let ?wb = "wb + wire_len len (se_event stored) + 1"
    have step: "replay_scan len es ?evs (sb + stored_len len stored) ?wb key = Inr (out, after')"
      and small: "wire_len len (se_event stored) \<le> REPLAY_EVENT_BYTES"
      and room: "evs \<noteq> [] \<Longrightarrow> ?wb \<le> REPLAY_PAGE_BYTES"
      using Cons.prems(1) False by (auto simp: e Let_def split: if_splits)
    have "length out \<le> length ?evs + length es
     \<and> (length out \<le> 1 \<or> sum_list (map (\<lambda>e. wire_len len e + 1) out) \<le> REPLAY_PAGE_BYTES)
     \<and> list_all (\<lambda>e. wire_len len e \<le> REPLAY_EVENT_BYTES) out"
      by (rule Cons.IH [OF step]) (use Cons.prems small room in auto)
    then show ?thesis by simp
  qed
qed auto

section \<open>Pages over a contiguous log\<close>

lemma filter_window:
  assumes "\<And>i. i < length xs \<Longrightarrow> P (xs ! i) \<longleftrightarrow> a \<le> i \<and> i < m" "a \<le> m"
  shows "filter P xs = take (m - a) (drop a xs)"
proof -
  have split: "xs = take a xs @ take (m - a) (drop a xs) @ drop m xs"
    using assms(2) by (metis append_take_drop_id drop_drop le_add_diff_inverse2)
  have "filter P (take a xs) = []" "filter P (drop m xs) = []"
    using assms(1) by (auto simp: filter_empty_conv in_set_conv_nth)
  moreover have "filter P (take (m - a) (drop a xs)) = take (m - a) (drop a xs)"
    using assms(1) by (auto simp: filter_id_conv in_set_conv_nth)
  ultimately show ?thesis by (subst split) (simp only: filter_append, simp)
qed

lemma log_inv_key:
  assumes "log_inv s" "i < store_len s"
  shows "fst (tbl_entries (st_events s) ! i) = of_nat (Suc i)"
proof -
  have "map fst (tbl_entries (st_events s)) ! i = map (\<lambda>i. of_nat (Suc i)) [0..<store_len s] ! i"
    using assms(1) by (simp only: log_inv_def)
  then show ?thesis using assms(2) by (simp add: store_len_def)
qed

lemma of_nat_seq_less: "m < 2 ^ 64 \<Longrightarrow> n < 2 ^ 64 \<Longrightarrow> (of_nat m :: seq) < of_nat n \<longleftrightarrow> m < n"
  by (simp only: of_nat_word_less_iff) (simp add: take_bit_nat_eq_self)

lemma of_nat_seq_le: "m < 2 ^ 64 \<Longrightarrow> n < 2 ^ 64 \<Longrightarrow> (of_nat m :: seq) \<le> of_nat n \<longleftrightarrow> m \<le> n"
  by (simp only: of_nat_word_less_eq_iff) (simp add: take_bit_nat_eq_self)

lemma range_window:
  assumes inv: "log_inv s" and bound: "store_len s < 2 ^ 64" and am: "a \<le> m" "m \<le> store_len s"
  shows "tbl_range (\<lambda>k. of_nat a < k \<and> k \<le> of_nat m) (st_events s)
    = take (m - a) (drop a (tbl_entries (st_events s)))"
  unfolding tbl_range_def
proof (rule filter_window [OF _ am(1)])
  fix i
  assume "i < length (tbl_entries (st_events s))"
  then have i: "i < store_len s" by (simp add: store_len_def)
  then have "Suc i < 2 ^ 64" "a < 2 ^ 64" "m < 2 ^ 64" using bound am by simp_all
  then show "(of_nat a < fst (tbl_entries (st_events s) ! i)
      \<and> fst (tbl_entries (st_events s) ! i) \<le> of_nat m) \<longleftrightarrow> a \<le> i \<and> i < m"
    using of_nat_seq_less [of a "Suc i"] of_nat_seq_le [of "Suc i" m]
    unfolding log_inv_key [OF inv i] by auto
qed

definition head_seq :: "store \<Rightarrow> seq" where
  "head_seq s = (case last_seq s of None \<Rightarrow> 0 | Some q \<Rightarrow> q)"

lemma log_inv_head:
  assumes "log_inv s"
  shows "head_seq s = of_nat (store_len s)"
proof -
  have "last_seq s = (if store_len s = 0 then None else Some (of_nat (store_len s)))"
    by (rule last_seq_of_keys) (use assms in \<open>simp add: log_inv_def\<close>)
  then show ?thesis by (simp add: head_seq_def)
qed

definition replayable :: "byte_lengths \<Rightarrow> store \<Rightarrow> bool" where
  "replayable len s \<longleftrightarrow> list_all (\<lambda>e. sizes_ok len (snd e)) (tbl_entries (st_events s))"

text \<open>One page over the window from \<open>a\<close> to \<open>m\<close> takes at least one event and says how far it got.\<close>

lemma replay_page_window:
  assumes inv: "log_inv s" and bound: "store_len s < 2 ^ 64" and am: "a < m" "m \<le> store_len s"
    and ok: "replayable len s"
    and win: "replay_window (head_seq s) pos = Inr (of_nat a, of_nat m)"
  shows "\<exists>n. 0 < n \<and> n \<le> m - a \<and> replay_page len pos s =
    Inr \<lparr>pg_through = of_nat m, pg_events = take n (drop a (log_events s)),
         pg_progress = (if a + n = m then Progress_Complete else Progress_More (of_nat (a + n)))\<rparr>"
proof -
  let ?es = "take REPLAY_SCAN_LIMIT (take (m - a) (drop a (tbl_entries (st_events s))))"
  have less: "(of_nat a :: seq) < of_nat m" using of_nat_seq_less [of a m] am bound by simp
  have len_es: "length ?es \<le> m - a" by simp
  have nonempty: "?es \<noteq> []"
    using am by (auto simp: REPLAY_SCAN_LIMIT_def store_len_def)
  have es_ok: "list_all (\<lambda>e. sizes_ok len (snd e)) ?es"
    using ok by (auto simp: replayable_def list_all_iff dest!: in_set_takeD in_set_dropD)
  from replay_scan_prefix [OF es_ok, of "[]" 0 0 "of_nat a"] obtain n where
    n: "n \<le> length ?es" "0 < n"
    and scan: "replay_scan len ?es [] 0 0 (of_nat a) =
      Inr (map (\<lambda>e. se_event (snd e)) (take n ?es), fst (?es ! (n - 1)))"
    using nonempty by force
  have nm: "n \<le> m - a" using n(1) len_es by (rule le_trans)
  have "n \<le> REPLAY_SCAN_LIMIT" using n(1) by simp
  then have events: "map (\<lambda>e. se_event (snd e)) (take n ?es) = take n (drop a (log_events s))"
    using nm by (simp add: log_events_def take_map drop_map min_def)
  have idx: "a + (n - 1) < store_len s" using n(2) nm am by linarith
  have "n - 1 < min REPLAY_SCAN_LIMIT (m - a)" using n nm by auto
  then have "?es ! (n - 1) = tbl_entries (st_events s) ! (a + (n - 1))"
    using am idx by (simp add: store_len_def)
  then have key: "fst (?es ! (n - 1)) = of_nat (a + n)"
    using log_inv_key [OF inv idx] n(2) by simp
  have done_iff: "(of_nat m :: seq) \<le> of_nat (a + n) \<longleftrightarrow> a + n = m"
  proof -
    have "a + n < 2 ^ 64" "m < 2 ^ 64" "a + n \<le> m" using nm am bound by linarith+
    then show ?thesis by (subst of_nat_seq_le) auto
  qed
  have range: "tbl_range (\<lambda>k. of_nat a < k \<and> k \<le> of_nat m) (st_events s)
      = take (m - a) (drop a (tbl_entries (st_events s)))"
    using range_window [OF inv bound, of a m] am by simp
  have "replay_page len pos s =
    Inr \<lparr>pg_through = of_nat m, pg_events = take n (drop a (log_events s)),
         pg_progress = (if a + n = m then Progress_Complete else Progress_More (of_nat (a + n)))\<rparr>"
    using less [unfolded not_le [symmetric]] win
    by (simp add: replay_page_def Let_def range scan [unfolded events key] done_iff
        flip: head_seq_def del: of_nat_add take_take)
  then show ?thesis using n(2) nm by blast
qed

section \<open>Following pages to the end\<close>

text \<open>
  A client that asks for one page after another, continuing the window of the first; \<open>None\<close>
  when the fuel runs out.
\<close>

fun drain :: "nat \<Rightarrow> byte_lengths \<Rightarrow> replay_position \<Rightarrow> store \<Rightarrow> (store_error, event list) result option" where
  "drain 0 len pos s = None"
| "drain (Suc fuel) len pos s =
     (case replay_page len pos s of
        Inl e \<Rightarrow> Some (Inl e)
      | Inr page \<Rightarrow>
          (case pg_progress page of
             Progress_Complete \<Rightarrow> Some (Inr (pg_events page))
           | Progress_More after \<Rightarrow>
               map_option (\<lambda>r. bindR r (\<lambda>rest. Inr (pg_events page @ rest)))
                 (drain fuel len (Position_Continue (ReplayCursor after (pg_through page))) s)))"

lemma drain_window:
  assumes inv: "log_inv s" and bound: "store_len s < 2 ^ 64" and m: "m \<le> store_len s"
    and ok: "replayable len s"
  shows "a < m \<Longrightarrow> m - a \<le> fuel \<Longrightarrow>
    replay_window (head_seq s) pos = Inr (of_nat a, of_nat m) \<Longrightarrow>
    drain fuel len pos s = Some (Inr (take (m - a) (drop a (log_events s))))"
proof (induction fuel arbitrary: a pos)
  case (Suc fuel)
  obtain n where n: "0 < n" "n \<le> m - a" and page: "replay_page len pos s =
    Inr \<lparr>pg_through = of_nat m, pg_events = take n (drop a (log_events s)),
         pg_progress = (if a + n = m then Progress_Complete else Progress_More (of_nat (a + n)))\<rparr>"
    using replay_page_window [OF inv bound Suc.prems(1) m ok Suc.prems(3)] by blast
  show ?case
  proof (cases "a + n = m")
    case True
    then have "m - a = n" by simp
    then show ?thesis using True by (simp add: page del: of_nat_add)
  next
    case False
    let ?next = "Position_Continue (ReplayCursor (of_nat (a + n)) (of_nat m))"
    have win: "replay_window (head_seq s) ?next = Inr (of_nat (a + n), of_nat m)"
      using of_nat_seq_less [of "store_len s" m] m bound log_inv_head [OF inv]
      by (simp add: replay_window_def del: of_nat_add)
    have "drain fuel len ?next s = Some (Inr (take (m - (a + n)) (drop (a + n) (log_events s))))"
      by (rule Suc.IH) (use Suc.prems n False win in auto)
    moreover have "take (m - a) (drop a (log_events s)) =
        take n (drop a (log_events s)) @ take (m - (a + n)) (drop (a + n) (log_events s))"
      using n by (metis add.commute diff_diff_left drop_drop le_add_diff_inverse take_add)
    ultimately show ?thesis using False by (simp add: page del: of_nat_add)
  qed
qed simp

text \<open>
  C17: Replay is complete and terminates: on a log of replayable events, a client that starts
  after event \<open>k\<close> and continues each page's cursor gets exactly the events after \<open>k\<close>, in
  order, once each, in at most one page more than there are events (every page that is not the
  last makes progress).
\<close>

theorem replay_complete:
  assumes "reachable s" "store_len s < 2 ^ 64 - 1" "replayable len s" "k \<le> store_len s"
  shows "drain (Suc (store_len s)) len (Position_Start (Since_After (of_nat k))) s
    = Some (Inr (events_after (Some (of_nat k)) s))"
proof -
  have inv: "log_inv s" and bound: "store_len s < 2 ^ 64"
    using assms reachable_log_inv [of _ s] by auto
  have head: "head_seq s = of_nat (store_len s)" by (rule log_inv_head [OF inv])
  have "(of_nat k :: seq) \<le> of_nat (store_len s)"
    using of_nat_seq_le [of k "store_len s"] assms(4) bound by simp
  then have win: "replay_window (head_seq s) (Position_Start (Since_After (of_nat k)))
      = Inr (of_nat k, of_nat (store_len s))"
    by (simp add: replay_window_def head max_def)
  have after: "events_after (Some (of_nat k)) s = drop k (log_events s)"
    by (rule events_after_drop [OF inv bound assms(4)])
  show ?thesis
  proof (cases "k = store_len s")
    case True
    then have "events_after (Some (of_nat k)) s = []"
      unfolding after by (simp add: log_events_def store_len_def)
    then show ?thesis using win True by (simp add: replay_page_def Let_def flip: head_seq_def)
  next
    case False
    then have "drain (Suc (store_len s)) len (Position_Start (Since_After (of_nat k))) s
        = Some (Inr (take (store_len s - k) (drop k (log_events s))))"
      using assms(4) by (intro drain_window [OF inv bound _ assms(3) _ _ win]) simp_all
    then show ?thesis by (simp add: after log_events_def store_len_def)
  qed
qed

definition unit_lengths :: byte_lengths where
  "unit_lengths = \<lparr>stored_len = (\<lambda>_. 1), wire_len = (\<lambda>_. 1)\<rparr>"

theorem replay_complete_witness:
  "\<exists>s. append_all (\<lambda>_ _. True) sample_log fresh_store = Some s
     \<and> drain 5 unit_lengths (Position_Start (Since_After 1)) s = Some (Inr (events_after (Some 1) s))"
proof -
  obtain s where s: "append_all (\<lambda>_ _. True) sample_log fresh_store = Some s" "store_len s = 4"
    using sample_log_appends by blast
  have "reachable s" by (rule append_all_reachable [OF s(1) reachable_fresh_store])
  moreover have "replayable unit_lengths s"
    by (simp add: replayable_def sizes_ok_def unit_lengths_def REPLAY_EVENT_BYTES_def list_all_iff)
  ultimately have "drain (Suc (store_len s)) unit_lengths (Position_Start (Since_After (of_nat 1))) s
      = Some (Inr (events_after (Some (of_nat 1)) s))"
    using s(2) by (intro replay_complete) simp_all
  then show ?thesis using s by (auto simp del: drain.simps)
qed

text \<open>
  C39: Every page respects the transport: it scans at most 256 events, each event on it fits
  the frame limit, and a page of more than one event stays within the page budget.
\<close>

theorem replay_page_bounded:
  assumes "replay_page len pos s = Inr page"
  shows "length (pg_events page) \<le> REPLAY_SCAN_LIMIT
    \<and> list_all (\<lambda>e. wire_len len e \<le> REPLAY_EVENT_BYTES) (pg_events page)
    \<and> (length (pg_events page) \<le> 1
       \<or> sum_list (map (\<lambda>e. wire_len len e + 1) (pg_events page)) \<le> REPLAY_PAGE_BYTES)"
proof -
  obtain after through where win: "replay_window (head_seq s) pos = Inr (after, through)"
    using assms by (auto simp: replay_page_def result_simps head_seq_def)
  show ?thesis
  proof (cases "after \<ge> through")
    case True
    then show ?thesis using assms win by (auto simp: replay_page_def Let_def simp flip: head_seq_def)
  next
    case False
    let ?es = "take REPLAY_SCAN_LIMIT (tbl_range (\<lambda>k. after < k \<and> k \<le> through) (st_events s))"
    obtain after' where scan: "replay_scan len ?es [] 0 0 after = Inr (pg_events page, after')"
      using assms win False
      by (auto simp: replay_page_def Let_def result_simps simp flip: head_seq_def)
    have "length (pg_events page) \<le> length ?es"
      using replay_scan_budget [OF scan] by simp
    then show ?thesis using replay_scan_budget [OF scan] by simp
  qed
qed

theorem replay_page_bounded_witness:
  "\<exists>page. replay_page unit_lengths (Position_Start Since_Now) fresh_store = Inr page
     \<and> length (pg_events page) \<le> REPLAY_SCAN_LIMIT"
proof -
  have "\<exists>page. replay_page unit_lengths (Position_Start Since_Now) fresh_store = Inr page"
    by (simp add: replay_page_def replay_window_def fresh_store_def tables_ensure_def store_empty_def
        last_seq_def tbl_last_def Let_def)
  then show ?thesis using replay_page_bounded by blast
qed

end
