(* ===== verification/Nits_Connection.thy ===== *)
theory Nits_Connection
  imports Nits_Wire Nits_Render_Laws Nits_Replay
begin

text \<open>
  One client connection of the daemon: its messages, \<open>crates/nits-protocol/src/rpc.rs\<close>, the handshake,
  \<open>crates/nitsd/src/handshake.rs\<close>, the multiplexing of requests in \<open>connection.rs\<close> and the streaming of
  a render. The payloads that a connection only passes on are type parameters: \<open>'q\<close> of requests and
  \<open>'r\<close> of responses.
\<close>

section \<open>Messages\<close>

datatype upgrade_id = UpgradeId (upgrade_key: ulid)
datatype request_id = RequestId (request_number: u64)

record build_info =
  bi_name :: string
  bi_version :: string

record upgrade_notice =
  un_latest :: protocol_version
  un_message :: string

datatype entity_kind =
    Kind_Workspace | Kind_Repo | Kind_Review | Kind_Comment | Kind_Thread | Kind_Ref | Kind_Path | Kind_Blob | Kind_Chunk

datatype rpc_error =
    Rpc_Restarting upgrade_id
  | Rpc_RestartInterrupted upgrade_id
  | Rpc_NotFound entity_kind string
  | Rpc_Invalid string
  | Rpc_Forbidden string
  | Rpc_SeqTooOld seq
  | Rpc_Cancelled
  | Rpc_UnsupportedProtocol protocol_version "protocol_version list"
  | Rpc_VersionMismatch protocol_version protocol_version
  | Rpc_Internal string

datatype 'q client_msg =
    Client_Hello client_id protocol_version build_info author
  | Client_Request request_id 'q
  | Client_Cancel request_id

datatype render_target = Target_Diff change_kind | Target_Blob blob_entry

record file_render_header =
  fh_repo_id :: repo_id
  fh_path :: repo_path
  fh_target :: render_target
  fh_opts :: render_opts
  fh_lang :: "string option"
  fh_content :: render_content

datatype stream_item =
    Item_ReviewSnapshot review_snapshot
  | Item_TreeSnapshot tree_snapshot
  | Item_Header file_render_header
  | Item_Chunk repo_id repo_path render_chunk

text \<open>\<open>'r\<close> is a response, \<open>'u\<close> an upgrade operation.\<close>

datatype ('r, 'u) server_msg =
    Server_Lifecycle 'u
  | Server_Welcome protocol_version build_info u32 "upgrade_notice option"
  | Server_Rejected rpc_error
  | Server_Response request_id 'r
  | Server_StreamItem request_id stream_item
  | Server_StreamEnd request_id
  | Server_Error request_id rpc_error
  | Server_Event event
  | Server_TreeDelta tree_delta

section \<open>The handshake\<close>

definition SUPPORTED :: "protocol_version list" where
  "SUPPORTED = [protocol_CURRENT]"

record awaiting_hello =
  ah_daemon :: build_info
  ah_schema :: u32

record negotiated =
  ng_protocol :: protocol_version
  ng_client_id :: client_id
  ng_client :: build_info
  ng_author :: author

definition wrap :: "negotiated \<Rightarrow> ('r, 'u) server_msg \<Rightarrow> ('r, 'u) server_msg envelope" where
  "wrap n msg = \<lparr>en_v = ng_protocol n, en_msg = msg\<rparr>"

definition check :: "negotiated \<Rightarrow> protocol_version \<Rightarrow> (rpc_error, unit) result" where
  "check n received =
     (if received = ng_protocol n then Inr () else Inl (Rpc_VersionMismatch (ng_protocol n) received))"

definition reject :: "protocol_version \<Rightarrow> rpc_error \<Rightarrow> ('r, 'u) server_msg envelope" where
  "reject v error = \<lparr>en_v = v, en_msg = Server_Rejected error\<rparr>"

definition negotiate :: "awaiting_hello \<Rightarrow> 'q client_msg envelope
    \<Rightarrow> (('r, 'u) server_msg envelope, negotiated \<times> ('r, 'u) server_msg envelope) result" where
  "negotiate self first =
     (case en_msg first of
        Client_Hello client_id protocol client author \<Rightarrow>
          if en_v first \<noteq> protocol then
            Inl (reject (en_v first) (Rpc_Invalid
              (''Hello.protocol '' @ version_display protocol @ '' disagrees with envelope version ''
               @ version_display (en_v first))))
          else if \<not> list_ex (\<lambda>s. pv_major s = pv_major protocol \<and> pv_minor s = pv_minor protocol) SUPPORTED then
            Inl (reject protocol (Rpc_UnsupportedProtocol protocol SUPPORTED))
          else
            (let upgrade = (if pv_minor protocol < pv_minor protocol_CURRENT
                   then Some \<lparr>un_latest = protocol_CURRENT,
                              un_message = ''protocol '' @ version_display protocol @ '' is still served; ''
                                @ version_display protocol_CURRENT @ '' is current''\<rparr>
                   else None);
                 n = \<lparr>ng_protocol = protocol, ng_client_id = client_id, ng_client = client, ng_author = author\<rparr>
             in Inr (n, wrap n (Server_Welcome protocol (ah_daemon self) (ah_schema self) upgrade)))
      | _ \<Rightarrow> Inl (reject (en_v first) (Rpc_Invalid ''first frame must be Hello'')))"

text \<open>
  The start of \<open>serve_framed\<close>: what is sent for the first message, and the negotiated connection when
  it goes on. A daemon that is restarting refuses after the negotiation.
\<close>

definition greet :: "('u \<Rightarrow> upgrade_id) \<Rightarrow> 'u option \<Rightarrow> awaiting_hello \<Rightarrow> 'q client_msg envelope
    \<Rightarrow> ('r, 'u) server_msg envelope \<times> negotiated option" where
  "greet id_of operation hello first =
     (case negotiate hello first of
        Inl reply \<Rightarrow> (reply, None)
      | Inr (n, welcome) \<Rightarrow>
          (case operation of
             Some op1 \<Rightarrow> (wrap n (Server_Rejected (Rpc_Restarting (id_of op1))), None)
           | None \<Rightarrow> (welcome, Some n)))"

text \<open>
  The handshake serves exactly a \<open>Hello\<close> whose version is its envelope's and agrees with the current
  one in major and minor; it is served at the version it asked for and told nothing of an upgrade. Every
  other first message, and every one while a restart is under way, is answered by one rejection.
\<close>

lemma greet_exactly:
  fixes first :: "'q client_msg envelope" and id_of :: "'u \<Rightarrow> upgrade_id"
  shows "(snd (greet id_of operation hello first :: ('r, 'u) server_msg envelope \<times> negotiated option) = Some n) =
      (operation = None \<and> en_msg first = Client_Hello (ng_client_id n) (ng_protocol n) (ng_client n) (ng_author n)
       \<and> en_v first = ng_protocol n
       \<and> pv_major (ng_protocol n) = pv_major protocol_CURRENT \<and> pv_minor (ng_protocol n) = pv_minor protocol_CURRENT)
    \<and> (case greet id_of operation hello first :: ('r, 'u) server_msg envelope \<times> negotiated option of
         (reply, Some n) \<Rightarrow> reply = wrap n (Server_Welcome (ng_protocol n) (ah_daemon hello) (ah_schema hello) None)
       | (reply, None) \<Rightarrow> en_v reply = en_v first \<and> (\<exists>e. en_msg reply = Server_Rejected e))"
  by (cases "en_msg first"; cases operation; cases n)
    (auto simp: greet_def negotiate_def SUPPORTED_def wrap_def reject_def Let_def)

section \<open>Requests\<close>

text \<open>
  The read loop of a connection. Every request gets a cancellation token of its own, so that an id that is
  used again is told apart from its first use. A message the loop or a request sends is recorded with the
  token of the request it concerns.
\<close>

record ('q, 'r, 'u) mux =
  mx_in_flight :: "request_id \<rightharpoonup> nat"
  mx_requests :: "(nat \<times> request_id \<times> 'q) list"
  mx_cancelled :: "nat list"
  mx_next :: nat
  mx_out :: "(nat option \<times> ('r, 'u) server_msg) list"

definition mux_empty :: "('q, 'r, 'u) mux" where
  "mux_empty = \<lparr>mx_in_flight = Map.empty, mx_requests = [], mx_cancelled = [], mx_next = 0, mx_out = []\<rparr>"

definition mux_send :: "nat option \<Rightarrow> ('r, 'u) server_msg \<Rightarrow> ('q, 'r, 'u) mux \<Rightarrow> ('q, 'r, 'u) mux" where
  "mux_send t msg m = m\<lparr>mx_out := mx_out m @ [(t, msg)]\<rparr>"

definition mux_receive :: "negotiated \<Rightarrow> 'q client_msg envelope \<Rightarrow> ('q, 'r, 'u) mux \<Rightarrow> ('q, 'r, 'u) mux" where
  "mux_receive n env m =
     (case check n (en_v env) of
        Inl error \<Rightarrow>
          mux_send None (Server_Error
            (case en_msg env of Client_Request rid _ \<Rightarrow> rid | Client_Cancel rid \<Rightarrow> rid | Client_Hello _ _ _ _ \<Rightarrow> RequestId 0)
            error) m
      | Inr _ \<Rightarrow>
          (case en_msg env of
             Client_Hello _ _ _ _ \<Rightarrow>
               mux_send None (Server_Error (RequestId 0) (Rpc_Invalid ''Hello after handshake'')) m
           | Client_Request rid request \<Rightarrow>
               m\<lparr>mx_in_flight := (mx_in_flight m)(rid \<mapsto> mx_next m),
                 mx_requests := mx_requests m @ [(mx_next m, rid, request)], mx_next := Suc (mx_next m)\<rparr>
           | Client_Cancel rid \<Rightarrow>
               (case mx_in_flight m rid of
                  None \<Rightarrow> m
                | Some t \<Rightarrow>
                    mux_send (Some t) (Server_StreamEnd rid) (mux_send (Some t) (Server_Error rid Rpc_Cancelled)
                      (m\<lparr>mx_in_flight := (mx_in_flight m)(rid := None), mx_cancelled := t # mx_cancelled m\<rparr>)))))"

text \<open>A request that has completed leaves the set; its id leaves only when the token is still its own.\<close>

definition mux_complete :: "nat \<Rightarrow> request_id \<Rightarrow> ('q, 'r, 'u) mux \<Rightarrow> ('q, 'r, 'u) mux" where
  "mux_complete t rid m =
     m\<lparr>mx_requests := filter (\<lambda>r. fst r \<noteq> t) (mx_requests m),
       mx_in_flight := (if mx_in_flight m rid = Some t then (mx_in_flight m)(rid := None) else mx_in_flight m)\<rparr>"

text \<open>A restart: what is still in flight at the deadline, in some order, is interrupted and dropped.\<close>

definition mux_interrupt :: "upgrade_id \<Rightarrow> request_id list \<Rightarrow> ('q, 'r, 'u) mux \<Rightarrow> ('q, 'r, 'u) mux" where
  "mux_interrupt op1 ids m =
     m\<lparr>mx_out := mx_out m @ map (\<lambda>rid. (mx_in_flight m rid, Server_Error rid (Rpc_RestartInterrupted op1))) ids,
       mx_in_flight := Map.empty, mx_requests := []\<rparr>"

text \<open>
  The steps of the loop: a message arrives, a request that was not cancelled sends something, a request
  completes, a restart begins, a restart ends.
\<close>

inductive mux_step :: "negotiated \<Rightarrow> ('q, 'r, 'u) mux \<Rightarrow> ('q, 'r, 'u) mux \<Rightarrow> bool" for n where
  received: "mux_step n m (mux_receive n env m)"
| handled: "(t, rid, q) \<in> set (mx_requests m) \<Longrightarrow> t \<notin> set (mx_cancelled m) \<Longrightarrow> mux_step n m (mux_send (Some t) msg m)"
| completed: "(t, rid, q) \<in> set (mx_requests m) \<Longrightarrow> mux_step n m (mux_complete t rid m)"
| restarting: "mux_step n m (mux_send None (Server_Lifecycle op1) m)"
| restarted: "distinct ids \<Longrightarrow> set ids = dom (mx_in_flight m) \<Longrightarrow> mux_step n m (mux_interrupt op2 ids m)"

inductive mux_reachable :: "negotiated \<Rightarrow> ('q, 'r, 'u) mux \<Rightarrow> bool" for n where
  start: "mux_reachable n mux_empty"
| step: "mux_reachable n m \<Longrightarrow> mux_step n m m' \<Longrightarrow> mux_reachable n m'"

section \<open>What the loop keeps\<close>

text \<open>Tokens are unique; an id in flight names a running request that was not cancelled.\<close>

definition mux_inv :: "('q, 'r, 'u) mux \<Rightarrow> bool" where
  "mux_inv m \<longleftrightarrow> distinct (map fst (mx_requests m))
     \<and> (\<forall>(t, rid, q)\<in>set (mx_requests m). t < mx_next m)
     \<and> (\<forall>t\<in>set (mx_cancelled m). t < mx_next m)
     \<and> (\<forall>rid t. mx_in_flight m rid = Some t \<longrightarrow> (\<exists>q. (t, rid, q) \<in> set (mx_requests m)) \<and> t \<notin> set (mx_cancelled m))"

text \<open>After the two messages that end a cancelled request, nothing of it is sent.\<close>

definition silenced :: "(nat option \<times> ('r, 'u) server_msg) list \<Rightarrow> nat \<Rightarrow> bool" where
  "silenced out t \<longleftrightarrow> (\<exists>rid xs ys. out =
     xs @ [(Some t, Server_Error rid Rpc_Cancelled), (Some t, Server_StreamEnd rid)] @ ys \<and> Some t \<notin> fst ` set ys)"

lemma silenced_append: "silenced out t \<Longrightarrow> Some t \<notin> fst ` set zs \<Longrightarrow> silenced (out @ zs) t"
proof -
  assume out: "silenced out t" "Some t \<notin> fst ` set zs"
  then obtain rid xs ys where
    "out = xs @ [(Some t, Server_Error rid Rpc_Cancelled), (Some t, Server_StreamEnd rid)] @ ys"
    "Some t \<notin> fst ` set ys" unfolding silenced_def by blast
  then have "out @ zs = xs @ [(Some t, Server_Error rid Rpc_Cancelled), (Some t, Server_StreamEnd rid)] @ (ys @ zs)"
    "Some t \<notin> fst ` set (ys @ zs)" using out(2) by auto
  then show ?thesis unfolding silenced_def by blast
qed

lemma mux_send_simps [simp]:
  "mx_out (mux_send u msg m) = mx_out m @ [(u, msg)]" "mx_cancelled (mux_send u msg m) = mx_cancelled m"
  "mx_requests (mux_send u msg m) = mx_requests m" "mx_in_flight (mux_send u msg m) = mx_in_flight m"
  "mx_next (mux_send u msg m) = mx_next m"
  by (simp_all add: mux_send_def)

text \<open>An id in flight is that of its token's request.\<close>

lemma mux_inv_id:
  assumes "mux_inv m" "mx_in_flight m rid = Some t" "(t, rid', q) \<in> set (mx_requests m)"
  shows "rid' = rid"
proof -
  obtain q' where "(t, rid, q') \<in> set (mx_requests m)" using assms(1,2) unfolding mux_inv_def by blast
  moreover have "distinct (map fst (mx_requests m))" using assms(1) by (simp add: mux_inv_def)
  ultimately show ?thesis using assms(3) by (metis Pair_inject eq_key_imp_eq_value)
qed

lemma mux_inv_request:
  assumes "mux_inv m"
  shows "mux_inv (m\<lparr>mx_in_flight := (mx_in_flight m)(rid \<mapsto> mx_next m),
    mx_requests := mx_requests m @ [(mx_next m, rid, q)], mx_next := Suc (mx_next m)\<rparr>)"
proof -
  have "\<forall>(t, rid, q)\<in>set (mx_requests m). t < mx_next m" "\<forall>t\<in>set (mx_cancelled m). t < mx_next m"
    using assms unfolding mux_inv_def by blast+
  then have "mx_next m \<notin> fst ` set (mx_requests m)" "mx_next m \<notin> set (mx_cancelled m)" by auto
  moreover have "(\<exists>q'. (t, r, q') \<in> set (mx_requests m @ [(mx_next m, rid, q)])) \<and> t \<notin> set (mx_cancelled m)"
    if "((mx_in_flight m)(rid \<mapsto> mx_next m)) r = Some t" for r t
    using that assms calculation unfolding mux_inv_def by (cases "r = rid") auto
  ultimately show ?thesis using assms unfolding mux_inv_def by auto
qed

lemma mux_inv_cancel:
  assumes "mux_inv m" "mx_in_flight m rid = Some t"
  shows "mux_inv (m\<lparr>mx_in_flight := (mx_in_flight m)(rid := None), mx_cancelled := t # mx_cancelled m\<rparr>)"
proof -
  obtain q where q: "(t, rid, q) \<in> set (mx_requests m)" using assms unfolding mux_inv_def by blast
  have "rid' = rid" if "mx_in_flight m rid' = Some t" for rid' using mux_inv_id [OF assms(1) that q] by simp
  then have "t' \<noteq> t" if "((mx_in_flight m)(rid := None)) rid' = Some t'" for rid' t'
    using that by (auto split: if_splits)
  moreover have "t < mx_next m" using assms(1) q unfolding mux_inv_def by blast
  ultimately show ?thesis using assms(1) unfolding mux_inv_def by (auto split: if_splits)
qed

lemma mux_inv_complete:
  assumes "mux_inv m" "(t, rid, q) \<in> set (mx_requests m)"
  shows "mux_inv (mux_complete t rid m)"
proof -
  have other: "t' \<noteq> t" if "mx_in_flight (mux_complete t rid m) rid' = Some t'" for rid' t'
  proof
    assume "t' = t"
    then have "mx_in_flight m rid' = Some t" using that by (auto simp: mux_complete_def split: if_splits)
    then show False using mux_inv_id [OF assms(1) _ assms(2)] that \<open>t' = t\<close>
      by (auto simp: mux_complete_def split: if_splits)
  qed
  have sub: "mx_in_flight m rid' = Some t'" if "mx_in_flight (mux_complete t rid m) rid' = Some t'" for rid' t'
    using that by (auto simp: mux_complete_def split: if_splits)
  have "\<exists>q. (t', rid', q) \<in> set (mx_requests (mux_complete t rid m)) \<and> t' \<notin> set (mx_cancelled m)"
    if f: "mx_in_flight (mux_complete t rid m) rid' = Some t'" for rid' t'
  proof -
    have "(\<exists>q. (t', rid', q) \<in> set (mx_requests m)) \<and> t' \<notin> set (mx_cancelled m)"
      using assms(1) sub [OF f] unfolding mux_inv_def by blast
    then show ?thesis using other [OF f] by (auto simp: mux_complete_def)
  qed
  moreover have "distinct (map fst (mx_requests (mux_complete t rid m)))"
    using assms(1) by (simp add: mux_inv_def mux_complete_def distinct_map_filter)
  moreover have "\<forall>(t, rid, q)\<in>set (mx_requests (mux_complete t rid m)). t < mx_next m"
    "\<forall>t\<in>set (mx_cancelled m). t < mx_next m" using assms(1) by (auto simp: mux_inv_def mux_complete_def)
  ultimately show ?thesis by (simp add: mux_inv_def) (auto simp: mux_complete_def)
qed

lemma mux_inv_send: "mux_inv m \<Longrightarrow> mux_inv (mux_send t msg m)"
  by (simp add: mux_inv_def)

definition mux_ok :: "('q, 'r, 'u) mux \<Rightarrow> bool" where
  "mux_ok m \<longleftrightarrow> mux_inv m \<and> (\<forall>t\<in>set (mx_cancelled m). silenced (mx_out m) t)"

lemma mux_ok_send: "mux_ok m \<Longrightarrow> u \<notin> Some ` set (mx_cancelled m) \<Longrightarrow> mux_ok (mux_send u msg m)"
  by (auto simp: mux_ok_def mux_inv_send intro!: silenced_append)

lemma mux_ok_cancel:
  assumes ok: "mux_ok m" and t: "mx_in_flight m rid = Some t"
  shows "mux_ok (mux_send (Some t) (Server_StreamEnd rid) (mux_send (Some t) (Server_Error rid Rpc_Cancelled)
    (m\<lparr>mx_in_flight := (mx_in_flight m)(rid := None), mx_cancelled := t # mx_cancelled m\<rparr>)))" (is "mux_ok ?m")
proof -
  have inv: "mux_inv m" using ok by (simp add: mux_ok_def)
  have fresh: "t \<notin> set (mx_cancelled m)" using inv t unfolding mux_inv_def by blast
  have out: "mx_out ?m = mx_out m @ [(Some t, Server_Error rid Rpc_Cancelled), (Some t, Server_StreamEnd rid)]" by simp
  have "silenced (mx_out ?m) t" unfolding silenced_def out by (metis append_Nil2 empty_iff image_empty list.set(1))
  moreover have "silenced (mx_out ?m) t'" if "t' \<in> set (mx_cancelled m)" for t'
    unfolding out using that ok fresh by (intro silenced_append) (auto simp: mux_ok_def)
  moreover have "mux_inv ?m" by (intro mux_inv_send mux_inv_cancel inv t)
  ultimately show ?thesis by (simp add: mux_ok_def)
qed

lemma mux_ok_request:
  "mux_ok m \<Longrightarrow> mux_ok (m\<lparr>mx_in_flight := (mx_in_flight m)(rid \<mapsto> mx_next m),
     mx_requests := mx_requests m @ [(mx_next m, rid, q)], mx_next := Suc (mx_next m)\<rparr>)"
  using mux_inv_request [of m rid q] by (simp add: mux_ok_def)

lemma mux_ok_receive: "mux_ok m \<Longrightarrow> mux_ok (mux_receive n env m)"
  by (auto simp: mux_receive_def mux_ok_send mux_ok_cancel mux_ok_request
      split: sum.splits client_msg.splits option.splits)

lemma mux_ok_step: "mux_step n m m' \<Longrightarrow> mux_ok m \<Longrightarrow> mux_ok m'"
proof (induction rule: mux_step.induct)
  case (received m env)
  then show ?case by (rule mux_ok_receive)
next
  case (handled t rid q m msg)
  then show ?case by (intro mux_ok_send) auto
next
  case (completed t rid q m)
  then show ?case using mux_inv_complete [of m t rid q] by (simp add: mux_ok_def) (simp add: mux_complete_def)
next
  case (restarting m op1)
  then show ?case by (intro mux_ok_send) auto
next
  case (restarted ids m op2)
  have "silenced (mx_out (mux_interrupt op2 ids m)) t" if t: "t \<in> set (mx_cancelled m)" for t
  proof -
    have "mx_in_flight m rid \<noteq> Some t" for rid using restarted t unfolding mux_ok_def mux_inv_def by blast
    moreover have "silenced (mx_out m) t" using restarted(3) t by (simp add: mux_ok_def)
    moreover have out: "mx_out (mux_interrupt op2 ids m) =
        mx_out m @ map (\<lambda>rid. (mx_in_flight m rid, Server_Error rid (Rpc_RestartInterrupted op2))) ids"
      by (simp add: mux_interrupt_def)
    ultimately show ?thesis unfolding out by (intro silenced_append) (auto simp: image_iff dest: sym)
  qed
  moreover have "mux_inv (mux_interrupt op2 ids m)"
    using restarted(3) by (simp add: mux_ok_def mux_inv_def mux_interrupt_def)
  moreover have "mx_cancelled (mux_interrupt op2 ids m) = mx_cancelled m" by (simp add: mux_interrupt_def)
  ultimately show ?case by (simp add: mux_ok_def)
qed

lemma mux_reachable_ok: "mux_reachable n m \<Longrightarrow> mux_ok m"
proof (induction rule: mux_reachable.induct)
  case start
  then show ?case by (simp add: mux_ok_def mux_inv_def mux_empty_def)
qed (rule mux_ok_step)

text \<open>
  C18: Cancelling is final and hits the right request: an id in flight always names a request that still
  runs and was not cancelled, also when the id is used again before its first request completes; a request that
  completes never takes another one out of reach of a cancellation; a
  cancelled request is answered by \<open>Cancelled\<close> and a stream end, after which nothing of it is ever sent.
\<close>

theorem cancelling_is_final:
  assumes "mux_reachable n m"
  shows "(\<forall>rid t. mx_in_flight m rid = Some t \<longrightarrow> (\<exists>q. (t, rid, q) \<in> set (mx_requests m)) \<and> t \<notin> set (mx_cancelled m))
    \<and> distinct (map fst (mx_requests m))
    \<and> (\<forall>t rid rid' t'. mx_in_flight m rid' = Some t' \<longrightarrow> t' \<noteq> t \<longrightarrow> mx_in_flight (mux_complete t rid m) rid' = Some t')
    \<and> (\<forall>t\<in>set (mx_cancelled m). \<exists>rid xs ys. mx_out m =
         xs @ [(Some t, Server_Error rid Rpc_Cancelled), (Some t, Server_StreamEnd rid)] @ ys \<and> Some t \<notin> fst ` set ys)"
proof (intro conjI)
  show "\<forall>t rid rid' t'. mx_in_flight m rid' = Some t' \<longrightarrow> t' \<noteq> t \<longrightarrow> mx_in_flight (mux_complete t rid m) rid' = Some t'"
    by (simp add: mux_complete_def)
qed (use mux_reachable_ok [OF assms] in \<open>unfold mux_ok_def mux_inv_def silenced_def, blast+\<close>)

definition some_peer :: negotiated where
  "some_peer = \<lparr>ng_protocol = protocol_CURRENT, ng_client_id = ClientId (Ulid 1 1),
     ng_client = \<lparr>bi_name = [], bi_version = []\<rparr>, ng_author = Author_Human ''ada'' ''box''\<rparr>"

lemma mux_receive_request:
  "mux_receive some_peer (envelope_current (Client_Request rid q)) m =
     m\<lparr>mx_in_flight := (mx_in_flight m)(rid \<mapsto> mx_next m),
       mx_requests := mx_requests m @ [(mx_next m, rid, q)], mx_next := Suc (mx_next m)\<rparr>"
  by (simp add: mux_receive_def check_def some_peer_def envelope_current_def)

lemma mux_receive_cancel:
  "mx_in_flight m rid = Some t \<Longrightarrow> mux_receive some_peer (envelope_current (Client_Cancel rid)) m =
     mux_send (Some t) (Server_StreamEnd rid) (mux_send (Some t) (Server_Error rid Rpc_Cancelled)
       (m\<lparr>mx_in_flight := (mx_in_flight m)(rid := None), mx_cancelled := t # mx_cancelled m\<rparr>))"
  by (simp add: mux_receive_def check_def some_peer_def envelope_current_def)

theorem cancelling_is_final_witness:
  "\<exists>m :: (char, char, char) mux. set (mx_cancelled m) = {1} \<and> map fst (mx_requests m) = [0, 1]
     \<and> (\<exists>rid xs ys. mx_out m =
         xs @ [(Some 1, Server_Error rid Rpc_Cancelled), (Some 1, Server_StreamEnd rid)] @ ys \<and> Some 1 \<notin> fst ` set ys)"
proof -
  let ?request = "\<lambda>m :: (char, char, char) mux.
    mux_receive some_peer (envelope_current (Client_Request (RequestId 7) CHR ''q'')) m"
  let ?two = "?request (?request mux_empty)"
  let ?m = "mux_receive some_peer (envelope_current (Client_Cancel (RequestId 7))) ?two"
  have two: "mx_in_flight ?two (RequestId 7) = Some 1" "mx_cancelled ?two = []" "map fst (mx_requests ?two) = [0, 1]"
    by (simp_all add: mux_receive_request mux_empty_def)
  have reach: "mux_reachable some_peer ?m"
    by (rule mux_reachable.step [OF _ mux_step.received] mux_reachable.start)+
  have m: "set (mx_cancelled ?m) = {1}" "map fst (mx_requests ?m) = [0, 1]"
    unfolding mux_receive_cancel [OF two(1)] mux_send_simps using two by simp_all
  from reach m obtain m :: "(char, char, char) mux" where m: "mux_reachable some_peer m" "set (mx_cancelled m) = {1}"
    "map fst (mx_requests m) = [0, 1]" by (rule that)
  have "1 \<in> set (mx_cancelled m)" by (simp add: m(2))
  note final = bspec [OF conjunct2 [OF conjunct2 [OF conjunct2 [OF cancelling_is_final [OF m(1)]]]] this]
  show ?thesis by (rule exI [of _ m]) (intro conjI m(2) m(3) final)
qed

section \<open>Streaming a render\<close>

definition stream_render :: "request_id \<Rightarrow> file_render_header \<Rightarrow> rendered \<Rightarrow> chunk_index \<Rightarrow> ('r, 'u) server_msg list" where
  "stream_render rid header r first =
     (let n = chunk_count (length (rd_rows r));
          start = min (chunk_get first) (if n = 0 then 0 else n - 1)
      in Server_StreamItem rid (Item_Header header)
         # concat (map (\<lambda>i. case rendered_chunk r (ChunkIndex (of_nat i)) of
              None \<Rightarrow> [] | Some c \<Rightarrow> [Server_StreamItem rid (Item_Chunk (fh_repo_id header) (fh_path header) c)])
            ([unat start..<unat n] @ [0..<unat start])))"

text \<open>
  A streamed render is the whole render: the header, then every chunk exactly once, beginning with the
  chunk asked for (or the last one when there is no such chunk) and wrapping around to the start.
\<close>

lemma stream_render_complete:
  assumes "length (rd_rows r) \<le> CHUNK_ROWS * (2 ^ 32 - 1)"
  shows "stream_render rid header r first = Server_StreamItem rid (Item_Header header)
    # map (\<lambda>c. Server_StreamItem rid (Item_Chunk (fh_repo_id header) (fh_path header) c))
        (rotate (min (unat (chunk_get first)) (length (rendered_chunks r) - 1)) (rendered_chunks r))"
proof -
  let ?n = "chunk_count (length (rd_rows r))"
  let ?start = "min (chunk_get first) (if ?n = 0 then 0 else ?n - 1)"
  let ?item = "\<lambda>c. Server_StreamItem rid (Item_Chunk (fh_repo_id header) (fh_path header) c)"
  let ?cs = "rendered_chunks r"
  have len: "length ?cs = unat ?n" by (simp add: rendered_chunks_def)
  have pos: "0 < unat ?n" using chunk_count_bound [OF assms] by simp
  then have n0: "?n \<noteq> 0" by auto
  have start: "unat ?start = min (unat (chunk_get first)) (length ?cs - 1)"
    using n0 pos by (simp add: len min_def word_le_nat_alt unat_minus_one)
  have below: "unat ?start < length ?cs" using start pos len by linarith
  have at: "rendered_chunk r (ChunkIndex (of_nat i)) = Some (?cs ! i)" if "i < unat ?n" for i
  proof -
    have "unat (of_nat i :: u32) = i" using that unsigned_less [of ?n, where 'a = nat]
      by (simp add: unat_of_nat)
    then show ?thesis using rendered_chunk_at [OF assms, of "of_nat i"] that by (simp add: word_less_nat_alt)
  qed
  have items: "concat (map (\<lambda>i. case rendered_chunk r (ChunkIndex (of_nat i)) of None \<Rightarrow> [] | Some c \<Rightarrow> [?item c]) is)
      = map ?item (map ((!) ?cs) is)" if "\<forall>i\<in>set is. i < unat ?n" for "is"
    using that by (induction "is") (simp_all add: at)
  have "map ((!) ?cs) ([unat ?start..<unat ?n] @ [0..<unat ?start]) = drop (unat ?start) ?cs @ take (unat ?start) ?cs"
    using below by (intro nth_equalityI) (auto simp: len nth_append)
  also have "\<dots> = rotate (unat ?start) ?cs" using below by (simp add: rotate_drop_take)
  finally have order: "map ((!) ?cs) ([unat ?start..<unat ?n] @ [0..<unat ?start]) = rotate (unat ?start) ?cs" .
  have all: "\<forall>i\<in>set ([unat ?start..<unat ?n] @ [0..<unat ?start]). i < unat ?n" using below len by auto
  show ?thesis unfolding stream_render_def Let_def items [OF all] order by (simp only: start)
qed

end
