(* ===== verification/Nits_Admission.thy ===== *)
theory Nits_Admission
  imports Nits_Connection
begin

text \<open>
  Admission of work and draining, \<open>crates/nitsd/src/admission.rs\<close>, with the ownership phases and probes of
  \<open>ownership.rs\<close>. The gate's mutex makes each operation one step. A permit is a number that is given out
  once; the waiter is the task of \<open>Daemon::prepare_restart\<close>, which waits until the gate is drained. An
  operation \<open>'u\<close> is only compared and passed on.
\<close>

section \<open>The gate\<close>

record 'u gate_state =
  gs_operation :: "'u option"
  gs_active :: nat

text \<open>\<open>Admission\<close>: its state and the operation it announced on the lifecycle channel.\<close>

record 'u admission =
  ad_state :: "'u gate_state"
  ad_lifecycle :: "'u option"

definition admission_new :: "'u admission" where
  "admission_new = \<lparr>ad_state = \<lparr>gs_operation = None, gs_active = 0\<rparr>, ad_lifecycle = None\<rparr>"

text \<open>\<open>accept\<close>: the error carries the operation whose id the caller is told.\<close>

definition admit :: "'u admission \<Rightarrow> ('u, unit) result \<times> 'u admission" where
  "admit a =
     (case gs_operation (ad_state a) of
        Some operation \<Rightarrow> (Inl operation, a)
      | None \<Rightarrow> (Inr (), a\<lparr>ad_state := (ad_state a)\<lparr>gs_active := gs_active (ad_state a) + 1\<rparr>\<rparr>))"

definition close_gate :: "'u \<Rightarrow> 'u admission \<Rightarrow> ('u \<times> bool) \<times> 'u admission" where
  "close_gate operation a =
     (case gs_operation (ad_state a) of
        Some current \<Rightarrow> ((current, False), a)
      | None \<Rightarrow> ((operation, True),
          a\<lparr>ad_state := (ad_state a)\<lparr>gs_operation := Some operation\<rparr>, ad_lifecycle := Some operation\<rparr>))"

text \<open>\<open>Drop for Permit\<close>, without the notification.\<close>

definition release :: "'u admission \<Rightarrow> 'u admission" where
  "release a = a\<lparr>ad_state := (ad_state a)\<lparr>gs_active := gs_active (ad_state a) - 1\<rparr>\<rparr>"

section \<open>The waiter\<close>

text \<open>
  \<open>drained\<close>: a turn of the loop registers for the next notification and then looks at the count; it
  returns, or waits for the notification and turns again. The flag says that a notification has come since
  the registration.
\<close>

datatype waiter = W_Absent | W_Turning | W_Registered bool | W_Waiting bool | W_Drained

fun notify_waiter :: "waiter \<Rightarrow> waiter" where
  "notify_waiter (W_Registered b) = W_Registered True"
| "notify_waiter (W_Waiting b) = W_Waiting True"
| "notify_waiter w = w"

text \<open>The gate with its permits and the waiter.\<close>

record 'u gate =
  ga_admission :: "'u admission"
  ga_permits :: "nat list"
  ga_next :: nat
  ga_waiter :: waiter

definition gate_new :: "'u gate" where
  "gate_new = \<lparr>ga_admission = admission_new, ga_permits = [], ga_next = 0, ga_waiter = W_Absent\<rparr>"

text \<open>\<open>prepare_restart\<close>: only the first operation starts the waiter.\<close>

definition prepare_restart :: "'u \<Rightarrow> 'u gate \<Rightarrow> 'u \<times> 'u gate" where
  "prepare_restart operation g =
     (let ((current, first), a) = close_gate operation (ga_admission g)
      in (current, g\<lparr>ga_admission := a, ga_waiter := (if first then W_Turning else ga_waiter g)\<rparr>))"

inductive gate_step :: "'u gate \<Rightarrow> 'u gate \<Rightarrow> bool" where
  accepted: "admit (ga_admission g) = (Inr (), a) \<Longrightarrow>
    gate_step g (g\<lparr>ga_admission := a, ga_permits := ga_next g # ga_permits g, ga_next := Suc (ga_next g)\<rparr>)"
| refused: "admit (ga_admission g) = (Inl operation, a) \<Longrightarrow> gate_step g (g\<lparr>ga_admission := a\<rparr>)"
| dropped: "p \<in> set (ga_permits g) \<Longrightarrow>
    gate_step g (g\<lparr>ga_admission := release (ga_admission g), ga_permits := remove1 p (ga_permits g),
                   ga_waiter := notify_waiter (ga_waiter g)\<rparr>)"
| closed: "gate_step g (snd (prepare_restart operation g))"
| registered: "ga_waiter g = W_Turning \<Longrightarrow> gate_step g (g\<lparr>ga_waiter := W_Registered False\<rparr>)"
| checked: "ga_waiter g = W_Registered b \<Longrightarrow>
    gate_step g (g\<lparr>ga_waiter := (if gs_active (ad_state (ga_admission g)) = 0 then W_Drained else W_Waiting b)\<rparr>)"
| woken: "ga_waiter g = W_Waiting True \<Longrightarrow> gate_step g (g\<lparr>ga_waiter := W_Turning\<rparr>)"

inductive gate_reachable :: "'u gate \<Rightarrow> bool" where
  start: "gate_reachable gate_new"
| step: "gate_reachable g \<Longrightarrow> gate_step g g' \<Longrightarrow> gate_reachable g'"

abbreviation gate_operation :: "'u gate \<Rightarrow> 'u option" where
  "gate_operation g \<equiv> gs_operation (ad_state (ga_admission g))"

abbreviation gate_active :: "'u gate \<Rightarrow> nat" where
  "gate_active g \<equiv> gs_active (ad_state (ga_admission g))"

section \<open>The invariant\<close>

definition gate_inv :: "'u gate \<Rightarrow> bool" where
  "gate_inv g \<longleftrightarrow> gate_active g = length (ga_permits g) \<and> distinct (ga_permits g)
     \<and> (\<forall>p\<in>set (ga_permits g). p < ga_next g)
     \<and> ad_lifecycle (ga_admission g) = gate_operation g
     \<and> (ga_waiter g = W_Absent \<longleftrightarrow> gate_operation g = None)
     \<and> (ga_waiter g = W_Waiting False \<longrightarrow> ga_permits g \<noteq> [])
     \<and> (ga_waiter g = W_Drained \<longrightarrow> ga_permits g = [])"

lemma notify_waiter_simps [simp]:
  "notify_waiter w = W_Absent \<longleftrightarrow> w = W_Absent" "notify_waiter w \<noteq> W_Waiting False"
  "notify_waiter w = W_Drained \<longleftrightarrow> w = W_Drained"
  by (cases w; simp)+

lemma gate_inv_step: "gate_step g g' \<Longrightarrow> gate_inv g \<Longrightarrow> gate_inv g'"
proof (induction rule: gate_step.induct)
  case (accepted g a)
  then have "gate_operation g = None" by (auto simp: admit_def split: option.splits)
  then show ?case using accepted by (fastforce simp: gate_inv_def admit_def)
next
  case (refused g operation a)
  then show ?case by (auto simp: gate_inv_def admit_def split: option.splits)
next
  case (dropped p g)
  then show ?case by (auto simp: gate_inv_def release_def length_remove1 dest: notin_set_remove1)
next
  case (closed g operation)
  then show ?case by (auto simp: gate_inv_def prepare_restart_def close_gate_def split: option.splits)
qed (auto simp: gate_inv_def)

lemma gate_reachable_inv: "gate_reachable g \<Longrightarrow> gate_inv g"
proof (induction rule: gate_reachable.induct)
  case start
  then show ?case by (simp add: gate_inv_def gate_new_def admission_new_def)
qed (rule gate_inv_step)

text \<open>A closed gate stays closed on the same operation, and gives out no permit.\<close>

lemma closed_step:
  "gate_step g g' \<Longrightarrow> gate_operation g = Some operation \<Longrightarrow>
   gate_operation g' = Some operation \<and> set (ga_permits g') \<subseteq> set (ga_permits g)"
  by (induction rule: gate_step.induct)
    (auto simp: admit_def release_def prepare_restart_def close_gate_def dest: set_mp [OF set_remove1_subset])

lemma closed_steps:
  "gate_step\<^sup>*\<^sup>* g g' \<Longrightarrow> gate_operation g = Some operation \<Longrightarrow>
   gate_operation g' = Some operation \<and> set (ga_permits g') \<subseteq> set (ga_permits g)"
  by (induction rule: rtranclp_induct) (auto dest: closed_step)

lemma gate_steps_reachable: "gate_step\<^sup>*\<^sup>* g g' \<Longrightarrow> gate_reachable g \<Longrightarrow> gate_reachable g'"
  by (induction rule: rtranclp_induct) (auto intro: gate_reachable.step)

text \<open>
  Closing is final and draining waits for exactly the admitted work: the count is the number of
  permits outstanding and the announced operation is the one that closed the gate; whatever happens after
  the first operation closed the gate, that operation stays, later ones are told it, nothing is admitted,
  and the waiter returns only when every permit that was out at the closing has been dropped.
\<close>

lemma closing_is_final:
  assumes "gate_reachable g" "gate_operation g = None" "gate_step\<^sup>*\<^sup>* (snd (prepare_restart operation g)) g'"
  shows "gate_operation g' = Some operation \<and> ad_lifecycle (ga_admission g') = Some operation
    \<and> gate_active g' = card (set (ga_permits g'))
    \<and> set (ga_permits g') \<subseteq> set (ga_permits g)
    \<and> fst (admit (ga_admission g')) = Inl operation
    \<and> fst (prepare_restart other g') = operation
    \<and> (ga_waiter g' = W_Drained \<longrightarrow> ga_permits g' = [])"
proof -
  let ?c = "snd (prepare_restart operation g)"
  have c: "gate_operation ?c = Some operation" "ga_permits ?c = ga_permits g"
    using assms(2) by (simp_all add: prepare_restart_def close_gate_def)
  have "gate_reachable ?c" by (rule gate_reachable.step [OF assms(1) gate_step.closed])
  then have inv: "gate_inv g'" using gate_reachable_inv gate_steps_reachable [OF assms(3)] by blast
  have op: "gate_operation g' = Some operation" "set (ga_permits g') \<subseteq> set (ga_permits g)"
    using closed_steps [OF assms(3) c(1)] c(2) by simp_all
  then show ?thesis using inv
    by (auto simp: gate_inv_def admit_def prepare_restart_def close_gate_def distinct_card)
qed

definition busy_gate :: "char gate" where
  "busy_gate = \<lparr>ga_admission = snd (admit admission_new), ga_permits = [0], ga_next = 1, ga_waiter = W_Absent\<rparr>"

lemma busy_gate_reachable: "gate_reachable busy_gate"
proof -
  have "gate_step gate_new busy_gate"
    using gate_step.accepted [of "gate_new :: char gate" "snd (admit admission_new)"]
    by (simp add: gate_new_def busy_gate_def admit_def admission_new_def)
  then show ?thesis using gate_reachable.intros by blast
qed

section \<open>Draining ends\<close>

text \<open>The waiter's own steps until it sleeps or returns, and with the permits still to be dropped.\<close>

fun waiter_steps :: "waiter \<Rightarrow> nat" where
  "waiter_steps W_Absent = 0"
| "waiter_steps W_Drained = 0"
| "waiter_steps (W_Waiting b) = (if b then 3 else 0)"
| "waiter_steps (W_Registered b) = (if b then 4 else 1)"
| "waiter_steps W_Turning = 2"

definition drain_measure :: "'u gate \<Rightarrow> nat" where
  "drain_measure g = 4 * length (ga_permits g) + waiter_steps (ga_waiter g)"

lemma waiter_steps_notify: "waiter_steps (notify_waiter w) \<le> waiter_steps w + 3"
  by (cases w) simp_all

lemma drain_step: "gate_step g g' \<Longrightarrow> gate_operation g = Some operation \<Longrightarrow> g' = g \<or> drain_measure g' < drain_measure g"
proof (induction rule: gate_step.induct)
  case (dropped p g)
  then have len: "length (remove1 p (ga_permits g)) + 1 = length (ga_permits g)"
    using length_pos_if_in_set [of p "ga_permits g"] by (simp add: length_remove1)
  then have "4 * length (remove1 p (ga_permits g)) + waiter_steps (notify_waiter (ga_waiter g))
      < 4 * length (ga_permits g) + waiter_steps (ga_waiter g)"
    using waiter_steps_notify [of "ga_waiter g"] unfolding len [symmetric] by simp
  then show ?case by (simp add: drain_measure_def)
qed (auto simp: drain_measure_def admit_def prepare_restart_def close_gate_def)

text \<open>
  C19: No wake-up is lost and draining ends: once the gate is closed every step either changes nothing or
  brings the end nearer, by a measure; until the waiter has returned there always is a step that does, and
  when no permit is out any more it is the waiter's own.
\<close>

theorem draining_ends:
  assumes "gate_reachable g" "gate_operation g = Some operation"
  shows "(\<forall>g'. gate_step g g' \<longrightarrow> g' = g \<or> drain_measure g' < drain_measure g)
    \<and> (ga_waiter g \<noteq> W_Drained \<longrightarrow> (\<exists>g'. gate_step g g' \<and> drain_measure g' < drain_measure g))
    \<and> (ga_waiter g \<noteq> W_Drained \<and> ga_permits g = [] \<longrightarrow>
        (\<exists>w. gate_step g (g\<lparr>ga_waiter := w\<rparr>) \<and> waiter_steps w < waiter_steps (ga_waiter g)))"
proof -
  have inv: "gate_inv g" by (rule gate_reachable_inv [OF assms(1)])
  have own: "\<exists>w. gate_step g (g\<lparr>ga_waiter := w\<rparr>) \<and> waiter_steps w < waiter_steps (ga_waiter g)"
    if "ga_waiter g \<noteq> W_Drained" "ga_permits g = []"
  proof (cases "ga_waiter g")
    case W_Turning
    then show ?thesis using gate_step.registered [of g] by force
  next
    case (W_Registered b)
    have "gate_active g = 0" using inv that by (simp add: gate_inv_def)
    then show ?thesis using gate_step.checked [OF W_Registered] W_Registered by force
  next
    case (W_Waiting b)
    then have "b" using inv that by (cases b) (simp_all add: gate_inv_def)
    then show ?thesis using gate_step.woken [of g] W_Waiting by force
  qed (use inv assms(2) that in \<open>simp_all add: gate_inv_def\<close>)
  have "\<exists>g'. gate_step g g' \<and> drain_measure g' < drain_measure g" if "ga_waiter g \<noteq> W_Drained"
  proof (cases "ga_permits g")
    case Nil
    then show ?thesis using own [OF that] by (auto simp: drain_measure_def)
  next
    case (Cons p ps)
    then have step: "gate_step g (g\<lparr>ga_admission := release (ga_admission g), ga_permits := remove1 p (ga_permits g),
        ga_waiter := notify_waiter (ga_waiter g)\<rparr>)" by (intro gate_step.dropped) simp
    moreover have "g\<lparr>ga_admission := release (ga_admission g), ga_permits := remove1 p (ga_permits g),
        ga_waiter := notify_waiter (ga_waiter g)\<rparr> \<noteq> g" using Cons by (cases g) auto
    ultimately show ?thesis using drain_step [OF step assms(2)] by blast
  qed
  then show ?thesis using own drain_step [OF _ assms(2)] by blast
qed

theorem draining_ends_witness:
  "\<exists>g'. gate_step (snd (prepare_restart CHR ''u'' busy_gate)) g' \<and> drain_measure g' < 6"
proof -
  have "gate_reachable (snd (prepare_restart CHR ''u'' busy_gate))"
    by (rule gate_reachable.step [OF busy_gate_reachable gate_step.closed])
  moreover have "gate_operation (snd (prepare_restart CHR ''u'' busy_gate)) = Some CHR ''u''"
    "ga_waiter (snd (prepare_restart CHR ''u'' busy_gate)) = W_Turning"
    "drain_measure (snd (prepare_restart CHR ''u'' busy_gate)) = 6"
    by (simp_all add: prepare_restart_def close_gate_def busy_gate_def admit_def admission_new_def drain_measure_def)
  ultimately show ?thesis using draining_ends [of "snd (prepare_restart CHR ''u'' busy_gate)"] by auto
qed

section \<open>Ownership\<close>

datatype phase = Phase_Starting | Phase_Serving | Phase_Stopping | Phase_Unknown

fun phase_byte :: "phase \<Rightarrow> 8 word" where
  "phase_byte Phase_Starting = 1"
| "phase_byte Phase_Serving = 2"
| "phase_byte Phase_Stopping = 3"
| "phase_byte Phase_Unknown = 4"

definition phase_try_from :: "8 word \<Rightarrow> phase option" where
  "phase_try_from byte =
     (if byte = 1 then Some Phase_Starting else if byte = 2 then Some Phase_Serving
      else if byte = 3 then Some Phase_Stopping else if byte = 4 then Some Phase_Unknown else None)"

datatype ownership = Own_Free | Own_Held phase

datatype socket_ownership = Untracked | Tracked ownership

text \<open>
  \<open>probe_file\<close>, as the file system answers: there is no file, its lock is free, or it is held and the file
  reads as these bytes; any other error fails the probe.
\<close>

datatype lock_probe = Probe_Untracked | Probe_Free | Probe_Held string

definition held_phase :: "string \<Rightarrow> phase option" where
  "held_phase bytes = phase_try_from (case bytes of [] \<Rightarrow> phase_byte Phase_Starting | b # _ \<Rightarrow> of_nat (of_char b))"

definition probe :: "lock_probe \<Rightarrow> ownership option" where
  "probe p =
     (case p of Probe_Untracked \<Rightarrow> Some Own_Free | Probe_Free \<Rightarrow> Some Own_Free
      | Probe_Held bytes \<Rightarrow> map_option Own_Held (held_phase bytes))"

text \<open>The endpoint's own guard first, then the guard of the store it is associated with.\<close>

definition probe_socket :: "lock_probe \<Rightarrow> lock_probe \<Rightarrow> socket_ownership option" where
  "probe_socket owner data =
     (case owner of
        Probe_Untracked \<Rightarrow> Some Untracked
      | Probe_Free \<Rightarrow> Some (Tracked Own_Free)
      | Probe_Held _ \<Rightarrow>
          (case data of
             Probe_Held bytes \<Rightarrow> map_option (\<lambda>p. Tracked (Own_Held p)) (held_phase bytes)
           | _ \<Rightarrow> Some (Tracked (Own_Held Phase_Unknown))))"

lemma phase_round_trip: "phase_try_from (phase_byte p) = Some p"
  by (cases p) (simp_all add: phase_try_from_def)

text \<open>A guard that is held is never reported free, whatever else the probe finds or fails at.\<close>

lemma probe_socket_held: "probe_socket (Probe_Held bytes) data \<noteq> Some (Tracked Own_Free)"
  by (auto simp: probe_socket_def split: lock_probe.splits)

text \<open>
  \<open>socket_target\<close>: a socket path and every alias it leads to, forty at most. A link reads as its target,
  as no link, or as an error; \<open>join\<close> places a relative target beside the link.
\<close>

datatype link_read = Link string | No_Link | Link_Error string

fun socket_target_from :: "nat \<Rightarrow> (string \<Rightarrow> link_read) \<Rightarrow> (string \<Rightarrow> bool) \<Rightarrow> (string \<Rightarrow> string \<Rightarrow> string) \<Rightarrow> string
    \<Rightarrow> (string, string) result" where
  "socket_target_from 0 read_link is_absolute join path = Inl ''too many socket symlink indirections''"
| "socket_target_from (Suc n) read_link is_absolute join path =
     (case read_link path of
        Link target \<Rightarrow> socket_target_from n read_link is_absolute join (if is_absolute target then target else join path target)
      | No_Link \<Rightarrow> Inr path
      | Link_Error e \<Rightarrow> Inl e)"

definition socket_target :: "(string \<Rightarrow> link_read) \<Rightarrow> (string \<Rightarrow> bool) \<Rightarrow> (string \<Rightarrow> string \<Rightarrow> string) \<Rightarrow> string
    \<Rightarrow> (string, string) result" where
  "socket_target read_link is_absolute join path = socket_target_from 40 read_link is_absolute join path"

text \<open>What a socket path comes to is not itself an alias, so following it again changes nothing.\<close>

lemma socket_target_idem:
  "socket_target_from n read_link is_absolute join path = Inr p \<Longrightarrow>
   read_link p = No_Link \<and> socket_target read_link is_absolute join p = Inr p"
proof (induction n arbitrary: path)
  case (Suc n)
  have last: "socket_target read_link is_absolute join q = Inr q" if "read_link q = No_Link" for q
    using that by (simp add: socket_target_def numeral_eq_Suc)
  from Suc show ?case by (cases "read_link path") (auto simp: last)
qed simp

end
