(* ===== verification/Nits_Anchor.thy ===== *)
theory Nits_Anchor
  imports Nits_Lines
begin

text \<open>
  Re-anchoring, \<open>crates/nits-review-core/src/anchor.rs\<close>: the context hash, the map of a line
  range through a diff and the fate of one comment's anchor. The hash function and the diff
  algorithm are libraries and parameters here; of the diff the proofs use that its hunks are
  an edit script from the old lines to the new ones.
\<close>

section \<open>The context hash\<close>

definition CONTEXT_LINES :: u32 where
  "CONTEXT_LINES = 3"

definition u32_saturating_sub :: "u32 \<Rightarrow> u32 \<Rightarrow> u32" where
  "u32_saturating_sub a b = (if a < b then 0 else a - b)"

text \<open>The lines the hash covers; the addition wraps in 32 bits.\<close>

definition context_window :: "string list \<Rightarrow> line_range \<Rightarrow> string list" where
  "context_window lines rng =
     (let start = unat (u32_saturating_sub (line_index (range_start rng)) CONTEXT_LINES);
          end' = min (unat (line_index (range_end rng) + CONTEXT_LINES) + 1) (length lines)
      in drop (min start end') (take end' lines))"

definition context_hash_of :: "(string list \<Rightarrow> u64) \<Rightarrow> string list \<Rightarrow> line_range \<Rightarrow> context_hash" where
  "context_hash_of hasher lines rng = ContextHash (hasher (context_window lines rng))"

section \<open>Mapping a range through a diff\<close>

record diff_hunk =
  dh_before_start :: u32
  dh_before_end :: u32
  dh_after_start :: u32
  dh_after_end :: u32

definition dh_before_empty :: "diff_hunk \<Rightarrow> bool" where
  "dh_before_empty h \<longleftrightarrow> dh_before_start h \<ge> dh_before_end h"

definition hunk_delta :: "diff_hunk \<Rightarrow> int" where
  "hunk_delta h = uint (dh_after_end h - dh_after_start h) - uint (dh_before_end h - dh_before_start h)"

text \<open>The loop over the hunks; \<open>None\<close> is the early return.\<close>

fun range_offset :: "diff_hunk list \<Rightarrow> u32 \<Rightarrow> u32 \<Rightarrow> int \<Rightarrow> int option" where
  "range_offset [] start end' offset = Some offset"
| "range_offset (h # hs) start end' offset =
     (if dh_before_start h > end' then Some offset
      else if dh_before_start h \<le> end' \<and> dh_before_end h > start \<and> \<not> dh_before_empty h then None
      else if dh_before_empty h \<and> dh_before_start h > start \<and> dh_before_start h \<le> end' then None
      else range_offset hs start end'
             (if dh_before_end h \<le> start \<or> (dh_before_empty h \<and> dh_before_start h \<le> start)
              then offset + hunk_delta h else offset))"

definition u32_try_from :: "int \<Rightarrow> u32 option" where
  "u32_try_from i = (if 0 \<le> i \<and> i < 2 ^ 32 then Some (of_int i) else None)"

definition map_range :: "(string list \<Rightarrow> string list \<Rightarrow> diff_hunk list) \<Rightarrow> string list \<Rightarrow> string list
    \<Rightarrow> line_range \<Rightarrow> line_range option" where
  "map_range diff old new rng =
     (let start = line_index (range_start rng); end' = line_index (range_end rng) in
      if unat end' \<ge> length old then None
      else Option.bind (range_offset (diff old new) start end' 0) (\<lambda>offset.
           Option.bind (u32_try_from (uint start + offset)) (\<lambda>ns.
           Option.bind (u32_try_from (uint end' + offset)) (\<lambda>ne.
             if unat ne \<ge> length new then None
             else case range_new (line_from_index ns) (line_from_index ne) of
                    Inr r \<Rightarrow> Some r
                  | Inl _ \<Rightarrow> None))))"

section \<open>Re-anchoring one comment\<close>

datatype path_fate =
    Fate_Present repo_path blob_oid
  | Fate_Gone

datatype reanchor =
    Reanchor_Unchanged
  | Reanchor_Moved anchor comment_state

fun effective_anchor :: "anchor \<Rightarrow> comment_state \<Rightarrow> anchor" where
  "effective_anchor anchor (State_Outdated last_good) = last_good"
| "effective_anchor anchor State_Live = anchor"
| "effective_anchor anchor State_Deleted = anchor"

definition sentinel_path :: repo_path where
  "sentinel_path = RepoPath ''<review>''"

fun anchor_path :: "anchor \<Rightarrow> repo_path" where
  "anchor_path (Anchor_File _ path _) = path"
| "anchor_path (Anchor_Lines _ path _ _ _ _) = path"
| "anchor_path Anchor_Review = sentinel_path"

fun anchor_side_of :: "anchor \<Rightarrow> side option" where
  "anchor_side_of (Anchor_Lines _ _ side _ _ _) = Some side"
| "anchor_side_of (Anchor_File _ _ _) = Some Side_Head"
| "anchor_side_of Anchor_Review = None"

text \<open>The libraries the re-anchoring calls: the hasher and the diff.\<close>

record anchor_libs =
  al_hasher :: "string list \<Rightarrow> u64"
  al_diff :: "string list \<Rightarrow> string list \<Rightarrow> diff_hunk list"

definition reanchor_outdated :: "anchor \<Rightarrow> anchor \<Rightarrow> reanchor" where
  "reanchor_outdated anchor base = Reanchor_Moved anchor (State_Outdated base)"

definition reanchor_gone :: "anchor \<Rightarrow> comment_state \<Rightarrow> anchor \<Rightarrow> reanchor" where
  "reanchor_gone anchor state base =
     (case state of
        State_Outdated _ \<Rightarrow> Reanchor_Unchanged
      | State_Live \<Rightarrow> reanchor_outdated anchor base
      | State_Deleted \<Rightarrow> reanchor_outdated anchor base)"

definition reanchor_lines :: "anchor_libs \<Rightarrow> string option \<Rightarrow> string option \<Rightarrow> line_range \<Rightarrow> context_hash
    \<Rightarrow> line_range option" where
  "reanchor_lines libs old new lines hash =
     (case (old, new) of
        (Some o1, Some n1) \<Rightarrow>
          (case map_range (al_diff libs) (lines_of o1) (lines_of n1) lines of
             None \<Rightarrow> None
           | Some mapped \<Rightarrow>
               if context_hash_of (al_hasher libs) (lines_of n1) mapped \<noteq> hash then None else Some mapped)
      | _ \<Rightarrow> None)"

definition reanchor :: "anchor_libs \<Rightarrow> anchor \<Rightarrow> comment_state \<Rightarrow> path_fate \<Rightarrow> (blob_oid \<Rightarrow> string option)
    \<Rightarrow> (blob_oid \<Rightarrow> string option) \<Rightarrow> reanchor" where
  "reanchor libs anchor state fate old_blob new_blob =
     (if state = State_Deleted then Reanchor_Unchanged
      else let base = effective_anchor anchor state in
        case base of
          Anchor_Review \<Rightarrow> Reanchor_Unchanged
        | Anchor_File repo _ _ \<Rightarrow>
            (case fate of
               Fate_Gone \<Rightarrow> reanchor_gone anchor state base
             | Fate_Present path blob \<Rightarrow>
                 if Anchor_File repo path blob = anchor \<and> state = State_Live then Reanchor_Unchanged
                 else Reanchor_Moved (Anchor_File repo path blob) State_Live)
        | Anchor_Lines repo _ side blob_oid lines hash \<Rightarrow>
            (case fate of
               Fate_Gone \<Rightarrow> reanchor_gone anchor state base
             | Fate_Present path blob \<Rightarrow>
                 if blob = blob_oid then
                   (if state = State_Live \<and> path = anchor_path anchor then Reanchor_Unchanged
                    else Reanchor_Moved (Anchor_Lines repo path side blob lines hash) State_Live)
                 else
                   (case reanchor_lines libs (old_blob blob_oid) (new_blob blob) lines hash of
                      None \<Rightarrow> reanchor_outdated anchor base
                    | Some mapped \<Rightarrow>
                        Reanchor_Moved (Anchor_Lines repo path side blob mapped hash) State_Live)))"

section \<open>An edit script\<close>

text \<open>
  The hunks from position \<open>p\<close> of the old lines and \<open>q\<close> of the new ones: in order, in bounds,
  and equal lines before each hunk and after the last.
\<close>

fun edit_script :: "string list \<Rightarrow> string list \<Rightarrow> diff_hunk list \<Rightarrow> nat \<Rightarrow> nat \<Rightarrow> bool" where
  "edit_script old new [] p q \<longleftrightarrow> p \<le> length old \<and> q \<le> length new \<and> drop p old = drop q new"
| "edit_script old new (h # hs) p q \<longleftrightarrow>
     p \<le> unat (dh_before_start h) \<and> unat (dh_before_start h) \<le> unat (dh_before_end h)
     \<and> unat (dh_before_end h) \<le> length old
     \<and> q \<le> unat (dh_after_start h) \<and> unat (dh_after_start h) \<le> unat (dh_after_end h)
     \<and> unat (dh_after_end h) \<le> length new
     \<and> unat (dh_before_start h) - p = unat (dh_after_start h) - q
     \<and> take (unat (dh_before_start h) - p) (drop p old) = take (unat (dh_after_start h) - q) (drop q new)
     \<and> edit_script old new hs (unat (dh_before_end h)) (unat (dh_after_end h))"

text \<open>A hunk touches a range when it changes one of its lines or inserts strictly inside it.\<close>

definition touches :: "u32 \<Rightarrow> u32 \<Rightarrow> diff_hunk \<Rightarrow> bool" where
  "touches start end' h \<longleftrightarrow>
     (if dh_before_empty h then start < dh_before_start h \<and> dh_before_start h \<le> end'
      else dh_before_start h \<le> end' \<and> start < dh_before_end h)"

lemma hunk_delta_nat:
  assumes "unat (dh_before_start h) \<le> unat (dh_before_end h)" "unat (dh_after_start h) \<le> unat (dh_after_end h)"
  shows "hunk_delta h = (int (unat (dh_after_end h)) - int (unat (dh_after_start h)))
    - (int (unat (dh_before_end h)) - int (unat (dh_before_start h)))"
proof -
  have d: "uint (a - b) = int (unat a) - int (unat b)" if "unat b \<le> unat a" for a b :: u32
    
    using that unat_sub [of b a] by (simp only: uint_nat word_le_nat_alt of_nat_diff)
  show ?thesis using assms by (simp add: hunk_delta_def d)
qed

lemma range_offset_sound:
  "edit_script old new hs p q \<Longrightarrow> p \<le> unat start \<Longrightarrow> start \<le> end' \<Longrightarrow> unat end' < length old \<Longrightarrow>
     q \<le> length new \<Longrightarrow> range_offset hs start end' (int q - int p) = Some off \<Longrightarrow>
     \<exists>p' q'. off = int q' - int p' \<and> p' \<le> unat start \<and> q' \<le> length new
       \<and> take (unat end' + 1 - p') (drop p' old) = take (unat end' + 1 - p') (drop q' new)"
proof (induction hs arbitrary: p q)
  case Nil
  then show ?case by (intro exI [of _ p] exI [of _ q]) simp
next
  case (Cons h hs)
  show ?case
  proof (cases "dh_before_start h > end'")
    case True
    let ?n = "unat (dh_before_start h) - p"
    have eq: "take ?n (drop p old) = take ?n (drop q new)"
      using Cons.prems(1) unfolding edit_script.simps by metis
    have le: "unat end' + 1 - p \<le> ?n" using True by (simp add: word_less_nat_alt)
    have "take (unat end' + 1 - p) (take ?n (drop p old)) = take (unat end' + 1 - p) (take ?n (drop q new))"
      by (simp only: eq)
    then have "take (unat end' + 1 - p) (drop p old) = take (unat end' + 1 - p) (drop q new)"
      using le by (simp only: take_take min_absorb1)
    then show ?thesis
      using Cons.prems True by (intro exI [of _ p] exI [of _ q]) simp
  next
    case False
    have bs: "dh_before_start h \<le> dh_before_end h" "p \<le> unat (dh_before_start h)"
      and as: "unat (dh_after_start h) \<le> unat (dh_after_end h)" "q \<le> unat (dh_after_start h)"
      and same: "unat (dh_before_start h) - p = unat (dh_after_start h) - q"
      using Cons.prems(1) by (simp_all add: word_le_nat_alt)
    have "\<not> (dh_before_end h > start \<and> \<not> dh_before_empty h)"
      "\<not> (dh_before_empty h \<and> dh_before_start h > start)"
      using Cons.prems(6) False by (auto simp del: edit_script.simps split: if_splits)
    then have past: "dh_before_end h \<le> start"
      unfolding dh_before_empty_def using bs(1) by (metis antisym not_le)
    have "int (unat (dh_before_start h)) - int p = int (unat (dh_after_start h)) - int q"
      using same bs(2) as(2) by (metis of_nat_diff)
    then have delta: "int q - int p + hunk_delta h = int (unat (dh_after_end h)) - int (unat (dh_before_end h))"
      using hunk_delta_nat [of h] bs(1) as(1) by (simp add: word_le_nat_alt)
    have "range_offset hs start end' (int (unat (dh_after_end h)) - int (unat (dh_before_end h))) = Some off"
      using Cons.prems(6) False past by (simp add: delta split: if_splits)
    moreover have "edit_script old new hs (unat (dh_before_end h)) (unat (dh_after_end h))"
      "unat (dh_after_end h) \<le> length new"
      using Cons.prems(1) by simp_all
    moreover have "unat (dh_before_end h) \<le> unat start" using past by (simp add: word_le_nat_alt)
    ultimately show ?thesis using Cons.IH Cons.prems(3,4) by blast
  qed
qed

lemma edit_script_later: "edit_script old new hs p q \<Longrightarrow> h \<in> set hs \<Longrightarrow>
    p \<le> unat (dh_before_start h) \<and> unat (dh_before_start h) \<le> unat (dh_before_end h)"
proof (induction hs arbitrary: p q)
  case (Cons a hs)
  show ?case
  proof (cases "h = a")
    case False
    then have "unat (dh_before_end a) \<le> unat (dh_before_start h) \<and> unat (dh_before_start h) \<le> unat (dh_before_end h)"
      using Cons by (intro Cons.IH [of _ "unat (dh_after_end a)"]) simp_all
    then show ?thesis using Cons.prems(1) by simp
  qed (use Cons.prems in simp)
qed simp

lemma range_offset_None:
  "edit_script old new hs p q \<Longrightarrow> start \<le> end' \<Longrightarrow>
     range_offset hs start end' off = None \<longleftrightarrow> list_ex (touches start end') hs"
proof (induction hs arbitrary: p q off)
  case (Cons h hs)
  have ordered: "unat (dh_before_start h) \<le> unat (dh_before_end h)"
    and rest: "edit_script old new hs (unat (dh_before_end h)) (unat (dh_after_end h))"
    using Cons.prems(1) by simp_all
  show ?case
  proof (cases "dh_before_start h > end'")
    case True
    have "\<not> touches start end' x" if "x \<in> set (h # hs)" for x
    proof -
      have "unat (dh_before_start h) \<le> unat (dh_before_start x)"
        using that edit_script_later [OF rest] ordered by fastforce
      then have "end' < dh_before_start x" using True by (simp add: word_less_nat_alt)
      then show ?thesis by (auto simp: touches_def)
    qed
    then show ?thesis using True by (auto simp: list_ex_iff)
  next
    case False
    have "touches start end' h \<longleftrightarrow>
        (dh_before_end h > start \<and> \<not> dh_before_empty h) \<or> (dh_before_empty h \<and> dh_before_start h > start)"
      using False by (auto simp: touches_def)
    then show ?thesis
      using False Cons.IH [OF rest Cons.prems(2)] by auto
  qed
qed simp

section \<open>A mapped range has the same lines\<close>

definition range_lines :: "string list \<Rightarrow> line_range \<Rightarrow> string list" where
  "range_lines lines r = take (unat (range_len r)) (drop (unat (line_index (range_start r))) lines)"

lemma unat_line_index: "line_wf l \<Longrightarrow> unat (line_index l) = unat (line_get l) - 1"
  by (cases l) (auto simp: line_wf_def line_index_def unat_minus_one)

lemma unat_range_len:
  assumes "range_wf r"
  shows "unat (range_len r) = unat (line_index (range_end r)) + 1 - unat (line_index (range_start r))"
    and "line_index (range_start r) \<le> line_index (range_end r)"
proof -
  let ?s = "line_get (range_start r)" and ?e = "line_get (range_end r)"
  have wf: "?s \<noteq> 0" "?e \<noteq> 0" "?s \<le> ?e" using assms by (simp_all add: range_wf_def line_wf_def)
  then have pos: "0 < unat ?s" by (simp add: unat_gt_0)
  have sub: "unat (?e - ?s) = unat ?e - unat ?s" using wf(3) by (rule unat_sub)
  have e: "unat ?e < 2 ^ 32" using unsigned_less [of ?e] by simp
  have se: "unat ?s \<le> unat ?e" using wf(3) by (simp add: word_le_nat_alt)
  have "unat (range_len r) = unat (?e - ?s) + 1"
    unfolding range_len_def
    by (subst unat_word_ariths) (use sub pos e in \<open>simp add: take_bit_nat_eq_self\<close>)
  then show "unat (range_len r) = unat (line_index (range_end r)) + 1 - unat (line_index (range_start r))"
    using assms sub pos se by (simp add: unat_line_index range_wf_def)
  show "line_index (range_start r) \<le> line_index (range_end r)"
    using assms se by (simp add: word_le_nat_alt unat_line_index range_wf_def)
qed

lemma u32_try_from_nat: "n < 2 ^ 32 \<Longrightarrow> u32_try_from (int n) = Some (of_nat n)"
  by (simp add: u32_try_from_def)

lemma unat_of_nat_u32: "n < 2 ^ 32 \<Longrightarrow> unat (of_nat n :: u32) = n"
  by (simp add: unat_of_nat take_bit_nat_eq_self)

lemma unat_line_from_index:
  assumes "unat i + 1 < 2 ^ 32"
  shows "line_wf (line_from_index i)" "unat (line_get (line_from_index i)) = unat i + 1"
    "line_index (line_from_index i) = i"
proof -
  have "unat (i + 1) = unat i + 1"
    using assms by (subst unat_word_ariths) (simp add: take_bit_nat_eq_self)
  then have "line_from_index i = LineNo (i + 1)" "unat (i + 1) = unat i + 1"
    by (auto simp: line_from_index_def)
  then show "line_wf (line_from_index i)" "unat (line_get (line_from_index i)) = unat i + 1"
    "line_index (line_from_index i) = i"
    by (auto simp: line_wf_def line_index_def)
qed

lemma map_range_Some:
  assumes rng: "range_wf r" and diff: "edit_script old new (diff old new) 0 0"
    and len: "length new < 2 ^ 32" and in_old: "unat (line_index (range_end r)) < length old"
    and off: "range_offset (diff old new) (line_index (range_start r)) (line_index (range_end r)) 0 = Some off"
  shows "\<exists>r'. map_range diff old new r = Some r' \<and> range_wf r' \<and> range_len r' = range_len r
    \<and> range_lines new r' = range_lines old r"
proof -
  let ?s = "line_index (range_start r)" and ?e = "line_index (range_end r)"
  note rl = unat_range_len [OF rng]
  have se: "unat ?s \<le> unat ?e" using rl(2) by (simp add: word_le_nat_alt)
  from range_offset_sound [OF diff _ rl(2) in_old] off obtain p q where
    o: "off = int q - int p" and p: "p \<le> unat ?s" and q: "q \<le> length new"
    and eq: "take (unat ?e + 1 - p) (drop p old) = take (unat ?e + 1 - p) (drop q new)" by auto
  define ns ne where "ns = unat ?s - p + q" and "ne = unat ?e - p + q"
  have "length (take (unat ?e + 1 - p) (drop p old)) = unat ?e + 1 - p" using in_old p se by simp
  then have "unat ?e + 1 - p \<le> length new - q" unfolding eq by simp
  then have ne_lt: "ne < length new" using p se q by (auto simp: ne_def)
  have ns_le: "ns \<le> ne" using se by (simp add: ns_def ne_def)
  have fits: "ns < 2 ^ 32" "ne < 2 ^ 32" "ns + 1 < 2 ^ 32" "ne + 1 < 2 ^ 32" using ne_lt ns_le len by linarith+
  have "uint ?s + off = int ns" "uint ?e + off = int ne"
    using p se unfolding o uint_nat ns_def ne_def by linarith+
  then have s32: "u32_try_from (uint ?s + off) = Some (of_nat ns)"
    and e32: "u32_try_from (uint ?e + off) = Some (of_nat ne)"
    using fits by (simp_all only: u32_try_from_nat)
  note un = unat_of_nat_u32 [OF fits(1)] unat_of_nat_u32 [OF fits(2)]
  note wf = unat_line_from_index [of "of_nat ns", unfolded un, OF fits(3)]
    unat_line_from_index [of "of_nat ne", unfolded un, OF fits(4)]
  let ?r = "LineRange (line_from_index (of_nat ns)) (line_from_index (of_nat ne))"
  have wf': "range_wf ?r" using wf ns_le by (simp add: range_wf_def word_le_nat_alt)
  have len_eq: "unat (range_len ?r) = unat (range_len r)"
    using unat_range_len(1) [OF wf'] rl(1) wf un p se by (simp add: ns_def ne_def)
  have "range_lines new ?r = range_lines old r"
  proof -
    let ?n = "unat ?e + 1 - unat ?s"
    have n: "unat ?e + 1 - p - (unat ?s - p) = ?n" using p se by simp
    have "drop (unat ?s - p) (take (unat ?e + 1 - p) (drop p old)) = drop (unat ?s - p) (take (unat ?e + 1 - p) (drop q new))"
      by (simp only: eq)
    then have "take ?n (drop (unat ?s - p + p) old) = take ?n (drop ns new)"
      by (simp only: drop_take drop_drop n ns_def)
    then show ?thesis unfolding range_lines_def len_eq rl(1) using p by (simp add: wf un)
  qed
  moreover have "map_range diff old new r = Some ?r"
    using in_old off s32 e32 un ne_lt wf ns_le
    by (simp add: map_range_def Let_def range_new_def word_le_nat_alt)
  moreover have "range_len ?r = range_len r" using len_eq by (simp add: word_unat_eq_iff)
  ultimately show ?thesis using wf' by blast
qed

lemma map_range_Some_lines:
  assumes "range_wf r" "edit_script old new (diff old new) 0 0" "length new < 2 ^ 32"
    and "map_range diff old new r = Some r'"
  shows "range_lines new r' = range_lines old r"
proof -
  obtain off where "unat (line_index (range_end r)) < length old"
    "range_offset (diff old new) (line_index (range_start r)) (line_index (range_end r)) 0 = Some off"
    using assms(4) by (auto simp: map_range_def Let_def bind_eq_Some_conv split: if_splits)
  then show ?thesis
    using map_range_Some [where diff = diff and old = old and new = new, OF assms(1-3)] assms(4) by auto
qed

text \<open>
  C22: Mapping a line range through a correct diff of files below \<open>2^32\<close> lines succeeds exactly
  when the range is inside the old file and no hunk changes one of its lines or inserts
  strictly inside it; and the mapped range is well formed, has the same length and holds
  exactly the same lines in the new file.
\<close>

theorem map_range_spec:
  assumes "range_wf r" "edit_script old new (diff old new) 0 0" "length new < 2 ^ 32"
  shows "case map_range diff old new r of
      None \<Rightarrow> length old \<le> unat (line_index (range_end r))
        \<or> list_ex (touches (line_index (range_start r)) (line_index (range_end r))) (diff old new)
    | Some r' \<Rightarrow> unat (line_index (range_end r)) < length old
        \<and> \<not> list_ex (touches (line_index (range_start r)) (line_index (range_end r))) (diff old new)
        \<and> range_wf r' \<and> range_len r' = range_len r \<and> range_lines new r' = range_lines old r"
proof (cases "unat (line_index (range_end r)) < length old")
  case False
  then show ?thesis by (simp add: map_range_def Let_def)
next
  case True
  let ?s = "line_index (range_start r)" and ?e = "line_index (range_end r)"
  have none: "range_offset (diff old new) ?s ?e 0 = None \<longleftrightarrow> list_ex (touches ?s ?e) (diff old new)"
    by (rule range_offset_None [OF assms(2) unat_range_len(2) [OF assms(1)]])
  show ?thesis
  proof (cases "range_offset (diff old new) ?s ?e 0")
    case None
    then have "map_range diff old new r = None" by (simp add: map_range_def Let_def)
    then show ?thesis using none None by simp
  next
    case (Some off)
    then show ?thesis using map_range_Some [where diff = diff and old = old and new = new, OF assms True Some] none True by auto
  qed
qed

theorem map_range_spec_witness:
  "map_range (\<lambda>_ _. [\<lparr>dh_before_start = 0, dh_before_end = 0, dh_after_start = 0, dh_after_end = 1\<rparr>])
     [''a'', ''b''] [''x'', ''a'', ''b''] (LineRange (LineNo 2) (LineNo 2)) \<noteq> None
   \<and> \<not> touches 1 1 \<lparr>dh_before_start = 0, dh_before_end = 0, dh_after_start = 0, dh_after_end = 1\<rparr>"
proof -
  have t: "\<not> touches 1 1 \<lparr>dh_before_start = 0, dh_before_end = 0, dh_after_start = 0, dh_after_end = 1\<rparr>"
    by (simp add: touches_def dh_before_empty_def)
  show ?thesis
    using t map_range_spec [of "LineRange (LineNo 2) (LineNo 2)" "[''a'', ''b'']" "[''x'', ''a'', ''b'']"
        "\<lambda>_ _. [\<lparr>dh_before_start = 0, dh_before_end = 0, dh_after_start = 0, dh_after_end = 1\<rparr>]"]
    by (auto simp: range_wf_def line_wf_def line_index_def split: option.splits)
qed

section \<open>The outcome of re-anchoring\<close>

fun anchor_repo :: "anchor \<Rightarrow> repo_id option" where
  "anchor_repo Anchor_Review = None"
| "anchor_repo (Anchor_File repo _ _) = Some repo"
| "anchor_repo (Anchor_Lines repo _ _ _ _ _) = Some repo"

fun anchor_blob_oid :: "anchor \<Rightarrow> blob_oid option" where
  "anchor_blob_oid Anchor_Review = None"
| "anchor_blob_oid (Anchor_File _ _ blob) = Some blob"
| "anchor_blob_oid (Anchor_Lines _ _ _ blob _ _) = Some blob"

text \<open>
  A line anchor that followed its lines into another blob: the mapped range holds the same
  lines there and their context has the recorded hash.
\<close>

definition lines_followed :: "anchor_libs \<Rightarrow> (blob_oid \<Rightarrow> string option) \<Rightarrow> (blob_oid \<Rightarrow> string option)
    \<Rightarrow> anchor \<Rightarrow> anchor \<Rightarrow> bool" where
  "lines_followed libs old_blob new_blob base moved \<longleftrightarrow>
     (case (base, moved) of
        (Anchor_Lines _ _ side blob lines hash, Anchor_Lines _ _ side' blob' lines' hash') \<Rightarrow>
          side' = side \<and> hash' = hash
          \<and> (if blob' = blob then lines' = lines
             else (case (old_blob blob, new_blob blob') of
                     (Some o1, Some n1) \<Rightarrow>
                       range_lines (lines_of n1) lines' = range_lines (lines_of o1) lines
                       \<and> context_hash_of (al_hasher libs) (lines_of n1) lines' = hash
                   | _ \<Rightarrow> False))
      | (Anchor_File _ _ _, Anchor_File _ _ _) \<Rightarrow> True
      | _ \<Rightarrow> False)"

definition diff_correct :: "anchor_libs \<Rightarrow> bool" where
  "diff_correct libs \<longleftrightarrow>
     (\<forall>old new. length old < 2 ^ 32 \<longrightarrow> length new < 2 ^ 32 \<longrightarrow>
        edit_script old new (al_diff libs old new) 0 0)"

definition anchor_wf :: "anchor \<Rightarrow> bool" where
  "anchor_wf a \<longleftrightarrow> (case a of Anchor_Lines _ _ _ _ lines _ \<Rightarrow> range_wf lines | _ \<Rightarrow> True)"

definition blobs_small :: "(blob_oid \<Rightarrow> string option) \<Rightarrow> bool" where
  "blobs_small blob \<longleftrightarrow> (\<forall>b content. blob b = Some content \<longrightarrow> length (lines_of content) < 2 ^ 32)"

lemma reanchor_lines_Some:
  assumes "diff_correct libs" "range_wf lines" "blobs_small old_blob" "blobs_small new_blob"
    and "reanchor_lines libs (old_blob b) (new_blob b') lines hash = Some mapped"
  shows "\<exists>o1 n1. old_blob b = Some o1 \<and> new_blob b' = Some n1
    \<and> range_lines (lines_of n1) mapped = range_lines (lines_of o1) lines
    \<and> context_hash_of (al_hasher libs) (lines_of n1) mapped = hash"
proof -
  obtain o1 n1 where blobs: "old_blob b = Some o1" "new_blob b' = Some n1"
    and m: "map_range (al_diff libs) (lines_of o1) (lines_of n1) lines = Some mapped"
    and h: "context_hash_of (al_hasher libs) (lines_of n1) mapped = hash"
    using assms(5) by (auto simp: reanchor_lines_def split: option.splits if_splits)
  have small: "length (lines_of o1) < 2 ^ 32" "length (lines_of n1) < 2 ^ 32"
    using assms(3,4) blobs unfolding blobs_small_def by blast+
  then have "edit_script (lines_of o1) (lines_of n1) (al_diff libs (lines_of o1) (lines_of n1)) 0 0"
    using assms(1) unfolding diff_correct_def by blast
  then have "range_lines (lines_of n1) mapped = range_lines (lines_of o1) lines"
    using map_range_Some_lines [of lines _ _ "al_diff libs"] assms(2) small(2) m by blast
  then show ?thesis using blobs h by blast
qed

text \<open>
  C23: Re-anchoring only moves a comment in two ways. Either it is live again, on the path and
  blob where its file now is, in the same repository, and a line comment that went to another
  blob holds exactly the same lines there with the recorded context hash; or it keeps its
  anchor and becomes outdated with the anchor it was tried from as its last good one. It
  never deletes a comment, and it leaves deleted comments and review-wide ones alone.
\<close>

theorem reanchor_sound:
  assumes "reanchor libs anchor state fate old_blob new_blob = Reanchor_Moved a st"
    and "diff_correct libs" "anchor_wf (effective_anchor anchor state)"
    and "blobs_small old_blob" "blobs_small new_blob"
  shows "state \<noteq> State_Deleted \<and> effective_anchor anchor state \<noteq> Anchor_Review
    \<and> (a = anchor \<and> st = State_Outdated (effective_anchor anchor state)
       \<or> st = State_Live
         \<and> fate = Fate_Present (anchor_path a) (the (anchor_blob_oid a))
         \<and> anchor_repo a = anchor_repo (effective_anchor anchor state)
         \<and> lines_followed libs old_blob new_blob (effective_anchor anchor state) a)"
proof (cases "effective_anchor anchor state")
  case Anchor_Review
  then show ?thesis using assms(1) by (simp add: reanchor_def split: if_splits)
next
  case (Anchor_File repo path blob)
  then show ?thesis
    using assms(1)
    by (auto simp: reanchor_def reanchor_gone_def reanchor_outdated_def lines_followed_def Let_def
        split: if_splits path_fate.splits comment_state.splits)
next
  case (Anchor_Lines repo path side blob lines hash)
  have wf: "range_wf lines" using assms(3) by (simp add: Anchor_Lines anchor_wf_def)
  have live: "state \<noteq> State_Deleted" using assms(1) by (auto simp: reanchor_def)
  show ?thesis
  proof (cases fate)
    case Fate_Gone
    then show ?thesis
      using assms(1) Anchor_Lines live
      by (auto simp: reanchor_def reanchor_gone_def reanchor_outdated_def Let_def split: comment_state.splits)
  next
    case (Fate_Present path' blob')
    show ?thesis
    proof (cases "blob' = blob")
      case True
      then show ?thesis
        using assms(1) Anchor_Lines Fate_Present live
        by (auto simp: reanchor_def Let_def lines_followed_def split: if_splits)
    next
      case False
      show ?thesis
      proof (cases "reanchor_lines libs (old_blob blob) (new_blob blob') lines hash")
        case None
        then show ?thesis
          using assms(1) Anchor_Lines Fate_Present False live
          by (auto simp: reanchor_def reanchor_outdated_def Let_def)
      next
        case (Some mapped)
        then show ?thesis
          using assms(1) Anchor_Lines Fate_Present False live
            reanchor_lines_Some [OF assms(2) wf assms(4,5), of blob blob' hash mapped]
          by (auto simp: reanchor_def Let_def lines_followed_def)
      qed
    qed
  qed
qed

text \<open>The coarsest correct diff: one hunk that replaces everything.\<close>

definition replace_libs :: anchor_libs where
  "replace_libs =
     \<lparr>al_hasher = (\<lambda>_. 0),
      al_diff = (\<lambda>old new. [\<lparr>dh_before_start = 0, dh_before_end = of_nat (length old), dh_after_start = 0,
        dh_after_end = of_nat (length new)\<rparr>])\<rparr>"

lemma replace_libs_correct: "diff_correct replace_libs"
proof -
  have "unat (of_nat n :: u32) = n" if "n < 2 ^ 32" for n using that by (rule unat_of_nat_u32)
  then show ?thesis by (simp add: diff_correct_def replace_libs_def)
qed

theorem reanchor_sound_witness:
  "reanchor replace_libs (Anchor_File (RepoId (Ulid 1 1)) (RepoPath ''f'') (BlobOid oid_zero)) State_Live Fate_Gone
     (\<lambda>_. None) (\<lambda>_. None)
   = Reanchor_Moved (Anchor_File (RepoId (Ulid 1 1)) (RepoPath ''f'') (BlobOid oid_zero))
       (State_Outdated (effective_anchor (Anchor_File (RepoId (Ulid 1 1)) (RepoPath ''f'') (BlobOid oid_zero)) State_Live))"
proof -
  let ?a = "Anchor_File (RepoId (Ulid 1 1)) (RepoPath ''f'') (BlobOid oid_zero)"
  obtain st where m: "reanchor replace_libs ?a State_Live Fate_Gone (\<lambda>_. None) (\<lambda>_. None) = Reanchor_Moved ?a st"
    by (simp add: reanchor_def reanchor_gone_def reanchor_outdated_def Let_def)
  have "st = State_Outdated (effective_anchor ?a State_Live)"
    using reanchor_sound [OF m replace_libs_correct] by (simp add: anchor_wf_def blobs_small_def)
  then show ?thesis using m by simp
qed

text \<open>
  An outdated comment comes back when its content does: tried again with its file at the
  path and blob of its last good anchor, it is live at exactly that anchor.
\<close>

lemma reanchor_recovers:
  assumes "base \<noteq> Anchor_Review" "anchor_blob_oid base = Some blob"
  shows "reanchor libs anchor (State_Outdated base) (Fate_Present (anchor_path base) blob) old_blob new_blob
    = Reanchor_Moved base State_Live"
  using assms by (cases base) (auto simp: reanchor_def)

text \<open>
  A line comment that is already outdated and whose file is present but still does not match
  is moved to the anchor and state it already has.
\<close>

lemma reanchor_repeats_outdated:
  assumes "base = Anchor_Lines repo path side blob lines hash" "blob' \<noteq> blob"
    and "reanchor_lines libs (old_blob blob) (new_blob blob') lines hash = None"
  shows "reanchor libs anchor (State_Outdated base) (Fate_Present path' blob') old_blob new_blob
    = Reanchor_Moved anchor (State_Outdated base)"
  using assms by (simp add: reanchor_def reanchor_outdated_def)

end
