(* ===== verification/Nits_Core.thy ===== *)
theory Nits_Core
  imports Nits_Replay Nits_Anchor
begin

text \<open>
  The \<open>Core\<close> facade, \<open>crates/nits-review-core/src/core.rs\<close>, and the repository registry of
  \<open>repository.rs\<close>. An operation takes the core state and returns a result with the state it
  leaves, on errors too, since what was appended before an error stays. Git and the file system
  (\<open>git.rs\<close>, \<open>suggestion_file.rs\<close>) are reached through a record of functions: the answers they
  give during one operation. Error texts are constructors of a reason type. The guard on the
  registry makes an operation atomic and is not part of the state.
\<close>

section \<open>The environment\<close>

datatype git_error = GitError string

record path_change =
  pc_path :: repo_path
  pc_kind :: change_kind

record git_repo =
  gr_blob :: "blob_oid \<Rightarrow> (git_error, string) result"
  gr_resolve :: "ref_spec \<Rightarrow> (git_error, resolved_ref) result"
  gr_tree_snapshot :: "repo_id \<Rightarrow> tree_oid \<Rightarrow> (git_error, tree_snapshot) result"
  gr_changed_files :: "tree_oid \<Rightarrow> tree_oid \<Rightarrow> (git_error, path_change list) result"
  gr_commit_info :: "commit_oid \<Rightarrow> (git_error, commit_info) result"
  gr_commits_between :: "commit_oid \<Rightarrow> commit_oid \<Rightarrow> (git_error, commit_info list) result"
  gr_retain_revision :: "review_id \<Rightarrow> resolved_ref \<Rightarrow> (git_error, unit) result"
  gr_hash_blob :: "string \<Rightarrow> (git_error, blob_oid) result"
  gr_worktree_metadata :: "(git_error, string) result"
  gr_read_file :: "repo_path \<Rightarrow> (string, string) result"
  gr_replace_file :: "repo_path \<Rightarrow> string \<Rightarrow> string \<Rightarrow> string \<Rightarrow> (string, unit) result"

record opened_repo =
  or_checkout :: string
  or_git :: git_repo

record env =
  en_canonicalize :: "string \<Rightarrow> string option"
  en_open :: "string \<Rightarrow> (git_error, opened_repo) result"
  en_libs :: anchor_libs

section \<open>Errors\<close>

datatype entity =
    Entity_Workspace workspace_id
  | Entity_Review review_id
  | Entity_Repo repo_id
  | Entity_Comment comment_id
  | Entity_Thread thread_id
  | Entity_Path repo_path

datatype invalid_reason =
    WorkspaceExists workspace_id
  | WorkspaceNameEmpty
  | RepoUnavailable repo_id workspace_id string
  | RepoCannotOpen repo_id workspace_id string
  | RepoConflict repo_id workspace_id string workspace_id string
  | RepoIdentifiesOther repo_id string string
  | RepoAlreadyAttached repo_id workspace_id
  | CheckoutAlreadyAttached string workspace_id repo_id
  | RepoNotAttached repo_id workspace_id
  | RepoNotInReview repo_id review_id
  | RepoNotInWorkspace repo_id workspace_id
  | CreateTargetsInvalid create_review_targets_error
  | ReviewExists review_id
  | TargetUnresolvable git_error
  | NoTargets
  | ReviewNotResolved review_id
  | RequestNotInReview
  | RequestTargetsUnknown
  | CheckpointNotInReview
  | CheckpointReposDiffer
  | NoCapturedHead
  | CommentExists comment_id
  | InformationalNeedsReviewAnchor
  | BrowseNeedsFileAnchor
  | LinesExceedBlob line_range nat
  | InformationalNotDeferrable
  | ReopenBeforeDeferring
  | InformationalNotResolvable
  | AlreadyResolved thread_id
  | NotResolved thread_id
  | AgentNameEmpty
  | SuggestionAlreadyApplied comment_id seq
  | ReviewLevelSuggestion
  | FileChangedSinceSuggestion repo_path
  | PatchDoesNotApply patch_error
  | NotASuggestion comment_id
  | SuggestionRefused string
  | CheckMustCoverRepos
  | CommitTreeDisagree
  | WorkingTreeNotCaptured
  | RoundNotInReview
  | ReplayInvalid replay_reason
  | SelectRepoExplicitly
  | AllDiscoveryUnavailable
  | DirectoryUnavailable string
  | NotInWorkingTree
  | DirectoryRefused git_error
  | CheckoutAttachedTwice workspace_id
  | CheckoutInSeveralWorkspaces
  | NoLogPosition
  | BootstrapCommittedNothing

datatype forbidden_reason =
    OnlyAuthorMayEdit
  | OnlyAuthorMayDelete
  | AgentsCannotMarkViewed
  | DaemonCannotReview

datatype core_error =
    NotFound entity
  | Invalid invalid_reason
  | Forbidden forbidden_reason
  | StoreFailed store_error
  | GitFailed git_error

section \<open>State and operations\<close>

record core =
  co_store :: store
  co_opened :: "repo_id \<rightharpoonup> opened_repo"

record ctx =
  cx_author :: author
  cx_client_id :: client_id
  cx_client_seq :: client_seq
  cx_now :: timestamp

type_synonym 'a op = "core \<Rightarrow> (core_error, 'a) result \<times> core"

definition retO :: "'a \<Rightarrow> 'a op" where
  "retO x c = (Inr x, c)"

definition failO :: "core_error \<Rightarrow> 'a op" where
  "failO e c = (Inl e, c)"

definition bindO :: "'a op \<Rightarrow> ('a \<Rightarrow> 'b op) \<Rightarrow> 'b op" where
  "bindO m f c = (case m c of (Inl e, c') \<Rightarrow> (Inl e, c') | (Inr x, c') \<Rightarrow> f x c')"

text \<open>A fallible read of the state, and a result that does not depend on it.\<close>

definition readO :: "(core \<Rightarrow> (core_error, 'a) result) \<Rightarrow> 'a op" where
  "readO f c = (f c, c)"

definition liftO :: "(core_error, 'a) result \<Rightarrow> 'a op" where
  "liftO r c = (r, c)"

definition guardO :: "bool \<Rightarrow> core_error \<Rightarrow> unit op" where
  "guardO b e = (if b then retO () else failO e)"

definition gitO :: "(git_error, 'a) result \<Rightarrow> 'a op" where
  "gitO r = liftO (map_err GitFailed r)"

fun forO :: "('a \<Rightarrow> 'b op) \<Rightarrow> 'a list \<Rightarrow> 'b list op" where
  "forO f [] = retO []"
| "forO f (x # xs) = bindO (f x) (\<lambda>y. bindO (forO f xs) (\<lambda>ys. retO (y # ys)))"

definition core_append :: "ctx \<Rightarrow> event_body \<Rightarrow> event op" where
  "core_append ctx body c =
     (case append_event \<lparr>ne_ts = cx_now ctx, ne_author = cx_author ctx, ne_client_id = cx_client_id ctx,
             ne_client_seq = cx_client_seq ctx, ne_body = body\<rparr> (co_store c) of
        Inl e \<Rightarrow> (Inl (StoreFailed e), c)
      | Inr (event, s) \<Rightarrow> (Inr event, c\<lparr>co_store := s\<rparr>))"

definition core_events_after :: "seq option \<Rightarrow> event list op" where
  "core_events_after after = readO (\<lambda>c. Inr (events_after after (co_store c)))"

definition core_last_seq :: "seq option op" where
  "core_last_seq = readO (\<lambda>c. Inr (last_seq (co_store c)))"

section \<open>Lookups\<close>

definition core_workspaces :: "workspace list op" where
  "core_workspaces = readO (\<lambda>c. Inr (store_workspaces (co_store c)))"

definition core_workspace :: "workspace_id \<Rightarrow> workspace op" where
  "core_workspace wid =
     readO (\<lambda>c. ok_or (NotFound (Entity_Workspace wid)) (store_workspace (co_store c) wid))"

definition core_reviews :: "workspace_id \<Rightarrow> review list op" where
  "core_reviews wid = readO (\<lambda>c. Inr (map rec_review (store_reviews (co_store c) wid)))"

definition core_review :: "review_id \<Rightarrow> review_record op" where
  "core_review rid =
     readO (\<lambda>c. bindR (ok_or (NotFound (Entity_Review rid)) (store_review (co_store c) rid))
       (\<lambda>rec. case rec_lifecycle rec of
          Lifecycle_Live \<Rightarrow> Inr rec
        | Lifecycle_Deleted _ \<Rightarrow> Inl (NotFound (Entity_Review rid))))"

definition stored_review_workspace :: "store \<Rightarrow> review_id \<Rightarrow> (core_error, workspace_id) result" where
  "stored_review_workspace s rid =
     ok_or (NotFound (Entity_Review rid))
       (map_option (\<lambda>rec. rv_workspace_id (rec_review rec)) (store_review s rid))"

definition core_review_snapshot :: "review_id \<Rightarrow> review_snapshot op" where
  "core_review_snapshot rid =
     readO (\<lambda>c. ok_or (NotFound (Entity_Review rid)) (store_review_snapshot (co_store c) rid))"

definition core_comment :: "review_id \<Rightarrow> comment_id \<Rightarrow> comment op" where
  "core_comment review cid =
     readO (\<lambda>c. ok_or (NotFound (Entity_Comment cid))
       (case store_comment (co_store c) review cid of
          None \<Rightarrow> None
        | Some cm \<Rightarrow> if cm_state cm = State_Deleted then None else Some cm))"

definition core_thread :: "review_id \<Rightarrow> thread_id \<Rightarrow> thread op" where
  "core_thread review tid =
     readO (\<lambda>c. ok_or (NotFound (Entity_Thread tid))
       (find (\<lambda>t. th_id t = tid) (store_threads (co_store c) review)))"

definition core_comments :: "review_id \<Rightarrow> comment list op" where
  "core_comments review =
     bindO (core_review review) (\<lambda>_. readO (\<lambda>c. Inr (store_comments (co_store c) review)))"

definition core_threads :: "review_id \<Rightarrow> thread list op" where
  "core_threads review =
     bindO (core_review review) (\<lambda>_. readO (\<lambda>c. Inr (store_threads (co_store c) review)))"

definition replay_events :: "byte_lengths \<Rightarrow> subscribe_scope \<Rightarrow> replay_position \<Rightarrow> replay_page op" where
  "replay_events len scope position =
     readO (\<lambda>c.
       case Nits_Replay.replay_page len position (co_store c) of
         Inl (Replay reason) \<Rightarrow> Inl (Invalid (ReplayInvalid reason))
       | Inl e \<Rightarrow> Inl (StoreFailed e)
       | Inr page \<Rightarrow>
           Inr (page\<lparr>pg_events := filter (\<lambda>event. scope_matches scope event
             (\<lambda>review. case stored_review_workspace (co_store c) review of Inr w \<Rightarrow> Some w | Inl _ \<Rightarrow> None))
               (pg_events page)\<rparr>))"

section \<open>Repositories\<close>

definition bind_member :: "env \<Rightarrow> (repo_id \<rightharpoonup> opened_repo) \<Rightarrow> repo_id \<Rightarrow> workspace_id \<times> repo
    \<Rightarrow> (workspace_id \<times> opened_repo) option \<Rightarrow> (core_error, (workspace_id \<times> opened_repo) option) result" where
  "bind_member E registry rid m bound =
     (case m of (wid, member) \<Rightarrow>
      bindR (ok_or (Invalid (RepoUnavailable rid wid (rp_path member)))
               (en_canonicalize E (rp_path member))) (\<lambda>path.
      bindR (case registry rid of
               Some cached \<Rightarrow>
                 if or_checkout cached = path then Inr cached
                 else map_err (\<lambda>_. Invalid (RepoCannotOpen rid wid (rp_path member))) (en_open E path)
             | None \<Rightarrow> map_err (\<lambda>_. Invalid (RepoCannotOpen rid wid (rp_path member))) (en_open E path))
        (\<lambda>opened.
           case bound of
             Some (owner, previous) \<Rightarrow>
               if or_checkout previous \<noteq> or_checkout opened
               then Inl (Invalid (RepoConflict rid owner (or_checkout previous) wid (or_checkout opened)))
               else Inr bound
           | None \<Rightarrow> Inr (Some (wid, opened)))))"

definition memberships :: "workspace list \<Rightarrow> repo_id \<Rightarrow> (workspace_id \<times> repo) list" where
  "memberships wss rid =
     concat (map (\<lambda>ws. map (\<lambda>r. (ws_id ws, r)) (filter (\<lambda>r. rp_id r = rid) (ws_repos ws))) wss)"

definition bound_repo :: "env \<Rightarrow> core \<Rightarrow> repo_id \<Rightarrow> (core_error, opened_repo option) result" where
  "bound_repo E c rid =
     bindR (foldR (bind_member E (co_opened c) rid) (memberships (store_workspaces (co_store c)) rid) None)
       (\<lambda>bound. Inr (map_option snd bound))"

definition check_repo_owner :: "env \<Rightarrow> repo_id \<Rightarrow> opened_repo \<Rightarrow> unit op" where
  "check_repo_owner E rid candidate =
     readO (\<lambda>c. bindR (bound_repo E c rid) (\<lambda>bound.
       case bound of
         Some b \<Rightarrow>
           if or_checkout b \<noteq> or_checkout candidate
           then Inl (Invalid (RepoIdentifiesOther rid (or_checkout b) (or_checkout candidate)))
           else Inr ()
       | None \<Rightarrow> Inr ()))"

definition set_opened :: "repo_id \<Rightarrow> opened_repo option \<Rightarrow> unit op" where
  "set_opened rid o1 c = (Inr (), c\<lparr>co_opened := (co_opened c)(rid := o1)\<rparr>)"

definition publish_attachment :: "ctx \<Rightarrow> workspace_id \<Rightarrow> repo_id \<Rightarrow> opened_repo \<Rightarrow> string \<Rightarrow> repo op" where
  "publish_attachment ctx wid rid opened display_name =
     (let repo = \<lparr>rp_id = rid, rp_path = or_checkout opened, rp_display_name = display_name\<rparr>
      in bindO (core_append ctx (RepoAttached wid repo)) (\<lambda>_.
         bindO (set_opened rid (Some opened)) (\<lambda>_. retO repo)))"

definition same_checkout_member :: "env \<Rightarrow> opened_repo \<Rightarrow> repo \<Rightarrow> bool" where
  "same_checkout_member E opened member \<longleftrightarrow>
     (case en_open E (rp_path member) of
        Inr existing \<Rightarrow> or_checkout existing = or_checkout opened
      | Inl _ \<Rightarrow> False)"

definition attach_repo :: "env \<Rightarrow> ctx \<Rightarrow> workspace_id \<Rightarrow> repo_id \<Rightarrow> string \<Rightarrow> string \<Rightarrow> repo op" where
  "attach_repo E ctx wid rid path display_name =
     bindO (core_workspace wid) (\<lambda>ws.
     bindO (guardO (\<not> list_ex (\<lambda>r. rp_id r = rid) (ws_repos ws)) (Invalid (RepoAlreadyAttached rid wid))) (\<lambda>_.
     bindO (gitO (en_open E path)) (\<lambda>opened.
     bindO (check_repo_owner E rid opened) (\<lambda>_.
       case find (same_checkout_member E opened) (ws_repos ws) of
         Some member \<Rightarrow> failO (Invalid (CheckoutAlreadyAttached (or_checkout opened) wid (rp_id member)))
       | None \<Rightarrow> publish_attachment ctx wid rid opened display_name))))"

definition is_blank :: "string \<Rightarrow> bool" where
  "is_blank s \<longleftrightarrow> list_all is_whitespace (utf8_scalars s)"

definition create_workspace :: "ctx \<Rightarrow> workspace_id \<Rightarrow> string \<Rightarrow> workspace op" where
  "create_workspace ctx wid name =
     bindO (readO (\<lambda>c. Inr (store_workspace (co_store c) wid))) (\<lambda>existing.
     bindO (guardO (existing = None) (Invalid (WorkspaceExists wid))) (\<lambda>_.
     bindO (guardO (\<not> is_blank name) (Invalid WorkspaceNameEmpty)) (\<lambda>_.
       let workspace = \<lparr>ws_id = wid, ws_name = name, ws_repos = []\<rparr>
       in bindO (core_append ctx (WorkspaceCreated workspace)) (\<lambda>_. retO workspace))))"

definition create_workspace_with_repo :: "env \<Rightarrow> ctx \<Rightarrow> workspace_id \<Rightarrow> repo_id \<Rightarrow> string \<Rightarrow> string \<Rightarrow> unit op" where
  "create_workspace_with_repo E ctx wid rid path name =
     bindO (gitO (en_open E path)) (\<lambda>opened.
     bindO (check_repo_owner E rid opened) (\<lambda>_.
     bindO (create_workspace ctx wid name) (\<lambda>_.
     bindO (publish_attachment ctx wid rid opened name) (\<lambda>_. retO ()))))"

definition rename_workspace :: "ctx \<Rightarrow> workspace_id \<Rightarrow> string \<Rightarrow> unit op" where
  "rename_workspace ctx wid name =
     bindO (core_workspace wid) (\<lambda>_.
     bindO (core_append ctx (WorkspaceUpdated wid name)) (\<lambda>_. retO ()))"

definition detach_repo :: "ctx \<Rightarrow> workspace_id \<Rightarrow> repo_id \<Rightarrow> unit op" where
  "detach_repo ctx wid rid =
     bindO (core_workspace wid) (\<lambda>ws.
     bindO (guardO (list_ex (\<lambda>r. rp_id r = rid) (ws_repos ws)) (NotFound (Entity_Repo rid))) (\<lambda>_.
     bindO (core_append ctx (RepoDetached wid rid)) (\<lambda>_.
       set_opened rid None)))"

definition lookup_repo :: "env \<Rightarrow> repo_id \<Rightarrow> git_repo op" where
  "lookup_repo E rid =
     bindO (readO (\<lambda>c. bindR (bound_repo E c rid) (ok_or (NotFound (Entity_Repo rid))))) (\<lambda>opened.
     bindO (set_opened rid (Some opened)) (\<lambda>_. retO (or_git opened)))"

definition core_repo :: "env \<Rightarrow> repo_id \<Rightarrow> git_repo op" where
  "core_repo E rid = lookup_repo E rid"

definition repo_checkout_path :: "env \<Rightarrow> repo_id \<Rightarrow> string op" where
  "repo_checkout_path E rid =
     readO (\<lambda>c. bindR (bound_repo E c rid) (\<lambda>b.
       bindR (ok_or (NotFound (Entity_Repo rid)) b) (\<lambda>opened. Inr (or_checkout opened))))"

definition workspace_repo :: "env \<Rightarrow> workspace_id \<Rightarrow> repo_id \<Rightarrow> git_repo op" where
  "workspace_repo E wid rid =
     bindO (core_workspace wid) (\<lambda>ws.
     bindO (guardO (list_ex (\<lambda>r. rp_id r = rid) (ws_repos ws)) (Invalid (RepoNotAttached rid wid))) (\<lambda>_.
       lookup_repo E rid))"

definition review_repo :: "env \<Rightarrow> review_id \<Rightarrow> repo_id \<Rightarrow> git_repo op" where
  "review_repo E review rid =
     bindO (core_review review) (\<lambda>rec.
     bindO (guardO (list_ex (\<lambda>t. rt_repo_id t = rid) (ne_items (rv_targets (rec_review rec))))
              (Invalid (RepoNotInReview rid review))) (\<lambda>_.
       workspace_repo E (rv_workspace_id (rec_review rec)) rid))"

section \<open>Reasoning about operations\<close>

lemma op_simps [simp]:
  "retO x c = (Inr x, c)" "failO e c = (Inl e, c)" "readO f c = (f c, c)" "liftO r c = (r, c)"
  "guardO b e c = (if b then (Inr (), c) else (Inl e, c))" "gitO g c = (map_err GitFailed g, c)"
  "set_opened rid o1 c = (Inr (), c\<lparr>co_opened := (co_opened c)(rid := o1)\<rparr>)"
  by (simp_all add: retO_def failO_def readO_def liftO_def guardO_def gitO_def set_opened_def)

lemma bindO_Inr_iff [result_simps]:
  "bindO m f c = (Inr y, c') \<longleftrightarrow> (\<exists>x c1. m c = (Inr x, c1) \<and> f x c1 = (Inr y, c'))"
  by (auto simp: bindO_def split: sum.splits prod.splits)

lemma bindO_eval [simp]:
  "m c = (Inr x, c1) \<Longrightarrow> bindO m f c = f x c1"
  "m c = (Inl e, c1) \<Longrightarrow> bindO m f c = (Inl e, c1)"
  by (simp_all add: bindO_def)

lemma bindO_basic [simp]:
  "bindO (retO x) f = f x" "bindO (failO e) f = failO e" "bindO (liftO (Inr x)) f = f x"
  "bindO (liftO (Inl e)) f = failO e" "bindO (guardO b e) f = (if b then f () else failO e)"
  by (auto simp: fun_eq_iff bindO_def)

text \<open>An operation that leaves the store alone.\<close>

definition readonly :: "'a op \<Rightarrow> bool" where
  "readonly m \<longleftrightarrow> (\<forall>c. co_store (snd (m c)) = co_store c)"

lemma readonlyD: "readonly m \<Longrightarrow> m c = (r, c') \<Longrightarrow> co_store c' = co_store c"
  by (metis readonly_def snd_conv)

lemma readonly_basic [intro, simp]:
  "readonly (retO x)" "readonly (failO e)" "readonly (readO f)" "readonly (liftO r)"
  "readonly (guardO b e)" "readonly (gitO g)" "readonly (set_opened rid o1)"
  by (simp_all add: readonly_def)

lemma readonly_bindO [intro]: "readonly m \<Longrightarrow> (\<And>x. readonly (f x)) \<Longrightarrow> readonly (bindO m f)"
  unfolding readonly_def bindO_def by (simp split: sum.split prod.split) (metis snd_conv)

lemma readonly_forO [intro]: "(\<And>x. readonly (f x)) \<Longrightarrow> readonly (forO f xs)"
  by (induction xs) auto

lemma readonly_lookups [intro, simp]:
  "readonly (core_workspace wid)" "readonly (core_review rid)" "readonly (core_comment review cid)"
  "readonly (core_thread review tid)" "readonly (core_review_snapshot rid)"
  "readonly (check_repo_owner E pid o1)"
  by (simp_all add: core_workspace_def core_review_def core_comment_def core_thread_def
      core_review_snapshot_def check_repo_owner_def)

lemma readonly_lookup_repo [intro, simp]: "readonly (lookup_repo E rid)"
  unfolding lookup_repo_def by (intro readonly_bindO) auto

lemma readonly_workspace_repo [intro, simp]: "readonly (workspace_repo E wid rid)"
  unfolding workspace_repo_def by (intro readonly_bindO) auto

lemma readonly_review_repo [intro, simp]: "readonly (review_repo E review rid)"
  unfolding review_repo_def by (intro readonly_bindO) auto

lemma core_review_Inr:
  "core_review rid c = (Inr rec, c') \<longleftrightarrow>
     c' = c \<and> store_review (co_store c) rid = Some rec \<and> is_live rec"
  by (cases "store_review (co_store c) rid")
    (auto simp: core_review_def is_live_def split: review_lifecycle.splits)

lemma core_workspace_Inr:
  "core_workspace wid c = (Inr ws, c') \<longleftrightarrow> c' = c \<and> store_workspace (co_store c) wid = Some ws"
  by (auto simp: core_workspace_def result_simps)

lemma core_comment_Inr:
  "core_comment review cid c = (Inr cm, c') \<longleftrightarrow>
     c' = c \<and> store_comment (co_store c) review cid = Some cm \<and> cm_state cm \<noteq> State_Deleted"
  by (auto simp: core_comment_def result_simps split: option.splits if_splits)

lemma core_thread_Inr:
  "core_thread review tid c = (Inr th, c') \<longleftrightarrow>
     c' = c \<and> find (\<lambda>t. th_id t = tid) (store_threads (co_store c) review) = Some th"
  by (auto simp: core_thread_def result_simps)

lemma core_append_Inr:
  "core_append ctx body c = (Inr e, c') \<longleftrightarrow>
     (\<exists>s. append_event \<lparr>ne_ts = cx_now ctx, ne_author = cx_author ctx, ne_client_id = cx_client_id ctx,
             ne_client_seq = cx_client_seq ctx, ne_body = body\<rparr> (co_store c) = Inr (e, s)
        \<and> c' = c\<lparr>co_store := s\<rparr>)"
  by (auto simp: core_append_def split: sum.splits prod.splits)

section \<open>The contract between the core and the store\<close>

text \<open>
  A client of the store keeps an invariant of it by appending only bodies that are acceptable
  in the state it appends to. The rules below carry such an invariant, and what the client
  has read, through the sequencing of operations.
\<close>

locale store_client =
  fixes inv :: "store \<Rightarrow> bool"
    and ok :: "store \<Rightarrow> event_body \<Rightarrow> bool"
  assumes inv_append: "inv s \<Longrightarrow> ok s (ne_body new) \<Longrightarrow> append_event new s = Inr (e, s') \<Longrightarrow> inv s'"
begin

definition triple :: "(store \<Rightarrow> bool) \<Rightarrow> 'a op \<Rightarrow> ('a \<Rightarrow> store \<Rightarrow> bool) \<Rightarrow> bool" where
  "triple P m Q \<longleftrightarrow>
     (\<forall>c r c'. inv (co_store c) \<longrightarrow> P (co_store c) \<longrightarrow> m c = (r, c') \<longrightarrow>
        inv (co_store c') \<and> (\<forall>x. r = Inr x \<longrightarrow> Q x (co_store c')))"

lemma tripleI:
  "(\<And>c r c'. inv (co_store c) \<Longrightarrow> P (co_store c) \<Longrightarrow> m c = (r, c') \<Longrightarrow>
      inv (co_store c') \<and> (\<forall>x. r = Inr x \<longrightarrow> Q x (co_store c'))) \<Longrightarrow> triple P m Q"
  by (simp add: triple_def)

lemma triple_bindO:
  assumes "triple P m Q" "\<And>x. triple (Q x) (f x) S"
  shows "triple P (bindO m f) S"
proof (rule tripleI)
  fix c r c'
  assume c: "inv (co_store c)" "P (co_store c)" "bindO m f c = (r, c')"
  obtain r1 c1 where m: "m c = (r1, c1)" by fastforce
  have q: "inv (co_store c1) \<and> (\<forall>x. r1 = Inr x \<longrightarrow> Q x (co_store c1))"
    using assms(1) c(1,2) m unfolding triple_def by blast
  show "inv (co_store c') \<and> (\<forall>x. r = Inr x \<longrightarrow> S x (co_store c'))"
  proof (cases r1)
    case (Inl e)
    then show ?thesis using c(3) m q by auto
  next
    case (Inr x)
    then have "f x c1 = (r, c')" using c(3) m by simp
    then show ?thesis using assms(2) q Inr unfolding triple_def by blast
  qed
qed

lemma triple_readonly: "readonly m \<Longrightarrow> triple P m (\<lambda>_. P)"
  unfolding triple_def by (auto simp: readonlyD)

lemma triple_learn:
  "readonly m \<Longrightarrow>
     (\<And>c x c'. inv (co_store c) \<Longrightarrow> m c = (Inr x, c') \<Longrightarrow> P (co_store c) \<Longrightarrow> Q x (co_store c)) \<Longrightarrow>
     triple P m Q"
  unfolding triple_def by (auto simp: readonlyD)

lemma triple_append: "(\<And>s. P s \<Longrightarrow> ok s body) \<Longrightarrow> triple P (core_append ctx body) (\<lambda>_ _. True)"
proof (rule tripleI)
  fix c r c'
  assume ok: "\<And>s. P s \<Longrightarrow> ok s body" and c: "inv (co_store c)" "P (co_store c)" "core_append ctx body c = (r, c')"
  let ?new = "\<lparr>ne_ts = cx_now ctx, ne_author = cx_author ctx, ne_client_id = cx_client_id ctx,
             ne_client_seq = cx_client_seq ctx, ne_body = body\<rparr>"
  have "inv (co_store c')"
  proof (cases "append_event ?new (co_store c)")
    case (Inl e)
    then show ?thesis using c by (simp add: core_append_def)
  next
    case (Inr es)
    obtain e s where es: "es = (e, s)" by (cases es)
    then have "inv s" using inv_append [of "co_store c" ?new e s] ok [OF c(2)] c(1) Inr by simp
    then show ?thesis using c(3) Inr es by (auto simp: core_append_def)
  qed
  then show "inv (co_store c') \<and> (\<forall>x. r = Inr x \<longrightarrow> True)" by simp
qed

lemma triple_weaken: "triple P m Q \<Longrightarrow> (\<And>s. P' s \<Longrightarrow> P s) \<Longrightarrow> (\<And>x s. Q x s \<Longrightarrow> Q' x s) \<Longrightarrow> triple P' m Q'"
  unfolding triple_def by blast

lemma triple_guard: "(b \<Longrightarrow> triple P m Q) \<Longrightarrow> triple P (bindO (guardO b e) (\<lambda>_. m)) Q"
  by (cases b) (auto intro!: tripleI simp: bindO_def triple_def)

definition keeps :: "'a op \<Rightarrow> bool" where
  "keeps m \<longleftrightarrow> triple (\<lambda>_. True) m (\<lambda>_ _. True)"

lemma keepsI: "triple P m Q \<Longrightarrow> (\<And>s. P s) \<Longrightarrow> keeps m"
  unfolding keeps_def by (erule triple_weaken) auto

lemma keepsD: "keeps m \<Longrightarrow> inv (co_store c) \<Longrightarrow> inv (co_store (snd (m c)))"
  unfolding keeps_def triple_def by (metis prod.collapse)

lemma keeps_triple: "keeps m \<Longrightarrow> triple P m (\<lambda>_ _. True)"
  unfolding keeps_def by (erule triple_weaken) auto

lemma keeps_readonly: "readonly m \<Longrightarrow> keeps m"
  by (rule keepsI [OF triple_readonly]) auto

lemma keeps_bindO: "keeps m \<Longrightarrow> (\<And>x. keeps (f x)) \<Longrightarrow> keeps (bindO m f)"
  unfolding keeps_def by (rule triple_bindO)

lemma keeps_forO: "(\<And>x. keeps (f x)) \<Longrightarrow> keeps (forO f xs)"
proof (induction xs)
  case (Cons x xs)
  have "keeps (bindO (forO f xs) (\<lambda>ys. retO (y # ys)))" for y
    by (intro keeps_bindO Cons.IH Cons.prems keeps_readonly) simp
  then show ?case using Cons.prems by (simp add: keeps_bindO)
qed (simp add: keeps_readonly)

lemma keeps_append: "(\<And>s. ok s body) \<Longrightarrow> keeps (core_append ctx body)"
  by (rule keepsI [OF triple_append]) auto

end

interpretation validated_client: store_client "reachable_by validated" "\<lambda>s body. validated_body (st_views s) body"
proof unfold_locales
  fix s new e s'
  assume "reachable_by validated s" "validated_body (st_views s) (ne_body new)"
    "append_event new s = Inr (e, s')"
  moreover from this have "validated (st_views s) (event_at (next_seq s) new)"
    by (simp add: validated_def event_at_def)
  ultimately show "reachable_by validated s'" using reachable_by.appended by blast
qed

section \<open>Workspace operations are validated\<close>

lemma keeps_publish_attachment: "validated_client.keeps (publish_attachment ctx wid rid o1 name)"
  unfolding publish_attachment_def Let_def
  by (intro validated_client.keeps_bindO) (simp_all add: validated_client.keeps_readonly validated_client.keeps_append)

lemma keeps_create_workspace: "validated_client.keeps (create_workspace ctx wid name)"
  unfolding create_workspace_def Let_def
  by (intro validated_client.keeps_bindO) (simp_all add: validated_client.keeps_readonly validated_client.keeps_append)

lemma keeps_workspace_ops:
  "validated_client.keeps (rename_workspace ctx wid name)"
  "validated_client.keeps (detach_repo ctx wid rid)"
  "validated_client.keeps (create_workspace_with_repo E ctx wid rid path name)"
  unfolding rename_workspace_def detach_repo_def create_workspace_with_repo_def
  by (intro validated_client.keeps_bindO; simp add: validated_client.keeps_readonly
      validated_client.keeps_append keeps_create_workspace keeps_publish_attachment)+

lemma keeps_attach_repo: "validated_client.keeps (attach_repo E ctx wid rid path name)"
  unfolding attach_repo_def
  by (intro validated_client.keeps_bindO)
    (simp_all add: validated_client.keeps_readonly keeps_publish_attachment split: option.split)

end
