(* ===== verification/Nits_Comment_Query.thy ===== *)
theory Nits_Comment_Query
  imports Nits_Store_Views
begin

text \<open>
  Conversation filtering, \<open>crates/nits-review-core/src/store/comment_query.rs\<close> and
  \<open>crates/nits-protocol/src/comment_query.rs\<close>: a listing joins the threads of one review with
  their comments, keeps the threads that every filter selects, and counts what it returns.
  \<open>list_comments_exact\<close> says that on every store of the service the listing exists and is the
  declarative selection.
\<close>

section \<open>Queries and listings\<close>

datatype comment_thread_status =
    Conv_Open
  | Conv_Resolved
  | Conv_Deferred
  | Conv_Informational
  | Conv_Deleted

record comment_query =
  cq_status :: "comment_thread_status option"
  cq_thread_id :: "thread_id option"
  cq_path :: "repo_path option"
  cq_repo_id :: "repo_id option"
  cq_author :: "string option"
  cq_since :: "seq option"

record comment_thread =
  ct_id :: thread_id
  ct_review_id :: review_id
  ct_root :: comment_id
  ct_replies :: "comment_id list"
  ct_resolution :: thread_resolution
  ct_status :: comment_thread_status
  ct_comments :: "comment nonempty"

record comment_summary =
  cs_threads :: u32
  cs_open :: u32
  cs_resolved :: u32
  cs_deferred :: u32
  cs_informational :: u32
  cs_deleted :: u32
  cs_comments :: u32
  cs_deleted_comments :: u32

record comment_listing =
  cl_threads :: "comment_thread list"
  cl_summary :: comment_summary
  cl_suggestions :: "suggestion_record list"
  cl_requests :: "review_request list"
  cl_checkpoints :: "review_checkpoint list"
  cl_latest_checkpoints :: "reviewer_checkpoint list"
  cl_seq :: seq

definition summary_default :: comment_summary where
  "summary_default =
     \<lparr>cs_threads = 0, cs_open = 0, cs_resolved = 0, cs_deferred = 0, cs_informational = 0,
      cs_deleted = 0, cs_comments = 0, cs_deleted_comments = 0\<rparr>"

definition query_default :: comment_query where
  "query_default =
     \<lparr>cq_status = None, cq_thread_id = None, cq_path = None, cq_repo_id = None, cq_author = None,
      cq_since = None\<rparr>"

section \<open>Selecting conversations\<close>

fun matches_anchor :: "anchor \<Rightarrow> comment_query \<Rightarrow> bool" where
  "matches_anchor Anchor_Review query \<longleftrightarrow> cq_path query = None \<and> cq_repo_id query = None"
| "matches_anchor (Anchor_File repo_id path _) query \<longleftrightarrow>
     is_none_or (\<lambda>wanted. wanted = path) (cq_path query)
     \<and> is_none_or (\<lambda>wanted. wanted = repo_id) (cq_repo_id query)"
| "matches_anchor (Anchor_Lines repo_id path _ _ _ _) query \<longleftrightarrow>
     is_none_or (\<lambda>wanted. wanted = path) (cq_path query)
     \<and> is_none_or (\<lambda>wanted. wanted = repo_id) (cq_repo_id query)"

fun authored_by :: "string \<Rightarrow> author \<Rightarrow> bool" where
  "authored_by name (Author_Human author _) \<longleftrightarrow> author = name"
| "authored_by name (Author_Agent author _ _ _ _) \<longleftrightarrow> author = name"
| "authored_by name (Author_Daemon _) \<longleftrightarrow> name = ''daemon''"

fun resolution_status :: "thread_resolution \<Rightarrow> comment_thread_status" where
  "resolution_status Resolution_Open = Conv_Open"
| "resolution_status (Resolution_Resolved _ _) = Conv_Resolved"
| "resolution_status (Resolution_Deferred _ _ _ _) = Conv_Deferred"
| "resolution_status Resolution_Informational = Conv_Informational"

definition thread_status :: "thread \<Rightarrow> comment \<Rightarrow> comment_thread_status" where
  "thread_status th root =
     (if cm_state root = State_Deleted then Conv_Deleted else resolution_status (th_resolution th))"

definition comments_by_id :: "comment list \<Rightarrow> (ulid, comment) table" where
  "comments_by_id cs = fold (\<lambda>c. tbl_insert (comment_key (cm_id c)) c) cs tbl_empty"

definition join_thread :: "thread \<Rightarrow> (ulid, comment) table \<Rightarrow> comment_query \<Rightarrow> seq
    \<Rightarrow> (store_error, comment_thread option) result" where
  "join_thread th comments query seq =
     bindR (ok_or (Corrupt seq (ThreadHasNoRoot (th_id th) (th_root th)))
             (tbl_get comments (comment_key (th_root th)))) (\<lambda>root.
       let status = thread_status th root in
       if is_some_and (\<lambda>wanted. wanted \<noteq> status) (cq_status query) then Inr None
       else
         bindR (collectR (\<lambda>i. ok_or (Corrupt seq (ThreadHasNoComment (th_id th) i))
                                (tbl_get comments (comment_key i)))
                 (th_root th # th_replies th)) (\<lambda>joined.
           if \<not> list_ex (\<lambda>c. matches_anchor (cm_anchor c) query) joined
              \<or> is_some_and (\<lambda>name. \<not> list_ex (\<lambda>c. authored_by name (cm_author c)) joined) (cq_author query)
           then Inr None
           else
             bindR (map_err (\<lambda>_. Corrupt seq EmptyConversation) (ne_new joined)) (\<lambda>cs.
               Inr (Some \<lparr>ct_id = th_id th, ct_review_id = th_review_id th, ct_root = th_root th,
                          ct_replies = th_replies th, ct_resolution = th_resolution th,
                          ct_status = status, ct_comments = cs\<rparr>))))"

section \<open>Counting\<close>

definition increment :: "seq \<Rightarrow> u32 \<Rightarrow> (store_error, u32) result" where
  "increment seq count = ok_or (Corrupt seq QueryCountExceedsU32) (u32_checked_add count 1)"

fun increment_status :: "seq \<Rightarrow> comment_thread_status \<Rightarrow> comment_summary \<Rightarrow> (store_error, comment_summary) result" where
  "increment_status seq Conv_Open sm = bindR (increment seq (cs_open sm)) (\<lambda>n. Inr (sm\<lparr>cs_open := n\<rparr>))"
| "increment_status seq Conv_Resolved sm = bindR (increment seq (cs_resolved sm)) (\<lambda>n. Inr (sm\<lparr>cs_resolved := n\<rparr>))"
| "increment_status seq Conv_Deferred sm = bindR (increment seq (cs_deferred sm)) (\<lambda>n. Inr (sm\<lparr>cs_deferred := n\<rparr>))"
| "increment_status seq Conv_Informational sm =
     bindR (increment seq (cs_informational sm)) (\<lambda>n. Inr (sm\<lparr>cs_informational := n\<rparr>))"
| "increment_status seq Conv_Deleted sm = bindR (increment seq (cs_deleted sm)) (\<lambda>n. Inr (sm\<lparr>cs_deleted := n\<rparr>))"

definition count_comment :: "seq \<Rightarrow> comment \<Rightarrow> comment_summary \<Rightarrow> (store_error, comment_summary) result" where
  "count_comment seq c sm =
     bindR (increment seq (cs_comments sm)) (\<lambda>n.
       let sm = sm\<lparr>cs_comments := n\<rparr> in
       if cm_state c = State_Deleted
       then bindR (increment seq (cs_deleted_comments sm)) (\<lambda>n. Inr (sm\<lparr>cs_deleted_comments := n\<rparr>))
       else Inr sm)"

definition count_thread :: "comment_thread \<Rightarrow> seq \<Rightarrow> comment_summary \<Rightarrow> (store_error, comment_summary) result" where
  "count_thread th seq sm =
     bindR (increment seq (cs_threads sm)) (\<lambda>n.
     bindR (increment_status seq (ct_status th) (sm\<lparr>cs_threads := n\<rparr>)) (\<lambda>sm.
       foldR (count_comment seq) (ne_items (ct_comments th)) sm))"

section \<open>Threads with activity after a sequence number\<close>

fun changed_thread :: "(ulid, comment) table \<Rightarrow> event_body \<Rightarrow> thread_id option" where
  "changed_thread comments (CommentCreated c) = Some (cm_thread_id c)"
| "changed_thread comments (CommentEdited _ c _) = map_option cm_thread_id (tbl_get comments (comment_key c))"
| "changed_thread comments (CommentDeleted _ c) = map_option cm_thread_id (tbl_get comments (comment_key c))"
| "changed_thread comments (CommentReanchored _ c _ _) = map_option cm_thread_id (tbl_get comments (comment_key c))"
| "changed_thread comments (SuggestionApplied _ c _ _ _) = map_option cm_thread_id (tbl_get comments (comment_key c))"
| "changed_thread comments (ThreadDeferred _ th _ _) = Some th"
| "changed_thread comments (ThreadResolved _ th) = Some th"
| "changed_thread comments (ThreadUnresolved _ th) = Some th"
| "changed_thread comments _ = None"

definition changed_threads :: "store \<Rightarrow> review_id \<Rightarrow> seq \<Rightarrow> seq \<Rightarrow> (ulid, comment) table \<Rightarrow> thread_id set" where
  "changed_threads s review since through comments =
     (if since \<ge> through then {}
      else fold (\<lambda>(_, stored) changed.
             if body_review_id (ev_body (se_event stored)) \<noteq> Some review then changed
             else case changed_thread comments (ev_body (se_event stored)) of
                    None \<Rightarrow> changed
                  | Some th \<Rightarrow> insert th changed)
             (tbl_range (\<lambda>k. since < k \<and> k \<le> through) (st_events s)) {})"

section \<open>The listing\<close>

definition list_step :: "(ulid, comment) table \<Rightarrow> comment_query \<Rightarrow> seq \<Rightarrow> thread_id set option \<Rightarrow> thread
    \<Rightarrow> comment_thread list \<times> comment_summary \<times> comment_id set
    \<Rightarrow> (store_error, comment_thread list \<times> comment_summary \<times> comment_id set) result" where
  "list_step comments query seq changed th st =
     (case st of (threads, summary, selected) \<Rightarrow>
        if is_some_and (\<lambda>i. i \<noteq> th_id th) (cq_thread_id query)
           \<or> is_some_and (\<lambda>ids. th_id th \<notin> ids) changed
        then Inr st
        else bindR (join_thread th comments query seq) (\<lambda>joined.
          case joined of
            None \<Rightarrow> Inr st
          | Some conv \<Rightarrow>
              bindR (count_thread conv seq summary) (\<lambda>summary.
                Inr (threads @ [conv], summary, selected \<union> cm_id ` set (ne_items (ct_comments conv))))))"

definition list_comments :: "store \<Rightarrow> review_id \<Rightarrow> comment_query \<Rightarrow> (store_error, comment_listing option) result" where
  "list_comments s review query =
     (case snapshot_in_transaction s review of
        None \<Rightarrow> Inr None
      | Some snapshot \<Rightarrow>
          let seq = sn_seq snapshot;
              comments = comments_by_id (sn_comments snapshot);
              changed = map_option (\<lambda>since. changed_threads s review since seq comments) (cq_since query)
          in bindR (foldR (list_step comments query seq changed) (sn_threads snapshot) ([], summary_default, {}))
               (\<lambda>(threads, summary, selected).
                  Inr (Some \<lparr>cl_threads = threads, cl_summary = summary,
                    cl_suggestions = filter (\<lambda>sg. sg_comment_id sg \<in> selected) (sn_suggestions snapshot),
                    cl_requests = sn_requests snapshot, cl_checkpoints = sn_checkpoints snapshot,
                    cl_latest_checkpoints = latest_checkpoints (sn_checkpoints snapshot) (sn_resolved snapshot),
                    cl_seq = seq\<rparr>)))"

section \<open>The declarative selection\<close>

definition conversation :: "store \<Rightarrow> review_id \<Rightarrow> thread \<Rightarrow> comment_thread" where
  "conversation s review th =
     \<lparr>ct_id = th_id th, ct_review_id = th_review_id th, ct_root = th_root th, ct_replies = th_replies th,
      ct_resolution = th_resolution th,
      ct_status = thread_status th (the (store_comment s review (th_root th))),
      ct_comments = NonEmpty (map (\<lambda>i. the (store_comment s review i)) (th_root th # th_replies th))\<rparr>"

definition active_since :: "store \<Rightarrow> review_id \<Rightarrow> thread_id \<Rightarrow> seq \<Rightarrow> bool" where
  "active_since s review th since \<longleftrightarrow>
     list_ex (\<lambda>e. body_review_id (ev_body e) = Some review
        \<and> changed_thread (comments_by_id (store_comments s review)) (ev_body e) = Some th)
       (events_after (Some since) s)"

definition content_selected :: "store \<Rightarrow> review_id \<Rightarrow> comment_query \<Rightarrow> thread \<Rightarrow> bool" where
  "content_selected s review query th \<longleftrightarrow>
     (let conv = conversation s review th; cs = ne_items (ct_comments conv) in
      is_none_or (\<lambda>st. st = ct_status conv) (cq_status query)
      \<and> list_ex (\<lambda>c. matches_anchor (cm_anchor c) query) cs
      \<and> is_none_or (\<lambda>name. list_ex (\<lambda>c. authored_by name (cm_author c)) cs) (cq_author query))"

definition selected :: "store \<Rightarrow> review_id \<Rightarrow> comment_query \<Rightarrow> thread \<Rightarrow> bool" where
  "selected s review query th \<longleftrightarrow>
     is_none_or (\<lambda>i. i = th_id th) (cq_thread_id query)
     \<and> is_none_or (active_since s review (th_id th)) (cq_since query)
     \<and> content_selected s review query th"

definition conv_size :: "comment_thread \<Rightarrow> nat" where
  "conv_size th = length (ne_items (ct_comments th))"

definition conv_deleted :: "comment_thread \<Rightarrow> nat" where
  "conv_deleted th = length (filter (\<lambda>c. cm_state c = State_Deleted) (ne_items (ct_comments th)))"

definition with_status :: "comment_thread_status \<Rightarrow> comment_thread list \<Rightarrow> nat" where
  "with_status st ths = length (filter (\<lambda>th. ct_status th = st) ths)"

fun status_count :: "comment_thread_status \<Rightarrow> comment_summary \<Rightarrow> u32" where
  "status_count Conv_Open sm = cs_open sm"
| "status_count Conv_Resolved sm = cs_resolved sm"
| "status_count Conv_Deferred sm = cs_deferred sm"
| "status_count Conv_Informational sm = cs_informational sm"
| "status_count Conv_Deleted sm = cs_deleted sm"

definition summary_of :: "comment_thread list \<Rightarrow> comment_summary" where
  "summary_of ths =
     \<lparr>cs_threads = of_nat (length ths), cs_open = of_nat (with_status Conv_Open ths),
      cs_resolved = of_nat (with_status Conv_Resolved ths), cs_deferred = of_nat (with_status Conv_Deferred ths),
      cs_informational = of_nat (with_status Conv_Informational ths),
      cs_deleted = of_nat (with_status Conv_Deleted ths),
      cs_comments = of_nat (sum_list (map conv_size ths)),
      cs_deleted_comments = of_nat (sum_list (map conv_deleted ths))\<rparr>"

section \<open>Counting is exact\<close>

lemma increment_of_nat: "Suc n < 2 ^ 32 \<Longrightarrow> increment seq (of_nat n) = Inr (of_nat (Suc n))"
  unfolding increment_def u32_checked_add_of_nat by simp

lemma count_comments:
  assumes "cs_comments sm = of_nat n" "cs_deleted_comments sm = of_nat d" "d \<le> n"
    and "n + length cs < 2 ^ 32"
  shows "foldR (count_comment seq) cs sm = Inr (sm\<lparr>cs_comments := of_nat (n + length cs),
    cs_deleted_comments := of_nat (d + length (filter (\<lambda>c. cm_state c = State_Deleted) cs))\<rparr>)"
  using assms
proof (induction cs arbitrary: sm n d)
  case Nil
  then show ?case by simp
next
  case (Cons c cs)
  let ?d = "if cm_state c = State_Deleted then Suc d else d"
  have "count_comment seq c sm = Inr (sm\<lparr>cs_comments := of_nat (Suc n), cs_deleted_comments := of_nat ?d\<rparr>)"
    using Cons.prems increment_of_nat [of n] increment_of_nat [of d]
    by (simp add: count_comment_def del: of_nat_Suc)
  moreover have "foldR (count_comment seq) cs (sm\<lparr>cs_comments := of_nat (Suc n), cs_deleted_comments := of_nat ?d\<rparr>)
      = Inr (sm\<lparr>cs_comments := of_nat (Suc n + length cs),
          cs_deleted_comments := of_nat (?d + length (filter (\<lambda>c. cm_state c = State_Deleted) cs))\<rparr>)"
    using Cons.prems by (subst Cons.IH [of _ "Suc n" ?d]) (simp_all del: of_nat_Suc)
  ultimately show ?case by simp
qed

lemma with_status_le: "with_status st ths \<le> length ths"
  by (simp add: with_status_def)

lemma increment_status_summary:
  assumes "Suc (length ths) < 2 ^ 32"
  shows "increment_status seq (ct_status th) ((summary_of ths)\<lparr>cs_threads := of_nat (Suc (length ths))\<rparr>)
    = Inr ((summary_of (ths @ [th]))\<lparr>cs_comments := cs_comments (summary_of ths),
             cs_deleted_comments := cs_deleted_comments (summary_of ths)\<rparr>)"
proof -
  have "increment seq (of_nat (with_status st ths)) = Inr (of_nat (Suc (with_status st ths)))" for st
    using assms with_status_le [of st ths] by (intro increment_of_nat) simp
  then show ?thesis
    by (cases "ct_status th") (simp_all add: summary_of_def with_status_def)
qed

lemma conv_deleted_le: "sum_list (map conv_deleted ths) \<le> sum_list (map conv_size ths)"
  by (intro sum_list_mono) (simp add: conv_deleted_def conv_size_def)

lemma count_thread_summary:
  assumes "Suc (length ths) < 2 ^ 32" "sum_list (map conv_size (ths @ [th])) < 2 ^ 32"
  shows "count_thread th seq (summary_of ths) = Inr (summary_of (ths @ [th]))"
proof -
  let ?sm = "(summary_of (ths @ [th]))\<lparr>cs_comments := cs_comments (summary_of ths),
             cs_deleted_comments := cs_deleted_comments (summary_of ths)\<rparr>"
  have "increment seq (cs_threads (summary_of ths)) = Inr (of_nat (Suc (length ths)))"
    using increment_of_nat [OF assms(1)] by (simp add: summary_of_def)
  moreover have "foldR (count_comment seq) (ne_items (ct_comments th)) ?sm = Inr (summary_of (ths @ [th]))"
    using assms(2) conv_deleted_le [of ths]
    by (subst count_comments [of _ "sum_list (map conv_size ths)" "sum_list (map conv_deleted ths)"])
      (simp_all add: summary_of_def conv_size_def conv_deleted_def)
  ultimately show ?thesis
    by (simp add: count_thread_def increment_status_summary [OF assms(1)] del: of_nat_Suc)
qed

section \<open>Joining\<close>

lemma comments_by_id_iff:
  assumes "distinct (map (\<lambda>c. comment_key (cm_id c)) cs)"
  shows "tbl_get (comments_by_id cs) k = Some c \<longleftrightarrow> c \<in> set cs \<and> comment_key (cm_id c) = k"
  unfolding comments_by_id_def fold_insert_iff [OF assms] by blast

lemma rows_of_distinct:
  assumes "\<And>k v. tbl_get t (review_key r, k) = Some v \<Longrightarrow> key v = k"
  shows "distinct (map key (rows_of r t))"
proof -
  let ?es = "tbl_range (\<lambda>k. fst k = review_key r) t"
  have "key (snd e) = snd (fst e) \<and> fst (fst e) = review_key r" if "e \<in> set ?es" for e
  proof -
    obtain a b c where e: "e = ((a, b), c)" by (metis prod.exhaust)
    have "a = review_key r \<and> tbl_get t (a, b) = Some c" using that unfolding e tbl_range_iff by auto
    then show ?thesis using assms unfolding e by auto
  qed
  then have "map key (rows_of r t) = map snd (map fst ?es)"
    and "map fst ?es = map (\<lambda>k. (review_key r, k)) (map snd (map fst ?es))"
    by (auto simp: rows_of_def prod_eq_iff)
  moreover have "distinct (map fst ?es)"
    using tbl.entries_distinct [of t] by (simp add: tbl_range_def distinct_map_filter)
  ultimately show ?thesis by (metis distinct_map)
qed

lemma row_comment_keys:
  "keys_ok t \<Longrightarrow> distinct (map (\<lambda>c. comment_key (cm_id c)) (rows_of r (v_comments t)))"
  by (rule rows_of_distinct) (use keys_okD(3) in blast)

lemma row_thread_ids: "keys_ok t \<Longrightarrow> distinct (map th_id (rows_of r (v_threads t)))"
proof -
  assume "keys_ok t"
  then have "distinct (map (\<lambda>th. thread_key (th_id th)) (rows_of r (v_threads t)))"
    by (intro rows_of_distinct) (use keys_okD(5) in blast)
  then show ?thesis by (auto simp: distinct_map inj_on_def)
qed

lemma comments_by_id_rows:
  assumes "keys_ok (st_views s)"
  shows "tbl_get (comments_by_id (store_comments s r)) (comment_key i) = store_comment s r i"
proof -
  have "tbl_get (comments_by_id (store_comments s r)) (comment_key i) = Some c \<longleftrightarrow> store_comment s r i = Some c" for c
    unfolding store_comments_def store_comment_def comments_by_id_iff [OF row_comment_keys [OF assms]] rows_of_iff
    using keys_okD(3) [OF assms] by metis
  then show ?thesis by (metis option.exhaust)
qed

lemma collectR_ok_or:
  "(\<And>i. i \<in> set xs \<Longrightarrow> f i \<noteq> None) \<Longrightarrow> collectR (\<lambda>i. ok_or (e i) (f i)) xs = Inr (map (\<lambda>i. the (f i)) xs)"
proof (induction xs)
  case (Cons a xs)
  then obtain y where "f a = Some y" by (metis list.set_intros(1) not_None_eq)
  then show ?case using Cons by simp
qed simp

lemma join_thread_intact:
  assumes keys: "keys_ok (st_views s)"
    and there: "\<And>i. i \<in> set (th_root th # th_replies th) \<Longrightarrow> store_comment s r i \<noteq> None"
  shows "join_thread th (comments_by_id (store_comments s r)) query seq =
    Inr (if content_selected s r query th then Some (conversation s r th) else None)"
proof -
  obtain root where root: "store_comment s r (th_root th) = Some root"
    using there [of "th_root th"] by auto
  have "collectR (\<lambda>i. ok_or (Corrupt seq (ThreadHasNoComment (th_id th) i))
        (tbl_get (comments_by_id (store_comments s r)) (comment_key i))) (th_root th # th_replies th)
      = Inr (map (\<lambda>i. the (store_comment s r i)) (th_root th # th_replies th))"
    unfolding comments_by_id_rows [OF keys] by (rule collectR_ok_or) (rule there)
  then show ?thesis
    unfolding join_thread_def comments_by_id_rows [OF keys] root conversation_def content_selected_def Let_def
    by (auto simp: ne_new_def not_is_some_and list_ex_iff root simp del: collectR.simps)
qed

section \<open>Activity\<close>

lemma fold_insert_if:
  "fold (\<lambda>x acc. case f x of None \<Rightarrow> acc | Some y \<Rightarrow> insert y acc) xs acc
    = acc \<union> {y. \<exists>x\<in>set xs. f x = Some y}"
  by (induction xs arbitrary: acc) (auto split: option.split)

lemma changed_threads_eq:
  "changed_threads s r since through comments =
     (if since \<ge> through then {} else
        {th. \<exists>e\<in>set (tbl_range (\<lambda>k. since < k \<and> k \<le> through) (st_events s)).
           body_review_id (ev_body (se_event (snd e))) = Some r
           \<and> changed_thread comments (ev_body (se_event (snd e))) = Some th})"
proof -
  let ?f = "\<lambda>e. if body_review_id (ev_body (se_event (snd e))) = Some r
    then changed_thread comments (ev_body (se_event (snd e))) else None"
  have eq: "(\<lambda>(_, stored) changed.
             if body_review_id (ev_body (se_event stored)) \<noteq> Some r then changed
             else case changed_thread comments (ev_body (se_event stored)) of
                    None \<Rightarrow> changed
                  | Some th \<Rightarrow> insert th changed)
      = (\<lambda>e changed. case ?f e of None \<Rightarrow> changed | Some th \<Rightarrow> insert th changed)"
    by (auto intro!: ext)
  have "changed_threads s r since through comments =
      (if since \<ge> through then {} else
        {th. \<exists>e\<in>set (tbl_range (\<lambda>k. since < k \<and> k \<le> through) (st_events s)). ?f e = Some th})"
    unfolding changed_threads_def eq fold_insert_if by simp
  then show ?thesis by (cases "since \<ge> through") (auto split: if_splits)
qed

lemma keys_le_view_seq:
  assumes inv: "log_inv s" and key: "k \<in> fst ` set (tbl_entries (st_events s))"
  shows "\<exists>q. st_view_seq s = Some q \<and> k \<le> q"
proof -
  let ?es = "tbl_entries (st_events s)"
  have "st_view_seq s = Some (fst (last ?es))"
    using inv key by (cases "?es = []") (simp_all add: log_inv_def last_seq_def tbl_last_def)
  moreover have "k \<le> fst (last ?es)"
  proof -
    obtain i where i: "i < length ?es" "k = map fst ?es ! i" using key by (auto simp: in_set_conv_nth)
    then have "map fst ?es ! i \<le> map fst ?es ! (length ?es - 1)"
      using tbl.entries_sorted [of "st_events s"]
      by (intro sorted_nth_mono) (auto simp: strict_sorted_iff)
    then show ?thesis using i by (subst last_conv_nth) auto
  qed
  ultimately show ?thesis by blast
qed

lemma changed_threads_active:
  assumes inv: "log_inv s"
  shows "th \<in> changed_threads s r since (case st_view_seq s of None \<Rightarrow> 0 | Some q \<Rightarrow> q)
      (comments_by_id (store_comments s r)) \<longleftrightarrow> active_since s r th since"
proof -
  let ?q = "case st_view_seq s of None \<Rightarrow> 0 | Some q \<Rightarrow> q"
  have le: "k \<le> ?q" if "(k, v) \<in> set (tbl_entries (st_events s))" for k v
    using keys_le_view_seq [OF inv, of k] that by (force simp: image_iff)
  have "tbl_range (\<lambda>k. since < k \<and> k \<le> ?q) (st_events s) = tbl_range (\<lambda>k. since < k) (st_events s)"
    using le by (auto simp: tbl_range_def intro!: filter_cong)
  moreover have "tbl_range (\<lambda>k. since < k) (st_events s) = []" if "?q \<le> since"
    using le that by (auto simp: tbl_range_def filter_empty_conv) (meson leD order_trans)
  ultimately show ?thesis
    by (auto simp: changed_threads_eq active_since_def events_after_def list_ex_iff)
qed

section \<open>The listing is the selection\<close>

lemma conversation_sizes:
  assumes ok: "refs_ok (st_views s)"
  shows "sum_list (map (\<lambda>th. conv_size (conversation s r th)) (store_threads s r)) \<le> length (store_comments s r)"
proof -
  let ?ids = "\<lambda>th. th_root th # th_replies th"
  let ?L = "concat (map ?ids (store_threads s r))"
  have keys: "keys_ok (st_views s)" using ok by (simp add: refs_ok_def)
  note members = comments_of_thread [OF ok, of _ r, folded store_threads_def store_comment_def]
  have same: "th = th'" if "th \<in> set (store_threads s r)" "th' \<in> set (store_threads s r)"
    "c \<in> set (?ids th)" "c \<in> set (?ids th')" for th th' c
  proof -
    have "th_id th = th_id th'" using members(2) [OF that(1,3)] members(2) [OF that(2,4)] by auto
    then show ?thesis
      using row_thread_ids [OF keys, of r] that(1,2) by (auto simp: store_threads_def distinct_map inj_on_def)
  qed
  have "distinct ?L"
  proof (rule distinct_concat)
    have "distinct (store_threads s r)"
      using row_thread_ids [OF keys, of r] by (simp add: store_threads_def distinct_map)
    moreover have "inj_on ?ids (set (store_threads s r))"
      by (rule inj_onI) (metis same list.set_intros(1))
    ultimately show "distinct (map ?ids (store_threads s r))" by (simp only: distinct_map)
  next
    fix ys zs assume "ys \<in> set (map ?ids (store_threads s r))" "zs \<in> set (map ?ids (store_threads s r))" "ys \<noteq> zs"
    then obtain th th' where th: "th \<in> set (store_threads s r)" "th' \<in> set (store_threads s r)"
      "ys = ?ids th" "zs = ?ids th'" "th \<noteq> th'" by auto
    then show "set ys \<inter> set zs = {}" using same [OF th(1,2)] by blast
  qed (use members(1) in auto)
  moreover have "set ?L \<subseteq> cm_id ` set (store_comments s r)"
  proof
    fix c assume "c \<in> set ?L"
    then obtain th where th: "th \<in> set (store_threads s r)" "c \<in> set (?ids th)" by auto
    obtain cm where cm: "store_comment s r c = Some cm" using members(2) [OF th] by blast
    then have "comment_key (cm_id cm) = comment_key c"
      using keys_okD(3) [OF keys] by (auto simp: store_comment_def)
    moreover have "cm \<in> set (store_comments s r)"
      using cm by (auto simp: store_comments_def store_comment_def rows_of_iff)
    ultimately show "c \<in> cm_id ` set (store_comments s r)" by force
  qed
  ultimately have "length ?L \<le> card (cm_id ` set (store_comments s r))"
    by (simp only: distinct_card [symmetric]) (intro card_mono, simp_all)
  also have "\<dots> \<le> length (store_comments s r)"
    using card_image_le [of "set (store_comments s r)" cm_id] card_length [of "store_comments s r"] by simp
  finally have "length ?L \<le> length (store_comments s r)" .
  then show ?thesis by (simp add: length_concat conv_size_def conversation_def comp_def)
qed

lemma conv_sizes_filter:
  "sum_list (map (\<lambda>th. conv_size (conversation s r th)) (filter P ths))
    \<le> sum_list (map (\<lambda>th. conv_size (conversation s r th)) ths)"
  by (induction ths) auto

lemma conversation_nonempty: "length ths \<le> sum_list (map (\<lambda>th. conv_size (conversation s r th)) ths)"
  by (induction ths) (auto simp: conv_size_def conversation_def)

lemma listing_loop:
  assumes ok: "refs_ok (st_views s)" and inv: "log_inv s"
    and seq: "seq = (case st_view_seq s of None \<Rightarrow> 0 | Some q \<Rightarrow> q)"
    and sub: "set ths \<subseteq> set (store_threads s r)"
    and bound: "sum_list (map (\<lambda>th. conv_size (conversation s r th)) ths) < 2 ^ 32"
  shows "foldR (list_step (comments_by_id (store_comments s r)) query seq
        (map_option (\<lambda>since. changed_threads s r since seq (comments_by_id (store_comments s r))) (cq_since query)))
      ths ([], summary_default, {})
    = (let convs = map (conversation s r) (filter (selected s r query) ths) in
       Inr (convs, summary_of convs, \<Union>conv\<in>set convs. cm_id ` set (ne_items (ct_comments conv))))"
  using sub bound
proof (induction ths rule: rev_induct)
  case Nil
  show ?case by (simp add: summary_of_def summary_default_def with_status_def)
next
  case (snoc th ths)
  let ?step = "list_step (comments_by_id (store_comments s r)) query seq
        (map_option (\<lambda>since. changed_threads s r since seq (comments_by_id (store_comments s r))) (cq_since query))"
  let ?convs = "map (conversation s r) (filter (selected s r query) ths)"
  let ?ids = "\<lambda>cs. \<Union>conv\<in>set cs. cm_id ` set (ne_items (ct_comments conv))"
  have keys: "keys_ok (st_views s)" using ok by (simp add: refs_ok_def)
  have there: "store_comment s r i \<noteq> None" if "i \<in> set (th_root th # th_replies th)" for i
    using comments_of_thread(2) [OF ok, of th r i] snoc.prems(1) that
    by (auto simp: store_threads_def store_comment_def)
  have "Suc (length ?convs) < 2 ^ 32 \<and> sum_list (map conv_size (?convs @ [conversation s r th])) < 2 ^ 32"
    using snoc.prems(2) conv_sizes_filter [of s r "selected s r query" ths]
      conversation_nonempty [of "filter (selected s r query) ths" s r] conversation_nonempty [of "[th]" s r]
    by (simp add: comp_def)
  then have count: "count_thread (conversation s r th) seq (summary_of ?convs) = Inr (summary_of (?convs @ [conversation s r th]))"
    by (intro count_thread_summary) simp_all
  have changed: "is_some_and (\<lambda>ids. th_id th \<notin> ids)
      (map_option (\<lambda>since. changed_threads s r since seq (comments_by_id (store_comments s r))) (cq_since query))
    \<longleftrightarrow> \<not> is_none_or (active_since s r (th_id th)) (cq_since query)"
    unfolding seq using changed_threads_active [OF inv] by (cases "cq_since query") simp_all
  have join: "join_thread th (comments_by_id (store_comments s r)) query seq =
      Inr (if content_selected s r query th then Some (conversation s r th) else None)"
    by (rule join_thread_intact [OF keys]) (rule there)
  have sel: "selected s r query th \<longleftrightarrow> \<not> is_some_and (\<lambda>i. i \<noteq> th_id th) (cq_thread_id query)
      \<and> is_none_or (active_since s r (th_id th)) (cq_since query) \<and> content_selected s r query th"
    by (simp add: selected_def not_is_some_and)
  have "?step th (?convs, summary_of ?convs, ?ids ?convs) =
      (let cs = map (conversation s r) (filter (selected s r query) (ths @ [th])) in Inr (cs, summary_of cs, ?ids cs))"
    unfolding list_step_def changed using count join by (auto simp: sel Un_commute Let_def)
  then show ?case using snoc by (simp add: foldR_snoc Let_def)
qed

lemma summary_of_unat:
  assumes "length convs < 2 ^ 32" "sum_list (map conv_size convs) < 2 ^ 32"
  shows "unat (cs_threads (summary_of convs)) = length convs"
    and "unat (status_count st (summary_of convs)) = with_status st convs"
    and "unat (cs_comments (summary_of convs)) = sum_list (map conv_size convs)"
    and "unat (cs_deleted_comments (summary_of convs)) = sum_list (map conv_deleted convs)"
proof -
  have nat: "unat (of_nat n :: u32) = n" if "n < 2 ^ 32" for n
    using that by (simp add: unat_of_nat take_bit_nat_eq_self)
  show "unat (cs_threads (summary_of convs)) = length convs"
    "unat (cs_comments (summary_of convs)) = sum_list (map conv_size convs)"
    using assms nat by (simp_all add: summary_of_def)
  have "with_status st convs < 2 ^ 32" using with_status_le [of st convs] assms(1) by linarith
  then show "unat (status_count st (summary_of convs)) = with_status st convs"
    by (cases st) (simp_all add: summary_of_def nat)
  have "sum_list (map conv_deleted convs) < 2 ^ 32" using conv_deleted_le [of convs] assms(2) by linarith
  then show "unat (cs_deleted_comments (summary_of convs)) = sum_list (map conv_deleted convs)"
    by (simp add: summary_of_def nat)
qed

text \<open>
  C31: On every store the service can reach, listing the comments of a live review returns the
  conversations the query selects, whole and in thread order: the thread has the wanted id and
  status, one of its comments is on the wanted path and repository, one is by the wanted author,
  and some event after the given number is about it. With fewer than \<open>2^32\<close> comments in the review
  no count overflows: the summary counts exactly what is listed, by status and comment by
  comment; the suggestions are those of listed comments. A review that is missing or deleted has
  no listing.
\<close>

theorem list_comments_exact:
  assumes "reachable_by validated s" "store_len s < 2 ^ 64 - 1" "length (store_comments s r) < 2 ^ 32"
  shows "case snapshot_in_transaction s r of
      None \<Rightarrow> list_comments s r query = Inr None
    | Some snapshot \<Rightarrow> (\<exists>listing convs.
        list_comments s r query = Inr (Some listing)
      \<and> convs = map (conversation s r) (filter (selected s r query) (store_threads s r))
      \<and> cl_threads listing = convs
      \<and> unat (cs_threads (cl_summary listing)) = length convs
      \<and> (\<forall>st. unat (status_count st (cl_summary listing)) = with_status st convs)
      \<and> unat (cs_comments (cl_summary listing)) = sum_list (map conv_size convs)
      \<and> unat (cs_deleted_comments (cl_summary listing)) = sum_list (map conv_deleted convs)
      \<and> cl_suggestions listing = filter (\<lambda>sg. \<exists>conv\<in>set convs. sg_comment_id sg \<in> cm_id ` set (ne_items (ct_comments conv)))
          (sn_suggestions snapshot)
      \<and> cl_seq listing = sn_seq snapshot)"
proof (cases "snapshot_in_transaction s r")
  case None
  then show ?thesis by (simp add: list_comments_def)
next
  case (Some sn)
  let ?convs = "map (conversation s r) (filter (selected s r query) (store_threads s r))"
  have ok: "refs_ok (st_views s)" by (rule references.reachable_inv [OF assms(1,2)])
  have inv: "log_inv s" by (rule reachable_log_inv [OF assms(1,2)])
  have sn: "sn_threads sn = store_threads s r" "sn_comments sn = store_comments s r"
    "sn_seq sn = (case st_view_seq s of None \<Rightarrow> 0 | Some q \<Rightarrow> q)"
    using Some by (auto simp: snapshot_in_transaction_def store_threads_def store_comments_def Let_def
        split: option.splits review_lifecycle.splits)
  have total: "sum_list (map (\<lambda>th. conv_size (conversation s r th)) (store_threads s r)) < 2 ^ 32"
    using conversation_sizes [OF ok, of r] assms(3) by simp
  have bounds: "sum_list (map conv_size ?convs) < 2 ^ 32" "length ?convs < 2 ^ 32"
    using total conv_sizes_filter [of s r "selected s r query" "store_threads s r"]
      conversation_nonempty [of "filter (selected s r query) (store_threads s r)" s r]
    by (simp_all add: comp_def)
  note loop = listing_loop [OF ok inv sn(3) subset_refl total, of query]
  have run: "\<exists>listing. list_comments s r query = Inr (Some listing) \<and> cl_threads listing = ?convs
      \<and> cl_summary listing = summary_of ?convs
      \<and> cl_suggestions listing = filter (\<lambda>sg. \<exists>conv\<in>set ?convs. sg_comment_id sg \<in> cm_id ` set (ne_items (ct_comments conv)))
          (sn_suggestions sn) \<and> cl_seq listing = sn_seq sn"
    unfolding list_comments_def Some Let_def option.case sn(1,2) loop by simp
  have counts: "unat (cs_threads (summary_of ?convs)) = length ?convs"
    "unat (status_count st (summary_of ?convs)) = with_status st ?convs"
    "unat (cs_comments (summary_of ?convs)) = sum_list (map conv_size ?convs)"
    "unat (cs_deleted_comments (summary_of ?convs)) = sum_list (map conv_deleted ?convs)" for st
    using bounds summary_of_unat [of ?convs] by blast+
  obtain listing where listing: "list_comments s r query = Inr (Some listing)" "cl_threads listing = ?convs"
    "cl_summary listing = summary_of ?convs"
    "cl_suggestions listing = filter (\<lambda>sg. \<exists>conv\<in>set ?convs. sg_comment_id sg \<in> cm_id ` set (ne_items (ct_comments conv)))
          (sn_suggestions sn)" "cl_seq listing = sn_seq sn"
    using run by blast
  show ?thesis unfolding Some option.case
    by (rule exI [of _ listing], rule exI [of _ ?convs]) (simp only: listing counts simp_thms)
qed

theorem list_comments_exact_witness:
  "\<exists>s listing. append_all validated sample_log fresh_store = Some s
     \<and> list_comments s (ReviewId (Ulid 2 2)) (query_default\<lparr>cq_author := Some ''ada'', cq_since := Some 3\<rparr>) = Inr (Some listing)
     \<and> map ct_id (cl_threads listing) = [ThreadId (Ulid 4 4)]
     \<and> unat (cs_comments (cl_summary listing)) = 2
     \<and> list_comments s (ReviewId (Ulid 2 2)) (query_default\<lparr>cq_author := Some ''bob''\<rparr>) \<noteq> Inr None"
proof -
  let ?r = "ReviewId (Ulid 2 2)"
  let ?q = "query_default\<lparr>cq_author := Some ''ada'', cq_since := Some 3\<rparr>"
  have "map_option (\<lambda>s. (store_len s, length (store_comments s ?r), snapshot_in_transaction s ?r \<noteq> None,
        map (\<lambda>th. (ct_id th, conv_size th)) (map (conversation s ?r) (filter (selected s ?r ?q) (store_threads s ?r)))))
      (append_all validated sample_log fresh_store) = Some (4, 2, True, [(ThreadId (Ulid 4 4), 2)])" by code_simp
  then obtain s where s: "append_all validated sample_log fresh_store = Some s" "store_len s = 4"
    "length (store_comments s ?r) = 2" "snapshot_in_transaction s ?r \<noteq> None"
    "map (\<lambda>th. (ct_id th, conv_size th)) (map (conversation s ?r) (filter (selected s ?r ?q) (store_threads s ?r)))
      = [(ThreadId (Ulid 4 4), 2)]"
    by auto
  have r: "reachable_by validated s" by (rule append_all_reachable [OF s(1) reachable_fresh_store])
  obtain snapshot where snapshot: "snapshot_in_transaction s ?r = Some snapshot" using s(4) by blast
  have "map ct_id convs = [ThreadId (Ulid 4 4)] \<and> sum_list (map conv_size convs) = 2"
    if "convs = map (conversation s ?r) (filter (selected s ?r ?q) (store_threads s ?r))" for convs
    using s(5) unfolding that [symmetric] by auto
  then show ?thesis
    using list_comments_exact [OF r, of ?r ?q] list_comments_exact [OF r, of ?r "query_default\<lparr>cq_author := Some ''bob''\<rparr>"]
      s(1-3) unfolding snapshot by fastforce
qed

end
