(* ===== verification/Nits_Discovery.thy ===== *)
theory Nits_Discovery
  imports Nits_Comment_Query
begin

text \<open>
  Review discovery, \<open>crates/nits-review-core/src/store/discovery.rs\<close> and
  \<open>crates/nits-protocol/src/discovery.rs\<close>: the reviews of one or all workspaces with their open
  findings, pending requests and latest activity, newest first. \<open>str::to_lowercase\<close> is the
  parameter \<open>lower\<close> (the Unicode tables are not modelled). \<open>discover_reviews_exact\<close> says that a
  discovery of a store of the service always succeeds and is the declarative selection.
\<close>

section \<open>Queries and summaries\<close>

datatype review_scope =
    ReviewScope_All
  | ReviewScope_Workspace workspace_id

record review_query =
  rqy_scope :: review_scope
  rqy_title :: "string option"
  rqy_awaiting :: "string option"

record review_activity =
  ra_seq :: seq
  ra_at :: timestamp

record pending_review_request =
  pr_id :: review_request_id
  pr_recipient :: string
  pr_created :: timestamp

record review_summary =
  su_id :: review_id
  su_workspace_id :: workspace_id
  su_title :: string
  su_targets :: "review_target nonempty"
  su_created :: timestamp
  su_status :: review_status
  su_workspace_name :: string
  su_repositories :: "repo list"
  su_open_findings :: u32
  su_pending_requests :: "pending_review_request list"
  su_last_activity :: review_activity

record review_discovery =
  di_reviews :: "review_summary list"
  di_seq :: seq

section \<open>Selecting reviews\<close>

fun in_scope :: "review_scope \<Rightarrow> review \<Rightarrow> bool" where
  "in_scope ReviewScope_All review \<longleftrightarrow> True"
| "in_scope (ReviewScope_Workspace w) review \<longleftrightarrow> rv_workspace_id review = w"

definition review_matches :: "(string \<Rightarrow> string) \<Rightarrow> review_query \<Rightarrow> review_record \<Rightarrow> bool" where
  "review_matches lower query rec \<longleftrightarrow>
     is_live rec \<and> in_scope (rqy_scope query) (rec_review rec)
     \<and> is_none_or (\<lambda>needle. contains_str needle (lower (rv_title (rec_review rec))))
         (map_option lower (rqy_title query))"

definition select_reviews :: "(string \<Rightarrow> string) \<Rightarrow> review_query \<Rightarrow> store \<Rightarrow> (ulid, review) table" where
  "select_reviews lower query s =
     fold (\<lambda>rec sel.
         if review_matches lower query rec
         then tbl_insert (review_key (rv_id (rec_review rec))) (rec_review rec) sel else sel)
       (tbl_values (v_reviews (st_views s))) tbl_empty"

text \<open>The newest event of each selected review, scanning the log backwards until all are found.\<close>

fun activity_scan :: "(ulid, review) table \<Rightarrow> stored_event list \<Rightarrow> (ulid, review_activity) table
    \<Rightarrow> (ulid, review_activity) table" where
  "activity_scan sel [] act = act"
| "activity_scan sel (stored # rest) act =
     (case body_review_id (ev_body (se_event stored)) of
        None \<Rightarrow> activity_scan sel rest act
      | Some r \<Rightarrow>
          if tbl_get sel (review_key r) = None then activity_scan sel rest act
          else
            let act' = (if tbl_get act (review_key r) = None
                        then tbl_insert (review_key r)
                               \<lparr>ra_seq = ev_seq (se_event stored), ra_at = ev_ts (se_event stored)\<rparr> act
                        else act)
            in if length (tbl_entries act') = length (tbl_entries sel) then act'
               else activity_scan sel rest act')"

definition latest_activity :: "store \<Rightarrow> (ulid, review) table \<Rightarrow> (ulid, review_activity) table" where
  "latest_activity s sel =
     (if tbl_entries sel = [] then tbl_empty
      else activity_scan sel (rev (map snd (tbl_entries (st_events s)))) tbl_empty)"

section \<open>The discussion of a review\<close>

definition open_finding :: "store \<Rightarrow> review_id \<Rightarrow> thread \<Rightarrow> bool" where
  "open_finding s r th \<longleftrightarrow>
     th_resolution th = Resolution_Open
     \<and> (case tbl_get (v_comments (st_views s)) (review_key r, comment_key (th_root th)) of
          None \<Rightarrow> False
        | Some root \<Rightarrow> cm_state root \<noteq> State_Deleted)"

definition answered_by :: "review_checkpoint \<Rightarrow> (review_request_id \<times> string) option" where
  "answered_by cp =
     (case (cp_reviewer cp, cp_in_reply_to cp) of
        (Reviewer_Agent name, Some (Round_Request request)) \<Rightarrow> Some (request, name)
      | _ \<Rightarrow> None)"

definition pending_of :: "review_request \<Rightarrow> pending_review_request" where
  "pending_of rq = \<lparr>pr_id = rq_id rq, pr_recipient = rq_recipient rq, pr_created = rq_created rq\<rparr>"

definition discussion_summary :: "store \<Rightarrow> review_id \<Rightarrow> seq
    \<Rightarrow> (store_error, u32 \<times> pending_review_request list) result" where
  "discussion_summary s r seq =
     bindR (foldR (\<lambda>th open_findings.
              if open_finding s r th
              then ok_or (Corrupt seq (TooManyOpenFindings r)) (u32_checked_add open_findings 1)
              else Inr open_findings)
              (rows_of r (v_threads (st_views s))) 0) (\<lambda>open_findings.
       let answered = fold (\<lambda>cp acc. case answered_by cp of None \<Rightarrow> acc | Some a \<Rightarrow> insert a acc)
             (rows_of r (v_checkpoints (st_views s))) {};
           pending = map pending_of
             (filter (\<lambda>rq. (rq_id rq, rq_recipient rq) \<notin> answered) (rows_of r (v_requests (st_views s))))
       in Inr (open_findings, pending))"

section \<open>Discovery\<close>

definition workspaces_by_id :: "store \<Rightarrow> (ulid, workspace) table" where
  "workspaces_by_id s =
     fold (\<lambda>ws. tbl_insert (workspace_key (ws_id ws)) ws) (tbl_values (v_workspaces (st_views s))) tbl_empty"

definition awaits :: "review_query \<Rightarrow> pending_review_request list \<Rightarrow> bool" where
  "awaits query pending \<longleftrightarrow>
     is_none_or (\<lambda>name. list_ex (\<lambda>rq. pr_recipient rq = name) pending) (rqy_awaiting query)"

definition discover_step :: "store \<Rightarrow> review_query \<Rightarrow> seq \<Rightarrow> (ulid, workspace) table \<Rightarrow> ulid \<times> review
    \<Rightarrow> (ulid, review_activity) table \<times> review_summary list
    \<Rightarrow> (store_error, (ulid, review_activity) table \<times> review_summary list) result" where
  "discover_step s query seq workspaces entry st =
     (case (entry, st) of ((k, review), (activity, reviews)) \<Rightarrow>
        let r = ReviewId k in
        bindR (discussion_summary s r seq) (\<lambda>(open_findings, pending).
          if \<not> awaits query pending then Inr st
          else
            bindR (ok_or (Corrupt seq (ReviewHasNoWorkspace r (rv_workspace_id review)))
                     (tbl_get workspaces (workspace_key (rv_workspace_id review)))) (\<lambda>ws.
            bindR (ok_or (Corrupt seq (NoCommittedActivity r)) (tbl_get activity k)) (\<lambda>last_activity.
              Inr (tbl_remove k activity,
                reviews @ [\<lparr>su_id = r, su_workspace_id = rv_workspace_id review, su_title = rv_title review,
                  su_targets = rv_targets review, su_created = rv_created review, su_status = rv_status review,
                  su_workspace_name = ws_name ws,
                  su_repositories = filter (\<lambda>repo. list_ex (\<lambda>t. rt_repo_id t = rp_id repo)
                    (ne_items (rv_targets review))) (ws_repos ws),
                  su_open_findings = open_findings, su_pending_requests = pending,
                  su_last_activity = last_activity\<rparr>])))))"

fun insert_by :: "('a \<Rightarrow> 'a \<Rightarrow> bool) \<Rightarrow> 'a \<Rightarrow> 'a list \<Rightarrow> 'a list" where
  "insert_by le x [] = [x]"
| "insert_by le x (y # ys) = (if le x y then x # y # ys else y # insert_by le x ys)"

definition newest_first :: "review_summary \<Rightarrow> review_summary \<Rightarrow> bool" where
  "newest_first a b \<longleftrightarrow>
     (ra_seq (su_last_activity b) < ra_seq (su_last_activity a)
      \<or> ra_seq (su_last_activity a) = ra_seq (su_last_activity b) \<and> review_key (su_id a) \<le> review_key (su_id b))"

definition discover_reviews :: "(string \<Rightarrow> string) \<Rightarrow> review_query \<Rightarrow> store
    \<Rightarrow> (store_error, review_discovery option) result" where
  "discover_reviews lower query s =
     (let workspaces = workspaces_by_id s in
      if (case rqy_scope query of ReviewScope_All \<Rightarrow> False
          | ReviewScope_Workspace w \<Rightarrow> tbl_get workspaces (workspace_key w) = None)
      then Inr None
      else
        let sel = select_reviews lower query s;
            seq = (case st_view_seq s of None \<Rightarrow> 0 | Some q \<Rightarrow> q)
        in bindR (foldR (discover_step s query seq workspaces) (tbl_entries sel) (latest_activity s sel, []))
             (\<lambda>(_, reviews). Inr (Some \<lparr>di_reviews = foldr (insert_by newest_first) reviews [], di_seq = seq\<rparr>)))"

section \<open>The declarative selection\<close>

definition last_activity_of :: "store \<Rightarrow> review_id \<Rightarrow> review_activity option" where
  "last_activity_of s r =
     map_option (\<lambda>e. \<lparr>ra_seq = ev_seq e, ra_at = ev_ts e\<rparr>)
       (find (\<lambda>e. body_review_id (ev_body e) = Some r) (rev (events_after None s)))"

definition pending_requests :: "store \<Rightarrow> review_id \<Rightarrow> pending_review_request list" where
  "pending_requests s r =
     map pending_of (filter (\<lambda>rq. \<not> list_ex (\<lambda>cp. cp_reviewer cp = Reviewer_Agent (rq_recipient rq)
          \<and> cp_in_reply_to cp = Some (Round_Request (rq_id rq))) (rows_of r (v_checkpoints (st_views s))))
       (rows_of r (v_requests (st_views s))))"

definition open_findings :: "store \<Rightarrow> review_id \<Rightarrow> nat" where
  "open_findings s r = length (filter (open_finding s r) (store_threads s r))"

definition summary_for :: "store \<Rightarrow> review \<Rightarrow> review_summary" where
  "summary_for s review =
     (let ws = the (store_workspace s (rv_workspace_id review)) in
      \<lparr>su_id = rv_id review, su_workspace_id = rv_workspace_id review, su_title = rv_title review,
       su_targets = rv_targets review, su_created = rv_created review, su_status = rv_status review,
       su_workspace_name = ws_name ws,
       su_repositories = filter (\<lambda>repo. list_ex (\<lambda>t. rt_repo_id t = rp_id repo)
         (ne_items (rv_targets review))) (ws_repos ws),
       su_open_findings = of_nat (open_findings s (rv_id review)),
       su_pending_requests = pending_requests s (rv_id review),
       su_last_activity = the (last_activity_of s (rv_id review))\<rparr>)"

definition wanted :: "(string \<Rightarrow> string) \<Rightarrow> store \<Rightarrow> review_query \<Rightarrow> review_record \<Rightarrow> bool" where
  "wanted lower s query rec \<longleftrightarrow>
     review_matches lower query rec \<and> awaits query (pending_requests s (rv_id (rec_review rec)))"

section \<open>Every review has committed activity\<close>

lemma save_review_rows: "v_reviews (save_review rec t) = tbl_insert (review_key (rv_id (rec_review rec))) rec (v_reviews t)"
  by (simp add: save_review_def)

lemma apply_review_rows:
  assumes "apply_event e t = Inr t'" "keys_ok t" "tbl_get (v_reviews t') k \<noteq> None"
  shows "tbl_get (v_reviews t) k \<noteq> None \<or> body_review_id (ev_body e) = Some (ReviewId k)"
proof -
  have key: "rv_id (rec_review rec) = r" if "tbl_get (v_reviews t) (review_key r) = Some rec" for r rec
    using keys_okD(2) [OF assms(2) that] by (cases r) (metis review_id.collapse review_id.sel)
  show ?thesis
    using assms(1,3) unfolding apply_event_def
    by (cases "ev_body e")
      (auto simp: result_simps save_review_rows load_review_def target_updated_def comment_created_def
        set_resolution_def put_workspace_def save_comment_def save_thread_def put_thread_def key
        split: if_splits option.splits)
qed

lemma review_has_event:
  assumes "foldR apply_event es views_empty = Inr t" "tbl_get (v_reviews t) k \<noteq> None"
  shows "\<exists>e\<in>set es. body_review_id (ev_body e) = Some (ReviewId k)"
  using assms
proof (induction es arbitrary: t rule: rev_induct)
  case Nil
  then show ?case by (auto simp: views_empty_def)
next
  case (snoc e es)
  then obtain t0 where t0: "foldR apply_event es views_empty = Inr t0" "apply_event e t0 = Inr t"
    by (auto simp: foldR_snoc result_simps)
  have "keys_ok t0"
    by (rule foldR_invariant [OF t0(1)]) (simp add: keys_ok_def views_empty_def, rule keys_ok_apply)
  then show ?case using apply_review_rows [OF t0(2) _ snoc.prems(2)] snoc.IH [OF t0(1)] by auto
qed

lemma activity_exists:
  assumes "log_inv s" "tbl_get (v_reviews (st_views s)) k \<noteq> None"
  shows "last_activity_of s (ReviewId k) \<noteq> None"
proof -
  have "\<exists>e\<in>set (log_events s). body_review_id (ev_body e) = Some (ReviewId k)"
    using assms by (intro review_has_event) (auto simp: log_inv_def)
  then show ?thesis
    by (auto simp: last_activity_of_def events_after_None find_None_iff)
qed

section \<open>The parts of a discovery\<close>

lemma workspaces_by_id_get:
  assumes "keys_ok (st_views s)"
  shows "tbl_get (workspaces_by_id s) (workspace_key w) = store_workspace s w"
proof -
  have d: "distinct (map (\<lambda>ws. workspace_key (ws_id ws)) (tbl_values (v_workspaces (st_views s))))"
    using assms by (intro values_distinct) (simp add: keys_ok_def tbl_all_iff)
  have "tbl_get (workspaces_by_id s) (workspace_key w) = Some ws \<longleftrightarrow> store_workspace s w = Some ws" for ws
    unfolding workspaces_by_id_def fold_insert_iff [OF d] store_workspace_def tbl_values_iff [symmetric]
    using keys_okD(1) [OF assms] by (metis tbl_values_iff)
  then show ?thesis by (metis option.exhaust)
qed

lemma select_reviews_get:
  assumes "keys_ok (st_views s)"
  shows "tbl_get (select_reviews lower query s) k = Some review \<longleftrightarrow>
    (\<exists>rec. tbl_get (v_reviews (st_views s)) k = Some rec \<and> review_matches lower query rec \<and> rec_review rec = review)"
proof -
  let ?recs = "filter (review_matches lower query) (tbl_values (v_reviews (st_views s)))"
  have "distinct (map (\<lambda>rec. review_key (rv_id (rec_review rec))) (tbl_values (v_reviews (st_views s))))"
    using assms by (intro values_distinct) (simp add: keys_ok_def tbl_all_iff)
  then have d: "distinct (map (\<lambda>rec. review_key (rv_id (rec_review rec))) ?recs)" by (rule distinct_map_filter)
  have "select_reviews lower query s =
      fold (\<lambda>rec. tbl_insert (review_key (rv_id (rec_review rec))) (rec_review rec)) ?recs tbl_empty"
    unfolding select_reviews_def fold_filter by (rule arg_cong [of _ _ "\<lambda>f. fold f _ _"]) (auto intro!: ext)
  then show ?thesis
    using keys_okD(2) [OF assms] by (auto simp: fold_insert_iff [OF d] tbl_values_iff)
qed

lemma activity_scan_get:
  assumes "dom (tbl_get act) \<subseteq> dom (tbl_get sel)" "tbl_get sel k \<noteq> None"
  shows "tbl_get (activity_scan sel es act) k =
    (case tbl_get act k of
       Some a \<Rightarrow> Some a
     | None \<Rightarrow> map_option (\<lambda>st. \<lparr>ra_seq = ev_seq (se_event st), ra_at = ev_ts (se_event st)\<rparr>)
         (find (\<lambda>st. body_review_id (ev_body (se_event st)) = Some (ReviewId k)) es))"
  using assms
proof (induction es arbitrary: act)
  case Nil
  show ?case by (simp split: option.split)
next
  case (Cons st es)
  have full: "tbl_get act' k \<noteq> None"
    if "dom (tbl_get act') \<subseteq> dom (tbl_get sel)" "length (tbl_entries act') = length (tbl_entries sel)" for act'
    using card_subset_eq [OF finite_dom_tbl that(1)] that(2) Cons.prems(2) by (auto simp: entries_card)
  show ?case
  proof (cases "body_review_id (ev_body (se_event st))")
    case None
    then show ?thesis using Cons by (auto split: option.split)
  next
    case (Some r)
    let ?act = "if tbl_get act (review_key r) = None
      then tbl_insert (review_key r) \<lparr>ra_seq = ev_seq (se_event st), ra_at = ev_ts (se_event st)\<rparr> act else act"
    show ?thesis
    proof (cases "tbl_get sel (review_key r)")
      case None
      then have "r \<noteq> ReviewId k" using Cons.prems(2) by auto
      then show ?thesis using Cons None Some by (auto split: option.split)
    next
      case (Some rv)
      have sub: "dom (tbl_get ?act) \<subseteq> dom (tbl_get sel)" using Cons.prems(1) Some by auto
      have "tbl_get (activity_scan sel (st # es) act) k = tbl_get (activity_scan sel es ?act) k"
        using full [OF sub] Cons.IH [OF sub Cons.prems(2)] Some \<open>body_review_id _ = Some r\<close>
        by (auto simp: Let_def split: option.splits)
      then show ?thesis
        using Cons.IH [OF sub Cons.prems(2)] \<open>body_review_id _ = Some r\<close>
        by (cases r) (auto split: option.splits)
    qed
  qed
qed

lemma find_map_list: "find P (map f xs) = map_option f (find (\<lambda>x. P (f x)) xs)"
  by (induction xs) auto

lemma latest_activity_get:
  assumes "tbl_get sel k \<noteq> None"
  shows "tbl_get (latest_activity s sel) k = last_activity_of s (ReviewId k)"
proof -
  have "tbl_entries sel \<noteq> []" using assms by (auto simp: tbl.get_entries)
  then show ?thesis
    using activity_scan_get [of tbl_empty sel k] assms
    by (simp add: latest_activity_def last_activity_of_def events_after_None log_events_def rev_map find_map_list
        option.map_comp comp_def)
qed

lemma answered_by_iff:
  "answered_by cp = Some (i, name) \<longleftrightarrow> cp_reviewer cp = Reviewer_Agent name \<and> cp_in_reply_to cp = Some (Round_Request i)"
  by (auto simp: answered_by_def split: reviewer_identity.split option.split review_round.split)

lemma count_findings:
  assumes "n + length ths < 2 ^ 32"
  shows "foldR (\<lambda>th m. if P th then ok_or e (u32_checked_add m 1) else Inr m) ths (of_nat n)
    = Inr (of_nat (n + length (filter P ths)))"
  using assms
proof (induction ths arbitrary: n)
  case (Cons th ths)
  show ?case
  proof (cases "P th")
    case True
    then show ?thesis using Cons.prems u32_checked_add_of_nat [of n] Cons.IH [of "Suc n"] by (simp del: of_nat_Suc)
  next
    case False
    then show ?thesis using Cons.prems Cons.IH [of n] by simp
  qed
qed simp

lemma discussion_summary_eq:
  assumes "length (store_threads s r) < 2 ^ 32"
  shows "discussion_summary s r seq = Inr (of_nat (open_findings s r), pending_requests s r)"
proof -
  have "filter (\<lambda>rq. (rq_id rq, rq_recipient rq) \<notin> {} \<union> {y. \<exists>x\<in>set cps. answered_by x = Some y}) rqs
    = filter (\<lambda>rq. \<not> list_ex (\<lambda>cp. cp_reviewer cp = Reviewer_Agent (rq_recipient rq)
          \<and> cp_in_reply_to cp = Some (Round_Request (rq_id rq))) cps) rqs"
    for rqs :: "review_request list" and cps :: "review_checkpoint list"
    by (rule filter_cong) (auto simp: answered_by_iff list_ex_iff)
  then show ?thesis
    unfolding discussion_summary_def fold_insert_if pending_requests_def open_findings_def Let_def
    using count_findings [of 0 "store_threads s r" "open_finding s r" "Corrupt seq (TooManyOpenFindings r)"] assms
    by (simp add: store_threads_def)
qed

lemma rows_of_length: "length (rows_of r t) \<le> length (tbl_entries t)"
  by (simp add: rows_of_def tbl_range_def)

lemma discover_loop:
  assumes "distinct (map fst es)"
    and "\<And>k review. (k, review) \<in> set es \<Longrightarrow>
      rv_id review = ReviewId k \<and> length (store_threads s (ReviewId k)) < 2 ^ 32
      \<and> tbl_get workspaces (workspace_key (rv_workspace_id review)) = store_workspace s (rv_workspace_id review)
      \<and> store_workspace s (rv_workspace_id review) \<noteq> None
      \<and> tbl_get act k = last_activity_of s (ReviewId k) \<and> last_activity_of s (ReviewId k) \<noteq> None"
  shows "\<exists>act'. foldR (discover_step s query seq workspaces) es (act, acc) =
    Inr (act', acc @ map (summary_for s) (filter (\<lambda>rv. awaits query (pending_requests s (rv_id rv))) (map snd es)))"
  using assms
proof (induction es arbitrary: act acc)
  case Nil
  show ?case by simp
next
  case (Cons e es)
  obtain k review where e: "e = (k, review)" by (cases e)
  note facts = Cons.prems(2) [of k review, unfolded e, simplified]
  let ?skip = "\<not> awaits query (pending_requests s (ReviewId k))"
  let ?act = "if ?skip then act else tbl_remove k act"
  let ?acc = "if ?skip then acc else acc @ [summary_for s review]"
  have "discover_step s query seq workspaces e (act, acc) = Inr (?act, ?acc)"
    using facts by (auto simp: e discover_step_def discussion_summary_eq summary_for_def Let_def)
  moreover have "\<exists>act'. foldR (discover_step s query seq workspaces) es (?act, ?acc) =
      Inr (act', ?acc @ map (summary_for s) (filter (\<lambda>rv. awaits query (pending_requests s (rv_id rv))) (map snd es)))"
    by (rule Cons.IH) (use Cons.prems e in \<open>auto simp: image_iff\<close>)
  ultimately show ?case using facts by (auto simp: e split: if_splits)
qed

section \<open>Newest first\<close>

lemma set_insert_by [simp]: "set (insert_by le x xs) = insert x (set xs)"
  by (induction xs) auto

lemma sorted_insert_by:
  assumes "\<And>x y. le x y \<or> le y x" "\<And>x y z. le x y \<Longrightarrow> le y z \<Longrightarrow> le x z"
  shows "sorted_wrt le xs \<Longrightarrow> sorted_wrt le (insert_by le x xs)"
proof (induction xs)
  case (Cons y ys)
  then show ?case using assms(1) [of x y] assms(2) [of x y] by auto
qed simp

lemma newest_first_total: "newest_first a b \<or> newest_first b a"
  unfolding newest_first_def using linear [of "review_key (su_id a)" "review_key (su_id b)"] by (auto simp: not_less_iff_gr_or_eq)

lemma newest_first_trans: "newest_first a b \<Longrightarrow> newest_first b c \<Longrightarrow> newest_first a c"
  unfolding newest_first_def by auto

lemma sorted_newest:
  "sorted_wrt newest_first (foldr (insert_by newest_first) xs [])" "set (foldr (insert_by newest_first) xs []) = set xs"
proof -
  show "sorted_wrt newest_first (foldr (insert_by newest_first) xs [])"
    by (induction xs) (auto intro!: sorted_insert_by [OF newest_first_total] intro: newest_first_trans)
  show "set (foldr (insert_by newest_first) xs []) = set xs" by (induction xs) auto
qed

lemma distinct_newest:
  "distinct (map f (foldr (insert_by le) xs [])) \<longleftrightarrow> distinct (map f xs)"
proof -
  have "distinct (map f (insert_by le x ys)) \<longleftrightarrow> distinct (map f (x # ys))" for x ys
    by (induction ys) auto
  moreover have "set (foldr (insert_by le) xs []) = set xs" for xs by (induction xs) auto
  ultimately show ?thesis by (induction xs) auto
qed

lemma find_rev_seq_unique:
  assumes "distinct (map ev_seq es)" "find P (rev es) = Some e" "find Q (rev es) = Some e'" "ev_seq e = ev_seq e'"
  shows "e = e'"
  using assms find_Some_in [OF assms(2)] find_Some_in [OF assms(3)]
  by (auto simp: distinct_map inj_on_def)

lemma activity_seq_inj:
  assumes inv: "log_inv s" and act: "last_activity_of s r = Some a" "last_activity_of s r' = Some a'" and eq: "ra_seq a = ra_seq a'"
  shows "r = r'"
proof -
  have "map ev_seq (log_events s) = map fst (tbl_entries (st_events s))"
    using inv log_inv_seqs [OF inv] by (simp add: log_inv_def)
  then have "distinct (map ev_seq (log_events s))" using tbl.entries_distinct [of "st_events s"] by simp
  moreover obtain e e' where e: "find (\<lambda>e. body_review_id (ev_body e) = Some r) (rev (log_events s)) = Some e"
    "find (\<lambda>e. body_review_id (ev_body e) = Some r') (rev (log_events s)) = Some e'" "ev_seq e = ev_seq e'"
    using act eq by (auto simp: last_activity_of_def events_after_None)
  ultimately have "e = e'" by (rule find_rev_seq_unique)
  then show ?thesis using find_Some_in [OF e(1)] find_Some_in [OF e(2)] by simp
qed

lemma discovery_row:
  assumes ok: "refs_ok (st_views s)" and inv: "log_inv s" and row: "store_review s r = Some rec"
  shows "rv_id (rec_review rec) = r" "last_activity_of s r \<noteq> None"
    "store_workspace s (rv_workspace_id (rec_review rec)) \<noteq> None"
proof -
  have get: "tbl_get (v_reviews (st_views s)) (review_key r) = Some rec" using row by (simp add: store_review_def)
  have keys: "keys_ok (st_views s)" using ok by (simp add: refs_ok_def)
  show "rv_id (rec_review rec) = r" using keys_okD(2) [OF keys get] by (metis review_id.expand)
  show "last_activity_of s r \<noteq> None" using activity_exists [OF inv] get by (metis option.distinct(1) review_id.collapse)
  have "sk_reviews (skeleton (st_views s)) (review_key r) = Some (workspace_key (rv_workspace_id (rec_review rec)))"
    using get by (simp add: skeleton_sel review_shape_def)
  then have "sk_workspaces (skeleton (st_views s)) (workspace_key (rv_workspace_id (rec_review rec)))"
    using ok unfolding refs_ok_def reviews_ok_def by blast
  then show "store_workspace s (rv_workspace_id (rec_review rec)) \<noteq> None"
    by (simp add: skeleton_def store_workspace_def)
qed

lemma strictly_newest:
  assumes "sorted_wrt newest_first sus" "distinct (map su_id sus)"
    and "\<And>a b. a \<in> set sus \<Longrightarrow> b \<in> set sus \<Longrightarrow> ra_seq (su_last_activity a) = ra_seq (su_last_activity b) \<Longrightarrow> su_id a = su_id b"
  shows "sorted_wrt (\<lambda>a b. ra_seq (su_last_activity b) < ra_seq (su_last_activity a)) sus"
  using assms
proof (induction sus)
  case (Cons a sus)
  have "ra_seq (su_last_activity b) < ra_seq (su_last_activity a)" if "b \<in> set sus" for b
  proof -
    have "su_id a \<noteq> su_id b" using Cons.prems(2) that by force
    then have "ra_seq (su_last_activity a) \<noteq> ra_seq (su_last_activity b)" using Cons.prems(3) [of a b] that by auto
    moreover have "newest_first a b" using Cons.prems(1) that by simp
    ultimately show ?thesis by (simp add: newest_first_def)
  qed
  moreover have "sorted_wrt (\<lambda>a b. ra_seq (su_last_activity b) < ra_seq (su_last_activity a)) sus"
    by (rule Cons.IH; (rule Cons.prems(3))?) (use Cons.prems(1,2) in simp_all)
  ultimately show ?case by simp
qed simp

lemma discover_run:
  assumes ok: "refs_ok (st_views s)" and inv: "log_inv s"
    and bound: "length (tbl_entries (v_threads (st_views s))) < 2 ^ 32"
  shows "if (case rqy_scope query of ReviewScope_All \<Rightarrow> False | ReviewScope_Workspace w \<Rightarrow> store_workspace s w = None)
    then discover_reviews lower query s = Inr None
    else (\<exists>d. discover_reviews lower query s = Inr (Some d) \<and> sorted_wrt newest_first (di_reviews d)
      \<and> distinct (map su_id (di_reviews d))
      \<and> set (di_reviews d) = (\<lambda>rec. summary_for s (rec_review rec)) `
          {rec. store_review s (rv_id (rec_review rec)) = Some rec \<and> wanted lower s query rec})"
proof -
  let ?sel = "select_reviews lower query s"
  let ?revs = "filter (\<lambda>rv. awaits query (pending_requests s (rv_id rv))) (map snd (tbl_entries ?sel))"
  let ?seq = "case st_view_seq s of None \<Rightarrow> 0 | Some q \<Rightarrow> q"
  have keys: "keys_ok (st_views s)" using ok by (simp add: refs_ok_def)
  have entry: "\<exists>rec. store_review s (ReviewId k) = Some rec \<and> review_matches lower query rec \<and> rec_review rec = rv"
    if "(k, rv) \<in> set (tbl_entries ?sel)" for k rv
    using that select_reviews_get [OF keys] by (simp add: tbl.in_entries_iff store_review_def)
  have "\<exists>act'. foldR (discover_step s query ?seq (workspaces_by_id s)) (tbl_entries ?sel) (latest_activity s ?sel, [])
      = Inr (act', [] @ map (summary_for s) ?revs)"
  proof (rule discover_loop [OF tbl.entries_distinct])
    fix k rv assume mem: "(k, rv) \<in> set (tbl_entries ?sel)"
    then obtain rec where rec: "store_review s (ReviewId k) = Some rec" "rec_review rec = rv" using entry by blast
    have "tbl_get ?sel k \<noteq> None" using mem by (simp add: tbl.in_entries_iff)
    then show "rv_id rv = ReviewId k \<and> length (store_threads s (ReviewId k)) < 2 ^ 32
      \<and> tbl_get (workspaces_by_id s) (workspace_key (rv_workspace_id rv)) = store_workspace s (rv_workspace_id rv)
      \<and> store_workspace s (rv_workspace_id rv) \<noteq> None
      \<and> tbl_get (latest_activity s ?sel) k = last_activity_of s (ReviewId k) \<and> last_activity_of s (ReviewId k) \<noteq> None"
      using discovery_row [OF ok inv rec(1)] rec(2) bound rows_of_length [of "ReviewId k" "v_threads (st_views s)"]
      by (simp add: latest_activity_get workspaces_by_id_get [OF keys] store_threads_def)
  qed
  then have run: "discover_reviews lower query s =
      (if (case rqy_scope query of ReviewScope_All \<Rightarrow> False | ReviewScope_Workspace w \<Rightarrow> store_workspace s w = None)
       then Inr None
       else Inr (Some \<lparr>di_reviews = foldr (insert_by newest_first) (map (summary_for s) ?revs) [], di_seq = ?seq\<rparr>))"
    by (auto simp: discover_reviews_def Let_def workspaces_by_id_get [OF keys] split: review_scope.split)
  have ids: "map rv_id (map snd (tbl_entries ?sel)) = map ReviewId (map fst (tbl_entries ?sel))"
    using entry discovery_row(1) [OF ok inv] by fastforce
  have "distinct (map rv_id ?revs)"
    by (rule distinct_map_filter) (unfold ids distinct_map [of ReviewId], auto simp: tbl.entries_distinct inj_on_def)
  then have "distinct (map su_id (foldr (insert_by newest_first) (map (summary_for s) ?revs) []))"
    unfolding distinct_newest by (simp add: summary_for_def Let_def comp_def)
  moreover have "set ?revs = rec_review ` {rec. store_review s (rv_id (rec_review rec)) = Some rec \<and> wanted lower s query rec}"
  proof (intro equalityI subsetI)
    fix rv assume "rv \<in> set ?revs"
    then show "rv \<in> rec_review ` {rec. store_review s (rv_id (rec_review rec)) = Some rec \<and> wanted lower s query rec}"
      using entry discovery_row(1) [OF ok inv] by (fastforce simp: wanted_def)
  next
    fix rv assume "rv \<in> rec_review ` {rec. store_review s (rv_id (rec_review rec)) = Some rec \<and> wanted lower s query rec}"
    then have "(review_key (rv_id rv), rv) \<in> set (tbl_entries ?sel)" "awaits query (pending_requests s (rv_id rv))"
      using select_reviews_get [OF keys] by (auto simp: wanted_def store_review_def tbl.in_entries_iff)
    then show "rv \<in> set ?revs" by force
  qed
  ultimately show ?thesis
    using sorted_newest [of "map (summary_for s) ?revs"] unfolding run by (auto simp: image_image)
qed

text \<open>
  C32: On every store the service can reach, with fewer than \<open>2^32\<close> threads, discovering reviews
  succeeds: an unknown workspace is reported as such; otherwise the result has one summary for
  each live review in the scope whose title contains the wanted text and which has a pending
  request for the wanted agent, and no other. A summary names the workspace and the attached
  repositories of the review, counts its open threads with an undeleted root, lists the requests
  their recipient has not answered, and carries the review's latest event. The summaries come in
  strictly decreasing order of that event.
\<close>

theorem discover_reviews_exact:
  assumes "reachable_by validated s" "store_len s < 2 ^ 64 - 1"
    and "length (tbl_entries (v_threads (st_views s))) < 2 ^ 32"
  shows "if (case rqy_scope query of ReviewScope_All \<Rightarrow> False | ReviewScope_Workspace w \<Rightarrow> store_workspace s w = None)
    then discover_reviews lower query s = Inr None
    else (\<exists>d. discover_reviews lower query s = Inr (Some d)
      \<and> set (di_reviews d) = (\<lambda>rec. summary_for s (rec_review rec)) `
          {rec. store_review s (rv_id (rec_review rec)) = Some rec \<and> wanted lower s query rec}
      \<and> sorted_wrt (\<lambda>a b. ra_seq (su_last_activity b) < ra_seq (su_last_activity a)) (di_reviews d)
      \<and> (\<forall>su\<in>set (di_reviews d). unat (su_open_findings su) = open_findings s (su_id su)
            \<and> last_activity_of s (su_id su) = Some (su_last_activity su)))"
proof -
  have ok: "refs_ok (st_views s)" by (rule references.reachable_inv [OF assms(1,2)])
  have inv: "log_inv s" by (rule reachable_log_inv [OF assms(1,2)])
  note run = discover_run [OF ok inv assms(3), of query lower]
  show ?thesis
  proof (cases "case rqy_scope query of ReviewScope_All \<Rightarrow> False | ReviewScope_Workspace w \<Rightarrow> store_workspace s w = None")
    case True
    then show ?thesis using run by simp
  next
    case False
    let ?rows = "{rec. store_review s (rv_id (rec_review rec)) = Some rec \<and> wanted lower s query rec}"
    obtain d where d: "discover_reviews lower query s = Inr (Some d)" "sorted_wrt newest_first (di_reviews d)"
      "distinct (map su_id (di_reviews d))"
      "set (di_reviews d) = (\<lambda>rec. summary_for s (rec_review rec)) ` ?rows"
      using run False by auto
    have su: "last_activity_of s (su_id su) = Some (su_last_activity su)
        \<and> unat (su_open_findings su) = open_findings s (su_id su)" if mem: "su \<in> set (di_reviews d)" for su
    proof -
      obtain rec where rec: "store_review s (rv_id (rec_review rec)) = Some rec" "su = summary_for s (rec_review rec)"
        using mem unfolding d(4) by blast
      have "open_findings s (su_id su) < 2 ^ 32"
        using assms(3) rows_of_length [of "su_id su" "v_threads (st_views s)"]
          length_filter_le [of "open_finding s (su_id su)" "store_threads s (su_id su)"]
        unfolding open_findings_def store_threads_def by linarith
      then show ?thesis
        using rec discovery_row [OF ok inv rec(1)]
        by (auto simp: summary_for_def Let_def unat_of_nat take_bit_nat_eq_self)
    qed
    then have "sorted_wrt (\<lambda>a b. ra_seq (su_last_activity b) < ra_seq (su_last_activity a)) (di_reviews d)"
      using d(2,3) activity_seq_inj [OF inv] by (intro strictly_newest) blast+
    then show ?thesis using False d(1,4) su by auto
  qed
qed

theorem discover_reviews_exact_witness:
  "\<exists>s d. append_all validated sample_log fresh_store = Some s
     \<and> discover_reviews (\<lambda>t. t) \<lparr>rqy_scope = ReviewScope_Workspace (WorkspaceId (Ulid 1 1)), rqy_title = Some ''t'', rqy_awaiting = None\<rparr> s
         = Inr (Some d)
     \<and> (\<forall>su\<in>set (di_reviews d). unat (su_open_findings su) = open_findings s (su_id su))
     \<and> summary_for s sample_review \<in> set (di_reviews d)
     \<and> ra_seq (su_last_activity (summary_for s sample_review)) = 4
     \<and> discover_reviews (\<lambda>t. t) \<lparr>rqy_scope = ReviewScope_Workspace (WorkspaceId (Ulid 7 7)), rqy_title = None, rqy_awaiting = None\<rparr> s
         = Inr None"
proof -
  let ?w = "\<lambda>w title. \<lparr>rqy_scope = ReviewScope_Workspace (WorkspaceId w), rqy_title = title, rqy_awaiting = None\<rparr>"
  let ?rec = "\<lparr>rec_review = sample_review, rec_resolved = None, rec_lifecycle = Lifecycle_Live\<rparr>"
  have "map_option (\<lambda>s. (store_len s, length (tbl_entries (v_threads (st_views s))),
        store_review s (rv_id sample_review) = Some ?rec, wanted (\<lambda>t. t) s (?w (Ulid 1 1) (Some ''t'')) ?rec,
        store_workspace s (WorkspaceId (Ulid 1 1)) = None, store_workspace s (WorkspaceId (Ulid 7 7)) = None,
        ra_seq (su_last_activity (summary_for s sample_review))))
      (append_all validated sample_log fresh_store) = Some (4, 1, True, True, False, True, 4)" by code_simp
  then obtain s where s: "append_all validated sample_log fresh_store = Some s" "store_len s = 4"
    "length (tbl_entries (v_threads (st_views s))) = 1" "store_review s (rv_id sample_review) = Some ?rec"
    "wanted (\<lambda>t. t) s (?w (Ulid 1 1) (Some ''t'')) ?rec" "store_workspace s (WorkspaceId (Ulid 1 1)) \<noteq> None"
    "store_workspace s (WorkspaceId (Ulid 7 7)) = None" "ra_seq (su_last_activity (summary_for s sample_review)) = 4"
    by auto
  have r: "reachable_by validated s" by (rule append_all_reachable [OF s(1) reachable_fresh_store])
  have mem: "summary_for s sample_review \<in> (\<lambda>rec. summary_for s (rec_review rec)) `
      {rec. store_review s (rv_id (rec_review rec)) = Some rec \<and> wanted (\<lambda>t. t) s (?w (Ulid 1 1) (Some ''t'')) rec}"
    using s(4,5) by (intro image_eqI [of _ _ ?rec]) simp_all
  obtain d where d: "discover_reviews (\<lambda>t. t) (?w (Ulid 1 1) (Some ''t'')) s = Inr (Some d)"
    "set (di_reviews d) = (\<lambda>rec. summary_for s (rec_review rec)) `
      {rec. store_review s (rv_id (rec_review rec)) = Some rec \<and> wanted (\<lambda>t. t) s (?w (Ulid 1 1) (Some ''t'')) rec}"
    "\<forall>su\<in>set (di_reviews d). unat (su_open_findings su) = open_findings s (su_id su)"
    using discover_reviews_exact [OF r, of "?w (Ulid 1 1) (Some ''t'')" "\<lambda>t. t"] s(2,3,6) by auto
  have "discover_reviews (\<lambda>t. t) (?w (Ulid 7 7) None) s = Inr None"
    using discover_reviews_exact [OF r, of "?w (Ulid 7 7) None" "\<lambda>t. t"] s(2,3,7) by simp
  then show ?thesis using s(1,8) d mem by blast
qed

end
