(* ===== verification/Nits_Review_Ops.thy ===== *)
theory Nits_Review_Ops
  imports Nits_Core Nits_Discovery
begin

text \<open>
  Reviews on \<open>Core\<close>: \<open>crates/nits-review-core/src/review.rs\<close> (creation, targets and their
  resolution, scopes, changed files, viewed marks, the watcher's entry points), the checkpoints
  of \<open>checkpoints.rs\<close> and the re-anchoring driver of \<open>comments.rs\<close> that a resolution runs.
\<close>

section \<open>Discovery\<close>

definition core_discover_reviews :: "(string \<Rightarrow> string) \<Rightarrow> review_query \<Rightarrow> review_discovery op" where
  "core_discover_reviews lower query =
     readO (\<lambda>c. bindR (map_err StoreFailed (discover_reviews lower query (co_store c)))
       (ok_or (case rqy_scope query of
                 ReviewScope_Workspace w \<Rightarrow> NotFound (Entity_Workspace w)
               | ReviewScope_All \<Rightarrow> Invalid AllDiscoveryUnavailable)))"

section \<open>Where paths went\<close>

type_synonym fates = "repo_path \<rightharpoonup> path_fate"

fun fate_of_entry :: "tree_entry \<Rightarrow> fates \<Rightarrow> fates" where
  "fate_of_entry e m =
     (case te_kind e of
        TreeEntry_File oid _ _ \<Rightarrow> m(te_path e \<mapsto> Fate_Present (te_path e) oid)
      | TreeEntry_Symlink oid \<Rightarrow> m(te_path e \<mapsto> Fate_Present (te_path e) oid)
      | TreeEntry_Dir _ \<Rightarrow> m
      | TreeEntry_Submodule _ \<Rightarrow> m)"

fun fate_of_change :: "path_change \<Rightarrow> fates \<Rightarrow> fates" where
  "fate_of_change ch m =
     (case pc_kind ch of
        Change_Renamed from' _ new \<Rightarrow> m(from' \<mapsto> Fate_Present (pc_path ch) (be_oid new))
      | Change_Deleted _ \<Rightarrow> m(pc_path ch \<mapsto> Fate_Gone)
      | Change_Added _ \<Rightarrow> m
      | Change_Modified _ _ \<Rightarrow> m
      | Change_Submodule sub \<Rightarrow>
          if submodule_new_blob sub = None then m(pc_path ch \<mapsto> Fate_Gone) else m)"

definition path_fates :: "git_repo \<Rightarrow> repo_id \<Rightarrow> tree_oid option \<Rightarrow> tree_oid \<Rightarrow> (core_error, fates) result" where
  "path_fates repo repo_id old_tree new_tree =
     bindR (map_err GitFailed (gr_tree_snapshot repo repo_id new_tree)) (\<lambda>snap.
       let fates = fold fate_of_entry (ts_entries snap) Map.empty in
       case old_tree of
         None \<Rightarrow> Inr fates
       | Some old \<Rightarrow>
           bindR (map_err GitFailed (gr_changed_files repo old new_tree)) (\<lambda>changes.
             Inr (fold fate_of_change changes fates)))"

definition side_tree :: "side \<Rightarrow> resolved_target \<Rightarrow> tree_oid" where
  "side_tree side t = (case side of Side_Base \<Rightarrow> rr_tree (rs_base t) | Side_Head \<Rightarrow> rr_tree (rs_head t))"

definition is_browse :: "comment \<Rightarrow> bool" where
  "is_browse c \<longleftrightarrow> (case cm_context c of Some (Context_Browse _) \<Rightarrow> True | _ \<Rightarrow> False)"

text \<open>The side, repository and path to follow; \<open>None\<close> where the loop continues with the next comment.\<close>

definition follow_place :: "comment \<Rightarrow> (side \<times> repo_id \<times> repo_path) option" where
  "follow_place c =
     (if is_browse c then None
      else let base = effective_anchor (cm_anchor c) (cm_state c) in
        case (anchor_side_of base, base) of
          (Some side, Anchor_File repo path _) \<Rightarrow> Some (side, repo, path)
        | (Some side, Anchor_Lines repo path _ _ _ _) \<Rightarrow> Some (side, repo, path)
        | _ \<Rightarrow> None)"

definition find_target :: "repo_id \<Rightarrow> resolved_target list \<Rightarrow> resolved_target option" where
  "find_target repo ts = find (\<lambda>t. rs_repo_id t = repo) ts"

text \<open>The entry of the cache of fates for a repository and side, computed when it is vacant.\<close>

definition fate_map :: "git_repo \<Rightarrow> repo_id \<times> side \<Rightarrow> resolved_target option \<Rightarrow> resolved_target
    \<Rightarrow> (repo_id \<times> side \<rightharpoonup> fates) \<Rightarrow> (core_error, fates) result" where
  "fate_map repo key old_t new_t cache =
     (case cache key of
        Some m \<Rightarrow> Inr m
      | None \<Rightarrow> path_fates repo (fst key) (map_option (side_tree (snd key)) old_t) (side_tree (snd key) new_t))"

definition blob_content :: "git_repo \<Rightarrow> blob_oid \<Rightarrow> string option" where
  "blob_content repo b = (case gr_blob repo b of Inr s \<Rightarrow> Some s | Inl _ \<Rightarrow> None)"

fun reanchor_each :: "env \<Rightarrow> ctx \<Rightarrow> review_id \<Rightarrow> resolved_target list \<Rightarrow> resolved_target list
    \<Rightarrow> (repo_id \<times> side \<rightharpoonup> fates) \<Rightarrow> comment list \<Rightarrow> comment_id list op" where
  "reanchor_each E ctx review old new cache [] = retO []"
| "reanchor_each E ctx review old new cache (c # cs) =
     (case follow_place c of
        None \<Rightarrow> reanchor_each E ctx review old new cache cs
      | Some (side, repo_id, path) \<Rightarrow>
          (case find_target repo_id new of
             None \<Rightarrow> reanchor_each E ctx review old new cache cs
           | Some new_t \<Rightarrow>
               bindO (review_repo E review repo_id) (\<lambda>repo.
               bindO (liftO (fate_map repo (repo_id, side) (find_target repo_id old) new_t cache)) (\<lambda>fates.
                 let cache' = cache((repo_id, side) \<mapsto> fates);
                     fate = (case fates path of Some f \<Rightarrow> f | None \<Rightarrow> Fate_Gone)
                 in case reanchor (en_libs E) (cm_anchor c) (cm_state c) fate (blob_content repo) (blob_content repo) of
                      Reanchor_Unchanged \<Rightarrow> reanchor_each E ctx review old new cache' cs
                    | Reanchor_Moved anchor state \<Rightarrow>
                        bindO (core_append ctx (CommentReanchored review (cm_id c) anchor state)) (\<lambda>_.
                        bindO (reanchor_each E ctx review old new cache' cs) (\<lambda>moved.
                          retO (cm_id c # moved)))))))"

definition reanchor_review :: "env \<Rightarrow> ctx \<Rightarrow> review_id \<Rightarrow> resolved_target nonempty \<Rightarrow> resolved_target nonempty
    \<Rightarrow> comment_id list op" where
  "reanchor_review E ctx review old new =
     bindO (readO (\<lambda>c. Inr (store_comments (co_store c) review))) (\<lambda>comments.
       reanchor_each E ctx review (ne_items old) (ne_items new) Map.empty comments)"

section \<open>Resolving targets\<close>

definition retain_targets :: "env \<Rightarrow> review_id \<Rightarrow> resolved_target nonempty \<Rightarrow> unit op" where
  "retain_targets E review targets =
     bindO (forO (\<lambda>t.
       bindO (review_repo E review (rs_repo_id t)) (\<lambda>repo.
       bindO (gitO (gr_retain_revision repo review (rs_base t))) (\<lambda>_.
         gitO (gr_retain_revision repo review (rs_head t))))) (ne_items targets)) (\<lambda>_. retO ())"

definition resolve_one :: "env \<Rightarrow> workspace_id \<Rightarrow> review_target \<Rightarrow> resolved_target op" where
  "resolve_one E wid t =
     bindO (workspace_repo E wid (rt_repo_id t)) (\<lambda>repo.
     bindO (gitO (gr_resolve repo (rt_base t))) (\<lambda>base.
     bindO (gitO (gr_resolve repo (rt_head t))) (\<lambda>head.
       retO \<lparr>rs_repo_id = rt_repo_id t, rs_base = base, rs_head = head\<rparr>)))"

definition resolve_review_targets :: "env \<Rightarrow> review \<Rightarrow> resolved_target nonempty op" where
  "resolve_review_targets E review =
     bindO (forO (resolve_one E (rv_workspace_id review)) (ne_items (rv_targets review))) (\<lambda>resolved.
       liftO (map_err (\<lambda>_. Invalid NoTargets) (ne_new resolved)))"

definition record_resolved_targets :: "env \<Rightarrow> ctx \<Rightarrow> review_record \<Rightarrow> resolved_target nonempty \<Rightarrow> bool op" where
  "record_resolved_targets E ctx rec resolved =
     (if rec_resolved rec \<noteq> Some resolved
      then
        bindO (retain_targets E (rv_id (rec_review rec)) resolved) (\<lambda>_.
        bindO (core_append ctx (ReviewTargetsResolved (rv_id (rec_review rec)) resolved)) (\<lambda>_.
        bindO (case rec_resolved rec of
                 None \<Rightarrow> retO []
               | Some old \<Rightarrow> reanchor_review E ctx (rv_id (rec_review rec)) old resolved) (\<lambda>_.
          retO True)))
      else retO False)"

definition resolve_targets :: "env \<Rightarrow> ctx \<Rightarrow> review_id \<Rightarrow> (resolved_target nonempty \<times> bool) op" where
  "resolve_targets E ctx rid =
     bindO (core_review rid) (\<lambda>rec.
     bindO (resolve_review_targets E (rec_review rec)) (\<lambda>resolved.
     bindO (record_resolved_targets E ctx rec resolved) (\<lambda>changed.
       retO (resolved, changed))))"

section \<open>Creating, updating and deleting reviews\<close>

definition create_review :: "env \<Rightarrow> ctx \<Rightarrow> review_id \<Rightarrow> workspace_id \<Rightarrow> string \<Rightarrow> review_target list
    \<Rightarrow> review_record op" where
  "create_review E ctx rid wid title targets =
     bindO (liftO (map_err (\<lambda>e. Invalid (CreateTargetsInvalid e)) (create_targets_try_from_vec targets))) (\<lambda>parsed.
     bindO (core_workspace wid) (\<lambda>ws.
     bindO (readO (\<lambda>c. Inr (store_review (co_store c) rid))) (\<lambda>existing.
     bindO (guardO (existing = None) (Invalid (ReviewExists rid))) (\<lambda>_.
     bindO (forO (\<lambda>t. guardO (list_ex (\<lambda>r. rp_id r = rt_repo_id t) (ws_repos ws))
              (Invalid (RepoNotInWorkspace (rt_repo_id t) wid))) (ne_items (as_targets parsed))) (\<lambda>_.
     bindO (forO (resolve_one E wid) (ne_items (as_targets parsed))) (\<lambda>_.
       let review = \<lparr>rv_id = rid, rv_workspace_id = wid, rv_title = title, rv_targets = as_targets parsed,
                     rv_created = cx_now ctx, rv_status = Status_Open\<rparr>
       in bindO (core_append ctx (ReviewCreated review)) (\<lambda>_.
          bindO (resolve_targets E ctx rid) (\<lambda>(resolved, _).
            retO \<lparr>rec_review = review, rec_resolved = Some resolved, rec_lifecycle = Lifecycle_Live\<rparr>))))))))"

definition update_review :: "env \<Rightarrow> ctx \<Rightarrow> review_id \<Rightarrow> string \<Rightarrow> review_status \<Rightarrow> unit op" where
  "update_review E ctx rid title status =
     bindO (core_review rid) (\<lambda>rec.
     bindO (if rv_status (rec_review rec) = Status_Archived \<and> status = Status_Open
            then bindO (resolve_review_targets E (rec_review rec)) (\<lambda>r. retO (Some r))
            else retO None) (\<lambda>refreshed.
     bindO (core_append ctx (ReviewUpdated rid title status)) (\<lambda>_.
       case refreshed of
         None \<Rightarrow> retO ()
       | Some resolved \<Rightarrow> bindO (record_resolved_targets E ctx rec resolved) (\<lambda>_. retO ()))))"

fun apply_revision :: "target_revision \<Rightarrow> review_target \<Rightarrow> review_target" where
  "apply_revision (TargetRevision_Base spec) t = t\<lparr>rt_base := ref_spec_from_base spec\<rparr>"
| "apply_revision (TargetRevision_Head spec) t = t\<lparr>rt_head := spec\<rparr>"

definition update_review_target :: "env \<Rightarrow> ctx \<Rightarrow> review_id \<Rightarrow> review_target_update \<Rightarrow> unit op" where
  "update_review_target E ctx rid update =
     bindO (core_review rid) (\<lambda>rec.
     bindO (liftO (ok_or (NotFound (Entity_Repo (rtu_repo_id update)))
              (find (\<lambda>t. rt_repo_id t = rtu_repo_id update) (ne_items (rv_targets (rec_review rec)))))) (\<lambda>found.
       let target = apply_revision (rtu_revision update) found in
       bindO (workspace_repo E (rv_workspace_id (rec_review rec)) (rt_repo_id target)) (\<lambda>repo.
       bindO (liftO (map_err (\<lambda>e. Invalid (TargetUnresolvable e))
                (bindR (gr_resolve repo (rt_base target)) (\<lambda>_. gr_resolve repo (rt_head target))))) (\<lambda>_.
       bindO (core_append ctx (ReviewTargetUpdated rid target)) (\<lambda>_.
       bindO (resolve_targets E ctx rid) (\<lambda>_. retO ()))))))"

definition delete_review :: "ctx \<Rightarrow> review_id \<Rightarrow> unit op" where
  "delete_review ctx rid =
     bindO (core_review rid) (\<lambda>_.
     bindO (core_append ctx (ReviewDeleted rid)) (\<lambda>_. retO ()))"

section \<open>Scopes and changed files\<close>

definition core_resolved :: "review_id \<Rightarrow> (review_record \<times> resolved_target nonempty) op" where
  "core_resolved rid =
     bindO (core_review rid) (\<lambda>rec.
     bindO (liftO (ok_or (Invalid (ReviewNotResolved rid)) (rec_resolved rec))) (\<lambda>resolved.
       retO (rec, resolved)))"

definition core_target :: "resolved_target nonempty \<Rightarrow> repo_id \<Rightarrow> (core_error, resolved_target) result" where
  "core_target resolved repo_id =
     ok_or (NotFound (Entity_Repo repo_id)) (find (\<lambda>t. rs_repo_id t = repo_id) (ne_items resolved))"

definition EMPTY_TREE :: tree_oid where
  "EMPTY_TREE = TreeOid (Oid [0x4b, 0x82, 0x5d, 0xc6, 0x42, 0xcb, 0x6e, 0xb9, 0xa0, 0x60, 0xe5, 0x4b,
     0xf8, 0xd6, 0x92, 0x88, 0xfb, 0xee, 0x49, 0x04])"

definition commit_step :: "env \<Rightarrow> repo_id \<Rightarrow> commit_oid \<Rightarrow> resolved_target op" where
  "commit_step E repo_id commit =
     bindO (core_repo E repo_id) (\<lambda>repo.
     bindO (gitO (gr_commit_info repo commit)) (\<lambda>info.
     bindO (case ci_parents info of
              p # _ \<Rightarrow>
                bindO (gitO (gr_commit_info repo p)) (\<lambda>parent.
                  retO \<lparr>rr_tree = ci_tree parent, rr_source = Source_Commit p\<rparr>)
            | [] \<Rightarrow> retO \<lparr>rr_tree = EMPTY_TREE, rr_source = Source_Commit commit\<rparr>) (\<lambda>base.
       retO \<lparr>rs_repo_id = repo_id, rs_base = base,
             rs_head = \<lparr>rr_tree = ci_tree info, rr_source = Source_Commit commit\<rparr>\<rparr>)))"

definition committed_target :: "env \<Rightarrow> review_id \<Rightarrow> resolved_target \<Rightarrow> resolved_target op" where
  "committed_target E rid t =
     (case rr_source (rs_head t) of
        Source_WorkingTree _ _ head \<Rightarrow>
          bindO (liftO (ok_or (Invalid NoCapturedHead) head)) (\<lambda>oid.
          bindO (review_repo E rid (rs_repo_id t)) (\<lambda>repo.
          bindO (gitO (gr_resolve repo (RefSpec_Commit oid))) (\<lambda>h. retO (t\<lparr>rs_head := h\<rparr>))))
      | Source_Commit _ \<Rightarrow> retO t)"

definition worktree_target :: "env \<Rightarrow> review_id \<Rightarrow> repo_id \<Rightarrow> resolved_target \<Rightarrow> resolved_target op" where
  "worktree_target E rid repo_id target =
     bindO (review_repo E rid repo_id) (\<lambda>repo.
       case rr_source (rs_head target) of
         Source_WorkingTree _ _ head \<Rightarrow>
           bindO (liftO (ok_or (Invalid NoCapturedHead) head)) (\<lambda>oid.
           bindO (gitO (gr_resolve repo (RefSpec_Commit oid))) (\<lambda>base.
             retO \<lparr>rs_repo_id = repo_id, rs_base = base, rs_head = rs_head target\<rparr>))
       | Source_Commit _ \<Rightarrow>
           bindO (gitO (gr_resolve repo RefSpec_Head)) (\<lambda>base.
           bindO (gitO (gr_resolve repo RefSpec_WorkingTree)) (\<lambda>head.
             retO \<lparr>rs_repo_id = repo_id, rs_base = base, rs_head = head\<rparr>)))"

definition scoped_targets :: "env \<Rightarrow> review_id \<Rightarrow> diff_scope \<Rightarrow> resolved_target nonempty op" where
  "scoped_targets E rid scope =
     bindO (core_resolved rid) (\<lambda>(_, resolved).
       case scope of
         Scope_All \<Rightarrow> retO resolved
       | Scope_Requested request_id \<Rightarrow>
           bindO (core_review_snapshot rid) (\<lambda>snapshot.
             liftO (bindR (ok_or (Invalid RequestNotInReview)
                             (find (\<lambda>q. rq_id q = request_id) (sn_requests snapshot))) (\<lambda>q.
               case rq_targets q of
                 Requested_Unknown \<Rightarrow> Inl (Invalid RequestTargetsUnknown)
               | Requested_Captured targets \<Rightarrow> Inr targets)))
       | Scope_SinceCheckpoint checkpoint_id \<Rightarrow>
           bindO (core_review_snapshot rid) (\<lambda>snapshot.
             liftO (bindR (ok_or (Invalid CheckpointNotInReview)
                             (find (\<lambda>cp. cp_id cp = checkpoint_id) (sn_checkpoints snapshot))) (\<lambda>cp.
               if ne_len (cp_targets cp) \<noteq> ne_len resolved then Inl (Invalid CheckpointReposDiffer)
               else bindR (collectR (\<lambda>t. bindR (core_target (cp_targets cp) (rs_repo_id t))
                                 (\<lambda>k. Inr (t\<lparr>rs_base := rs_head k\<rparr>))) (ne_items resolved)) (\<lambda>ts.
                      map_err (\<lambda>_. Invalid NoTargets) (ne_new ts)))))
       | Scope_Committed \<Rightarrow>
           bindO (forO (committed_target E rid) (ne_items resolved)) (\<lambda>ts.
             liftO (map_err (\<lambda>_. Invalid NoTargets) (ne_new ts)))
       | Scope_Commit repo_id oid \<Rightarrow>
           bindO (liftO (core_target resolved repo_id)) (\<lambda>_.
           bindO (review_repo E rid repo_id) (\<lambda>_.
           bindO (commit_step E repo_id oid) (\<lambda>t. retO (ne_singleton t))))
       | Scope_Worktree repo_id \<Rightarrow>
           bindO (liftO (core_target resolved repo_id)) (\<lambda>target.
           bindO (worktree_target E rid repo_id target) (\<lambda>t. retO (ne_singleton t))))"

definition repo_display :: "workspace \<Rightarrow> repo_id \<Rightarrow> string" where
  "repo_display ws rid =
     (case find (\<lambda>r. rp_id r = rid) (ws_repos ws) of None \<Rightarrow> [] | Some r \<Rightarrow> rp_display_name r)"

text \<open>A stable sort by the display order of paths.\<close>

fun insert_change :: "path_change \<Rightarrow> path_change list \<Rightarrow> path_change list" where
  "insert_change x [] = [x]"
| "insert_change x (y # ys) =
     (if tree_order (pc_path x) (pc_path y) = Greater then y # insert_change x ys else x # y # ys)"

definition sort_changes :: "path_change list \<Rightarrow> path_change list" where
  "sort_changes xs = foldr insert_change xs []"

definition files_scoped :: "env \<Rightarrow> review_id \<Rightarrow> diff_scope \<Rightarrow> (file_change list \<times> resolved_target nonempty) op" where
  "files_scoped E rid scope =
     bindO (core_review rid) (\<lambda>rec.
     bindO (scoped_targets E rid scope) (\<lambda>resolved.
     bindO (core_workspace (rv_workspace_id (rec_review rec))) (\<lambda>ws.
       let targets = sort_key (\<lambda>t. (repo_display ws (rs_repo_id t), repo_key (rs_repo_id t))) (ne_items resolved)
       in bindO (forO (\<lambda>t.
            bindO (workspace_repo E (rv_workspace_id (rec_review rec)) (rs_repo_id t)) (\<lambda>repo.
            bindO (gitO (gr_changed_files repo (rr_tree (rs_base t)) (rr_tree (rs_head t)))) (\<lambda>changes.
              retO (map (\<lambda>ch. \<lparr>fc_repo_id = rs_repo_id t, fc_path = pc_path ch, fc_kind = pc_kind ch\<rparr>)
                     (sort_changes changes))))) targets) (\<lambda>out.
            retO (concat out, resolved)))))"

definition core_files :: "env \<Rightarrow> review_id \<Rightarrow> file_change list op" where
  "core_files E rid = bindO (files_scoped E rid Scope_All) (\<lambda>(files, _). retO files)"

definition file_change_of :: "env \<Rightarrow> review_id \<Rightarrow> repo_id \<Rightarrow> repo_path \<Rightarrow> diff_scope \<Rightarrow> file_change op" where
  "file_change_of E rid repo_id path scope =
     bindO (files_scoped E rid scope) (\<lambda>(files, _).
       liftO (ok_or (NotFound (Entity_Path path))
         (find (\<lambda>f. fc_repo_id f = repo_id \<and> fc_path f = path) files)))"

definition core_commits :: "env \<Rightarrow> review_id \<Rightarrow> repo_id \<Rightarrow> commit_info list op" where
  "core_commits E rid repo_id =
     bindO (core_resolved rid) (\<lambda>(_, resolved).
     bindO (liftO (core_target resolved repo_id)) (\<lambda>t.
       case rr_source (rs_base t) of
         Source_WorkingTree _ _ _ \<Rightarrow> retO []
       | Source_Commit base \<Rightarrow>
           (case (case rr_source (rs_head t) of
                    Source_Commit oid \<Rightarrow> Some oid
                  | Source_WorkingTree _ _ head \<Rightarrow> head) of
              None \<Rightarrow> retO []
            | Some head \<Rightarrow>
                bindO (review_repo E rid repo_id) (\<lambda>repo. gitO (gr_commits_between repo base head)))))"

section \<open>Viewed marks\<close>

fun viewed_of_entry :: "tree_entry_kind \<Rightarrow> viewed_content" where
  "viewed_of_entry (TreeEntry_File oid _ executable) =
     Viewed_Blob \<lparr>be_oid = oid, be_mode = (if executable then Mode_Executable else Mode_Regular)\<rparr>"
| "viewed_of_entry (TreeEntry_Symlink oid) = Viewed_Blob \<lparr>be_oid = oid, be_mode = Mode_Symlink\<rparr>"
| "viewed_of_entry (TreeEntry_Submodule commit) = Viewed_Submodule commit"
| "viewed_of_entry (TreeEntry_Dir _) = Viewed_Missing"

definition head_content :: "env \<Rightarrow> review_id \<Rightarrow> repo_id \<Rightarrow> repo_path \<Rightarrow> viewed_content op" where
  "head_content E rid repo_id path =
     bindO (core_resolved rid) (\<lambda>(_, resolved).
     bindO (liftO (core_target resolved repo_id)) (\<lambda>target.
     bindO (review_repo E rid repo_id) (\<lambda>repo.
     bindO (gitO (gr_tree_snapshot repo repo_id (rr_tree (rs_head target)))) (\<lambda>snap.
       retO (case find (\<lambda>e. te_path e = path) (ts_entries snap) of
               None \<Rightarrow> Viewed_Missing
             | Some e \<Rightarrow> viewed_of_entry (te_kind e))))))"

definition mark_viewed :: "env \<Rightarrow> ctx \<Rightarrow> review_id \<Rightarrow> repo_id \<Rightarrow> repo_path \<Rightarrow> viewed_mark op" where
  "mark_viewed E ctx rid repo_id path =
     bindO (liftO (ok_or (Forbidden AgentsCannotMarkViewed) (as_human (cx_author ctx)))) (\<lambda>viewer.
     bindO (head_content E rid repo_id path) (\<lambda>content.
     bindO (core_append ctx (FileViewed rid repo_id path viewer content)) (\<lambda>_.
       retO \<lparr>vm_review_id = rid, vm_repo_id = repo_id, vm_path = path, vm_viewer = viewer,
             vm_content = content\<rparr>)))"

definition unmark_viewed :: "ctx \<Rightarrow> review_id \<Rightarrow> repo_id \<Rightarrow> repo_path \<Rightarrow> unit op" where
  "unmark_viewed ctx rid repo_id path =
     bindO (liftO (ok_or (Forbidden AgentsCannotMarkViewed) (as_human (cx_author ctx)))) (\<lambda>viewer.
     bindO (core_review rid) (\<lambda>_.
     bindO (core_append ctx (FileUnviewed rid repo_id path viewer)) (\<lambda>_. retO ())))"

datatype viewed_state =
    ViewedState_Unviewed
  | ViewedState_Viewed
  | ViewedState_ChangedSinceViewed viewed_content

definition viewed_state_of :: "env \<Rightarrow> review_id \<Rightarrow> repo_id \<Rightarrow> repo_path \<Rightarrow> viewed_state op" where
  "viewed_state_of E rid repo_id path =
     bindO (readO (\<lambda>c. Inr (find (\<lambda>m. vm_repo_id m = repo_id \<and> vm_path m = path)
              (store_viewed (co_store c) rid)))) (\<lambda>found.
       case found of
         None \<Rightarrow> retO ViewedState_Unviewed
       | Some mark \<Rightarrow>
           bindO (head_content E rid repo_id path) (\<lambda>current.
             retO (if current = vm_content mark then ViewedState_Viewed
                   else ViewedState_ChangedSinceViewed (vm_content mark))))"

section \<open>Working trees\<close>

definition watches_working_tree :: "review \<Rightarrow> repo_id \<Rightarrow> bool" where
  "watches_working_tree review repo_id \<longleftrightarrow>
     (case rv_status review of
        Status_Open \<Rightarrow>
          list_ex (\<lambda>t. rt_repo_id t = repo_id \<and> (rt_base t = RefSpec_WorkingTree \<or> rt_head t = RefSpec_WorkingTree))
            (ne_items (rv_targets review))
      | Status_Archived \<Rightarrow> False)"

definition working_tree_reviews :: "repo_id \<Rightarrow> review_id list op" where
  "working_tree_reviews repo_id =
     readO (\<lambda>c. Inr (concat (map (\<lambda>ws.
       map (\<lambda>rec. rv_id (rec_review rec))
         (filter (\<lambda>rec. is_live rec \<and> watches_working_tree (rec_review rec) repo_id)
           (store_reviews (co_store c) (ws_id ws)))) (store_workspaces (co_store c)))))"

definition refresh_working_tree_review :: "env \<Rightarrow> ctx \<Rightarrow> review_id \<Rightarrow> repo_id \<Rightarrow> unit op" where
  "refresh_working_tree_review E ctx rid repo_id =
     bindO (core_review rid) (\<lambda>rec.
       if watches_working_tree (rec_review rec) repo_id
       then bindO (resolve_targets E ctx rid) (\<lambda>_. retO ()) else retO ())"

section \<open>Checkpoints\<close>

definition validate_round :: "review_snapshot \<Rightarrow> review_round option \<Rightarrow> (core_error, unit) result" where
  "validate_round snapshot round =
     (if (case round of
            Some (Round_Request request_id) \<Rightarrow> list_ex (\<lambda>q. rq_id q = request_id) (sn_requests snapshot)
          | Some (Round_Checkpoint checkpoint_id) \<Rightarrow> list_ex (\<lambda>cp. cp_id cp = checkpoint_id) (sn_checkpoints snapshot)
          | None \<Rightarrow> True)
      then Inr () else Inl (Invalid RoundNotInReview))"

definition captured_in :: "repo_id \<Rightarrow> resolved_ref \<Rightarrow> resolved_target list \<Rightarrow> bool" where
  "captured_in repo_id revision ts \<longleftrightarrow>
     list_ex (\<lambda>known. rs_repo_id known = repo_id \<and> (rs_base known = revision \<or> rs_head known = revision)) ts"

definition requested_target_list :: "review_request \<Rightarrow> resolved_target list" where
  "requested_target_list q =
     (case rq_targets q of Requested_Unknown \<Rightarrow> [] | Requested_Captured ts \<Rightarrow> ne_items ts)"

definition snapshot_targets :: "review_snapshot \<Rightarrow> resolved_target list" where
  "snapshot_targets snapshot =
     (case sn_resolved snapshot of None \<Rightarrow> [] | Some ts \<Rightarrow> ne_items ts)
     @ concat (map requested_target_list (sn_requests snapshot))
     @ concat (map (\<lambda>cp. ne_items (cp_targets cp)) (sn_checkpoints snapshot))"

fun resolved_event_targets :: "review_id \<Rightarrow> event_body \<Rightarrow> resolved_target list" where
  "resolved_event_targets rid (ReviewTargetsResolved captured targets) =
     (if captured = rid then ne_items targets else [])"
| "resolved_event_targets rid _ = []"

definition check_revision :: "review_snapshot \<Rightarrow> review_id \<Rightarrow> git_repo \<Rightarrow> repo_id \<Rightarrow> resolved_ref \<Rightarrow> unit op" where
  "check_revision snapshot rid repo repo_id revision =
     (case rr_source revision of
        Source_Commit oid \<Rightarrow>
          bindO (gitO (gr_resolve repo (RefSpec_Commit oid))) (\<lambda>r.
            guardO (rr_tree r = rr_tree revision) (Invalid CommitTreeDisagree))
      | Source_WorkingTree _ _ _ \<Rightarrow>
          readO (\<lambda>c.
            if captured_in repo_id revision (snapshot_targets snapshot)
               \<or> list_ex (\<lambda>e. captured_in repo_id revision (resolved_event_targets rid (ev_body e)))
                   (events_after None (co_store c))
            then Inr () else Inl (Invalid WorkingTreeNotCaptured)))"

definition covers_repositories :: "resolved_target nonempty \<Rightarrow> review \<Rightarrow> bool" where
  "covers_repositories targets review \<longleftrightarrow>
     set (map rs_repo_id (ne_items targets)) = set (map rt_repo_id (ne_items (rv_targets review)))
     \<and> card (set (map rs_repo_id (ne_items targets))) = ne_len targets"

definition record_checkpoint :: "env \<Rightarrow> ctx \<Rightarrow> review_id \<Rightarrow> resolved_target nonempty \<Rightarrow> review_round option
    \<Rightarrow> review_checkpoint_id op" where
  "record_checkpoint E ctx rid targets in_reply_to =
     bindO (core_review_snapshot rid) (\<lambda>snapshot.
     bindO (liftO (ok_or (Forbidden DaemonCannotReview) (reviewer_from_author (cx_author ctx)))) (\<lambda>reviewer.
     bindO (guardO (covers_repositories targets (sn_review snapshot)) (Invalid CheckMustCoverRepos)) (\<lambda>_.
     bindO (liftO (validate_round snapshot in_reply_to)) (\<lambda>_.
     bindO (forO (\<lambda>t.
       bindO (review_repo E rid (rs_repo_id t)) (\<lambda>repo.
       bindO (check_revision snapshot rid repo (rs_repo_id t) (rs_base t)) (\<lambda>_.
         check_revision snapshot rid repo (rs_repo_id t) (rs_head t)))) (ne_items targets)) (\<lambda>_.
     bindO (retain_targets E rid targets) (\<lambda>_.
     bindO (core_append ctx (ReviewChecked rid reviewer targets in_reply_to)) (\<lambda>event.
       retO (ReviewCheckpointId (ev_seq event)))))))))"

end
