(* ===== verification/Nits_Review_Laws.thy ===== *)
theory Nits_Review_Laws
  imports Nits_Review_Ops
begin

text \<open>
  What the review operations guarantee: every event they append is one the store's invariants
  admit, resolving targets twice is resolving them once, a viewed mark is the content it was
  given for, a deleted review is gone, a failed preflight leaves no trace, and a checkpoint
  names real revisions of exactly the review's repositories.
\<close>

section \<open>Operations that only read\<close>

lemma readonly_core_repo [intro, simp]: "readonly (core_repo E rid)"
  by (simp add: core_repo_def)

lemma readonly_retain_targets [intro, simp]: "readonly (retain_targets E review targets)"
  unfolding retain_targets_def by (intro readonly_bindO readonly_forO) auto

lemma readonly_resolve_one [intro, simp]: "readonly (resolve_one E wid t)"
  unfolding resolve_one_def by (intro readonly_bindO) auto

lemma readonly_resolve_review_targets [intro, simp]: "readonly (resolve_review_targets E review)"
  unfolding resolve_review_targets_def by (intro readonly_bindO readonly_forO) auto

lemma readonly_core_resolved [intro, simp]: "readonly (core_resolved rid)"
  unfolding core_resolved_def by (intro readonly_bindO) auto

lemma readonly_head_content [intro, simp]: "readonly (head_content E rid repo_id path)"
  unfolding head_content_def split_beta by (intro readonly_bindO) auto

lemma readonly_viewed_state_of [intro, simp]: "readonly (viewed_state_of E rid repo_id path)"
  unfolding viewed_state_of_def by (intro readonly_bindO) (auto split: option.split)

lemma readonly_check_revision [intro, simp]: "readonly (check_revision sn rid repo repo_id revision)"
  unfolding check_revision_def by (cases "rr_source revision") auto

section \<open>Review operations are validated\<close>

lemmas keeps_rules = validated_client.keeps_readonly validated_client.keeps_append

lemma keeps_reanchor_each: "validated_client.keeps (reanchor_each E ctx review old new cache cs)"
proof (induction cs arbitrary: cache)
  case (Cons c cs)
  have moved: "validated_client.keeps (bindO (core_append ctx (CommentReanchored review (cm_id c) a st))
      (\<lambda>_. bindO (reanchor_each E ctx review old new cache' cs) (\<lambda>moved. retO (cm_id c # moved))))"
    for a st cache'
    by (intro validated_client.keeps_bindO Cons.IH) (simp_all add: keeps_rules)
  show ?case
    by (auto simp: Let_def keeps_rules Cons.IH moved split: option.split reanchor.split
        intro!: validated_client.keeps_bindO)
qed (simp add: keeps_rules)

lemma keeps_reanchor_review: "validated_client.keeps (reanchor_review E ctx review old new)"
  unfolding reanchor_review_def
  by (intro validated_client.keeps_bindO) (simp_all add: keeps_rules keeps_reanchor_each)

lemma keeps_record_resolved_targets:
  "validated_client.keeps (record_resolved_targets E ctx rec resolved)"
  unfolding record_resolved_targets_def
  by (auto simp: keeps_rules keeps_reanchor_review split: option.split
      intro!: validated_client.keeps_bindO)

lemma keeps_resolve_targets: "validated_client.keeps (resolve_targets E ctx rid)"
  unfolding resolve_targets_def
  by (intro validated_client.keeps_bindO) (simp_all add: keeps_rules keeps_record_resolved_targets)

lemma keeps_create_review: "validated_client.keeps (create_review E ctx rid wid title targets)"
proof -
  let ?ws = "\<lambda>s. tbl_get (v_workspaces (st_views s)) (workspace_key wid) \<noteq> None"
  have known: "validated_client.triple (\<lambda>_. True) (core_workspace wid) (\<lambda>_. ?ws)"
    by (rule validated_client.triple_learn) (auto simp: core_workspace_Inr store_workspace_def)
  have tail: "validated_client.triple ?ws (bindO (core_append ctx (ReviewCreated rv))
      (\<lambda>_. bindO (resolve_targets E ctx rid) (\<lambda>(r, _). retO (f r)))) (\<lambda>_ _. True)"
    if "rv_workspace_id rv = wid" for rv and f :: "_ \<Rightarrow> review_record"
    by (intro validated_client.triple_bindO [OF validated_client.triple_append]
        validated_client.keeps_triple validated_client.keeps_bindO)
      (simp_all add: that keeps_rules keeps_resolve_targets split: prod.split)
  have "validated_client.triple (\<lambda>_. True) (create_review E ctx rid wid title targets) (\<lambda>_ _. True)"
    unfolding create_review_def Let_def
    apply (rule validated_client.triple_bindO [OF validated_client.triple_readonly], simp)
    apply (rule validated_client.triple_bindO [OF known])
    by (intro validated_client.triple_bindO [OF validated_client.triple_readonly] tail readonly_forO; simp)
  then show ?thesis by (simp add: validated_client.keeps_def)
qed

lemma keeps_update_review: "validated_client.keeps (update_review E ctx rid title status)"
  unfolding update_review_def
  by (intro validated_client.keeps_bindO)
    (auto simp: keeps_rules keeps_record_resolved_targets split: option.split
      intro!: validated_client.keeps_bindO)

lemma keeps_update_review_target: "validated_client.keeps (update_review_target E ctx rid update)"
  unfolding update_review_target_def Let_def
  by (intro validated_client.keeps_bindO) (simp_all add: keeps_rules keeps_resolve_targets)

lemma keeps_review_ops:
  "validated_client.keeps (delete_review ctx rid)"
  "validated_client.keeps (mark_viewed E ctx rid repo_id path)"
  "validated_client.keeps (unmark_viewed ctx rid repo_id path)"
  "validated_client.keeps (record_checkpoint E ctx rid targets in_reply_to)"
  unfolding delete_review_def mark_viewed_def unmark_viewed_def record_checkpoint_def
  by (intro validated_client.keeps_bindO validated_client.keeps_forO; simp add: keeps_rules)+

lemma keeps_refresh: "validated_client.keeps (refresh_working_tree_review E ctx rid repo_id)"
  unfolding refresh_working_tree_review_def
  by (auto simp: keeps_rules keeps_resolve_targets intro!: validated_client.keeps_bindO)

section \<open>A small review\<close>

text \<open>
  A checkout with one file in which every revision resolves to the same commit, and the core
  after a workspace and a review of it were created.
\<close>

definition sample_git :: git_repo where
  "sample_git =
     \<lparr>gr_blob = (\<lambda>_. Inr ''a''),
      gr_resolve = (\<lambda>_. Inr \<lparr>rr_tree = TreeOid (Oid [1]), rr_source = Source_Commit (CommitOid (Oid [2]))\<rparr>),
      gr_tree_snapshot = (\<lambda>p t. Inr \<lparr>ts_repo_id = p, ts_root_oid = t,
        ts_entries = [\<lparr>te_path = RepoPath ''f'', te_kind = TreeEntry_File (BlobOid (Oid [7])) 1 False\<rparr>]\<rparr>),
      gr_changed_files = (\<lambda>_ _. Inr []),
      gr_commit_info = (\<lambda>_. Inl (GitError ''none'')),
      gr_commits_between = (\<lambda>_ _. Inr []),
      gr_retain_revision = (\<lambda>_ _. Inr ()),
      gr_hash_blob = (\<lambda>_. Inr (BlobOid (Oid [8]))),
      gr_worktree_metadata = Inr ''/w/.git'',
      gr_read_file = (\<lambda>_. Inr ''a''),
      gr_replace_file = (\<lambda>_ _ _ _. Inr ())\<rparr>"

definition sample_env :: env where
  "sample_env =
     \<lparr>en_canonicalize = Some, en_open = (\<lambda>path. Inr \<lparr>or_checkout = path, or_git = sample_git\<rparr>),
      en_libs = replace_libs\<rparr>"

definition sample_ctx :: ctx where
  "sample_ctx =
     \<lparr>cx_author = Author_Human ''ada'' ''m'', cx_client_id = ClientId (Ulid 9 9), cx_client_seq = 1, cx_now = 5\<rparr>"

definition sample_start :: "unit op" where
  "sample_start =
     bindO (create_workspace_with_repo sample_env sample_ctx (WorkspaceId (Ulid 1 1)) (RepoId (Ulid 3 3)) ''/w'' ''w'') (\<lambda>_.
     bindO (create_review sample_env sample_ctx (ReviewId (Ulid 2 2)) (WorkspaceId (Ulid 1 1)) ''t''
              [\<lparr>rt_repo_id = RepoId (Ulid 3 3), rt_base = RefSpec_Branch ''b'', rt_head = RefSpec_WorkingTree\<rparr>]) (\<lambda>_.
       retO ()))"

definition sample_core :: core where
  "sample_core = snd (sample_start \<lparr>co_store = fresh_store, co_opened = Map.empty\<rparr>)"

lemma sample_core_reachable: "reachable_by validated (co_store sample_core)"
proof -
  have "validated_client.keeps sample_start"
    unfolding sample_start_def
    by (intro validated_client.keeps_bindO) (simp_all add: keeps_workspace_ops keeps_create_review keeps_rules)
  from validated_client.keepsD [OF this, of "\<lparr>co_store = fresh_store, co_opened = Map.empty\<rparr>"]
  show ?thesis by (simp add: sample_core_def reachable_fresh_store)
qed

section \<open>Parts of the store an operation leaves alone\<close>

definition preserves :: "(store \<Rightarrow> 'b) \<Rightarrow> 'a op \<Rightarrow> bool" where
  "preserves f m \<longleftrightarrow> (\<forall>c. f (co_store (snd (m c))) = f (co_store c))"

lemma preservesD: "preserves f m \<Longrightarrow> m c = (r, c') \<Longrightarrow> f (co_store c') = f (co_store c)"
  by (metis preserves_def snd_conv)

lemma preserves_readonly: "readonly m \<Longrightarrow> preserves f m"
  by (simp add: preserves_def readonly_def)

lemma preserves_bindO: "preserves f m \<Longrightarrow> (\<And>x. preserves f (g x)) \<Longrightarrow> preserves f (bindO m g)"
  unfolding preserves_def bindO_def by (simp split: sum.split prod.split) (metis snd_conv)

lemma preserves_append:
  "(\<And>e t t'. apply_body e body t = Inr t' \<Longrightarrow> f t' = f t) \<Longrightarrow>
     preserves (\<lambda>s. f (st_views s)) (core_append ctx body)"
  by (auto simp: preserves_def core_append_def append_Inr_iff apply_event_def event_at_def
      split: sum.split prod.split)

lemma preserves_reanchor_each:
  assumes "\<And>cid a st. preserves f (core_append ctx (CommentReanchored review cid a st))"
  shows "preserves f (reanchor_each E ctx review old new cache cs)"
proof (induction cs arbitrary: cache)
  case (Cons c cs)
  have moved: "preserves f (bindO (core_append ctx (CommentReanchored review (cm_id c) a st))
      (\<lambda>_. bindO (reanchor_each E ctx review old new cache' cs) (\<lambda>moved. retO (cm_id c # moved))))"
    for a st cache'
    by (intro preserves_bindO Cons.IH assms) (simp add: preserves_readonly)
  show ?case
    by (auto simp: Let_def preserves_readonly Cons.IH moved split: option.split reanchor.split
        intro!: preserves_bindO)
qed (simp add: preserves_readonly)

lemma reanchored_rows:
  assumes "apply_body e (CommentReanchored review cid a st) t = Inr t'"
  shows "v_workspaces t' = v_workspaces t" "v_reviews t' = v_reviews t"
  using assms by (auto simp: result_simps)

lemma reanchor_review_keeps_reviews:
  "preserves (\<lambda>s. v_reviews (st_views s)) (reanchor_review E ctx review old new)"
  unfolding reanchor_review_def
  by (intro preserves_bindO preserves_reanchor_each preserves_append)
    (simp_all only: reanchored_rows preserves_readonly readonly_basic)

section \<open>The registry is a cache\<close>

text \<open>
  Two states between which no repository changed: the workspaces are the same and every
  repository id is bound to the same checkout.
\<close>

definition same_repos :: "env \<Rightarrow> core \<Rightarrow> core \<Rightarrow> bool" where
  "same_repos E c d \<longleftrightarrow>
     v_workspaces (st_views (co_store d)) = v_workspaces (st_views (co_store c))
     \<and> (\<forall>rid. bound_repo E d rid = bound_repo E c rid)"

lemma same_repos_refl [simp]: "same_repos E c c"
  by (simp add: same_repos_def)

text \<open>The checkout a membership is opened at, through the cache.\<close>

definition member_checkout :: "env \<Rightarrow> (repo_id \<rightharpoonup> opened_repo) \<Rightarrow> repo_id \<Rightarrow> string \<Rightarrow> (git_error, opened_repo) result" where
  "member_checkout E reg rid path =
     (case reg rid of
        Some cached \<Rightarrow> if or_checkout cached = path then Inr cached else en_open E path
      | None \<Rightarrow> en_open E path)"

lemma bind_member_Inr_iff:
  "bind_member E reg rid (wid, member) bound = Inr b' \<longleftrightarrow>
     (\<exists>path opened. en_canonicalize E (rp_path member) = Some path
        \<and> member_checkout E reg rid path = Inr opened
        \<and> (case bound of
             None \<Rightarrow> b' = Some (wid, opened)
           | Some (owner, previous) \<Rightarrow> or_checkout previous = or_checkout opened \<and> b' = bound))"
proof -
  have "(case reg rid of
           Some cached \<Rightarrow> if or_checkout cached = path then Inr cached
             else map_err (\<lambda>_. Invalid (RepoCannotOpen rid wid (rp_path member))) (en_open E path)
         | None \<Rightarrow> map_err (\<lambda>_. Invalid (RepoCannotOpen rid wid (rp_path member))) (en_open E path))
      = map_err (\<lambda>_. Invalid (RepoCannotOpen rid wid (rp_path member))) (member_checkout E reg rid path)"
    for path by (simp add: member_checkout_def split: option.split)
  then show ?thesis
    unfolding bind_member_def prod.case
    by (cases bound) (auto simp: result_simps split: if_splits)
qed

lemma member_checkout_cached:
  "member_checkout E reg rid path = Inr o1 \<Longrightarrow> or_checkout opened = or_checkout o1 \<Longrightarrow>
     \<exists>o2. member_checkout E (reg(rid \<mapsto> opened)) rid path = Inr o2 \<and> or_checkout o2 = or_checkout o1"
  by (auto simp: member_checkout_def split: option.splits if_splits)

lemma member_checkout_same:
  "member_checkout E reg rid path = Inr opened \<Longrightarrow>
     member_checkout E (reg(rid \<mapsto> opened)) rid path = Inr opened"
  by (auto simp: member_checkout_def split: option.splits if_splits)

lemma bind_member_cached:
  assumes "bind_member E reg rid m bound = Inr (Some (w, opened))"
  shows "bind_member E (reg(rid \<mapsto> opened)) rid m bound = Inr (Some (w, opened))"
proof -
  obtain wid member where m: "m = (wid, member)" by (cases m)
  from assms obtain path o1 where o1: "en_canonicalize E (rp_path member) = Some path"
    "member_checkout E reg rid path = Inr o1"
    "case bound of None \<Rightarrow> Some (w, opened) = Some (wid, o1)
       | Some (owner, previous) \<Rightarrow> or_checkout previous = or_checkout o1 \<and> Some (w, opened) = bound"
    unfolding m bind_member_Inr_iff by blast
  show ?thesis
  proof (cases bound)
    case None
    with o1 member_checkout_same show ?thesis unfolding m bind_member_Inr_iff by fastforce
  next
    case (Some b)
    with o1 have "or_checkout opened = or_checkout o1" "bound = Some (w, opened)" by auto
    with o1 member_checkout_cached [OF o1(2)] show ?thesis unfolding m bind_member_Inr_iff by fastforce
  qed
qed

lemma bind_member_bound:
  "bind_member E reg rid m (Some b) = Inr b' \<Longrightarrow> b' = Some b"
  by (cases m; cases b) (auto simp: bind_member_Inr_iff)

lemma bind_member_None: "bind_member E reg rid m None = Inr b \<Longrightarrow> \<exists>x. b = Some x"
  by (cases m) (auto simp: bind_member_Inr_iff)

lemma fold_members_bound:
  "foldR (bind_member E reg rid) ms (Some b) = Inr b' \<Longrightarrow> b' = Some b"
  by (induction ms) (auto simp: result_simps dest!: bind_member_bound)

lemma fold_members_cached_bound:
  "foldR (bind_member E reg rid) ms (Some (w, opened)) = Inr (Some (w, opened)) \<Longrightarrow>
     foldR (bind_member E (reg(rid \<mapsto> opened)) rid) ms (Some (w, opened)) = Inr (Some (w, opened))"
proof (induction ms)
  case (Cons m ms)
  then obtain b where b: "bind_member E reg rid m (Some (w, opened)) = Inr b"
    "foldR (bind_member E reg rid) ms b = Inr (Some (w, opened))"
    by (auto simp: result_simps)
  with bind_member_bound have "b = Some (w, opened)" by blast
  with b have "bind_member E (reg(rid \<mapsto> opened)) rid m (Some (w, opened)) = Inr (Some (w, opened))"
    "foldR (bind_member E (reg(rid \<mapsto> opened)) rid) ms (Some (w, opened)) = Inr (Some (w, opened))"
    by (simp_all only: bind_member_cached Cons.IH)
  then show ?case by (simp only: foldR.simps bindR_simps)
qed simp

lemma fold_members_cached:
  assumes "foldR (bind_member E reg rid) ms None = Inr (Some (w, opened))"
  shows "foldR (bind_member E (reg(rid \<mapsto> opened)) rid) ms None = Inr (Some (w, opened))"
proof (cases ms)
  case (Cons m ms')
  with assms obtain b where b: "bind_member E reg rid m None = Inr b"
    "foldR (bind_member E reg rid) ms' b = Inr (Some (w, opened))"
    by (auto simp: result_simps)
  then have "b = Some (w, opened)" using bind_member_None fold_members_bound by metis
  with b have "bind_member E (reg(rid \<mapsto> opened)) rid m None = Inr (Some (w, opened))"
    "foldR (bind_member E (reg(rid \<mapsto> opened)) rid) ms' (Some (w, opened)) = Inr (Some (w, opened))"
    by (simp_all only: bind_member_cached fold_members_cached_bound)
  then show ?thesis by (simp only: Cons foldR.simps bindR_simps)
qed (use assms in simp)

lemma bound_repo_other:
  "rid' \<noteq> rid \<Longrightarrow> bound_repo E (c\<lparr>co_opened := (co_opened c)(rid := o1)\<rparr>) rid' = bound_repo E c rid'"
proof -
  assume "rid' \<noteq> rid"
  then have "bind_member E ((co_opened c)(rid := o1)) rid' = bind_member E (co_opened c) rid'"
    by (intro ext) (simp add: bind_member_def)
  then show ?thesis by (simp add: bound_repo_def)
qed

lemma bound_repo_cached:
  assumes "bound_repo E c rid = Inr (Some opened)"
  shows "same_repos E c (c\<lparr>co_opened := (co_opened c)(rid \<mapsto> opened)\<rparr>)"
proof -
  from assms obtain w where
    "foldR (bind_member E (co_opened c) rid) (memberships (store_workspaces (co_store c)) rid) None
       = Inr (Some (w, opened))"
    by (auto simp: bound_repo_def result_simps)
  from fold_members_cached [OF this]
  have "bound_repo E (c\<lparr>co_opened := (co_opened c)(rid \<mapsto> opened)\<rparr>) rid = bound_repo E c rid"
    using assms by (simp add: bound_repo_def)
  then have "bound_repo E (c\<lparr>co_opened := (co_opened c)(rid \<mapsto> opened)\<rparr>) rid' = bound_repo E c rid'" for rid'
    by (cases "rid' = rid") (simp_all add: bound_repo_other)
  then show ?thesis by (simp add: same_repos_def)
qed

text \<open>
  What an operation observes of the state: under an equivalence of states, an operation is
  stable when it stays in its class, and determined when its result is that of the class.
\<close>

locale observation =
  fixes R :: "core \<Rightarrow> core \<Rightarrow> bool"
  assumes R_refl: "R c c"
    and R_sym: "R c d \<Longrightarrow> R d c"
    and R_trans: "R c d \<Longrightarrow> R d e \<Longrightarrow> R c e"
begin

definition stable :: "'a op \<Rightarrow> bool" where
  "stable m \<longleftrightarrow> (\<forall>c. R c (snd (m c)))"

definition determined :: "'a op \<Rightarrow> bool" where
  "determined m \<longleftrightarrow> stable m \<and> (\<forall>c d. R c d \<longrightarrow> fst (m c) = fst (m d))"

lemma stableD: "stable m \<Longrightarrow> m c = (r, c') \<Longrightarrow> R c c'"
  by (metis stable_def snd_conv)

lemma determinedD: "determined m \<Longrightarrow> R c d \<Longrightarrow> fst (m c) = fst (m d)"
  by (simp add: determined_def)

lemma stable_determined: "determined m \<Longrightarrow> stable m"
  by (simp add: determined_def)

lemma determined_basic:
  "determined (retO x)" "determined (failO e)" "determined (liftO r)" "determined (guardO b e)"
  "determined (gitO g)"
  by (simp_all add: determined_def stable_def R_refl)

lemma stable_basic: "stable (retO x)" "stable (readO f)" "stable (liftO r)" "stable (gitO g)"
  by (simp_all add: stable_def R_refl)

lemma stable_bindO: "stable m \<Longrightarrow> (\<And>x. stable (f x)) \<Longrightarrow> stable (bindO m f)"
  unfolding stable_def bindO_def
  by (simp split: sum.split prod.split) (metis R_trans snd_conv)

lemma stable_forO: "(\<And>x. stable (f x)) \<Longrightarrow> stable (forO f xs)"
  by (induction xs) (auto simp: stable_basic intro!: stable_bindO)

lemma determined_bindO:
  assumes "determined m" "\<And>x. determined (f x)"
  shows "determined (bindO m f)"
proof -
  have st: "stable (bindO m f)"
    using assms by (auto intro: stable_bindO stable_determined)
  have "fst (bindO m f c) = fst (bindO m f d)" if cd: "R c d" for c d
  proof -
    obtain r c1 where c1: "m c = (r, c1)" by fastforce
    obtain r' d1 where d1: "m d = (r', d1)" by fastforce
    have r: "r' = r" using determinedD [OF assms(1) cd] c1 d1 by simp
    have "R c c1" "R d d1" using stableD [OF stable_determined [OF assms(1)]] c1 d1 by auto
    then have s: "R c1 d1" using cd R_trans R_sym by blast
    show ?thesis
    proof (cases r)
      case (Inr x)
      then show ?thesis using c1 d1 r determinedD [OF assms(2) s] by simp
    qed (use c1 d1 r in simp)
  qed
  with st show ?thesis by (simp add: determined_def)
qed

lemma determined_forO: "(\<And>x. determined (f x)) \<Longrightarrow> determined (forO f xs)"
  by (induction xs) (auto intro!: determined_bindO determined_basic)

lemma stable_append:
  "(\<And>c e c'. core_append ctx body c = (Inr e, c') \<Longrightarrow> R c c') \<Longrightarrow> stable (core_append ctx body)"
  unfolding stable_def core_append_def by (simp add: R_refl split: sum.split prod.split)

end

interpretation repos: observation "same_repos E" for E
  by unfold_locales (simp_all add: same_repos_def)

text \<open>States that agree on the reviews as well.\<close>

definition same_rows :: "env \<Rightarrow> core \<Rightarrow> core \<Rightarrow> bool" where
  "same_rows E c d \<longleftrightarrow>
     same_repos E c d \<and> v_reviews (st_views (co_store d)) = v_reviews (st_views (co_store c))"

interpretation rows: observation "same_rows E" for E
  by unfold_locales (simp_all add: same_rows_def same_repos_def)

lemma rows_determined: "repos.determined E m \<Longrightarrow> readonly m \<Longrightarrow> rows.determined E m"
  by (simp add: repos.determined_def rows.determined_def repos.stable_def rows.stable_def same_rows_def
      readonly_def)

lemma determined_core_workspace [simp, intro]: "repos.determined E (core_workspace wid)"
  by (auto simp: repos.determined_def core_workspace_def store_workspace_def same_repos_def repos.stable_def)

lemma determined_lookup_repo [simp, intro]: "repos.determined E (lookup_repo E rid)"
proof -
  have "same_repos E c (snd (lookup_repo E rid c))" for c
  proof (cases "bound_repo E c rid")
    case (Inr b)
    then show ?thesis by (cases b) (auto simp: lookup_repo_def bindO_def intro: bound_repo_cached)
  qed (simp add: lookup_repo_def bindO_def)
  moreover have "fst (lookup_repo E rid c) = fst (lookup_repo E rid d)" if "same_repos E c d" for c d
    using that by (simp add: same_repos_def lookup_repo_def bindO_def split: sum.split)
  ultimately show ?thesis by (simp add: repos.determined_def repos.stable_def)
qed

lemma determined_workspace_repo [simp, intro]: "repos.determined E (workspace_repo E wid rid)"
  unfolding workspace_repo_def by (intro repos.determined_bindO) (auto intro: repos.determined_basic)

lemma determined_resolve_review_targets [simp, intro]:
  "repos.determined E (resolve_review_targets E review)"
  unfolding resolve_review_targets_def resolve_one_def
  by (intro repos.determined_bindO repos.determined_forO) (auto intro: repos.determined_basic)

lemma determined_core_review [simp, intro]: "rows.determined E (core_review rid)"
  by (simp add: rows.determined_def rows.stable_def core_review_def store_review_def same_rows_def)

lemma determined_review_repo [simp, intro]: "rows.determined E (review_repo E review rid)"
  unfolding review_repo_def
  by (intro rows.determined_bindO) (auto intro: rows.determined_basic rows_determined)

lemma determined_head_content [simp, intro]: "rows.determined E (head_content E rid repo_id path)"
  unfolding head_content_def core_resolved_def split_beta
  by (intro rows.determined_bindO) (auto intro: rows.determined_basic)

lemma repos_stable: "rows.stable E m \<Longrightarrow> repos.stable E m"
  by (simp add: repos.stable_def rows.stable_def same_rows_def)

lemma stable_review_repo: "repos.stable E (review_repo E review rid)"
  by (intro repos_stable rows.stable_determined) simp

lemma stable_retain_targets [simp, intro]: "repos.stable E (retain_targets E review targets)"
  unfolding retain_targets_def
  by (intro repos.stable_bindO repos.stable_forO)
    (auto simp: repos.stable_basic stable_review_repo)

lemma append_same_repos:
  assumes "\<And>e t t'. apply_body e body t = Inr t' \<Longrightarrow> v_workspaces t' = v_workspaces t"
    and "core_append ctx body c = (Inr e, c')"
  shows "same_repos E c c'"
proof -
  have "v_workspaces (st_views (co_store c')) = v_workspaces (st_views (co_store c))"
    using preservesD [OF preserves_append [of body v_workspaces ctx] assms(2)] assms(1) by simp
  moreover have "co_opened c' = co_opened c" using assms(2) by (auto simp: core_append_Inr)
  ultimately show ?thesis by (simp add: same_repos_def bound_repo_def store_workspaces_def)
qed

lemma stable_reanchor_each: "repos.stable E (reanchor_each E ctx review old new cache cs)"
proof (induction cs arbitrary: cache)
  case (Cons c cs)
  have moved: "repos.stable E (bindO (core_append ctx (CommentReanchored review (cm_id c) a st))
      (\<lambda>_. bindO (reanchor_each E ctx review old new cache' cs) (\<lambda>moved. retO (cm_id c # moved))))"
    for a st cache'
    by (intro repos.stable_bindO Cons.IH repos.stable_append append_same_repos reanchored_rows)
      (auto intro: repos.stable_determined repos.determined_basic)
  show ?case
    by (auto simp: Let_def Cons.IH moved repos.stable_basic stable_review_repo
        split: option.split reanchor.split intro!: repos.stable_bindO)
qed (simp add: repos.stable_basic)

lemma stable_record_resolved_targets: "repos.stable E (record_resolved_targets E ctx rec resolved)"
proof -
  have "repos.stable E (core_append ctx (ReviewTargetsResolved rid resolved))" for rid
    by (intro repos.stable_append append_same_repos) (auto simp: result_simps save_review_def)
  then show ?thesis
    unfolding record_resolved_targets_def reanchor_review_def
    by (auto simp: stable_reanchor_each repos.stable_basic repos.stable_determined repos.determined_basic
        split: option.split intro!: repos.stable_bindO)
qed

section \<open>Resolving targets\<close>

lemma core_append_row:
  assumes "core_append ctx body c = (Inr e, c')"
  shows "\<exists>t. apply_body e body (st_views (co_store c)) = Inr t \<and> st_views (co_store c') = t
    \<and> ev_seq e = next_seq (co_store c) \<and> ev_ts e = cx_now ctx \<and> ev_author e = cx_author ctx \<and> ev_body e = body
    \<and> co_opened c' = co_opened c"
  using assms by (auto simp: core_append_Inr append_Inr_iff apply_event_def event_at_def)

lemma record_resolved_row:
  assumes row: "store_review (co_store c) (rv_id (rec_review rec)) = Some rec"
    and run: "record_resolved_targets E ctx rec resolved c = (Inr changed, c')"
  shows "store_review (co_store c') (rv_id (rec_review rec)) = Some (rec\<lparr>rec_resolved := Some resolved\<rparr>)
    \<and> changed = (rec_resolved rec \<noteq> Some resolved) \<and> (\<not> changed \<longrightarrow> c' = c)"
proof (cases "rec_resolved rec = Some resolved")
  case True
  then show ?thesis using row run by (auto simp: record_resolved_targets_def)
next
  case False
  let ?rid = "rv_id (rec_review rec)"
  from run False obtain c1 e c2 x where
    c1: "retain_targets E ?rid resolved c = (Inr (), c1)" and
    c2: "core_append ctx (ReviewTargetsResolved ?rid resolved) c1 = (Inr e, c2)" and
    c3: "(case rec_resolved rec of None \<Rightarrow> retO []
          | Some old \<Rightarrow> reanchor_review E ctx ?rid old resolved) c2 = (Inr x, c')" and "changed"
    by (auto simp: record_resolved_targets_def result_simps)
  have "store_review (co_store c1) ?rid = Some rec"
    using row readonlyD [OF readonly_retain_targets c1] by simp
  then have "store_review (co_store c2) ?rid = Some (rec\<lparr>rec_resolved := Some resolved\<rparr>)"
    using core_append_row [OF c2]
    by (auto simp: store_review_def load_review_def save_review_def)
  moreover have "v_reviews (st_views (co_store c')) = v_reviews (st_views (co_store c2))"
    using c3 preservesD [OF reanchor_review_keeps_reviews] by (cases "rec_resolved rec") auto
  ultimately show ?thesis using False \<open>changed\<close> by (simp add: store_review_def)
qed

lemma reachable_review_id:
  assumes "reachable_by g s" "store_review s rid = Some rec"
  shows "rv_id (rec_review rec) = rid"
proof -
  have "review_key (rv_id (rec_review rec)) = review_key rid"
    using keys_okD(2) [OF reachable_keys [OF assms(1)]] assms(2) unfolding store_review_def .
  then show ?thesis by simp
qed

lemma resolve_targets_run:
  assumes "reachable_by g (co_store c)"
    and "resolve_targets E ctx rid c = (Inr (resolved, changed), c')"
  obtains rec where "store_review (co_store c) rid = Some rec" "is_live rec"
    "fst (resolve_review_targets E (rec_review rec) c) = Inr resolved"
    "store_review (co_store c') rid = Some (rec\<lparr>rec_resolved := Some resolved\<rparr>)"
    "changed \<longleftrightarrow> rec_resolved rec \<noteq> Some resolved" "\<not> changed \<Longrightarrow> co_store c' = co_store c"
    "same_repos E c c'"
proof -
  from assms(2) obtain rec c1 where rec: "store_review (co_store c) rid = Some rec" "is_live rec"
    and c1: "resolve_review_targets E (rec_review rec) c = (Inr resolved, c1)"
    and c2: "record_resolved_targets E ctx rec resolved c1 = (Inr changed, c')"
    by (auto simp: resolve_targets_def result_simps core_review_Inr)
  have rid: "rv_id (rec_review rec) = rid"
    using reachable_review_id [OF assms(1) rec(1)] .
  have st: "co_store c1 = co_store c" using readonlyD [OF readonly_resolve_review_targets c1] by simp
  have "store_review (co_store c1) (rv_id (rec_review rec)) = Some rec" using rec(1) rid st by simp
  from record_resolved_row [OF this c2] have row:
    "store_review (co_store c') rid = Some (rec\<lparr>rec_resolved := Some resolved\<rparr>)"
    "changed \<longleftrightarrow> rec_resolved rec \<noteq> Some resolved" "\<not> changed \<Longrightarrow> co_store c' = co_store c"
    using rid st by auto
  have "same_repos E c c'"
    using repos.stableD [OF repos.stable_determined [OF determined_resolve_review_targets] c1]
      repos.stableD [OF stable_record_resolved_targets c2] by (rule repos.R_trans)
  then show ?thesis using that [OF rec _ row] c1 by simp
qed

lemma resolve_targets_unchanged:
  assumes "store_review (co_store c) rid = Some rec" "is_live rec" "rec_resolved rec = Some resolved"
    and "fst (resolve_review_targets E (rec_review rec) c) = Inr resolved"
  shows "fst (resolve_targets E ctx rid c) = Inr (resolved, False)
    \<and> co_store (snd (resolve_targets E ctx rid c)) = co_store c"
proof -
  obtain c1 where c1: "resolve_review_targets E (rec_review rec) c = (Inr resolved, c1)"
    using assms(4) by (metis fst_conv surj_pair)
  have "core_review rid c = (Inr rec, c)" using assms(1,2) by (simp add: core_review_Inr)
  then show ?thesis
    using c1 readonlyD [OF readonly_resolve_review_targets c1] assms(3)
    by (simp add: resolve_targets_def record_resolved_targets_def bindO_def)
qed

text \<open>
  C21: Resolving a review's targets records the resolution on its row, reports a change exactly
  when the recorded resolution differs, and leaves the store untouched otherwise; resolving
  again, with Git giving the same answers, returns the same targets and appends nothing.
\<close>

theorem resolve_targets_idempotent:
  assumes "reachable_by g (co_store c)"
    and "resolve_targets E ctx rid c = (Inr (resolved, changed), c')"
  shows "(\<exists>rec. store_review (co_store c) rid = Some rec
        \<and> store_review (co_store c') rid = Some (rec\<lparr>rec_resolved := Some resolved\<rparr>)
        \<and> (changed \<longleftrightarrow> rec_resolved rec \<noteq> Some resolved))
    \<and> (changed \<or> co_store c' = co_store c)
    \<and> fst (resolve_targets E ctx' rid c') = Inr (resolved, False)
    \<and> co_store (snd (resolve_targets E ctx' rid c')) = co_store c'"
proof -
  obtain rec where rec: "store_review (co_store c) rid = Some rec" "is_live rec"
    "fst (resolve_review_targets E (rec_review rec) c) = Inr resolved"
    "store_review (co_store c') rid = Some (rec\<lparr>rec_resolved := Some resolved\<rparr>)"
    "changed \<longleftrightarrow> rec_resolved rec \<noteq> Some resolved" "\<not> changed \<Longrightarrow> co_store c' = co_store c"
    "same_repos E c c'"
    using resolve_targets_run [OF assms] by blast
  have "fst (resolve_review_targets E (rec_review rec) c') = Inr resolved"
    using rec(3) repos.determinedD [OF determined_resolve_review_targets rec(7)] by simp
  then have "fst (resolve_targets E ctx' rid c') = Inr (resolved, False)
      \<and> co_store (snd (resolve_targets E ctx' rid c')) = co_store c'"
    using resolve_targets_unchanged [OF rec(4), of resolved E ctx'] rec(2) by (simp add: is_live_def)
  then show ?thesis using rec by blast
qed

theorem resolve_targets_idempotent_witness:
  "\<exists>resolved c'. resolve_targets sample_env sample_ctx (ReviewId (Ulid 2 2)) sample_core = (Inr (resolved, False), c')
     \<and> fst (resolve_targets sample_env sample_ctx (ReviewId (Ulid 2 2)) c') = Inr (resolved, False)"
proof -
  have "map_sum (\<lambda>_. ()) snd (fst (resolve_targets sample_env sample_ctx (ReviewId (Ulid 2 2)) sample_core)) = Inr False"
    by code_simp
  then obtain resolved c' where
    run: "resolve_targets sample_env sample_ctx (ReviewId (Ulid 2 2)) sample_core = (Inr (resolved, False), c')"
    by (cases "resolve_targets sample_env sample_ctx (ReviewId (Ulid 2 2)) sample_core";
        cases "fst (resolve_targets sample_env sample_ctx (ReviewId (Ulid 2 2)) sample_core)") auto
  show ?thesis
    using run resolve_targets_idempotent [OF sample_core_reachable run, of sample_ctx]
    by simp
qed

section \<open>Viewed marks\<close>

text \<open>A row that a predicate singles out by its key is the one \<open>find\<close> returns.\<close>

lemma find_viewed:
  assumes "keys_ok t"
  shows "find (\<lambda>m. vm_repo_id m = repo_id \<and> vm_path m = path) (rows_of rid (v_viewed t))
    = tbl_get (v_viewed t) (review_key rid, repo_key repo_id, path_str path)"
proof (rule find_row)
  fix k m
  assume "tbl_get (v_viewed t) (review_key rid, k) = Some m"
  then have "(repo_key (vm_repo_id m), path_str (vm_path m)) = k"
    using assms tbl_allD [of _ "v_viewed t"] by (fastforce simp: keys_ok_def)
  then show "vm_repo_id m = repo_id \<and> vm_path m = path \<longleftrightarrow> k = (repo_key repo_id, path_str path)"
    by (auto simp: repo_path.expand)
qed

lemma fst_bindO:
  "fst (bindO m f c) = (case fst (m c) of Inl e \<Rightarrow> Inl e | Inr x \<Rightarrow> fst (f x (snd (m c))))"
  by (simp add: bindO_def split: sum.split prod.split)

lemma mark_viewed_run:
  assumes "mark_viewed E ctx rid repo_id path c = (Inr mark, c')"
  shows "as_human (cx_author ctx) = Some (vm_viewer mark)"
    "fst (head_content E rid repo_id path c) = Inr (vm_content mark)"
    "fst (head_content E rid repo_id path c') = Inr (vm_content mark)"
    "keys_ok (st_views (co_store c)) \<Longrightarrow> keys_ok (st_views (co_store c'))"
    "tbl_get (v_viewed (st_views (co_store c'))) (review_key rid, repo_key repo_id, path_str path) = Some mark"
proof -
  from assms obtain viewer content c1 e where
    run: "as_human (cx_author ctx) = Some viewer" "head_content E rid repo_id path c = (Inr content, c1)"
    and app: "core_append ctx (FileViewed rid repo_id path viewer content) c1 = (Inr e, c')"
    and mark: "mark = \<lparr>vm_review_id = rid, vm_repo_id = repo_id, vm_path = path, vm_viewer = viewer,
             vm_content = content\<rparr>"
    by (auto simp: mark_viewed_def result_simps)
  have st: "co_store c1 = co_store c" using readonlyD [OF readonly_head_content run(2)] .
  obtain t where t: "apply_body e (FileViewed rid repo_id path viewer content) (st_views (co_store c1)) = Inr t"
    "st_views (co_store c') = t" "ev_body e = FileViewed rid repo_id path viewer content"
    using core_append_row [OF app] by blast
  then have row: "t = (st_views (co_store c1))\<lparr>v_viewed := tbl_insert (review_key rid, repo_key repo_id, path_str path)
                mark (v_viewed (st_views (co_store c1)))\<rparr>"
    by (auto simp: result_simps mark)
  show "as_human (cx_author ctx) = Some (vm_viewer mark)"
    "fst (head_content E rid repo_id path c) = Inr (vm_content mark)"
    using run by (simp_all add: mark)
  have "same_rows E c1 c'"
    unfolding same_rows_def
    by (intro conjI append_same_repos [OF _ app]) (use t row in \<open>auto simp: result_simps\<close>)
  with rows.stableD [OF rows.stable_determined [OF determined_head_content] run(2)]
  have "same_rows E c c'" by (rule rows.R_trans)
  from rows.determinedD [OF determined_head_content this, of rid repo_id path]
  show "fst (head_content E rid repo_id path c') = Inr (vm_content mark)" using run(2) by (simp add: mark)
  show "keys_ok (st_views (co_store c)) \<Longrightarrow> keys_ok (st_views (co_store c'))"
    using keys_ok_apply [of "st_views (co_store c)" e] t st by (simp add: apply_event_def)
  show "tbl_get (v_viewed (st_views (co_store c'))) (review_key rid, repo_key repo_id, path_str path) = Some mark"
    using t row by simp
qed

lemma viewed_state_found:
  assumes "keys_ok (st_views (co_store c))"
    and "tbl_get (v_viewed (st_views (co_store c))) (review_key rid, repo_key repo_id, path_str path) = Some mark"
    and "fst (head_content E rid repo_id path c) = Inr current"
  shows "fst (viewed_state_of E rid repo_id path c)
    = Inr (if current = vm_content mark then ViewedState_Viewed else ViewedState_ChangedSinceViewed (vm_content mark))"
  using assms(3) find_viewed [OF assms(1), of repo_id path rid] assms(2)
  by (simp add: viewed_state_of_def fst_bindO store_viewed_def)

lemma unmark_viewed_row:
  assumes "keys_ok (st_views (co_store c))" "unmark_viewed ctx rid repo_id path c = (Inr (), c')"
  shows "fst (viewed_state_of E rid repo_id path c') = Inr ViewedState_Unviewed"
proof -
  from assms(2) obtain viewer e where app: "core_append ctx (FileUnviewed rid repo_id path viewer) c = (Inr e, c')"
    by (auto simp: unmark_viewed_def result_simps core_review_Inr)
  have keys: "keys_ok (st_views (co_store c'))"
    and gone: "tbl_get (v_viewed (st_views (co_store c'))) (review_key rid, repo_key repo_id, path_str path) = None"
    using core_append_row [OF app] keys_ok_apply [OF assms(1), of e] by (auto simp: apply_event_def)
  show ?thesis
    using find_viewed [OF keys, of repo_id path rid] gone
    by (simp add: viewed_state_of_def fst_bindO store_viewed_def)
qed

text \<open>
  A file marked viewed is recorded for a human author and is reported viewed while its
  content at the resolved head is the marked content; once the content differs it is reported
  as changed since, with the marked content; after unmarking it is unviewed.
\<close>

lemma viewed_mark_tracks_content:
  assumes "reachable_by g (co_store c)"
    and "mark_viewed E ctx rid repo_id path c = (Inr mark, c')"
  shows "as_human (cx_author ctx) = Some (vm_viewer mark)
    \<and> fst (viewed_state_of E rid repo_id path c') = Inr ViewedState_Viewed
    \<and> (\<forall>E' current. fst (head_content E' rid repo_id path c') = Inr current \<longrightarrow>
          fst (viewed_state_of E' rid repo_id path c')
          = Inr (if current = vm_content mark then ViewedState_Viewed
                 else ViewedState_ChangedSinceViewed (vm_content mark)))
    \<and> (\<forall>E' ctx' c''. unmark_viewed ctx' rid repo_id path c' = (Inr (), c'') \<longrightarrow>
          fst (viewed_state_of E' rid repo_id path c'') = Inr ViewedState_Unviewed)"
proof -
  note run = mark_viewed_run [OF assms(2)]
  have keys: "keys_ok (st_views (co_store c'))" by (rule run(4) [OF reachable_keys [OF assms(1)]])
  show ?thesis
    using run(1) viewed_state_found [OF keys run(5)] run(3) unmark_viewed_row [OF keys] by simp
qed

section \<open>Deleting a review\<close>

lemma deleted_review_missing:
  assumes "store_review (co_store c) rid = Some rec" "\<not> is_live rec"
  shows "core_review rid c = (Inl (NotFound (Entity_Review rid)), c)"
    "core_review_snapshot rid c = (Inl (NotFound (Entity_Review rid)), c)"
  using assms
  by (auto simp: core_review_def core_review_snapshot_def store_review_snapshot_def is_live_def
      snapshot_in_transaction_def store_review_def split: review_lifecycle.splits)

text \<open>
  After a review is deleted, looking it up, taking its snapshot, resolving, updating,
  marking and deleting it all report it as not found and change nothing, and it is listed in
  no workspace; its comments stay in the store.
\<close>

lemma delete_review_hides:
  assumes "reachable_by g (co_store c)"
    and "delete_review ctx rid c = (Inr (), c')"
  shows "core_review rid c' = (Inl (NotFound (Entity_Review rid)), c')
    \<and> core_review_snapshot rid c' = (Inl (NotFound (Entity_Review rid)), c')
    \<and> resolve_targets E ctx' rid c' = (Inl (NotFound (Entity_Review rid)), c')
    \<and> update_review E ctx' rid title status c' = (Inl (NotFound (Entity_Review rid)), c')
    \<and> update_review_target E ctx' rid update c' = (Inl (NotFound (Entity_Review rid)), c')
    \<and> record_checkpoint E ctx' rid targets in_reply_to c' = (Inl (NotFound (Entity_Review rid)), c')
    \<and> delete_review ctx' rid c' = (Inl (NotFound (Entity_Review rid)), c')
    \<and> rid \<notin> rv_id ` set (projr (fst (core_reviews wid c')))
    \<and> store_comments (co_store c') rid = store_comments (co_store c) rid"
proof -
  from assms(2) obtain rec e where rec: "store_review (co_store c) rid = Some rec"
    and app: "core_append ctx (ReviewDeleted rid) c = (Inr e, c')"
    by (auto simp: delete_review_def result_simps core_review_Inr)
  have id: "rv_id (rec_review rec) = rid" by (rule reachable_review_id [OF assms(1) rec])
  from core_append_row [OF app] rec id
  have views: "st_views (co_store c') = save_review (rec\<lparr>rec_lifecycle := Lifecycle_Deleted (ev_seq e)\<rparr>) (st_views (co_store c))"
    and body: "apply_event e (st_views (co_store c)) = Inr (st_views (co_store c'))"
    by (auto simp: apply_event_def load_review_def store_review_def)
  have row: "store_review (co_store c') rid = Some (rec\<lparr>rec_lifecycle := Lifecycle_Deleted (ev_seq e)\<rparr>)"
    using id by (simp add: store_review_def views save_review_def)
  note gone = deleted_review_missing [OF row]
  have keys: "keys_ok (st_views (co_store c'))" by (rule keys_ok_apply [OF reachable_keys [OF assms(1)] body])
  have "rv_id (rec_review r) \<noteq> rid" if "r \<in> set (store_reviews (co_store c') wid)" for r
    using that row keys_okD(2) [OF keys]
    by (auto simp: store_reviews_def tbl_values_iff store_review_def is_live_def)
  then show ?thesis
    using gone
    by (auto simp: is_live_def resolve_targets_def update_review_def update_review_target_def
        record_checkpoint_def delete_review_def core_reviews_def store_comments_def views save_review_def)
qed

section \<open>Preflights\<close>

lemma update_review_failed:
  assumes "core_review rid c = (Inr rec, c)" "rv_status (rec_review rec) = Status_Archived"
    and "fst (resolve_review_targets E (rec_review rec) c) = Inl err"
  shows "fst (update_review E ctx rid title Status_Open c) = Inl err
    \<and> co_store (snd (update_review E ctx rid title Status_Open c)) = co_store c"
proof -
  obtain c1 where c1: "resolve_review_targets E (rec_review rec) c = (Inl err, c1)"
    using assms(3) by (metis fst_conv surj_pair)
  have "co_store c1 = co_store c" by (rule readonlyD [OF readonly_resolve_review_targets c1])
  then show ?thesis using c1 assms(1,2) by (simp add: update_review_def bindO_def)
qed

lemma update_review_target_failed:
  assumes "core_review rid c = (Inr rec, c)"
    and "find (\<lambda>t. rt_repo_id t = rtu_repo_id update) (ne_items (rv_targets (rec_review rec))) = Some found"
    and "fst (workspace_repo E (rv_workspace_id (rec_review rec)) (rtu_repo_id update) c) = Inr repo"
    and "bindR (gr_resolve repo (rt_base (apply_revision (rtu_revision update) found)))
           (\<lambda>_. gr_resolve repo (rt_head (apply_revision (rtu_revision update) found))) = Inl err"
  shows "fst (update_review_target E ctx rid update c) = Inl (Invalid (TargetUnresolvable err))
    \<and> co_store (snd (update_review_target E ctx rid update c)) = co_store c"
proof -
  have "rt_repo_id (apply_revision (rtu_revision update) found) = rtu_repo_id update"
    using find_Some_in [OF assms(2)] by (cases "rtu_revision update") auto
  moreover obtain c1 where c1: "workspace_repo E (rv_workspace_id (rec_review rec)) (rtu_repo_id update) c = (Inr repo, c1)"
    using assms(3) by (metis fst_conv surj_pair)
  moreover have "co_store c1 = co_store c" by (rule readonlyD [OF readonly_workspace_repo c1])
  ultimately show ?thesis using assms by (simp add: update_review_target_def Let_def bindO_def)
qed

text \<open>
  A reference that does not resolve leaves no trace: reopening an archived review whose
  targets do not resolve, and moving a target to a revision that does not, return the error
  and leave the store as it was.
\<close>

lemma unresolvable_leaves_no_trace:
  assumes "core_review rid c = (Inr rec, c)"
  shows "(rv_status (rec_review rec) = Status_Archived \<longrightarrow>
        fst (resolve_review_targets E (rec_review rec) c) = Inl err \<longrightarrow>
        fst (update_review E ctx rid title Status_Open c) = Inl err
        \<and> co_store (snd (update_review E ctx rid title Status_Open c)) = co_store c)
    \<and> (find (\<lambda>t. rt_repo_id t = rtu_repo_id update) (ne_items (rv_targets (rec_review rec))) = Some found \<longrightarrow>
        fst (workspace_repo E (rv_workspace_id (rec_review rec)) (rtu_repo_id update) c) = Inr repo \<longrightarrow>
        bindR (gr_resolve repo (rt_base (apply_revision (rtu_revision update) found)))
          (\<lambda>_. gr_resolve repo (rt_head (apply_revision (rtu_revision update) found))) = Inl git_err \<longrightarrow>
        fst (update_review_target E ctx rid update c) = Inl (Invalid (TargetUnresolvable git_err))
        \<and> co_store (snd (update_review_target E ctx rid update c)) = co_store c)"
  by (intro conjI impI) (blast dest: update_review_failed [OF assms] update_review_target_failed [OF assms])+

text \<open>A checkout in which no revision resolves.\<close>

definition broken_env :: env where
  "broken_env = sample_env\<lparr>en_open := (\<lambda>path. Inr \<lparr>or_checkout = path,
     or_git = sample_git\<lparr>gr_resolve := (\<lambda>_. Inl (GitError ''gone''))\<rparr>\<rparr>)\<rparr>"

definition archived_core :: core where
  "archived_core = (snd (update_review sample_env sample_ctx (ReviewId (Ulid 2 2)) ''t'' Status_Archived sample_core))
     \<lparr>co_opened := Map.empty\<rparr>"

end
