(* ===== verification/Nits_Checkpoint_Laws.thy ===== *)
theory Nits_Checkpoint_Laws
  imports Nits_Review_Laws
begin

text \<open>
  What a recorded checkpoint (\<open>checkpoints.rs\<close>) guarantees about the reviewer, the
  repositories, the round it answers and every revision it names.
\<close>

section \<open>Checkpoints\<close>

text \<open>States with the same store and the same repositories.\<close>

definition same_store :: "env \<Rightarrow> core \<Rightarrow> core \<Rightarrow> bool" where
  "same_store E c d \<longleftrightarrow> same_repos E c d \<and> co_store d = co_store c"

interpretation frozen: observation "same_store E" for E
  by unfold_locales (simp_all add: same_store_def same_repos_def)

lemma frozen_determined: "rows.determined E m \<Longrightarrow> readonly m \<Longrightarrow> frozen.determined E m"
  by (simp add: frozen.determined_def rows.determined_def frozen.stable_def rows.stable_def same_rows_def
      same_store_def readonly_def)

lemma determined_check_revision [simp, intro]: "frozen.determined E (check_revision sn rid repo repo_id revision)"
proof -
  have "frozen.determined E (readO (\<lambda>c. f (co_store c)))" for f :: "store \<Rightarrow> (core_error, unit) result"
    by (simp add: frozen.determined_def frozen.stable_def same_store_def same_repos_def)
  then show ?thesis
    unfolding check_revision_def
    by (auto split: resolved_source.split intro!: frozen.determined_bindO frozen.determined_basic)
qed

lemma forO_each:
  assumes "forO f xs c = (Inr ys, c')" "x \<in> set xs" "\<And>x. frozen.stable E (f x)"
  shows "\<exists>c1 y c2. same_store E c c1 \<and> f x c1 = (Inr y, c2)"
  using assms
proof (induction xs arbitrary: c ys)
  case (Cons a xs)
  then obtain y zs c1 where "f a c = (Inr y, c1)" "forO f xs c1 = (Inr zs, c')"
    by (auto simp: result_simps)
  moreover from this have "same_store E c c1" using frozen.stableD Cons.prems(3) by blast
  ultimately show ?case using Cons.prems(2) Cons.IH [OF _ _ Cons.prems(3)] frozen.R_refl frozen.R_trans
    by (metis set_ConsD)
qed simp

text \<open>
  What a checkpoint may name as a revision: a commit that resolves to the named tree, or a
  working tree that the review has captured.
\<close>

definition revision_checked :: "store \<Rightarrow> review_snapshot \<Rightarrow> review_id \<Rightarrow> git_repo \<Rightarrow> repo_id \<Rightarrow> resolved_ref \<Rightarrow> bool" where
  "revision_checked s sn rid repo repo_id revision \<longleftrightarrow>
     (case rr_source revision of
        Source_Commit oid \<Rightarrow>
          (case gr_resolve repo (RefSpec_Commit oid) of
             Inr r \<Rightarrow> rr_tree r = rr_tree revision
           | Inl _ \<Rightarrow> False)
      | Source_WorkingTree _ _ _ \<Rightarrow>
          captured_in repo_id revision (snapshot_targets sn)
          \<or> list_ex (\<lambda>e. captured_in repo_id revision (resolved_event_targets rid (ev_body e)))
              (events_after None s))"

lemma check_revision_Inr:
  "check_revision sn rid repo repo_id revision c = (Inr (), c') \<Longrightarrow>
     revision_checked (co_store c) sn rid repo repo_id revision"
  by (auto simp: check_revision_def revision_checked_def result_simps split: resolved_source.splits if_splits)

lemma checked_targets:
  assumes "forO (\<lambda>t.
       bindO (review_repo E rid (rs_repo_id t)) (\<lambda>repo.
       bindO (check_revision sn rid repo (rs_repo_id t) (rs_base t)) (\<lambda>_.
         check_revision sn rid repo (rs_repo_id t) (rs_head t)))) ts c = (Inr us, c')"
    and "t \<in> set ts"
  shows "\<exists>repo. fst (review_repo E rid (rs_repo_id t) c) = Inr repo
    \<and> revision_checked (co_store c) sn rid repo (rs_repo_id t) (rs_base t)
    \<and> revision_checked (co_store c) sn rid repo (rs_repo_id t) (rs_head t)"
proof -
  have repo: "frozen.determined E (review_repo E rid (rs_repo_id t))" for t
    by (simp add: frozen_determined)
  have "frozen.stable E (bindO (review_repo E rid (rs_repo_id t)) (\<lambda>repo.
       bindO (check_revision sn rid repo (rs_repo_id t) (rs_base t)) (\<lambda>_.
         check_revision sn rid repo (rs_repo_id t) (rs_head t))))" for t
    by (intro frozen.stable_bindO frozen.stable_determined repo) auto
  from forO_each [OF assms this] obtain c1 c2 c3 c4 repo1 where
    c1: "same_store E c c1" "review_repo E rid (rs_repo_id t) c1 = (Inr repo1, c2)"
    "check_revision sn rid repo1 (rs_repo_id t) (rs_base t) c2 = (Inr (), c3)"
    "check_revision sn rid repo1 (rs_repo_id t) (rs_head t) c3 = (Inr (), c4)"
    by (auto simp: result_simps)
  have "co_store c2 = co_store c" "co_store c3 = co_store c"
    using c1(1) readonlyD [OF readonly_review_repo c1(2)] readonlyD [OF readonly_check_revision c1(3)]
    by (simp_all add: same_store_def)
  moreover have "fst (review_repo E rid (rs_repo_id t) c) = Inr repo1"
    using frozen.determinedD [OF repo [of t] c1(1)] c1(2) by simp
  ultimately show ?thesis
    using check_revision_Inr [OF c1(3)] check_revision_Inr [OF c1(4)] by simp
qed

lemma covers_repositories_distinct:
  "covers_repositories targets review \<Longrightarrow> distinct (map rs_repo_id (ne_items targets))"
  unfolding covers_repositories_def ne_len_def by (intro card_distinct) (metis length_map)

text \<open>
  C36: A recorded checkpoint is by a human or an agent, names each repository of the review
  exactly once, answers a round of this review if any, and each of its revisions is a commit
  that the repository resolves to the named tree or a working tree the review has captured;
  it is then part of the review's snapshot under the id that was returned.
\<close>

theorem record_checkpoint_sound:
  assumes "record_checkpoint E ctx rid targets in_reply_to c = (Inr cpid, c')"
  shows "\<exists>sn reviewer sn'. store_review_snapshot (co_store c) rid = Some sn
    \<and> reviewer_from_author (cx_author ctx) = Some reviewer
    \<and> set (map rs_repo_id (ne_items targets)) = set (map rt_repo_id (ne_items (rv_targets (sn_review sn))))
    \<and> distinct (map rs_repo_id (ne_items targets))
    \<and> validate_round sn in_reply_to = Inr ()
    \<and> list_all (\<lambda>t. \<exists>repo. fst (review_repo E rid (rs_repo_id t) c) = Inr repo
          \<and> revision_checked (co_store c) sn rid repo (rs_repo_id t) (rs_base t)
          \<and> revision_checked (co_store c) sn rid repo (rs_repo_id t) (rs_head t)) (ne_items targets)
    \<and> store_review_snapshot (co_store c') rid = Some sn'
    \<and> \<lparr>cp_id = cpid, cp_review_id = rid, cp_reviewer = reviewer, cp_author = cx_author ctx,
        cp_created = cx_now ctx, cp_targets = targets, cp_in_reply_to = in_reply_to\<rparr> \<in> set (sn_checkpoints sn')"
proof -
  let ?loop = "\<lambda>sn. forO (\<lambda>t.
       bindO (review_repo E rid (rs_repo_id t)) (\<lambda>repo.
       bindO (check_revision sn rid repo (rs_repo_id t) (rs_base t)) (\<lambda>_.
         check_revision sn rid repo (rs_repo_id t) (rs_head t)))) (ne_items targets)"
  from assms obtain sn reviewer us c1 c2 e where
    sn: "store_review_snapshot (co_store c) rid = Some sn" "reviewer_from_author (cx_author ctx) = Some reviewer"
    "covers_repositories targets (sn_review sn)" "validate_round sn in_reply_to = Inr ()"
    and loop: "?loop sn c = (Inr us, c1)"
    and ret: "retain_targets E rid targets c1 = (Inr (), c2)"
    and app: "core_append ctx (ReviewChecked rid reviewer targets in_reply_to) c2 = (Inr e, c')"
    and id: "cpid = ReviewCheckpointId (ev_seq e)"
    by (auto simp: record_checkpoint_def result_simps core_review_snapshot_def split: if_splits)
  let ?cp = "\<lparr>cp_id = cpid, cp_review_id = rid, cp_reviewer = reviewer, cp_author = cx_author ctx,
        cp_created = cx_now ctx, cp_targets = targets, cp_in_reply_to = in_reply_to\<rparr>"
  have "readonly (?loop sn)" by (intro readonly_forO readonly_bindO) auto
  from readonlyD [OF this loop] readonlyD [OF readonly_retain_targets ret]
  have st: "co_store c2 = co_store c" by simp
  have views: "st_views (co_store c') = (st_views (co_store c))\<lparr>v_checkpoints :=
      tbl_insert (review_key rid, checkpoint_event_seq cpid) ?cp (v_checkpoints (st_views (co_store c)))\<rparr>"
    using core_append_row [OF app] st by (auto simp: checkpoint_from_event_def id)
  then obtain sn' where sn': "store_review_snapshot (co_store c') rid = Some sn'"
    "sn_checkpoints sn' = rows_of rid (v_checkpoints (st_views (co_store c')))"
    using sn(1) by (auto simp: store_review_snapshot_def snapshot_in_transaction_def Let_def
        split: option.splits review_lifecycle.splits)
  have "?cp \<in> set (sn_checkpoints sn')" using sn'(2) views by (auto simp: rows_of_iff)
  moreover have "set (map rs_repo_id (ne_items targets)) = set (map rt_repo_id (ne_items (rv_targets (sn_review sn))))"
    using sn(3) by (simp add: covers_repositories_def)
  ultimately show ?thesis
    using sn sn'(1) checked_targets [OF loop] covers_repositories_distinct [OF sn(3)]
    by (auto simp: list_all_iff)
qed

definition sample_targets :: "resolved_target nonempty" where
  "sample_targets =
     (let r = \<lparr>rr_tree = TreeOid (Oid [1]), rr_source = Source_Commit (CommitOid (Oid [2]))\<rparr>
      in NonEmpty [\<lparr>rs_repo_id = RepoId (Ulid 3 3), rs_base = r, rs_head = r\<rparr>])"

theorem record_checkpoint_sound_witness:
  "\<exists>cpid c'. record_checkpoint sample_env sample_ctx (ReviewId (Ulid 2 2)) sample_targets None sample_core = (Inr cpid, c')
     \<and> store_review_snapshot (co_store c') (ReviewId (Ulid 2 2)) \<noteq> None"
proof -
  let ?run = "record_checkpoint sample_env sample_ctx (ReviewId (Ulid 2 2)) sample_targets None sample_core"
  have "is_ok (fst ?run)" by code_simp
  then obtain cpid c' where run: "?run = (Inr cpid, c')" by (metis is_ok_iff prod.collapse)
  show ?thesis using run record_checkpoint_sound [OF run] by blast
qed

end
