(* ===== verification/Nits_Comment_Ops.thy ===== *)
theory Nits_Comment_Ops
  imports Nits_Review_Laws
begin

text \<open>
  Comment mutations on \<open>Core\<close>, \<open>crates/nits-review-core/src/comments.rs\<close>: threads are
  started, replied to, edited, deleted, deferred, resolved and reopened, reviews requested, and
  suggestions previewed and applied. \<open>WorkingFile::open\<close> with \<open>read\<close> and \<open>replace\<close> are the
  environment's \<open>gr_read_file\<close> and \<open>gr_replace_file\<close>, whose errors are the text of an
  \<open>Invalid\<close>.
\<close>

section \<open>Listing\<close>

definition core_list_comments :: "review_id \<Rightarrow> comment_query \<Rightarrow> comment_listing op" where
  "core_list_comments review query =
     readO (\<lambda>c. bindR (map_err StoreFailed (list_comments (co_store c) review query))
       (ok_or (NotFound (Entity_Review review))))"

section \<open>Starting threads\<close>

definition thread_id_of :: "comment_id \<Rightarrow> thread_id" where
  "thread_id_of cid = ThreadId (ulid_from_parts (timestamp_ms (comment_key cid)) (random_part (comment_key cid)))"

lemma thread_key_thread_id_of [simp]: "thread_key (thread_id_of cid) = comment_key cid"
  by (simp add: thread_id_of_def ulid_parts_roundtrip)

definition lines_anchor :: "repo_id \<Rightarrow> repo_path \<Rightarrow> side \<Rightarrow> blob_oid \<Rightarrow> u32 \<Rightarrow> u32 \<Rightarrow> anchor option" where
  "lines_anchor repo_id path side blob_oid start stop =
     (case (line_new start, line_new stop) of
        (Some s, Some e) \<Rightarrow>
          (case range_new s e of
             Inr lines \<Rightarrow> Some (Anchor_Lines repo_id path side blob_oid lines (ContextHash 0))
           | Inl _ \<Rightarrow> None)
      | _ \<Rightarrow> None)"

definition repo_in_review :: "review_record \<Rightarrow> repo_id \<Rightarrow> bool" where
  "repo_in_review rec repo_id \<longleftrightarrow>
     list_ex (\<lambda>t. rt_repo_id t = repo_id) (ne_items (rv_targets (rec_review rec)))"

definition validate_anchor :: "env \<Rightarrow> review_id \<Rightarrow> anchor \<Rightarrow> anchor op" where
  "validate_anchor E review anchor =
     bindO (core_review review) (\<lambda>rec.
       case anchor of
         Anchor_Review \<Rightarrow> retO Anchor_Review
       | Anchor_File repo_id path blob_oid \<Rightarrow>
           bindO (guardO (repo_in_review rec repo_id) (Invalid (RepoNotInReview repo_id review))) (\<lambda>_.
           bindO (review_repo E review repo_id) (\<lambda>repo.
           bindO (gitO (gr_blob repo blob_oid)) (\<lambda>_.
             retO (Anchor_File repo_id path blob_oid))))
       | Anchor_Lines repo_id path side blob_oid lines _ \<Rightarrow>
           bindO (guardO (repo_in_review rec repo_id) (Invalid (RepoNotInReview repo_id review))) (\<lambda>_.
           bindO (review_repo E review repo_id) (\<lambda>repo.
           bindO (gitO (gr_blob repo blob_oid)) (\<lambda>bytes.
             let text = lines_of bytes in
             if unat (line_index (range_end lines)) \<ge> length text
             then failO (Invalid (LinesExceedBlob lines (length text)))
             else retO (Anchor_Lines repo_id path side blob_oid lines
                          (context_hash_of (al_hasher (en_libs E)) text lines))))))"

definition browse_anchor_ok :: "anchor \<Rightarrow> bool" where
  "browse_anchor_ok anchor \<longleftrightarrow>
     (case anchor of
        Anchor_Review \<Rightarrow> False
      | Anchor_File _ _ _ \<Rightarrow> True
      | Anchor_Lines _ _ side _ _ _ \<Rightarrow> side \<noteq> Side_Base)"

definition is_browse_context :: "comment_context option \<Rightarrow> bool" where
  "is_browse_context context \<longleftrightarrow> (case context of Some (Context_Browse _) \<Rightarrow> True | _ \<Rightarrow> False)"

definition add_comment :: "env \<Rightarrow> ctx \<Rightarrow> review_id \<Rightarrow> comment_id \<Rightarrow> comment_kind \<Rightarrow> anchor \<Rightarrow> string
    \<Rightarrow> comment_context option \<Rightarrow> comment op" where
  "add_comment E ctx review cid kind anchor body context =
     bindO (readO (\<lambda>c. Inr (store_comment (co_store c) review cid))) (\<lambda>existing.
     bindO (guardO (existing = None) (Invalid (CommentExists cid))) (\<lambda>_.
     bindO (guardO (\<not> (kind = Kind_Informational \<and> anchor \<noteq> Anchor_Review))
              (Invalid InformationalNeedsReviewAnchor)) (\<lambda>_.
     bindO (guardO (\<not> (is_browse_context context \<and> \<not> browse_anchor_ok anchor))
              (Invalid BrowseNeedsFileAnchor)) (\<lambda>_.
     bindO (validate_anchor E review anchor) (\<lambda>anchor'.
       let comment = \<lparr>cm_id = cid, cm_review_id = review, cm_thread_id = thread_id_of cid,
             cm_author = cx_author ctx, cm_kind = kind, cm_anchor = anchor', cm_body = body,
             cm_created = cx_now ctx, cm_edited = None, cm_state = State_Live, cm_context = context\<rparr>
       in bindO (core_append ctx (CommentCreated comment)) (\<lambda>_. retO comment))))))"

definition reply :: "ctx \<Rightarrow> review_id \<Rightarrow> thread_id \<Rightarrow> comment_id \<Rightarrow> comment_kind \<Rightarrow> string \<Rightarrow> comment op" where
  "reply ctx review thread cid kind body =
     bindO (readO (\<lambda>c. Inr (store_comment (co_store c) review cid))) (\<lambda>existing.
     bindO (guardO (existing = None) (Invalid (CommentExists cid))) (\<lambda>_.
     bindO (core_thread review thread) (\<lambda>th.
     bindO (core_comment review (th_root th)) (\<lambda>root.
       let comment = \<lparr>cm_id = cid, cm_review_id = review, cm_thread_id = thread,
             cm_author = cx_author ctx, cm_kind = kind, cm_anchor = cm_anchor root, cm_body = body,
             cm_created = cx_now ctx, cm_edited = None, cm_state = cm_state root,
             cm_context = cm_context root\<rparr>
       in bindO (core_append ctx (CommentCreated comment)) (\<lambda>_. retO comment)))))"

section \<open>Editing and deleting\<close>

definition edit_comment :: "ctx \<Rightarrow> review_id \<Rightarrow> comment_id \<Rightarrow> string \<Rightarrow> unit op" where
  "edit_comment ctx review cid body =
     bindO (core_comment review cid) (\<lambda>cm.
     bindO (guardO (cm_author cm = cx_author ctx) (Forbidden OnlyAuthorMayEdit)) (\<lambda>_.
     bindO (core_append ctx (CommentEdited review cid body)) (\<lambda>_. retO ())))"

definition delete_comment :: "ctx \<Rightarrow> review_id \<Rightarrow> comment_id \<Rightarrow> unit op" where
  "delete_comment ctx review cid =
     bindO (core_comment review cid) (\<lambda>cm.
     bindO (guardO (cm_author cm = cx_author ctx) (Forbidden OnlyAuthorMayDelete)) (\<lambda>_.
     bindO (core_append ctx (CommentDeleted review cid)) (\<lambda>_. retO ())))"

section \<open>The life of a thread\<close>

definition defer_thread :: "ctx \<Rightarrow> review_id \<Rightarrow> thread_id \<Rightarrow> deferral_reason \<Rightarrow> tracking_url option \<Rightarrow> unit op" where
  "defer_thread ctx review thread reason tracking_url =
     bindO (core_thread review thread) (\<lambda>th.
     bindO (case th_resolution th of
              Resolution_Open \<Rightarrow> retO ()
            | Resolution_Informational \<Rightarrow> failO (Invalid InformationalNotDeferrable)
            | Resolution_Deferred _ _ _ _ \<Rightarrow> failO (Invalid ReopenBeforeDeferring)
            | Resolution_Resolved _ _ \<Rightarrow> failO (Invalid ReopenBeforeDeferring)) (\<lambda>_.
     bindO (core_append ctx (ThreadDeferred review thread reason tracking_url)) (\<lambda>_. retO ())))"

definition is_resolved :: "thread_resolution \<Rightarrow> bool" where
  "is_resolved r \<longleftrightarrow> (case r of Resolution_Resolved _ _ \<Rightarrow> True | _ \<Rightarrow> False)"

definition resolve_thread :: "ctx \<Rightarrow> review_id \<Rightarrow> thread_id \<Rightarrow> unit op" where
  "resolve_thread ctx review thread =
     bindO (core_thread review thread) (\<lambda>th.
     bindO (guardO (th_resolution th \<noteq> Resolution_Informational) (Invalid InformationalNotResolvable)) (\<lambda>_.
     bindO (guardO (\<not> is_resolved (th_resolution th)) (Invalid (AlreadyResolved thread))) (\<lambda>_.
     bindO (core_append ctx (ThreadResolved review thread)) (\<lambda>_. retO ()))))"

definition unresolve_thread :: "ctx \<Rightarrow> review_id \<Rightarrow> thread_id \<Rightarrow> unit op" where
  "unresolve_thread ctx review thread =
     bindO (core_thread review thread) (\<lambda>th.
     bindO (guardO (th_resolution th \<noteq> Resolution_Informational) (Invalid InformationalNotResolvable)) (\<lambda>_.
     bindO (guardO (th_resolution th \<noteq> Resolution_Open) (Invalid (NotResolved thread))) (\<lambda>_.
     bindO (core_append ctx (ThreadUnresolved review thread)) (\<lambda>_. retO ()))))"

section \<open>Requesting a review\<close>

text \<open>\<open>max_by_key(|checkpoint| checkpoint.id)\<close>: the last of the greatest.\<close>

fun max_checkpoint :: "review_checkpoint list \<Rightarrow> review_checkpoint option" where
  "max_checkpoint [] = None"
| "max_checkpoint (x # xs) =
     (case max_checkpoint xs of
        None \<Rightarrow> Some x
      | Some y \<Rightarrow>
          if checkpoint_event_seq (cp_id y) < checkpoint_event_seq (cp_id x) then Some x else Some y)"

definition request_review :: "env \<Rightarrow> ctx \<Rightarrow> review_id \<Rightarrow> string \<Rightarrow> string \<Rightarrow> review_request_id op" where
  "request_review E ctx review agent note =
     bindO (guardO (\<not> is_blank agent) (Invalid AgentNameEmpty)) (\<lambda>_.
     bindO (core_review review) (\<lambda>rec.
     bindO (resolve_review_targets E (rec_review rec)) (\<lambda>targets.
     bindO (retain_targets E review targets) (\<lambda>_.
     bindO (core_review_snapshot review) (\<lambda>snapshot.
     bindO (core_append ctx (ReviewRequested review agent note (Requested_Captured targets)
              (comparison_against (max_checkpoint (sn_checkpoints snapshot)) targets))) (\<lambda>event.
     bindO (record_resolved_targets E ctx rec targets) (\<lambda>_.
       retO (ReviewRequestId (ev_seq event)))))))))"

section \<open>Suggestions\<close>

definition core_suggestion :: "review_id \<Rightarrow> comment_id \<Rightarrow> suggestion_record op" where
  "core_suggestion review cid =
     bindO (core_review review) (\<lambda>_.
     bindO (core_comment review cid) (\<lambda>_.
       readO (\<lambda>c. ok_or (Invalid (NotASuggestion cid)) (store_suggestion (co_store c) review cid))))"

definition suggestion_place :: "anchor \<Rightarrow> (repo_id \<times> repo_path \<times> blob_oid) option" where
  "suggestion_place anchor =
     (case anchor of
        Anchor_Lines repo_id path _ blob_oid _ _ \<Rightarrow> Some (repo_id, path, blob_oid)
      | Anchor_File repo_id path blob_oid \<Rightarrow> Some (repo_id, path, blob_oid)
      | Anchor_Review \<Rightarrow> None)"

definition apply_suggestion :: "env \<Rightarrow> ctx \<Rightarrow> review_id \<Rightarrow> comment_id \<Rightarrow> blob_oid op" where
  "apply_suggestion E ctx review cid =
     bindO (core_suggestion review cid) (\<lambda>suggestion.
     bindO (case sg_outcome suggestion of
              Outcome_Applied receipt \<Rightarrow> failO (Invalid (SuggestionAlreadyApplied cid (sr_seq receipt)))
            | Outcome_Unapplied \<Rightarrow> retO ()) (\<lambda>_.
     bindO (liftO (ok_or (Invalid ReviewLevelSuggestion) (suggestion_place (sg_anchor suggestion)))) (\<lambda>(repo_id, path, blob_oid).
     bindO (review_repo E review repo_id) (\<lambda>repo.
     bindO (liftO (map_err (\<lambda>e. Invalid (SuggestionRefused e)) (gr_read_file repo path))) (\<lambda>current.
     bindO (gitO (gr_blob repo blob_oid)) (\<lambda>expected.
     bindO (guardO (current = expected) (Invalid (FileChangedSinceSuggestion path))) (\<lambda>_.
     bindO (liftO (map_err (\<lambda>e. Invalid (PatchDoesNotApply e)) (patch_apply current (sg_patch suggestion)))) (\<lambda>patched.
     bindO (gitO (gr_hash_blob repo patched)) (\<lambda>result_blob.
     bindO (gitO (gr_worktree_metadata repo)) (\<lambda>worktree.
     bindO (liftO (map_err (\<lambda>e. Invalid (SuggestionRefused e)) (gr_replace_file repo path worktree current patched))) (\<lambda>_.
     bindO (core_append ctx (SuggestionApplied review cid repo_id path result_blob)) (\<lambda>_.
       retO result_blob))))))))))))"

datatype suggestion_worktree =
    Worktree_Original
  | Worktree_Proposed
  | Worktree_Changed
  | Worktree_Unavailable core_error

datatype suggestion_inspection =
    Inspection_Checked "suggestion_hunk list" suggestion_worktree
  | Inspection_Rejected core_error

record suggestion_preview =
  sp_suggestion :: suggestion_record
  sp_inspection :: suggestion_inspection

definition worktree_of :: "(core_error, string) result \<Rightarrow> string \<Rightarrow> string \<Rightarrow> suggestion_worktree" where
  "worktree_of current original proposed =
     (case current of
        Inr bytes \<Rightarrow>
          if bytes = original then Worktree_Original
          else if bytes = proposed then Worktree_Proposed
          else Worktree_Changed
      | Inl e \<Rightarrow> Worktree_Unavailable e)"

definition inspect_suggestion :: "env \<Rightarrow> review_id \<Rightarrow> suggestion_record \<Rightarrow> suggestion_inspection op" where
  "inspect_suggestion E review suggestion =
     bindO (liftO (ok_or (Invalid ReviewLevelSuggestion) (suggestion_place (sg_anchor suggestion)))) (\<lambda>(repo_id, path, blob_oid).
     bindO (review_repo E review repo_id) (\<lambda>repo.
     bindO (gitO (gr_blob repo blob_oid)) (\<lambda>original.
     bindO (liftO (map_err (\<lambda>e. Invalid (PatchDoesNotApply e)) (patch_preview_of original (sg_patch suggestion)))) (\<lambda>preview.
       retO (Inspection_Checked (pp_hunks preview)
               (worktree_of (map_err (\<lambda>e. Invalid (SuggestionRefused e)) (gr_read_file repo path)) original (pp_result preview)))))))"

definition preview_suggestion :: "env \<Rightarrow> review_id \<Rightarrow> comment_id \<Rightarrow> suggestion_preview op" where
  "preview_suggestion E review cid =
     bindO (core_suggestion review cid) (\<lambda>suggestion.
       (\<lambda>c. case inspect_suggestion E review suggestion c of
              (Inr inspection, c') \<Rightarrow>
                (Inr \<lparr>sp_suggestion = suggestion, sp_inspection = inspection\<rparr>, c')
            | (Inl error, c') \<Rightarrow>
                (Inr \<lparr>sp_suggestion = suggestion, sp_inspection = Inspection_Rejected error\<rparr>, c')))"

end
