(* ===== verification/Nits_Client_Events.thy ===== *)
theory Nits_Client_Events
  imports Nits_Connection Nits_Comment_Ops
begin

text \<open>
  Event semantics on the client, \<open>crates/nits-client-core/src/events.rs\<close>: the event a mutation will
  become, and the fold of committed events and of provisional bodies over a review snapshot. The mutations
  are those of \<open>crates/nits-protocol/src/rpc.rs\<close>.\<close>

section \<open>Mutations\<close>

datatype mutation =
    Mut_CreateWorkspace workspace_id string
  | Mut_RenameWorkspace workspace_id string
  | Mut_AttachRepo workspace_id repo_id string string
  | Mut_DetachRepo workspace_id repo_id
  | Mut_CreateReview review_id workspace_id string "review_target nonempty"
  | Mut_UpdateReview review_id string review_status
  | Mut_UpdateReviewTarget review_id review_target_update
  | Mut_DeleteReview review_id
  | Mut_AddComment review_id comment_id comment_kind anchor string "comment_context option"
  | Mut_Reply review_id thread_id comment_id comment_kind string
  | Mut_EditComment review_id comment_id string
  | Mut_DeleteComment review_id comment_id
  | Mut_DeferThread review_id thread_id deferral_reason "tracking_url option"
  | Mut_ResolveThread review_id thread_id
  | Mut_UnresolveThread review_id thread_id
  | Mut_MarkViewed review_id repo_id repo_path
  | Mut_UnmarkViewed review_id repo_id repo_path
  | Mut_RequestReview review_id string string
  | Mut_RecordCheckpoint review_id "resolved_target nonempty" "review_round option"
  | Mut_ApplySuggestion review_id comment_id

datatype view_section =
    Section_Connection | Section_Search | Section_ReviewList | Section_Tree | Section_Diff | Section_Threads
  | Section_Conversation | Section_CommitStepper | Section_RefSelector | Section_Progress | Section_Focus
  | Section_Hints | Section_Help | Section_Draft

record event_meta =
  em_author :: author
  em_ts :: timestamp

datatype mutation_error =
    Local_DuplicateComment comment_id
  | Local_InformationalAnchor
  | Local_InformationalThread thread_id
  | Local_UnknownThread thread_id
  | Local_UnknownComment comment_id
  | Local_NotAuthor comment_id
  | Local_NotOpen thread_id
  | Local_AlreadyResolved thread_id
  | Local_NotResolved thread_id
  | Local_UnknownRepo repo_id
  | Local_Unsupported mutation

section \<open>The local event of a mutation\<close>

definition find_comment :: "review_snapshot \<Rightarrow> comment_id \<Rightarrow> (mutation_error, comment) result" where
  "find_comment sn cid = ok_or (Local_UnknownComment cid) (find (\<lambda>c. cm_id c = cid) (sn_comments sn))"

definition find_thread :: "review_snapshot \<Rightarrow> thread_id \<Rightarrow> (mutation_error, thread) result" where
  "find_thread sn tid = ok_or (Local_UnknownThread tid) (find (\<lambda>t. th_id t = tid) (sn_threads sn))"

fun local_event :: "review_snapshot \<Rightarrow> event_meta \<Rightarrow> mutation \<Rightarrow> (mutation_error, event_body) result" where
  "local_event sn meta (Mut_AddComment review cid kind anchor body context) =
     (if is_ok (find_comment sn cid) then Inl (Local_DuplicateComment cid)
      else if kind = Kind_Informational \<and> anchor \<noteq> Anchor_Review then Inl Local_InformationalAnchor
      else Inr (CommentCreated
        \<lparr>cm_id = cid, cm_review_id = review, cm_thread_id = thread_id_of cid, cm_author = em_author meta,
         cm_kind = kind, cm_anchor = anchor, cm_body = body, cm_created = em_ts meta, cm_edited = None,
         cm_state = State_Live, cm_context = context\<rparr>))"
| "local_event sn meta (Mut_Reply review tid cid kind body) =
     (if is_ok (find_comment sn cid) then Inl (Local_DuplicateComment cid)
      else bindR (find_thread sn tid) (\<lambda>th.
           bindR (find_comment sn (th_root th)) (\<lambda>root.
             Inr (CommentCreated
               \<lparr>cm_id = cid, cm_review_id = review, cm_thread_id = tid, cm_author = em_author meta,
                cm_kind = kind, cm_anchor = cm_anchor root, cm_body = body, cm_created = em_ts meta,
                cm_edited = None, cm_state = cm_state root, cm_context = cm_context root\<rparr>))))"
| "local_event sn meta (Mut_EditComment review cid body) =
     bindR (find_comment sn cid) (\<lambda>c.
       if cm_author c \<noteq> em_author meta then Inl (Local_NotAuthor cid)
       else Inr (CommentEdited review cid body))"
| "local_event sn meta (Mut_DeleteComment review cid) =
     bindR (find_comment sn cid) (\<lambda>c.
       if cm_author c \<noteq> em_author meta then Inl (Local_NotAuthor cid)
       else Inr (CommentDeleted review cid))"
| "local_event sn meta (Mut_DeferThread review tid reason url) =
     bindR (find_thread sn tid) (\<lambda>th.
       case th_resolution th of
         Resolution_Open \<Rightarrow> Inr (ThreadDeferred review tid reason url)
       | Resolution_Informational \<Rightarrow> Inl (Local_InformationalThread tid)
       | Resolution_Resolved _ _ \<Rightarrow> Inl (Local_NotOpen tid)
       | Resolution_Deferred _ _ _ _ \<Rightarrow> Inl (Local_NotOpen tid))"
| "local_event sn meta (Mut_ResolveThread review tid) =
     bindR (find_thread sn tid) (\<lambda>th.
       case th_resolution th of
         Resolution_Informational \<Rightarrow> Inl (Local_InformationalThread tid)
       | Resolution_Resolved _ _ \<Rightarrow> Inl (Local_AlreadyResolved tid)
       | Resolution_Open \<Rightarrow> Inr (ThreadResolved review tid)
       | Resolution_Deferred _ _ _ _ \<Rightarrow> Inr (ThreadResolved review tid))"
| "local_event sn meta (Mut_UnresolveThread review tid) =
     bindR (find_thread sn tid) (\<lambda>th.
       case th_resolution th of
         Resolution_Informational \<Rightarrow> Inl (Local_InformationalThread tid)
       | Resolution_Open \<Rightarrow> Inl (Local_NotResolved tid)
       | Resolution_Resolved _ _ \<Rightarrow> Inr (ThreadUnresolved review tid)
       | Resolution_Deferred _ _ _ _ \<Rightarrow> Inr (ThreadUnresolved review tid))"
| "local_event sn meta (Mut_UpdateReview review title status) = Inr (ReviewUpdated review title status)"
| "local_event sn meta (Mut_UpdateReviewTarget review update) =
     (case find (\<lambda>t. rt_repo_id t = rtu_repo_id update) (ne_items (rv_targets (sn_review sn))) of
        None \<Rightarrow> Inl (Local_UnknownRepo (rtu_repo_id update))
      | Some target \<Rightarrow>
          Inr (ReviewTargetUpdated review
            (case rtu_revision update of
               TargetRevision_Base b \<Rightarrow> target\<lparr>rt_base := ref_spec_from_base b\<rparr>
             | TargetRevision_Head h \<Rightarrow> target\<lparr>rt_head := h\<rparr>)))"
| "local_event sn meta m = Inl (Local_Unsupported m)"

section \<open>Folding events\<close>

text \<open>\<open>iter_mut().find(p)\<close> with an update of what it finds, and whether it found something.\<close>

fun update_first :: "('a \<Rightarrow> bool) \<Rightarrow> ('a \<Rightarrow> 'a) \<Rightarrow> 'a list \<Rightarrow> 'a list" where
  "update_first P f [] = []"
| "update_first P f (x # xs) = (if P x then f x # xs else x # update_first P f xs)"

definition same_mark :: "repo_id \<Rightarrow> repo_path \<Rightarrow> human \<Rightarrow> viewed_mark \<Rightarrow> bool" where
  "same_mark repo_id path viewer v \<longleftrightarrow> vm_repo_id v = repo_id \<and> vm_path v = path \<and> vm_viewer v = viewer"

definition created_locally :: "comment \<Rightarrow> review_snapshot \<Rightarrow> review_snapshot" where
  "created_locally comment sn =
     sn\<lparr>sn_comments := sn_comments sn @ [comment],
        sn_suggestions := sn_suggestions sn @ (case suggestion_from_created comment of None \<Rightarrow> [] | Some s \<Rightarrow> [s]),
        sn_threads :=
          (if list_ex (\<lambda>t. th_id t = cm_thread_id comment) (sn_threads sn)
           then update_first (\<lambda>t. th_id t = cm_thread_id comment)
                  (\<lambda>t. if cm_id comment \<notin> set (th_replies t) \<and> th_root t \<noteq> cm_id comment
                        then t\<lparr>th_replies := th_replies t @ [cm_id comment]\<rparr> else t) (sn_threads sn)
           else sn_threads sn @
                [\<lparr>th_id = cm_thread_id comment, th_review_id = cm_review_id comment, th_root = cm_id comment,
                  th_replies = [], th_resolution = resolution_for_root (cm_kind comment)\<rparr>])\<rparr>"

text \<open>An update of a comment or thread that is there, with the section it touches.\<close>

definition edit_comment_of :: "comment_id \<Rightarrow> (comment \<Rightarrow> comment) \<Rightarrow> review_snapshot \<Rightarrow> view_section list \<times> review_snapshot" where
  "edit_comment_of cid f sn =
     (if list_ex (\<lambda>c. cm_id c = cid) (sn_comments sn)
      then ([Section_Threads], sn\<lparr>sn_comments := update_first (\<lambda>c. cm_id c = cid) f (sn_comments sn)\<rparr>)
      else ([], sn))"

definition resolve_thread_of :: "thread_id \<Rightarrow> thread_resolution \<Rightarrow> review_snapshot \<Rightarrow> view_section list \<times> review_snapshot" where
  "resolve_thread_of tid resolution sn =
     (if list_ex (\<lambda>t. th_id t = tid) (sn_threads sn)
      then ([Section_Threads],
            sn\<lparr>sn_threads := update_first (\<lambda>t. th_id t = tid) (\<lambda>t. t\<lparr>th_resolution := resolution\<rparr>) (sn_threads sn)\<rparr>)
      else ([], sn))"

fun fold_body_mine :: "event_meta \<Rightarrow> event_body \<Rightarrow> review_snapshot \<Rightarrow> view_section list \<times> review_snapshot" where
  "fold_body_mine meta (ReviewUpdated review_id title status) sn =
     ([Section_Conversation], sn\<lparr>sn_review := (sn_review sn)\<lparr>rv_title := title, rv_status := status\<rparr>\<rparr>)"
| "fold_body_mine meta (ReviewTargetsResolved review_id targets) sn =
     ([Section_Diff], sn\<lparr>sn_resolved := Some targets\<rparr>)"
| "fold_body_mine meta (ReviewTargetUpdated review_id target) sn =
     (case replace_target target (ne_items (rv_targets (sn_review sn))) of
        None \<Rightarrow> ([], sn)
      | Some ts \<Rightarrow> ([Section_ReviewList], sn\<lparr>sn_review := (sn_review sn)\<lparr>rv_targets := NonEmpty ts\<rparr>\<rparr>))"
| "fold_body_mine meta (CommentCreated comment) sn =
     (if list_ex (\<lambda>c. cm_id c = cm_id comment) (sn_comments sn) then ([], sn)
      else ([Section_Threads], created_locally comment sn))"
| "fold_body_mine meta (CommentEdited review_id cid body) sn =
     edit_comment_of cid (\<lambda>c. c\<lparr>cm_body := body, cm_edited := Some (em_ts meta)\<rparr>) sn"
| "fold_body_mine meta (CommentDeleted review_id cid) sn =
     edit_comment_of cid (\<lambda>c. c\<lparr>cm_state := State_Deleted\<rparr>) sn"
| "fold_body_mine meta (CommentReanchored review_id cid anchor state) sn =
     edit_comment_of cid (\<lambda>c. c\<lparr>cm_anchor := anchor, cm_state := state\<rparr>) sn"
| "fold_body_mine meta (ThreadDeferred review_id tid reason url) sn =
     resolve_thread_of tid (Resolution_Deferred reason url (em_author meta) (em_ts meta)) sn"
| "fold_body_mine meta (ThreadResolved review_id tid) sn =
     resolve_thread_of tid (Resolution_Resolved (em_author meta) (em_ts meta)) sn"
| "fold_body_mine meta (ThreadUnresolved review_id tid) sn = resolve_thread_of tid Resolution_Open sn"
| "fold_body_mine meta (FileViewed review_id repo_id path viewer content) sn =
     ([Section_Progress],
      sn\<lparr>sn_viewed := filter (\<lambda>v. \<not> same_mark repo_id path viewer v) (sn_viewed sn)
           @ [\<lparr>vm_review_id = review_id, vm_repo_id = repo_id, vm_path = path, vm_viewer = viewer, vm_content = content\<rparr>]\<rparr>)"
| "fold_body_mine meta (FileUnviewed review_id repo_id path viewer) sn =
     ([Section_Progress], sn\<lparr>sn_viewed := filter (\<lambda>v. \<not> same_mark repo_id path viewer v) (sn_viewed sn)\<rparr>)"
| "fold_body_mine meta (ReviewChecked _ _ _ _) sn = ([Section_Conversation], sn)"
| "fold_body_mine meta (ReviewRequested _ _ _ _ _) sn = ([Section_Conversation], sn)"
| "fold_body_mine meta (SuggestionApplied _ _ _ _ _) sn = ([Section_Conversation], sn)"
| "fold_body_mine meta _ sn = ([], sn)"

text \<open>\<open>apply_body\<close>: events of other reviews, and of no review, touch nothing.\<close>

definition fold_body :: "event_meta \<Rightarrow> event_body \<Rightarrow> review_snapshot \<Rightarrow> view_section list \<times> review_snapshot" where
  "fold_body meta body sn =
     (if body_review_id body = Some (rv_id (sn_review sn)) then fold_body_mine meta body sn else ([], sn))"

definition note_suggestion :: "event \<Rightarrow> review_snapshot \<Rightarrow> review_snapshot" where
  "note_suggestion e sn =
     (case ev_body e of
        SuggestionApplied review_id cid repo_id path result_blob \<Rightarrow>
          (case find (\<lambda>r. sg_comment_id r = cid) (sn_suggestions sn) of
             Some record \<Rightarrow>
               if review_id = rv_id (sn_review sn)
                  \<and> (case sg_outcome record of Outcome_Unapplied \<Rightarrow> True | Outcome_Applied receipt \<Rightarrow> sr_seq receipt < ev_seq e)
               then sn\<lparr>sn_suggestions := update_first (\<lambda>r. sg_comment_id r = cid)
                      (suggestion_applied e repo_id path result_blob) (sn_suggestions sn)\<rparr>
               else sn
           | None \<Rightarrow> sn)
      | _ \<Rightarrow> sn)"

definition note_request :: "event \<Rightarrow> review_snapshot \<Rightarrow> review_snapshot" where
  "note_request e sn =
     (case request_from_event e of
        Some request \<Rightarrow>
          if rq_review_id request = rv_id (sn_review sn) \<and> \<not> list_ex (\<lambda>r. rq_id r = rq_id request) (sn_requests sn)
          then sn\<lparr>sn_requests := sort_key (\<lambda>r. request_event_seq (rq_id r)) (sn_requests sn @ [request])\<rparr>
          else sn
      | None \<Rightarrow> sn)"

definition note_checkpoint :: "event \<Rightarrow> review_snapshot \<Rightarrow> review_snapshot" where
  "note_checkpoint e sn =
     (case checkpoint_from_event e of
        Some cp \<Rightarrow>
          if cp_review_id cp = rv_id (sn_review sn) \<and> \<not> list_ex (\<lambda>c. cp_id c = cp_id cp) (sn_checkpoints sn)
          then sn\<lparr>sn_checkpoints := sort_key (\<lambda>c. checkpoint_event_seq (cp_id c)) (sn_checkpoints sn @ [cp])\<rparr>
          else sn
      | None \<Rightarrow> sn)"

definition fold_event :: "event \<Rightarrow> review_snapshot \<Rightarrow> view_section list \<times> review_snapshot" where
  "fold_event e sn =
     fold_body \<lparr>em_author = ev_author e, em_ts = ev_ts e\<rparr> (ev_body e) (note_checkpoint e (note_request e (note_suggestion e sn)))"

end
