(* ===== verification/Nits_Content_Cache.thy ===== *)
theory Nits_Content_Cache
  imports Nits_Connection
begin

text \<open>
  The memory tier of the client's content cache, \<open>crates/nits-client-core/src/cache.rs\<close>: entries under their
  content keys, an order of recency kept as a table from ticks to keys, and the keys that are pinned. The hash
  map is a map, the hash set a set and the tree map from ticks an ordered table.
\<close>

section \<open>Keys and values\<close>

definition bytes_mib :: "u64 \<Rightarrow> u64" where
  "bytes_mib n = n * 1024 * 1024"

record render_key =
  rk_repo_id :: repo_id
  rk_path :: repo_path
  rk_target :: render_target
  rk_opts :: render_opts

definition render_key_of_header :: "file_render_header \<Rightarrow> render_key" where
  "render_key_of_header h =
     \<lparr>rk_repo_id = fh_repo_id h, rk_path = fh_path h, rk_target = fh_target h, rk_opts = fh_opts h\<rparr>"

record tree_key_of_root =
  tk_repo_id :: repo_id
  tk_root :: tree_oid

definition tree_key_of_snapshot :: "tree_snapshot \<Rightarrow> tree_key_of_root" where
  "tree_key_of_snapshot t = \<lparr>tk_repo_id = ts_repo_id t, tk_root = ts_root_oid t\<rparr>"

datatype cache_key =
    CacheKey_Tree tree_key_of_root
  | CacheKey_Header render_key
  | CacheKey_Chunk render_key chunk_index

fun cache_key_render :: "cache_key \<Rightarrow> render_key option" where
  "cache_key_render (CacheKey_Tree _) = None"
| "cache_key_render (CacheKey_Header render) = Some render"
| "cache_key_render (CacheKey_Chunk render _) = Some render"

datatype cache_value =
    CacheValue_Tree tree_snapshot
  | CacheValue_Header file_render_header
  | CacheValue_Chunk render_chunk

fun cache_value_matches :: "cache_value \<Rightarrow> cache_key \<Rightarrow> bool" where
  "cache_value_matches (CacheValue_Tree t) (CacheKey_Tree tree) \<longleftrightarrow> tree_key_of_snapshot t = tree"
| "cache_value_matches (CacheValue_Header h) (CacheKey_Header render) \<longleftrightarrow> render_key_of_header h = render"
| "cache_value_matches (CacheValue_Chunk c) (CacheKey_Chunk _ i) \<longleftrightarrow> rc_index c = i"
| "cache_value_matches _ _ \<longleftrightarrow> False"

section \<open>The cache\<close>

record cache_entry =
  ce_value :: cache_value
  ce_size :: u64
  ce_tick :: u64

record evicted =
  evd_key :: cache_key
  evd_value :: cache_value
  evd_size :: u64

record content_cache =
  cc_budget :: u64
  cc_used :: u64
  cc_entries :: "cache_key \<rightharpoonup> cache_entry"
  cc_order :: "(u64, cache_key) table"
  cc_next_tick :: u64
  cc_pinned :: "cache_key set"

definition cache_new :: "u64 \<Rightarrow> content_cache" where
  "cache_new budget =
     \<lparr>cc_budget = budget, cc_used = 0, cc_entries = Map.empty, cc_order = tbl_empty, cc_next_tick = 0, cc_pinned = {}\<rparr>"

definition cache_contains :: "cache_key \<Rightarrow> content_cache \<Rightarrow> bool" where
  "cache_contains key c \<longleftrightarrow> cc_entries c key \<noteq> None"

definition cache_bump :: "content_cache \<Rightarrow> u64 \<times> content_cache" where
  "cache_bump c = (cc_next_tick c, c\<lparr>cc_next_tick := cc_next_tick c + 1\<rparr>)"

definition cache_get :: "cache_key \<Rightarrow> content_cache \<Rightarrow> cache_value option \<times> content_cache" where
  "cache_get key c =
     (let (tick, c1) = cache_bump c
      in case cc_entries c1 key of
           None \<Rightarrow> (None, c1)
         | Some entry \<Rightarrow>
             (Some (ce_value entry),
              c1\<lparr>cc_entries := (cc_entries c1)(key \<mapsto> entry\<lparr>ce_tick := tick\<rparr>),
                 cc_order := tbl_insert tick key (tbl_remove (ce_tick entry) (cc_order c1))\<rparr>))"

definition cache_peek :: "cache_key \<Rightarrow> content_cache \<Rightarrow> cache_value option" where
  "cache_peek key c = map_option ce_value (cc_entries c key)"

text \<open>Typed lookups: they touch the entry before they look at what it is.\<close>

definition cache_tree :: "tree_key_of_root \<Rightarrow> content_cache \<Rightarrow> tree_snapshot option \<times> content_cache" where
  "cache_tree tree c =
     (let (value, c') = cache_get (CacheKey_Tree tree) c
      in (case value of Some (CacheValue_Tree snapshot) \<Rightarrow> Some snapshot | _ \<Rightarrow> None, c'))"

definition cache_header :: "render_key \<Rightarrow> content_cache \<Rightarrow> file_render_header option \<times> content_cache" where
  "cache_header render c =
     (let (value, c') = cache_get (CacheKey_Header render) c
      in (case value of Some (CacheValue_Header header) \<Rightarrow> Some header | _ \<Rightarrow> None, c'))"

definition cache_chunk :: "render_key \<Rightarrow> chunk_index \<Rightarrow> content_cache \<Rightarrow> render_chunk option \<times> content_cache" where
  "cache_chunk render i c =
     (let (value, c') = cache_get (CacheKey_Chunk render i) c
      in (case value of Some (CacheValue_Chunk chunk) \<Rightarrow> Some chunk | _ \<Rightarrow> None, c'))"

text \<open>
  The loop of \<open>evict\<close>. Its cursor passes each tick of the order once, and only the entry it is at is removed, so
  the loop runs over the entries of the order.
\<close>

fun cache_evict_loop :: "(u64 \<times> cache_key) list \<Rightarrow> content_cache \<Rightarrow> evicted list \<times> content_cache" where
  "cache_evict_loop [] c = ([], c)"
| "cache_evict_loop ((tick, key) # rest) c =
     (if cc_used c \<le> cc_budget c then ([], c)
      else if key \<in> cc_pinned c then cache_evict_loop rest c
      else (let c1 = c\<lparr>cc_order := tbl_remove tick (cc_order c)\<rparr>
            in case cc_entries c1 key of
                 None \<Rightarrow> cache_evict_loop rest c1
               | Some entry \<Rightarrow>
                   (let (out, c2) = cache_evict_loop rest
                          (c1\<lparr>cc_entries := (cc_entries c1)(key := None), cc_used := cc_used c1 - ce_size entry\<rparr>)
                    in (\<lparr>evd_key = key, evd_value = ce_value entry, evd_size = ce_size entry\<rparr> # out, c2))))"

definition cache_evict :: "content_cache \<Rightarrow> evicted list \<times> content_cache" where
  "cache_evict c = cache_evict_loop (tbl_entries (cc_order c)) c"

definition cache_insert :: "cache_key \<Rightarrow> cache_value \<Rightarrow> u64 \<Rightarrow> content_cache \<Rightarrow> evicted list \<times> content_cache" where
  "cache_insert key val bytes c =
     (let c1 = (case cc_entries c key of
          None \<Rightarrow> c
        | Some old \<Rightarrow> c\<lparr>cc_entries := (cc_entries c)(key := None), cc_order := tbl_remove (ce_tick old) (cc_order c),
                         cc_used := cc_used c - ce_size old\<rparr>);
          (tick, c2) = cache_bump c1
      in cache_evict (c2\<lparr>cc_used := cc_used c2 + bytes, cc_order := tbl_insert tick key (cc_order c2),
           cc_entries := (cc_entries c2)(key \<mapsto> \<lparr>ce_value = val, ce_size = bytes, ce_tick = tick\<rparr>)\<rparr>))"

definition cache_remove :: "cache_key \<Rightarrow> content_cache \<Rightarrow> cache_value option \<times> content_cache" where
  "cache_remove key c =
     (case cc_entries c key of
        None \<Rightarrow> (None, c)
      | Some entry \<Rightarrow>
          (Some (ce_value entry),
           c\<lparr>cc_entries := (cc_entries c)(key := None), cc_order := tbl_remove (ce_tick entry) (cc_order c),
             cc_used := cc_used c - ce_size entry, cc_pinned := cc_pinned c - {key}\<rparr>))"

definition cache_pin :: "cache_key \<Rightarrow> content_cache \<Rightarrow> content_cache" where
  "cache_pin key c = c\<lparr>cc_pinned := insert key (cc_pinned c)\<rparr>"

definition cache_unpin :: "cache_key \<Rightarrow> content_cache \<Rightarrow> content_cache" where
  "cache_unpin key c = c\<lparr>cc_pinned := cc_pinned c - {key}\<rparr>"

definition cache_retain_pins :: "(cache_key \<Rightarrow> bool) \<Rightarrow> content_cache \<Rightarrow> evicted list \<times> content_cache" where
  "cache_retain_pins keep c = cache_evict (c\<lparr>cc_pinned := Set.filter keep (cc_pinned c)\<rparr>)"

definition cache_clear_pins :: "content_cache \<Rightarrow> evicted list \<times> content_cache" where
  "cache_clear_pins c = cache_evict (c\<lparr>cc_pinned := {}\<rparr>)"

end
