(* ===== verification/Nits_Client_State.thy ===== *)
theory Nits_Client_State
  imports Nits_Client_Events Nits_Content_Cache
begin

text \<open>
  The state of the client state machine, \<open>ClientCore\<close> of \<open>crates/nits-client-core/src/lib.rs\<close> with
  \<open>connection.rs\<close> and \<open>ids.rs\<close>, and what its handlers are made of: minting ids, sending requests, pending
  mutations and the snapshot that is shown, committed events and snapshots that arrive.
\<close>

section \<open>Minting ids\<close>

record id_gen =
  ig_seed :: u128
  ig_counter :: u64

definition splitmix :: "u64 \<Rightarrow> u64" where
  "splitmix z0 =
     (let z1 = z0 + 0x9E3779B97F4A7C15;
          z2 = (z1 XOR drop_bit 30 z1) * 0xBF58476D1CE4E5B9;
          z3 = (z2 XOR drop_bit 27 z2) * 0x94D049BB133111EB
      in z3 XOR drop_bit 31 z3)"

definition seed_lanes :: "u128 \<Rightarrow> u64 \<times> u64" where
  "seed_lanes seed = (ucast seed, ucast (drop_bit 64 seed))"

definition id_random :: "id_gen \<Rightarrow> u128" where
  "id_random g =
     (let (seed_lo, seed_hi) = seed_lanes (ig_seed g);
          lo = splitmix (seed_lo XOR ig_counter g);
          hi = splitmix (seed_hi XOR word_rotl 32 (ig_counter g))
      in push_bit 64 (ucast hi) OR ucast lo)"

definition mint_comment_id :: "u64 \<Rightarrow> id_gen \<Rightarrow> comment_id \<times> id_gen" where
  "mint_comment_id now g =
     (let g' = g\<lparr>ig_counter := ig_counter g + 1\<rparr> in (CommentId (ulid_from_parts now (id_random g')), g'))"

section \<open>State\<close>

datatype connection =
    Conn_Disconnected "seq option"
  | Conn_Connecting bool "seq option"
  | Conn_Subscribed seq

fun conn_last_seq :: "connection \<Rightarrow> seq option" where
  "conn_last_seq (Conn_Disconnected seen) = seen"
| "conn_last_seq (Conn_Connecting hello_sent seen) = seen"
| "conn_last_seq (Conn_Subscribed seen) = Some seen"

datatype connection_kind = Conn_Kind_Disconnected | Conn_Kind_Connecting | Conn_Kind_Subscribed

fun conn_kind :: "connection \<Rightarrow> connection_kind" where
  "conn_kind (Conn_Disconnected _) = Conn_Kind_Disconnected"
| "conn_kind (Conn_Connecting _ _) = Conn_Kind_Connecting"
| "conn_kind (Conn_Subscribed _) = Conn_Kind_Subscribed"

text \<open>Of an upgrade operation the client reads its id and the protocol of its target.\<close>

record upgrade_operation =
  uo_id :: upgrade_id
  uo_target_protocol :: protocol_version

datatype recovery =
    Recovery_Idle
  | Recovery_Restarting upgrade_operation u64 u64 u8

text \<open>The rejection that ends a recovery is an internal error whose text names the operation.\<close>

datatype connection_view =
    View_Disconnected
  | View_Connecting
  | View_Subscribed
  | View_Restarting upgrade_operation
  | View_UpgradeRequired protocol_version "protocol_version list"
  | View_Rejected rpc_error
  | View_RestartExpired upgrade_id

datatype opening_content = Content_AwaitingSnapshot | Content_Streaming | Content_Superseded

datatype client_request =
    Req_Subscribe subscribe_scope since
  | Req_Mutate client_seq mutation
  | Req_OpenReview review_id render_opts
  | Req_ReviewSnapshot review_id
  | Req_ListWorkspaces
  | Req_ListReviews workspace_id
  | Req_ListFiles review_id diff_scope
  | Req_PreviewSuggestion review_id comment_id

datatype in_flight =
    Flight_Subscribe
  | Flight_ListWorkspaces
  | Flight_ListReviews workspace_id
  | Flight_OpenReview review_id opening_content
  | Flight_ReviewSnapshot review_id
  | Flight_Mutate client_seq
  | Flight_ListFiles review_id
  | Flight_PreviewSuggestion review_id comment_id
  | Flight_ApplySuggestion review_id comment_id

text \<open>
  A preview of a suggestion as it comes over the wire, the reasons being text, and what the client knows of
  the suggestion of a comment. The messages it shows are a text of the daemon, an error of the daemon, from
  which \<open>rpc_error_message\<close> makes a text, or its own for a lost connection.
\<close>

datatype worktree_report =
    Report_Original
  | Report_Proposed
  | Report_Changed
  | Report_Unavailable string

datatype inspection_report =
    Report_Checked "suggestion_hunk list" worktree_report
  | Report_Rejected string

record preview_report =
  pr_suggestion :: suggestion_record
  pr_inspection :: inspection_report

datatype suggestion_message =
    Message_Text string
  | Message_Error rpc_error
  | Message_ConnectionLost
  | Message_AlreadyPresent

datatype suggestion_stage =
    Stage_Idle
  | Stage_Checking request_id
  | Stage_Applying request_id
  | Stage_Uncertain suggestion_message
  | Stage_Rejected suggestion_message

record suggestion_state =
  ss_inspection :: "inspection_report option"
  ss_notice :: "suggestion_message option"
  ss_stage :: suggestion_stage

datatype client_response =
    Resp_Subscribed seq
  | Resp_Workspaces "workspace list"
  | Resp_Reviews "review list"
  | Resp_ReviewSnapshot review_snapshot
  | Resp_Committed event
  | Resp_Files "file_change list" "resolved_target list"
  | Resp_SuggestionPreview preview_report

datatype input_kind = Input_User | Input_Server

datatype client_error =
    Client_WrongConnectionState input_kind connection_kind
  | Client_UnknownRequest request_id
  | Client_UnexpectedResponse request_id string string
  | Client_NoOpenReview
  | Client_DraftAlreadyOpen
  | Client_NoDraft
  | Client_Mutation mutation_error
  | Client_UnknownThread thread_id
  | Client_Rejected rpc_error
  | Client_StaleEvent seq seq
  | Client_NotHuman
  | Client_UnknownFile repo_id repo_path
  | Client_SuggestionNotReady comment_id

datatype effect =
    Eff_Connect
  | Eff_Disconnect
  | Eff_Send "client_request client_msg"
  | Eff_Render "view_section list"

datatype delivery = AwaitingReceipt | OutcomeUnknown | NotAdmitted

record pending =
  pd_client_seq :: client_seq
  pd_ts :: timestamp
  pd_mutation :: mutation
  pd_body :: event_body
  pd_delivery :: delivery

datatype draft_purpose =
    Draft_Comment comment_intent "comment_context option"
  | Draft_Reply thread_id
  | Draft_Defer thread_id

record draft =
  dr_anchor :: anchor
  dr_purpose :: draft_purpose

record open_review =
  op_snapshot :: review_snapshot
  op_pending :: "(client_seq \<times> event_body) list"

text \<open>
  \<open>cl_files\<close> are the changed files of the open review, \<open>OpenReview.files\<close>; the scope of the diff is always
  everything. The progress of suggestions is ordered by the ULID of the comment.

  \<open>cf_disk\<close>: whether the disk tier of the cache is enabled.\<close>

record client_config =
  cf_client_id :: client_id
  cf_client :: build_info
  cf_author :: author
  cf_disk :: bool
  cf_render_opts :: render_opts

record client =
  cl_config :: client_config
  cl_connection :: connection
  cl_recovery :: recovery
  cl_connection_view :: connection_view
  cl_last_error :: "rpc_error option"
  cl_now :: u64
  cl_ids :: id_gen
  cl_next_request :: u64
  cl_next_client_seq :: client_seq
  cl_in_flight :: "request_id \<rightharpoonup> in_flight"
  cl_latest_open :: "request_id option"
  cl_snapshot_events :: "request_id \<rightharpoonup> review_id \<times> event list"
  cl_pending :: "pending list"
  cl_committed :: "review_snapshot option"
  cl_open :: "open_review option"
  cl_draft :: "draft option"
  cl_pending_refresh :: bool
  cl_deferred :: "event list"
  cl_files :: "render_key list"
  cl_latest_files :: "request_id option"
  cl_progress :: "(ulid, suggestion_state) table"
  cl_workspaces :: "workspace list"
  cl_reviews :: "review list"

type_synonym handler = "client \<Rightarrow> (client_error, effect list) result \<times> client"

definition client_new :: "client_config \<Rightarrow> u128 \<Rightarrow> client" where
  "client_new config seed =
     \<lparr>cl_config = config, cl_connection = Conn_Disconnected None, cl_recovery = Recovery_Idle,
      cl_connection_view = View_Disconnected, cl_last_error = None, cl_now = 0,
      cl_ids = \<lparr>ig_seed = seed, ig_counter = 0\<rparr>, cl_next_request = 1, cl_next_client_seq = 1,
      cl_in_flight = Map.empty, cl_latest_open = None, cl_snapshot_events = Map.empty, cl_pending = [],
      cl_committed = None, cl_open = None, cl_draft = None, cl_pending_refresh = False, cl_deferred = [],
      cl_files = [], cl_latest_files = None, cl_progress = tbl_empty, cl_workspaces = [], cl_reviews = []\<rparr>"

definition wrong_state :: "input_kind \<Rightarrow> client \<Rightarrow> client_error" where
  "wrong_state input c = Client_WrongConnectionState input (conn_kind (cl_connection c))"

definition require_subscribed :: "client \<Rightarrow> (client_error, unit) result" where
  "require_subscribed c = (case cl_connection c of Conn_Subscribed _ \<Rightarrow> Inr () | _ \<Rightarrow> Inl (wrong_state Input_User c))"

text \<open>The open review, if it is this one.\<close>

definition open_is :: "review_id \<Rightarrow> client \<Rightarrow> bool" where
  "open_is review c \<longleftrightarrow> (case cl_open c of None \<Rightarrow> False | Some op \<Rightarrow> rv_id (sn_review (op_snapshot op)) = review)"

definition open_review_id :: "client \<Rightarrow> (client_error, review_id) result" where
  "open_review_id c = ok_or Client_NoOpenReview (map_option (\<lambda>op. rv_id (sn_review (op_snapshot op))) (cl_open c))"

section \<open>Requests\<close>

fun is_opening :: "in_flight \<Rightarrow> bool" where
  "is_opening (Flight_OpenReview _ _) \<longleftrightarrow> True"
| "is_opening (Flight_ReviewSnapshot _) \<longleftrightarrow> True"
| "is_opening _ \<longleftrightarrow> False"

fun snapshot_request :: "client_request \<Rightarrow> review_id option" where
  "snapshot_request (Req_OpenReview review _) = Some review"
| "snapshot_request (Req_ReviewSnapshot review) = Some review"
| "snapshot_request _ = None"

definition send_request :: "client_request \<Rightarrow> in_flight \<Rightarrow> client \<Rightarrow> effect \<times> client" where
  "send_request req waiting c =
     (let rid = RequestId (cl_next_request c) in
      (Eff_Send (Client_Request rid req),
       c\<lparr>cl_next_request := cl_next_request c + 1,
         cl_latest_open := (if is_opening waiting then Some rid else cl_latest_open c),
         cl_snapshot_events := (case snapshot_request req of
             Some review \<Rightarrow> (cl_snapshot_events c)(rid \<mapsto> (review, []))
           | None \<Rightarrow> cl_snapshot_events c),
         cl_latest_files := (case req of Req_ListFiles _ _ \<Rightarrow> Some rid | _ \<Rightarrow> cl_latest_files c),
         cl_in_flight := (cl_in_flight c)(rid \<mapsto> waiting)\<rparr>))"

fun send_requests :: "(client_request \<times> in_flight) list \<Rightarrow> client \<Rightarrow> effect list \<times> client" where
  "send_requests [] c = ([], c)"
| "send_requests ((req, waiting) # rest) c =
     (let (effect, c1) = send_request req waiting c; (effects, c2) = send_requests rest c1 in (effect # effects, c2))"

text \<open>A request that is answered: \<open>in_flight.remove\<close> with \<open>snapshot_events.remove\<close>.\<close>

definition forget_request :: "request_id \<Rightarrow> client \<Rightarrow> client" where
  "forget_request rid c =
     c\<lparr>cl_in_flight := (cl_in_flight c)(rid := None), cl_snapshot_events := (cl_snapshot_events c)(rid := None)\<rparr>"

definition clear_in_flight :: "client \<Rightarrow> client" where
  "clear_in_flight c =
     c\<lparr>cl_snapshot_events := Map.empty, cl_latest_open := None, cl_in_flight := Map.empty,
       cl_pending := map (\<lambda>p. if pd_delivery p = AwaitingReceipt then p\<lparr>pd_delivery := OutcomeUnknown\<rparr> else p) (cl_pending c)\<rparr>"

section \<open>Mutations\<close>

text \<open>The timestamp is the clock as a signed number, the greatest one when it does not fit.\<close>

definition meta_now :: "client \<Rightarrow> event_meta" where
  "meta_now c = \<lparr>em_author = cf_author (cl_config c), em_ts = min (uint (cl_now c)) (2 ^ 63 - 1)\<rparr>"

fun fold_pending :: "author \<Rightarrow> pending list \<Rightarrow> review_snapshot \<Rightarrow> view_section list \<times> review_snapshot" where
  "fold_pending author [] sn = ([], sn)"
| "fold_pending author (p # ps) sn =
     (let (sections, sn1) = fold_body \<lparr>em_author = author, em_ts = pd_ts p\<rparr> (pd_body p) sn;
          (more, sn2) = fold_pending author ps sn1
      in (sections @ more, sn2))"

definition rebase :: "client \<Rightarrow> view_section list \<times> client" where
  "rebase c =
     (case (cl_committed c, cl_open c) of
        (Some committed, Some op) \<Rightarrow>
          (let (sections, shown) = fold_pending (cf_author (cl_config c)) (cl_pending c) committed;
               mirrored = map (\<lambda>p. (pd_client_seq p, pd_body p)) (cl_pending c)
           in (sections @ (if op_pending op \<noteq> [] \<and> mirrored = [] then [Section_Threads] else []),
               c\<lparr>cl_open := Some \<lparr>op_snapshot = shown, op_pending = mirrored\<rparr>\<rparr>))
      | _ \<Rightarrow> ([], c))"

text \<open>Whether there was a pending mutation to retire.\<close>

definition retire_pending :: "client_seq \<Rightarrow> client \<Rightarrow> bool \<times> client" where
  "retire_pending q c =
     (let kept = filter (\<lambda>p. pd_client_seq p \<noteq> q) (cl_pending c)
      in (length kept \<noteq> length (cl_pending c), c\<lparr>cl_pending := kept\<rparr>))"

definition mutate_with :: "mutation \<Rightarrow> event_body \<Rightarrow> client \<Rightarrow> effect list \<times> client" where
  "mutate_with m body c =
     (let q = cl_next_client_seq c;
          c1 = c\<lparr>cl_next_client_seq := client_seq_next q,
                 cl_pending := cl_pending c @ [\<lparr>pd_client_seq = q, pd_ts = em_ts (meta_now c), pd_mutation = m,
                   pd_body = body, pd_delivery = AwaitingReceipt\<rparr>]\<rparr>;
          (send, c2) = send_request (Req_Mutate q m) (Flight_Mutate q) c1;
          (sections, c3) = rebase c2
      in ([send, Eff_Render sections], c3))"

definition mutate :: "mutation \<Rightarrow> handler" where
  "mutate m c =
     (case bindR (require_subscribed c) (\<lambda>_.
           bindR (ok_or Client_NoOpenReview (cl_open c)) (\<lambda>op.
             map_err Client_Mutation (local_event (op_snapshot op) (meta_now c) m))) of
        Inl e \<Rightarrow> (Inl e, c)
      | Inr body \<Rightarrow> (let (effects, c') = mutate_with m body c in (Inr effects, c')))"

definition close_review :: "client \<Rightarrow> client" where
  "close_review c =
     c\<lparr>cl_open := None, cl_draft := None, cl_pending_refresh := False, cl_latest_files := None, cl_deferred := [],
       cl_committed := None, cl_pending := [], cl_progress := tbl_empty, cl_files := []\<rparr>"

section \<open>Committed events\<close>

fun held_for_snapshot :: "event_body \<Rightarrow> bool" where
  "held_for_snapshot (ReviewRequested _ _ _ _ _) \<longleftrightarrow> True"
| "held_for_snapshot (ReviewChecked _ _ _ _) \<longleftrightarrow> True"
| "held_for_snapshot (SuggestionApplied _ _ _ _ _) \<longleftrightarrow> True"
| "held_for_snapshot (ReviewTargetsResolved _ _) \<longleftrightarrow> True"
| "held_for_snapshot _ \<longleftrightarrow> False"

definition hold_for_snapshots :: "event \<Rightarrow> client \<Rightarrow> client" where
  "hold_for_snapshots e c =
     (if held_for_snapshot (ev_body e)
      then c\<lparr>cl_snapshot_events := (\<lambda>rid. map_option (\<lambda>(review, es).
               (review, if body_review_id (ev_body e) = Some review \<and> \<not> list_ex (\<lambda>x. ev_seq x = ev_seq e) es
                        then es @ [e] else es)) (cl_snapshot_events c rid))\<rparr>
      else c)"

text \<open>The lists of reviews and workspaces.\<close>

fun note_event :: "event_body \<Rightarrow> client \<Rightarrow> view_section list \<times> client" where
  "note_event (ReviewCreated review) c =
     ([Section_ReviewList], c\<lparr>cl_reviews := filter (\<lambda>r. rv_id r \<noteq> rv_id review) (cl_reviews c) @ [review]\<rparr>)"
| "note_event (ReviewUpdated review title status) c =
     (if list_ex (\<lambda>r. rv_id r = review) (cl_reviews c)
      then ([Section_ReviewList], c\<lparr>cl_reviews := update_first (\<lambda>r. rv_id r = review)
              (\<lambda>r. r\<lparr>rv_title := title, rv_status := status\<rparr>) (cl_reviews c)\<rparr>)
      else ([], c))"
| "note_event (ReviewTargetUpdated review target) c =
     (case find (\<lambda>r. rv_id r = review) (cl_reviews c) of
        None \<Rightarrow> ([], c)
      | Some r \<Rightarrow>
          (case replace_target target (ne_items (rv_targets r)) of
             None \<Rightarrow> ([], c)
           | Some ts \<Rightarrow> ([Section_ReviewList], c\<lparr>cl_reviews := update_first (\<lambda>r. rv_id r = review)
               (\<lambda>r. r\<lparr>rv_targets := NonEmpty ts\<rparr>) (cl_reviews c)\<rparr>)))"
| "note_event (ReviewDeleted review) c =
     (let kept = filter (\<lambda>r. rv_id r \<noteq> review) (cl_reviews c);
          sections = (if length kept \<noteq> length (cl_reviews c) then [Section_ReviewList] else []);
          c1 = c\<lparr>cl_reviews := kept\<rparr>
      in if open_is review c1
         then (sections @ [Section_ReviewList, Section_Diff, Section_Threads, Section_Draft], close_review c1)
         else (sections, c1))"
| "note_event (WorkspaceCreated workspace) c =
     ([Section_ReviewList],
      c\<lparr>cl_workspaces := filter (\<lambda>w. ws_id w \<noteq> ws_id workspace) (cl_workspaces c) @ [workspace]\<rparr>)"
| "note_event (WorkspaceUpdated wid name) c =
     (if list_ex (\<lambda>w. ws_id w = wid) (cl_workspaces c)
      then ([Section_ReviewList], c\<lparr>cl_workspaces := update_first (\<lambda>w. ws_id w = wid) (\<lambda>w. w\<lparr>ws_name := name\<rparr>) (cl_workspaces c)\<rparr>)
      else ([], c))"
| "note_event (RepoAttached wid repo) c =
     (if list_ex (\<lambda>w. ws_id w = wid) (cl_workspaces c)
      then ([Section_ReviewList], c\<lparr>cl_workspaces := update_first (\<lambda>w. ws_id w = wid)
              (\<lambda>w. w\<lparr>ws_repos := filter (\<lambda>r. rp_id r \<noteq> rp_id repo) (ws_repos w) @ [repo]\<rparr>) (cl_workspaces c)\<rparr>)
      else ([], c))"
| "note_event (RepoDetached wid repo_id) c =
     (if list_ex (\<lambda>w. ws_id w = wid) (cl_workspaces c)
      then ([Section_ReviewList], c\<lparr>cl_workspaces := update_first (\<lambda>w. ws_id w = wid)
              (\<lambda>w. w\<lparr>ws_repos := filter (\<lambda>r. rp_id r \<noteq> repo_id) (ws_repos w)\<rparr>) (cl_workspaces c)\<rparr>)
      else ([], c))"
| "note_event _ c = ([], c)"

text \<open>A refresh is held back while a draft is open.\<close>

definition hold_back :: "event \<Rightarrow> client \<Rightarrow> effect list \<times> client" where
  "hold_back e c =
     (let c1 = c\<lparr>cl_deferred := cl_deferred c @ [e]\<rparr>
      in if cl_pending_refresh c then ([], c1) else ([Eff_Render [Section_Draft]], c1\<lparr>cl_pending_refresh := True\<rparr>))"

definition supersede_opening :: "review_id \<Rightarrow> client \<Rightarrow> client" where
  "supersede_opening review c =
     c\<lparr>cl_in_flight := (\<lambda>rid. map_option (\<lambda>waiting.
         if waiting = Flight_OpenReview review Content_Streaming then Flight_OpenReview review Content_Superseded
         else waiting) (cl_in_flight c rid))\<rparr>"

fun is_resolved_body :: "event_body \<Rightarrow> bool" where
  "is_resolved_body (ReviewTargetsResolved _ _) \<longleftrightarrow> True"
| "is_resolved_body _ \<longleftrightarrow> False"

text \<open>The changed files of a review are asked for, under the scope of everything.\<close>

definition list_files :: "review_id \<Rightarrow> client \<Rightarrow> effect list \<times> client" where
  "list_files review c =
     (let (send, c') = send_request (Req_ListFiles review Scope_All) (Flight_ListFiles review) c in ([send], c'))"

text \<open>
  An event of the open review goes into the committed snapshot, and the pending mutations on top of it; new
  targets have other files.
\<close>

definition fold_committed :: "event \<Rightarrow> view_section list \<Rightarrow> client \<Rightarrow> effect list \<times> client" where
  "fold_committed e sections c =
     (let (requests, all, c') =
        (case cl_committed c of
           None \<Rightarrow> ([], sections, c)
         | Some committed \<Rightarrow>
             if body_review_id (ev_body e) = Some (rv_id (sn_review committed))
             then
               (let resolved = is_resolved_body (ev_body e); review = rv_id (sn_review committed);
                    c1 = (if resolved then (supersede_opening review c)\<lparr>cl_files := []\<rparr> else c);
                    (folded, sn) = fold_event e committed;
                    (rebased, c2) = rebase (c1\<lparr>cl_committed := Some sn\<rparr>);
                    (listing, c3) = (if resolved then list_files review c2 else ([], c2))
                in (listing, sections @ (if resolved then [Section_Diff] else []) @ folded @ rebased
                      @ (if resolved then [Section_ReviewList] else []), c3))
             else ([], sections, c))
      in (requests @ (if all = [] then [] else [Eff_Render all]), c'))"

definition client_apply_event :: "event \<Rightarrow> client \<Rightarrow> effect list \<times> client" where
  "client_apply_event e c =
     (let c0 = hold_for_snapshots e c;
          c1 = (if ev_client_id e = cf_client_id (cl_config c0) then snd (retire_pending (ev_client_seq e) c0) else c0)
      in case ev_body e of
           ReviewTargetsResolved review targets \<Rightarrow>
             if open_is review c1 \<and> cl_draft c1 \<noteq> None then hold_back e c1 else fold_committed e [] c1
         | body \<Rightarrow> (let (sections, c2) = note_event body c1 in fold_committed e sections c2))"

text \<open>The refreshes that waited for the draft, when it closes; one render for all of them.\<close>

fun effect_sections :: "effect \<Rightarrow> view_section list" where
  "effect_sections (Eff_Render sections) = sections"
| "effect_sections _ = []"

fun is_render :: "effect \<Rightarrow> bool" where
  "is_render (Eff_Render _) \<longleftrightarrow> True"
| "is_render _ \<longleftrightarrow> False"

fun apply_each :: "event list \<Rightarrow> client \<Rightarrow> effect list \<times> client" where
  "apply_each [] c = ([], c)"
| "apply_each (e # es) c =
     (let (effects, c1) = client_apply_event e c; (more, c2) = apply_each es c1 in (effects @ more, c2))"

definition drain_deferred :: "client \<Rightarrow> effect list \<times> client" where
  "drain_deferred c =
     (let (effects, c') = apply_each (cl_deferred c) (c\<lparr>cl_deferred := [], cl_pending_refresh := False\<rparr>)
      in (filter (\<lambda>x. \<not> is_render x) effects
            @ [Eff_Render ([Section_Draft, Section_Focus] @ concat (map effect_sections effects))], c'))"

section \<open>Snapshots\<close>

definition replay_held :: "event list \<Rightarrow> review_snapshot \<Rightarrow> review_snapshot" where
  "replay_held es snapshot =
     foldl (\<lambda>sn e. if sn_seq snapshot < ev_seq e then snd (fold_event e sn) else sn) snapshot (sort_key ev_seq es)"

text \<open>Receipts the client knows of and the snapshot is too old for.\<close>

definition newer_receipt :: "review_snapshot \<Rightarrow> suggestion_record \<Rightarrow> bool" where
  "newer_receipt snapshot known \<longleftrightarrow>
     (case sg_outcome known of Outcome_Applied receipt \<Rightarrow> sn_seq snapshot < sr_seq receipt | Outcome_Unapplied \<Rightarrow> False)"

definition keep_receipts :: "suggestion_record list \<Rightarrow> review_snapshot \<Rightarrow> review_snapshot" where
  "keep_receipts known snapshot =
     foldl (\<lambda>sn k. sn\<lparr>sn_suggestions := update_first (\<lambda>r. sg_comment_id r = sg_comment_id k)
                        (\<lambda>r. r\<lparr>sg_outcome := sg_outcome k\<rparr>) (sn_suggestions sn)\<rparr>)
       snapshot (filter (newer_receipt snapshot) known)"

text \<open>Pending mutations and the progress of suggestions survive when it is the same review.\<close>

definition install_snapshot :: "request_id \<Rightarrow> review_snapshot \<Rightarrow> client \<Rightarrow> client" where
  "install_snapshot rid snapshot c =
     (let sn1 = (case cl_snapshot_events c rid of None \<Rightarrow> snapshot | Some (_, es) \<Rightarrow> replay_held es snapshot);
          c0 = c\<lparr>cl_snapshot_events := (cl_snapshot_events c)(rid := None)\<rparr>;
          (survivors, progress, sn2) = (case cl_committed c of
             Some committed \<Rightarrow>
               if rv_id (sn_review committed) = rv_id (sn_review sn1)
               then (cl_pending c, cl_progress c, keep_receipts (sn_suggestions committed) sn1) else ([], tbl_empty, sn1)
           | None \<Rightarrow> ([], tbl_empty, sn1))
      in snd (rebase ((close_review c0)\<lparr>cl_progress := progress, cl_committed := Some sn2,
           cl_open := Some \<lparr>op_snapshot = sn2, op_pending = []\<rparr>, cl_pending := survivors\<rparr>)))"

definition opened_sections :: "view_section list" where
  "opened_sections =
     [Section_ReviewList, Section_Diff, Section_Threads, Section_Conversation, Section_Draft, Section_Focus]"

end
