(* ===== verification/Nits_Client_Suggestions.thy ===== *)
theory Nits_Client_Suggestions
  imports Nits_Client_State
begin

text \<open>
  Suggestions on the client, \<open>crates/nits-client-core/src/suggestion.rs\<close>: a suggestion is previewed before it
  can be applied, what the daemon answers, and what is not known after a lost connection. Moving the focus to
  the comment is left out.
\<close>

section \<open>What is shown of a suggestion\<close>

datatype suggestion_status =
    Status_Unloaded
  | Status_Loading
  | Status_Ready
  | Status_Stale
  | Status_Rejected suggestion_message
  | Status_Applying
  | Status_Uncertain suggestion_message
  | Status_Applied

definition suggestion_default :: suggestion_state where
  "suggestion_default = \<lparr>ss_inspection = None, ss_notice = None, ss_stage = Stage_Idle\<rparr>"

fun inspection_status :: "inspection_report option \<Rightarrow> suggestion_status" where
  "inspection_status None = Status_Unloaded"
| "inspection_status (Some (Report_Rejected reason)) = Status_Rejected (Message_Text reason)"
| "inspection_status (Some (Report_Checked _ Report_Original)) = Status_Ready"
| "inspection_status (Some (Report_Checked _ Report_Changed)) = Status_Stale"
| "inspection_status (Some (Report_Checked _ (Report_Unavailable reason))) = Status_Rejected (Message_Text reason)"
| "inspection_status (Some (Report_Checked _ Report_Proposed)) = Status_Uncertain Message_AlreadyPresent"

fun stage_status :: "suggestion_stage \<Rightarrow> inspection_report option \<Rightarrow> suggestion_status" where
  "stage_status (Stage_Checking _) _ = Status_Loading"
| "stage_status (Stage_Applying _) _ = Status_Applying"
| "stage_status (Stage_Uncertain message) _ = Status_Uncertain message"
| "stage_status (Stage_Rejected message) _ = Status_Rejected message"
| "stage_status Stage_Idle inspection = inspection_status inspection"

definition suggestion_status_of :: "suggestion_state \<Rightarrow> suggestion_record \<Rightarrow> suggestion_status" where
  "suggestion_status_of state record =
     (case sg_outcome record of
        Outcome_Applied _ \<Rightarrow> Status_Applied
      | Outcome_Unapplied \<Rightarrow> stage_status (ss_stage state) (ss_inspection state))"

definition suggestion_progress :: "comment_id \<Rightarrow> client \<Rightarrow> suggestion_state" where
  "suggestion_progress cid c =
     (case tbl_get (cl_progress c) (comment_key cid) of None \<Rightarrow> suggestion_default | Some state \<Rightarrow> state)"

definition set_progress :: "comment_id \<Rightarrow> suggestion_state \<Rightarrow> client \<Rightarrow> client" where
  "set_progress cid state c = c\<lparr>cl_progress := tbl_insert (comment_key cid) state (cl_progress c)\<rparr>"

text \<open>The suggestion of a comment that is shown and not deleted.\<close>

definition suggestion_record_of :: "comment_id \<Rightarrow> client \<Rightarrow> (client_error, suggestion_record) result" where
  "suggestion_record_of cid c =
     bindR (ok_or Client_NoOpenReview (cl_open c)) (\<lambda>op.
       if \<not> list_ex (\<lambda>x. cm_id x = cid \<and> cm_state x \<noteq> State_Deleted) (sn_comments (op_snapshot op))
       then Inl (Client_Mutation (Local_UnknownComment cid))
       else ok_or (Client_Mutation (Local_UnknownComment cid))
              (find (\<lambda>r. sg_comment_id r = cid) (sn_suggestions (op_snapshot op))))"

definition suggestion_sections :: "view_section list" where
  "suggestion_sections = [Section_Threads, Section_Conversation]"

section \<open>Asking\<close>

fun is_busy :: "suggestion_stage \<Rightarrow> bool" where
  "is_busy (Stage_Checking _) \<longleftrightarrow> True"
| "is_busy (Stage_Applying _) \<longleftrightarrow> True"
| "is_busy _ \<longleftrightarrow> False"

definition client_preview_suggestion :: "comment_id \<Rightarrow> handler" where
  "client_preview_suggestion cid c =
     (case bindR (require_subscribed c) (\<lambda>_. suggestion_record_of cid c) of
        Inl e \<Rightarrow> (Inl e, c)
      | Inr record \<Rightarrow>
          (let review = sg_review_id record; state = suggestion_progress cid c in
           if is_busy (ss_stage state) then (Inr [], c)
           else
             (let c1 = set_progress cid (state\<lparr>ss_stage := Stage_Checking (RequestId (cl_next_request c))\<rparr>) c;
                  (send, c2) = send_request (Req_PreviewSuggestion review cid) (Flight_PreviewSuggestion review cid) c1
              in (Inr [send, Eff_Render (suggestion_sections @ [Section_Focus])], c2))))"

text \<open>Only a suggestion whose preview is ready is applied; the request is no pending mutation.\<close>

definition client_apply_suggestion :: "comment_id \<Rightarrow> handler" where
  "client_apply_suggestion cid c =
     (case bindR (require_subscribed c) (\<lambda>_. suggestion_record_of cid c) of
        Inl e \<Rightarrow> (Inl e, c)
      | Inr record \<Rightarrow>
          (let review = sg_review_id record; state = suggestion_progress cid c in
           case suggestion_status_of state record of
             Status_Applying \<Rightarrow> (Inr [], c)
           | Status_Applied \<Rightarrow> (Inr [], c)
           | Status_Ready \<Rightarrow>
               (let q = cl_next_client_seq c;
                    c1 = set_progress cid (state\<lparr>ss_stage := Stage_Applying (RequestId (cl_next_request c))\<rparr>) c;
                    c2 = c1\<lparr>cl_next_client_seq := client_seq_next q\<rparr>;
                    (send, c3) = send_request (Req_Mutate q (Mut_ApplySuggestion review cid)) (Flight_ApplySuggestion review cid) c2
                in (Inr [send, Eff_Render (suggestion_sections @ [Section_Focus])], c3))
           | _ \<Rightarrow> (Inl (Client_SuggestionNotReady cid), c)))"

section \<open>What the daemon answers\<close>

fun is_application :: "review_id \<Rightarrow> comment_id \<Rightarrow> event_body \<Rightarrow> bool" where
  "is_application review cid (SuggestionApplied review' cid' _ _ _) \<longleftrightarrow> review' = review \<and> cid' = cid"
| "is_application review cid _ \<longleftrightarrow> False"

text \<open>
  The answer to an application carries its event, which is folded whatever its number; the broadcast of the
  event may have come before.
\<close>

definition client_suggestion_applied :: "request_id \<Rightarrow> review_id \<Rightarrow> comment_id \<Rightarrow> event \<Rightarrow> handler" where
  "client_suggestion_applied rid review cid e c =
     (if \<not> is_application review cid (ev_body e)
      then (Inl (Client_UnexpectedResponse rid ''Committed application of the requested suggestion'' ''Another committed event''), c)
      else
        (let c1 = (if open_is review c
                   then (case tbl_get (cl_progress c) (comment_key cid) of
                           Some state \<Rightarrow>
                             if ss_stage state = Stage_Applying rid then set_progress cid (state\<lparr>ss_stage := Stage_Idle\<rparr>) c else c
                         | None \<Rightarrow> c)
                   else c)
         in case cl_connection c1 of
              Conn_Subscribed seen \<Rightarrow>
                (let (effects, c2) = client_apply_event e (c1\<lparr>cl_connection := Conn_Subscribed (max seen (ev_seq e))\<rparr>)
                 in (Inr effects, c2))
            | _ \<Rightarrow> (Inl (wrong_state Input_Server c1), c1)))"

text \<open>
  A preview of the suggestion that was asked for. A receipt it tells of goes into the committed snapshot,
  unless that has one as new.
\<close>

definition take_receipt :: "comment_id \<Rightarrow> suggestion_receipt \<Rightarrow> review_snapshot \<Rightarrow> review_snapshot" where
  "take_receipt cid receipt sn =
     sn\<lparr>sn_suggestions := update_first (\<lambda>r. sg_comment_id r = cid)
          (\<lambda>r. case sg_outcome r of
                 Outcome_Unapplied \<Rightarrow> r\<lparr>sg_outcome := Outcome_Applied receipt\<rparr>
               | Outcome_Applied known \<Rightarrow>
                   if sr_seq known < sr_seq receipt then r\<lparr>sg_outcome := Outcome_Applied receipt\<rparr> else r)
          (sn_suggestions sn)\<rparr>"

definition client_suggestion_previewed :: "request_id \<Rightarrow> review_id \<Rightarrow> comment_id \<Rightarrow> preview_report \<Rightarrow> handler" where
  "client_suggestion_previewed rid review cid preview c =
     (if \<not> open_is review c then (Inr [], c)
      else case suggestion_record_of cid c of
        Inl e \<Rightarrow> (Inl e, c)
      | Inr record \<Rightarrow>
          (let told = pr_suggestion preview in
           if sg_review_id told \<noteq> review \<or> sg_comment_id told \<noteq> cid \<or> sg_anchor told \<noteq> sg_anchor record
              \<or> sg_patch told \<noteq> sg_patch record
           then (Inl (Client_UnexpectedResponse rid ''Preview of the immutable suggestion'' ''Preview for another suggestion''), c)
           else case tbl_get (cl_progress c) (comment_key cid) of
             None \<Rightarrow> (Inr [], c)
           | Some state \<Rightarrow>
               if ss_stage state \<noteq> Stage_Checking rid then (Inr [], c)
               else
                 (let c1 = set_progress cid (state\<lparr>ss_inspection := Some (pr_inspection preview), ss_stage := Stage_Idle\<rparr>) c;
                      c2 = (case (sg_outcome told, cl_committed c1) of
                              (Outcome_Applied receipt, Some committed) \<Rightarrow>
                                if list_ex (\<lambda>r. sg_comment_id r = cid) (sn_suggestions committed)
                                then snd (rebase (c1\<lparr>cl_committed := Some (take_receipt cid receipt committed)\<rparr>))
                                else c1
                            | _ \<Rightarrow> c1)
                  in (Inr [Eff_Render suggestion_sections], c2))))"

text \<open>A refused application may still have changed the file: it is uncertain until it is read again.\<close>

definition client_suggestion_failed :: "request_id \<Rightarrow> review_id \<Rightarrow> comment_id \<Rightarrow> rpc_error \<Rightarrow> client \<Rightarrow> effect list \<times> client" where
  "client_suggestion_failed rid review cid error c =
     (if \<not> open_is review c then ([], c)
      else
        (let applied = (case suggestion_record_of cid c of
                          Inl _ \<Rightarrow> False
                        | Inr record \<Rightarrow> (case sg_outcome record of Outcome_Applied _ \<Rightarrow> True | Outcome_Unapplied \<Rightarrow> False))
         in case tbl_get (cl_progress c) (comment_key cid) of
              None \<Rightarrow> ([], c)
            | Some state \<Rightarrow>
                if applied then ([Eff_Render suggestion_sections], set_progress cid (state\<lparr>ss_stage := Stage_Idle\<rparr>) c)
                else if ss_stage state = Stage_Applying rid
                then ([Eff_Render suggestion_sections],
                      set_progress cid (state\<lparr>ss_notice := Some (Message_Error error), ss_stage := Stage_Uncertain (Message_Error error)\<rparr>) c)
                else if ss_stage state = Stage_Checking rid
                then ([Eff_Render suggestion_sections], set_progress cid (state\<lparr>ss_stage := Stage_Rejected (Message_Error error)\<rparr>) c)
                else ([], c)))"

section \<open>Lost connections\<close>

definition lose_suggestion :: "suggestion_state \<Rightarrow> suggestion_state" where
  "lose_suggestion state = (if is_busy (ss_stage state) then state\<lparr>ss_stage := Stage_Uncertain Message_ConnectionLost\<rparr> else state)"

text \<open>Whether something changed.\<close>

definition suggestions_disconnected :: "client \<Rightarrow> bool \<times> client" where
  "suggestions_disconnected c =
     (list_ex (\<lambda>state. is_busy (ss_stage state)) (tbl_values (cl_progress c)),
      c\<lparr>cl_progress := foldl (\<lambda>t (k, state). tbl_insert k (lose_suggestion state) t) (cl_progress c)
          (tbl_entries (cl_progress c))\<rparr>)"

text \<open>What is uncertain is read again, and never written again.\<close>

fun preview_each :: "comment_id list \<Rightarrow> client \<Rightarrow> effect list \<times> client" where
  "preview_each [] c = ([], c)"
| "preview_each (cid # rest) c =
     (case client_preview_suggestion cid c of
        (out, c1) \<Rightarrow>
          (let (more, c2) = preview_each rest c1
           in ((case out of Inl _ \<Rightarrow> [] | Inr effects \<Rightarrow> effects) @ more, c2)))"

fun is_uncertain :: "suggestion_stage \<Rightarrow> bool" where
  "is_uncertain (Stage_Uncertain _) \<longleftrightarrow> True"
| "is_uncertain _ \<longleftrightarrow> False"

definition suggestions_reconnected :: "client \<Rightarrow> effect list \<times> client" where
  "suggestions_reconnected c =
     preview_each (map (CommentId \<circ> fst) (filter (\<lambda>(k, state). is_uncertain (ss_stage state)) (tbl_entries (cl_progress c)))) c"

end
