(* ===== verification/Nits_Client_Sync.thy ===== *)
theory Nits_Client_Sync
  imports Nits_Client_Suggestions
begin

text \<open>
  The handlers of the client state machine, \<open>ClientCore\<close> of \<open>crates/nits-client-core/src/lib.rs\<close> with
  \<open>lifecycle.rs\<close>, as far as it keeps a review in step with the daemon: the connection and its recovery from a
  planned restart, the frames of the daemon, the editing of comments and threads, viewed marks and suggestions.
  A handler is a function from the state to an error or effects, and the new state. Not here: trees, renders,
  searches and their caches, the scope of the diff, focus, keys and layout, the creation form and the
  selection of refs, reference navigation and daemon management; the requests, effects and state changes a
  handler makes for those are left out of it, and what such a request answers is no input.
\<close>

section \<open>Restarts\<close>

definition u64_saturating_add :: "u64 \<Rightarrow> u64 \<Rightarrow> u64" where
  "u64_saturating_add a b = (if unat a + unat b < 2 ^ 64 then a + b else - 1)"

definition u8_saturating_add :: "u8 \<Rightarrow> u8 \<Rightarrow> u8" where
  "u8_saturating_add a b = (if unat a + unat b < 2 ^ 8 then a + b else - 1)"

definition restart_notice :: "upgrade_operation \<Rightarrow> client \<Rightarrow> effect list \<times> client" where
  "restart_notice operation c =
     ([Eff_Render [Section_Connection]],
      c\<lparr>cl_recovery := Recovery_Restarting operation (u64_saturating_add (cl_now c) 60000) (u64_saturating_add (cl_now c) 100) 0,
        cl_connection_view := View_Restarting operation\<rparr>)"

definition restart_disconnected_view :: "client \<Rightarrow> connection_view option \<times> client" where
  "restart_disconnected_view c =
     (case cl_recovery c of
        Recovery_Idle \<Rightarrow> (None, c)
      | Recovery_Restarting operation _ _ _ \<Rightarrow>
          if uo_target_protocol operation = protocol_CURRENT then (Some (View_Restarting operation), c)
          else (Some (View_UpgradeRequired protocol_CURRENT [uo_target_protocol operation]), c\<lparr>cl_recovery := Recovery_Idle\<rparr>))"

definition restart_tick :: "client \<Rightarrow> effect list \<times> client" where
  "restart_tick c =
     (case cl_recovery c of
        Recovery_Idle \<Rightarrow> ([], c)
      | Recovery_Restarting operation deadline next_attempt attempts \<Rightarrow>
          if deadline \<le> cl_now c
          then ([Eff_Disconnect, Eff_Render [Section_Connection]],
                (clear_in_flight (c\<lparr>cl_connection_view := View_RestartExpired (uo_id operation),
                    cl_connection := Conn_Disconnected (conn_last_seq (cl_connection c))\<rparr>))\<lparr>cl_recovery := Recovery_Idle\<rparr>)
          else (case cl_connection c of
                  Conn_Disconnected seen \<Rightarrow>
                    if next_attempt \<le> cl_now c
                    then ([Eff_Connect],
                          c\<lparr>cl_recovery := Recovery_Restarting operation deadline
                                (u64_saturating_add (cl_now c) (push_bit (min (unat attempts) 4) 250))
                                (u8_saturating_add attempts 1),
                            cl_connection := Conn_Connecting False seen\<rparr>)
                    else ([], c)
                | _ \<Rightarrow> ([], c)))"

section \<open>The transport\<close>

datatype transport_event = Transport_Connected | Transport_Disconnected

fun on_transport :: "transport_event \<Rightarrow> client \<Rightarrow> effect list \<times> client" where
  "on_transport Transport_Connected c =
     (case cl_connection c of
        Conn_Connecting False seen \<Rightarrow>
          ([Eff_Send (Client_Hello (cf_client_id (cl_config c)) protocol_CURRENT (cf_client (cl_config c)) (cf_author (cl_config c)))],
           c\<lparr>cl_connection := Conn_Connecting True seen\<rparr>)
      | _ \<Rightarrow> ([], c))"
| "on_transport Transport_Disconnected c =
     (let was_down = (conn_kind (cl_connection c) = Conn_Kind_Disconnected);
          (changed, c0) = suggestions_disconnected (c\<lparr>cl_connection := Conn_Disconnected (conn_last_seq (cl_connection c))\<rparr>);
          c1 = clear_in_flight c0
      in if was_down then ([], c1)
         else (let (view, c2) = restart_disconnected_view c1
               in ([Eff_Render ([Section_Connection] @ (if changed then suggestion_sections else []))],
                   c2\<lparr>cl_connection_view := (case view of None \<Rightarrow> View_Disconnected | Some v \<Rightarrow> v)\<rparr>)))"

section \<open>Frames of the daemon\<close>

definition on_welcome :: handler where
  "on_welcome c =
     (case cl_connection c of
        Conn_Connecting True seen \<Rightarrow>
          (let (send, c1) = send_request (Req_Subscribe Scope_Everything (case seen of Some q \<Rightarrow> Since_After q | None \<Rightarrow> Since_Now))
                 Flight_Subscribe c
           in (Inr [send], c1))
      | _ \<Rightarrow> (Inl (wrong_state Input_Server c), c))"

definition on_rejected :: "rpc_error \<Rightarrow> handler" where
  "on_rejected error c =
     (case cl_connection c of
        Conn_Connecting _ _ \<Rightarrow>
          (let c1 = clear_in_flight (c\<lparr>cl_connection := Conn_Disconnected (conn_last_seq (cl_connection c))\<rparr>) in
           case error of
             Rpc_UnsupportedProtocol client supported \<Rightarrow>
               (Inr [Eff_Render [Section_Connection]],
                c1\<lparr>cl_recovery := Recovery_Idle, cl_connection_view := View_UpgradeRequired protocol_CURRENT supported\<rparr>)
           | _ \<Rightarrow>
               if (case error of Rpc_Restarting _ \<Rightarrow> True | _ \<Rightarrow> False) \<and> cl_recovery c1 \<noteq> Recovery_Idle
               then (let (view, c2) = restart_disconnected_view c1
                     in (Inr [Eff_Render [Section_Connection]],
                         c2\<lparr>cl_connection_view := (case view of None \<Rightarrow> View_Rejected error | Some v \<Rightarrow> v)\<rparr>))
               else (Inl (Client_Rejected error),
                     c1\<lparr>cl_recovery := Recovery_Idle, cl_connection_view := View_Rejected error\<rparr>))
      | _ \<Rightarrow> (Inl (wrong_state Input_Server c), c))"

definition on_event :: "event \<Rightarrow> handler" where
  "on_event e c =
     (case cl_connection c of
        Conn_Subscribed seen \<Rightarrow>
          if ev_seq e = seen \<and> ev_client_id e = cf_client_id (cl_config c) then (Inr [], c)
          else if ev_seq e \<le> seen then (Inl (Client_StaleEvent (ev_seq e) seen), c)
          else (let (effects, c') = client_apply_event e (c\<lparr>cl_connection := Conn_Subscribed (ev_seq e)\<rparr>) in (Inr effects, c'))
      | Conn_Connecting True (Some seen) \<Rightarrow>
          if ev_seq e \<le> seen then (Inl (Client_StaleEvent (ev_seq e) seen), c)
          else (let (effects, c') = client_apply_event e (c\<lparr>cl_connection := Conn_Connecting True (Some (ev_seq e))\<rparr>)
                in (Inr effects, c'))
      | _ \<Rightarrow> (Inl (wrong_state Input_Server c), c))"

text \<open>What \<open>response\<close> expects for a request, and the name of what came.\<close>

fun expected_response :: "in_flight \<Rightarrow> string" where
  "expected_response Flight_Subscribe = ''Subscribed''"
| "expected_response (Flight_Mutate _) = ''Committed''"
| "expected_response Flight_ListWorkspaces = ''Workspaces''"
| "expected_response (Flight_ListReviews _) = ''Reviews''"
| "expected_response (Flight_OpenReview _ _) = ''StreamItem''"
| "expected_response (Flight_ReviewSnapshot _) = ''ReviewSnapshot''"
| "expected_response (Flight_ListFiles _) = ''Files''"
| "expected_response (Flight_PreviewSuggestion _ _) = ''SuggestionPreview''"
| "expected_response (Flight_ApplySuggestion _ _) = ''Committed''"

fun response_name :: "client_response \<Rightarrow> string" where
  "response_name (Resp_Subscribed _) = ''Subscribed''"
| "response_name (Resp_Workspaces _) = ''Workspaces''"
| "response_name (Resp_Reviews _) = ''Reviews''"
| "response_name (Resp_ReviewSnapshot _) = ''ReviewSnapshot''"
| "response_name (Resp_Committed _) = ''Committed''"
| "response_name (Resp_Files _ _) = ''Files''"
| "response_name (Resp_SuggestionPreview _) = ''SuggestionPreview''"

text \<open>The subscription is answered: mutations that were never admitted are sent again, under their number,
  and suggestions whose outcome is uncertain are read again.\<close>

definition on_subscribed :: "seq \<Rightarrow> handler" where
  "on_subscribed head c =
     (case cl_connection c of
        Conn_Connecting _ seen \<Rightarrow>
          (let resend = filter (\<lambda>p. pd_delivery p = NotAdmitted) (cl_pending c);
               c1 = c\<lparr>cl_connection := Conn_Subscribed (case seen of None \<Rightarrow> head | Some s \<Rightarrow> max s head),
                      cl_connection_view := View_Subscribed, cl_recovery := Recovery_Idle, cl_last_error := None,
                      cl_pending := map (\<lambda>p. if pd_delivery p = NotAdmitted then p\<lparr>pd_delivery := AwaitingReceipt\<rparr> else p)
                                      (cl_pending c)\<rparr>;
               (effects, c2) = send_requests (map (\<lambda>p. (Req_Mutate (pd_client_seq p) (pd_mutation p), Flight_Mutate (pd_client_seq p))) resend
                                 @ [(Req_ListWorkspaces, Flight_ListWorkspaces)]) c1;
               (previews, c3) = suggestions_reconnected c2
           in (Inr (effects @ previews @ [Eff_Render [Section_Connection]]), c3))
      | _ \<Rightarrow> (Inl (wrong_state Input_Server c), c))"

text \<open>A mutation is answered with its event: the answer and the broadcast carry the same event.\<close>

definition on_committed :: "client_seq \<Rightarrow> event \<Rightarrow> handler" where
  "on_committed q e c =
     (case cl_connection c of
        Conn_Subscribed seen \<Rightarrow>
          if ev_seq e \<le> seen
          then (let (retired, c1) = retire_pending q c in
                if retired then (let (sections, c2) = rebase c1 in (Inr [Eff_Render sections], c2)) else (Inr [], c1))
          else (let (effects, c') = client_apply_event e (c\<lparr>cl_connection := Conn_Subscribed (ev_seq e)\<rparr>) in (Inr effects, c'))
      | _ \<Rightarrow> (Inl (wrong_state Input_Server c), c))"

text \<open>The files of the review, when they are of the targets that are shown.\<close>

definition files_current :: "review_id \<Rightarrow> resolved_target list \<Rightarrow> client \<Rightarrow> bool" where
  "files_current review resolved c \<longleftrightarrow>
     (case cl_open c of
        None \<Rightarrow> False
      | Some op \<Rightarrow> rv_id (sn_review (op_snapshot op)) = review
          \<and> (case sn_resolved (op_snapshot op) of None \<Rightarrow> resolved = [] | Some targets \<Rightarrow> ne_items targets = resolved))"

definition on_files :: "request_id \<Rightarrow> review_id \<Rightarrow> file_change list \<Rightarrow> resolved_target list \<Rightarrow> client \<Rightarrow> client" where
  "on_files rid review files resolved c =
     (if cl_latest_files c = Some rid \<and> files_current review resolved c
      then c\<lparr>cl_latest_files := None,
             cl_files := map (\<lambda>f. \<lparr>rk_repo_id = fc_repo_id f, rk_path = fc_path f, rk_target = Target_Diff (fc_kind f),
                                  rk_opts = cf_render_opts (cl_config c)\<rparr>) files\<rparr>
      else c)"

definition wrong_response :: "request_id \<Rightarrow> in_flight \<Rightarrow> client_response \<Rightarrow> handler" where
  "wrong_response rid waiting response c =
     (Inl (Client_UnexpectedResponse rid (expected_response waiting) (response_name response)), c)"

definition on_workspaces :: "workspace list \<Rightarrow> handler" where
  "on_workspaces workspaces c =
     (let (effects, c1) = send_requests (map (\<lambda>w. (Req_ListReviews (ws_id w), Flight_ListReviews (ws_id w))) workspaces)
            (c\<lparr>cl_workspaces := workspaces\<rparr>)
      in (Inr (effects @ [Eff_Render [Section_ReviewList]]), c1))"

definition on_reviews :: "workspace_id \<Rightarrow> review list \<Rightarrow> handler" where
  "on_reviews wid reviews c =
     (Inr [Eff_Render [Section_ReviewList]],
      c\<lparr>cl_reviews := sort_key rv_created (filter (\<lambda>r. rv_workspace_id r \<noteq> wid) (cl_reviews c) @ reviews)\<rparr>)"

definition on_snapshot :: "request_id \<Rightarrow> review_id \<Rightarrow> review_snapshot \<Rightarrow> handler" where
  "on_snapshot rid review snapshot c =
     (if rv_id (sn_review snapshot) \<noteq> review
      then (Inl (Client_UnexpectedResponse rid ''ReviewSnapshot for the requested review'' ''ReviewSnapshot for another review''), c)
      else (let (listing, c1) = list_files review (install_snapshot rid snapshot c)
            in (Inr (listing @ [Eff_Render opened_sections]), c1)))"

definition answer :: "request_id \<Rightarrow> in_flight \<Rightarrow> client_response \<Rightarrow> handler" where
  "answer rid waiting response c =
     (let wrong = wrong_response rid waiting response c in
      case waiting of
        Flight_Subscribe \<Rightarrow> (case response of Resp_Subscribed head \<Rightarrow> on_subscribed head c | _ \<Rightarrow> wrong)
      | Flight_ListWorkspaces \<Rightarrow> (case response of Resp_Workspaces workspaces \<Rightarrow> on_workspaces workspaces c | _ \<Rightarrow> wrong)
      | Flight_ListReviews wid \<Rightarrow> (case response of Resp_Reviews reviews \<Rightarrow> on_reviews wid reviews c | _ \<Rightarrow> wrong)
      | Flight_ReviewSnapshot review \<Rightarrow>
          (case response of Resp_ReviewSnapshot snapshot \<Rightarrow> on_snapshot rid review snapshot c | _ \<Rightarrow> wrong)
      | Flight_ListFiles review \<Rightarrow>
          (case response of Resp_Files files resolved \<Rightarrow> (Inr [], on_files rid review files resolved c) | _ \<Rightarrow> wrong)
      | Flight_PreviewSuggestion review cid \<Rightarrow>
          (case response of Resp_SuggestionPreview preview \<Rightarrow> client_suggestion_previewed rid review cid preview c | _ \<Rightarrow> wrong)
      | Flight_ApplySuggestion review cid \<Rightarrow>
          (case response of Resp_Committed e \<Rightarrow> client_suggestion_applied rid review cid e c | _ \<Rightarrow> wrong)
      | Flight_Mutate q \<Rightarrow> (case response of Resp_Committed e \<Rightarrow> on_committed q e c | _ \<Rightarrow> wrong)
      | Flight_OpenReview _ _ \<Rightarrow> wrong)"

definition on_response :: "request_id \<Rightarrow> client_response \<Rightarrow> handler" where
  "on_response rid response c =
     (case cl_in_flight c rid of
        None \<Rightarrow> (Inl (Client_UnknownRequest rid), c)
      | Some waiting \<Rightarrow>
          if (case waiting of Flight_ReviewSnapshot _ \<Rightarrow> True | _ \<Rightarrow> False) \<and> cl_latest_open c \<noteq> Some rid
          then (Inr [], forget_request rid c)
          else (case answer rid waiting response c of
                  (Inl e, c') \<Rightarrow> (Inl e, c')
                | (Inr effects, c') \<Rightarrow> (Inr effects, forget_request rid c')))"

text \<open>The snapshot that opens a streamed review; the trees and renders after it are content.\<close>

definition on_streamed_snapshot :: "request_id \<Rightarrow> review_snapshot \<Rightarrow> handler" where
  "on_streamed_snapshot rid snapshot c =
     (case cl_in_flight c rid of
        None \<Rightarrow> (Inl (Client_UnknownRequest rid), c)
      | Some (Flight_OpenReview review content) \<Rightarrow>
          if content = Content_Superseded \<or> cl_latest_open c \<noteq> Some rid then (Inr [], c)
          else if rv_id (sn_review snapshot) \<noteq> review
          then (Inl (Client_UnexpectedResponse rid ''ReviewSnapshot for the requested review'' ''ReviewSnapshot''), c)
          else
            (let c1 = install_snapshot rid snapshot c;
                 current = (case cl_committed c1 of None \<Rightarrow> None | Some sn \<Rightarrow> sn_resolved sn);
                 content' = (if cl_open c1 = None then Content_Superseded
                             else if current = sn_resolved snapshot then Content_Streaming else Content_Superseded);
                 (listing, c2) = (if cl_open c1 \<noteq> None \<and> content' = Content_Superseded then list_files review c1 else ([], c1))
             in (Inr (listing @ [Eff_Render opened_sections]),
                 c2\<lparr>cl_in_flight := (cl_in_flight c2)(rid \<mapsto> Flight_OpenReview review content')\<rparr>))
      | Some _ \<Rightarrow> (Inl (Client_UnexpectedResponse rid ''Response'' ''ReviewSnapshot''), c))"

definition on_stream_end :: "request_id \<Rightarrow> handler" where
  "on_stream_end rid c =
     (case cl_in_flight c rid of
        None \<Rightarrow> (Inl (Client_UnknownRequest rid), c)
      | Some (Flight_OpenReview review content) \<Rightarrow>
          (Inr (if cl_latest_open c = Some rid \<and> content = Content_Streaming \<and> open_is review c
                then [Eff_Render [Section_Diff]] else []),
           forget_request rid c)
      | Some _ \<Rightarrow> (Inl (Client_UnexpectedResponse rid ''Response'' ''StreamEnd''), c))"

text \<open>A refused mutation is retired, unless its outcome is unknown or it may be sent again.\<close>

fun delivery_after :: "rpc_error \<Rightarrow> delivery option" where
  "delivery_after (Rpc_RestartInterrupted _) = Some OutcomeUnknown"
| "delivery_after (Rpc_Restarting _) = Some NotAdmitted"
| "delivery_after _ = None"

definition mutation_failed :: "client_seq \<Rightarrow> rpc_error \<Rightarrow> client \<Rightarrow> client" where
  "mutation_failed q error c =
     (case delivery_after error of
        Some d \<Rightarrow> c\<lparr>cl_pending := update_first (\<lambda>p. pd_client_seq p = q) (\<lambda>p. p\<lparr>pd_delivery := d\<rparr>) (cl_pending c)\<rparr>
      | None \<Rightarrow> snd (retire_pending q c))"

fun suggestion_flight :: "in_flight \<Rightarrow> (review_id \<times> comment_id) option" where
  "suggestion_flight (Flight_PreviewSuggestion review cid) = Some (review, cid)"
| "suggestion_flight (Flight_ApplySuggestion review cid) = Some (review, cid)"
| "suggestion_flight _ = None"

definition on_error :: "request_id \<Rightarrow> rpc_error \<Rightarrow> handler" where
  "on_error rid error c =
     (let c0 = c\<lparr>cl_snapshot_events := (cl_snapshot_events c)(rid := None)\<rparr> in
      case cl_in_flight c0 rid of
        None \<Rightarrow> (Inl (Client_UnknownRequest rid), c0)
      | Some waiting \<Rightarrow>
          (let c1 = c0\<lparr>cl_in_flight := (cl_in_flight c0)(rid := None)\<rparr> in
           if is_opening waiting \<and> cl_latest_open c1 \<noteq> Some rid then (Inr [], c1)
           else case suggestion_flight waiting of
             Some (review, cid) \<Rightarrow> (let (effects, c2) = client_suggestion_failed rid review cid error c1 in (Inr effects, c2))
           | None \<Rightarrow>
             (let c2 = c1\<lparr>cl_last_error := Some error,
                     cl_connection_view := (if waiting = Flight_Subscribe then View_Connecting else cl_connection_view c1)\<rparr>
              in case waiting of
                   Flight_Mutate q \<Rightarrow>
                     (let (sections, c3) = rebase (mutation_failed q error c2)
                      in (Inr [Eff_Render ([Section_Connection] @ sections @ [Section_Threads])], c3))
                 | _ \<Rightarrow> (Inr [Eff_Render [Section_Connection]], c2))))"

section \<open>Actions of the user\<close>

definition on_connect :: handler where
  "on_connect c =
     (case cl_connection c of
        Conn_Disconnected seen \<Rightarrow>
          (Inr [Eff_Connect, Eff_Render [Section_Connection]],
           c\<lparr>cl_connection := Conn_Connecting False seen, cl_recovery := Recovery_Idle, cl_connection_view := View_Connecting\<rparr>)
      | _ \<Rightarrow> (Inl (wrong_state Input_User c), c))"

definition on_disconnect :: handler where
  "on_disconnect c =
     (case cl_connection c of
        Conn_Disconnected _ \<Rightarrow> (Inl (wrong_state Input_User c), c)
      | _ \<Rightarrow> (Inr [Eff_Disconnect], c))"

definition requesting :: "client_request \<Rightarrow> in_flight \<Rightarrow> handler" where
  "requesting req waiting c =
     (case require_subscribed c of
        Inl e \<Rightarrow> (Inl e, c)
      | Inr _ \<Rightarrow> (let (send, c') = send_request req waiting c in (Inr [send], c')))"

definition on_open_review :: "review_id \<Rightarrow> handler" where
  "on_open_review review c =
     (if cf_disk (cl_config c) then requesting (Req_ReviewSnapshot review) (Flight_ReviewSnapshot review) c
      else requesting (Req_OpenReview review (cf_render_opts (cl_config c))) (Flight_OpenReview review Content_AwaitingSnapshot) c)"

definition on_close_review :: handler where
  "on_close_review c =
     (if cl_open c = None then (Inl Client_NoOpenReview, c)
      else (Inr [Eff_Render [Section_ReviewList, Section_Draft]], close_review (c\<lparr>cl_latest_open := None\<rparr>)))"

text \<open>Opening an editor on the review itself, as a reply and to defer a thread.\<close>

definition open_draft :: "draft \<Rightarrow> handler" where
  "open_draft d c =
     (if cl_draft c \<noteq> None then (Inl Client_DraftAlreadyOpen, c)
      else (Inr [Eff_Render [Section_Draft, Section_Focus]], c\<lparr>cl_draft := Some d\<rparr>))"

definition thread_root_of :: "review_snapshot \<Rightarrow> thread_id \<Rightarrow> (client_error, thread \<times> comment) result" where
  "thread_root_of sn tid =
     bindR (ok_or (Client_UnknownThread tid) (find (\<lambda>t. th_id t = tid) (sn_threads sn))) (\<lambda>th.
     bindR (ok_or (Client_UnknownThread tid) (find (\<lambda>c. cm_id c = th_root th) (sn_comments sn))) (\<lambda>root.
       Inr (th, root)))"

definition on_draft_opened :: handler where
  "on_draft_opened c =
     (if cl_open c = None then (Inl Client_NoOpenReview, c)
      else open_draft \<lparr>dr_anchor = Anchor_Review, dr_purpose = Draft_Comment Intent_Finding None\<rparr> c)"

definition on_reply_opened :: "thread_id \<Rightarrow> handler" where
  "on_reply_opened tid c =
     (case cl_open c of
        None \<Rightarrow> (Inl Client_NoOpenReview, c)
      | Some op \<Rightarrow>
          if cl_draft c \<noteq> None then (Inl Client_DraftAlreadyOpen, c)
          else (case thread_root_of (op_snapshot op) tid of
                  Inl e \<Rightarrow> (Inl e, c)
                | Inr (th, root) \<Rightarrow> open_draft \<lparr>dr_anchor = cm_anchor root, dr_purpose = Draft_Reply tid\<rparr> c))"

definition draft_closed :: "effect list \<Rightarrow> client \<Rightarrow> (client_error, effect list) result \<times> client" where
  "draft_closed effects c =
     (let (more, c') = drain_deferred (c\<lparr>cl_draft := None\<rparr>) in (Inr (effects @ more), c'))"

text \<open>The id of the comment is minted before anything can refuse the mutation.\<close>

definition on_draft_submitted :: "string \<Rightarrow> handler" where
  "on_draft_submitted body c =
     (case (cl_open c, cl_draft c) of
        (None, _) \<Rightarrow> (Inl Client_NoOpenReview, c)
      | (_, None) \<Rightarrow> (Inl Client_NoDraft, c)
      | (Some op, Some d) \<Rightarrow>
          (case require_subscribed c of
             Inl e \<Rightarrow> (Inl e, c)
           | Inr _ \<Rightarrow>
               (let review = rv_id (sn_review (op_snapshot op));
                    (cid, ids) = mint_comment_id (cl_now c) (cl_ids c);
                    c1 = c\<lparr>cl_ids := ids\<rparr>;
                    submit = (\<lambda>m. case mutate m c1 of
                        (Inl e, c2) \<Rightarrow> (Inl e, c2)
                      | (Inr effects, c2) \<Rightarrow> draft_closed effects c2)
                in case dr_purpose d of
                     Draft_Defer _ \<Rightarrow> (Inl Client_NoDraft, c1)
                   | Draft_Reply tid \<Rightarrow> submit (Mut_Reply review tid cid Kind_Note body)
                   | Draft_Comment intent context \<Rightarrow>
                       submit (Mut_AddComment review cid (kind_from_intent intent) (dr_anchor d) body context))))"

definition on_draft_discarded :: handler where
  "on_draft_discarded c = (if cl_draft c = None then (Inl Client_NoDraft, c) else draft_closed [] c)"

text \<open>An action on the open review, by its id.\<close>

definition on_review :: "(review_id \<Rightarrow> handler) \<Rightarrow> handler" where
  "on_review f c = (case open_review_id c of Inl e \<Rightarrow> (Inl e, c) | Inr review \<Rightarrow> f review c)"

definition on_reply :: "thread_id \<Rightarrow> string \<Rightarrow> handler" where
  "on_reply tid body =
     on_review (\<lambda>review c.
       let (cid, ids) = mint_comment_id (cl_now c) (cl_ids c)
       in mutate (Mut_Reply review tid cid Kind_Note body) (c\<lparr>cl_ids := ids\<rparr>))"

definition on_defer_thread :: "thread_id \<Rightarrow> deferral_reason \<Rightarrow> tracking_url option \<Rightarrow> handler" where
  "on_defer_thread tid reason url =
     on_review (\<lambda>review c.
       case mutate (Mut_DeferThread review tid reason url) c of
         (Inl e, c1) \<Rightarrow> (Inl e, c1)
       | (Inr effects, c1) \<Rightarrow>
           if map_option dr_purpose (cl_draft c1) = Some (Draft_Defer tid) then draft_closed effects c1 else (Inr effects, c1))"

text \<open>A file is marked at the content of the head that the list of changed files has.\<close>

definition on_mark_viewed :: "repo_id \<Rightarrow> repo_path \<Rightarrow> bool \<Rightarrow> handler" where
  "on_mark_viewed repo_id path viewed c =
     (case bindR (require_subscribed c) (\<lambda>_.
           bindR (ok_or Client_NoOpenReview (cl_open c)) (\<lambda>op.
           bindR (ok_or Client_NotHuman (as_human (cf_author (cl_config c)))) (\<lambda>human.
           bindR (ok_or (Client_UnknownFile repo_id path) (find (\<lambda>k. rk_repo_id k = repo_id \<and> rk_path k = path) (cl_files c))) (\<lambda>render.
             Inr (rv_id (sn_review (op_snapshot op)), human,
                  (case rk_target render of Target_Diff change \<Rightarrow> change_viewed_content change | Target_Blob entry \<Rightarrow> Viewed_Blob entry)))))) of
        Inl e \<Rightarrow> (Inl e, c)
      | Inr (review, human, content) \<Rightarrow>
          (let (m, body) = (if viewed then (Mut_MarkViewed review repo_id path, FileViewed review repo_id path human content)
                            else (Mut_UnmarkViewed review repo_id path, FileUnviewed review repo_id path human));
               (effects, c') = mutate_with m body c
           in (Inr effects, c')))"

section \<open>Inputs\<close>

datatype client_action =
    Act_Connect
  | Act_Disconnect
  | Act_ListWorkspaces
  | Act_ListReviews workspace_id
  | Act_OpenReview review_id
  | Act_CloseReview
  | Act_DraftOpened
  | Act_ReplyOpened thread_id
  | Act_DeferOpened thread_id
  | Act_DraftSubmitted string
  | Act_DraftDiscarded
  | Act_Reply thread_id string
  | Act_EditComment comment_id string
  | Act_DeleteComment comment_id
  | Act_DeferThread thread_id deferral_reason "tracking_url option"
  | Act_ResolveThread thread_id
  | Act_UnresolveThread thread_id
  | Act_MarkViewed repo_id repo_path
  | Act_UnmarkViewed repo_id repo_path
  | Act_PreviewSuggestion comment_id
  | Act_ApplySuggestion comment_id

definition on_defer_opened :: "thread_id \<Rightarrow> handler" where
  "on_defer_opened tid c =
     (case cl_open c of
        None \<Rightarrow> (Inl Client_NoOpenReview, c)
      | Some op \<Rightarrow>
          if cl_draft c \<noteq> None then (Inl Client_DraftAlreadyOpen, c)
          else (case find (\<lambda>t. th_id t = tid) (sn_threads (op_snapshot op)) of
                  None \<Rightarrow> (Inl (Client_UnknownThread tid), c)
                | Some th \<Rightarrow>
                    (case th_resolution th of
                       Resolution_Informational \<Rightarrow> (Inl (Client_Mutation (Local_InformationalThread tid)), c)
                     | Resolution_Resolved _ _ \<Rightarrow> (Inl (Client_Mutation (Local_NotOpen tid)), c)
                     | Resolution_Deferred _ _ _ _ \<Rightarrow> (Inl (Client_Mutation (Local_NotOpen tid)), c)
                     | Resolution_Open \<Rightarrow>
                         (case find (\<lambda>x. cm_id x = th_root th) (sn_comments (op_snapshot op)) of
                            None \<Rightarrow> (Inl (Client_UnknownThread tid), c)
                          | Some root \<Rightarrow> open_draft \<lparr>dr_anchor = cm_anchor root, dr_purpose = Draft_Defer tid\<rparr> c))))"

fun on_action :: "client_action \<Rightarrow> handler" where
  "on_action Act_Connect = on_connect"
| "on_action Act_Disconnect = on_disconnect"
| "on_action Act_ListWorkspaces = requesting Req_ListWorkspaces Flight_ListWorkspaces"
| "on_action (Act_ListReviews wid) = requesting (Req_ListReviews wid) (Flight_ListReviews wid)"
| "on_action (Act_OpenReview review) = on_open_review review"
| "on_action Act_CloseReview = on_close_review"
| "on_action Act_DraftOpened = on_draft_opened"
| "on_action (Act_ReplyOpened tid) = on_reply_opened tid"
| "on_action (Act_DeferOpened tid) = on_defer_opened tid"
| "on_action (Act_DraftSubmitted body) = on_draft_submitted body"
| "on_action Act_DraftDiscarded = on_draft_discarded"
| "on_action (Act_Reply tid body) = on_reply tid body"
| "on_action (Act_EditComment cid body) = on_review (\<lambda>review. mutate (Mut_EditComment review cid body))"
| "on_action (Act_DeleteComment cid) = on_review (\<lambda>review. mutate (Mut_DeleteComment review cid))"
| "on_action (Act_DeferThread tid reason url) = on_defer_thread tid reason url"
| "on_action (Act_ResolveThread tid) = on_review (\<lambda>review. mutate (Mut_ResolveThread review tid))"
| "on_action (Act_UnresolveThread tid) = on_review (\<lambda>review. mutate (Mut_UnresolveThread review tid))"
| "on_action (Act_MarkViewed repo_id path) = on_mark_viewed repo_id path True"
| "on_action (Act_UnmarkViewed repo_id path) = on_mark_viewed repo_id path False"
| "on_action (Act_PreviewSuggestion cid) = client_preview_suggestion cid"
| "on_action (Act_ApplySuggestion cid) = client_apply_suggestion cid"

fun stream_item_name :: "stream_item \<Rightarrow> string" where
  "stream_item_name (Item_ReviewSnapshot _) = ''ReviewSnapshot''"
| "stream_item_name (Item_TreeSnapshot _) = ''TreeSnapshot''"
| "stream_item_name (Item_Header _) = ''Header''"
| "stream_item_name (Item_Chunk _ _ _) = ''Chunk''"

text \<open>
  The content of an opening review goes to the content cache; the headers of its changed files list them, and
  a chunk is of a file that is listed.
\<close>

definition list_header :: "review_id \<Rightarrow> file_render_header \<Rightarrow> client \<Rightarrow> client" where
  "list_header review header c =
     (let render = render_key_of_header header in
      if open_is review c \<and> (case rk_target render of Target_Diff _ \<Rightarrow> True | Target_Blob _ \<Rightarrow> False) \<and> render \<notin> set (cl_files c)
      then c\<lparr>cl_files := cl_files c @ [render]\<rparr> else c)"

definition on_stream_item :: "request_id \<Rightarrow> stream_item \<Rightarrow> handler" where
  "on_stream_item rid item c =
     (case item of
        Item_ReviewSnapshot snapshot \<Rightarrow> on_streamed_snapshot rid snapshot c
      | _ \<Rightarrow>
          (case cl_in_flight c rid of
             None \<Rightarrow> (Inl (Client_UnknownRequest rid), c)
           | Some (Flight_OpenReview review content) \<Rightarrow>
               if content = Content_Superseded \<or> cl_latest_open c \<noteq> Some rid then (Inr [], c)
               else (case item of
                       Item_Header header \<Rightarrow> (Inr [], list_header review header c)
                     | Item_Chunk repo_id path chunk \<Rightarrow>
                         if cl_open c \<noteq> None \<and> list_ex (\<lambda>k. rk_repo_id k = repo_id \<and> rk_path k = path) (cl_files c) then (Inr [], c)
                         else (Inl (Client_UnexpectedResponse rid ''Chunk of a file whose header was streamed'' ''Chunk''), c)
                     | _ \<Rightarrow> (Inr [], c))
           | Some _ \<Rightarrow> (Inl (Client_UnexpectedResponse rid ''Response'' (stream_item_name item)), c)))"

fun on_server :: "(client_response, upgrade_operation) server_msg \<Rightarrow> handler" where
  "on_server (Server_Welcome _ _ _ _) c = on_welcome c"
| "on_server (Server_Rejected error) c = on_rejected error c"
| "on_server (Server_Response rid response) c = on_response rid response c"
| "on_server (Server_StreamItem rid item) c = on_stream_item rid item c"
| "on_server (Server_StreamEnd rid) c = on_stream_end rid c"
| "on_server (Server_Error rid error) c = on_error rid error c"
| "on_server (Server_Event e) c = on_event e c"
| "on_server (Server_TreeDelta delta) c =
     (case cl_connection c of Conn_Subscribed _ \<Rightarrow> (Inr [], c) | _ \<Rightarrow> (Inl (wrong_state Input_Server c), c))"
| "on_server (Server_Lifecycle operation) c = (let (effects, c') = restart_notice operation c in (Inr effects, c'))"

datatype client_input =
    In_User client_action
  | In_Server "(client_response, upgrade_operation) server_msg"
  | In_Transport transport_event
  | In_Tick u64

text \<open>The effects of one input, before \<open>handle\<close> gathers its renders and what the derived panels add.\<close>

fun client_handle :: "client_input \<Rightarrow> handler" where
  "client_handle (In_User action) c = on_action action c"
| "client_handle (In_Server msg) c = on_server msg c"
| "client_handle (In_Transport ev) c = (let (effects, c') = on_transport ev c in (Inr effects, c'))"
| "client_handle (In_Tick ms) c = (let (effects, c') = restart_tick (c\<lparr>cl_now := max (cl_now c) ms\<rparr>) in (Inr effects, c'))"

end
