(* ===== verification/Nits_Client_Laws.thy ===== *)
theory Nits_Client_Laws
  imports Nits_Client_Events "HOL-Library.Multiset"
begin

text \<open>
  What the client's fold of events is worth: folded over a snapshot of a review, the events after the
  snapshot give the snapshot the daemon would send now. The client keeps lists and finds rows by their id,
  the daemon keeps tables under the ids; the relation between the two is stated once for any rows and kept
  by every event.
\<close>

section \<open>A list of rows and a table\<close>

definition rows_match :: "('v \<Rightarrow> 'k) \<Rightarrow> 'v list \<Rightarrow> ('k \<rightharpoonup> 'v) \<Rightarrow> bool" where
  "rows_match key xs m \<longleftrightarrow> distinct (map key xs) \<and> (\<forall>k v. m k = Some v \<longleftrightarrow> v \<in> set xs \<and> key v = k)"

lemma rows_match_iff: "rows_match key xs m \<Longrightarrow> m k = Some v \<longleftrightarrow> v \<in> set xs \<and> key v = k"
  by (simp add: rows_match_def)

lemma rows_match_none: "rows_match key xs m \<Longrightarrow> m k = None \<longleftrightarrow> (\<forall>v\<in>set xs. key v \<noteq> k)"
  using rows_match_iff [of key xs m k] by (cases "m k") auto

lemma rows_match_distinct: "rows_match key xs m \<Longrightarrow> distinct (map key xs)"
  by (simp add: rows_match_def)

lemma rows_matchI:
  "distinct (map key xs) \<Longrightarrow> (\<And>k v. m k = Some v \<longleftrightarrow> v \<in> set xs \<and> key v = k) \<Longrightarrow> rows_match key xs m"
  by (simp add: rows_match_def)

lemma rows_match_mset:
  assumes "rows_match key xs m" "rows_match key ys m"
  shows "mset xs = mset ys"
proof -
  have "distinct xs" "distinct ys" using assms by (simp_all add: rows_match_def distinct_map)
  moreover have "set xs = set ys" using rows_match_iff [OF assms(1)] rows_match_iff [OF assms(2)] by blast
  ultimately show ?thesis by (simp add: set_eq_iff_mset_eq_distinct)
qed

lemma rows_match_snoc:
  assumes "rows_match key xs m" "m k = None" "key v = k"
  shows "rows_match key (xs @ [v]) (m(k \<mapsto> v))"
  using assms rows_match_none [OF assms(1)] rows_match_distinct [OF assms(1)]
  by (intro rows_matchI) (auto simp: rows_match_iff)

lemma rows_match_sorted:
  assumes "rows_match key xs m"
  shows "rows_match key (sort_key f xs) m"
  using rows_match_distinct [OF assms]
  by (intro rows_matchI) (simp_all add: distinct_map rows_match_iff [OF assms])

lemma update_first_split:
  "list_ex P xs \<Longrightarrow> \<exists>as x bs. xs = as @ x # bs \<and> P x \<and> \<not> list_ex P as \<and> update_first P f xs = as @ f x # bs"
proof (induction xs)
  case (Cons y ys)
  show ?case
  proof (cases "P y")
    case True
    then show ?thesis by (intro exI [of _ "[]"]) simp
  next
    case False
    then obtain as x bs where "ys = as @ x # bs" "P x" "\<not> list_ex P as" "update_first P f ys = as @ f x # bs"
      using Cons by auto
    then show ?thesis using False by (intro exI [of _ "y # as"]) auto
  qed
qed simp

lemma rows_match_update:
  assumes match: "rows_match key xs m" and found: "m k = Some v" and keep: "key (f v) = k"
  shows "rows_match key (update_first (\<lambda>x. key x = k) f xs) (m(k \<mapsto> f v))"
proof -
  have "v \<in> set xs" "key v = k" using rows_match_iff [OF match] found by blast+
  then obtain as x bs where xs: "xs = as @ x # bs" "key x = k"
      and upd: "update_first (\<lambda>x. key x = k) f xs = as @ f x # bs"
    using update_first_split [of "\<lambda>x. key x = k" xs f] by (auto simp: list_ex_iff)
  have dist: "distinct (map key xs)" by (rule rows_match_distinct [OF match])
  have "v = x" using \<open>v \<in> set xs\<close> \<open>key v = k\<close> xs dist by (auto simp: image_iff)
  then show ?thesis
    using dist xs keep unfolding upd
    by (intro rows_matchI) (auto simp: rows_match_iff [OF match] image_iff)
qed

lemma rows_match_remove:
  assumes "rows_match key xs m"
  shows "rows_match key (filter (\<lambda>v. key v \<noteq> k) xs) (m(k := None))"
  using rows_match_distinct [OF assms]
  by (intro rows_matchI) (auto simp: rows_match_iff [OF assms] distinct_map_filter)

lemma rows_match_put:
  assumes "rows_match key xs m" "key v = k"
  shows "rows_match key (filter (\<lambda>v. key v \<noteq> k) xs @ [v]) (m(k \<mapsto> v))"
  using rows_match_snoc [OF rows_match_remove [OF assms(1), of k], of k v] assms(2) by simp

lemma rows_match_any:
  "rows_match key xs m \<Longrightarrow> list_ex (\<lambda>x. key x = k) xs \<longleftrightarrow> m k \<noteq> None"
  using rows_match_none [of key xs m k] by (auto simp: list_ex_iff)

lemma rows_match_find:
  assumes "rows_match key xs m"
  shows "find (\<lambda>x. key x = k) xs = m k"
proof (cases "m k")
  case None
  then have "\<forall>v\<in>set xs. key v \<noteq> k" by (simp only: rows_match_none [OF assms])
  then show ?thesis using None by (auto simp: find_None_iff)
next
  case (Some v)
  then have v: "v \<in> set xs" "key v = k" using rows_match_iff [OF assms] by blast+
  then obtain w where w: "find (\<lambda>x. key x = k) xs = Some w"
    by (cases "find (\<lambda>x. key x = k) xs") (auto simp: find_None_iff)
  then have "w \<in> set xs" "key w = k" by (auto simp: find_Some_iff)
  then have "m k = Some w" using rows_match_iff [OF assms] by blast
  then show ?thesis using w Some by simp
qed

section \<open>A snapshot that follows the views\<close>

text \<open>The rows of a review in a table, by the rest of their key.\<close>

definition at_review :: "(ulid \<times> 'k::linorder, 'v) table \<Rightarrow> review_id \<Rightarrow> 'k \<rightharpoonup> 'v" where
  "at_review t r k = tbl_get t (review_key r, k)"

lemma row_insert [simp]: "at_review (tbl_insert (review_key r, k) v t) r = (at_review t r)(k \<mapsto> v)"
  by (auto simp: at_review_def)

lemma row_insert_other [simp]: "fst k \<noteq> review_key r \<Longrightarrow> at_review (tbl_insert k v t) r = at_review t r"
  by (rule ext) (auto simp: at_review_def)

lemma row_remove [simp]: "at_review (tbl_remove (review_key r, k) t) r = (at_review t r)(k := None)"
  by (auto simp: at_review_def)

lemma row_remove_other [simp]: "fst k \<noteq> review_key r \<Longrightarrow> at_review (tbl_remove k t) r = at_review t r"
  by (rule ext) (auto simp: at_review_def)

text \<open>The rows a daemon returns for a review are those of its table.\<close>

lemma rows_match_rows_of:
  assumes keys: "tbl_all (\<lambda>k v. (review_key (owner v), key v) = k) t"
  shows "rows_match key (rows_of r t) (at_review t r)"
proof (rule rows_matchI)
  let ?es = "tbl_range (\<lambda>k. fst k = review_key r) t"
  have at: "fst e = (review_key r, key (snd e))" if e: "e \<in> set ?es" for e
  proof -
    have "e \<in> set (tbl_entries t)" and first: "fst (fst e) = review_key r" using e by (simp_all add: tbl_range_def)
    then have own: "(review_key (owner (snd e)), key (snd e)) = fst e" using keys by (simp add: tbl_all_def)
    show ?thesis using first unfolding own [symmetric] by simp
  qed
  have "map fst ?es = map (Pair (review_key r)) (map key (rows_of r t))"
    using at by (auto simp: rows_of_def)
  moreover have "distinct (map fst ?es)"
    unfolding tbl_range_def using tbl.entries_distinct [of t] by (simp add: distinct_map_filter)
  ultimately show "distinct (map key (rows_of r t))" by (metis distinct_map)
  fix k v
  show "at_review t r k = Some v \<longleftrightarrow> v \<in> set (rows_of r t) \<and> key v = k"
  proof
    assume "at_review t r k = Some v"
    then have "((review_key r, k), v) \<in> set ?es" by (simp add: tbl_range_iff at_review_def)
    then show "v \<in> set (rows_of r t) \<and> key v = k" using at by (force simp: rows_of_def)
  next
    assume "v \<in> set (rows_of r t) \<and> key v = k"
    then obtain e where "e \<in> set ?es" "v = snd e" "key v = k" by (auto simp: rows_of_def)
    then have "((review_key r, k), v) \<in> set ?es" using at by (metis prod.collapse)
    then show "at_review t r k = Some v" by (simp add: tbl_range_iff at_review_def)
  qed
qed

abbreviation comment_rows :: "comment list \<Rightarrow> (ulid \<rightharpoonup> comment) \<Rightarrow> bool" where
  "comment_rows \<equiv> rows_match (\<lambda>c. comment_key (cm_id c))"

abbreviation thread_rows :: "thread list \<Rightarrow> (ulid \<rightharpoonup> thread) \<Rightarrow> bool" where
  "thread_rows \<equiv> rows_match (\<lambda>h. thread_key (th_id h))"

abbreviation suggestion_rows :: "suggestion_record list \<Rightarrow> (ulid \<rightharpoonup> suggestion_record) \<Rightarrow> bool" where
  "suggestion_rows \<equiv> rows_match (\<lambda>g. comment_key (sg_comment_id g))"

abbreviation viewed_rows :: "viewed_mark list \<Rightarrow> (ulid \<times> string \<rightharpoonup> viewed_mark) \<Rightarrow> bool" where
  "viewed_rows \<equiv> rows_match (\<lambda>m. (repo_key (vm_repo_id m), path_str (vm_path m)))"

abbreviation request_rows :: "review_request list \<Rightarrow> (seq \<rightharpoonup> review_request) \<Rightarrow> bool" where
  "request_rows \<equiv> rows_match (\<lambda>q. request_event_seq (rq_id q))"

abbreviation checkpoint_rows :: "review_checkpoint list \<Rightarrow> (seq \<rightharpoonup> review_checkpoint) \<Rightarrow> bool" where
  "checkpoint_rows \<equiv> rows_match (\<lambda>p. checkpoint_event_seq (cp_id p))"

definition review_row :: "review_snapshot \<Rightarrow> review_record option \<Rightarrow> bool" where
  "review_row sn rec \<longleftrightarrow> map_option rec_review rec = Some (sn_review sn) \<and> map_option rec_resolved rec = Some (sn_resolved sn)"

definition follows :: "review_id \<Rightarrow> review_snapshot \<Rightarrow> views \<Rightarrow> bool" where
  "follows r sn t \<longleftrightarrow> rv_id (sn_review sn) = r
     \<and> review_row sn (tbl_get (v_reviews t) (review_key r))
     \<and> comment_rows (sn_comments sn) (at_review (v_comments t) r)
     \<and> thread_rows (sn_threads sn) (at_review (v_threads t) r)
     \<and> suggestion_rows (sn_suggestions sn) (at_review (v_suggestions t) r)
     \<and> viewed_rows (sn_viewed sn) (at_review (v_viewed t) r)
     \<and> request_rows (sn_requests sn) (at_review (v_requests t) r)
     \<and> checkpoint_rows (sn_checkpoints sn) (at_review (v_checkpoints t) r)"

text \<open>Equal up to the order of the rows.\<close>

definition same_contents :: "review_snapshot \<Rightarrow> review_snapshot \<Rightarrow> bool" where
  "same_contents a b \<longleftrightarrow> sn_review a = sn_review b \<and> sn_resolved a = sn_resolved b
     \<and> mset (sn_comments a) = mset (sn_comments b) \<and> mset (sn_threads a) = mset (sn_threads b)
     \<and> mset (sn_suggestions a) = mset (sn_suggestions b) \<and> mset (sn_viewed a) = mset (sn_viewed b)
     \<and> mset (sn_requests a) = mset (sn_requests b) \<and> mset (sn_checkpoints a) = mset (sn_checkpoints b)"

lemma follows_same: "follows r a t \<Longrightarrow> follows r b t \<Longrightarrow> same_contents a b"
  unfolding follows_def same_contents_def review_row_def
  by (elim conjE, intro conjI) (simp_all, (erule (1) rows_match_mset)+)

lemma snapshot_follows:
  assumes keys: "keys_ok (st_views s)" and got: "snapshot_in_transaction s r = Some sn"
  shows "follows r sn (st_views s)"
proof -
  let ?t = "st_views s"
  obtain rec where rec: "tbl_get (v_reviews ?t) (review_key r) = Some rec" "rec_lifecycle rec = Lifecycle_Live"
    using got by (auto simp: snapshot_in_transaction_def Let_def split: option.splits review_lifecycle.splits)
  then have sn: "sn_review sn = rec_review rec" "sn_resolved sn = rec_resolved rec"
    "sn_threads sn = rows_of r (v_threads ?t)" "sn_comments sn = rows_of r (v_comments ?t)"
    "sn_suggestions sn = rows_of r (v_suggestions ?t)" "sn_viewed sn = rows_of r (v_viewed ?t)"
    "sn_requests sn = rows_of r (v_requests ?t)" "sn_checkpoints sn = rows_of r (v_checkpoints ?t)"
    using got by (auto simp: snapshot_in_transaction_def Let_def)
  have "rv_id (rec_review rec) = r" using keys_okD(2) [OF keys rec(1)] by simp
  moreover have "comment_rows (rows_of r (v_comments ?t)) (at_review (v_comments ?t) r)"
    using keys by (intro rows_match_rows_of [where owner = cm_review_id]) (simp add: keys_ok_def)
  moreover have "thread_rows (rows_of r (v_threads ?t)) (at_review (v_threads ?t) r)"
    using keys by (intro rows_match_rows_of [where owner = th_review_id]) (simp add: keys_ok_def)
  moreover have "suggestion_rows (rows_of r (v_suggestions ?t)) (at_review (v_suggestions ?t) r)"
    using keys by (intro rows_match_rows_of [where owner = sg_review_id]) (simp add: keys_ok_def)
  moreover have "viewed_rows (rows_of r (v_viewed ?t)) (at_review (v_viewed ?t) r)"
    using keys by (intro rows_match_rows_of [where owner = vm_review_id]) (simp add: keys_ok_def)
  moreover have "request_rows (rows_of r (v_requests ?t)) (at_review (v_requests ?t) r)"
    using keys by (intro rows_match_rows_of [where owner = rq_review_id]) (simp add: keys_ok_def)
  moreover have "checkpoint_rows (rows_of r (v_checkpoints ?t)) (at_review (v_checkpoints ?t) r)"
    using keys by (intro rows_match_rows_of [where owner = cp_review_id]) (simp add: keys_ok_def)
  ultimately show ?thesis by (simp add: follows_def sn review_row_def rec)
qed

section \<open>What a caller has validated\<close>

text \<open>
  Beyond what any writer validates: a review is created once, and a file's marks in a review are of one
  viewer.
\<close>

definition same_viewer :: "views \<Rightarrow> review_id \<Rightarrow> repo_id \<Rightarrow> repo_path \<Rightarrow> human \<Rightarrow> bool" where
  "same_viewer t r repo path viewer \<longleftrightarrow>
     (case tbl_get (v_viewed t) (review_key r, repo_key repo, path_str path) of
        None \<Rightarrow> True | Some m \<Rightarrow> vm_viewer m = viewer)"

fun client_guard_body :: "views \<Rightarrow> event_body \<Rightarrow> bool" where
  "client_guard_body t (ReviewCreated rv) \<longleftrightarrow> tbl_get (v_reviews t) (review_key (rv_id rv)) = None"
| "client_guard_body t (FileViewed r repo path viewer _) \<longleftrightarrow> same_viewer t r repo path viewer"
| "client_guard_body t (FileUnviewed r repo path viewer) \<longleftrightarrow> same_viewer t r repo path viewer"
| "client_guard_body t _ \<longleftrightarrow> True"

definition client_guard :: "views \<Rightarrow> event \<Rightarrow> bool" where
  "client_guard t e \<longleftrightarrow> validated t e \<and> client_guard_body t (ev_body e)"

text \<open>Sequence numbers in the views are those of earlier events.\<close>

definition seqs_below :: "seq \<Rightarrow> views \<Rightarrow> bool" where
  "seqs_below q t \<longleftrightarrow>
     tbl_all (\<lambda>_ r. request_event_seq (rq_id r) < q) (v_requests t)
     \<and> tbl_all (\<lambda>_ c. checkpoint_event_seq (cp_id c) < q) (v_checkpoints t)
     \<and> tbl_all (\<lambda>_ g. case sg_outcome g of Outcome_Unapplied \<Rightarrow> True | Outcome_Applied receipt \<Rightarrow> sr_seq receipt < q)
         (v_suggestions t)"

lemma tbl_all_mono: "tbl_all P t \<Longrightarrow> (\<And>k v. P k v \<Longrightarrow> Q k v) \<Longrightarrow> tbl_all Q t"
  by (simp add: tbl_all_def)

lemma seqs_below_mono: "seqs_below q t \<Longrightarrow> q \<le> q' \<Longrightarrow> seqs_below q' t"
  unfolding seqs_below_def
  by (auto elim!: tbl_all_mono split: suggestion_outcome.splits)

lemma seqs_below_sel:
  "v_requests u = v_requests t \<Longrightarrow> v_checkpoints u = v_checkpoints t \<Longrightarrow> v_suggestions u = v_suggestions t \<Longrightarrow>
     seqs_below q u = seqs_below q t"
  by (simp add: seqs_below_def)

lemma created_outcome: "suggestion_from_created c = Some g \<Longrightarrow> sg_outcome g = Outcome_Unapplied"
  by (auto simp: suggestion_from_created_def split: comment_kind.splits)

lemma seqs_below_apply:
  assumes below: "seqs_below (ev_seq e) t" and app: "apply_event e t = Inr t'" and q: "ev_seq e < q"
  shows "seqs_below q t'"
proof -
  have later: "seqs_below q t" using seqs_below_mono below q by (simp add: less_imp_le)
  then show ?thesis
    using app q
    by (cases "ev_body e")
      (auto simp: apply_event_def row_defs result_simps comment_created_def request_from_event_def
        checkpoint_from_event_def suggestion_applied_def seqs_below_def v_suggestions_put_suggestion_of
        created_outcome intro!: tbl_all_insert split: option.splits)
qed

section \<open>One event\<close>

lemma fold_other: "body_review_id (ev_body e) \<noteq> Some (rv_id (sn_review sn)) \<Longrightarrow> snd (fold_event e sn) = sn"
  by (cases "ev_body e")
    (auto simp: fold_event_def fold_body_def note_suggestion_def note_request_def note_checkpoint_def
      request_from_event_def checkpoint_from_event_def split: option.split)

lemma keys_row:
  assumes "keys_ok t"
  shows "at_review (v_comments t) r k = Some c \<Longrightarrow> cm_review_id c = r \<and> comment_key (cm_id c) = k"
    and "at_review (v_threads t) r k = Some h \<Longrightarrow> th_review_id h = r \<and> thread_key (th_id h) = k"
    and "at_review (v_suggestions t) r k = Some g \<Longrightarrow> sg_review_id g = r \<and> comment_key (sg_comment_id g) = k"
  unfolding at_review_def by (auto dest: keys_okD(3-5) [OF assms])

lemma load_rows:
  "load_comment q r i t = ok_or (Inconsistent q (UnknownComment i r)) (at_review (v_comments t) r (comment_key i))"
  "load_thread q r h t = ok_or (Inconsistent q (UnknownThread h r)) (at_review (v_threads t) r (thread_key h))"
  by (simp_all add: load_comment_def load_thread_def at_review_def)

definition same_rows :: "review_id \<Rightarrow> views \<Rightarrow> views \<Rightarrow> bool" where
  "same_rows r t u \<longleftrightarrow> at_review (v_comments u) r = at_review (v_comments t) r \<and> at_review (v_threads u) r = at_review (v_threads t) r
     \<and> at_review (v_suggestions u) r = at_review (v_suggestions t) r \<and> at_review (v_viewed u) r = at_review (v_viewed t) r
     \<and> at_review (v_requests u) r = at_review (v_requests t) r \<and> at_review (v_checkpoints u) r = at_review (v_checkpoints t) r
     \<and> tbl_get (v_reviews u) (review_key r) = tbl_get (v_reviews t) (review_key r)"

lemma apply_other:
  assumes "keys_ok t" "apply_event e t = Inr t'" "body_review_id (ev_body e) \<noteq> Some r"
  shows "same_rows r t t'"
proof (cases "ev_body e")
  case (CommentCreated c)
  then show ?thesis
    using assms by (auto simp: apply_event_def row_defs result_simps comment_created_def same_rows_def
        v_suggestions_put_suggestion_of split: option.splits)
next
  case (ReviewTargetUpdated r' target)
  then show ?thesis
    using assms by (auto simp: apply_event_def row_defs result_simps same_rows_def dest!: keys_okD(2) [OF assms(1)] target_updated_id)
qed (use assms in \<open>auto simp: apply_event_def row_defs result_simps request_from_event_def
        checkpoint_from_event_def same_rows_def
        dest!: keys_okD(2) [OF assms(1)] keys_okD(3) [OF assms(1)] keys_okD(5) [OF assms(1)]\<close>)

lemma follows_other:
  assumes "follows r sn t" "keys_ok t" "apply_event e t = Inr t'" "body_review_id (ev_body e) \<noteq> Some r"
  shows "follows r sn t'"
  using assms(1) apply_other [OF assms(2-4)] by (simp add: follows_def same_rows_def)

text \<open>The client finds rows by their ids, which are their keys.\<close>

lemma comment_update:
  "comment_rows cs m \<Longrightarrow> m (comment_key i) = Some c \<Longrightarrow> cm_id (f c) = i \<Longrightarrow>
     comment_rows (update_first (\<lambda>c. cm_id c = i) f cs) (m(comment_key i \<mapsto> f c))"
  using rows_match_update [where key = "\<lambda>c. comment_key (cm_id c)" and k = "comment_key i"] by auto

lemma thread_update:
  "thread_rows hs m \<Longrightarrow> m (thread_key i) = Some h \<Longrightarrow> th_id (f h) = i \<Longrightarrow>
     thread_rows (update_first (\<lambda>h. th_id h = i) f hs) (m(thread_key i \<mapsto> f h))"
  using rows_match_update [where key = "\<lambda>h. thread_key (th_id h)" and k = "thread_key i"] by auto

lemma suggestion_update:
  "suggestion_rows gs m \<Longrightarrow> m (comment_key i) = Some g \<Longrightarrow> sg_comment_id (f g) = i \<Longrightarrow>
     suggestion_rows (update_first (\<lambda>g. sg_comment_id g = i) f gs) (m(comment_key i \<mapsto> f g))"
  using rows_match_update [where key = "\<lambda>g. comment_key (sg_comment_id g)" and k = "comment_key i"] by auto

lemma rows_by_id:
  "comment_rows cs m \<Longrightarrow> list_ex (\<lambda>c. cm_id c = i) cs \<longleftrightarrow> m (comment_key i) \<noteq> None"
  "thread_rows hs m' \<Longrightarrow> list_ex (\<lambda>h. th_id h = j) hs \<longleftrightarrow> m' (thread_key j) \<noteq> None"
  "comment_rows cs m \<Longrightarrow> find (\<lambda>c. cm_id c = i) cs = m (comment_key i)"
  "thread_rows hs m' \<Longrightarrow> find (\<lambda>h. th_id h = j) hs = m' (thread_key j)"
  "suggestion_rows gs m'' \<Longrightarrow> find (\<lambda>g. sg_comment_id g = i) gs = m'' (comment_key i)"
  using rows_match_any [of "\<lambda>c. comment_key (cm_id c)" cs m "comment_key i"]
    rows_match_any [of "\<lambda>h. thread_key (th_id h)" hs m' "thread_key j"]
    rows_match_find [of "\<lambda>c. comment_key (cm_id c)" cs m "comment_key i"]
    rows_match_find [of "\<lambda>h. thread_key (th_id h)" hs m' "thread_key j"]
    rows_match_find [of "\<lambda>g. comment_key (sg_comment_id g)" gs m'' "comment_key i"]
  by simp_all

lemma follows_rows:
  assumes "follows r sn t"
  shows "rv_id (sn_review sn) = r" and "review_row sn (tbl_get (v_reviews t) (review_key r))"
    and "comment_rows (sn_comments sn) (at_review (v_comments t) r)"
    and "thread_rows (sn_threads sn) (at_review (v_threads t) r)"
    and "suggestion_rows (sn_suggestions sn) (at_review (v_suggestions t) r)"
    and "viewed_rows (sn_viewed sn) (at_review (v_viewed t) r)"
    and "request_rows (sn_requests sn) (at_review (v_requests t) r)"
    and "checkpoint_rows (sn_checkpoints sn) (at_review (v_checkpoints t) r)"
  using assms by (simp_all add: follows_def)

lemma review_row_update:
  "review_row sn (Some rec) \<Longrightarrow> review_row (sn\<lparr>sn_review := f (sn_review sn)\<rparr>) (Some (rec\<lparr>rec_review := f (rec_review rec)\<rparr>))"
  by (simp add: review_row_def)

text \<open>A comment's row rewritten on both sides.\<close>

lemma follows_comment_edit:
  assumes f: "follows r sn t" and keys: "keys_ok t" and c: "at_review (v_comments t) r (comment_key i) = Some c"
    and same: "cm_id (g c) = i" and u: "same_rows r (t\<lparr>v_comments := tbl_insert (review_key r, comment_key i) (g c) (v_comments t)\<rparr>) u"
  shows "follows r (snd (edit_comment_of i g sn)) u"
proof -
  note rows = follows_rows [OF f]
  have there: "list_ex (\<lambda>c. cm_id c = i) (sn_comments sn)" using rows_by_id(1) [OF rows(3)] c by simp
  have "comment_rows (update_first (\<lambda>c. cm_id c = i) g (sn_comments sn)) ((at_review (v_comments t) r)(comment_key i \<mapsto> g c))"
    by (rule comment_update [where f = g, OF rows(3) c same])
  then show ?thesis
    using rows u there by (simp add: edit_comment_of_def follows_def same_rows_def review_row_def)
qed

lemma follows_resolution:
  assumes f: "follows r sn t" and h: "at_review (v_threads t) r (thread_key i) = Some h" and keys: "keys_ok t"
    and set: "set_resolution res h t = Inr u"
  shows "follows r (snd (resolve_thread_of i res sn)) u"
proof -
  note rows = follows_rows [OF f]
  have own: "th_review_id h = r" "th_id h = i" using keys_row(2) [OF keys h] by auto
  have there: "list_ex (\<lambda>h. th_id h = i) (sn_threads sn)" using rows_by_id(2) [OF rows(4)] h by simp
  have "thread_rows (update_first (\<lambda>h. th_id h = i) (\<lambda>h. h\<lparr>th_resolution := res\<rparr>) (sn_threads sn))
      ((at_review (v_threads t) r)(thread_key i \<mapsto> h\<lparr>th_resolution := res\<rparr>))"
    by (rule thread_update [where f = "\<lambda>h. h\<lparr>th_resolution := res\<rparr>", OF rows(4) h]) (simp add: own)
  then show ?thesis
    using rows there set own by (auto simp: resolve_thread_of_def follows_def set_resolution_def save_thread_def review_row_def)
qed

lemma follows_created:
  assumes f: "follows r sn t" and ok: "refs_ok t" and r: "cm_review_id c = r"
    and fresh: "at_review (v_comments t) r (comment_key (cm_id c)) = None" and app: "comment_created q c t = Inr u"
  shows "follows r (snd (fold_body_mine meta (CommentCreated c) sn)) u"
proof -
  note rows = follows_rows [OF f]
  obtain th where th: "thread_with_comment q c t = Inr th"
    and u: "u = index_anchor r c (put_suggestion_of c (save_comment c (put_thread (review_key r, thread_key (cm_thread_id c)) th t)))"
    using app r by (auto simp: comment_created_def result_simps)
  have new: "\<not> list_ex (\<lambda>x. cm_id x = cm_id c) (sn_comments sn)" using rows_by_id(1) [OF rows(3)] fresh by simp
  have comments: "comment_rows (sn_comments sn @ [c]) (at_review (v_comments u) r)"
    using rows_match_snoc [OF rows(3) fresh, of c] r by (simp add: u save_comment_def put_thread_def)
  have unsuggested: "at_review (v_suggestions t) r (comment_key (cm_id c)) = None"
  proof (rule ccontr)
    assume "at_review (v_suggestions t) r (comment_key (cm_id c)) \<noteq> None"
    then obtain patch where "sk_suggestions (skeleton t) (review_key r, comment_key (cm_id c)) = Some patch"
      by (auto simp: skeleton_def at_review_def)
    then have "sk_comments (skeleton t) (review_key r, comment_key (cm_id c)) \<noteq> None"
      using ok unfolding refs_ok_def suggestions_ok_def by blast
    then show False using fresh by (simp add: skeleton_def at_review_def)
  qed
  have suggestions: "suggestion_rows (sn_suggestions sn @ (case suggestion_from_created c of None \<Rightarrow> [] | Some g \<Rightarrow> [g])) (at_review (v_suggestions u) r)"
    using rows(5) rows_match_snoc [OF rows(5) unsuggested] r suggestion_from_created_key [of c]
    by (auto simp: u v_suggestions_put_suggestion_of save_comment_def put_thread_def split: option.split)
  have threads: "thread_rows (sn_threads (created_locally c sn)) (at_review (v_threads u) r)"
  proof (cases "at_review (v_threads t) r (thread_key (cm_thread_id c))")
    case None
    then have "th = \<lparr>th_id = cm_thread_id c, th_review_id = r, th_root = cm_id c, th_replies = [],
        th_resolution = resolution_for_root (cm_kind c)\<rparr>"
      using th r by (auto simp: thread_with_comment_def at_review_def split: if_splits)
    then show ?thesis
      using rows_by_id(2) [OF rows(4)] None rows_match_snoc [OF rows(4) None, of th] r
      by (simp add: created_locally_def u put_thread_def save_comment_def)
  next
    case (Some h)
    have own: "th_id h = cm_thread_id c" using keys_row(2) [OF _ Some] ok by (simp add: refs_ok_def)
    have shape: "sk_threads (skeleton t) (review_key r, thread_key (cm_thread_id c)) = Some (thread_shape h)"
      using Some by (simp add: skeleton_def at_review_def)
    have threads: "threads_ok (skeleton t)" using ok by (simp add: refs_ok_def)
    have "\<exists>kind. sk_comments (skeleton t) (review_key r, x) = Some (thread_key (cm_thread_id c), kind)"
      if "x \<in> set (comment_key (th_root h) # map comment_key (th_replies h))" for x
      using threads [unfolded threads_ok_def, rule_format, OF shape [unfolded thread_shape_def]] that by auto
    moreover have "sk_comments (skeleton t) (review_key r, comment_key (cm_id c)) = None"
      using fresh by (simp add: skeleton_def at_review_def)
    ultimately have "comment_key (cm_id c) \<notin> set (comment_key (th_root h) # map comment_key (th_replies h))"
      by (metis option.distinct(1))
    then have absent: "cm_id c \<notin> set (th_replies h)" "th_root h \<noteq> cm_id c" by auto
    define g where "g h = (if cm_id c \<notin> set (th_replies h) \<and> th_root h \<noteq> cm_id c
      then h\<lparr>th_replies := th_replies h @ [cm_id c]\<rparr> else h)" for h :: thread
    have g: "g h = th" using th Some r absent by (simp add: g_def thread_with_comment_def at_review_def)
    have "thread_rows (update_first (\<lambda>h. th_id h = cm_thread_id c) g (sn_threads sn))
        ((at_review (v_threads t) r)(thread_key (cm_thread_id c) \<mapsto> g h))"
      by (rule thread_update [where f = g, OF rows(4) Some]) (simp add: g_def own)
    then show ?thesis
      using rows_by_id(2) [OF rows(4)] Some g
      by (simp add: created_locally_def u put_thread_def save_comment_def g_def [abs_def])
  qed
  show ?thesis
    using rows comments suggestions threads new
    by (simp add: follows_def created_locally_def review_row_def) (simp add: u save_comment_def put_thread_def)
qed

text \<open>Viewed marks are the same rows when a file's marks are of one viewer.\<close>

lemma viewed_filter:
  assumes rows: "viewed_rows vs (at_review (v_viewed t) r)" and one: "same_viewer t r repo path viewer"
  shows "filter (\<lambda>v. \<not> same_mark repo path viewer v) vs
    = filter (\<lambda>v. (repo_key (vm_repo_id v), path_str (vm_path v)) \<noteq> (repo_key repo, path_str path)) vs"
proof (rule filter_cong [OF refl])
  fix v assume v: "v \<in> set vs"
  have "vm_viewer v = viewer" if "repo_key (vm_repo_id v) = repo_key repo" "path_str (vm_path v) = path_str path"
  proof -
    have "at_review (v_viewed t) r (repo_key repo, path_str path) = Some v"
      using rows_match_iff [OF rows] v that by simp
    then show ?thesis using one by (simp add: same_viewer_def at_review_def)
  qed
  moreover have "vm_path v = path \<longleftrightarrow> path_str (vm_path v) = path_str path" by (auto intro: repo_path.expand)
  ultimately show "(\<not> same_mark repo path viewer v)
    = ((repo_key (vm_repo_id v), path_str (vm_path v)) \<noteq> (repo_key repo, path_str path))"
    by (auto simp: same_mark_def)
qed

lemma row_put_viewed:
  "at_review (tbl_insert (review_key r, repo_key repo, path_str path) m t) r = (at_review t r)((repo_key repo, path_str path) \<mapsto> m)"
  "at_review (tbl_remove (review_key r, repo_key repo, path_str path) t) r = (at_review t r)((repo_key repo, path_str path) := None)"
  by simp_all

lemma seqs_below_rows:
  assumes keys: "keys_ok t" and below: "seqs_below q t"
  shows "at_review (v_requests t) r q = None" and "at_review (v_checkpoints t) r q = None"
    and "at_review (v_suggestions t) r k = Some g \<Longrightarrow> sg_outcome g = Outcome_Applied receipt \<Longrightarrow> sr_seq receipt < q"
proof -
  have "request_event_seq (rq_id x) = q \<and> request_event_seq (rq_id x) < q" if "tbl_get (v_requests t) (review_key r, q) = Some x" for x
    using that keys below by (auto simp: keys_ok_def seqs_below_def dest: tbl_allD)
  then show "at_review (v_requests t) r q = None" by (cases "at_review (v_requests t) r q") (auto simp: at_review_def)
  have "checkpoint_event_seq (cp_id x) = q \<and> checkpoint_event_seq (cp_id x) < q" if "tbl_get (v_checkpoints t) (review_key r, q) = Some x" for x
    using that keys below by (auto simp: keys_ok_def seqs_below_def dest: tbl_allD)
  then show "at_review (v_checkpoints t) r q = None" by (cases "at_review (v_checkpoints t) r q") (auto simp: at_review_def)
  show "sr_seq receipt < q" if "at_review (v_suggestions t) r k = Some g" "sg_outcome g = Outcome_Applied receipt"
    using below that by (auto simp: seqs_below_def at_review_def dest: tbl_allD)
qed

text \<open>Every event of the review keeps the snapshot in step with the views.\<close>

lemma note_review [simp]:
  "sn_review (note_suggestion e sn) = sn_review sn" "sn_review (note_request e sn) = sn_review sn"
  "sn_review (note_checkpoint e sn) = sn_review sn"
  by (simp_all add: note_suggestion_def note_request_def note_checkpoint_def
      split: option.split event_body.split suggestion_outcome.split)

lemmas note_defs = note_suggestion_def note_request_def note_checkpoint_def request_from_event_def
  checkpoint_from_event_def

lemma fold_mine_eq:
  "body_review_id (ev_body e) = Some (rv_id (sn_review sn)) \<Longrightarrow>
     snd (fold_event e sn) = snd (fold_body_mine \<lparr>em_author = ev_author e, em_ts = ev_ts e\<rparr> (ev_body e)
       (note_checkpoint e (note_request e (note_suggestion e sn))))"
  by (simp add: fold_event_def fold_body_def)

text \<open>An accepted event of the review, the snapshot that follows the views before it, and the views after it.\<close>

definition in_step :: "review_id \<Rightarrow> review_snapshot \<Rightarrow> views \<Rightarrow> event \<Rightarrow> views \<Rightarrow> bool" where
  "in_step r sn t e u \<longleftrightarrow> follows r sn t \<and> refs_ok t \<and> seqs_below (ev_seq e) t \<and> client_guard t e
     \<and> apply_event e t = Inr u \<and> body_review_id (ev_body e) = Some r"

lemma in_stepD:
  assumes "in_step r sn t e u"
  shows "follows r sn t" "refs_ok t" "keys_ok t" "seqs_below (ev_seq e) t" "client_guard t e" "apply_event e t = Inr u"
    and "snd (fold_event e sn) = snd (fold_body_mine \<lparr>em_author = ev_author e, em_ts = ev_ts e\<rparr> (ev_body e)
       (note_checkpoint e (note_request e (note_suggestion e sn))))"
  using assms follows_rows(1) [of r sn t] fold_mine_eq [of e sn] by (simp_all add: in_step_def refs_ok_def)

lemma fold_review_edits:
  assumes "in_step r sn t e u"
  shows "ev_body e = ReviewUpdated r title status \<Longrightarrow> follows r (snd (fold_event e sn)) u"
    and "ev_body e = ReviewTargetsResolved r targets \<Longrightarrow> follows r (snd (fold_event e sn)) u"
    and "ev_body e = ReviewDeleted r \<Longrightarrow> follows r (snd (fold_event e sn)) u"
    and "ev_body e = ReviewTargetUpdated r target \<Longrightarrow> follows r (snd (fold_event e sn)) u"
    and "ev_body e = ReviewCreated rv \<Longrightarrow> follows r (snd (fold_event e sn)) u"
  unfolding in_stepD(7) [OF assms] using follows_rows [OF in_stepD(1) [OF assms]] in_stepD(5,6) [OF assms] assms
  by (auto simp: note_defs follows_def review_row_def apply_event_def load_review_def save_review_def
      result_simps target_updated_def client_guard_def in_step_def)

lemma fold_created:
  assumes "in_step r sn t e u" "ev_body e = CommentCreated c"
  shows "follows r (snd (fold_event e sn)) u"
  unfolding in_stepD(7) [OF assms(1)]
  using follows_created [OF in_stepD(1,2) [OF assms(1)], of c] in_stepD(5,6) [OF assms(1)] assms
  by (simp add: client_guard_def validated_def at_review_def apply_event_def note_defs in_step_def)

lemma fold_comment_edits:
  assumes step: "in_step r sn t e u"
  shows "ev_body e = CommentEdited r i body \<Longrightarrow> follows r (snd (fold_event e sn)) u"
    and "ev_body e = CommentDeleted r i \<Longrightarrow> follows r (snd (fold_event e sn)) u"
    and "ev_body e = CommentReanchored r i anchor state \<Longrightarrow> follows r (snd (fold_event e sn)) u"
proof -
  note f = in_stepD(1) [OF step] and keys = in_stepD(3) [OF step] and app = in_stepD(6) [OF step]
  have edit: "follows r (snd (edit_comment_of i g sn)) u"
    if c: "at_review (v_comments t) r (comment_key i) = Some c" and own: "cm_id (g c) = cm_id c" "cm_review_id (g c) = cm_review_id c"
      and u: "same_rows r (save_comment (g c) t) u" for c g
  proof -
    have ids: "cm_review_id c = r" "cm_id c = i" using keys_row(1) [OF keys c] by simp_all
    have "same_rows r (t\<lparr>v_comments := tbl_insert (review_key r, comment_key i) (g c) (v_comments t)\<rparr>) u"
      using u own ids by (simp add: save_comment_def)
    then show ?thesis by (rule follows_comment_edit [OF f keys c, rotated]) (simp add: own ids)
  qed
  show "follows r (snd (fold_event e sn)) u" if b: "ev_body e = CommentEdited r i body"
  proof -
    obtain c where c: "at_review (v_comments t) r (comment_key i) = Some c"
      and u: "u = save_comment (c\<lparr>cm_body := body, cm_edited := Some (ev_ts e)\<rparr>) t"
      using app b by (auto simp: apply_event_def load_rows result_simps)
    show ?thesis
      using edit [OF c, of "\<lambda>c. c\<lparr>cm_body := body, cm_edited := Some (ev_ts e)\<rparr>"] b
      unfolding in_stepD(7) [OF step] by (simp add: u same_rows_def note_defs)
  qed
  show "follows r (snd (fold_event e sn)) u" if b: "ev_body e = CommentDeleted r i"
  proof -
    obtain c where c: "at_review (v_comments t) r (comment_key i) = Some c"
      and u: "u = save_comment (c\<lparr>cm_state := State_Deleted\<rparr>) (unindex_anchor c t)"
      using app b by (auto simp: apply_event_def load_rows result_simps)
    show ?thesis
      using edit [OF c, of "\<lambda>c. c\<lparr>cm_state := State_Deleted\<rparr>"] b
      unfolding in_stepD(7) [OF step] by (simp add: u same_rows_def note_defs save_comment_def)
  qed
  show "follows r (snd (fold_event e sn)) u" if b: "ev_body e = CommentReanchored r i anchor state"
  proof -
    obtain c where c: "at_review (v_comments t) r (comment_key i) = Some c"
      and u: "u = comment_reanchored anchor state r c t"
      using app b by (auto simp: apply_event_def load_rows result_simps)
    show ?thesis
      using edit [OF c, of "\<lambda>c. c\<lparr>cm_anchor := anchor, cm_state := state\<rparr>"] b
      unfolding in_stepD(7) [OF step] by (simp add: u same_rows_def note_defs save_comment_def)
  qed
qed

lemma fold_resolutions:
  assumes step: "in_step r sn t e u"
  shows "ev_body e = ThreadDeferred r i reason url \<Longrightarrow> follows r (snd (fold_event e sn)) u"
    and "ev_body e = ThreadResolved r i \<Longrightarrow> follows r (snd (fold_event e sn)) u"
    and "ev_body e = ThreadUnresolved r i \<Longrightarrow> follows r (snd (fold_event e sn)) u"
  unfolding in_stepD(7) [OF step]
  using in_stepD(6) [OF step] follows_resolution [OF in_stepD(1) [OF step] _ in_stepD(3) [OF step]]
  by (auto simp: note_defs apply_event_def load_rows result_simps)

lemma fold_marks:
  assumes step: "in_step r sn t e u"
  shows "ev_body e = FileViewed r repo path viewer content \<Longrightarrow> follows r (snd (fold_event e sn)) u"
    and "ev_body e = FileUnviewed r repo path viewer \<Longrightarrow> follows r (snd (fold_event e sn)) u"
proof -
  note rows = follows_rows [OF in_stepD(1) [OF step]]
  let ?k = "(repo_key repo, path_str path)"
    and ?v = "\<lparr>vm_review_id = r, vm_repo_id = repo, vm_path = path, vm_viewer = viewer, vm_content = content\<rparr>"
  show "follows r (snd (fold_event e sn)) u" if b: "ev_body e = FileViewed r repo path viewer content"
  proof -
    have one: "same_viewer t r repo path viewer" using in_stepD(5) [OF step] b by (simp add: client_guard_def)
    have u: "u = t\<lparr>v_viewed := tbl_insert (review_key r, repo_key repo, path_str path) ?v (v_viewed t)\<rparr>"
      using in_stepD(6) [OF step] b by (auto simp: apply_event_def result_simps)
    have "viewed_rows (filter (\<lambda>v. \<not> same_mark repo path viewer v) (sn_viewed sn) @ [?v]) ((at_review (v_viewed t) r)(?k \<mapsto> ?v))"
      unfolding viewed_filter [OF rows(6) one] by (rule rows_match_put [OF rows(6)]) simp
    then show ?thesis unfolding in_stepD(7) [OF step] u using rows b by (simp add: note_defs follows_def review_row_def)
  qed
  show "follows r (snd (fold_event e sn)) u" if b: "ev_body e = FileUnviewed r repo path viewer"
  proof -
    have one: "same_viewer t r repo path viewer" using in_stepD(5) [OF step] b by (simp add: client_guard_def)
    have u: "u = t\<lparr>v_viewed := tbl_remove (review_key r, repo_key repo, path_str path) (v_viewed t)\<rparr>"
      using in_stepD(6) [OF step] b by (auto simp: apply_event_def)
    have "viewed_rows (filter (\<lambda>v. \<not> same_mark repo path viewer v) (sn_viewed sn)) ((at_review (v_viewed t) r)(?k := None))"
      unfolding viewed_filter [OF rows(6) one] by (rule rows_match_remove [OF rows(6)])
    then show ?thesis unfolding in_stepD(7) [OF step] u using rows b by (simp add: note_defs follows_def review_row_def)
  qed
qed

lemma fold_noted:
  assumes step: "in_step r sn t e u"
  shows "ev_body e = SuggestionApplied r i repo path blob \<Longrightarrow> follows r (snd (fold_event e sn)) u"
    and "ev_body e = ReviewRequested r agent note targets comparison \<Longrightarrow> follows r (snd (fold_event e sn)) u"
    and "ev_body e = ReviewChecked r reviewer targets' in_reply_to \<Longrightarrow> follows r (snd (fold_event e sn)) u"
proof -
  note rows = follows_rows [OF in_stepD(1) [OF step]] and app = in_stepD(6) [OF step]
  note fresh = seqs_below_rows [OF in_stepD(3,4) [OF step], where r = r]
  show "follows r (snd (fold_event e sn)) u" if b: "ev_body e = SuggestionApplied r i repo path blob"
  proof -
    let ?g = "suggestion_applied e repo path blob"
    obtain g where g: "at_review (v_suggestions t) r (comment_key i) = Some g"
      and u: "u = t\<lparr>v_suggestions := tbl_insert (review_key r, comment_key i) (?g g) (v_suggestions t)\<rparr>"
      using app b by (auto simp: apply_event_def result_simps at_review_def)
    have "sg_comment_id g = i" using keys_row(3) [OF in_stepD(3) [OF step] g] by simp
    then have "suggestion_rows (update_first (\<lambda>g. sg_comment_id g = i) ?g (sn_suggestions sn))
        ((at_review (v_suggestions t) r)(comment_key i \<mapsto> ?g g))"
      by (intro suggestion_update [where f = ?g, OF rows(5) g]) (simp add: suggestion_applied_def)
    moreover have "find (\<lambda>g. sg_comment_id g = i) (sn_suggestions sn) = Some g"
      using rows_by_id(5) [OF rows(5)] g by simp
    moreover have "case sg_outcome g of Outcome_Unapplied \<Rightarrow> True | Outcome_Applied receipt \<Rightarrow> sr_seq receipt < ev_seq e"
      using fresh(3) [OF g] by (simp split: suggestion_outcome.split)
    ultimately show ?thesis
      unfolding in_stepD(7) [OF step] u using rows b by (simp add: note_defs follows_def review_row_def)
  qed
  show "follows r (snd (fold_event e sn)) u" if b: "ev_body e = ReviewRequested r agent note targets comparison"
  proof -
    let ?q = "\<lparr>rq_id = ReviewRequestId (ev_seq e), rq_review_id = r, rq_requester = ev_author e, rq_recipient = agent,
      rq_targets = targets, rq_comparison = comparison, rq_note = note, rq_created = ev_ts e\<rparr>"
    have u: "u = t\<lparr>v_requests := tbl_insert (review_key r, ev_seq e) ?q (v_requests t)\<rparr>"
      using app b by (auto simp: apply_event_def request_from_event_def)
    have absent: "\<not> list_ex (\<lambda>x. rq_id x = ReviewRequestId (ev_seq e)) (sn_requests sn)"
      using rows_match_none [OF rows(7), of "ev_seq e"] fresh(1) by (auto simp: list_ex_iff)
    have "request_rows (sort_key (\<lambda>q. request_event_seq (rq_id q)) (sn_requests sn @ [?q]))
        ((at_review (v_requests t) r)(ev_seq e \<mapsto> ?q))"
      by (intro rows_match_sorted rows_match_snoc [OF rows(7) fresh(1)]) simp
    then show ?thesis
      unfolding in_stepD(7) [OF step] u using rows b absent by (simp add: note_defs follows_def review_row_def)
  qed
  show "follows r (snd (fold_event e sn)) u" if b: "ev_body e = ReviewChecked r reviewer targets' in_reply_to"
  proof -
    let ?p = "\<lparr>cp_id = ReviewCheckpointId (ev_seq e), cp_review_id = r, cp_reviewer = reviewer, cp_author = ev_author e,
      cp_created = ev_ts e, cp_targets = targets', cp_in_reply_to = in_reply_to\<rparr>"
    have u: "u = t\<lparr>v_checkpoints := tbl_insert (review_key r, ev_seq e) ?p (v_checkpoints t)\<rparr>"
      using app b by (auto simp: apply_event_def checkpoint_from_event_def)
    have absent: "\<not> list_ex (\<lambda>x. cp_id x = ReviewCheckpointId (ev_seq e)) (sn_checkpoints sn)"
      using rows_match_none [OF rows(8), of "ev_seq e"] fresh(2) by (auto simp: list_ex_iff)
    have "checkpoint_rows (sort_key (\<lambda>p. checkpoint_event_seq (cp_id p)) (sn_checkpoints sn @ [?p]))
        ((at_review (v_checkpoints t) r)(ev_seq e \<mapsto> ?p))"
      by (intro rows_match_sorted rows_match_snoc [OF rows(8) fresh(2)]) simp
    then show ?thesis
      unfolding in_stepD(7) [OF step] u using rows b absent by (simp add: note_defs follows_def review_row_def)
  qed
qed

lemma fold_mine: "in_step r sn t e u \<Longrightarrow> follows r (snd (fold_event e sn)) u"
proof -
  assume step: "in_step r sn t e u"
  then have mine: "body_review_id (ev_body e) = Some r" by (simp add: in_step_def)
  note all = fold_review_edits [OF step] fold_created [OF step] fold_comment_edits [OF step]
    fold_resolutions [OF step] fold_marks [OF step] fold_noted [OF step]
  show ?thesis using mine by (cases "ev_body e") (simp_all add: all)
qed

lemma follows_fold:
  assumes "follows r sn t" "refs_ok t" "seqs_below (ev_seq e) t" "client_guard t e" "apply_event e t = Inr u"
  shows "follows r (snd (fold_event e sn)) u"
proof (cases "body_review_id (ev_body e) = Some r")
  case True
  then show ?thesis using assms fold_mine by (simp add: in_step_def)
next
  case False
  then show ?thesis
    using assms follows_other [OF assms(1) _ assms(5)] fold_other [of e sn] follows_rows(1) [OF assms(1)] by (simp add: refs_ok_def)
qed

section \<open>Any number of events\<close>

definition fold_events :: "review_snapshot \<Rightarrow> event list \<Rightarrow> review_snapshot" where
  "fold_events sn es = foldl (\<lambda>sn e. snd (fold_event e sn)) sn es"

lemma log_inv_next: "log_inv s \<Longrightarrow> next_seq s = of_nat (Suc (store_len s))"
  using next_seq_of_keys [of s "store_len s"] by (simp add: log_inv_def)

lemma seqs_reachable: "reachable_by g s \<Longrightarrow> store_len s < 2 ^ 64 - 1 \<Longrightarrow> seqs_below (next_seq s) (st_views s)"
proof (induction rule: reachable_by.induct)
  case fresh
  show ?case by (simp add: tables_ensure_def store_empty_def Let_def seqs_below_def views_empty_def)
next
  case (appended s new e s')
  let ?n = "store_len s"
  have le: "?n \<le> store_len s'" by (rule append_store_len [OF appended.hyps(3)])
  then have inv: "log_inv s" using appended by (intro reachable_log_inv [OF appended.hyps(1)]) simp
  have bound: "Suc ?n < 2 ^ 64" using le appended.prems by simp
  have "store_len s' = Suc ?n" using append_entries [OF inv bound appended.hyps(3)] by (simp add: store_len_def)
  then have "next_seq s' = of_nat (Suc (Suc ?n))" using log_inv_next log_inv_append [OF inv bound appended.hyps(3)] by simp
  moreover have "next_seq s < of_nat (Suc (Suc ?n))"
    using log_inv_next [OF inv] seq_of_nat_less [of "Suc ?n" "Suc (Suc ?n)"] \<open>store_len s' = Suc ?n\<close> appended.prems by simp
  moreover have "seqs_below (next_seq s) (st_views s)" using appended le by simp
  moreover have "ev_seq e = next_seq s" "apply_event e (st_views s) = Inr (st_views s')"
    using appended.hyps(3) by (auto simp: append_Inr_iff)
  ultimately show ?case using seqs_below_apply [of e "st_views s" "st_views s'" "next_seq s'"] by simp
next
  case (rebuilt s s')
  then have "store_len s' = store_len s" by (auto simp: rebuild_views_alt result_simps store_len_def)
  then have "rebuild_views s = Inr s"
    using rebuilt.hyps(1) rebuilt.prems by (intro rebuild_views_log_inv reachable_log_inv) simp_all
  then show ?case using rebuilt by simp
qed

lemma client_guard_refs: "reachable_by client_guard s \<Longrightarrow> store_len s < 2 ^ 64 - 1 \<Longrightarrow> refs_ok (st_views s)"
  by (rule references.reachable_inv) (auto elim!: reachable_by_mono simp: client_guard_def)

lemma append_all_len: "append_all g news s = Some s' \<Longrightarrow> store_len s \<le> store_len s'"
proof (induction news arbitrary: s)
  case (Cons new news)
  then obtain e s1 where "append_event new s = Inr (e, s1)" "append_all g news s1 = Some s'"
    by (auto split: if_splits sum.splits)
  then show ?case using append_store_len Cons.IH le_trans by blast
qed simp

lemma follow_all:
  assumes "append_all client_guard news s = Some s'" "reachable_by client_guard s" "store_len s' < 2 ^ 64 - 1"
    and "follows r sn (st_views s)"
  shows "\<exists>es. log_events s' = log_events s @ es \<and> follows r (fold_events sn es) (st_views s')"
  using assms
proof (induction news arbitrary: s sn)
  case Nil
  then show ?case by (intro exI [of _ "[]"]) (simp add: fold_events_def)
next
  case (Cons new news)
  let ?e = "event_at (next_seq s) new"
  obtain e s1 where guard: "client_guard (st_views s) ?e" and app: "append_event new s = Inr (e, s1)"
    and rest: "append_all client_guard news s1 = Some s'"
    using Cons.prems(1) by (auto split: if_splits sum.splits)
  have e: "e = ?e" and views: "apply_event e (st_views s) = Inr (st_views s1)" using app by (auto simp: append_Inr_iff)
  have len: "store_len s < 2 ^ 64 - 1" "Suc (store_len s) < 2 ^ 64"
    using append_all_len [OF rest] append_store_len [OF app] Cons.prems(3) by simp_all
  have inv: "log_inv s" by (rule reachable_log_inv [OF Cons.prems(2) len(1)])
  have logs: "log_events s1 = log_events s @ [e]" using append_entries [OF inv len(2) app] by (simp add: log_events_def)
  have r1: "reachable_by client_guard s1" by (rule reachable_by.appended [OF Cons.prems(2) guard app])
  have "follows r (snd (fold_event e sn)) (st_views s1)"
    using follows_fold [OF Cons.prems(4) client_guard_refs [OF Cons.prems(2) len(1)], of e] guard views e
      seqs_reachable [OF Cons.prems(2) len(1)] by simp
  from Cons.IH [OF rest r1 Cons.prems(3) this] obtain es where
    "log_events s' = log_events s1 @ es" "follows r (fold_events (snd (fold_event e sn)) es) (st_views s')" by blast
  then show ?case using logs by (intro exI [of _ "e # es"]) (simp add: fold_events_def)
qed

lemma snapshot_seq:
  assumes "log_inv s" "store_review_snapshot s r = Some sn"
  shows "sn_seq sn = of_nat (store_len s)"
proof -
  have "st_view_seq s = (if store_len s = 0 then None else Some (of_nat (store_len s)))"
    using assms(1) last_seq_of_keys [of s "store_len s"] by (simp add: log_inv_def)
  then show ?thesis
    using assms(2)
    by (auto simp: store_review_snapshot_def snapshot_in_transaction_def Let_def split: option.splits review_lifecycle.splits if_splits)
qed

text \<open>
  C4: A client that holds the daemon's snapshot of a review and folds the events after the snapshot's
  sequence number holds the snapshot the daemon would send then, up to the order of the rows, whatever was
  written meanwhile: reviews, comments, edits, deletions, re-anchorings, thread states, suggestions, viewed
  marks, requests and checkpoints, of this review and of others. The writers create a review once and the
  viewed marks of a file are of one viewer.
\<close>

theorem client_converges:
  assumes "reachable_by client_guard s" "store_review_snapshot s r = Some sn"
    and "append_all client_guard news s = Some s'" "store_len s' < 2 ^ 64 - 1"
    and "store_review_snapshot s' r = Some sn'"
  shows "same_contents (fold_events sn (events_after (Some (sn_seq sn)) s')) sn'"
proof -
  have len: "store_len s < 2 ^ 64 - 1" using append_all_len [OF assms(3)] assms(4) by simp
  have r': "reachable_by client_guard s'" by (rule append_all_reachable [OF assms(3,1)])
  have inv: "log_inv s" "log_inv s'" using reachable_log_inv assms(1,4) len r' by blast+
  have keys: "keys_ok (st_views s)" "keys_ok (st_views s')" using reachable_keys assms(1) r' by blast+
  have "follows r sn (st_views s)"
    using snapshot_follows [OF keys(1)] assms(2) by (simp add: store_review_snapshot_def)
  from follow_all [OF assms(3,1,4) this] obtain es where
    es: "log_events s' = log_events s @ es" and f: "follows r (fold_events sn es) (st_views s')" by blast
  have "events_after (Some (sn_seq sn)) s' = es"
    using events_after_drop [OF inv(2), of "store_len s"] append_all_len [OF assms(3)] assms(4) es
      snapshot_seq [OF inv(1) assms(2)] length_log_events [of s] by simp
  moreover have "follows r sn' (st_views s')"
    using snapshot_follows [OF keys(2)] assms(5) by (simp add: store_review_snapshot_def)
  ultimately show ?thesis using follows_same [OF f] by simp
qed

definition sample_later :: "new_event list" where
  "sample_later =
     [sample_new (CommentEdited (ReviewId (Ulid 2 2)) (CommentId (Ulid 5 5)) ''more''),
      sample_new (ThreadResolved (ReviewId (Ulid 2 2)) (ThreadId (Ulid 4 4))),
      sample_new (FileViewed (ReviewId (Ulid 2 2)) (RepoId (Ulid 3 3)) (RepoPath ''f'')
        \<lparr>hm_name = ''ada'', hm_machine = ''m''\<rparr> Viewed_Missing)]"

theorem client_converges_witness:
  "\<exists>s sn s' sn'. append_all client_guard sample_log fresh_store = Some s
     \<and> store_review_snapshot s (ReviewId (Ulid 2 2)) = Some sn \<and> sn_seq sn = 4
     \<and> append_all client_guard sample_later s = Some s' \<and> store_review_snapshot s' (ReviewId (Ulid 2 2)) = Some sn'
     \<and> same_contents (fold_events sn (events_after (Some 4) s')) sn'
     \<and> map cm_body (sn_comments sn') = [''n'', ''more''] \<and> length (sn_viewed sn') = 1"
proof -
  let ?r = "ReviewId (Ulid 2 2)"
  have "map_option (\<lambda>s. (map_option sn_seq (store_review_snapshot s ?r),
      map_option (\<lambda>s'. (store_len s', map_option (\<lambda>sn. (map cm_body (sn_comments sn), length (sn_viewed sn))) (store_review_snapshot s' ?r)))
        (append_all client_guard sample_later s))) (append_all client_guard sample_log fresh_store)
    = Some (Some 4, Some (7, Some ([''n'', ''more''], 1)))" by code_simp
  then obtain s sn s' sn' where s: "append_all client_guard sample_log fresh_store = Some s"
    and sn: "store_review_snapshot s ?r = Some sn" "sn_seq sn = 4" and s': "append_all client_guard sample_later s = Some s'"
    and len: "store_len s' = 7" and sn': "store_review_snapshot s' ?r = Some sn'"
    and out: "map cm_body (sn_comments sn') = [''n'', ''more'']" "length (sn_viewed sn') = 1"
    by auto
  have "reachable_by client_guard s" by (rule append_all_reachable [OF s reachable_fresh_store])
  then have "same_contents (fold_events sn (events_after (Some (sn_seq sn)) s')) sn'"
    by (rule client_converges [OF _ sn(1) s' _ sn']) (simp add: len)
  then show ?thesis using s sn s' sn' out by auto
qed

section \<open>Viewed marks of two viewers\<close>

text \<open>
  Without the hypothesis on viewers the two sides differ: the table has one mark for a file, the client one
  for each viewer.
\<close>

definition sample_marks :: "new_event list" where
  "sample_marks =
     map (\<lambda>name. sample_new (FileViewed (ReviewId (Ulid 2 2)) (RepoId (Ulid 3 3)) (RepoPath ''f'')
       \<lparr>hm_name = name, hm_machine = ''m''\<rparr> Viewed_Missing)) [''ada'', ''bob'']"

lemma viewed_marks_drift:
  "\<exists>s sn s' sn'. append_all validated sample_log fresh_store = Some s
     \<and> store_review_snapshot s (ReviewId (Ulid 2 2)) = Some sn
     \<and> append_all validated sample_marks s = Some s' \<and> store_review_snapshot s' (ReviewId (Ulid 2 2)) = Some sn'
     \<and> map (hm_name \<circ> vm_viewer) (sn_viewed sn') = [''bob'']
     \<and> map (hm_name \<circ> vm_viewer) (sn_viewed (fold_events sn (events_after (Some (sn_seq sn)) s'))) = [''ada'', ''bob'']"
proof -
  let ?r = "ReviewId (Ulid 2 2)"
  have "(case append_all validated sample_log fresh_store of None \<Rightarrow> None | Some s \<Rightarrow>
      (case store_review_snapshot s ?r of None \<Rightarrow> None | Some sn \<Rightarrow>
      (case append_all validated sample_marks s of None \<Rightarrow> None | Some s' \<Rightarrow>
      (case store_review_snapshot s' ?r of None \<Rightarrow> None | Some sn' \<Rightarrow>
        Some (map (hm_name \<circ> vm_viewer) (sn_viewed sn'),
          map (hm_name \<circ> vm_viewer) (sn_viewed (fold_events sn (events_after (Some (sn_seq sn)) s'))))))))
    = Some ([''bob''], [''ada'', ''bob''])" by code_simp
  then show ?thesis by (auto split: option.splits)
qed

end
