(* ===== verification/Nits_Thread_Laws.thy ===== *)
theory Nits_Thread_Laws
  imports Nits_Comment_Laws
begin

text \<open>
  The functional behaviour of the comment operations on every branch: who may change a
  comment, the life cycle of a thread as a refinement of an abstract automaton, what a new
  comment and a reply store, and what a review request captures.
\<close>

section \<open>Only the author changes a comment\<close>

lemma core_append_ok:
  assumes "\<And>e. ev_ts e = cx_now ctx \<Longrightarrow> ev_author e = cx_author ctx \<Longrightarrow> apply_body e body (st_views (co_store c)) = Inr t"
  shows "\<exists>e c'. core_append ctx body c = (Inr e, c') \<and> st_views (co_store c') = t"
  using assms
  by (simp add: core_append_def append_event_def apply_event_def event_at_def Let_def)

lemma comment_row_ids:
  assumes "reachable_by g s" "store_comment s review cid = Some cm"
  shows "cm_review_id cm = review" "cm_id cm = cid"
  using keys_okD(3) [OF reachable_keys [OF assms(1)] assms(2) [unfolded store_comment_def]] by simp_all

lemma edit_comment_run:
  assumes "reachable_by g (co_store c)" "store_comment (co_store c) review cid = Some cm"
    and "cm_state cm \<noteq> State_Deleted" "cm_author cm = cx_author ctx"
  obtains c' where "edit_comment ctx review cid body c = (Inr (), c')"
    "st_views (co_store c') = save_comment (cm\<lparr>cm_body := body, cm_edited := Some (cx_now ctx)\<rparr>) (st_views (co_store c))"
proof -
  have "\<exists>e c'. core_append ctx (CommentEdited review cid body) c = (Inr e, c') \<and> st_views (co_store c')
      = save_comment (cm\<lparr>cm_body := body, cm_edited := Some (cx_now ctx)\<rparr>) (st_views (co_store c))"
    by (rule core_append_ok) (use assms(2) in \<open>simp add: load_comment_def store_comment_def\<close>)
  then obtain e c' where app: "core_append ctx (CommentEdited review cid body) c = (Inr e, c')"
    "st_views (co_store c') = save_comment (cm\<lparr>cm_body := body, cm_edited := Some (cx_now ctx)\<rparr>) (st_views (co_store c))"
    by blast
  have "core_comment review cid c = (Inr cm, c)" using assms by (simp add: core_comment_Inr)
  then show ?thesis using that app assms(4) by (simp add: edit_comment_def)
qed

lemma delete_comment_run:
  assumes "reachable_by g (co_store c)" "store_comment (co_store c) review cid = Some cm"
    and "cm_state cm \<noteq> State_Deleted" "cm_author cm = cx_author ctx"
  obtains c' where "delete_comment ctx review cid c = (Inr (), c')"
    "st_views (co_store c') = save_comment (cm\<lparr>cm_state := State_Deleted\<rparr>) (unindex_anchor cm (st_views (co_store c)))"
proof -
  have "\<exists>e c'. core_append ctx (CommentDeleted review cid) c = (Inr e, c') \<and> st_views (co_store c')
      = save_comment (cm\<lparr>cm_state := State_Deleted\<rparr>) (unindex_anchor cm (st_views (co_store c)))"
    by (rule core_append_ok) (use assms(2) in \<open>simp add: load_comment_def store_comment_def\<close>)
  then obtain e c' where app: "core_append ctx (CommentDeleted review cid) c = (Inr e, c')"
    "st_views (co_store c') = save_comment (cm\<lparr>cm_state := State_Deleted\<rparr>) (unindex_anchor cm (st_views (co_store c)))"
    by blast
  have "core_comment review cid c = (Inr cm, c)" using assms by (simp add: core_comment_Inr)
  then show ?thesis using that app assms(4) by (simp add: delete_comment_def)
qed

text \<open>
  A comment that is not deleted is edited and deleted by its author only: for anyone else
  both operations are forbidden and change nothing; for the author they succeed, editing sets
  the body and the edit time, deleting marks the comment deleted, no other comment changes, and
  afterwards a deleted comment can be neither edited nor deleted.
\<close>

lemma author_controls_comment:
  assumes "reachable_by g (co_store c)" "store_comment (co_store c) review cid = Some cm"
    and "cm_state cm \<noteq> State_Deleted"
  shows "if cm_author cm = cx_author ctx
    then (\<exists>c1 c2. edit_comment ctx review cid body c = (Inr (), c1)
        \<and> store_comment (co_store c1) review cid = Some (cm\<lparr>cm_body := body, cm_edited := Some (cx_now ctx)\<rparr>)
        \<and> delete_comment ctx review cid c = (Inr (), c2)
        \<and> store_comment (co_store c2) review cid = Some (cm\<lparr>cm_state := State_Deleted\<rparr>)
        \<and> edit_comment ctx review cid body c2 = (Inl (NotFound (Entity_Comment cid)), c2)
        \<and> delete_comment ctx review cid c2 = (Inl (NotFound (Entity_Comment cid)), c2)
        \<and> (\<forall>r k. (r, k) \<noteq> (review, cid) \<longrightarrow>
              store_comment (co_store c1) r k = store_comment (co_store c) r k
              \<and> store_comment (co_store c2) r k = store_comment (co_store c) r k))
    else edit_comment ctx review cid body c = (Inl (Forbidden OnlyAuthorMayEdit), c)
       \<and> delete_comment ctx review cid c = (Inl (Forbidden OnlyAuthorMayDelete), c)"
proof (cases "cm_author cm = cx_author ctx")
  case True
  note ids = comment_row_ids [OF assms(1,2)]
  obtain c1 where c1: "edit_comment ctx review cid body c = (Inr (), c1)"
    "st_views (co_store c1) = save_comment (cm\<lparr>cm_body := body, cm_edited := Some (cx_now ctx)\<rparr>) (st_views (co_store c))"
    using edit_comment_run [OF assms True] .
  obtain c2 where c2: "delete_comment ctx review cid c = (Inr (), c2)"
    "st_views (co_store c2) = save_comment (cm\<lparr>cm_state := State_Deleted\<rparr>) (unindex_anchor cm (st_views (co_store c)))"
    using delete_comment_run [OF assms True] .
  have row2: "store_comment (co_store c2) review cid = Some (cm\<lparr>cm_state := State_Deleted\<rparr>)"
    using ids by (simp add: store_comment_def c2(2) save_comment_def)
  have gone: "core_comment review cid c2 = (Inl (NotFound (Entity_Comment cid)), c2)"
    using row2 by (simp add: core_comment_def)
  have "store_comment (co_store c1) review cid = Some (cm\<lparr>cm_body := body, cm_edited := Some (cx_now ctx)\<rparr>)"
    using ids by (simp add: store_comment_def c1(2) save_comment_def)
  moreover have "store_comment (co_store c1) r k = store_comment (co_store c) r k
      \<and> store_comment (co_store c2) r k = store_comment (co_store c) r k" if "(r, k) \<noteq> (review, cid)" for r k
    using that ids by (auto simp: store_comment_def c1(2) c2(2) save_comment_def)
  ultimately show ?thesis
    using True c1(1) c2(1) row2 gone by (simp add: edit_comment_def delete_comment_def)
next
  case False
  have "core_comment review cid c = (Inr cm, c)" using assms by (simp add: core_comment_Inr)
  then show ?thesis using False by (simp add: edit_comment_def delete_comment_def)
qed

text \<open>The small review with one comment on its file, by the sample author.\<close>

definition commented :: "comment_kind \<Rightarrow> core" where
  "commented kind = snd (add_comment sample_env sample_ctx (ReviewId (Ulid 2 2)) (CommentId (Ulid 4 4)) kind
     (Anchor_File (RepoId (Ulid 3 3)) (RepoPath ''f'') (BlobOid (Oid [7]))) ''n'' None sample_core)"

lemma commented_reachable: "reachable_by validated (co_store (commented kind))"
  unfolding commented_def by (rule validated_client.keepsD [OF keeps_add_comment sample_core_reachable])

lemma commented_len: "store_len (co_store (commented Kind_Note)) = 5"
  by code_simp

section \<open>The life cycle of a thread\<close>

text \<open>What a thread promises its readers, as an automaton on resolutions.\<close>

datatype thread_action =
    Act_Defer deferral_reason "tracking_url option"
  | Act_Resolve
  | Act_Reopen

fun thread_spec :: "ctx \<Rightarrow> thread_id \<Rightarrow> thread_action \<Rightarrow> thread_resolution \<Rightarrow> (invalid_reason, thread_resolution) result" where
  "thread_spec ctx tid (Act_Defer reason url) Resolution_Open =
     Inr (Resolution_Deferred reason url (cx_author ctx) (cx_now ctx))"
| "thread_spec ctx tid (Act_Defer reason url) Resolution_Informational = Inl InformationalNotDeferrable"
| "thread_spec ctx tid (Act_Defer reason url) _ = Inl ReopenBeforeDeferring"
| "thread_spec ctx tid Act_Resolve Resolution_Informational = Inl InformationalNotResolvable"
| "thread_spec ctx tid Act_Resolve (Resolution_Resolved _ _) = Inl (AlreadyResolved tid)"
| "thread_spec ctx tid Act_Resolve _ = Inr (Resolution_Resolved (cx_author ctx) (cx_now ctx))"
| "thread_spec ctx tid Act_Reopen Resolution_Informational = Inl InformationalNotResolvable"
| "thread_spec ctx tid Act_Reopen Resolution_Open = Inl (NotResolved tid)"
| "thread_spec ctx tid Act_Reopen _ = Inr Resolution_Open"

fun thread_op :: "ctx \<Rightarrow> review_id \<Rightarrow> thread_id \<Rightarrow> thread_action \<Rightarrow> unit op" where
  "thread_op ctx review tid (Act_Defer reason url) = defer_thread ctx review tid reason url"
| "thread_op ctx review tid Act_Resolve = resolve_thread ctx review tid"
| "thread_op ctx review tid Act_Reopen = unresolve_thread ctx review tid"

fun thread_event :: "review_id \<Rightarrow> thread_id \<Rightarrow> thread_action \<Rightarrow> event_body" where
  "thread_event review tid (Act_Defer reason url) = ThreadDeferred review tid reason url"
| "thread_event review tid Act_Resolve = ThreadResolved review tid"
| "thread_event review tid Act_Reopen = ThreadUnresolved review tid"

lemma thread_op_spec:
  assumes "core_thread review tid c = (Inr th, c)"
  shows "thread_op ctx review tid act c =
    (case thread_spec ctx tid act (th_resolution th) of
       Inl reason \<Rightarrow> (Inl (Invalid reason), c)
     | Inr _ \<Rightarrow> bindO (core_append ctx (thread_event review tid act)) (\<lambda>_. retO ()) c)"
  using assms
  by (cases act; cases "th_resolution th")
    (simp_all add: defer_thread_def resolve_thread_def unresolve_thread_def is_resolved_def)

lemma thread_append_run:
  assumes "tbl_get (v_threads (st_views (co_store c))) (review_key review, thread_key tid) = Some th"
    and "thread_spec ctx tid act (th_resolution th) = Inr res"
  obtains c' where "bindO (core_append ctx (thread_event review tid act)) (\<lambda>_. retO ()) c = (Inr (), c')"
    "st_views (co_store c') = save_thread (th\<lparr>th_resolution := res\<rparr>) (st_views (co_store c))"
proof -
  have "\<exists>e c'. core_append ctx (thread_event review tid act) c = (Inr e, c')
      \<and> st_views (co_store c') = save_thread (th\<lparr>th_resolution := res\<rparr>) (st_views (co_store c))"
    using assms
    by (intro core_append_ok; cases act; cases "th_resolution th")
      (auto simp: load_thread_def set_resolution_def)
  then show ?thesis using that by auto
qed

text \<open>
  C8: Deferring, resolving and reopening refine the life cycle of a thread: on a thread of the
  review each operation does what the automaton says, with its error as the reason and nothing
  changed, or with the new resolution stored and every other thread, comment and review as
  before; an informational thread never leaves its state. On an unknown thread each reports
  that it is not found.
\<close>

theorem thread_life_cycle:
  assumes "reachable_by g (co_store c)"
  shows "case tbl_get (v_threads (st_views (co_store c))) (review_key review, thread_key tid) of
      None \<Rightarrow> thread_op ctx review tid act c = (Inl (NotFound (Entity_Thread tid)), c)
    | Some th \<Rightarrow>
        (case thread_spec ctx tid act (th_resolution th) of
           Inl reason \<Rightarrow> thread_op ctx review tid act c = (Inl (Invalid reason), c)
         | Inr res \<Rightarrow> th_resolution th \<noteq> Resolution_Informational \<and>
             (\<exists>c'. thread_op ctx review tid act c = (Inr (), c')
               \<and> st_views (co_store c') = (st_views (co_store c))\<lparr>v_threads :=
                   tbl_insert (review_key review, thread_key tid) (th\<lparr>th_resolution := res\<rparr>)
                     (v_threads (st_views (co_store c)))\<rparr>))"
proof (cases "tbl_get (v_threads (st_views (co_store c))) (review_key review, thread_key tid)")
  case None
  then have "core_thread review tid c = (Inl (NotFound (Entity_Thread tid)), c)"
    by (simp add: core_thread_row [OF assms])
  then show ?thesis
    using None by (cases act) (simp_all add: defer_thread_def resolve_thread_def unresolve_thread_def)
next
  case (Some th)
  then have th: "core_thread review tid c = (Inr th, c)" by (simp add: core_thread_row [OF assms])
  have ids: "review_key (th_review_id th) = review_key review \<and> thread_key (th_id th) = thread_key tid"
    using keys_okD(5) [OF reachable_keys [OF assms] Some] .
  show ?thesis
  proof (cases "thread_spec ctx tid act (th_resolution th)")
    case (Inl reason)
    then show ?thesis using Some thread_op_spec [OF th, of ctx act] by simp
  next
    case (Inr res)
    obtain c' where c': "bindO (core_append ctx (thread_event review tid act)) (\<lambda>_. retO ()) c = (Inr (), c')"
      "st_views (co_store c') = save_thread (th\<lparr>th_resolution := res\<rparr>) (st_views (co_store c))"
      using thread_append_run [OF Some Inr] .
    have "th_resolution th \<noteq> Resolution_Informational" using Inr by (cases act) auto
    then show ?thesis
      using Some Inr thread_op_spec [OF th, of ctx act] c' ids by (simp add: save_thread_def)
  qed
qed

theorem thread_life_cycle_witness:
  "\<exists>th c'. tbl_get (v_threads (st_views (co_store (commented Kind_Note))))
        (review_key (ReviewId (Ulid 2 2)), thread_key (ThreadId (Ulid 4 4))) = Some th
     \<and> thread_op sample_ctx (ReviewId (Ulid 2 2)) (ThreadId (Ulid 4 4)) Act_Resolve (commented Kind_Note) = (Inr (), c')"
proof -
  have "map_option th_resolution (tbl_get (v_threads (st_views (co_store (commented Kind_Note))))
        (review_key (ReviewId (Ulid 2 2)), thread_key (ThreadId (Ulid 4 4)))) = Some Resolution_Open" by code_simp
  then obtain th where th: "tbl_get (v_threads (st_views (co_store (commented Kind_Note))))
        (review_key (ReviewId (Ulid 2 2)), thread_key (ThreadId (Ulid 4 4))) = Some th"
    "th_resolution th = Resolution_Open" by auto
  then show ?thesis
    using thread_life_cycle [OF commented_reachable [of Kind_Note], where review = "ReviewId (Ulid 2 2)"
        and tid = "ThreadId (Ulid 4 4)" and ctx = sample_ctx and act = Act_Resolve] by auto
qed

section \<open>New comments\<close>

text \<open>What the review's repositories say about an anchor that was accepted.\<close>

definition anchor_checked :: "env \<Rightarrow> core \<Rightarrow> review_id \<Rightarrow> anchor \<Rightarrow> anchor \<Rightarrow> bool" where
  "anchor_checked E c review given stamped \<longleftrightarrow>
     (case given of
        Anchor_Review \<Rightarrow> stamped = Anchor_Review
      | Anchor_File repo_id path blob \<Rightarrow>
          stamped = Anchor_File repo_id path blob
          \<and> (\<exists>repo bytes. fst (review_repo E review repo_id c) = Inr repo \<and> gr_blob repo blob = Inr bytes)
      | Anchor_Lines repo_id path side blob lines _ \<Rightarrow>
          (\<exists>repo bytes. fst (review_repo E review repo_id c) = Inr repo \<and> gr_blob repo blob = Inr bytes
             \<and> unat (line_index (range_end lines)) < length (lines_of bytes)
             \<and> stamped = Anchor_Lines repo_id path side blob lines
                 (context_hash_of (al_hasher (en_libs E)) (lines_of bytes) lines)))"

lemma validate_anchor_Inr:
  assumes "validate_anchor E review anchor c = (Inr stamped, c')"
  shows "anchor_checked E c review anchor stamped"
proof -
  from assms obtain rec where rec: "core_review review c = (Inr rec, c)"
    by (auto simp: validate_anchor_def result_simps core_review_Inr)
  show ?thesis
  proof (cases anchor)
    case (Anchor_Lines repo_id path side blob lines h)
    from assms rec obtain repo bytes where "fst (review_repo E review repo_id c) = Inr repo"
      "gr_blob repo blob = Inr bytes" "unat (line_index (range_end lines)) < length (lines_of bytes)"
      "stamped = Anchor_Lines repo_id path side blob lines
         (context_hash_of (al_hasher (en_libs E)) (lines_of bytes) lines)"
      by (auto simp: validate_anchor_def Anchor_Lines result_simps Let_def core_review_Inr not_le split: if_splits)
    then show ?thesis by (auto simp: anchor_checked_def Anchor_Lines)
  qed (use assms rec in \<open>auto simp: validate_anchor_def anchor_checked_def result_simps core_review_Inr split: if_splits\<close>)
qed

lemma comment_created_rows:
  assumes "core_append ctx (CommentCreated cm) c = (Inr e, c')"
  shows "\<exists>th. thread_with_comment (ev_seq e) cm (st_views (co_store c)) = Inr th
    \<and> v_comments (st_views (co_store c')) =
        tbl_insert (review_key (cm_review_id cm), comment_key (cm_id cm)) cm (v_comments (st_views (co_store c)))
    \<and> v_threads (st_views (co_store c')) =
        tbl_insert (review_key (cm_review_id cm), thread_key (cm_thread_id cm)) th (v_threads (st_views (co_store c)))"
proof -
  obtain t where t: "comment_created (ev_seq e) cm (st_views (co_store c)) = Inr t" "st_views (co_store c') = t"
    using core_append_row [OF assms] by auto
  show ?thesis unfolding t(2) using t(1)
    by (auto simp: comment_created_def result_simps save_comment_def put_thread_def)
qed

lemma no_thread_without_root:
  assumes "reachable_by validated s" "store_len s < 2 ^ 64 - 1" "store_comment s review cid = None"
  shows "tbl_get (v_threads (st_views s)) (review_key review, comment_key cid) = None"
proof (rule ccontr)
  assume "tbl_get (v_threads (st_views s)) (review_key review, comment_key cid) \<noteq> None"
  then obtain th where th: "tbl_get (v_threads (st_views s)) (review_key review, comment_key cid) = Some th"
    by blast
  have ok: "refs_ok (st_views s)" by (rule references.reachable_inv [OF assms(1,2)])
  have "th \<in> set (rows_of review (v_threads (st_views s)))" using th by (auto simp: rows_of_iff)
  from comments_of_thread(1) [OF ok this] comments_of_thread(2) [OF ok this, of "th_root th"]
  have root: "thread_key (th_id th) = comment_key (th_root th)"
    "tbl_get (v_comments (st_views s)) (review_key review, comment_key (th_root th)) \<noteq> None" by auto
  have "thread_key (th_id th) = comment_key cid" using keys_okD(5) [OF reachable_keys [OF assms(1)] th] by simp
  then show False using root assms(3) by (simp add: store_comment_def)
qed

text \<open>
  A comment that is accepted has an id that was free in its review, an anchor whose blob the
  review's repository holds, with its lines inside that blob and the context hash computed from
  it whatever the client sent, and is informational only on the review as a whole; it is stored
  as returned, live, and roots a new thread of its own id with no replies.
\<close>

lemma add_comment_stored:
  assumes "reachable_by validated (co_store c)" "store_len (co_store c) < 2 ^ 64 - 1"
    and "add_comment E ctx review cid kind anchor body context c = (Inr cm, c')"
  shows "store_comment (co_store c) review cid = None
    \<and> anchor_checked E c review anchor (cm_anchor cm)
    \<and> (kind = Kind_Informational \<longrightarrow> cm_anchor cm = Anchor_Review)
    \<and> cm_author cm = cx_author ctx \<and> cm_kind cm = kind \<and> cm_body cm = body \<and> cm_state cm = State_Live
    \<and> store_comment (co_store c') review cid = Some cm
    \<and> find (\<lambda>th. th_id th = cm_thread_id cm) (store_threads (co_store c') review) =
        Some \<lparr>th_id = thread_id_of cid, th_review_id = review, th_root = cid, th_replies = [],
              th_resolution = resolution_for_root kind\<rparr>"
proof -
  from assms(3) obtain stamped c1 e where free: "store_comment (co_store c) review cid = None"
    and info: "\<not> (kind = Kind_Informational \<and> anchor \<noteq> Anchor_Review)"
    and val: "validate_anchor E review anchor c = (Inr stamped, c1)"
    and cm: "cm = \<lparr>cm_id = cid, cm_review_id = review, cm_thread_id = thread_id_of cid,
             cm_author = cx_author ctx, cm_kind = kind, cm_anchor = stamped, cm_body = body,
             cm_created = cx_now ctx, cm_edited = None, cm_state = State_Live, cm_context = context\<rparr>"
    and app: "core_append ctx (CommentCreated cm) c1 = (Inr e, c')"
    by (auto simp: add_comment_def result_simps Let_def split: if_splits)
  have st: "co_store c1 = co_store c" by (rule readonlyD [OF readonly_validate_anchor val])
  obtain th where th: "thread_with_comment (ev_seq e) cm (st_views (co_store c)) = Inr th"
    and rows: "v_comments (st_views (co_store c')) =
        tbl_insert (review_key review, comment_key cid) cm (v_comments (st_views (co_store c)))"
      "v_threads (st_views (co_store c')) =
        tbl_insert (review_key review, comment_key cid) th (v_threads (st_views (co_store c)))"
    using comment_created_rows [OF app] st by (auto simp: cm)
  have "th = \<lparr>th_id = thread_id_of cid, th_review_id = review, th_root = cid, th_replies = [],
              th_resolution = resolution_for_root kind\<rparr>"
    using th no_thread_without_root [OF assms(1,2) free] by (simp add: thread_with_comment_def cm)
  moreover have "keys_ok (st_views (co_store c'))"
    using validated_client.keepsD [OF keeps_add_comment assms(1), of E ctx review cid kind anchor body "context"]
      assms(3) reachable_keys by simp
  ultimately have "find (\<lambda>t. th_id t = thread_id_of cid) (store_threads (co_store c') review) =
      Some \<lparr>th_id = thread_id_of cid, th_review_id = review, th_root = cid, th_replies = [],
              th_resolution = resolution_for_root kind\<rparr>"
    unfolding store_threads_def by (subst find_thread) (simp_all add: rows)
  moreover have "kind = Kind_Informational \<longrightarrow> stamped = Anchor_Review"
    using info validate_anchor_Inr [OF val] by (auto simp: anchor_checked_def)
  moreover have "store_comment (co_store c') review cid = Some cm" by (simp add: store_comment_def rows)
  ultimately show ?thesis using free validate_anchor_Inr [OF val] by (simp add: cm)
qed

text \<open>
  A reply that is accepted has an id that was free in its review and goes to an existing
  thread whose root is not deleted; it takes the root's anchor, state and context, is appended
  as the last reply of that thread, which otherwise keeps its root and resolution, and no other
  thread or comment changes.
\<close>

lemma reply_joins_thread:
  assumes "reachable_by g (co_store c)"
    and "reply ctx review tid cid kind body c = (Inr cm, c')"
  shows "\<exists>th root. store_comment (co_store c) review cid = None
    \<and> tbl_get (v_threads (st_views (co_store c))) (review_key review, thread_key tid) = Some th
    \<and> store_comment (co_store c) review (th_root th) = Some root \<and> cm_state root \<noteq> State_Deleted
    \<and> cm = \<lparr>cm_id = cid, cm_review_id = review, cm_thread_id = tid, cm_author = cx_author ctx, cm_kind = kind,
            cm_anchor = cm_anchor root, cm_body = body, cm_created = cx_now ctx, cm_edited = None,
            cm_state = cm_state root, cm_context = cm_context root\<rparr>
    \<and> v_comments (st_views (co_store c')) =
        tbl_insert (review_key review, comment_key cid) cm (v_comments (st_views (co_store c)))
    \<and> v_threads (st_views (co_store c')) =
        tbl_insert (review_key review, thread_key tid) (th\<lparr>th_replies := th_replies th @ [cid]\<rparr>)
          (v_threads (st_views (co_store c)))"
proof -
  from assms(2) obtain th root e where free: "store_comment (co_store c) review cid = None"
    and th: "core_thread review tid c = (Inr th, c)"
    and root: "store_comment (co_store c) review (th_root th) = Some root" "cm_state root \<noteq> State_Deleted"
    and cm: "cm = \<lparr>cm_id = cid, cm_review_id = review, cm_thread_id = tid, cm_author = cx_author ctx, cm_kind = kind,
            cm_anchor = cm_anchor root, cm_body = body, cm_created = cx_now ctx, cm_edited = None,
            cm_state = cm_state root, cm_context = cm_context root\<rparr>"
    and app: "core_append ctx (CommentCreated cm) c = (Inr e, c')"
    by (auto simp: reply_def result_simps Let_def core_comment_Inr core_thread_Inr split: if_splits)
  have row: "tbl_get (v_threads (st_views (co_store c))) (review_key review, thread_key tid) = Some th"
    using th by (auto simp: core_thread_row [OF assms(1)] result_simps)
  then show ?thesis
    using free root cm comment_created_rows [OF app] by (auto simp: thread_with_comment_def)
qed

end
