(* ===== verification/Nits_Patch_Laws.thy ===== *)
theory Nits_Patch_Laws
  imports Nits_Patch
begin

text \<open>
  What applying a patch means: a declarative relation between the lines of the original, the
  hunks and the lines of the result, that the routine computes it exactly, that the reversed
  patch undoes it, and that the preview shows the lines it names.
\<close>

section \<open>Sides of a hunk\<close>

definition old_side :: "body_line list \<Rightarrow> string list" where
  "old_side ls = map bl_bytes (filter (\<lambda>l. bl_kind l \<noteq> Line_Add) ls)"

definition new_side :: "body_line list \<Rightarrow> string list" where
  "new_side ls = map bl_bytes (filter (\<lambda>l. bl_kind l \<noteq> Line_Remove) ls)"

text \<open>
  The hunks rewrite the old lines from position \<open>p\<close> on into the new lines from position \<open>q\<close>
  on: unchanged lines up to the hunk, whose old side is replaced by its new side, and so on.
\<close>

inductive patches :: "hunk list \<Rightarrow> nat \<Rightarrow> nat \<Rightarrow> string list \<Rightarrow> string list \<Rightarrow> bool" where
  patches_end: "patches [] p q ls ls"
| patches_hunk: "p + length u = hr_offset (hk_old h) \<Longrightarrow> q + length u = hr_offset (hk_new h) \<Longrightarrow>
    patches hs (hr_offset (hk_old h) + length (old_side (hk_lines h)))
      (hr_offset (hk_new h) + length (new_side (hk_lines h))) olds news \<Longrightarrow>
    patches (h # hs) p q (u @ old_side (hk_lines h) @ olds) (u @ new_side (hk_lines h) @ news)"

inductive_simps patches_Nil [simp]: "patches [] p q olds news"
inductive_simps patches_Cons: "patches (h # hs) p q olds news"

section \<open>The routine computes the relation\<close>

lemma side_simps [simp]:
  "old_side [] = []" "new_side [] = []"
  "old_side (l # ls) = (if bl_kind l = Line_Add then old_side ls else bl_bytes l # old_side ls)"
  "new_side (l # ls) = (if bl_kind l = Line_Remove then new_side ls else bl_bytes l # new_side ls)"
  by (simp_all add: old_side_def new_side_def)

lemma slice_at_Some_take:
  "slice_at xs i = Some x \<and> take n (drop (Suc i) xs) = ys \<longleftrightarrow> take (Suc n) (drop i xs) = x # ys"
  by (cases "i < length xs") (auto simp: slice_at_def Cons_nth_drop_Suc [symmetric])

lemma apply_lines_iff:
  "apply_lines olds ls cursor out = Inr (cursor', out') \<longleftrightarrow>
     take (length (old_side ls)) (drop cursor olds) = old_side ls
     \<and> cursor' = cursor + length (old_side ls) \<and> out' = out @ new_side ls"
proof (induction ls arbitrary: cursor out)
  case (Cons l ls)
  show ?case
  proof (cases "bl_kind l = Line_Add")
    case True
    then show ?thesis by (simp add: Cons.IH)
  next
    case False
    have "apply_lines olds (l # ls) cursor out = Inr (cursor', out') \<longleftrightarrow>
        slice_at olds cursor = Some (bl_bytes l)
        \<and> apply_lines olds ls (Suc cursor) (if bl_kind l = Line_Context then out @ [bl_bytes l] else out)
            = Inr (cursor', out')"
      using False by (cases "bl_kind l") auto
    also have "\<dots> \<longleftrightarrow> take (length (old_side (l # ls))) (drop cursor olds) = old_side (l # ls)
        \<and> cursor' = cursor + length (old_side (l # ls)) \<and> out' = out @ new_side (l # ls)"
      using False
      by (cases "bl_kind l") (auto simp: Cons.IH slice_at_Some_take [symmetric])
    finally show ?thesis .
  qed
qed auto

lemma apply_hunk_iff:
  "apply_hunk olds h (cursor, out) = Inr (cursor', out') \<longleftrightarrow>
     cursor \<le> hr_offset (hk_old h) \<and> hr_offset (hk_old h) \<le> length olds
     \<and> length out + (hr_offset (hk_old h) - cursor) = hr_offset (hk_new h)
     \<and> take (length (old_side (hk_lines h))) (drop (hr_offset (hk_old h)) olds) = old_side (hk_lines h)
     \<and> cursor' = hr_offset (hk_old h) + length (old_side (hk_lines h))
     \<and> out' = out @ take (hr_offset (hk_old h) - cursor) (drop cursor olds) @ new_side (hk_lines h)"
  by (auto simp: apply_hunk_def slice_get_def Let_def apply_lines_iff result_simps split: if_splits)

lemma apply_hunk_patches:
  assumes "cursor \<le> length olds"
  shows "patches (h # hs) cursor (length out) (drop cursor olds) news \<longleftrightarrow>
    (\<exists>cursor' out' rest. apply_hunk olds h (cursor, out) = Inr (cursor', out') \<and> cursor' \<le> length olds
       \<and> patches hs cursor' (length out') (drop cursor' olds) rest \<and> out @ news = out' @ rest)"
    (is "_ \<longleftrightarrow> ?r")
proof
  assume "patches (h # hs) cursor (length out) (drop cursor olds) news"
  then obtain u olds' news' where
    old: "drop cursor olds = u @ old_side (hk_lines h) @ olds'" and new: "news = u @ new_side (hk_lines h) @ news'"
    and off: "cursor + length u = hr_offset (hk_old h)" "length out + length u = hr_offset (hk_new h)"
    and rest: "patches hs (hr_offset (hk_old h) + length (old_side (hk_lines h)))
      (hr_offset (hk_new h) + length (new_side (hk_lines h))) olds' news'"
    by (auto simp: patches_Cons)
  let ?c = "hr_offset (hk_old h) + length (old_side (hk_lines h))"
  have len: "length olds = cursor + length u + length (old_side (hk_lines h)) + length olds'"
    using arg_cong [OF old, of length] assms by simp
  have du: "hr_offset (hk_old h) - cursor = length u" using off(1) by linarith
  have dh: "drop (hr_offset (hk_old h)) olds = old_side (hk_lines h) @ olds'"
    using arg_cong [OF old, of "drop (length u)"] off by (simp add: add.commute)
  then have "drop (length (old_side (hk_lines h))) (drop (hr_offset (hk_old h)) olds) = olds'" by simp
  then have dc: "drop ?c olds = olds'" by (simp add: add.commute)
  have tk: "take (hr_offset (hk_old h) - cursor) (drop cursor olds) = u"
    unfolding du old by simp
  have "apply_hunk olds h (cursor, out) = Inr (?c, out @ u @ new_side (hk_lines h))"
    unfolding apply_hunk_iff tk dh using off len du by simp
  moreover have "?c \<le> length olds" using off(1) len by linarith
  moreover have "patches hs ?c (length (out @ u @ new_side (hk_lines h))) (drop ?c olds) news'"
    unfolding dc using rest off(2) by (simp add: add.assoc [symmetric])
  ultimately show ?r using new by (metis append_assoc)
next
  assume ?r
  then obtain cursor' out' rest where ap: "apply_hunk olds h (cursor, out) = Inr (cursor', out')"
    and le: "cursor' \<le> length olds" and rest: "patches hs cursor' (length out') (drop cursor' olds) rest"
    and news: "out @ news = out' @ rest" by blast
  let ?u = "take (hr_offset (hk_old h) - cursor) (drop cursor olds)"
  have f: "cursor \<le> hr_offset (hk_old h)" "hr_offset (hk_old h) \<le> length olds"
     "length out + (hr_offset (hk_old h) - cursor) = hr_offset (hk_new h)"
     "take (length (old_side (hk_lines h))) (drop (hr_offset (hk_old h)) olds) = old_side (hk_lines h)"
     "cursor' = hr_offset (hk_old h) + length (old_side (hk_lines h))"
     "out' = out @ ?u @ new_side (hk_lines h)"
    using ap by (auto simp: apply_hunk_iff)
  have "drop cursor olds = ?u @ drop (hr_offset (hk_old h)) olds"
    using f(1) by (metis append_take_drop_id drop_drop le_add_diff_inverse2)
  also have "drop (hr_offset (hk_old h)) olds = old_side (hk_lines h) @ drop cursor' olds"
    using f(4,5) by (metis append_take_drop_id drop_drop add.commute)
  finally have old: "drop cursor olds = ?u @ old_side (hk_lines h) @ drop cursor' olds" .
  have new: "news = ?u @ new_side (hk_lines h) @ rest" using news f(6) by simp
  have "patches (h # hs) cursor (length out) (?u @ old_side (hk_lines h) @ drop cursor' olds)
      (?u @ new_side (hk_lines h) @ rest)"
  proof (rule patches_hunk)
    have lu: "length ?u = hr_offset (hk_old h) - cursor" using f(1,2) by simp
    then show "cursor + length ?u = hr_offset (hk_old h)" "length out + length ?u = hr_offset (hk_new h)"
      using f(1,3) by simp_all
    then have "length out' = hr_offset (hk_new h) + length (new_side (hk_lines h))"
      unfolding f(6) by simp
    then show "patches hs (hr_offset (hk_old h) + length (old_side (hk_lines h)))
        (hr_offset (hk_new h) + length (new_side (hk_lines h))) (drop cursor' olds) rest"
      using rest f(5) by simp
  qed
  then show "patches (h # hs) cursor (length out) (drop cursor olds) news"
    by (simp only: old [symmetric] new [symmetric])
qed

text \<open>The whole loop over the hunks, with the tail that is copied after it.\<close>

lemma foldR_apply_hunks:
  "cursor \<le> length olds \<Longrightarrow>
     (\<exists>cursor' out'. foldR (apply_hunk olds) hs (cursor, out) = Inr (cursor', out')
        \<and> cursor' \<le> length olds \<and> full = out' @ drop cursor' olds)
     \<longleftrightarrow> (\<exists>news. patches hs cursor (length out) (drop cursor olds) news \<and> full = out @ news)"
proof (induction hs arbitrary: cursor out)
  case Nil
  then show ?case by auto
next
  case (Cons h hs)
  have "(\<exists>cursor' out'. foldR (apply_hunk olds) (h # hs) (cursor, out) = Inr (cursor', out')
        \<and> cursor' \<le> length olds \<and> full = out' @ drop cursor' olds)
     \<longleftrightarrow> (\<exists>c o1. apply_hunk olds h (cursor, out) = Inr (c, o1)
        \<and> (\<exists>cursor' out'. foldR (apply_hunk olds) hs (c, o1) = Inr (cursor', out')
              \<and> cursor' \<le> length olds \<and> full = out' @ drop cursor' olds))"
    by (cases "apply_hunk olds h (cursor, out)") auto
  also have "\<dots> \<longleftrightarrow> (\<exists>c o1. apply_hunk olds h (cursor, out) = Inr (c, o1) \<and> c \<le> length olds
        \<and> (\<exists>rest. patches hs c (length o1) (drop c olds) rest \<and> full = o1 @ rest))"
  proof -
    have "c \<le> length olds" if "apply_hunk olds h (cursor, out) = Inr (c, o1)" for c o1
      using that by (auto simp: apply_hunk_iff dest!: arg_cong [where f = length])
    then show ?thesis using Cons.IH by blast
  qed
  also have "\<dots> \<longleftrightarrow> (\<exists>news. patches (h # hs) cursor (length out) (drop cursor olds) news
      \<and> full = out @ news)"
  proof -
    have ext: "\<exists>v. o1 = out @ v" if "apply_hunk olds h (cursor, out) = Inr (c, o1)" for c o1
      using that by (auto simp: apply_hunk_iff)
    show ?thesis (is "?l \<longleftrightarrow> ?r")
    proof
      assume ?l
      then obtain c o1 rest where st: "apply_hunk olds h (cursor, out) = Inr (c, o1)" "c \<le> length olds"
        "patches hs c (length o1) (drop c olds) rest" "full = o1 @ rest" by blast
      then obtain v where "o1 = out @ v" using ext by blast
      then show ?r
        unfolding apply_hunk_patches [OF Cons.prems] using st by (intro exI [of _ "v @ rest"]) auto
    next
      assume ?r
      then show ?l unfolding apply_hunk_patches [OF Cons.prems] by metis
    qed
  qed
  finally show ?case .
qed

lemma ends_with_newline: "ends_with [c] l \<longleftrightarrow> terminated c l"
  by (cases l rule: rev_cases) (auto simp: ends_with_iff terminated_def)

lemma tl_rev: "tl (rev xs) = rev (butlast xs)"
  by (cases xs rule: rev_cases) auto

lemma apply_parsed_iff:
  "apply_parsed original hunks = Inr result \<longleftrightarrow>
     (\<exists>news. patches hunks 0 0 (split_incl newline original) news
        \<and> (\<forall>l\<in>set (butlast news). terminated newline l) \<and> result = concat news)"
proof -
  let ?olds = "split_incl newline original"
  have "apply_parsed original hunks = Inr result \<longleftrightarrow>
      (\<exists>full. (\<exists>cursor' out'. foldR (apply_hunk ?olds) hunks (0, []) = Inr (cursor', out')
        \<and> cursor' \<le> length ?olds \<and> full = out' @ drop cursor' ?olds)
        \<and> (\<forall>l\<in>set (butlast full). terminated newline l) \<and> result = concat full)"
    by (cases "foldR (apply_hunk ?olds) hunks (0, [])")
      (auto simp: apply_parsed_def Let_def slice_get_def result_simps tl_rev list_ex_iff
        ends_with_newline split: if_splits)
  also have "\<dots> \<longleftrightarrow> (\<exists>full. (\<exists>news. patches hunks 0 0 ?olds news \<and> full = news)
        \<and> (\<forall>l\<in>set (butlast full). terminated newline l) \<and> result = concat full)"
    using foldR_apply_hunks [of 0 ?olds hunks "[]"] by simp
  finally show ?thesis by blast
qed

text \<open>
  C10: Strict application, exactly: a patch applies to a file with some result if and only if
  it parses to hunks that rewrite the file's lines (the stated old offsets and lines are
  those of the file, the stated new offsets those of the result, every line outside the
  hunks is unchanged), no line but the last lacks its newline, and the result is those lines.
\<close>

theorem patch_apply_iff:
  "patch_apply original patch = Inr result \<longleftrightarrow>
     (\<exists>hunks news. patch_try_from patch = Inr hunks
        \<and> patches hunks 0 0 (split_incl newline original) news
        \<and> list_all (terminated newline) (butlast news) \<and> result = concat news)"
  by (auto simp: patch_apply_def result_simps apply_parsed_iff list_all_iff)

section \<open>What the parser guarantees\<close>

definition line_ok :: "body_line \<Rightarrow> bool" where
  "line_ok l \<longleftrightarrow> is_line newline (bl_bytes l)"

definition hunk_ok :: "hunk \<Rightarrow> bool" where
  "hunk_ok h \<longleftrightarrow>
     list_all line_ok (hk_lines h)
     \<and> length (old_side (hk_lines h)) = hr_count (hk_old h)
     \<and> length (new_side (hk_lines h)) = hr_count (hk_new h)"

lemma count_sides_eq:
  "count_sides ls old new = (old + length (old_side ls), new + length (new_side ls))"
  by (induction ls arbitrary: old new) (auto split: line_kind.split)

lemma line_kind_of_content: "line_kind_of l = Some (kind, content) \<Longrightarrow> \<exists>c. l = c # content"
  by (cases l) (auto split: if_splits)

lemma is_line_strip:
  assumes "is_line newline (c # content)" "strip_suffix [newline] content = Some bytes" "bytes \<noteq> []"
  shows "is_line newline bytes"
  using assms by (auto simp: strip_suffix_Some_iff is_line_def butlast_append dest: in_set_butlastD)

lemma take_marker_ok:
  assumes "take_marker content lines = Inr (bytes, rest)" "is_line newline (c # content)" "bytes \<noteq> []"
  shows "is_line newline bytes \<and> set rest \<subseteq> set lines"
proof (cases "\<exists>l ls. lines = l # ls \<and> is_marker l")
  case True
  then show ?thesis using assms is_line_strip [OF assms(2)] by (auto simp: result_simps)
next
  case False
  then have "bytes = content \<and> rest = lines" using assms(1) by (cases lines) auto
  then show ?thesis using assms(2,3) by (auto simp: is_line_Cons)
qed

lemma parse_body_ok:
  "parse_body lines acc = Inr (ls, rest) \<Longrightarrow> list_all (is_line newline) lines \<Longrightarrow> list_all line_ok acc \<Longrightarrow>
     list_all line_ok ls \<and> set rest \<subseteq> set lines"
proof (induction lines acc rule: parse_body.induct)
  case (2 body lines acc)
  show ?case
  proof (cases "starts_with ''@@ '' body")
    case True
    then show ?thesis using 2 by auto
  next
    case False
    then obtain kind content bytes rest' where k: "line_kind_of body = Some (kind, content)"
      and t: "take_marker content lines = Inr (bytes, rest')" "bytes \<noteq> []" "ends_with [newline] content"
      and p: "parse_body rest' (acc @ [\<lparr>bl_kind = kind, bl_bytes = bytes\<rparr>]) = Inr (ls, rest)"
      using 2(2) by (auto split: if_splits option.splits sum.splits)
    obtain c where "body = c # content" using line_kind_of_content [OF k] by blast
    then have m: "is_line newline bytes" "set rest' \<subseteq> set lines"
      using take_marker_ok [OF t(1) _ t(2)] 2(3) by auto
    have "list_all line_ok ls \<and> set rest \<subseteq> set rest'"
    proof (rule 2(1) [OF False k])
      show "\<not> \<not> ends_with [newline] content" using t(3) by simp
    qed (use t m p 2 in \<open>auto simp: line_ok_def list_all_iff\<close>)
    then show ?thesis using m(2) by auto
  qed
qed simp

lemma parse_hunks_ok:
  "parse_hunks lines = Inr hs \<Longrightarrow> list_all (is_line newline) lines \<Longrightarrow> list_all hunk_ok hs"
proof (induction lines arbitrary: hs rule: parse_hunks.induct)
  case (2 line lines)
  let ?header = "case strip_suffix [newline] line of Some h \<Rightarrow> h | None \<Rightarrow> line"
  obtain h ls rest hs' where st: "hunk_header ?header = Inr h" "parse_body lines [] = Inr (ls, rest)"
    "validate_counts (h\<lparr>hk_lines := ls\<rparr>) = Inr ()" "parse_hunks rest = Inr hs'" "hs = h\<lparr>hk_lines := ls\<rparr> # hs'"
    using 2(2) by (auto simp: Let_def result_simps split: sum.splits)
  have "list_all line_ok ls" "set rest \<subseteq> set lines"
    using parse_body_ok [OF st(2)] 2(3) by auto
  moreover have "list_all hunk_ok hs'"
    by (rule 2(1) [OF refl st(1,2) refl st(3,4)])
      (use 2(3) \<open>set rest \<subseteq> set lines\<close> in \<open>auto simp: list_all_iff\<close>)
  moreover have "length (old_side ls) = hr_count (hk_old h) \<and> length (new_side ls) = hr_count (hk_new h)"
    using st(3) by (simp add: validate_counts_def count_sides_eq split: if_splits)
  ultimately have "hunk_ok (h\<lparr>hk_lines := ls\<rparr>)" by (simp add: hunk_ok_def)
  then show ?case using \<open>list_all hunk_ok hs'\<close> by (simp add: st(5))
qed simp

lemma skip_file_header_subset: "skip_file_header lines = Inr rest \<Longrightarrow> set rest \<subseteq> set lines"
  by (auto simp: skip_file_header_def split: list.splits if_splits)

lemma patch_try_from_ok:
  assumes "patch_try_from patch = Inr hs"
  shows "hs \<noteq> [] \<and> list_all hunk_ok hs"
proof -
  obtain lines where l: "skip_file_header (split_incl newline patch) = Inr lines" "parse_hunks lines = Inr hs"
    and ne: "hs \<noteq> []"
    using assms by (auto simp: patch_try_from_def result_simps split: if_splits)
  have "list_all (is_line newline) (split_incl newline patch)"
    using is_lines_split_incl [of newline patch] by (simp add: is_lines_def list_all_iff)
  then have "list_all (is_line newline) lines"
    using skip_file_header_subset [OF l(1)] by (auto simp: list_all_iff)
  then show ?thesis using parse_hunks_ok [OF l(2)] ne by simp
qed

section \<open>Reversing a patch\<close>

definition reverse_line :: "body_line \<Rightarrow> body_line" where
  "reverse_line l = l\<lparr>bl_kind :=
     (case bl_kind l of Line_Context \<Rightarrow> Line_Context | Line_Remove \<Rightarrow> Line_Add | Line_Add \<Rightarrow> Line_Remove)\<rparr>"

definition reverse_hunk :: "hunk \<Rightarrow> hunk" where
  "reverse_hunk h = h\<lparr>hk_old := hk_new h, hk_new := hk_old h, hk_lines := map reverse_line (hk_lines h)\<rparr>"

lemma sides_reverse:
  "old_side (map reverse_line ls) = new_side ls" "new_side (map reverse_line ls) = old_side ls"
  by (induction ls) (auto simp: reverse_line_def split: line_kind.split)

lemma reverse_hunk_sel [simp]:
  "hk_old (reverse_hunk h) = hk_new h" "hk_new (reverse_hunk h) = hk_old h"
  "old_side (hk_lines (reverse_hunk h)) = new_side (hk_lines h)"
  "new_side (hk_lines (reverse_hunk h)) = old_side (hk_lines h)"
  by (simp_all add: reverse_hunk_def sides_reverse)

lemma patches_reverse: "patches hs p q olds news \<Longrightarrow> patches (map reverse_hunk hs) q p news olds"
proof (induction rule: patches.induct)
  case (patches_hunk p u h q hs olds news)
  then show ?case
    using patches.patches_hunk [of q u "reverse_hunk h" p "map reverse_hunk hs" news olds] by simp
qed (simp add: patches.patches_end)

lemma patches_lines:
  assumes "patches hs p q olds news" "list_all hunk_ok hs" "list_all (is_line newline) olds"
  shows "list_all (is_line newline) news"
  using assms
proof (induction rule: patches.induct)
  case (patches_hunk p u h q hs olds news)
  have "list_all (is_line newline) (new_side (hk_lines h))"
    using patches_hunk.prems by (auto simp: hunk_ok_def line_ok_def new_side_def list_all_iff)
  then show ?case using patches_hunk by simp
qed simp

lemma patches_result_lines:
  assumes "patch_try_from patch = Inr hs" "patches hs 0 0 (split_incl newline original) news"
    and "list_all (terminated newline) (butlast news)"
  shows "split_incl newline (concat news) = news"
proof (rule split_incl_concat)
  have "list_all (is_line newline) (split_incl newline original)"
    using is_lines_split_incl [of newline original] by (simp add: is_lines_def list_all_iff)
  then have "list_all (is_line newline) news"
    using patches_lines [OF assms(2)] patch_try_from_ok [OF assms(1)] by blast
  then show "is_lines newline news" using assms(3) by (simp add: is_lines_def list_all_iff)
qed

text \<open>
  Applying a patch loses nothing: when a parsed patch applies to a file, the reversed
  hunks (removed and added lines exchanged, old and new ranges exchanged) apply to the result
  and give back the original file, byte for byte.
\<close>

lemma patch_apply_reverse:
  assumes "patch_try_from patch = Inr hunks" "apply_parsed original hunks = Inr result"
  shows "apply_parsed result (map reverse_hunk hunks) = Inr original"
proof -
  obtain news where p: "patches hunks 0 0 (split_incl newline original) news"
    and t: "list_all (terminated newline) (butlast news)" and r: "result = concat news"
    using assms(2) by (auto simp: apply_parsed_iff list_all_iff)
  have "split_incl newline result = news" unfolding r by (rule patches_result_lines [OF assms(1) p t])
  then have "patches (map reverse_hunk hunks) 0 0 (split_incl newline result) (split_incl newline original)"
    using patches_reverse [OF p] by simp
  moreover have "\<forall>l\<in>set (butlast (split_incl newline original)). terminated newline l"
    using is_lines_split_incl [of newline original] by (simp add: is_lines_def)
  ultimately show ?thesis unfolding apply_parsed_iff by (metis concat_split_incl)
qed

definition sample_patch :: string where
  "sample_patch = ''@@ -1,2 +1,2 @@'' @ [newline] @ ''-a'' @ [newline] @ ''+c'' @ [newline] @ '' b'' @ [newline]"

definition sample_hunks :: "hunk list" where
  "sample_hunks =
     [\<lparr>hk_header = ''@@ -1,2 +1,2 @@'', hk_old = \<lparr>hr_offset = 0, hr_count = 2\<rparr>,
       hk_new = \<lparr>hr_offset = 0, hr_count = 2\<rparr>,
       hk_lines = [\<lparr>bl_kind = Line_Remove, bl_bytes = ''a'' @ [newline]\<rparr>,
                   \<lparr>bl_kind = Line_Add, bl_bytes = ''c'' @ [newline]\<rparr>,
                   \<lparr>bl_kind = Line_Context, bl_bytes = ''b'' @ [newline]\<rparr>]\<rparr>]"

lemma sample_patch_parses: "patch_try_from sample_patch = Inr sample_hunks"
  by (simp add: sample_patch_def sample_hunks_def patch_try_from_def skip_file_header_def
      hunk_header_def hunk_header_parse_def hunk_range_parse_def range_of_numbers_def patch_number_def
      ascii_digit_def usize_bound_def starts_with_def ends_with_def strip_suffix_def is_marker_def
      trim_end_newlines_def validate_counts_def Let_def)

lemma sample_patch_applies:
  "apply_parsed (''a'' @ [newline] @ ''b'' @ [newline]) sample_hunks
     = Inr (''c'' @ [newline] @ ''b'' @ [newline])"
  by (simp add: sample_hunks_def apply_parsed_def apply_hunk_def slice_get_def slice_at_def
      ends_with_def strip_suffix_def Let_def)

section \<open>The preview shows the lines it names\<close>

definition shows_line :: "string list \<Rightarrow> line_no \<Rightarrow> suggestion_line \<Rightarrow> bool" where
  "shows_line lines n l \<longleftrightarrow>
     slice_at lines (unat (line_get n) - 1) = Some (sl_text l @ ending_as_str (sl_ending l))"

definition line_exact :: "string list \<Rightarrow> string list \<Rightarrow> suggestion_line \<Rightarrow> bool" where
  "line_exact olds news l \<longleftrightarrow>
     (case sl_kind l of
        SLine_Context o1 n1 \<Rightarrow> shows_line olds o1 l \<and> shows_line news n1 l
      | SLine_Remove o1 \<Rightarrow> shows_line olds o1 l
      | SLine_Add n1 \<Rightarrow> shows_line news n1 l)"

lemma split_ending_rejoin: "split_ending bytes = (text, ending) \<Longrightarrow> text @ ending_as_str ending = bytes"
  by (auto simp: split_ending_def strip_suffix_Some_iff split: option.splits)

lemma suggestion_line_of_rejoin:
  "sl_kind (suggestion_line_of kind bytes) = kind"
  "sl_text (suggestion_line_of kind bytes) @ ending_as_str (sl_ending (suggestion_line_of kind bytes)) = bytes"
  by (auto simp: suggestion_line_of_def split_ending_rejoin split: prod.split)

lemma preview_line_no_index:
  assumes "preview_line_no header offset = Inr n"
  shows "unat (line_get n) - 1 = offset"
proof -
  have b: "offset + 1 < 2 ^ 32" and n: "line_get n = of_nat (offset + 1)"
    using assms by (auto simp: preview_line_no_def result_simps split: if_splits)
  have "unat (of_nat (offset + 1) :: u32) = offset + 1"
    using b by (simp add: unat_of_nat take_bit_nat_eq_self del: of_nat_add of_nat_Suc)
  then show ?thesis by (simp add: n del: of_nat_add of_nat_Suc)
qed

lemma preview_lines_exact:
  "preview_lines header ls old new = Inr shown \<Longrightarrow>
     take (length (old_side ls)) (drop old olds) = old_side ls \<Longrightarrow>
     take (length (new_side ls)) (drop new news) = new_side ls \<Longrightarrow>
     list_all (line_exact olds news) shown"
proof (induction ls arbitrary: old new shown)
  case (Cons l ls)
  have old_hd: "slice_at olds old = Some (bl_bytes l) \<and> take (length (old_side ls)) (drop (Suc old) olds) = old_side ls"
    if "bl_kind l \<noteq> Line_Add"
    using Cons.prems(2) that by (simp add: slice_at_Some_take)
  have new_hd: "slice_at news new = Some (bl_bytes l) \<and> take (length (new_side ls)) (drop (Suc new) news) = new_side ls"
    if "bl_kind l \<noteq> Line_Remove"
    using Cons.prems(3) that by (simp add: slice_at_Some_take)
  show ?case
  proof (cases "bl_kind l")
    case Line_Context
    then obtain o1 n1 rest where r: "preview_line_no header old = Inr o1" "preview_line_no header new = Inr n1"
      "preview_lines header ls (Suc old) (Suc new) = Inr rest"
      "shown = suggestion_line_of (SLine_Context o1 n1) (bl_bytes l) # rest"
      using Cons.prems(1) by (auto simp: result_simps)
    then show ?thesis
      using Line_Context old_hd new_hd Cons.IH [OF r(3)] preview_line_no_index [OF r(1)] preview_line_no_index [OF r(2)]
      by (simp add: line_exact_def shows_line_def suggestion_line_of_rejoin)
  next
    case Line_Remove
    then obtain o1 rest where r: "preview_line_no header old = Inr o1"
      "preview_lines header ls (Suc old) new = Inr rest"
      "shown = suggestion_line_of (SLine_Remove o1) (bl_bytes l) # rest"
      using Cons.prems(1) by (auto simp: result_simps)
    then show ?thesis
      using Line_Remove old_hd Cons.IH [OF r(2)] Cons.prems(3) preview_line_no_index [OF r(1)]
      by (simp add: line_exact_def shows_line_def suggestion_line_of_rejoin)
  next
    case Line_Add
    then obtain n1 rest where r: "preview_line_no header new = Inr n1"
      "preview_lines header ls old (Suc new) = Inr rest"
      "shown = suggestion_line_of (SLine_Add n1) (bl_bytes l) # rest"
      using Cons.prems(1) by (auto simp: result_simps)
    then show ?thesis
      using Line_Add new_hd Cons.IH [OF r(2)] Cons.prems(2) preview_line_no_index [OF r(1)]
      by (simp add: line_exact_def shows_line_def suggestion_line_of_rejoin)
  qed
qed simp

text \<open>Each hunk's sides stand at its offsets in the two files.\<close>

definition hunk_placed :: "string list \<Rightarrow> string list \<Rightarrow> hunk \<Rightarrow> bool" where
  "hunk_placed olds news h \<longleftrightarrow>
     take (length (old_side (hk_lines h))) (drop (hr_offset (hk_old h)) olds) = old_side (hk_lines h)
     \<and> take (length (new_side (hk_lines h))) (drop (hr_offset (hk_new h)) news) = new_side (hk_lines h)"

lemma patches_placed:
  "patches hs p q olds news \<Longrightarrow> length pre_o = p \<Longrightarrow> length pre_n = q \<Longrightarrow>
     list_all (hunk_placed (pre_o @ olds) (pre_n @ news)) hs"
proof (induction arbitrary: pre_o pre_n rule: patches.induct)
  case (patches_hunk p u h q hs olds news)
  let ?O = "old_side (hk_lines h)" and ?N = "new_side (hk_lines h)"
  have "list_all (hunk_placed ((pre_o @ u @ ?O) @ olds) ((pre_n @ u @ ?N) @ news)) hs"
    by (rule patches_hunk.IH) (use patches_hunk in simp_all)
  moreover have "hunk_placed (pre_o @ u @ ?O @ olds) (pre_n @ u @ ?N @ news) h"
    using patches_hunk by (simp add: hunk_placed_def flip: patches_hunk.hyps(1,2))
  ultimately show ?case by simp
qed simp

text \<open>
  C35: A preview agrees with the application and is exact: its result is what applying the
  patch gives, and every line it shows, with its text and ending, is the line of the original
  at the old number it carries and the line of the result at the new number.
\<close>

theorem preview_exact:
  assumes "patch_preview_of original source = Inr shown"
  shows "patch_apply original source = Inr (pp_result shown)
    \<and> list_all (\<lambda>h. list_all
          (line_exact (split_incl newline original) (split_incl newline (pp_result shown))) (sh_lines h))
        (pp_hunks shown)"
proof -
  obtain hunks where parsed: "patch_try_from source = Inr hunks"
    and applied: "apply_parsed original hunks = Inr (pp_result shown)"
    and shown: "collectR preview_hunk hunks = Inr (pp_hunks shown)"
    using assms by (auto simp: patch_preview_of_def result_simps)
  let ?olds = "split_incl newline original" and ?news = "split_incl newline (pp_result shown)"
  obtain news where p: "patches hunks 0 0 ?olds news"
    and t: "list_all (terminated newline) (butlast news)" and r: "pp_result shown = concat news"
    using applied by (auto simp: apply_parsed_iff list_all_iff)
  have "?news = news" unfolding r by (rule patches_result_lines [OF parsed p t])
  then have placed: "list_all (hunk_placed ?olds ?news) hunks"
    using patches_placed [OF p, of "[]" "[]"] by simp
  have one: "list_all (line_exact ?olds ?news) (sh_lines sh)"
    if "preview_hunk h = Inr sh" "hunk_placed ?olds ?news h" for h sh
    using that preview_lines_exact by (auto simp: preview_hunk_def hunk_placed_def result_simps)
  have "list_all2 (\<lambda>h sh. preview_hunk h = Inr sh) hunks (pp_hunks shown)"
    using shown by (simp add: collectR_Inr_iff)
  then have "list_all (\<lambda>h. list_all (line_exact ?olds ?news) (sh_lines h)) (pp_hunks shown)"
    using placed one by (induction rule: list_all2_induct) auto
  then show ?thesis using parsed applied by (simp add: patch_apply_def)
qed

lemma sample_patch_previews: "\<exists>shown. patch_preview_of (''a'' @ [newline] @ ''b'' @ [newline]) sample_patch = Inr shown"
proof -
  have "\<exists>shown. collectR preview_hunk sample_hunks = Inr shown"
    by (simp add: sample_hunks_def preview_hunk_def preview_line_no_def line_new_def)
  then show ?thesis
    using sample_patch_parses sample_patch_applies by (auto simp: patch_preview_of_def)
qed

theorem preview_exact_witness:
  "\<exists>shown. patch_preview_of (''a'' @ [newline] @ ''b'' @ [newline]) sample_patch = Inr shown
     \<and> patch_apply (''a'' @ [newline] @ ''b'' @ [newline]) sample_patch = Inr (pp_result shown)"
  using sample_patch_previews preview_exact by blast

end
