(* ===== verification/Nits_Suggestion_Laws.thy ===== *)
theory Nits_Suggestion_Laws
  imports Nits_Thread_Laws Nits_Patch_Laws
begin

text \<open>
  Suggestions: an application is recorded with what was written, happens at most once, only
  over the bytes the suggestion was made for, and is what the preview announced.
\<close>

section \<open>Applying a suggestion\<close>

lemma core_suggestion_Inr:
  "core_suggestion review cid c = (Inr sg, c') \<longleftrightarrow>
     c' = c \<and> (\<exists>rec cm. core_review review c = (Inr rec, c) \<and> core_comment review cid c = (Inr cm, c)
       \<and> store_suggestion (co_store c) review cid = Some sg)"
  by (auto simp: core_suggestion_def result_simps core_review_Inr core_comment_Inr)

text \<open>What an application has checked and computed before it writes.\<close>

definition suggestion_ready :: "git_repo \<Rightarrow> suggestion_record \<Rightarrow> repo_path \<Rightarrow> blob_oid \<Rightarrow> string \<Rightarrow> string \<Rightarrow> bool" where
  "suggestion_ready repo sg path blob current patched \<longleftrightarrow>
     gr_read_file repo path = Inr current \<and> gr_blob repo blob = Inr current
     \<and> patch_apply current (sg_patch sg) = Inr patched"

lemma apply_suggestion_Inr:
  assumes "apply_suggestion E ctx review cid c = (Inr result, c')"
  obtains sg repo_id path blob repo c1 current patched worktree e where
    "core_suggestion review cid c = (Inr sg, c)" "sg_outcome sg = Outcome_Unapplied"
    "suggestion_place (sg_anchor sg) = Some (repo_id, path, blob)"
    "review_repo E review repo_id c = (Inr repo, c1)"
    "suggestion_ready repo sg path blob current patched"
    "gr_hash_blob repo patched = Inr result" "gr_worktree_metadata repo = Inr worktree"
    "gr_replace_file repo path worktree current patched = Inr ()"
    "core_append ctx (SuggestionApplied review cid repo_id path result) c1 = (Inr e, c')"
proof -
  from assms obtain sg where sg: "core_suggestion review cid c = (Inr sg, c)"
    by (auto simp: apply_suggestion_def result_simps core_suggestion_Inr)
  have un: "sg_outcome sg = Outcome_Unapplied"
    using assms sg by (cases "sg_outcome sg") (simp_all add: apply_suggestion_def)
  from assms sg un show ?thesis
    by (auto simp: apply_suggestion_def result_simps suggestion_ready_def split: if_splits intro!: that)
qed

lemma append_applied_ok:
  assumes "store_suggestion (co_store c) review cid = Some sg"
  shows "\<exists>e c'. core_append ctx (SuggestionApplied review cid repo_id path result) c = (Inr e, c')"
  using assms
  by (simp add: core_append_def append_event_def apply_event_def event_at_def Let_def store_suggestion_def)

lemma apply_suggestion_ok:
  assumes "core_suggestion review cid c = (Inr sg, c)" "sg_outcome sg = Outcome_Unapplied"
    and "suggestion_place (sg_anchor sg) = Some (repo_id, path, blob)"
    and "review_repo E review repo_id c = (Inr repo, c1)"
    and "suggestion_ready repo sg path blob current patched"
    and "gr_hash_blob repo patched = Inr result" "gr_worktree_metadata repo = Inr worktree"
    and "gr_replace_file repo path worktree current patched = Inr ()"
  shows "\<exists>c'. apply_suggestion E ctx review cid c = (Inr result, c')"
proof -
  have "store_suggestion (co_store c1) review cid = Some sg"
    using assms(1) readonlyD [OF readonly_review_repo assms(4)] by (simp add: core_suggestion_Inr)
  then obtain e c2 where "core_append ctx (SuggestionApplied review cid repo_id path result) c1 = (Inr e, c2)"
    using append_applied_ok by blast
  then show ?thesis using assms by (simp add: apply_suggestion_def bindO_def suggestion_ready_def)
qed

lemma applied_row:
  assumes "core_append ctx (SuggestionApplied review cid repo_id path result) c = (Inr e, c')"
    and "store_suggestion (co_store c) review cid = Some sg"
  shows "store_suggestion (co_store c') review cid = Some (sg\<lparr>sg_outcome := Outcome_Applied
      \<lparr>sr_seq = next_seq (co_store c), sr_at = cx_now ctx, sr_author = cx_author ctx, sr_repo_id = repo_id,
       sr_path = path, sr_result_blob = result\<rparr>\<rparr>)"
    "v_reviews (st_views (co_store c')) = v_reviews (st_views (co_store c))"
    "v_comments (st_views (co_store c')) = v_comments (st_views (co_store c))"
proof -
  obtain t where t: "apply_body e (SuggestionApplied review cid repo_id path result) (st_views (co_store c)) = Inr t"
    "st_views (co_store c') = t" "ev_seq e = next_seq (co_store c)" "ev_ts e = cx_now ctx" "ev_author e = cx_author ctx"
    using core_append_row [OF assms(1)] by blast
  then show "store_suggestion (co_store c') review cid = Some (sg\<lparr>sg_outcome := Outcome_Applied
      \<lparr>sr_seq = next_seq (co_store c), sr_at = cx_now ctx, sr_author = cx_author ctx, sr_repo_id = repo_id,
       sr_path = path, sr_result_blob = result\<rparr>\<rparr>)"
    "v_reviews (st_views (co_store c')) = v_reviews (st_views (co_store c))"
    "v_comments (st_views (co_store c')) = v_comments (st_views (co_store c))"
    unfolding t(2) store_suggestion_def using t(1,3-) assms(2)
    by (auto simp: suggestion_applied_def store_suggestion_def)
qed

text \<open>
  C9: A suggestion that is applied was not applied before; the file and the blob it was made for
  held the same bytes, the patch applies to them, and the patched bytes are what is hashed and
  written over exactly those bytes. Its record then carries the receipt with the event's number,
  the place and the resulting blob, and applying it again is refused, naming that event, with
  nothing changed.
\<close>

theorem suggestion_applied_once:
  assumes "apply_suggestion E ctx review cid c = (Inr result, c')"
  shows "\<exists>sg repo_id path blob repo current patched worktree.
      store_suggestion (co_store c) review cid = Some sg \<and> sg_outcome sg = Outcome_Unapplied
    \<and> suggestion_place (sg_anchor sg) = Some (repo_id, path, blob)
    \<and> fst (review_repo E review repo_id c) = Inr repo
    \<and> gr_read_file repo path = Inr current \<and> gr_blob repo blob = Inr current
    \<and> patch_apply current (sg_patch sg) = Inr patched \<and> gr_hash_blob repo patched = Inr result
    \<and> gr_replace_file repo path worktree current patched = Inr ()
    \<and> store_suggestion (co_store c') review cid = Some (sg\<lparr>sg_outcome := Outcome_Applied
        \<lparr>sr_seq = next_seq (co_store c), sr_at = cx_now ctx, sr_author = cx_author ctx, sr_repo_id = repo_id,
         sr_path = path, sr_result_blob = result\<rparr>\<rparr>)
    \<and> apply_suggestion E' ctx' review cid c' =
        (Inl (Invalid (SuggestionAlreadyApplied cid (next_seq (co_store c)))), c')"
proof -
  obtain sg repo_id path blob repo c1 current patched worktree e where run:
    "core_suggestion review cid c = (Inr sg, c)" "sg_outcome sg = Outcome_Unapplied"
    "suggestion_place (sg_anchor sg) = Some (repo_id, path, blob)"
    "review_repo E review repo_id c = (Inr repo, c1)"
    "suggestion_ready repo sg path blob current patched"
    "gr_hash_blob repo patched = Inr result"
    "gr_replace_file repo path worktree current patched = Inr ()"
    "core_append ctx (SuggestionApplied review cid repo_id path result) c1 = (Inr e, c')"
    using apply_suggestion_Inr [OF assms] by metis
  have st: "co_store c1 = co_store c" by (rule readonlyD [OF readonly_review_repo run(4)])
  have row: "store_suggestion (co_store c) review cid = Some sg" using run(1) by (simp add: core_suggestion_Inr)
  note after = applied_row [OF run(8), unfolded st, OF row]
  have "core_suggestion review cid c' = (Inr (sg\<lparr>sg_outcome := Outcome_Applied
        \<lparr>sr_seq = next_seq (co_store c), sr_at = cx_now ctx, sr_author = cx_author ctx, sr_repo_id = repo_id,
         sr_path = path, sr_result_blob = result\<rparr>\<rparr>), c')"
    using run(1) after unfolding core_suggestion_Inr core_review_Inr core_comment_Inr store_review_def store_comment_def
    by auto
  then have "apply_suggestion E' ctx' review cid c' =
      (Inl (Invalid (SuggestionAlreadyApplied cid (next_seq (co_store c)))), c')"
    by (simp add: apply_suggestion_def)
  then show ?thesis
    using row run(2-7) after(1) unfolding suggestion_ready_def by fastforce
qed

text \<open>A checkout whose file holds two lines, and a suggestion on it.\<close>

definition patch_git :: git_repo where
  "patch_git = sample_git\<lparr>gr_blob := (\<lambda>_. Inr (''a'' @ [newline] @ ''b'' @ [newline])),
     gr_read_file := (\<lambda>_. Inr (''a'' @ [newline] @ ''b'' @ [newline]))\<rparr>"

definition patch_env :: env where
  "patch_env = sample_env\<lparr>en_open := (\<lambda>path. Inr \<lparr>or_checkout = path, or_git = patch_git\<rparr>)\<rparr>"

definition suggested :: core where
  "suggested = (commented (Kind_Suggestion sample_patch))\<lparr>co_opened := Map.empty\<rparr>"

lemma patched: "patch_apply (''a'' @ [newline] @ ''b'' @ [newline]) sample_patch = Inr (''c'' @ [newline] @ ''b'' @ [newline])"
  using sample_patch_parses sample_patch_applies by (simp add: patch_apply_def)

lemma suggested_lookup:
  obtains sg where "core_suggestion (ReviewId (Ulid 2 2)) (CommentId (Ulid 4 4)) suggested = (Inr sg, suggested)"
    "sg_outcome sg = Outcome_Unapplied" "sg_patch sg = sample_patch"
    "sg_anchor sg = Anchor_File (RepoId (Ulid 3 3)) (RepoPath ''f'') (BlobOid (Oid [7]))"
proof -
  have "map_sum (\<lambda>_. ()) (\<lambda>sg. (sg_outcome sg, sg_patch sg = sample_patch, sg_anchor sg))
      (fst (core_suggestion (ReviewId (Ulid 2 2)) (CommentId (Ulid 4 4)) suggested))
    = Inr (Outcome_Unapplied, True, Anchor_File (RepoId (Ulid 3 3)) (RepoPath ''f'') (BlobOid (Oid [7])))" by code_simp
  then obtain sg where sg: "fst (core_suggestion (ReviewId (Ulid 2 2)) (CommentId (Ulid 4 4)) suggested) = Inr sg"
    "sg_outcome sg = Outcome_Unapplied" "sg_patch sg = sample_patch"
    "sg_anchor sg = Anchor_File (RepoId (Ulid 3 3)) (RepoPath ''f'') (BlobOid (Oid [7]))"
    by (cases "fst (core_suggestion (ReviewId (Ulid 2 2)) (CommentId (Ulid 4 4)) suggested)") auto
  obtain c' where "core_suggestion (ReviewId (Ulid 2 2)) (CommentId (Ulid 4 4)) suggested = (Inr sg, c')"
    using sg(1) by (metis prod.collapse)
  with sg show ?thesis using that by (auto simp: core_suggestion_Inr)
qed

lemma suggested_repo:
  obtains repo c1 where "review_repo patch_env (ReviewId (Ulid 2 2)) (RepoId (Ulid 3 3)) suggested = (Inr repo, c1)"
    "gr_read_file repo (RepoPath ''f'') = Inr (''a'' @ [newline] @ ''b'' @ [newline])"
    "gr_blob repo (BlobOid (Oid [7])) = Inr (''a'' @ [newline] @ ''b'' @ [newline])"
    "gr_hash_blob repo (''c'' @ [newline] @ ''b'' @ [newline]) = Inr (BlobOid (Oid [8]))"
    "gr_worktree_metadata repo = Inr ''/w/.git''"
    "gr_replace_file repo (RepoPath ''f'') ''/w/.git'' (''a'' @ [newline] @ ''b'' @ [newline])
       (''c'' @ [newline] @ ''b'' @ [newline]) = Inr ()"
proof -
  let ?run = "review_repo patch_env (ReviewId (Ulid 2 2)) (RepoId (Ulid 3 3)) suggested"
  have "map_sum (\<lambda>_. ()) (\<lambda>repo.
      gr_read_file repo (RepoPath ''f'') = Inr (''a'' @ [newline] @ ''b'' @ [newline])
      \<and> gr_blob repo (BlobOid (Oid [7])) = Inr (''a'' @ [newline] @ ''b'' @ [newline])
      \<and> gr_hash_blob repo (''c'' @ [newline] @ ''b'' @ [newline]) = Inr (BlobOid (Oid [8]))
      \<and> gr_worktree_metadata repo = Inr ''/w/.git''
      \<and> gr_replace_file repo (RepoPath ''f'') ''/w/.git'' (''a'' @ [newline] @ ''b'' @ [newline])
          (''c'' @ [newline] @ ''b'' @ [newline]) = Inr ()) (fst ?run) = Inr True"
    by code_simp
  then show ?thesis using that by (cases "?run"; cases "fst ?run") auto
qed

theorem suggestion_applied_once_witness:
  "\<exists>result c'. apply_suggestion patch_env sample_ctx (ReviewId (Ulid 2 2)) (CommentId (Ulid 4 4)) suggested = (Inr result, c')
     \<and> apply_suggestion patch_env sample_ctx (ReviewId (Ulid 2 2)) (CommentId (Ulid 4 4)) c'
       = (Inl (Invalid (SuggestionAlreadyApplied (CommentId (Ulid 4 4)) (next_seq (co_store suggested)))), c')"
proof -
  obtain sg where sg: "core_suggestion (ReviewId (Ulid 2 2)) (CommentId (Ulid 4 4)) suggested = (Inr sg, suggested)"
    "sg_outcome sg = Outcome_Unapplied" "sg_patch sg = sample_patch"
    "sg_anchor sg = Anchor_File (RepoId (Ulid 3 3)) (RepoPath ''f'') (BlobOid (Oid [7]))"
    by (rule suggested_lookup)
  obtain repo c1 where repo: "review_repo patch_env (ReviewId (Ulid 2 2)) (RepoId (Ulid 3 3)) suggested = (Inr repo, c1)"
    "gr_read_file repo (RepoPath ''f'') = Inr (''a'' @ [newline] @ ''b'' @ [newline])"
    "gr_blob repo (BlobOid (Oid [7])) = Inr (''a'' @ [newline] @ ''b'' @ [newline])"
    "gr_hash_blob repo (''c'' @ [newline] @ ''b'' @ [newline]) = Inr (BlobOid (Oid [8]))"
    "gr_worktree_metadata repo = Inr ''/w/.git''"
    "gr_replace_file repo (RepoPath ''f'') ''/w/.git'' (''a'' @ [newline] @ ''b'' @ [newline])
       (''c'' @ [newline] @ ''b'' @ [newline]) = Inr ()"
    by (rule suggested_repo)
  have "suggestion_ready repo sg (RepoPath ''f'') (BlobOid (Oid [7])) (''a'' @ [newline] @ ''b'' @ [newline])
      (''c'' @ [newline] @ ''b'' @ [newline])"
    unfolding suggestion_ready_def using repo sg(3) patched by simp
  from apply_suggestion_ok [OF sg(1,2) _ repo(1) this repo(4,5,6)] sg(4)
  obtain c' where run: "apply_suggestion patch_env sample_ctx (ReviewId (Ulid 2 2)) (CommentId (Ulid 4 4)) suggested
      = (Inr (BlobOid (Oid [8])), c')"
    by (auto simp: suggestion_place_def)
  show ?thesis using run suggestion_applied_once [OF run] by blast
qed

section \<open>Previewing a suggestion\<close>

lemma inspect_checked:
  assumes "inspect_suggestion E review sg c = (Inr (Inspection_Checked hunks Worktree_Original), c')"
  obtains repo_id path blob repo c1 original preview where
    "suggestion_place (sg_anchor sg) = Some (repo_id, path, blob)"
    "review_repo E review repo_id c = (Inr repo, c1)"
    "gr_blob repo blob = Inr original" "gr_read_file repo path = Inr original"
    "patch_preview_of original (sg_patch sg) = Inr preview" "hunks = pp_hunks preview"
proof -
  from assms obtain repo_id path blob repo original preview where
    p: "suggestion_place (sg_anchor sg) = Some (repo_id, path, blob)"
    "review_repo E review repo_id c = (Inr repo, c')"
    "gr_blob repo blob = Inr original" "patch_preview_of original (sg_patch sg) = Inr preview"
    "hunks = pp_hunks preview"
    "worktree_of (map_err (\<lambda>e. Invalid (SuggestionRefused e)) (gr_read_file repo path)) original (pp_result preview)
       = Worktree_Original"
    by (auto simp: inspect_suggestion_def result_simps)
  moreover from p(6) have "gr_read_file repo path = Inr original"
    by (cases "gr_read_file repo path") (auto simp: worktree_of_def split: if_splits)
  ultimately show ?thesis using that by blast
qed

lemma preview_result_applies:
  "patch_preview_of original source = Inr preview \<Longrightarrow> patch_apply original source = Inr (pp_result preview)"
  by (auto simp: patch_preview_of_def patch_apply_def result_simps)

text \<open>
  Previewing writes nothing, whatever it finds, and fails only when the suggestion cannot be
  looked up. When it reports the patch checked against an original worktree and the suggestion
  unapplied, applying it succeeds as soon as the object store and the file accept the result,
  and the result is the hash of the previewed bytes.
\<close>

lemma preview_announces_apply:
  shows "co_store (snd (preview_suggestion E review cid c)) = co_store c
    \<and> is_ok (fst (preview_suggestion E review cid c)) = is_ok (fst (core_suggestion review cid c))
    \<and> (\<forall>sp c' hunks. preview_suggestion E review cid c = (Inr sp, c') \<longrightarrow>
        sp_inspection sp = Inspection_Checked hunks Worktree_Original \<longrightarrow>
        sg_outcome (sp_suggestion sp) = Outcome_Unapplied \<longrightarrow>
        (\<exists>repo_id path blob repo original preview.
           suggestion_place (sg_anchor (sp_suggestion sp)) = Some (repo_id, path, blob)
           \<and> fst (review_repo E review repo_id c) = Inr repo
           \<and> patch_preview_of original (sg_patch (sp_suggestion sp)) = Inr preview \<and> pp_hunks preview = hunks
           \<and> (\<forall>result worktree. gr_hash_blob repo (pp_result preview) = Inr result \<longrightarrow>
                gr_worktree_metadata repo = Inr worktree \<longrightarrow>
                gr_replace_file repo path worktree original (pp_result preview) = Inr () \<longrightarrow>
                fst (apply_suggestion E ctx review cid c) = Inr result)))"
proof (intro conjI allI impI)
  show "co_store (snd (preview_suggestion E review cid c)) = co_store c"
    using readonly_preview_suggestion by (simp add: readonly_def)
  show "is_ok (fst (preview_suggestion E review cid c)) = is_ok (fst (core_suggestion review cid c))"
    by (cases "core_suggestion review cid c"; cases "fst (core_suggestion review cid c)")
      (auto simp: preview_suggestion_def split: sum.split prod.split)
next
  fix sp c' hunks
  assume run: "preview_suggestion E review cid c = (Inr sp, c')"
    and chk: "sp_inspection sp = Inspection_Checked hunks Worktree_Original"
    and un: "sg_outcome (sp_suggestion sp) = Outcome_Unapplied"
  from run obtain sg where sg: "core_suggestion review cid c = (Inr sg, c)"
    by (auto simp: preview_suggestion_def result_simps core_suggestion_Inr)
  then have "sp_suggestion sp = sg" "inspect_suggestion E review sg c = (Inr (Inspection_Checked hunks Worktree_Original), c')"
    using run chk by (auto simp: preview_suggestion_def split: sum.splits prod.splits)
  from this(1) inspect_checked [OF this(2)] obtain repo_id path blob repo c1 original preview where p:
    "suggestion_place (sg_anchor sg) = Some (repo_id, path, blob)"
    "review_repo E review repo_id c = (Inr repo, c1)"
    "gr_blob repo blob = Inr original" "gr_read_file repo path = Inr original"
    "patch_preview_of original (sg_patch sg) = Inr preview" "hunks = pp_hunks preview" "sp_suggestion sp = sg" by metis
  have "fst (apply_suggestion E ctx review cid c) = Inr result"
    if "gr_hash_blob repo (pp_result preview) = Inr result" "gr_worktree_metadata repo = Inr worktree"
      "gr_replace_file repo path worktree original (pp_result preview) = Inr ()" for result worktree
  proof -
    have "sg_outcome sg = Outcome_Unapplied" "suggestion_ready repo sg path blob original (pp_result preview)"
      using un p(3,4,7) preview_result_applies [OF p(5)] by (simp_all add: suggestion_ready_def)
    from apply_suggestion_ok [OF sg this(1) p(1,2) this(2) that, of ctx] show ?thesis by auto
  qed
  then show "\<exists>repo_id path blob repo original preview.
           suggestion_place (sg_anchor (sp_suggestion sp)) = Some (repo_id, path, blob)
           \<and> fst (review_repo E review repo_id c) = Inr repo
           \<and> patch_preview_of original (sg_patch (sp_suggestion sp)) = Inr preview \<and> pp_hunks preview = hunks
           \<and> (\<forall>result worktree. gr_hash_blob repo (pp_result preview) = Inr result \<longrightarrow>
                gr_worktree_metadata repo = Inr worktree \<longrightarrow>
                gr_replace_file repo path worktree original (pp_result preview) = Inr () \<longrightarrow>
                fst (apply_suggestion E ctx review cid c) = Inr result)"
    using p by fastforce
qed

end
