(* ===== verification/Nits_Directory.thy ===== *)
theory Nits_Directory
  imports Nits_Review_Laws
begin

text \<open>
  Opening a directory, \<open>crates/nits-review-core/src/directory.rs\<close>: find the review of a checkout or
  create a workspace, a repository and a review for it. The file system's answers (the root of the
  checkout a path is in, the checkout a recorded path leads to, the last component of a path) and
  Git's choice of a default base are the fields of \<open>dir_env\<close>. Opening the same directory twice
  selects the same review: \<open>directory_review_found_again\<close>.
\<close>

section \<open>Requests\<close>

record ensure_options =
  ed_workspace_id :: workspace_id
  ed_repo_id :: repo_id
  ed_review_id :: review_id
  ed_path :: string
  ed_base :: "base_ref_spec option"
  ed_head :: "ref_spec option"

datatype directory_outcome = Outcome_Created | Outcome_Reused

record directory_review =
  dr_workspace_id :: workspace_id
  dr_repo_id :: repo_id
  dr_review_id :: review_id
  dr_base :: ref_spec
  dr_head :: ref_spec
  dr_outcome :: directory_outcome
  dr_seq :: seq

record dir_env =
  de_root :: "string \<Rightarrow> (invalid_reason, string) result"
  de_checkout :: "string \<Rightarrow> string option"
  de_default_base :: "string \<Rightarrow> (git_error, ref_spec) result"
  de_file_name :: "string \<Rightarrow> string option"

section \<open>Finding\<close>

definition attachments :: "dir_env \<Rightarrow> string \<Rightarrow> workspace list \<Rightarrow> (workspace_id \<times> repo_id) list" where
  "attachments D root wss =
     concat (map (\<lambda>ws. map (\<lambda>repo. (ws_id ws, rp_id repo))
       (filter (\<lambda>repo. de_checkout D (rp_path repo) = Some root) (ws_repos ws))) wss)"

definition directory_attachment :: "dir_env \<Rightarrow> string \<Rightarrow> (workspace_id \<times> repo_id) option op" where
  "directory_attachment D root =
     bindO core_workspaces (\<lambda>wss.
       case attachments D root wss of
         [] \<Rightarrow> retO None
       | (w, r) # rest \<Rightarrow>
           if rest \<noteq> [] \<and> list_all (\<lambda>m. fst m = w) ((w, r) # rest) then failO (Invalid (CheckoutAttachedTwice w))
           else if rest \<noteq> [] then failO (Invalid CheckoutInSeveralWorkspaces)
           else retO (Some (w, r)))"

definition target_matches :: "repo_id \<Rightarrow> ref_spec option \<Rightarrow> ref_spec \<Rightarrow> review_target \<Rightarrow> bool" where
  "target_matches repo base head t \<longleftrightarrow>
     rt_repo_id t = repo \<and> rt_head t = head \<and> is_none_or (\<lambda>b. b = rt_base t) base"

fun match_review :: "workspace_id \<Rightarrow> repo_id \<Rightarrow> ref_spec option \<Rightarrow> ref_spec \<Rightarrow> review list \<Rightarrow> directory_review option op" where
  "match_review w repo base head [] = retO None"
| "match_review w repo base head (rv # rvs) =
     (if rv_status rv \<noteq> Status_Open then match_review w repo base head rvs
      else case find (target_matches repo base head) (ne_items (rv_targets rv)) of
             None \<Rightarrow> match_review w repo base head rvs
           | Some t \<Rightarrow>
               bindO core_last_seq (\<lambda>q.
               bindO (liftO (ok_or (Invalid NoLogPosition) q)) (\<lambda>seq.
                 retO (Some \<lparr>dr_workspace_id = w, dr_repo_id = repo, dr_review_id = rv_id rv, dr_base = rt_base t,
                   dr_head = head, dr_outcome = Outcome_Reused, dr_seq = seq\<rparr>))))"

definition matching_directory_review :: "workspace_id \<Rightarrow> repo_id \<Rightarrow> ref_spec option \<Rightarrow> ref_spec
    \<Rightarrow> directory_review option op" where
  "matching_directory_review w repo base head = bindO (core_reviews w) (match_review w repo base head)"

section \<open>Ensuring\<close>

definition refuseO :: "(git_error, 'a) result \<Rightarrow> 'a op" where
  "refuseO r = liftO (map_err (\<lambda>e. Invalid (DirectoryRefused e)) r)"

definition reuse_directory_review :: "env \<Rightarrow> ctx \<Rightarrow> directory_review \<Rightarrow> directory_review op" where
  "reuse_directory_review E ctx review =
     bindO (resolve_targets E ctx (dr_review_id review)) (\<lambda>_.
     bindO core_last_seq (\<lambda>q.
     bindO (liftO (ok_or (Invalid NoLogPosition) q)) (\<lambda>seq. retO (review\<lparr>dr_seq := seq\<rparr>))))"

definition create_directory_review :: "dir_env \<Rightarrow> env \<Rightarrow> ctx \<Rightarrow> ensure_options \<Rightarrow> string \<Rightarrow> git_repo
    \<Rightarrow> (workspace_id \<times> repo_id) option \<Rightarrow> ref_spec option \<Rightarrow> ref_spec \<Rightarrow> directory_review op" where
  "create_directory_review D E ctx opts root git located requested_base head =
     bindO (case requested_base of Some b \<Rightarrow> retO b | None \<Rightarrow> gitO (de_default_base D root)) (\<lambda>base.
     bindO (refuseO (gr_resolve git base)) (\<lambda>_.
     bindO (readO (\<lambda>c. Inr (store_review (co_store c) (ed_review_id opts)))) (\<lambda>existing.
     bindO (guardO (existing = None) (Invalid (ReviewExists (ed_review_id opts)))) (\<lambda>_.
     bindO core_last_seq (\<lambda>before.
       let name = (case de_file_name D root of None \<Rightarrow> ''repo'' | Some n \<Rightarrow> n) in
       bindO (case located of
                Some ids \<Rightarrow> retO ids
              | None \<Rightarrow>
                  bindO (create_workspace_with_repo E ctx (ed_workspace_id opts) (ed_repo_id opts) root name)
                    (\<lambda>_. retO (ed_workspace_id opts, ed_repo_id opts))) (\<lambda>(w, repo).
       bindO (create_review E ctx (ed_review_id opts) w name [\<lparr>rt_repo_id = repo, rt_base = base, rt_head = head\<rparr>]) (\<lambda>_.
       bindO (core_events_after before) (\<lambda>events.
       bindO (liftO (ok_or (Invalid BootstrapCommittedNothing) (case events of [] \<Rightarrow> None | e # _ \<Rightarrow> Some (ev_seq e)))) (\<lambda>seq.
         retO \<lparr>dr_workspace_id = w, dr_repo_id = repo, dr_review_id = ed_review_id opts, dr_base = base, dr_head = head,
           dr_outcome = Outcome_Created, dr_seq = seq\<rparr>)))))))))"

definition ensure_directory_review :: "dir_env \<Rightarrow> env \<Rightarrow> ctx \<Rightarrow> ensure_options \<Rightarrow> directory_review op" where
  "ensure_directory_review D E ctx opts =
     bindO (liftO (map_err Invalid (de_root D (ed_path opts)))) (\<lambda>root.
     bindO (refuseO (en_open E root)) (\<lambda>opened.
     bindO (directory_attachment D root) (\<lambda>located.
       let git = or_git opened;
           head = (case ed_head opts of None \<Rightarrow> RefSpec_WorkingTree | Some h \<Rightarrow> h);
           requested_base = map_option ref_spec_from_base (ed_base opts) in
       bindO (refuseO (gr_resolve git head)) (\<lambda>_.
       bindO (case requested_base of None \<Rightarrow> retO () | Some b \<Rightarrow> bindO (refuseO (gr_resolve git b)) (\<lambda>_. retO ())) (\<lambda>_.
       bindO (case located of
                None \<Rightarrow> retO None
              | Some (w, repo) \<Rightarrow> matching_directory_review w repo requested_base head) (\<lambda>found.
         case found of
           Some review \<Rightarrow> reuse_directory_review E ctx review
         | None \<Rightarrow> create_directory_review D E ctx opts root git located requested_base head))))))"

section \<open>Every event it appends is validated\<close>

lemma readonly_refuseO [intro, simp]: "readonly (refuseO r)"
  by (simp add: refuseO_def)

lemma readonly_reads [intro, simp]:
  "readonly core_last_seq" "readonly core_workspaces" "readonly (core_reviews w)" "readonly (core_events_after q)"
  unfolding core_last_seq_def core_workspaces_def core_reviews_def core_events_after_def by simp_all

lemma readonly_directory_attachment [intro, simp]: "readonly (directory_attachment D root)"
  unfolding directory_attachment_def by (auto split: list.split)

lemma readonly_match_review [intro, simp]: "readonly (match_review w r b h rvs)"
  by (induction rvs) (auto simp flip: retO_def split: option.split)

lemma readonly_matching_directory_review [intro, simp]: "readonly (matching_directory_review w r b h)"
  unfolding matching_directory_review_def by auto

lemma keeps_create_directory_review:
  "validated_client.keeps (create_directory_review D E ctx opts root git located requested_base head)"
  unfolding create_directory_review_def Let_def
  by (auto simp: keeps_rules keeps_create_review keeps_workspace_ops split: option.split
      intro!: validated_client.keeps_bindO)

lemma keeps_ensure_directory_review: "validated_client.keeps (ensure_directory_review D E ctx opts)"
  unfolding ensure_directory_review_def Let_def reuse_directory_review_def
  by (auto simp: keeps_rules keeps_resolve_targets keeps_create_directory_review split: option.split
      intro!: validated_client.keeps_bindO)

section \<open>Finding the same review again\<close>

text \<open>What makes a review the one a directory is opened with.\<close>

definition serves_directory :: "repo_id \<Rightarrow> ref_spec option \<Rightarrow> ref_spec \<Rightarrow> review \<Rightarrow> bool" where
  "serves_directory repo base head rv \<longleftrightarrow>
     rv_status rv = Status_Open \<and> list_ex (target_matches repo base head) (ne_items (rv_targets rv))"

lemma match_review_None:
  "match_review w repo base head rvs c = (Inr None, c') \<Longrightarrow> \<forall>rv\<in>set rvs. \<not> serves_directory repo base head rv"
  by (induction rvs)
    (auto simp: serves_directory_def result_simps list_ex_iff find_None_iff split: if_splits option.splits)

lemma match_review_one:
  assumes "rv \<in> set rvs" "rv_status rv = Status_Open" "rv_targets rv = ne" "ne_items ne = [t]"
    "target_matches repo base head t" "\<And>x. x \<in> set rvs \<Longrightarrow> serves_directory repo base head x \<Longrightarrow> x = rv"
    and seq: "last_seq (co_store c) = Some q"
  shows "match_review w repo base head rvs c = (Inr (Some \<lparr>dr_workspace_id = w, dr_repo_id = repo, dr_review_id = rv_id rv,
     dr_base = rt_base t, dr_head = head, dr_outcome = Outcome_Reused, dr_seq = q\<rparr>), c)"
  using assms(1,6)
proof (induction rvs)
  case (Cons x rvs)
  show ?case
  proof (cases "serves_directory repo base head x")
    case True
    then have "x = rv" using Cons.prems by simp
    then show ?thesis using assms(2-5) seq by (simp add: core_last_seq_def ok_or_def)
  next
    case False
    moreover have "serves_directory repo base head rv" using assms(2-5) by (simp add: serves_directory_def)
    ultimately have "rv \<in> set rvs" using Cons.prems(1) by fastforce
    moreover have "rv_status x \<noteq> Status_Open \<or> find (target_matches repo base head) (ne_items (rv_targets x)) = None"
      using False by (auto simp: serves_directory_def list_ex_iff find_None_iff)
    ultimately show ?thesis using Cons by auto
  qed
qed simp

text \<open>The workspaces of a table with one more.\<close>

lemma ins_list_fresh:
  "k \<notin> fst ` set es \<Longrightarrow> \<exists>xs ys. es = xs @ ys \<and> ins_list k v es = xs @ (k, v) # ys"
proof (induction k v es rule: ins_list.induct)
  case (2 k v k' v' es)
  show ?case
  proof (cases "k < k'")
    case True
    then show ?thesis by (intro exI [of _ "[]"] exI [of _ "(k', v') # es"]) auto
  next
    case False
    then have "k \<noteq> k'" "ins_list k v ((k', v') # es) = (k', v') # ins_list k v es" using 2 by auto
    moreover obtain xs ys where "es = xs @ ys" "ins_list k v es = xs @ (k, v) # ys" using 2 False by auto
    ultimately show ?thesis by (intro exI [of _ "(k', v') # xs"] exI [of _ ys]) simp
  qed
qed simp

lemma tbl_values_fresh:
  assumes "tbl_get t k = None"
  shows "\<exists>xs ys. tbl_values t = xs @ ys \<and> tbl_values (tbl_insert k v t) = xs @ v # ys"
proof -
  have "k \<notin> fst ` set (tbl_entries t)" using assms tbl.in_entries_iff [of k _ t] by fastforce
  from ins_list_fresh [OF this, of v] obtain xs ys
    where "tbl_entries t = xs @ ys" "tbl_entries (tbl_insert k v t) = xs @ (k, v) # ys"
    unfolding tbl_entries_insert by blast
  then show ?thesis by (intro exI [of _ "map snd xs"] exI [of _ "map snd ys"]) (simp add: tbl_values_def)
qed

lemma attachments_append: "attachments D root (xs @ ys) = attachments D root xs @ attachments D root ys"
  by (simp add: attachments_def)

lemma attachments_Cons:
  "attachments D root (ws # wss) = map (\<lambda>repo. (ws_id ws, rp_id repo))
     (filter (\<lambda>repo. de_checkout D (rp_path repo) = Some root) (ws_repos ws)) @ attachments D root wss"
  by (simp add: attachments_def)

lemma attachments_fresh:
  assumes "attachments D root (tbl_values t) = []" "tbl_get t k = None" "ws_repos ws = [repo]"
    "de_checkout D (rp_path repo) = Some root"
  shows "attachments D root (tbl_values (tbl_insert k ws t)) = [(ws_id ws, rp_id repo)]"
proof -
  obtain xs ys where "tbl_values t = xs @ ys" "tbl_values (tbl_insert k ws t) = xs @ ws # ys"
    using tbl_values_fresh [OF assms(2)] by blast
  then show ?thesis using assms(1,3,4) by (simp add: attachments_append attachments_Cons)
qed

text \<open>Other reviews while one is resolved.\<close>

lemma record_resolved_other_rows:
  assumes row: "store_review (co_store c) (rv_id (rec_review rec)) = Some rec"
    and run: "record_resolved_targets E ctx rec resolved c = (Inr changed, c')"
    and other: "k \<noteq> review_key (rv_id (rec_review rec))"
  shows "tbl_get (v_reviews (st_views (co_store c'))) k = tbl_get (v_reviews (st_views (co_store c))) k"
proof (cases "rec_resolved rec = Some resolved")
  case True
  then show ?thesis using run by (auto simp: record_resolved_targets_def)
next
  case False
  let ?rid = "rv_id (rec_review rec)"
  from run False obtain c1 e c2 x where
    c1: "retain_targets E ?rid resolved c = (Inr (), c1)" and
    c2: "core_append ctx (ReviewTargetsResolved ?rid resolved) c1 = (Inr e, c2)" and
    c3: "(case rec_resolved rec of None \<Rightarrow> retO []
          | Some old \<Rightarrow> reanchor_review E ctx ?rid old resolved) c2 = (Inr x, c')"
    by (auto simp: record_resolved_targets_def result_simps)
  have st: "co_store c1 = co_store c" using readonlyD [OF readonly_retain_targets c1] by simp
  obtain t where "apply_body e (ReviewTargetsResolved ?rid resolved) (st_views (co_store c)) = Inr t"
    and t: "st_views (co_store c2) = t" using core_append_row [OF c2] st by auto
  then have "tbl_get (v_reviews (st_views (co_store c2))) k = tbl_get (v_reviews (st_views (co_store c1))) k"
    unfolding t using row st other by (auto simp: store_review_def load_review_def save_review_def)
  moreover have "v_reviews (st_views (co_store c')) = v_reviews (st_views (co_store c2))"
    using c3 preservesD [OF reanchor_review_keeps_reviews] by (cases "rec_resolved rec") auto
  ultimately show ?thesis using st by simp
qed

lemma resolve_targets_other_rows:
  assumes "reachable_by g (co_store c)" "resolve_targets E ctx rid c = (Inr x, c')" "k \<noteq> review_key rid"
  shows "tbl_get (v_reviews (st_views (co_store c'))) k = tbl_get (v_reviews (st_views (co_store c))) k"
proof -
  obtain rec c1 resolved changed where rec: "store_review (co_store c) rid = Some rec"
    and c1: "resolve_review_targets E (rec_review rec) c = (Inr resolved, c1)"
    and c2: "record_resolved_targets E ctx rec resolved c1 = (Inr changed, c')"
    using assms(2) by (auto simp: resolve_targets_def result_simps core_review_Inr)
  have st: "co_store c1 = co_store c" using readonlyD [OF readonly_resolve_review_targets c1] by simp
  have rid: "rv_id (rec_review rec) = rid" using reachable_review_id [OF assms(1) rec] .
  show ?thesis using record_resolved_other_rows [OF _ c2, of k] rec st rid assms(3) by simp
qed

text \<open>What the two creations leave in the store.\<close>

lemma readonly_guards: "readonly (forO (\<lambda>x. guardO (P x) (e x)) xs)"
  by (rule readonly_forO) (rule readonly_basic)

lemma case_first: "(case xs of [] \<Rightarrow> None | x # _ \<Rightarrow> Some (f x)) = Some y \<longleftrightarrow> xs \<noteq> [] \<and> y = f (hd xs)"
  by (cases xs) auto

lemma create_review_rows:
  assumes reach: "reachable_by validated (co_store c)"
    and run: "create_review E ctx rid wid title [t] c = (Inr rec, c')"
  obtains rv resolved where "store_review (co_store c') rid
      = Some \<lparr>rec_review = rv, rec_resolved = Some resolved, rec_lifecycle = Lifecycle_Live\<rparr>"
    "rv_id rv = rid" "rv_workspace_id rv = wid" "rv_status rv = Status_Open" "ne_items (rv_targets rv) = [t]"
    "v_workspaces (st_views (co_store c')) = v_workspaces (st_views (co_store c))"
    "\<And>k. k \<noteq> review_key rid \<Longrightarrow>
       tbl_get (v_reviews (st_views (co_store c'))) k = tbl_get (v_reviews (st_views (co_store c))) k"
    "fst (resolve_review_targets E rv c') = Inr resolved"
proof -
  have none: "store_review (co_store c) rid = None"
    using run by (cases "store_review (co_store c) rid")
      (auto simp: create_review_def result_simps core_workspace_Inr)
  from run none obtain parsed and ws :: workspace and vs c1 xs c2 e c3 resolved changed where
    parsed: "create_targets_try_from_vec [t] = Inr parsed"
    and guards: "forO (\<lambda>t. guardO (list_ex (\<lambda>r. rp_id r = rt_repo_id t) (ws_repos ws))
        (Invalid (RepoNotInWorkspace (rt_repo_id t) wid))) (ne_items (as_targets parsed)) c = (Inr vs, c1)"
    and one: "forO (resolve_one E wid) (ne_items (as_targets parsed)) c1 = (Inr xs, c2)"
    and app: "core_append ctx (ReviewCreated \<lparr>rv_id = rid, rv_workspace_id = wid, rv_title = title,
        rv_targets = as_targets parsed, rv_created = cx_now ctx, rv_status = Status_Open\<rparr>) c2 = (Inr e, c3)"
    and res: "resolve_targets E ctx rid c3 = (Inr (resolved, changed), c')"
    by (auto simp: create_review_def Let_def result_simps core_workspace_Inr split: prod.splits)
  define rv where rv: "rv = \<lparr>rv_id = rid, rv_workspace_id = wid, rv_title = title, rv_targets = as_targets parsed,
      rv_created = cx_now ctx, rv_status = Status_Open\<rparr>"
  have st: "co_store c2 = co_store c"
  proof -
    have "readonly (forO (resolve_one E wid) (ne_items (as_targets parsed)))" by auto
    then have "co_store c2 = co_store c1" using one by (rule readonlyD)
    moreover have "co_store c1 = co_store c"
      using readonlyD [OF readonly_guards guards] .
    ultimately show ?thesis by simp
  qed
  let ?rec = "\<lparr>rec_review = rv, rec_resolved = None, rec_lifecycle = Lifecycle_Live\<rparr>"
  have views: "st_views (co_store c3) = save_review ?rec (st_views (co_store c))"
    using core_append_row [OF app] st rv by auto
  have "reachable_by (\<lambda>_ _. True) (co_store c2)" using reachable_by_mono [OF reach] st by simp
  then have reach3: "reachable_by (\<lambda>_ _. True) (co_store c3)"
    using app by (auto simp: core_append_Inr intro: reachable_by.appended)
  obtain rec' where rec': "store_review (co_store c3) rid = Some rec'"
    "fst (resolve_review_targets E (rec_review rec') c3) = Inr resolved"
    "store_review (co_store c') rid = Some (rec'\<lparr>rec_resolved := Some resolved\<rparr>)" "same_repos E c3 c'"
    using resolve_targets_run [OF reach3 res] by metis
  have "rec' = ?rec" using rec'(1) views rv by (simp add: store_review_def save_review_def)
  moreover have "fst (resolve_review_targets E (rec_review rec') c') = Inr resolved"
    using rec'(2) repos.determinedD [OF determined_resolve_review_targets rec'(4)] by simp
  moreover have "ne_items (as_targets parsed) = [t]" using create_targets_accepts [of "[t]"] parsed by simp
  moreover have "tbl_get (v_reviews (st_views (co_store c'))) k = tbl_get (v_reviews (st_views (co_store c))) k"
    if "k \<noteq> review_key rid" for k
    using resolve_targets_other_rows [OF reach3 res that] views rv that by (simp add: save_review_def)
  moreover have "v_workspaces (st_views (co_store c')) = v_workspaces (st_views (co_store c))"
    using rec'(4) views by (simp add: same_repos_def save_review_def)
  ultimately show ?thesis using that [of rv resolved] rec'(3) rv by simp
qed

lemma create_workspace_with_repo_rows:
  assumes run: "create_workspace_with_repo E ctx wid rid root name c = (Inr (), c')"
    and opened: "en_open E root = Inr opened"
  shows "store_workspace (co_store c) wid = None"
    "v_workspaces (st_views (co_store c')) = tbl_insert (workspace_key wid) \<lparr>ws_id = wid, ws_name = name,
       ws_repos = [\<lparr>rp_id = rid, rp_path = or_checkout opened, rp_display_name = name\<rparr>]\<rparr> (v_workspaces (st_views (co_store c)))"
    "v_reviews (st_views (co_store c')) = v_reviews (st_views (co_store c))"
proof -
  let ?repo = "\<lparr>rp_id = rid, rp_path = or_checkout opened, rp_display_name = name\<rparr>"
  from run opened show none: "store_workspace (co_store c) wid = None"
    by (cases "store_workspace (co_store c) wid") (auto simp: create_workspace_with_repo_def
        create_workspace_def check_repo_owner_def result_simps gitO_def)
  from run opened none obtain e c1 e' c2 where
    ws: "core_append ctx (WorkspaceCreated \<lparr>ws_id = wid, ws_name = name, ws_repos = []\<rparr>) c = (Inr e, c1)"
    and repo: "core_append ctx (RepoAttached wid ?repo) c1 = (Inr e', c2)" "co_store c' = co_store c2"
    by (auto simp: create_workspace_with_repo_def create_workspace_def check_repo_owner_def result_simps gitO_def
        publish_attachment_def set_opened_def Let_def split: if_splits)
  show "v_workspaces (st_views (co_store c')) = tbl_insert (workspace_key wid) \<lparr>ws_id = wid, ws_name = name,
       ws_repos = [?repo]\<rparr> (v_workspaces (st_views (co_store c)))"
    "v_reviews (st_views (co_store c')) = v_reviews (st_views (co_store c))"
    using core_append_row [OF ws] core_append_row [OF repo(1)] repo(2)
    by (auto simp: load_workspace_def put_workspace_def intro!: tbl_eqI)
qed

lemma review_workspace_known:
  assumes "refs_ok t" "tbl_get (v_reviews t) k = Some rec"
  shows "tbl_get (v_workspaces t) (workspace_key (rv_workspace_id (rec_review rec))) \<noteq> None"
  using assms by (auto simp: refs_ok_def reviews_ok_def skeleton_def review_shape_def)

lemma directory_attachment_Inr:
  "directory_attachment D root c = (Inr located, c') \<longleftrightarrow> c' = c \<and>
     (case located of
        None \<Rightarrow> attachments D root (store_workspaces (co_store c)) = []
      | Some m \<Rightarrow> attachments D root (store_workspaces (co_store c)) = [m])"
  unfolding directory_attachment_def core_workspaces_def
  by (cases "attachments D root (store_workspaces (co_store c))") (auto split: option.splits if_splits)

text \<open>
  After a review was created for a checkout, the checkout is attached once and the new review is the
  only open one of its workspace that the request matches.
\<close>

lemma create_directory_review_rows:
  assumes reach: "reachable_by validated (co_store c)" and len: "store_len (co_store c) < 2 ^ 64 - 1"
    and att: "directory_attachment D root c = (Inr located, c)"
    and unmatched: "case located of None \<Rightarrow> True
      | Some (w, r) \<Rightarrow> \<forall>rec\<in>set (store_reviews (co_store c) w). \<not> serves_directory r base head (rec_review rec)"
    and opened: "en_open E root = Inr opened" "de_checkout D (or_checkout opened) = Some root"
    and run: "create_directory_review D E ctx opts root git located base head c = (Inr d, c')"
  obtains rv resolved t q where
    "attachments D root (store_workspaces (co_store c')) = [(dr_workspace_id d, dr_repo_id d)]"
    "store_review (co_store c') (dr_review_id d)
      = Some \<lparr>rec_review = rv, rec_resolved = Some resolved, rec_lifecycle = Lifecycle_Live\<rparr>"
    "rv_id rv = dr_review_id d" "rv_workspace_id rv = dr_workspace_id d" "rv_status rv = Status_Open"
    "ne_items (rv_targets rv) = [t]" "target_matches (dr_repo_id d) base head t" "rt_base t = dr_base d"
    "\<forall>rec\<in>set (store_reviews (co_store c') (dr_workspace_id d)).
       serves_directory (dr_repo_id d) base head (rec_review rec) \<longrightarrow> rec_review rec = rv"
    "fst (resolve_review_targets E rv c') = Inr resolved"
    "last_seq (co_store c') = Some q" "dr_head d = head"
proof -
  let ?name = "case de_file_name D root of None \<Rightarrow> ''repo'' | Some n \<Rightarrow> n"
  from run obtain b c1 rec q where
    b: "base \<in> {None, Some b}" "dr_base d = b" "dr_head d = head" and
    c1: "(case located of Some ids \<Rightarrow> retO ids
        | None \<Rightarrow> bindO (create_workspace_with_repo E ctx (ed_workspace_id opts) (ed_repo_id opts) root ?name)
            (\<lambda>_. retO (ed_workspace_id opts, ed_repo_id opts))) c = (Inr (dr_workspace_id d, dr_repo_id d), c1)" and
    rec: "create_review E ctx (dr_review_id d) (dr_workspace_id d) ?name
      [\<lparr>rt_repo_id = dr_repo_id d, rt_base = b, rt_head = head\<rparr>] c1 = (Inr rec, c')" and
    evs: "events_after q (co_store c') \<noteq> []"
    unfolding create_directory_review_def Let_def
    by (cases base; cases "store_review (co_store c) (ed_review_id opts)")
      (auto simp: case_first result_simps refuseO_def gitO_def core_last_seq_def core_events_after_def image_iff)
  let ?w = "dr_workspace_id d"
  let ?r = "dr_repo_id d"
  let ?t = "\<lparr>rt_repo_id = ?r, rt_base = b, rt_head = head\<rparr>"
  have reach1: "reachable_by validated (co_store c1)"
  proof (cases located)
    case None
    then have "co_store c1 = co_store (snd (create_workspace_with_repo E ctx (ed_workspace_id opts) (ed_repo_id opts) root ?name c))"
      using c1 by (auto simp: result_simps)
    then show ?thesis using validated_client.keepsD [OF keeps_workspace_ops(3) reach] by simp
  qed (use c1 reach in simp)
  have mid: "attachments D root (store_workspaces (co_store c1)) = [(?w, ?r)]
      \<and> (\<forall>rec\<in>set (store_reviews (co_store c1) ?w). \<not> serves_directory ?r base head (rec_review rec))"
  proof (cases located)
    case None
    then have c1': "create_workspace_with_repo E ctx ?w ?r root ?name c = (Inr (), c1)"
      using c1 by (auto simp: result_simps)
    note rows = create_workspace_with_repo_rows [OF c1' opened(1)]
    have "attachments D root (tbl_values (v_workspaces (st_views (co_store c)))) = []"
      using att None by (simp add: directory_attachment_Inr store_workspaces_def)
    from attachments_fresh [OF this, of "workspace_key ?w"] rows(1)
    have "attachments D root (store_workspaces (co_store c1)) = [(?w, ?r)]"
      using opened(2) rows(2) by (simp add: store_workspaces_def store_workspace_def)
    moreover have "refs_ok (st_views (co_store c))" by (rule references.reachable_inv [OF reach len])
    then have "store_reviews (co_store c1) ?w = []"
      using review_workspace_known rows(1,3)
      by (fastforce simp: store_reviews_def store_workspace_def filter_empty_conv tbl_values_iff)
    ultimately show ?thesis by simp
  next
    case (Some m)
    then show ?thesis using att unmatched c1 by (auto simp: directory_attachment_Inr)
  qed
  obtain rv resolved where rv: "store_review (co_store c') (dr_review_id d)
      = Some \<lparr>rec_review = rv, rec_resolved = Some resolved, rec_lifecycle = Lifecycle_Live\<rparr>"
    "rv_id rv = dr_review_id d" "rv_workspace_id rv = ?w" "rv_status rv = Status_Open" "ne_items (rv_targets rv) = [?t]"
    "v_workspaces (st_views (co_store c')) = v_workspaces (st_views (co_store c1))"
    "fst (resolve_review_targets E rv c') = Inr resolved"
    and others: "\<And>k. k \<noteq> review_key (dr_review_id d) \<Longrightarrow>
       tbl_get (v_reviews (st_views (co_store c'))) k = tbl_get (v_reviews (st_views (co_store c1))) k"
    using create_review_rows [OF reach1 rec] by metis
  have "rec_review r = rv" if "r \<in> set (store_reviews (co_store c') ?w)"
    and m: "serves_directory ?r base head (rec_review r)" for r
  proof -
    from that obtain k where k: "tbl_get (v_reviews (st_views (co_store c'))) k = Some r"
      and live: "rv_workspace_id (rec_review r) = ?w" "is_live r"
      by (auto simp: store_reviews_def tbl_values_iff)
    have "k = review_key (dr_review_id d)"
    proof (rule ccontr)
      assume "k \<noteq> review_key (dr_review_id d)"
      then have "r \<in> set (store_reviews (co_store c1) ?w)"
        using k live others by (auto simp: store_reviews_def tbl_values_iff)
      then show False using mid m by blast
    qed
    then show ?thesis using k rv(1) by (simp add: store_review_def)
  qed
  moreover have "target_matches ?r base head ?t" using b(1) by (auto simp: target_matches_def is_none_or_def)
  moreover obtain q' where "last_seq (co_store c') = Some q'"
    using evs by (cases "last_seq (co_store c')") (auto simp: last_seq_def tbl_last_def events_after_def tbl_range_def split: if_splits)
  moreover have "attachments D root (store_workspaces (co_store c')) = [(?w, ?r)]"
    using mid rv(6) by (simp add: store_workspaces_def)
  ultimately show ?thesis using that [of rv resolved ?t q'] rv b by simp
qed

text \<open>The ways through \<open>ensure_directory_review\<close>.\<close>

abbreviation wanted_head :: "ensure_options \<Rightarrow> ref_spec" where
  "wanted_head opts \<equiv> (case ed_head opts of None \<Rightarrow> RefSpec_WorkingTree | Some h \<Rightarrow> h)"

abbreviation wanted_base :: "ensure_options \<Rightarrow> ref_spec option" where
  "wanted_base opts \<equiv> map_option ref_spec_from_base (ed_base opts)"

definition refs_resolve :: "git_repo \<Rightarrow> ensure_options \<Rightarrow> bool" where
  "refs_resolve git opts \<longleftrightarrow> gr_resolve git (wanted_head opts) \<in> range Inr
     \<and> (case wanted_base opts of None \<Rightarrow> True | Some b \<Rightarrow> gr_resolve git b \<in> range Inr)"

lemma base_check:
  "(case base of None \<Rightarrow> retO () | Some b \<Rightarrow> bindO (refuseO (gr_resolve git b)) (\<lambda>_. retO ())) c = (Inr x, c')
     \<longleftrightarrow> c' = c \<and> (case base of None \<Rightarrow> True | Some b \<Rightarrow> gr_resolve git b \<in> range Inr)"
  by (cases base) (auto simp: refuseO_def result_simps image_iff)

lemma match_review_state: "match_review w r b h rvs c = (x, c') \<Longrightarrow> c' = c"
  by (induction rvs)
    (auto simp: core_last_seq_def bindO_def liftO_def retO_def readO_def split: if_splits option.splits sum.splits)

lemma match_review_reused: "match_review w r b h rvs c = (Inr (Some d), c') \<Longrightarrow> dr_outcome d = Outcome_Reused"
  by (induction rvs) (auto simp: core_last_seq_def result_simps split: if_splits option.splits)

lemma ensure_created:
  assumes "ensure_directory_review D E ctx opts c = (Inr d, c')" "dr_outcome d = Outcome_Created"
    and "de_root D (ed_path opts) = Inr root" "en_open E root = Inr opened"
  obtains located where "directory_attachment D root c = (Inr located, c)" "refs_resolve (or_git opened) opts"
    "case located of None \<Rightarrow> True | Some (w, r) \<Rightarrow>
       \<forall>rec\<in>set (store_reviews (co_store c) w). \<not> serves_directory r (wanted_base opts) (wanted_head opts) (rec_review rec)"
    "create_directory_review D E ctx opts root (or_git opened) located (wanted_base opts) (wanted_head opts) c = (Inr d, c')"
proof -
  from assms obtain located found c1 where att: "directory_attachment D root c = (Inr located, c)"
    and refs: "refs_resolve (or_git opened) opts"
    and found: "(case located of None \<Rightarrow> retO None
        | Some (w, r) \<Rightarrow> matching_directory_review w r (wanted_base opts) (wanted_head opts)) c = (Inr found, c1)"
    and run: "(case found of Some review \<Rightarrow> reuse_directory_review E ctx review
        | None \<Rightarrow> create_directory_review D E ctx opts root (or_git opened) located (wanted_base opts) (wanted_head opts)) c1
        = (Inr d, c')"
    unfolding ensure_directory_review_def Let_def bindO_Inr_iff base_check
    by (simp only: refs_resolve_def) (fastforce simp: refuseO_def result_simps directory_attachment_Inr)
  have "found = None"
  proof (rule ccontr)
    assume "found \<noteq> None"
    then obtain x where x: "found = Some x" by auto
    then have "dr_outcome x = Outcome_Reused"
      using found match_review_reused
      by (auto simp: matching_directory_review_def core_reviews_def split: option.splits)
    then show False using run x assms(2) by (auto simp: reuse_directory_review_def core_last_seq_def result_simps)
  qed
  moreover have "c1 = c" using found match_review_state
    by (auto simp: matching_directory_review_def core_reviews_def split: option.splits)
  moreover have "\<not> serves_directory r (wanted_base opts) (wanted_head opts) (rec_review rec)"
    if "located = Some (w, r)" "rec \<in> set (store_reviews (co_store c) w)" for w r rec
    using found that match_review_None \<open>found = None\<close>
    by (fastforce simp: matching_directory_review_def core_reviews_def)
  ultimately show ?thesis using that [OF att refs] run by (auto split: option.splits)
qed

lemma ensure_found:
  assumes "de_root D (ed_path opts) = Inr root" "en_open E root = Inr opened" "refs_resolve (or_git opened) opts"
    "directory_attachment D root c = (Inr (Some (w, r)), c)"
    "matching_directory_review w r (wanted_base opts) (wanted_head opts) c = (Inr (Some review), c)"
  shows "ensure_directory_review D E ctx opts c = reuse_directory_review E ctx review c"
  using assms unfolding ensure_directory_review_def Let_def
  by (cases "ed_base opts") (auto simp: refuseO_def refs_resolve_def)

lemma ensure_opens:
  assumes "ensure_directory_review D E ctx opts c = (Inr d, c')" "de_root D (ed_path opts) = Inr root"
  obtains opened where "en_open E root = Inr opened" "refs_resolve (or_git opened) opts"
proof -
  from assms obtain opened where "en_open E root = Inr opened" "refs_resolve (or_git opened) opts"
    unfolding ensure_directory_review_def Let_def bindO_Inr_iff base_check
    by (simp only: refs_resolve_def) (fastforce simp: refuseO_def result_simps directory_attachment_Inr)
  then show ?thesis using that by blast
qed

text \<open>After a call that created a review, every call for the same checkout, base and head selects that
  review, whatever Git and the file system have become.\<close>

lemma created_then_reuse:
  assumes reach: "reachable_by validated (co_store c)" and len: "store_len (co_store c) < 2 ^ 64 - 1"
    and run: "ensure_directory_review D E ctx opts c = (Inr d, c')" "dr_outcome d = Outcome_Created"
    and root: "de_root D (ed_path opts) = Inr root" "en_open E root = Inr opened"
      "de_checkout D (or_checkout opened) = Some root"
    and same: "ed_path opts' = ed_path opts" "ed_base opts' = ed_base opts" "ed_head opts' = ed_head opts"
  obtains q rv resolved where "last_seq (co_store c') = Some q"
    "store_review (co_store c') (dr_review_id d)
      = Some \<lparr>rec_review = rv, rec_resolved = Some resolved, rec_lifecycle = Lifecycle_Live\<rparr>"
    "fst (resolve_review_targets E rv c') = Inr resolved"
    "\<forall>D' E' opened' ctx'. de_root D' (ed_path opts) = Inr root \<and> de_checkout D' = de_checkout D
        \<and> en_open E' root = Inr opened' \<and> refs_resolve (or_git opened') opts'
      \<longrightarrow> ensure_directory_review D' E' ctx' opts' c'
        = reuse_directory_review E' ctx' (d\<lparr>dr_outcome := Outcome_Reused, dr_seq := q\<rparr>) c'"
proof -
  let ?head = "wanted_head opts"
  let ?base = "wanted_base opts"
  have same': "wanted_head opts' = ?head" "wanted_base opts' = ?base" using same by simp_all
  obtain located where att: "directory_attachment D root c = (Inr located, c)"
    and refs: "refs_resolve (or_git opened) opts"
    and unmatched: "case located of None \<Rightarrow> True | Some (w, r) \<Rightarrow>
       \<forall>rec\<in>set (store_reviews (co_store c) w). \<not> serves_directory r ?base ?head (rec_review rec)"
    and cr: "create_directory_review D E ctx opts root (or_git opened) located ?base ?head c = (Inr d, c')"
    using ensure_created [OF run root(1,2)] by blast
  obtain rv resolved t q where
    now: "attachments D root (store_workspaces (co_store c')) = [(dr_workspace_id d, dr_repo_id d)]"
    and row: "store_review (co_store c') (dr_review_id d)
      = Some \<lparr>rec_review = rv, rec_resolved = Some resolved, rec_lifecycle = Lifecycle_Live\<rparr>"
    and rv: "rv_id rv = dr_review_id d" "rv_workspace_id rv = dr_workspace_id d" "rv_status rv = Status_Open"
      "ne_items (rv_targets rv) = [t]" "target_matches (dr_repo_id d) ?base ?head t" "rt_base t = dr_base d"
    and only: "\<forall>rec\<in>set (store_reviews (co_store c') (dr_workspace_id d)).
       serves_directory (dr_repo_id d) ?base ?head (rec_review rec) \<longrightarrow> rec_review rec = rv"
    and res: "fst (resolve_review_targets E rv c') = Inr resolved"
    and q: "last_seq (co_store c') = Some q" and head: "dr_head d = ?head"
    by (rule create_directory_review_rows [OF reach len att unmatched root(2,3) cr])
  let ?d = "d\<lparr>dr_outcome := Outcome_Reused, dr_seq := q\<rparr>"
  let ?rec = "\<lparr>rec_review = rv, rec_resolved = Some resolved, rec_lifecycle = Lifecycle_Live\<rparr>"
  have "?rec \<in> set (store_reviews (co_store c') (dr_workspace_id d))"
    using row rv(2) by (auto simp: store_review_def store_reviews_def is_live_def tbl_values_iff)
  then have "rec_review ?rec \<in> set (map rec_review (store_reviews (co_store c') (dr_workspace_id d)))"
    unfolding set_map by (rule imageI)
  then have "rv \<in> set (map rec_review (store_reviews (co_store c') (dr_workspace_id d)))" by simp
  moreover have "x = rv" if "x \<in> set (map rec_review (store_reviews (co_store c') (dr_workspace_id d)))"
    "serves_directory (dr_repo_id d) ?base ?head x" for x using that only by auto
  ultimately have "match_review (dr_workspace_id d) (dr_repo_id d) ?base ?head
      (map rec_review (store_reviews (co_store c') (dr_workspace_id d))) c'
      = (Inr (Some \<lparr>dr_workspace_id = dr_workspace_id d, dr_repo_id = dr_repo_id d, dr_review_id = rv_id rv,
         dr_base = rt_base t, dr_head = ?head, dr_outcome = Outcome_Reused, dr_seq = q\<rparr>), c')"
    by (rule match_review_one [OF _ rv(3) refl rv(4,5) _ q])
  also have "\<lparr>dr_workspace_id = dr_workspace_id d, dr_repo_id = dr_repo_id d, dr_review_id = rv_id rv,
      dr_base = rt_base t, dr_head = ?head, dr_outcome = Outcome_Reused, dr_seq = q\<rparr> = ?d"
    using rv(1,6) head by simp
  finally have "match_review (dr_workspace_id d) (dr_repo_id d) ?base ?head
      (map rec_review (store_reviews (co_store c') (dr_workspace_id d))) c' = (Inr (Some ?d), c')" .
  then have matching: "matching_directory_review (dr_workspace_id d) (dr_repo_id d) (wanted_base opts') (wanted_head opts') c'
      = (Inr (Some ?d), c')"
    unfolding same' by (simp add: matching_directory_review_def core_reviews_def)
  have attached: "directory_attachment D' root c' = (Inr (Some (dr_workspace_id d, dr_repo_id d)), c')"
    if "de_checkout D' = de_checkout D" for D' :: dir_env
    using now that by (simp add: directory_attachment_Inr attachments_def)
  show ?thesis
  proof (rule that [OF q row res], intro allI impI)
    fix D' :: dir_env and E' :: env and opened' ctx'
    assume "de_root D' (ed_path opts) = Inr root \<and> de_checkout D' = de_checkout D
        \<and> en_open E' root = Inr opened' \<and> refs_resolve (or_git opened') opts'"
    then have later: "de_root D' (ed_path opts) = Inr root" "de_checkout D' = de_checkout D" "en_open E' root = Inr opened'"
      "refs_resolve (or_git opened') opts'" by simp_all
    show "ensure_directory_review D' E' ctx' opts' c' = reuse_directory_review E' ctx' ?d c'"
      using ensure_found [OF _ later(3,4) attached [OF later(2)] matching] later(1) same(1) by simp
  qed
qed

text \<open>
  C34: Opening a directory is idempotent. When a call created a review for a checkout and the next call
  asks for the same path, base and head, by any author and with any fresh ids, then, as long as the path
  leads to the same root and the recorded checkouts lead where they did, that call, if it succeeds, selects
  that review whatever Git answers by then: it returns the same workspace, repository, review, base and
  head, reports the review as reused at the last position of the log it leaves, and leaves the review's row
  with what the targets resolve to now. When the file system and Git answer as they did for the first call,
  the second one does succeed and appends nothing (when they answer differently, the new resolution and the
  comments it moves are appended). No other call comes between the two, and the checkout's recorded path
  leads back to its root.
\<close>

theorem directory_review_found_again:
  assumes reach: "reachable_by validated (co_store c)" and len: "store_len (co_store c) < 2 ^ 64 - 1"
    and run: "ensure_directory_review D E ctx opts c = (Inr d, c')" "dr_outcome d = Outcome_Created"
    and root: "de_root D (ed_path opts) = Inr root" "en_open E root = Inr opened"
      "de_checkout D (or_checkout opened) = Some root"
    and same: "ed_path opts' = ed_path opts" "ed_base opts' = ed_base opts" "ed_head opts' = ed_head opts"
  shows "(\<forall>D' E' d' c''. de_root D' (ed_path opts) = Inr root \<and> de_checkout D' = de_checkout D
        \<and> ensure_directory_review D' E' ctx' opts' c' = (Inr d', c'')
      \<longrightarrow> (\<exists>q. last_seq (co_store c'') = Some q \<and> d' = d\<lparr>dr_outcome := Outcome_Reused, dr_seq := q\<rparr>)
        \<and> (\<exists>rec resolved. store_review (co_store c') (dr_review_id d) = Some rec
            \<and> fst (resolve_review_targets E' (rec_review rec) c') = Inr resolved
            \<and> store_review (co_store c'') (dr_review_id d) = Some (rec\<lparr>rec_resolved := Some resolved\<rparr>)))
    \<and> (\<exists>q. last_seq (co_store c') = Some q
        \<and> fst (ensure_directory_review D E ctx' opts' c') = Inr (d\<lparr>dr_outcome := Outcome_Reused, dr_seq := q\<rparr>)
        \<and> co_store (snd (ensure_directory_review D E ctx' opts' c')) = co_store c')"
proof (intro conjI allI impI)
  obtain q rv resolved where q: "last_seq (co_store c') = Some q"
    and row: "store_review (co_store c') (dr_review_id d)
      = Some \<lparr>rec_review = rv, rec_resolved = Some resolved, rec_lifecycle = Lifecycle_Live\<rparr>"
    and res: "fst (resolve_review_targets E rv c') = Inr resolved"
    and reuse: "\<forall>D' E' opened' ctx'. de_root D' (ed_path opts) = Inr root \<and> de_checkout D' = de_checkout D
        \<and> en_open E' root = Inr opened' \<and> refs_resolve (or_git opened') opts'
      \<longrightarrow> ensure_directory_review D' E' ctx' opts' c'
        = reuse_directory_review E' ctx' (d\<lparr>dr_outcome := Outcome_Reused, dr_seq := q\<rparr>) c'"
    by (rule created_then_reuse [OF reach len run root same])
  have reach': "reachable_by validated (co_store c')"
    using validated_client.keepsD [OF keeps_ensure_directory_review reach, of D E ctx opts] run(1) by simp
  {
    fix D' :: dir_env and E' :: env and d' c''
    assume later: "de_root D' (ed_path opts) = Inr root \<and> de_checkout D' = de_checkout D
      \<and> ensure_directory_review D' E' ctx' opts' c' = (Inr d', c'')"
    then obtain opened' where "en_open E' root = Inr opened'" "refs_resolve (or_git opened') opts'"
      using ensure_opens [of D' E' ctx' opts' c' d' c'' root] same(1) by auto
    then have "reuse_directory_review E' ctx' (d\<lparr>dr_outcome := Outcome_Reused, dr_seq := q\<rparr>) c' = (Inr d', c'')"
      using reuse later by metis
    then obtain x where x: "resolve_targets E' ctx' (dr_review_id d) c' = (Inr x, c'')"
      and d': "\<exists>q. last_seq (co_store c'') = Some q \<and> d' = d\<lparr>dr_outcome := Outcome_Reused, dr_seq := q\<rparr>"
      by (auto simp: reuse_directory_review_def core_last_seq_def result_simps split: option.splits)
    show "\<exists>q. last_seq (co_store c'') = Some q \<and> d' = d\<lparr>dr_outcome := Outcome_Reused, dr_seq := q\<rparr>" by (rule d')
    show "\<exists>rec resolved. store_review (co_store c') (dr_review_id d) = Some rec
        \<and> fst (resolve_review_targets E' (rec_review rec) c') = Inr resolved
        \<and> store_review (co_store c'') (dr_review_id d) = Some (rec\<lparr>rec_resolved := Some resolved\<rparr>)"
      using resolve_targets_run [OF reach', of E' ctx' "dr_review_id d" "fst x" "snd x" c''] x
      by (metis prod.collapse)
  }
  have refs: "refs_resolve (or_git opened) opts'"
    by (rule ensure_opens [OF run(1) root(1)]) (use root(2) same in \<open>simp add: refs_resolve_def\<close>)
  have again: "ensure_directory_review D E ctx' opts' c'
      = reuse_directory_review E ctx' (d\<lparr>dr_outcome := Outcome_Reused, dr_seq := q\<rparr>) c'"
    using reuse root(1,2) refs by blast
  have "fst (resolve_targets E ctx' (dr_review_id d) c') = Inr (resolved, False)
      \<and> co_store (snd (resolve_targets E ctx' (dr_review_id d) c')) = co_store c'"
    using resolve_targets_unchanged [OF row] res by (simp add: is_live_def)
  then show "\<exists>q. last_seq (co_store c') = Some q
      \<and> fst (ensure_directory_review D E ctx' opts' c') = Inr (d\<lparr>dr_outcome := Outcome_Reused, dr_seq := q\<rparr>)
      \<and> co_store (snd (ensure_directory_review D E ctx' opts' c')) = co_store c'"
    using q unfolding again
    by (cases "resolve_targets E ctx' (dr_review_id d) c'")
      (simp add: reuse_directory_review_def core_last_seq_def bindO_def)
qed

definition sample_dir :: dir_env where
  "sample_dir =
     \<lparr>de_root = (\<lambda>_. Inr ''/n''), de_checkout = Some, de_default_base = (\<lambda>_. Inr (RefSpec_Branch ''main'')),
      de_file_name = (\<lambda>_. Some ''n'')\<rparr>"

definition sample_options :: "80 word \<Rightarrow> ensure_options" where
  "sample_options n =
     \<lparr>ed_workspace_id = WorkspaceId (Ulid 5 n), ed_repo_id = RepoId (Ulid 5 n), ed_review_id = ReviewId (Ulid 5 n),
      ed_path = ''/n/src'', ed_base = None, ed_head = None\<rparr>"

theorem directory_review_found_again_witness:
  "\<exists>d c' q. ensure_directory_review sample_dir sample_env sample_ctx (sample_options 1) sample_core = (Inr d, c')
     \<and> fst (ensure_directory_review sample_dir sample_env sample_ctx (sample_options 2) c')
       = Inr (d\<lparr>dr_outcome := Outcome_Reused, dr_seq := q\<rparr>)"
proof -
  let ?run = "ensure_directory_review sample_dir sample_env sample_ctx (sample_options 1) sample_core"
  have "map_sum (\<lambda>_. ()) dr_outcome (fst ?run) = Inr Outcome_Created" by code_simp
  then obtain d c' where run: "?run = (Inr d, c')" "dr_outcome d = Outcome_Created"
    by (cases ?run; cases "fst ?run") auto
  have "store_len (co_store sample_core) = 4" by code_simp
  then have "store_len (co_store sample_core) < 2 ^ 64 - 1" by simp
  from directory_review_found_again [OF sample_core_reachable this run, of "''/n''"
      "\<lparr>or_checkout = ''/n'', or_git = sample_git\<rparr>" "sample_options 2" sample_ctx]
  show ?thesis using run(1) by (auto simp: sample_dir_def sample_env_def sample_options_def)
qed

end
