(* ===== verification/Nits_Core_Machine.thy ===== *)
theory Nits_Core_Machine
  imports Nits_Suggestion_Laws Nits_Checkpoint_Laws Nits_Directory
begin

text \<open>
  The core as a state machine: its states are those reached from a fresh store by any sequence
  of the public operations, each with its own caller, environment and arguments and succeeding
  or failing, by restarts, which lose the registry of opened repositories, and by rebuilds of
  the views. Every such state satisfies the store's invariants.
\<close>

inductive core_step :: "core \<Rightarrow> core \<Rightarrow> bool" where
  workspace_created: "core_step c (snd (create_workspace ctx wid name c))"
| workspace_with_repo: "core_step c (snd (create_workspace_with_repo E ctx wid rid path name c))"
| workspace_renamed: "core_step c (snd (rename_workspace ctx wid name c))"
| repo_attached: "core_step c (snd (attach_repo E ctx wid rid path name c))"
| repo_detached: "core_step c (snd (detach_repo ctx wid rid c))"
| repo_looked_up: "core_step c (snd (lookup_repo E rid c))"
| review_created: "core_step c (snd (create_review E ctx review wid title targets c))"
| review_updated: "core_step c (snd (update_review E ctx review title status c))"
| target_moved: "core_step c (snd (update_review_target E ctx review update c))"
| review_deleted: "core_step c (snd (delete_review ctx review c))"
| targets_resolved: "core_step c (snd (resolve_targets E ctx review c))"
| review_refreshed: "core_step c (snd (refresh_working_tree_review E ctx review rid c))"
| file_viewed: "core_step c (snd (mark_viewed E ctx review rid file c))"
| file_unviewed: "core_step c (snd (unmark_viewed ctx review rid file c))"
| review_checked: "core_step c (snd (record_checkpoint E ctx review resolved round c))"
| review_requested: "core_step c (snd (request_review E ctx review agent note c))"
| comment_added: "core_step c (snd (add_comment E ctx review cid kind anchor body place c))"
| comment_replied: "core_step c (snd (reply ctx review tid cid kind body c))"
| comment_edited: "core_step c (snd (edit_comment ctx review cid body c))"
| comment_deleted: "core_step c (snd (delete_comment ctx review cid c))"
| thread_deferred: "core_step c (snd (defer_thread ctx review tid reason url c))"
| thread_resolved: "core_step c (snd (resolve_thread ctx review tid c))"
| thread_unresolved: "core_step c (snd (unresolve_thread ctx review tid c))"
| suggestion_written: "core_step c (snd (apply_suggestion E ctx review cid c))"
| suggestion_shown: "core_step c (snd (preview_suggestion E review cid c))"
| directory_opened: "core_step c (snd (ensure_directory_review D E ctx opts c))"
| restarted: "core_step c (c\<lparr>co_opened := Map.empty\<rparr>)"
| rebuilt_views: "rebuild_views (co_store c) = Inr s \<Longrightarrow> core_step c (c\<lparr>co_store := s\<rparr>)"

definition core_start :: core where
  "core_start = \<lparr>co_store = fresh_store, co_opened = Map.empty\<rparr>"

inductive core_reachable :: "core \<Rightarrow> bool" where
  start: "core_reachable core_start"
| step: "core_reachable c \<Longrightarrow> core_step c c' \<Longrightarrow> core_reachable c'"

inductive_cases core_stepE: "core_step c c'"

lemmas core_keeps = keeps_create_workspace keeps_workspace_ops keeps_attach_repo keeps_create_review
  keeps_update_review keeps_update_review_target keeps_review_ops keeps_resolve_targets keeps_refresh
  keeps_add_comment keeps_reply keeps_comment_ops keeps_thread_ops keeps_defer_thread keeps_apply_suggestion
  keeps_ensure_directory_review
  keeps_rules

lemma core_step_validated:
  "core_step c c' \<Longrightarrow> reachable_by validated (co_store c) \<Longrightarrow> reachable_by validated (co_store c')"
proof (induction rule: core_step.induct)
  case (rebuilt_views c s)
  then show ?case by (auto intro: reachable_by.rebuilt)
qed (simp_all add: validated_client.keepsD core_keeps)

lemma core_reachable_validated: "core_reachable c \<Longrightarrow> reachable_by validated (co_store c)"
proof (induction rule: core_reachable.induct)
  case start
  show ?case by (simp add: core_start_def reachable_fresh_store)
qed (rule core_step_validated)

text \<open>
  C3: Whatever sequence of public operations, restarts and rebuilds has run, and whether the
  operations succeeded or failed, the store is consistent as long as the log has fewer than
  \<open>2^64 - 1\<close> events: the views are exactly the fold of the log, every comment is in an existing
  review and in the thread it names, every thread's root and replies exist, and a thread is
  informational exactly when its root is.
\<close>

theorem core_consistent:
  assumes "core_reachable c" "store_len (co_store c) < 2 ^ 64 - 1"
  shows "foldR apply_event (events_after None (co_store c)) views_empty = Inr (st_views (co_store c))
    \<and> (\<forall>cm\<in>set (store_comments (co_store c) r).
        store_review (co_store c) r \<noteq> None
        \<and> (\<exists>th\<in>set (store_threads (co_store c) r).
             th_id th = cm_thread_id cm \<and> cm_id cm \<in> set (th_root th # th_replies th)))
    \<and> (\<forall>th\<in>set (store_threads (co_store c) r).
        (\<forall>x\<in>set (th_root th # th_replies th).
             \<exists>cm. store_comment (co_store c) r x = Some cm \<and> cm_thread_id cm = th_id th)
        \<and> (th_resolution th = Resolution_Informational \<longleftrightarrow>
             (\<exists>cm. store_comment (co_store c) r (th_root th) = Some cm \<and> cm_kind cm = Kind_Informational)))"
proof -
  have reach: "reachable_by validated (co_store c)" by (rule core_reachable_validated [OF assms(1)])
  have ok: "refs_ok (st_views (co_store c))" by (rule references.reachable_inv [OF reach assms(2)])
  have "log_inv (co_store c)" by (rule reachable_log_inv [OF reach assms(2)])
  then show ?thesis
    using thread_of_comment [OF ok] comments_of_thread [OF ok]
    by (simp add: log_inv_def events_after_None store_comments_def store_threads_def store_comment_def
        store_review_def)
qed

lemma sample_core_run: "core_reachable sample_core"
proof -
  let ?c1 = "snd (create_workspace_with_repo sample_env sample_ctx (WorkspaceId (Ulid 1 1)) (RepoId (Ulid 3 3)) ''/w'' ''w'' core_start)"
  have ok: "is_ok (fst (create_workspace_with_repo sample_env sample_ctx (WorkspaceId (Ulid 1 1)) (RepoId (Ulid 3 3)) ''/w'' ''w'' core_start))"
    by code_simp
  have run: "snd (bindO m (\<lambda>_. bindO n (\<lambda>_. retO ())) c) = snd (n (snd (m c)))" if "is_ok (fst (m c))"
    for m :: "'a op" and n :: "'b op" and c
    using that by (auto simp: bindO_def is_ok_iff split: prod.splits sum.splits)
  have "core_reachable ?c1" by (rule step [OF start workspace_with_repo])
  then have "core_reachable (snd (create_review sample_env sample_ctx (ReviewId (Ulid 2 2)) (WorkspaceId (Ulid 1 1)) ''t''
              [\<lparr>rt_repo_id = RepoId (Ulid 3 3), rt_base = RefSpec_Branch ''b'', rt_head = RefSpec_WorkingTree\<rparr>] ?c1))"
    by (rule step [OF _ review_created])
  then show ?thesis
    unfolding sample_core_def sample_start_def core_start_def [symmetric] by (simp only: run ok)
qed

theorem core_consistent_witness:
  "core_reachable (commented Kind_Note) \<and> store_len (co_store (commented Kind_Note)) = 5
   \<and> foldR apply_event (events_after None (co_store (commented Kind_Note))) views_empty
     = Inr (st_views (co_store (commented Kind_Note)))"
proof -
  have reach: "core_reachable (commented Kind_Note)"
    unfolding commented_def by (rule step [OF sample_core_run comment_added])
  show ?thesis using reach commented_len core_consistent [OF reach] by simp
qed

end
