(* ===== verification/Nits_Dispatch.thy ===== *)
theory Nits_Dispatch
  imports Nits_Client_Laws Nits_Core_Machine
begin

text \<open>
  How a mutation reaches the core: \<open>apply\<close> of \<open>crates/nitsd/src/dispatch.rs\<close> maps each mutation to a core
  operation, \<open>Daemon::write\<close> of \<open>crates/nitsd/src/daemon.rs\<close> runs it on the writer and publishes what it
  appended, and the response acknowledges the first of these events.
\<close>

section \<open>The writer\<close>

fun daemon_apply :: "env \<Rightarrow> ctx \<Rightarrow> mutation \<Rightarrow> unit op" where
  "daemon_apply E ctx (Mut_CreateWorkspace wid name) = bindO (create_workspace ctx wid name) (\<lambda>_. retO ())"
| "daemon_apply E ctx (Mut_RenameWorkspace wid name) = rename_workspace ctx wid name"
| "daemon_apply E ctx (Mut_AttachRepo wid repo_id path name) = bindO (attach_repo E ctx wid repo_id path name) (\<lambda>_. retO ())"
| "daemon_apply E ctx (Mut_DetachRepo wid repo_id) = detach_repo ctx wid repo_id"
| "daemon_apply E ctx (Mut_CreateReview review wid title targets) =
     bindO (create_review E ctx review wid title (ne_items targets)) (\<lambda>_. retO ())"
| "daemon_apply E ctx (Mut_UpdateReview review title status) = update_review E ctx review title status"
| "daemon_apply E ctx (Mut_UpdateReviewTarget review update) = update_review_target E ctx review update"
| "daemon_apply E ctx (Mut_DeleteReview review) = delete_review ctx review"
| "daemon_apply E ctx (Mut_AddComment review cid kind anchor body context) =
     bindO (add_comment E ctx review cid kind anchor body context) (\<lambda>_. retO ())"
| "daemon_apply E ctx (Mut_Reply review tid cid kind body) = bindO (reply ctx review tid cid kind body) (\<lambda>_. retO ())"
| "daemon_apply E ctx (Mut_EditComment review cid body) = edit_comment ctx review cid body"
| "daemon_apply E ctx (Mut_DeleteComment review cid) = delete_comment ctx review cid"
| "daemon_apply E ctx (Mut_DeferThread review tid reason url) = defer_thread ctx review tid reason url"
| "daemon_apply E ctx (Mut_ResolveThread review tid) = resolve_thread ctx review tid"
| "daemon_apply E ctx (Mut_UnresolveThread review tid) = unresolve_thread ctx review tid"
| "daemon_apply E ctx (Mut_MarkViewed review repo_id path) = bindO (mark_viewed E ctx review repo_id path) (\<lambda>_. retO ())"
| "daemon_apply E ctx (Mut_UnmarkViewed review repo_id path) = unmark_viewed ctx review repo_id path"
| "daemon_apply E ctx (Mut_RequestReview review agent note) = bindO (request_review E ctx review agent note) (\<lambda>_. retO ())"
| "daemon_apply E ctx (Mut_RecordCheckpoint review targets in_reply_to) =
     bindO (record_checkpoint E ctx review targets in_reply_to) (\<lambda>_. retO ())"
| "daemon_apply E ctx (Mut_ApplySuggestion review cid) = bindO (apply_suggestion E ctx review cid) (\<lambda>_. retO ())"

text \<open>
  The job on the writer thread: what the operation returned with the events it appended, the events that are
  published, whether it failed or not, and the core after it.
\<close>

definition daemon_write :: "'a op \<Rightarrow> core \<Rightarrow> (core_error, 'a \<times> event list) result \<times> event list \<times> core" where
  "daemon_write f c =
     (let before = last_seq (co_store c); (out, c') = f c; events = events_after before (co_store c')
      in (bindR out (\<lambda>x. Inr (x, events)), events, c'))"

datatype mutate_answer =
    Mutate_Committed event
  | Mutate_Refused core_error
  | Mutate_NoEvent

definition daemon_mutate :: "env \<Rightarrow> ctx \<Rightarrow> mutation \<Rightarrow> core \<Rightarrow> mutate_answer \<times> event list \<times> core" where
  "daemon_mutate E ctx m c =
     (let (result, published, c') = daemon_write (daemon_apply E ctx m) c
      in (case result of
            Inl e \<Rightarrow> Mutate_Refused e
          | Inr (_, []) \<Rightarrow> Mutate_NoEvent
          | Inr (_, event # _) \<Rightarrow> Mutate_Committed event, published, c'))"

text \<open>A run of the writer: its jobs one after another, with the answer and the publication of each.\<close>

fun daemon_run :: "(env \<times> ctx \<times> mutation) list \<Rightarrow> core \<Rightarrow> (mutate_answer \<times> event list) list \<times> core" where
  "daemon_run [] c = ([], c)"
| "daemon_run ((E, ctx, m) # jobs) c =
     (let (answer, published, c1) = daemon_mutate E ctx m c; (later, c2) = daemon_run jobs c1
      in ((answer, published) # later, c2))"

section \<open>Operations only append\<close>

definition extends :: "store \<Rightarrow> store \<Rightarrow> bool" where
  "extends s0 s \<longleftrightarrow> (\<exists>news. append_all (\<lambda>_ _. True) news s0 = Some s)"

lemma append_all_snoc:
  "append_all g news s0 = Some s \<Longrightarrow> g (st_views s) (event_at (next_seq s) new) \<Longrightarrow> append_event new s = Inr (e, s') \<Longrightarrow>
     append_all g (news @ [new]) s0 = Some s'"
  by (induction news arbitrary: s0) (auto split: if_splits sum.splits)

lemma extends_refl: "extends s s"
  by (auto simp: extends_def intro: exI [of _ "[]"])

interpretation extending: store_client "extends s0" "\<lambda>_ _. True" for s0
  by unfold_locales (auto simp: extends_def intro: append_all_snoc)

lemmas extends_rules = extending.keeps_readonly extending.keeps_append

lemma extends_workspace:
  "extending.keeps s0 (publish_attachment ctx wid rid o1 name)"
  "extending.keeps s0 (create_workspace ctx wid name)"
  "extending.keeps s0 (rename_workspace ctx wid name)"
  "extending.keeps s0 (detach_repo ctx wid rid)"
  unfolding publish_attachment_def create_workspace_def rename_workspace_def detach_repo_def Let_def
  by (intro extending.keeps_bindO; simp add: extends_rules)+

lemma extends_attach_repo: "extending.keeps s0 (attach_repo E ctx wid rid path name)"
  unfolding attach_repo_def
  by (intro extending.keeps_bindO) (simp_all add: extends_rules extends_workspace split: option.split)

lemma extends_reanchor_each: "extending.keeps s0 (reanchor_each E ctx review old new cache cs)"
proof (induction cs arbitrary: cache)
  case (Cons c cs)
  show ?case
    by (auto simp: Let_def extends_rules Cons.IH split: option.split reanchor.split intro!: extending.keeps_bindO)
qed (simp add: extends_rules)

lemma extends_record_resolved_targets: "extending.keeps s0 (record_resolved_targets E ctx rec targets)"
  unfolding record_resolved_targets_def reanchor_review_def
  by (auto simp: extends_rules extends_reanchor_each split: option.split intro!: extending.keeps_bindO)

lemma extends_resolve_targets: "extending.keeps s0 (resolve_targets E ctx rid)"
  unfolding resolve_targets_def
  by (intro extending.keeps_bindO) (simp_all add: extends_rules extends_record_resolved_targets)

lemma extends_create_review: "extending.keeps s0 (create_review E ctx rid wid title targets)"
  unfolding create_review_def Let_def
  by (intro extending.keeps_bindO extending.keeps_forO; simp add: extends_rules extends_resolve_targets readonly_forO split: prod.split)

lemma extends_update_review: "extending.keeps s0 (update_review E ctx rid title status)"
  unfolding update_review_def
  by (intro extending.keeps_bindO)
    (auto simp: extends_rules extends_record_resolved_targets split: option.split intro!: extending.keeps_bindO)

lemma extends_update_review_target: "extending.keeps s0 (update_review_target E ctx rid update)"
  unfolding update_review_target_def Let_def
  by (intro extending.keeps_bindO) (simp_all add: extends_rules extends_resolve_targets)

lemma extends_review_ops:
  "extending.keeps s0 (delete_review ctx rid)"
  "extending.keeps s0 (mark_viewed E ctx rid repo_id path)"
  "extending.keeps s0 (unmark_viewed ctx rid repo_id path)"
  "extending.keeps s0 (record_checkpoint E ctx rid targets in_reply_to)"
  unfolding delete_review_def mark_viewed_def unmark_viewed_def record_checkpoint_def
  by (intro extending.keeps_bindO extending.keeps_forO; simp add: extends_rules)+

lemma extends_comment_ops:
  "extending.keeps s0 (add_comment E ctx review cid kind anchor body place)"
  "extending.keeps s0 (reply ctx review tid cid kind body)"
  "extending.keeps s0 (edit_comment ctx review cid body)"
  "extending.keeps s0 (delete_comment ctx review cid)"
  "extending.keeps s0 (resolve_thread ctx review tid)"
  "extending.keeps s0 (unresolve_thread ctx review tid)"
  "extending.keeps s0 (request_review E ctx review agent note)"
  unfolding add_comment_def reply_def edit_comment_def delete_comment_def resolve_thread_def unresolve_thread_def
    request_review_def Let_def
  by (intro extending.keeps_bindO; simp add: extends_rules extends_record_resolved_targets)+

lemma extends_defer_thread: "extending.keeps s0 (defer_thread ctx review tid reason url)"
  unfolding defer_thread_def
  by (intro extending.keeps_bindO) (auto simp: extends_rules split: thread_resolution.split)

lemma extends_apply_suggestion: "extending.keeps s0 (apply_suggestion E ctx review cid)"
  unfolding apply_suggestion_def
  by (intro extending.keeps_bindO)
    (auto simp: extends_rules split: suggestion_outcome.split intro!: extending.keeps_bindO)

lemmas extends_ops = extends_workspace extends_attach_repo extends_create_review extends_update_review
  extends_update_review_target extends_review_ops extends_comment_ops extends_defer_thread extends_apply_suggestion

lemma extends_daemon_apply: "extending.keeps s0 (daemon_apply E ctx m)"
  by (cases m) (auto intro!: extending.keeps_bindO simp: extends_ops extends_rules)

lemma validated_daemon_apply: "validated_client.keeps (daemon_apply E ctx m)"
  by (cases m) (auto intro!: validated_client.keeps_bindO simp: core_keeps)

end
