(* ===== verification/Nits_Dispatch_Laws.thy ===== *)
theory Nits_Dispatch_Laws
  imports Nits_Dispatch
begin

text \<open>
  What the writer publishes is the log, and what the client shows before the daemon answered is what the
  daemon will commit.
\<close>

section \<open>Published is appended\<close>

lemma append_all_log:
  assumes "append_all g news s = Some s'" "log_inv s" "store_len s' < 2 ^ 64 - 1"
  shows "\<exists>es. log_events s' = log_events s @ es"
  using assms
proof (induction news arbitrary: s)
  case (Cons new news)
  obtain e s1 where app: "append_event new s = Inr (e, s1)" and rest: "append_all g news s1 = Some s'"
    using Cons.prems(1) by (auto split: if_splits sum.splits)
  have bound: "Suc (store_len s) < 2 ^ 64"
    using append_all_len [OF rest] append_store_len [OF app] Cons.prems(3) by simp
  have "log_events s1 = log_events s @ [e]"
    using append_entries [OF Cons.prems(2) bound app] by (simp add: log_events_def)
  moreover obtain es where "log_events s' = log_events s1 @ es"
    using Cons.IH [OF rest log_inv_append [OF Cons.prems(2) bound app] Cons.prems(3)] by blast
  ultimately show ?case by simp
qed simp

text \<open>One job: what it appended, which is what it publishes.\<close>

lemma write_publishes:
  assumes reach: "reachable_by validated (co_store c)" and job: "daemon_write f c = (result, published, c')"
    and grows: "\<And>s0. extending.keeps s0 f" and bound: "store_len (co_store c') < 2 ^ 64 - 1"
  shows "log_events (co_store c') = log_events (co_store c) @ published"
proof -
  let ?s = "co_store c" and ?s' = "co_store c'"
  have c': "c' = snd (f c)" and published: "published = events_after (last_seq ?s) ?s'"
    using job by (auto simp: daemon_write_def Let_def split: prod.splits)
  have "extends ?s ?s'" using extending.keepsD [OF grows [of ?s], of c] extends_refl by (simp add: c')
  then obtain news where news: "append_all (\<lambda>_ _. True) news ?s = Some ?s'" by (auto simp: extends_def)
  have len: "store_len ?s \<le> store_len ?s'" by (rule append_all_len [OF news])
  have inv: "log_inv ?s" using reachable_log_inv [OF reach] len bound by simp
  obtain es where es: "log_events ?s' = log_events ?s @ es" using append_all_log [OF news inv bound] by blast
  have any: "reachable ?s" by (rule reachable_by_mono [OF reach]) simp
  have inv': "log_inv ?s'"
    by (rule reachable_log_inv [OF append_all_reachable [OF news any] bound])
  have "last_seq ?s = (if store_len ?s = 0 then None else Some (of_nat (store_len ?s)))"
    using inv by (intro last_seq_of_keys) (simp add: log_inv_def)
  then have "published = drop (store_len ?s) (log_events ?s')"
    using events_after_drop [OF inv' _ len] bound by (auto simp: published events_after_None)
  then show ?thesis using es length_log_events [of ?s] by simp
qed

lemma mutate_publishes:
  assumes "reachable_by validated (co_store c)" "daemon_mutate E ctx m c = (answer, published, c')"
    and "store_len (co_store c') < 2 ^ 64 - 1"
  shows "reachable_by validated (co_store c') \<and> log_events (co_store c') = log_events (co_store c) @ published
    \<and> (\<forall>e. answer = Mutate_Committed e \<longrightarrow> published \<noteq> [] \<and> hd published = e)"
proof -
  obtain result where job: "daemon_write (daemon_apply E ctx m) c = (result, published, c')"
    and answer: "answer = (case result of Inl e \<Rightarrow> Mutate_Refused e | Inr (_, []) \<Rightarrow> Mutate_NoEvent | Inr (_, event # _) \<Rightarrow> Mutate_Committed event)"
    using assms(2) by (auto simp: daemon_mutate_def split: prod.splits)
  have "c' = snd (daemon_apply E ctx m c)" using job by (auto simp: daemon_write_def Let_def split: prod.splits)
  then have "reachable_by validated (co_store c')" using validated_client.keepsD [OF validated_daemon_apply assms(1)] by simp
  moreover have own: "result = Inr (x, es) \<Longrightarrow> es = published" for x es
    using job by (auto simp: daemon_write_def Let_def result_simps split: prod.splits)
  have "published \<noteq> [] \<and> hd published = e" if committed: "answer = Mutate_Committed e" for e
  proof -
    obtain x es where "result = Inr (x, e # es)"
      using committed unfolding answer by (simp split: sum.splits prod.splits list.splits)
    then show ?thesis using own by fastforce
  qed
  ultimately show ?thesis using write_publishes [OF assms(1) job extends_daemon_apply assms(3)] by simp
qed

lemma daemon_run_len: "daemon_run jobs c = (outs, c') \<Longrightarrow> store_len (co_store c) \<le> store_len (co_store c')"
proof (induction jobs arbitrary: c outs)
  case (Cons job jobs)
  obtain E ctx m where job: "job = (E, ctx, m)" by (cases job)
  obtain answer published c1 later where one: "daemon_mutate E ctx m c = (answer, published, c1)"
    and rest: "daemon_run jobs c1 = (later, c')"
    using Cons.prems by (auto simp: job split: prod.splits)
  have "c1 = snd (daemon_apply E ctx m c)"
    using one by (auto simp: daemon_mutate_def daemon_write_def Let_def split: prod.splits)
  then have "extends (co_store c) (co_store c1)"
    using extending.keepsD [OF extends_daemon_apply [of "co_store c" E ctx m], of c] extends_refl by simp
  then have "store_len (co_store c) \<le> store_len (co_store c1)" by (auto simp: extends_def dest: append_all_len)
  then show ?case using Cons.IH [OF rest] by simp
qed simp

text \<open>
  C13: What the writer publishes is the log: over any run of mutations of any callers, succeeding, refused
  or failing after they appended, the publications one after another are exactly the events the run added to
  the log, in order; a mutation is acknowledged with the first event it published itself.
\<close>

theorem writes_publish_log:
  assumes "reachable_by validated (co_store c)" "daemon_run jobs c = (outs, c')" "store_len (co_store c') < 2 ^ 64 - 1"
  shows "log_events (co_store c') = log_events (co_store c) @ concat (map snd outs)
    \<and> (\<forall>e published. (Mutate_Committed e, published) \<in> set outs \<longrightarrow> published \<noteq> [] \<and> hd published = e)"
  using assms
proof (induction jobs arbitrary: c outs)
  case (Cons job jobs)
  obtain E ctx m where job: "job = (E, ctx, m)" by (cases job)
  obtain answer published c1 later where one: "daemon_mutate E ctx m c = (answer, published, c1)"
    and rest: "daemon_run jobs c1 = (later, c')" and outs: "outs = (answer, published) # later"
    using Cons.prems(2) by (auto simp: job split: prod.splits)
  have bound: "store_len (co_store c1) < 2 ^ 64 - 1" using daemon_run_len [OF rest] Cons.prems(3) by simp
  note step = mutate_publishes [OF Cons.prems(1) one bound]
  show ?case using step Cons.IH [OF _ rest Cons.prems(3)] by (auto simp: outs)
qed simp

definition sample_jobs :: "(env \<times> ctx \<times> mutation) list" where
  "sample_jobs =
     [(sample_env, sample_ctx, Mut_RenameWorkspace (WorkspaceId (Ulid 1 1)) ''v''),
      (sample_env, sample_ctx, Mut_RenameWorkspace (WorkspaceId (Ulid 6 6)) ''v''),
      (sample_env, sample_ctx, Mut_MarkViewed (ReviewId (Ulid 2 2)) (RepoId (Ulid 3 3)) (RepoPath ''f''))]"

theorem writes_publish_log_witness:
  "\<exists>outs c'. daemon_run sample_jobs sample_core = (outs, c')
     \<and> map (\<lambda>(answer, published). (\<exists>e. answer = Mutate_Committed e, length published)) outs = [(True, 1), (False, 0), (True, 1)]
     \<and> log_events (co_store c') = log_events (co_store sample_core) @ concat (map snd outs)"
proof -
  obtain outs c' where run: "daemon_run sample_jobs sample_core = (outs, c')" by (cases "daemon_run sample_jobs sample_core")
  have "store_len (co_store (snd (daemon_run sample_jobs sample_core))) = 6" by code_simp
  then have len: "store_len (co_store c') < 2 ^ 64 - 1" by (simp add: run)
  have "map (\<lambda>(answer, published). (case answer of Mutate_Committed _ \<Rightarrow> True | _ \<Rightarrow> False, length published))
      (fst (daemon_run sample_jobs sample_core)) = [(True, 1), (False, 0), (True, 1)]"
    by code_simp
  moreover have "(case a of Mutate_Committed _ \<Rightarrow> True | _ \<Rightarrow> False) = (\<exists>e. a = Mutate_Committed e)" for a
    by (cases a) auto
  ultimately show ?thesis
    using writes_publish_log [OF sample_core_reachable run len] by (simp add: run)
qed

section \<open>The client's event is the daemon's\<close>

text \<open>
  The mutations whose event the client can foresee completely, on a review whose named comment is not
  deleted: the client looks for the comment among all comments, the daemon among those that are not deleted.
\<close>

definition not_deleted :: "review_snapshot \<Rightarrow> comment_id \<Rightarrow> bool" where
  "not_deleted sn cid \<longleftrightarrow> (case find_comment sn cid of Inr cm \<Rightarrow> cm_state cm \<noteq> State_Deleted | Inl _ \<Rightarrow> True)"

fun foreseen :: "review_snapshot \<Rightarrow> mutation \<Rightarrow> bool" where
  "foreseen sn (Mut_Reply review tid cid kind body) \<longleftrightarrow> review = rv_id (sn_review sn)
     \<and> (case find_thread sn tid of Inr th \<Rightarrow> not_deleted sn (th_root th) | Inl _ \<Rightarrow> True)"
| "foreseen sn (Mut_EditComment review cid body) \<longleftrightarrow> review = rv_id (sn_review sn) \<and> not_deleted sn cid"
| "foreseen sn (Mut_DeleteComment review cid) \<longleftrightarrow> review = rv_id (sn_review sn) \<and> not_deleted sn cid"
| "foreseen sn (Mut_DeferThread review tid reason url) \<longleftrightarrow> review = rv_id (sn_review sn)"
| "foreseen sn (Mut_ResolveThread review tid) \<longleftrightarrow> review = rv_id (sn_review sn)"
| "foreseen sn (Mut_UnresolveThread review tid) \<longleftrightarrow> review = rv_id (sn_review sn)"
| "foreseen sn m \<longleftrightarrow> False"

text \<open>What the client finds in its snapshot is what the daemon finds in its views.\<close>

lemma found:
  assumes "follows r sn (st_views s)" "keys_ok (st_views s)"
  shows "find_comment sn cid = ok_or (Local_UnknownComment cid) (store_comment s r cid)"
    and "find_thread sn tid = ok_or (Local_UnknownThread tid) (find (\<lambda>t. th_id t = tid) (store_threads s r))"
    and "load_thread q r tid (st_views s) = ok_or (Inconsistent q (UnknownThread tid r)) (find (\<lambda>t. th_id t = tid) (store_threads s r))"
    and "load_comment q r cid (st_views s) = ok_or (Inconsistent q (UnknownComment cid r)) (store_comment s r cid)"
  using rows_by_id(3) [OF follows_rows(3) [OF assms(1)], of cid] rows_by_id(4) [OF follows_rows(4) [OF assms(1)], of tid]
    find_thread [OF assms(2), of tid r]
  by (simp_all add: find_comment_def find_thread_def store_comment_def store_threads_def at_review_def
      load_comment_def load_thread_def)

text \<open>The daemon's operation refuses with the client, and otherwise appends the client's event.\<close>

lemma foreseen_operation:
  assumes "follows r sn (st_views (co_store c))" "keys_ok (st_views (co_store c))" "foreseen sn m"
    and "em_author meta = cx_author ctx" "em_ts meta = cx_now ctx"
  shows "case local_event sn meta m of
      Inl _ \<Rightarrow> \<exists>err. daemon_apply E ctx m c = (Inl err, c)
    | Inr body \<Rightarrow> daemon_apply E ctx m c = bindO (core_append ctx body) (\<lambda>_. retO ()) c"
proof -
  note found = found [OF assms(1,2)] and r = follows_rows(1) [OF assms(1)]
  note ops = reply_def edit_comment_def delete_comment_def defer_thread_def resolve_thread_def unresolve_thread_def
    core_comment_def core_thread_def is_resolved_def not_deleted_def bindO_def readO_def guardO_def retO_def failO_def Let_def
  show ?thesis
  proof (cases m)
    case (Mut_Reply review tid cid kind body)
    then show ?thesis
      using assms r by (cases "store_comment (co_store c) r cid"; cases "find (\<lambda>t. th_id t = tid) (store_threads (co_store c) r)")
        (auto simp: found ops split: option.splits prod.splits sum.splits)
  next
    case (Mut_EditComment review cid body)
    then show ?thesis using assms r by (cases "store_comment (co_store c) r cid") (auto simp: found ops)
  next
    case (Mut_DeleteComment review cid)
    then show ?thesis using assms r by (cases "store_comment (co_store c) r cid") (auto simp: found ops)
  next
    case (Mut_DeferThread review tid reason url)
    then show ?thesis
      using assms r by (cases "find (\<lambda>t. th_id t = tid) (store_threads (co_store c) r)") (auto simp: found ops split: thread_resolution.splits)
  next
    case (Mut_ResolveThread review tid)
    then show ?thesis
      using assms r by (cases "find (\<lambda>t. th_id t = tid) (store_threads (co_store c) r)") (auto simp: found ops split: thread_resolution.splits)
  next
    case (Mut_UnresolveThread review tid)
    then show ?thesis
      using assms r by (cases "find (\<lambda>t. th_id t = tid) (store_threads (co_store c) r)") (auto simp: found ops split: thread_resolution.splits)
  qed (use assms(3) in simp_all)
qed

text \<open>The store takes the client's event.\<close>

lemma foreseen_appends:
  assumes "follows r sn (st_views (co_store c))" "keys_ok (st_views (co_store c))" "foreseen sn m"
    and "local_event sn meta m = Inr body"
  shows "\<exists>e s. core_append ctx body c = (Inr e, c\<lparr>co_store := s\<rparr>)
    \<and> append_event \<lparr>ne_ts = cx_now ctx, ne_author = cx_author ctx, ne_client_id = cx_client_id ctx,
        ne_client_seq = cx_client_seq ctx, ne_body = body\<rparr> (co_store c) = Inr (e, s)"
proof -
  let ?r = "rv_id (sn_review sn)" and ?t = "st_views (co_store c)"
  let ?th = "\<lambda>tid. find (\<lambda>t. th_id t = tid) (store_threads (co_store c) ?r)"
  have follows: "follows ?r sn ?t" using assms(1) follows_rows(1) [OF assms(1)] by simp
  note found = found [OF follows assms(2)]
  have review: "\<exists>rec. load_review q ?r ?t = Inr rec" for q
    using follows_rows(2) [OF follows] by (auto simp: review_row_def load_review_def)
  have thread: "tbl_get (v_threads ?t) (review_key ?r, thread_key tid) = ?th tid" for tid
    using find_thread [OF assms(2), of tid ?r] by (simp add: store_threads_def)
  have reply: "\<exists>u. comment_created q cm ?t = Inr u" if "cm_review_id cm = ?r" "?th (cm_thread_id cm) \<noteq> None" for q cm
    using review [of q] that by (auto simp: comment_created_def thread_with_comment_def thread result_simps)
  have "\<exists>u. apply_body e body ?t = Inr u" for e
  proof (cases m)
    case (Mut_Reply review tid cid kind words)
    then show ?thesis using assms(3,4) by (auto simp: found result_simps split: if_splits intro!: reply)
  next
    case (Mut_DeferThread review tid reason url)
    then show ?thesis using assms(3,4)
      by (cases "?th tid"; cases "th_resolution (the (?th tid))") (auto simp: found set_resolution_def)
  next
    case (Mut_ResolveThread review tid)
    then show ?thesis using assms(3,4)
      by (cases "?th tid"; cases "th_resolution (the (?th tid))") (auto simp: found set_resolution_def)
  next
    case (Mut_UnresolveThread review tid)
    then show ?thesis using assms(3,4)
      by (cases "?th tid"; cases "th_resolution (the (?th tid))") (auto simp: found set_resolution_def)
  qed (use assms(3,4) in \<open>auto simp: found result_simps split: if_splits\<close>)
  then have "\<exists>e s. append_event \<lparr>ne_ts = cx_now ctx, ne_author = cx_author ctx, ne_client_id = cx_client_id ctx,
        ne_client_seq = cx_client_seq ctx, ne_body = body\<rparr> (co_store c) = Inr (e, s)"
    by (auto simp: append_Inr_iff apply_event_def event_at_def)
  then show ?thesis by (auto simp: core_append_Inr)
qed

text \<open>Events that fold the same whether they are committed or provisional.\<close>

fun unnumbered :: "event_body \<Rightarrow> bool" where
  "unnumbered (SuggestionApplied review cid repo_id path blob) \<longleftrightarrow> False"
| "unnumbered (ReviewRequested review agent note targets comparison) \<longleftrightarrow> False"
| "unnumbered (ReviewChecked review reviewer targets in_reply_to) \<longleftrightarrow> False"
| "unnumbered body \<longleftrightarrow> True"

lemma fold_unnumbered:
  "unnumbered (ev_body e) \<Longrightarrow> fold_event e sn = fold_body \<lparr>em_author = ev_author e, em_ts = ev_ts e\<rparr> (ev_body e) sn"
  by (cases "ev_body e") (simp_all add: fold_event_def note_checkpoint_def note_request_def note_suggestion_def
      checkpoint_from_event_def request_from_event_def)

lemma foreseen_unnumbered:
  assumes "foreseen sn m" "local_event sn meta m = Inr body"
  shows "unnumbered body"
proof (cases m)
  case (Mut_DeferThread review tid reason url)
  then show ?thesis using assms by (cases "find_thread sn tid"; cases "th_resolution (projr (find_thread sn tid))") auto
next
  case (Mut_ResolveThread review tid)
  then show ?thesis using assms by (cases "find_thread sn tid"; cases "th_resolution (projr (find_thread sn tid))") auto
next
  case (Mut_UnresolveThread review tid)
  then show ?thesis using assms by (cases "find_thread sn tid"; cases "th_resolution (projr (find_thread sn tid))") auto
qed (use assms in \<open>auto simp: result_simps split: if_splits\<close>)

text \<open>The snapshot of the sample review with its one comment.\<close>

definition sample_snapshot :: review_snapshot where
  "sample_snapshot =
     \<lparr>sn_review =
        \<lparr>rv_id = ReviewId (Ulid 2 2), rv_workspace_id = WorkspaceId (Ulid 1 1), rv_title = ''t'',
         rv_targets = NonEmpty [\<lparr>rt_repo_id = RepoId (Ulid 3 3), rt_base = RefSpec_Branch ''b'', rt_head = RefSpec_WorkingTree\<rparr>],
         rv_created = 5, rv_status = Status_Open\<rparr>,
      sn_resolved = Some (NonEmpty
        [\<lparr>rs_repo_id = RepoId (Ulid 3 3), rs_base = \<lparr>rr_tree = TreeOid (Oid [1]), rr_source = Source_Commit (CommitOid (Oid [2]))\<rparr>,
          rs_head = \<lparr>rr_tree = TreeOid (Oid [1]), rr_source = Source_Commit (CommitOid (Oid [2]))\<rparr>\<rparr>]),
      sn_threads =
        [\<lparr>th_id = ThreadId (Ulid 4 4), th_review_id = ReviewId (Ulid 2 2), th_root = CommentId (Ulid 4 4), th_replies = [],
          th_resolution = Resolution_Open\<rparr>],
      sn_comments =
        [\<lparr>cm_id = CommentId (Ulid 4 4), cm_review_id = ReviewId (Ulid 2 2), cm_thread_id = ThreadId (Ulid 4 4),
          cm_author = Author_Human ''ada'' ''m'', cm_kind = Kind_Note,
          cm_anchor = Anchor_File (RepoId (Ulid 3 3)) (RepoPath ''f'') (BlobOid (Oid [7])), cm_body = ''n'', cm_created = 5,
          cm_edited = None, cm_state = State_Live, cm_context = None\<rparr>],
      sn_suggestions = [], sn_viewed = [], sn_requests = [], sn_checkpoints = [], sn_seq = 5\<rparr>"

lemma commented_snapshot: "snapshot_in_transaction (co_store (commented Kind_Note)) (ReviewId (Ulid 2 2)) = Some sample_snapshot"
  by code_simp

text \<open>With one clock, what the client foresees is what the daemon commits.\<close>

lemma foresees_on_time:
  assumes "reachable_by validated (co_store c)" "store_len (co_store c) < 2 ^ 64 - 2"
    and "follows r sn (st_views (co_store c))" "foreseen sn m"
    and "em_author meta = cx_author ctx" "em_ts meta = cx_now ctx"
  shows "case local_event sn meta m of
      Inl _ \<Rightarrow> \<exists>err. daemon_mutate E ctx m c = (Mutate_Refused err, [], c)
    | Inr body \<Rightarrow> \<exists>e c'. daemon_mutate E ctx m c = (Mutate_Committed e, [e], c') \<and> ev_body e = body
        \<and> ev_author e = cx_author ctx \<and> ev_ts e = cx_now ctx \<and> fold_event e sn = fold_body meta body sn"
proof -
  let ?s = "co_store c"
  have keys: "keys_ok (st_views ?s)" by (rule reachable_keys [OF assms(1)])
  have inv: "log_inv ?s" using reachable_log_inv [OF assms(1)] assms(2) by simp
  have last: "last_seq ?s = (if store_len ?s = 0 then None else Some (of_nat (store_len ?s)))"
    using inv by (intro last_seq_of_keys) (simp add: log_inv_def)
  note operation = foreseen_operation [OF assms(3) keys assms(4-6), of E]
  show ?thesis
  proof (cases "local_event sn meta m")
    case (Inl e)
    then obtain err where "daemon_apply E ctx m c = (Inl err, c)" using operation by auto
    moreover have "events_after (last_seq ?s) ?s = []"
      using events_after_drop [OF inv _ le_refl] assms(2) length_log_events [of ?s]
      by (cases "store_len ?s = 0") (simp_all add: last events_after_None)
    ultimately show ?thesis using Inl by (simp add: daemon_mutate_def daemon_write_def Let_def)
  next
    case (Inr body)
    obtain e s where run: "core_append ctx body c = (Inr e, c\<lparr>co_store := s\<rparr>)"
      and app: "append_event \<lparr>ne_ts = cx_now ctx, ne_author = cx_author ctx, ne_client_id = cx_client_id ctx,
        ne_client_seq = cx_client_seq ctx, ne_body = body\<rparr> ?s = Inr (e, s)"
      using foreseen_appends [OF assms(3) keys assms(4) Inr] by blast
    have e: "ev_body e = body" "ev_author e = em_author meta" "ev_ts e = em_ts meta"
      using app assms(5,6) by (auto simp: append_Inr_iff event_at_def)
    have job: "daemon_mutate E ctx m c = (answer, published, c')
      \<Longrightarrow> c' = c\<lparr>co_store := s\<rparr> \<and> answer = (case published of [] \<Rightarrow> Mutate_NoEvent | x # _ \<Rightarrow> Mutate_Committed x)"
      for answer published c'
      using operation Inr run by (auto simp: daemon_mutate_def daemon_write_def Let_def)
    obtain answer published c' where mutate: "daemon_mutate E ctx m c = (answer, published, c')"
      by (cases "daemon_mutate E ctx m c")
    have logs: "log_events s = log_events ?s @ [e]"
      using append_entries [OF inv _ app] assms(2) by (simp add: log_events_def)
    then have "store_len s = Suc (store_len ?s)" by (metis length_append_singleton length_log_events)
    then have "log_events ?s @ published = log_events ?s @ [e]"
      using mutate_publishes [OF assms(1) mutate] job [OF mutate] assms(2) logs by simp
    then have "daemon_mutate E ctx m c = (Mutate_Committed e, [e], c')" using job [OF mutate] mutate by simp
    moreover have "\<lparr>em_author = ev_author e, em_ts = ev_ts e\<rparr> = meta" using e by (cases meta) simp
    then have "fold_event e sn = fold_body meta body sn"
      using fold_unnumbered [of e sn] foreseen_unnumbered [OF assms(4) Inr] e(1) by simp
    ultimately show ?thesis using Inr e assms(5,6) by auto
  qed
qed

text \<open>
  The client and the daemon have each their clock: the event body with the time of another clock, and what is
  shown with its times left out - when a comment was made and edited, and when a thread was resolved or
  deferred.
\<close>

fun at_time :: "timestamp \<Rightarrow> event_body \<Rightarrow> event_body" where
  "at_time t (CommentCreated comment) = CommentCreated (comment\<lparr>cm_created := t\<rparr>)"
| "at_time t body = body"

definition timeless_comment :: "comment \<Rightarrow> comment" where
  "timeless_comment x = x\<lparr>cm_created := 0, cm_edited := map_option (\<lambda>_. 0) (cm_edited x)\<rparr>"

fun timeless_resolution :: "thread_resolution \<Rightarrow> thread_resolution" where
  "timeless_resolution (Resolution_Deferred reason url by_whom _) = Resolution_Deferred reason url by_whom 0"
| "timeless_resolution (Resolution_Resolved by_whom _) = Resolution_Resolved by_whom 0"
| "timeless_resolution resolution = resolution"

definition timeless :: "review_snapshot \<Rightarrow> review_snapshot" where
  "timeless sn = sn\<lparr>sn_comments := map timeless_comment (sn_comments sn),
     sn_threads := map (\<lambda>th. th\<lparr>th_resolution := timeless_resolution (th_resolution th)\<rparr>) (sn_threads sn)\<rparr>"

lemma local_event_time:
  "em_author meta = em_author meta' \<Longrightarrow> foreseen sn m \<Longrightarrow>
     local_event sn meta' m = map_sum id (at_time (em_ts meta')) (local_event sn meta m)"
  by (cases m) (auto simp: bindR_def split: sum.split thread_resolution.split)

lemma update_first_timeless:
  "(\<And>x. P x \<Longrightarrow> h (f x) = h (g x)) \<Longrightarrow> map h (update_first P f xs) = map h (update_first P g xs)"
  by (induction xs) simp_all

lemma fold_timeless:
  assumes "em_author meta = em_author meta'" "unnumbered body"
  shows "fst (fold_body meta' (at_time t body) sn) = fst (fold_body meta body sn)"
    and "timeless (snd (fold_body meta' (at_time t body) sn)) = timeless (snd (fold_body meta body sn))"
proof -
  have times:
    "map timeless_comment (update_first P (\<lambda>x. x\<lparr>cm_body := words, cm_edited := Some (em_ts meta')\<rparr>) xs)
      = map timeless_comment (update_first P (\<lambda>x. x\<lparr>cm_body := words, cm_edited := Some (em_ts meta)\<rparr>) xs)"
    "map (\<lambda>th. th\<lparr>th_resolution := timeless_resolution (th_resolution th)\<rparr>)
        (update_first Q (\<lambda>th. th\<lparr>th_resolution := Resolution_Deferred reason url by_whom (em_ts meta')\<rparr>) ths)
      = map (\<lambda>th. th\<lparr>th_resolution := timeless_resolution (th_resolution th)\<rparr>)
          (update_first Q (\<lambda>th. th\<lparr>th_resolution := Resolution_Deferred reason url by_whom (em_ts meta)\<rparr>) ths)"
    "map (\<lambda>th. th\<lparr>th_resolution := timeless_resolution (th_resolution th)\<rparr>)
        (update_first Q (\<lambda>th. th\<lparr>th_resolution := Resolution_Resolved by_whom (em_ts meta')\<rparr>) ths)
      = map (\<lambda>th. th\<lparr>th_resolution := timeless_resolution (th_resolution th)\<rparr>)
          (update_first Q (\<lambda>th. th\<lparr>th_resolution := Resolution_Resolved by_whom (em_ts meta)\<rparr>) ths)"
    for P Q words reason url by_whom and xs :: "comment list" and ths :: "thread list"
    by (intro update_first_timeless; simp add: timeless_comment_def)+
  have "fst (fold_body meta' (at_time t body) sn) = fst (fold_body meta body sn)
      \<and> timeless (snd (fold_body meta' (at_time t body) sn)) = timeless (snd (fold_body meta body sn))"
  proof (cases body)
    case (CommentCreated comment)
    have "suggestion_from_created (comment\<lparr>cm_created := t\<rparr>) = suggestion_from_created comment"
      by (simp add: suggestion_from_created_def split: comment_kind.split comment_state.split)
    then show ?thesis
      by (simp add: CommentCreated fold_body_def created_locally_def timeless_def timeless_comment_def cong: if_cong)
  qed (use assms in \<open>auto simp: fold_body_def edit_comment_of_def resolve_thread_of_def timeless_def times
      split: option.split\<close>)
  then show "fst (fold_body meta' (at_time t body) sn) = fst (fold_body meta body sn)"
    and "timeless (snd (fold_body meta' (at_time t body) sn)) = timeless (snd (fold_body meta body sn))" by simp_all
qed

text \<open>
  C7: The client foresees the daemon: for a reply, an edit, a deletion and each change of a thread's
  resolution, made by the author of the connection on a snapshot that follows the daemon's views, and on a
  comment that is not deleted, the client refuses exactly what the daemon refuses, which then changes and
  publishes nothing; otherwise the daemon commits and publishes the one event the client foresaw, stamped
  with the daemon's clock instead of the client's. Folding it touches the same parts of the view and gives
  the snapshot the client already shows, but for the times in it; if both clocks say the same, it is that
  snapshot.
\<close>

theorem client_foresees_daemon:
  assumes "reachable_by validated (co_store c)" "store_len (co_store c) < 2 ^ 64 - 2"
    and "follows r sn (st_views (co_store c))" "foreseen sn m" "em_author meta = cx_author ctx"
  shows "case local_event sn meta m of
      Inl _ \<Rightarrow> \<exists>err. daemon_mutate E ctx m c = (Mutate_Refused err, [], c)
    | Inr body \<Rightarrow> \<exists>e c'. daemon_mutate E ctx m c = (Mutate_Committed e, [e], c') \<and> ev_body e = at_time (cx_now ctx) body
        \<and> ev_author e = cx_author ctx \<and> ev_ts e = cx_now ctx
        \<and> fst (fold_event e sn) = fst (fold_body meta body sn)
        \<and> timeless (snd (fold_event e sn)) = timeless (snd (fold_body meta body sn))
        \<and> (em_ts meta = cx_now ctx \<longrightarrow> ev_body e = body \<and> fold_event e sn = fold_body meta body sn)"
proof -
  let ?meta = "\<lparr>em_author = cx_author ctx, em_ts = cx_now ctx\<rparr>"
  have on_time: "local_event sn ?meta m = map_sum id (at_time (cx_now ctx)) (local_event sn meta m)"
    using local_event_time [of meta ?meta sn m] assms(4,5) by simp
  note foresees = foresees_on_time [OF assms(1-4), of ?meta ctx E]
  show ?thesis
  proof (cases "local_event sn meta m")
    case (Inl e)
    then show ?thesis using foresees on_time by simp
  next
    case (Inr body)
    have "unnumbered body" by (rule foreseen_unnumbered [OF assms(4) Inr])
    note same = fold_timeless [of meta ?meta, OF _ this]
    have meta: "?meta = meta" if "em_ts meta = cx_now ctx" using that assms(5) by (cases meta) simp
    then have "at_time (cx_now ctx) body = body" if "em_ts meta = cx_now ctx" using on_time Inr that by simp
    moreover obtain e c' where run: "daemon_mutate E ctx m c = (Mutate_Committed e, [e], c')" "ev_body e = at_time (cx_now ctx) body"
      "ev_author e = cx_author ctx" "ev_ts e = cx_now ctx" and fold: "fold_event e sn = fold_body ?meta (at_time (cx_now ctx) body) sn"
      using foresees on_time Inr by auto
    ultimately have "em_ts meta = cx_now ctx \<longrightarrow> ev_body e = body \<and> fold_event e sn = fold_body meta body sn" using meta by simp
    then show ?thesis using run same assms(5) by (auto simp: Inr fold)
  qed
qed

theorem client_foresees_daemon_witness:
  "\<exists>sn e c'. snapshot_in_transaction (co_store (commented Kind_Note)) (ReviewId (Ulid 2 2)) = Some sn
     \<and> daemon_mutate sample_env sample_ctx (Mut_EditComment (ReviewId (Ulid 2 2)) (CommentId (Ulid 4 4)) ''b'') (commented Kind_Note)
       = (Mutate_Committed e, [e], c')
     \<and> ev_body e = CommentEdited (ReviewId (Ulid 2 2)) (CommentId (Ulid 4 4)) ''b'' \<and> ev_ts e = cx_now sample_ctx
     \<and> timeless (snd (fold_event e sn)) = timeless (snd (fold_body \<lparr>em_author = cx_author sample_ctx, em_ts = cx_now sample_ctx + 1\<rparr> (ev_body e) sn))"
proof -
  let ?c = "commented Kind_Note" and ?r = "ReviewId (Ulid 2 2)" and ?i = "CommentId (Ulid 4 4)"
  let ?meta = "\<lparr>em_author = cx_author sample_ctx, em_ts = cx_now sample_ctx + 1\<rparr>" and ?m = "Mut_EditComment ?r ?i ''b''"
  let ?sn = sample_snapshot
  have sn: "snapshot_in_transaction (co_store ?c) ?r = Some ?sn" by (rule commented_snapshot)
  have local: "foreseen ?sn ?m" "local_event ?sn ?meta ?m = Inr (CommentEdited ?r ?i ''b'')" by code_simp+
  have len: "store_len (co_store ?c) < 2 ^ 64 - 2" by (simp add: commented_len)
  have follows: "follows ?r ?sn (st_views (co_store ?c))"
    by (rule snapshot_follows [OF reachable_keys [OF commented_reachable] sn])
  show ?thesis
    using client_foresees_daemon [OF commented_reachable len follows local(1), of ?meta sample_ctx sample_env] sn local(2)
    by (auto simp del: foreseen.simps local_event.simps)
qed

end
