(* ===== verification/Nits_Client_Sync_Laws.thy ===== *)
theory Nits_Client_Sync_Laws
  imports Nits_Client_Sync Nits_Dispatch_Laws
begin

text \<open>
  What the client shows: the committed snapshot with its pending mutations on top, after every input.
\<close>

section \<open>What is shown\<close>

definition mirrored :: "pending list \<Rightarrow> (client_seq \<times> event_body) list" where
  "mirrored ps = map (\<lambda>p. (pd_client_seq p, pd_body p)) ps"

definition shows_pending :: "client \<Rightarrow> bool" where
  "shows_pending c \<longleftrightarrow>
     (case (cl_open c, cl_committed c) of
        (Some op, Some sn) \<Rightarrow>
          op_snapshot op = snd (fold_pending (cf_author (cl_config c)) (cl_pending c) sn) \<and> op_pending op = mirrored (cl_pending c)
      | (None, None) \<Rightarrow> cl_pending c = [] \<and> cl_draft c = None
      | _ \<Rightarrow> False)"

text \<open>Held back are refreshes of the open review, and events are kept for requests in flight.\<close>

definition holds_back :: "client \<Rightarrow> bool" where
  "holds_back c \<longleftrightarrow>
     (\<forall>e\<in>set (cl_deferred c). is_resolved_body (ev_body e)
        \<and> body_review_id (ev_body e) = map_option (\<lambda>sn. rv_id (sn_review sn)) (cl_committed c))
     \<and> dom (cl_snapshot_events c) \<subseteq> dom (cl_in_flight c)"

definition consistent :: "client \<Rightarrow> bool" where
  "consistent c \<longleftrightarrow> holds_back c \<and> shows_pending c"

text \<open>Both open and committed, of one review, or neither.\<close>

definition paired :: "client \<Rightarrow> bool" where
  "paired c \<longleftrightarrow>
     (case (cl_open c, cl_committed c) of
        (Some op, Some sn) \<Rightarrow> rv_id (sn_review (op_snapshot op)) = rv_id (sn_review sn)
      | (None, None) \<Rightarrow> cl_pending c = [] \<and> cl_draft c = None
      | _ \<Rightarrow> False)"

lemma fold_body_review: "rv_id (sn_review (snd (fold_body meta body sn))) = rv_id (sn_review sn)"
  by (cases body) (simp_all add: fold_body_def edit_comment_of_def resolve_thread_of_def created_locally_def split: option.split)

lemma fold_pending_review: "rv_id (sn_review (snd (fold_pending author ps sn))) = rv_id (sn_review sn)"
proof (induction ps arbitrary: sn)
  case (Cons p ps)
  then show ?case using fold_body_review [of "\<lparr>em_author = author, em_ts = pd_ts p\<rparr>" "pd_body p" sn]
    by (simp add: Let_def split: prod.split) (metis snd_conv)
qed simp

lemma fold_event_review: "rv_id (sn_review (snd (fold_event e sn))) = rv_id (sn_review sn)"
  by (simp add: fold_event_def fold_body_review note_checkpoint_def note_request_def note_suggestion_def
      split: option.split event_body.split)

lemma shows_paired: "shows_pending c \<Longrightarrow> paired c"
  by (auto simp: shows_pending_def paired_def fold_pending_review split: option.splits)

text \<open>Delivery marks do not show.\<close>

lemma fold_pending_map:
  "(\<And>p. pd_ts (f p) = pd_ts p \<and> pd_body (f p) = pd_body p) \<Longrightarrow> fold_pending author (map f ps) sn = fold_pending author ps sn"
  by (induction ps arbitrary: sn) (simp_all add: Let_def)

lemma mirrored_map: "(\<And>p. pd_client_seq (f p) = pd_client_seq p \<and> pd_body (f p) = pd_body p) \<Longrightarrow> mirrored (map f ps) = mirrored ps"
  by (simp add: mirrored_def comp_def)

lemma rebase_fields [simp]:
  "cl_config (snd (rebase c)) = cl_config c" "cl_connection (snd (rebase c)) = cl_connection c"
  "cl_pending (snd (rebase c)) = cl_pending c" "cl_committed (snd (rebase c)) = cl_committed c"
  "cl_draft (snd (rebase c)) = cl_draft c" "cl_deferred (snd (rebase c)) = cl_deferred c"
  "cl_recovery (snd (rebase c)) = cl_recovery c" "cl_now (snd (rebase c)) = cl_now c"
  "cl_snapshot_events (snd (rebase c)) = cl_snapshot_events c" "cl_in_flight (snd (rebase c)) = cl_in_flight c"
  by (simp_all add: rebase_def Let_def split: option.split prod.split)

lemma rebase_shows: "paired c \<Longrightarrow> shows_pending (snd (rebase c))"
  by (auto simp: paired_def shows_pending_def rebase_def mirrored_def split: option.splits prod.split)

lemma rebase_consistent: "paired c \<Longrightarrow> holds_back c \<Longrightarrow> consistent (snd (rebase c))"
  by (simp add: consistent_def rebase_shows) (simp add: holds_back_def)

section \<open>Every operation keeps it\<close>

definition same_sync :: "client \<Rightarrow> client \<Rightarrow> bool" where
  "same_sync c c' \<longleftrightarrow> cl_open c' = cl_open c \<and> cl_committed c' = cl_committed c \<and> cl_pending c' = cl_pending c
     \<and> cl_config c' = cl_config c \<and> cl_draft c' = cl_draft c \<and> cl_deferred c' = cl_deferred c
     \<and> (dom (cl_snapshot_events c) \<subseteq> dom (cl_in_flight c) \<longrightarrow> dom (cl_snapshot_events c') \<subseteq> dom (cl_in_flight c'))"

lemma same_sync_refl [simp]: "same_sync c c"
  by (simp add: same_sync_def)

lemma same_sync_trans: "same_sync a b \<Longrightarrow> same_sync b c \<Longrightarrow> same_sync a c"
  by (simp add: same_sync_def)

lemma consistent_same: "same_sync c c' \<Longrightarrow> consistent c \<Longrightarrow> consistent c'"
  by (cases "cl_open c"; cases "cl_committed c")
    (simp_all add: same_sync_def consistent_def holds_back_def shows_pending_def)

lemma send_same: "same_sync c (snd (send_request req waiting c))"
  by (auto simp: same_sync_def send_request_def Let_def split: option.splits)

lemma sends_same: "same_sync c (snd (send_requests reqs c))"
proof (induction reqs arbitrary: c)
  case (Cons r reqs)
  obtain req waiting where r: "r = (req, waiting)" by (cases r)
  have "same_sync c (snd (send_requests reqs (snd (send_request req waiting c))))"
    by (rule same_sync_trans [OF send_same Cons.IH])
  then show ?case by (simp add: r Let_def split: prod.split) (metis snd_conv)
qed (simp add: same_sync_def)

lemmas send_consistent = consistent_same [OF send_same]
lemmas sends_consistent = consistent_same [OF sends_same]

lemma mutate_with_consistent: "consistent c \<Longrightarrow> cl_open c \<noteq> None \<Longrightarrow> consistent (snd (mutate_with m body c))"
proof -
  assume c: "consistent c" "cl_open c \<noteq> None"
  let ?p = "\<lparr>pd_client_seq = cl_next_client_seq c, pd_ts = em_ts (meta_now c), pd_mutation = m, pd_body = body, pd_delivery = AwaitingReceipt\<rparr>"
  let ?c1 = "c\<lparr>cl_next_client_seq := client_seq_next (cl_next_client_seq c), cl_pending := cl_pending c @ [?p]\<rparr>"
  obtain send c2 where send: "send_request (Req_Mutate (cl_next_client_seq c) m) (Flight_Mutate (cl_next_client_seq c)) ?c1 = (send, c2)"
    by (cases "send_request (Req_Mutate (cl_next_client_seq c) m) (Flight_Mutate (cl_next_client_seq c)) ?c1")
  have "paired c" using c shows_paired by (simp add: consistent_def)
  moreover have same: "same_sync ?c1 c2" using send_same [of ?c1] send by (metis snd_conv)
  ultimately have "paired c2" using c(2) by (auto simp: same_sync_def paired_def split: option.splits)
  moreover have "holds_back c2" using same c(1) by (simp add: same_sync_def consistent_def holds_back_def)
  ultimately have "consistent (snd (rebase c2))" by (rule rebase_consistent)
  then show ?thesis using send by (simp add: mutate_with_def Let_def case_prod_unfold)
qed

lemma mutate_consistent: "consistent c \<Longrightarrow> consistent (snd (mutate m c))"
  using mutate_with_consistent [of c m]
  by (auto simp: mutate_def Let_def result_simps split: sum.split prod.split) (metis option.distinct(1) snd_conv)+

lemma close_consistent: "holds_back c \<Longrightarrow> consistent (close_review c)"
  by (simp add: consistent_def holds_back_def shows_pending_def close_review_def)

text \<open>Lists of reviews and workspaces, and a deleted review.\<close>

lemma note_event_deleted:
  "snd (note_event (ReviewDeleted review) c) =
     (let c1 = c\<lparr>cl_reviews := filter (\<lambda>r. rv_id r \<noteq> review) (cl_reviews c)\<rparr>
      in if open_is review c then close_review c1 else c1)"
  by (simp add: Let_def open_is_def)

lemma note_event_steady: "\<forall>review. body \<noteq> ReviewDeleted review \<Longrightarrow> same_sync c (snd (note_event body c))"
  by (cases body) (simp_all add: same_sync_def split: option.split)

lemma note_event_in_flight [simp]:
  "cl_snapshot_events (snd (note_event body c)) = cl_snapshot_events c" "cl_in_flight (snd (note_event body c)) = cl_in_flight c"
  "cl_connection (snd (note_event body c)) = cl_connection c" "cl_config (snd (note_event body c)) = cl_config c"
  "cl_recovery (snd (note_event body c)) = cl_recovery c" "cl_now (snd (note_event body c)) = cl_now c"
  by (cases body; simp add: close_review_def Let_def split: option.split)+

lemma note_event_consistent: "consistent c \<Longrightarrow> consistent (snd (note_event body c))"
proof (cases "\<exists>review. body = ReviewDeleted review")
  case True
  then obtain review where body: "body = ReviewDeleted review" by blast
  assume c: "consistent c"
  let ?c1 = "c\<lparr>cl_reviews := filter (\<lambda>r. rv_id r \<noteq> review) (cl_reviews c)\<rparr>"
  have "consistent ?c1" by (rule consistent_same [OF _ c]) (simp add: same_sync_def)
  then show ?thesis using close_consistent [of ?c1] by (simp add: body note_event_deleted Let_def consistent_def del: note_event.simps)
qed (auto intro: consistent_same [OF note_event_steady])

lemma supersede_dom [simp]: "dom (cl_in_flight (supersede_opening review c)) = dom (cl_in_flight c)"
  by (auto simp: supersede_opening_def dom_def)

lemma supersede_fields [simp]:
  "cl_open (supersede_opening review c) = cl_open c" "cl_committed (supersede_opening review c) = cl_committed c"
  "cl_pending (supersede_opening review c) = cl_pending c" "cl_config (supersede_opening review c) = cl_config c"
  "cl_draft (supersede_opening review c) = cl_draft c" "cl_deferred (supersede_opening review c) = cl_deferred c"
  "cl_snapshot_events (supersede_opening review c) = cl_snapshot_events c" "cl_connection (supersede_opening review c) = cl_connection c"
  "cl_recovery (supersede_opening review c) = cl_recovery c" "cl_now (supersede_opening review c) = cl_now c"
  by (simp_all add: supersede_opening_def)

definition concerns :: "event \<Rightarrow> client \<Rightarrow> bool" where
  "concerns e c \<longleftrightarrow> cl_committed c \<noteq> None
     \<and> body_review_id (ev_body e) = map_option (\<lambda>sn. rv_id (sn_review sn)) (cl_committed c)"

lemma fold_committed_other: "\<not> concerns e c \<Longrightarrow> snd (fold_committed e sections c) = c"
  by (auto simp: fold_committed_def concerns_def Let_def split: option.split)

definition refreshed :: "event \<Rightarrow> review_snapshot \<Rightarrow> client \<Rightarrow> client" where
  "refreshed e sn c =
     (if is_resolved_body (ev_body e) then (supersede_opening (rv_id (sn_review sn)) c)\<lparr>cl_files := []\<rparr> else c)
       \<lparr>cl_committed := Some (snd (fold_event e sn))\<rparr>"

lemma refreshed_fields [simp]:
  "cl_open (refreshed e sn c) = cl_open c" "cl_committed (refreshed e sn c) = Some (snd (fold_event e sn))"
  "cl_pending (refreshed e sn c) = cl_pending c" "cl_config (refreshed e sn c) = cl_config c"
  "cl_draft (refreshed e sn c) = cl_draft c" "cl_deferred (refreshed e sn c) = cl_deferred c"
  "cl_snapshot_events (refreshed e sn c) = cl_snapshot_events c" "cl_connection (refreshed e sn c) = cl_connection c"
  "cl_recovery (refreshed e sn c) = cl_recovery c" "cl_now (refreshed e sn c) = cl_now c"
  "dom (cl_in_flight (refreshed e sn c)) = dom (cl_in_flight c)"
  by (simp_all add: refreshed_def)

lemma list_same: "same_sync c (snd (list_files review c))"
  using send_same by (simp add: list_files_def Let_def case_prod_unfold)

lemmas list_consistent = consistent_same [OF list_same]

lemma fold_committed_mine:
  assumes "cl_committed c = Some sn" "concerns e c"
  shows "same_sync (snd (rebase (refreshed e sn c))) (snd (fold_committed e sections c))"
  using assms list_same by (simp add: fold_committed_def refreshed_def concerns_def Let_def case_prod_unfold same_sync_refl)

lemma fold_committed_consistent:
  assumes "holds_back c" "paired c" "concerns e c \<or> shows_pending c"
  shows "consistent (snd (fold_committed e sections c))"
proof (cases "concerns e c")
  case True
  then obtain sn where sn: "cl_committed c = Some sn" by (auto simp: concerns_def)
  have "paired (refreshed e sn c)" using assms(2) sn by (auto simp: paired_def fold_event_review split: option.splits)
  moreover have "holds_back (refreshed e sn c)" using assms(1) sn by (auto simp: holds_back_def fold_event_review)
  ultimately show ?thesis using rebase_consistent consistent_same [OF fold_committed_mine [OF sn True]] by blast
next
  case False
  then show ?thesis using assms by (simp add: fold_committed_other consistent_def)
qed

lemma fold_consistent: "consistent c \<Longrightarrow> consistent (snd (fold_committed e sections c))"
  by (rule fold_committed_consistent) (simp_all add: consistent_def shows_paired)

definition retired :: "event \<Rightarrow> client \<Rightarrow> client" where
  "retired e c =
     (if ev_client_id e = cf_client_id (cl_config c) then snd (retire_pending (ev_client_seq e) (hold_for_snapshots e c))
      else hold_for_snapshots e c)"

lemma hold_same: "same_sync c (hold_for_snapshots e c)"
  by (auto simp: same_sync_def hold_for_snapshots_def dom_def)

lemma hold_fields [simp]:
  "cl_config (hold_for_snapshots e c) = cl_config c" "cl_connection (hold_for_snapshots e c) = cl_connection c"
  "cl_recovery (hold_for_snapshots e c) = cl_recovery c" "cl_now (hold_for_snapshots e c) = cl_now c"
  "cl_committed (hold_for_snapshots e c) = cl_committed c" "cl_open (hold_for_snapshots e c) = cl_open c"
  "cl_draft (hold_for_snapshots e c) = cl_draft c"  "cl_pending (hold_for_snapshots e c) = cl_pending c"
  "cl_deferred (hold_for_snapshots e c) = cl_deferred c"
  by (simp_all add: hold_for_snapshots_def)

lemma retired_fields [simp]:
  "cl_config (retired e c) = cl_config c" "cl_connection (retired e c) = cl_connection c"
  "cl_recovery (retired e c) = cl_recovery c" "cl_now (retired e c) = cl_now c"
  "cl_committed (retired e c) = cl_committed c" "cl_open (retired e c) = cl_open c" "cl_draft (retired e c) = cl_draft c"
  "cl_deferred (retired e c) = cl_deferred c"
  by (simp_all add: retired_def retire_pending_def Let_def)

lemma client_apply_event_alt:
  "snd (client_apply_event e c) =
     (if is_resolved_body (ev_body e) \<and> (\<exists>review. body_review_id (ev_body e) = Some review \<and> open_is review (retired e c)) \<and> cl_draft (retired e c) \<noteq> None
      then snd (hold_back e (retired e c))
      else snd (fold_committed e (fst (note_event (ev_body e) (retired e c))) (snd (note_event (ev_body e) (retired e c)))))"
  by (cases "ev_body e")
    (simp_all only: client_apply_event_def retired_def [symmetric] Let_def case_prod_unfold hold_fields event_body.case
      is_resolved_body.simps body_review_id.simps note_event.simps fst_conv snd_conv simp_thms option.inject ex_simps if_distrib [of snd] if_True if_False)

text \<open>
  An event that answers a pending mutation is of the open review, as its mutation was, and is not the refresh
  that a draft holds back.
\<close>

definition expected :: "event \<Rightarrow> client \<Rightarrow> bool" where
  "expected e c \<longleftrightarrow>
     (ev_client_id e = cf_client_id (cl_config c) \<and> list_ex (\<lambda>p. pd_client_seq p = ev_client_seq e) (cl_pending c)
        \<longrightarrow> concerns e c \<and> \<not> (is_resolved_body (ev_body e) \<and> cl_draft c \<noteq> None))"

lemma retired_shape:
  "retired e c = (hold_for_snapshots e c)\<lparr>cl_pending := cl_pending (retired e c)\<rparr>"
  by (simp add: retired_def retire_pending_def Let_def)

lemma retired_holds: "holds_back c \<Longrightarrow> holds_back (retired e c)"
  using hold_same [of c e] by (subst retired_shape) (simp add: holds_back_def same_sync_def)

lemma retired_paired: "paired c \<Longrightarrow> paired (retired e c)"
  by (auto simp: paired_def retired_def retire_pending_def Let_def split: option.splits)

lemma retired_shows:
  assumes "consistent c" "expected e c" "\<not> (concerns e c \<and> \<not> (is_resolved_body (ev_body e) \<and> cl_draft c \<noteq> None))"
  shows "consistent (retired e c)"
proof -
  have "\<not> (ev_client_id e = cf_client_id (cl_config c) \<and> list_ex (\<lambda>p. pd_client_seq p = ev_client_seq e) (cl_pending c))"
    using assms(2,3) by (auto simp: expected_def)
  then have "cl_pending (retired e c) = cl_pending c"
    by (auto simp: retired_def retire_pending_def Let_def list_ex_iff filter_id_conv)
  then have "retired e c = hold_for_snapshots e c" using retired_shape [of e c] by simp
  then show ?thesis using consistent_same [OF hold_same assms(1)] by simp
qed

lemma client_apply_consistent:
  assumes "consistent c" "expected e c"
  shows "consistent (snd (client_apply_event e c))"
proof -
  let ?c1 = "retired e c" and ?body = "ev_body e"
  have holds: "holds_back ?c1" and paired: "paired ?c1"
    using assms(1) retired_holds retired_paired shows_paired by (auto simp: consistent_def)
  have same: "concerns e ?c1 = concerns e c" by (simp add: concerns_def)
  show ?thesis
  proof (cases "is_resolved_body ?body \<and> (\<exists>review. body_review_id ?body = Some review \<and> open_is review ?c1) \<and> cl_draft ?c1 \<noteq> None")
    case True
    have "consistent ?c1" by (rule retired_shows [OF assms]) (use True in simp)
    moreover have "cl_committed ?c1 \<noteq> None
        \<and> body_review_id ?body = map_option (\<lambda>sn. rv_id (sn_review sn)) (cl_committed ?c1)"
      using True paired by (auto simp: open_is_def paired_def split: option.splits)
    ultimately show ?thesis
      using True by (simp add: client_apply_event_alt)
        (auto simp: hold_back_def Let_def consistent_def holds_back_def shows_pending_def split: option.splits)
  next
    case False
    let ?c2 = "snd (note_event ?body ?c1)"
    have to_fold: "snd (client_apply_event e c) = snd (fold_committed e (fst (note_event ?body ?c1)) ?c2)"
      unfolding client_apply_event_alt by (rule if_not_P [OF False])
    show ?thesis
    proof (cases "concerns e c \<and> \<not> (\<exists>review. ?body = ReviewDeleted review)")
      case True
      then have steady: "same_sync ?c1 ?c2" by (intro note_event_steady) blast
      then have "paired ?c2" "holds_back ?c2" "concerns e ?c2"
        using paired holds True same by (auto simp: same_sync_def paired_def holds_back_def concerns_def split: option.splits)
      then show ?thesis by (simp add: to_fold fold_committed_consistent)
    next
      case rest: False
      show ?thesis
      proof (cases "concerns e c")
        case True
        then obtain review where body: "?body = ReviewDeleted review" using rest by blast
        then have "open_is review ?c1" using True same paired
          by (auto simp: concerns_def open_is_def paired_def split: option.splits)
        then have "?c2 = close_review (?c1\<lparr>cl_reviews := filter (\<lambda>r. rv_id r \<noteq> review) (cl_reviews ?c1)\<rparr>)"
          by (simp add: body note_event_deleted Let_def del: note_event.simps)
        moreover have "holds_back (?c1\<lparr>cl_reviews := filter (\<lambda>r. rv_id r \<noteq> review) (cl_reviews ?c1)\<rparr>)"
          using holds by (simp add: holds_back_def)
        ultimately have "consistent ?c2" by (simp add: close_consistent)
        then show ?thesis by (simp add: to_fold fold_consistent)
      next
        case False
        then have "consistent ?c1" by (intro retired_shows [OF assms]) simp
        then have "consistent ?c2" by (rule note_event_consistent)
        then show ?thesis by (simp add: to_fold fold_consistent)
      qed
    qed
  qed
qed

text \<open>The refreshes a draft held back.\<close>

lemma resolved_review: "is_resolved_body body \<Longrightarrow> \<exists>review. body_review_id body = Some review"
  by (cases body) simp_all

lemma resolved_noted [simp]: "is_resolved_body body \<Longrightarrow> note_event body c = ([], c)"
  by (cases body) simp_all

lemma apply_resolved:
  assumes "is_resolved_body (ev_body e)" "cl_draft c = None" "concerns e c" "consistent c"
  shows "consistent (snd (client_apply_event e c))" "cl_draft (snd (client_apply_event e c)) = None"
    "concerns x (snd (client_apply_event e c)) = concerns x c"
proof -
  have mine: "concerns e (retired e c)" using assms(3) by (simp add: concerns_def)
  obtain sn where sn: "cl_committed (retired e c) = Some sn" using assms(3) by (auto simp: concerns_def)
  have run: "same_sync (snd (rebase (refreshed e sn (retired e c)))) (snd (client_apply_event e c))"
    using assms(1,2) fold_committed_mine [OF sn mine] by (simp add: client_apply_event_alt)
  show "consistent (snd (client_apply_event e c))"
    using assms by (intro client_apply_consistent) (simp_all add: expected_def)
  show "cl_draft (snd (client_apply_event e c)) = None" using assms(2) run by (simp add: same_sync_def)
  show "concerns x (snd (client_apply_event e c)) = concerns x c"
    using sn run by (simp add: same_sync_def concerns_def fold_event_review)
qed

lemma apply_each_consistent:
  assumes "consistent c" "cl_draft c = None" "\<forall>e\<in>set es. is_resolved_body (ev_body e) \<and> concerns e c"
  shows "consistent (snd (apply_each es c))"
  using assms
proof (induction es arbitrary: c)
  case (Cons e es)
  have e: "is_resolved_body (ev_body e)" "concerns e c" using Cons.prems(3) by simp_all
  note step = apply_resolved [OF e(1) Cons.prems(2) e(2) Cons.prems(1)]
  have "consistent (snd (apply_each es (snd (client_apply_event e c))))"
    using Cons.prems(3) by (intro Cons.IH step) (simp add: step)
  then show ?case by (simp add: Let_def case_prod_unfold)
qed simp

lemma drain_consistent:
  assumes "consistent c" "cl_draft c = None"
  shows "consistent (snd (drain_deferred c))"
proof -
  have "\<forall>e\<in>set (cl_deferred c). is_resolved_body (ev_body e) \<and> concerns e c"
    using assms(1) resolved_review by (fastforce simp: consistent_def holds_back_def concerns_def)
  moreover have "consistent (c\<lparr>cl_deferred := [], cl_pending_refresh := False\<rparr>)"
    using assms(1) by (auto simp: consistent_def holds_back_def shows_pending_def split: option.splits)
  ultimately have "consistent (snd (apply_each (cl_deferred c) (c\<lparr>cl_deferred := [], cl_pending_refresh := False\<rparr>)))"
    using assms(2) by (intro apply_each_consistent) (simp_all add: concerns_def)
  then show ?thesis by (simp add: drain_deferred_def Let_def case_prod_unfold)
qed

lemma draft_closed_consistent: "consistent c \<Longrightarrow> consistent (snd (draft_closed effects c))"
proof -
  assume "consistent c"
  then have "consistent (c\<lparr>cl_draft := None\<rparr>)"
    by (auto simp: consistent_def holds_back_def shows_pending_def split: option.splits)
  then show ?thesis using drain_consistent by (simp add: draft_closed_def Let_def case_prod_unfold)
qed

text \<open>A snapshot that arrives.\<close>

lemma replay_held_review: "rv_id (sn_review (replay_held es sn)) = rv_id (sn_review sn)"
proof -
  have "rv_id (sn_review (foldl (\<lambda>x e. if q < ev_seq e then snd (fold_event e x) else x) sn xs)) = rv_id (sn_review sn)" for q xs
    by (induction xs arbitrary: sn) (simp_all add: fold_event_review)
  then show ?thesis by (simp add: replay_held_def)
qed

lemma keep_receipts_review: "sn_review (keep_receipts known sn) = sn_review sn"
proof -
  have "sn_review (foldl (\<lambda>sn k. sn\<lparr>sn_suggestions := f k sn\<rparr>) sn xs) = sn_review sn" for f :: "suggestion_record \<Rightarrow> review_snapshot \<Rightarrow> suggestion_record list" and xs
    by (induction xs arbitrary: sn) simp_all
  from this [of "\<lambda>k sn. update_first (\<lambda>r. sg_comment_id r = sg_comment_id k) (\<lambda>r. r\<lparr>sg_outcome := sg_outcome k\<rparr>) (sn_suggestions sn)"]
  show ?thesis by (simp add: keep_receipts_def)
qed

lemma install_consistent:
  assumes "consistent c"
  shows "consistent (install_snapshot rid snapshot c)"
    "cl_in_flight (install_snapshot rid snapshot c) = cl_in_flight c"
    "cl_snapshot_events (install_snapshot rid snapshot c) = (cl_snapshot_events c)(rid := None)"
proof -
  let ?c0 = "c\<lparr>cl_snapshot_events := (cl_snapshot_events c)(rid := None)\<rparr>"
  have *: "consistent (snd (rebase ((close_review ?c0)\<lparr>cl_progress := t, cl_committed := Some sn,
        cl_open := Some \<lparr>op_snapshot = sn, op_pending = []\<rparr>, cl_pending := ps\<rparr>)))" for t sn ps
    using assms by (intro rebase_consistent)
      (auto simp: paired_def holds_back_def close_review_def consistent_def)
  show "consistent (install_snapshot rid snapshot c)"
    using * by (auto simp: install_snapshot_def Let_def case_prod_unfold split: option.split)
  show "cl_in_flight (install_snapshot rid snapshot c) = cl_in_flight c"
    "cl_snapshot_events (install_snapshot rid snapshot c) = (cl_snapshot_events c)(rid := None)"
    by (simp_all add: install_snapshot_def Let_def case_prod_unfold close_review_def)
qed

section \<open>Every input keeps it\<close>

lemma consistent_view:
  "consistent (c\<lparr>cl_connection := a\<rparr>) = consistent c" "consistent (c\<lparr>cl_recovery := b\<rparr>) = consistent c"
  "consistent (c\<lparr>cl_connection_view := v\<rparr>) = consistent c" "consistent (c\<lparr>cl_last_error := x\<rparr>) = consistent c"
  "consistent (c\<lparr>cl_now := n\<rparr>) = consistent c" "consistent (c\<lparr>cl_ids := g\<rparr>) = consistent c"
  "consistent (c\<lparr>cl_latest_open := l\<rparr>) = consistent c" "consistent (c\<lparr>cl_workspaces := w\<rparr>) = consistent c"
  "consistent (c\<lparr>cl_reviews := r\<rparr>) = consistent c"
  "consistent (c\<lparr>cl_progress := t\<rparr>) = consistent c" "consistent (c\<lparr>cl_files := f\<rparr>) = consistent c"
  "consistent (c\<lparr>cl_latest_files := lf\<rparr>) = consistent c" "consistent (c\<lparr>cl_next_client_seq := q\<rparr>) = consistent c"
  by (simp_all add: consistent_def holds_back_def shows_pending_def cong: option.case_cong)

lemma expected_connection: "expected e (c\<lparr>cl_connection := a\<rparr>) = expected e c"
  by (simp add: expected_def concerns_def)

lemma forget_consistent: "consistent c \<Longrightarrow> consistent (forget_request rid c)"
  by (auto simp: forget_request_def consistent_def holds_back_def shows_pending_def cong: option.case_cong)

lemma delivery_consistent:
  assumes "consistent c" "\<And>p. pd_client_seq (f p) = pd_client_seq p \<and> pd_ts (f p) = pd_ts p \<and> pd_body (f p) = pd_body p"
  shows "consistent (c\<lparr>cl_pending := map f (cl_pending c)\<rparr>)"
  using assms(1) fold_pending_map [of f] mirrored_map [of f] assms(2)
  by (simp add: consistent_def holds_back_def shows_pending_def split: option.splits)

lemma clear_consistent: "consistent c \<Longrightarrow> consistent (clear_in_flight c)"
proof -
  assume c: "consistent c"
  let ?f = "\<lambda>p. if pd_delivery p = AwaitingReceipt then p\<lparr>pd_delivery := OutcomeUnknown\<rparr> else p"
  have "consistent (c\<lparr>cl_pending := map ?f (cl_pending c)\<rparr>)" by (rule delivery_consistent [OF c]) simp
  moreover have "same_sync (c\<lparr>cl_pending := map ?f (cl_pending c)\<rparr>) (clear_in_flight c)"
    by (simp add: same_sync_def clear_in_flight_def)
  ultimately show ?thesis using consistent_same by blast
qed

lemma restart_consistent:
  assumes "consistent c"
  shows "consistent (snd (restart_tick c))" "consistent (snd (restart_notice operation c))"
    "consistent (snd (restart_disconnected_view c))"
  using assms clear_consistent [of "c\<lparr>cl_connection_view := v, cl_connection := a\<rparr>" for v a]
  by (auto simp: restart_tick_def restart_notice_def restart_disconnected_view_def consistent_view
      split: recovery.split connection.split)

lemma suggestions_consistent:
  "consistent (set_progress cid state c) = consistent c" "consistent (snd (suggestions_disconnected c)) = consistent c"
  by (simp_all add: set_progress_def suggestions_disconnected_def consistent_view)

lemma preview_consistent: "consistent c \<Longrightarrow> consistent (snd (client_preview_suggestion cid c))"
  by (simp add: client_preview_suggestion_def Let_def case_prod_unfold send_consistent suggestions_consistent split: sum.split)

lemma application_consistent: "consistent c \<Longrightarrow> consistent (snd (client_apply_suggestion cid c))"
  by (simp add: client_apply_suggestion_def Let_def case_prod_unfold send_consistent suggestions_consistent consistent_view
      split: sum.split suggestion_status.split)

lemma preview_each_consistent: "consistent c \<Longrightarrow> consistent (snd (preview_each cids c))"
  by (induction cids arbitrary: c) (simp_all add: Let_def case_prod_unfold preview_consistent)

lemma reconnected_consistent: "consistent c \<Longrightarrow> consistent (snd (suggestions_reconnected c))"
  by (simp add: suggestions_reconnected_def preview_each_consistent)

lemma take_receipt_review [simp]: "sn_review (take_receipt cid receipt sn) = sn_review sn"
  by (simp add: take_receipt_def)

lemma previewed_consistent: "consistent c \<Longrightarrow> consistent (snd (client_suggestion_previewed rid review cid preview c))"
proof -
  assume c: "consistent c"
  have "consistent (snd (rebase ((set_progress cid' state c)\<lparr>cl_committed := Some (take_receipt cid receipt sn)\<rparr>)))"
    if "cl_committed c = Some sn" for cid' state receipt sn
  proof (rule rebase_consistent)
    have "paired c" using c by (simp add: consistent_def shows_paired)
    then show "paired ((set_progress cid' state c)\<lparr>cl_committed := Some (take_receipt cid receipt sn)\<rparr>)"
      using that by (simp add: paired_def set_progress_def split: option.splits)
    show "holds_back ((set_progress cid' state c)\<lparr>cl_committed := Some (take_receipt cid receipt sn)\<rparr>)"
      using c that by (simp add: consistent_def holds_back_def set_progress_def)
  qed
  then show ?thesis using c
    by (auto simp: client_suggestion_previewed_def Let_def consistent_view set_progress_def
        split: sum.split option.split suggestion_outcome.split)
qed

lemma refused_consistent: "consistent c \<Longrightarrow> consistent (snd (client_suggestion_failed rid review cid error c))"
  by (simp add: client_suggestion_failed_def Let_def suggestions_consistent split: option.split)

lemma transport_consistent: "consistent c \<Longrightarrow> consistent (snd (on_transport ev c))"
  using clear_consistent [of "snd (suggestions_disconnected (c\<lparr>cl_connection := a\<rparr>))" for a] restart_consistent(3)
  by (cases ev) (auto simp: Let_def case_prod_unfold consistent_view suggestions_consistent split: connection.split bool.split)

lemma rejected_consistent: "consistent c \<Longrightarrow> consistent (snd (on_rejected error c))"
  using clear_consistent [of "c\<lparr>cl_connection := a\<rparr>" for a] restart_consistent(3)
  by (auto simp: on_rejected_def Let_def case_prod_unfold consistent_view split: connection.split rpc_error.split)

lemma welcome_consistent: "consistent c \<Longrightarrow> consistent (snd (on_welcome c))"
  using send_consistent [of c] by (auto simp: on_welcome_def Let_def case_prod_unfold split: connection.split bool.split)

lemma event_consistent: "consistent c \<Longrightarrow> expected e c \<Longrightarrow> consistent (snd (on_event e c))"
  using client_apply_consistent [of "c\<lparr>cl_connection := a\<rparr>" e for a]
  by (auto simp: on_event_def Let_def case_prod_unfold consistent_view expected_connection
      split: connection.split bool.split option.split)

lemma retire_rebase_consistent: "consistent c \<Longrightarrow> consistent (snd (rebase (snd (retire_pending q c))))"
proof -
  assume c: "consistent c"
  then have "paired c" by (simp add: consistent_def shows_paired)
  then have "paired (snd (retire_pending q c))"
    by (auto simp: paired_def retire_pending_def Let_def split: option.splits)
  moreover have "holds_back (snd (retire_pending q c))"
    using c by (simp add: consistent_def holds_back_def retire_pending_def Let_def)
  ultimately show ?thesis by (rule rebase_consistent)
qed

lemma full_filter: "length (filter P xs) = length xs \<Longrightarrow> filter P xs = xs"
  by (metis filter_id_conv length_filter_less less_irrefl)

lemma committed_consistent: "consistent c \<Longrightarrow> expected e c \<Longrightarrow> consistent (snd (on_committed q e c))"
proof -
  assume c: "consistent c" "expected e c"
  have none: "snd (retire_pending q c) = c" if "\<not> fst (retire_pending q c)"
    using that full_filter [of "\<lambda>p. pd_client_seq p \<noteq> q" "cl_pending c"] by (simp add: retire_pending_def Let_def)
  show ?thesis
    using c none retire_rebase_consistent [OF c(1), of q] client_apply_consistent [of "c\<lparr>cl_connection := a\<rparr>" e for a]
    by (auto simp: on_committed_def Let_def case_prod_unfold consistent_view expected_connection split: connection.split)
qed

lemma applied_consistent:
  "consistent c \<Longrightarrow> expected e c \<Longrightarrow> consistent (snd (client_suggestion_applied rid review cid e c))"
proof -
  assume c: "consistent c" "expected e c"
  have "consistent (snd (client_apply_event e (c\<lparr>cl_progress := t, cl_connection := a\<rparr>)))" for t a
    using c by (intro client_apply_consistent) (simp_all add: consistent_view expected_def concerns_def)
  moreover have "consistent (snd (client_apply_event e (c\<lparr>cl_connection := a\<rparr>)))" for a
    using c by (intro client_apply_consistent) (simp_all add: consistent_view expected_connection)
  ultimately show ?thesis using c(1)
    by (simp add: client_suggestion_applied_def set_progress_def Let_def case_prod_unfold consistent_view split: option.split connection.split)
qed

lemma subscribed_consistent: "consistent c \<Longrightarrow> consistent (snd (on_subscribed head c))"
proof -
  assume c: "consistent c"
  let ?f = "\<lambda>p. if pd_delivery p = NotAdmitted then p\<lparr>pd_delivery := AwaitingReceipt\<rparr> else p"
  have "consistent (c\<lparr>cl_pending := map ?f (cl_pending c)\<rparr>)" by (rule delivery_consistent [OF c]) simp
  moreover have "same_sync (c\<lparr>cl_pending := map ?f (cl_pending c)\<rparr>)
      (c\<lparr>cl_connection := a, cl_connection_view := v, cl_recovery := r, cl_last_error := x, cl_pending := map ?f (cl_pending c)\<rparr>)" for a v r x
    by (simp add: same_sync_def)
  ultimately have "consistent (c\<lparr>cl_connection := a, cl_connection_view := v, cl_recovery := r, cl_last_error := x,
      cl_pending := map ?f (cl_pending c)\<rparr>)" for a v r x using consistent_same by blast
  then show ?thesis using sends_consistent reconnected_consistent
    by (auto simp: on_subscribed_def Let_def case_prod_unfold c split: connection.split)
qed

fun response_event :: "client_response \<Rightarrow> event option" where
  "response_event (Resp_Committed e) = Some e"
| "response_event _ = None"

lemma answer_consistent:
  assumes "consistent c" "\<And>e. response_event response = Some e \<Longrightarrow> expected e c"
  shows "consistent (snd (answer rid waiting response c))"
proof -
  have small: "consistent (snd (wrong_response rid waiting response c))" "consistent (snd (on_workspaces ws c))"
    "consistent (snd (on_reviews wid rs c))" "consistent (on_files rid review fs ts c)" "consistent (snd (on_snapshot rid review sn c))"
    for ws wid rs review fs ts sn
    using assms(1) sends_consistent [of "c\<lparr>cl_workspaces := ws\<rparr>"] list_consistent install_consistent(1)
    by (simp_all add: wrong_response_def on_workspaces_def on_reviews_def on_files_def on_snapshot_def Let_def case_prod_unfold consistent_view)
  show ?thesis
    using assms small subscribed_consistent committed_consistent previewed_consistent applied_consistent
    by (auto simp: answer_def Let_def split: in_flight.split client_response.split)
qed

lemma response_consistent:
  assumes "consistent c" "\<And>e. response_event response = Some e \<Longrightarrow> expected e c"
  shows "consistent (snd (on_response rid response c))"
  using assms(1) answer_consistent [OF assms] forget_consistent
  by (simp add: on_response_def split: option.split prod.split sum.split) (metis snd_conv)

lemma streamed_consistent: "consistent c \<Longrightarrow> consistent (snd (on_streamed_snapshot rid snapshot c))"
proof -
  assume c: "consistent c"
  have "same_sync c' (c'\<lparr>cl_in_flight := (cl_in_flight c')(rid \<mapsto> w)\<rparr>)" for c' w
    by (auto simp: same_sync_def)
  then have "consistent (c'\<lparr>cl_in_flight := (cl_in_flight c')(rid \<mapsto> w)\<rparr>)" if "consistent c'" for c' w
    using consistent_same that by blast
  then show ?thesis using c install_consistent(1) [OF c] list_consistent
    by (auto simp: on_streamed_snapshot_def Let_def case_prod_unfold split: option.split in_flight.split)
qed

lemma stream_item_consistent: "consistent c \<Longrightarrow> consistent (snd (on_stream_item rid item c))"
  using streamed_consistent
  by (auto simp: on_stream_item_def list_header_def Let_def consistent_view split: stream_item.split option.split in_flight.split)

lemma stream_end_consistent: "consistent c \<Longrightarrow> consistent (snd (on_stream_end rid c))"
  using forget_consistent by (auto simp: on_stream_end_def split: option.split in_flight.split)

lemma update_first_map: "(\<And>p. g (f p) = g p) \<Longrightarrow> map g (update_first P f ps) = map g ps"
  by (induction ps) simp_all

lemma fold_pending_cong:
  "map (\<lambda>p. (pd_ts p, pd_body p)) ps = map (\<lambda>p. (pd_ts p, pd_body p)) qs \<Longrightarrow> fold_pending author ps sn = fold_pending author qs sn"
proof (induction ps arbitrary: qs sn)
  case (Cons p ps)
  then obtain q rest where "qs = q # rest" "pd_ts p = pd_ts q" "pd_body p = pd_body q"
    "map (\<lambda>p. (pd_ts p, pd_body p)) ps = map (\<lambda>p. (pd_ts p, pd_body p)) rest" by (cases qs) auto
  then show ?case using Cons.IH by (simp add: Let_def)
qed simp

lemma failed_consistent: "consistent c \<Longrightarrow> consistent (snd (rebase (mutation_failed q error c)))"
proof (cases "delivery_after error")
  case None
  then show "consistent c \<Longrightarrow> ?thesis" by (simp add: mutation_failed_def retire_rebase_consistent)
next
  case (Some d)
  assume c: "consistent c"
  then have "paired c" by (simp add: consistent_def shows_paired)
  then have "paired (mutation_failed q error c)" using Some by (auto simp: paired_def mutation_failed_def split: option.splits)
  moreover have "holds_back (mutation_failed q error c)" using c Some by (simp add: consistent_def holds_back_def mutation_failed_def)
  ultimately show ?thesis by (rule rebase_consistent)
qed

lemma error_consistent: "consistent c \<Longrightarrow> consistent (snd (on_error rid error c))"
proof -
  assume c: "consistent c"
  let ?c0 = "c\<lparr>cl_snapshot_events := (cl_snapshot_events c)(rid := None)\<rparr>"
  let ?c1 = "?c0\<lparr>cl_in_flight := (cl_in_flight c)(rid := None)\<rparr>"
  have "same_sync c ?c0" "same_sync c ?c1" by (auto simp: same_sync_def)
  then have ok: "consistent ?c0" "consistent ?c1" using c consistent_same by blast+
  have "same_sync ?c1 (?c1\<lparr>cl_last_error := x, cl_connection_view := v\<rparr>)" for x v by (simp add: same_sync_def)
  then have c2: "consistent (?c1\<lparr>cl_last_error := x, cl_connection_view := v\<rparr>)" for x v using ok(2) consistent_same by blast
  have "same_sync ?c1 (?c1\<lparr>cl_last_error := x\<rparr>)" for x by (simp add: same_sync_def)
  then have c3: "consistent (?c1\<lparr>cl_last_error := x\<rparr>)" for x using ok(2) consistent_same by blast
  show ?thesis
    using ok c2 c3 failed_consistent [OF c2] failed_consistent [OF c3] refused_consistent [OF ok(2)]
    by (simp add: on_error_def Let_def case_prod_unfold split: option.split in_flight.split)
qed

lemma requesting_consistent: "consistent c \<Longrightarrow> consistent (snd (requesting req waiting c))"
  using send_consistent [of c] by (auto simp: requesting_def Let_def case_prod_unfold split: sum.split)

lemma draft_consistent: "consistent c \<Longrightarrow> cl_open c \<noteq> None \<Longrightarrow> consistent (snd (open_draft d c))"
  by (auto simp: open_draft_def consistent_def holds_back_def shows_pending_def split: option.splits)

lemma on_review_consistent: "consistent c \<Longrightarrow> (\<And>review. consistent (snd (f review c))) \<Longrightarrow> consistent (snd (on_review f c))"
  by (simp add: on_review_def split: sum.split)

lemma submitted_consistent:
  assumes "consistent c"
  shows "consistent (snd (on_draft_submitted body c))"
proof -
  have submit: "consistent (snd (case mutate m (c\<lparr>cl_ids := ids\<rparr>) of (Inl e, c2) \<Rightarrow> (Inl e, c2) | (Inr effects, c2) \<Rightarrow> draft_closed effects c2))" for m ids
    using mutate_consistent [of "c\<lparr>cl_ids := ids\<rparr>" m] assms draft_closed_consistent
    by (auto simp: consistent_view split: prod.split sum.split)
  show ?thesis
    using assms submit by (auto simp: on_draft_submitted_def Let_def case_prod_unfold consistent_view split: option.split sum.split draft_purpose.split)
qed

lemma deferring_consistent:
  assumes "consistent c"
  shows "consistent (snd (on_defer_thread tid reason url c))"
  unfolding on_defer_thread_def
proof (rule on_review_consistent [OF assms])
  fix review
  have "consistent (snd (mutate (Mut_DeferThread review tid reason url) c))" by (rule mutate_consistent [OF assms])
  then show "consistent (snd (case mutate (Mut_DeferThread review tid reason url) c of (Inl e, c1) \<Rightarrow> (Inl e, c1)
      | (Inr effects, c1) \<Rightarrow> if map_option dr_purpose (cl_draft c1) = Some (Draft_Defer tid) then draft_closed effects c1 else (Inr effects, c1)))"
    by (auto simp: draft_closed_consistent split: prod.split sum.split)
qed

lemma on_reply_consistent: "consistent c \<Longrightarrow> consistent (snd (on_reply tid body c))"
  unfolding on_reply_def
  by (rule on_review_consistent) (simp_all add: case_prod_unfold Let_def mutate_consistent consistent_view)

lemma drafts_consistent:
  assumes "consistent c"
  shows "consistent (snd (on_draft_opened c))" "consistent (snd (on_reply_opened tid c))" "consistent (snd (on_defer_opened tid c))"
    "consistent (snd (on_draft_discarded c))"
proof -
  show "consistent (snd (on_draft_opened c))" using assms draft_consistent [OF assms] by (simp add: on_draft_opened_def)
  show "consistent (snd (on_reply_opened tid c))"
    using assms draft_consistent [OF assms] by (simp add: on_reply_opened_def split: option.split sum.split)
  show "consistent (snd (on_defer_opened tid c))"
    using assms draft_consistent [OF assms] by (simp add: on_defer_opened_def split: option.split thread_resolution.split)
  show "consistent (snd (on_draft_discarded c))" using assms draft_closed_consistent by (simp add: on_draft_discarded_def)
qed

lemma closing_consistent: "consistent c \<Longrightarrow> consistent (snd (on_close_review c))"
proof -
  assume c: "consistent c"
  then have "holds_back (c\<lparr>cl_latest_open := None\<rparr>)" by (simp add: consistent_def holds_back_def)
  then show ?thesis using c close_consistent by (simp add: on_close_review_def)
qed

lemma connecting_consistent: "consistent c \<Longrightarrow> consistent (snd (on_connect c))" "consistent c \<Longrightarrow> consistent (snd (on_disconnect c))"
  by (simp_all add: on_connect_def on_disconnect_def consistent_view split: connection.split)

lemma marked_consistent: "consistent c \<Longrightarrow> consistent (snd (on_mark_viewed repo_id path viewed c))"
proof -
  assume c: "consistent c"
  have "consistent (snd (mutate_with m body c))" if "cl_open c = Some op" for m body op
    using that by (intro mutate_with_consistent [OF c]) simp
  then show ?thesis using c
    by (auto simp: on_mark_viewed_def Let_def case_prod_unfold result_simps split: sum.split)
qed

lemma action_consistent: "consistent c \<Longrightarrow> consistent (snd (on_action action c))"
  by (cases action)
    (simp_all add: deferring_consistent on_reply_consistent drafts_consistent submitted_consistent closing_consistent
      connecting_consistent requesting_consistent on_open_review_def on_review_consistent mutate_consistent
      marked_consistent preview_consistent application_consistent)

definition expected_input :: "client_input \<Rightarrow> client \<Rightarrow> bool" where
  "expected_input i c \<longleftrightarrow>
     (case i of
        In_Server (Server_Event e) \<Rightarrow> expected e c
      | In_Server (Server_Response _ response) \<Rightarrow> (case response_event response of Some e \<Rightarrow> expected e c | None \<Rightarrow> True)
      | _ \<Rightarrow> True)"

lemma input_consistent:
  assumes "consistent c" "expected_input i c"
  shows "consistent (snd (client_handle i c))"
proof (cases i)
  case (In_Server msg)
  have response: "consistent (snd (on_response rid response c))" if "msg = Server_Response rid response" for rid response
    using assms In_Server that by (intro response_consistent) (auto simp: expected_input_def)
  have event: "consistent (snd (on_event e c))" if "msg = Server_Event e" for e
    using assms In_Server that by (intro event_consistent) (auto simp: expected_input_def)
  have "consistent (snd (on_server msg c))"
    using assms(1) response event
    by (cases msg) (simp_all add: welcome_consistent rejected_consistent stream_item_consistent stream_end_consistent error_consistent
        restart_consistent Let_def case_prod_unfold split: connection.split)
  then show ?thesis by (simp add: In_Server)
next
  case (In_Tick ms)
  then show ?thesis using assms restart_consistent(1) by (simp add: Let_def case_prod_unfold consistent_view)
qed (use assms action_consistent transport_consistent in \<open>simp_all add: Let_def case_prod_unfold\<close>)

inductive client_reachable :: "client \<Rightarrow> bool" where
  created: "client_reachable (client_new config seed)"
| handled: "client_reachable c \<Longrightarrow> expected_input i c \<Longrightarrow> client_reachable (snd (client_handle i c))"

lemma client_reachable_consistent: "client_reachable c \<Longrightarrow> consistent c"
proof (induction rule: client_reachable.induct)
  case (created config seed)
  show ?case by (simp add: client_new_def consistent_def holds_back_def shows_pending_def)
qed (rule input_consistent)

fun client_run :: "client_input list \<Rightarrow> client \<Rightarrow> client" where
  "client_run [] c = c"
| "client_run (i # is) c = client_run is (snd (client_handle i c))"

fun run_expected :: "client_input list \<Rightarrow> client \<Rightarrow> bool" where
  "run_expected [] c \<longleftrightarrow> True"
| "run_expected (i # is) c \<longleftrightarrow> expected_input i c \<and> run_expected is (snd (client_handle i c))"

lemma run_reachable: "client_reachable c \<Longrightarrow> run_expected is c \<Longrightarrow> client_reachable (client_run is c)"
  by (induction "is" arbitrary: c) (simp_all add: handled)

definition sample_config :: client_config where
  "sample_config =
     \<lparr>cf_client_id = ClientId (Ulid 8 8), cf_client = \<lparr>bi_name = ''c'', bi_version = ''1''\<rparr>, cf_author = Author_Human ''bob'' ''m'',
      cf_disk = False, cf_render_opts = render_opts_default\<rparr>"

definition sample_join :: "review_snapshot \<Rightarrow> client_input list" where
  "sample_join sn =
     [In_User Act_Connect, In_Transport Transport_Connected,
      In_Server (Server_Welcome protocol_CURRENT (cf_client sample_config) 1 None),
      In_Server (Server_Response (RequestId 1) (Resp_Subscribed 4)),
      In_User (Act_OpenReview (ReviewId (Ulid 2 2))),
      In_Server (Server_StreamItem (RequestId 3) (Item_ReviewSnapshot sn))]"


text \<open>A client that opened a review and resolved its thread, which the daemon has not answered.\<close>

definition sample_edits :: "review_snapshot \<Rightarrow> client_input list" where
  "sample_edits sn = sample_join sn @ [In_User (Act_ResolveThread (ThreadId (Ulid 4 4)))]"

lemma sample_edits_run:
  "run_expected (sample_edits sample_snapshot) (client_new sample_config 0)"
  "map pd_client_seq (cl_pending (client_run (sample_edits sample_snapshot) (client_new sample_config 0))) = [1]"
  "map_option (\<lambda>op. map th_resolution (sn_threads (op_snapshot op)))
     (cl_open (client_run (sample_edits sample_snapshot) (client_new sample_config 0))) = Some [Resolution_Resolved (Author_Human ''bob'' ''m'') 0]"
  "(case client_handle (In_User (Act_Reply (ThreadId (Ulid 6 6)) ''b'')) (client_run (sample_edits sample_snapshot) (client_new sample_config 0)) of
      (out, c') \<Rightarrow> (out, ig_counter (cl_ids c'))) = (Inl (Client_Mutation (Local_UnknownThread (ThreadId (Ulid 6 6)))), 1)"
  by code_simp+


end
