(* ===== verification/Nits_Client_Suggestion_Laws.thy ===== *)
theory Nits_Client_Suggestion_Laws
  imports Nits_Client_Sync_Laws
begin

text \<open>
  What the client promises of suggestions and of inputs that fail: an application is sent only for the user
  whose preview is ready, an answer to it comes while the client is subscribed, and an input that fails
  changes nothing.
\<close>

section \<open>Applications on their way\<close>

fun is_apply :: "mutation \<Rightarrow> bool" where
  "is_apply (Mut_ApplySuggestion _ _) \<longleftrightarrow> True"
| "is_apply _ \<longleftrightarrow> False"

fun apply_request :: "client_request \<Rightarrow> bool" where
  "apply_request (Req_Mutate _ m) \<longleftrightarrow> is_apply m"
| "apply_request _ \<longleftrightarrow> False"

fun applies :: "effect \<Rightarrow> bool" where
  "applies (Eff_Send (Client_Request _ req)) \<longleftrightarrow> apply_request req"
| "applies _ \<longleftrightarrow> False"

definition silent :: "effect list \<Rightarrow> bool" where
  "silent effects \<longleftrightarrow> \<not> list_ex applies effects"

fun apply_flight :: "in_flight \<Rightarrow> bool" where
  "apply_flight (Flight_ApplySuggestion _ _) \<longleftrightarrow> True"
| "apply_flight _ \<longleftrightarrow> False"

definition applying :: "client \<Rightarrow> request_id \<Rightarrow> bool" where
  "applying c rid \<longleftrightarrow> (case cl_in_flight c rid of None \<Rightarrow> False | Some waiting \<Rightarrow> apply_flight waiting)"

definition none_pending :: "client \<Rightarrow> bool" where
  "none_pending c \<longleftrightarrow> list_all (\<lambda>p. \<not> is_apply (pd_mutation p)) (cl_pending c)"

definition subscribed :: "client \<Rightarrow> bool" where
  "subscribed c \<longleftrightarrow> conn_kind (cl_connection c) = Conn_Kind_Subscribed"

lemma silent_simps [simp]:
  "silent []" "silent (x # xs) \<longleftrightarrow> \<not> applies x \<and> silent xs" "silent (xs @ ys) \<longleftrightarrow> silent xs \<and> silent ys"
  "silent xs \<Longrightarrow> silent (filter P xs)"
  by (auto simp: silent_def list_ex_iff)

lemma subscribed_iff: "subscribed c \<longleftrightarrow> (\<exists>q. cl_connection c = Conn_Subscribed q)"
  by (cases "cl_connection c") (simp_all add: subscribed_def)

text \<open>A step that sends no application: none becomes pending, none is put in flight, and none stays in flight unsubscribed.\<close>

definition quiet :: "client \<Rightarrow> client \<Rightarrow> bool" where
  "quiet c c' \<longleftrightarrow> (none_pending c \<longrightarrow> none_pending c') \<and> (\<forall>rid. applying c' rid \<longrightarrow> applying c rid)
     \<and> (subscribed c \<longrightarrow> subscribed c' \<or> (\<forall>rid. \<not> applying c' rid))"

lemma quiet_refl [simp]: "quiet c c"
  by (simp add: quiet_def)

lemma quiet_trans: "quiet a b \<Longrightarrow> quiet b c \<Longrightarrow> quiet a c"
  by (auto simp: quiet_def)

lemma quiet_same:
  "cl_pending c' = cl_pending c \<Longrightarrow> cl_in_flight c' = cl_in_flight c \<Longrightarrow> (subscribed c \<Longrightarrow> subscribed c') \<Longrightarrow> quiet c c'"
  by (simp add: quiet_def none_pending_def applying_def)

lemma quiet_update [simp]:
  "quiet c (c'\<lparr>cl_recovery := b\<rparr>) = quiet c c'" "quiet c (c'\<lparr>cl_connection_view := v\<rparr>) = quiet c c'"
  "quiet c (c'\<lparr>cl_last_error := x\<rparr>) = quiet c c'" "quiet c (c'\<lparr>cl_now := n\<rparr>) = quiet c c'"
  "quiet c (c'\<lparr>cl_ids := g\<rparr>) = quiet c c'" "quiet c (c'\<lparr>cl_latest_open := l\<rparr>) = quiet c c'"
  "quiet c (c'\<lparr>cl_workspaces := w\<rparr>) = quiet c c'" "quiet c (c'\<lparr>cl_reviews := r\<rparr>) = quiet c c'"
  "quiet c (c'\<lparr>cl_next_client_seq := q\<rparr>) = quiet c c'" "quiet c (c'\<lparr>cl_snapshot_events := s\<rparr>) = quiet c c'"
  "quiet c (c'\<lparr>cl_draft := d\<rparr>) = quiet c c'" "quiet c (c'\<lparr>cl_deferred := ds\<rparr>) = quiet c c'"
  "quiet c (c'\<lparr>cl_pending_refresh := pr\<rparr>) = quiet c c'" "quiet c (c'\<lparr>cl_committed := k\<rparr>) = quiet c c'"
  "quiet c (c'\<lparr>cl_open := op\<rparr>) = quiet c c'" "quiet c (c'\<lparr>cl_next_request := nr\<rparr>) = quiet c c'"
  "quiet c (c'\<lparr>cl_files := f\<rparr>) = quiet c c'" "quiet c (c'\<lparr>cl_latest_files := lf\<rparr>) = quiet c c'"
  "quiet c (c'\<lparr>cl_progress := sp\<rparr>) = quiet c c'"
  by (simp_all add: quiet_def none_pending_def applying_def subscribed_def)

lemma quiet_connection: "quiet c c' \<Longrightarrow> quiet c (c'\<lparr>cl_connection := Conn_Subscribed q\<rparr>)"
  by (auto simp: quiet_def none_pending_def applying_def subscribed_def)

lemma quiet_pending: "quiet c c' \<Longrightarrow> (none_pending c' \<Longrightarrow> list_all (\<lambda>p. \<not> is_apply (pd_mutation p)) ps) \<Longrightarrow> quiet c (c'\<lparr>cl_pending := ps\<rparr>)"
  by (auto simp: quiet_def none_pending_def applying_def subscribed_def)

lemma quiet_rebase: "quiet c c' \<Longrightarrow> quiet c (snd (rebase c'))"
  by (simp add: quiet_def none_pending_def applying_def subscribed_def)

lemma quiet_send: "quiet c c' \<Longrightarrow> \<not> apply_flight waiting \<Longrightarrow> quiet c (snd (send_request req waiting c'))"
  by (auto simp: send_request_def Let_def quiet_def none_pending_def applying_def subscribed_def split: if_splits)

lemma quiet_sends: "quiet c c' \<Longrightarrow> list_all (\<lambda>(req, waiting). \<not> apply_flight waiting) reqs \<Longrightarrow> quiet c (snd (send_requests reqs c'))"
proof (induction reqs arbitrary: c')
  case (Cons r reqs)
  obtain req waiting where r: "r = (req, waiting)" by (cases r)
  show ?case using Cons.IH [OF quiet_send [OF Cons.prems(1), of waiting req]] Cons.prems(2) by (simp add: r Let_def case_prod_unfold)
qed simp

lemma quiet_list: "quiet c c' \<Longrightarrow> quiet c (snd (list_files review c'))"
  by (simp add: list_files_def Let_def case_prod_unfold quiet_send)

lemma quiet_retire: "quiet c c' \<Longrightarrow> quiet c (snd (retire_pending q c'))"
  by (auto simp: retire_pending_def Let_def none_pending_def list_all_iff intro: quiet_pending)

lemma quiet_forget: "quiet c c' \<Longrightarrow> quiet c (forget_request rid c')"
  by (auto simp: quiet_def forget_request_def none_pending_def applying_def subscribed_def split: if_splits)

lemma quiet_close: "quiet c c' \<Longrightarrow> quiet c (close_review c')"
  by (auto simp: quiet_def close_review_def none_pending_def applying_def subscribed_def)

lemma quiet_clear: "(none_pending c \<Longrightarrow> none_pending c') \<Longrightarrow> quiet c (clear_in_flight c')"
  by (auto simp: quiet_def clear_in_flight_def none_pending_def applying_def list_all_iff)

lemma quiet_install: "quiet c c' \<Longrightarrow> quiet c (install_snapshot rid snapshot c')"
proof -
  assume c: "quiet c c'"
  have "quiet c ((close_review (c'\<lparr>cl_snapshot_events := evs\<rparr>))\<lparr>cl_progress := t, cl_committed := k, cl_open := op, cl_pending := ps\<rparr>)"
    if "ps = cl_pending c' \<or> ps = []" for evs t k op ps
    using c that by (auto simp: quiet_def close_review_def none_pending_def applying_def subscribed_def)
  then show ?thesis by (auto simp: install_snapshot_def Let_def case_prod_unfold intro!: quiet_rebase split: option.split)
qed

lemma quiet_supersede: "quiet c c' \<Longrightarrow> quiet c (supersede_opening review c')"
proof -
  have "applying (supersede_opening review c') = applying c'"
    by (intro ext) (auto simp: applying_def supersede_opening_def split: option.split)
  then show "quiet c c' \<Longrightarrow> ?thesis" by (simp add: quiet_def none_pending_def subscribed_def)
qed

lemma quiet_fold: "quiet c c' \<Longrightarrow> quiet c (snd (fold_committed e sections c'))"
  by (auto simp: fold_committed_def Let_def case_prod_unfold quiet_list quiet_rebase quiet_supersede split: option.split)

lemma quiet_note: "quiet c c' \<Longrightarrow> quiet c (snd (note_event body c'))"
  by (cases body) (auto simp: Let_def quiet_close split: option.split)

lemma quiet_apply: "quiet c c' \<Longrightarrow> quiet c (snd (client_apply_event e c'))"
proof -
  assume c: "quiet c c'"
  then have "quiet c (hold_for_snapshots e c')" by (simp add: hold_for_snapshots_def)
  then have "quiet c (retired e c')" by (simp add: retired_def quiet_retire)
  then show ?thesis
    by (simp add: client_apply_event_alt quiet_fold quiet_note hold_back_def Let_def)
qed

lemma quiet_apply_each: "quiet c c' \<Longrightarrow> quiet c (snd (apply_each es c'))"
  by (induction es arbitrary: c') (simp_all add: Let_def case_prod_unfold quiet_apply)

lemma quiet_closed: "quiet c c' \<Longrightarrow> quiet c (snd (draft_closed effects c'))"
  by (simp add: draft_closed_def drain_deferred_def Let_def case_prod_unfold quiet_apply_each)

lemma quiet_with: "quiet c c' \<Longrightarrow> \<not> is_apply m \<Longrightarrow> quiet c (snd (mutate_with m body c'))"
  by (auto simp: mutate_with_def Let_def case_prod_unfold none_pending_def intro!: quiet_rebase quiet_send quiet_pending)

lemma mutate_apply: "is_apply m \<Longrightarrow> \<exists>err. mutate m c = (Inl err, c)"
proof -
  assume "is_apply m"
  then have "local_event sn meta m = Inl (Local_Unsupported m)" for sn meta by (cases m) simp_all
  then show ?thesis by (auto simp: mutate_def result_simps split: sum.split option.split)
qed

lemma quiet_mutate: "quiet c c' \<Longrightarrow> quiet c (snd (mutate m c'))"
proof (cases "is_apply m")
  case True
  then show "quiet c c' \<Longrightarrow> ?thesis" using mutate_apply [OF True, of c'] by auto
next
  case False
  assume "quiet c c'"
  then show ?thesis using False by (simp add: mutate_def Let_def case_prod_unfold quiet_with split: sum.split)
qed

lemmas quiet_rules = quiet_rebase quiet_send quiet_sends quiet_list quiet_retire quiet_forget quiet_close quiet_install quiet_apply
  quiet_closed quiet_mutate quiet_with quiet_connection

section \<open>No input but the user's sends one\<close>

lemma silent_send: "applies (fst (send_request req waiting c)) \<longleftrightarrow> apply_request req"
  by (simp add: send_request_def Let_def)

lemma silent_sends: "list_all (\<lambda>(req, waiting). \<not> apply_request req) reqs \<Longrightarrow> silent (fst (send_requests reqs c))"
proof (induction reqs arbitrary: c)
  case (Cons r reqs)
  obtain req waiting where "r = (req, waiting)" by (cases r)
  then show ?case using Cons by (simp add: Let_def case_prod_unfold silent_send)
qed simp

lemma silent_list: "silent (fst (list_files review c))"
  by (simp add: list_files_def Let_def case_prod_unfold silent_send)

lemma silent_fold: "silent (fst (fold_committed e sections c))"
  by (auto simp: fold_committed_def Let_def case_prod_unfold silent_list split: option.split)

lemma silent_apply: "silent (fst (client_apply_event e c))"
  by (cases "ev_body e") (simp_all add: client_apply_event_def hold_back_def Let_def case_prod_unfold silent_fold)

lemma silent_apply_each: "silent (fst (apply_each es c))"
  by (induction es arbitrary: c) (simp_all add: Let_def case_prod_unfold silent_apply)

lemma silent_with: "silent (fst (mutate_with m body c)) \<longleftrightarrow> \<not> is_apply m"
  by (simp add: mutate_with_def Let_def case_prod_unfold silent_send)

text \<open>A handler that sends no application, and does not put one in flight.\<close>

definition mute :: "handler \<Rightarrow> client \<Rightarrow> bool" where
  "mute h c \<longleftrightarrow> quiet c (snd (h c)) \<and> (\<forall>effects. fst (h c) = Inr effects \<longrightarrow> silent effects)"

lemma silent_mutate: "fst (mutate m c) = Inr effects \<Longrightarrow> silent effects"
proof (cases "is_apply m")
  case True
  then show "fst (mutate m c) = Inr effects \<Longrightarrow> ?thesis" using mutate_apply [OF True, of c] by auto
next
  case False
  assume "fst (mutate m c) = Inr effects"
  then show ?thesis using False by (auto simp: mutate_def Let_def case_prod_unfold silent_with split: sum.splits)
qed

lemma silent_closed: "fst (draft_closed effects c) = Inr out \<Longrightarrow> silent effects \<Longrightarrow> silent out"
  by (auto simp: draft_closed_def drain_deferred_def Let_def case_prod_unfold silent_apply_each)

lemma mute_mutate: "mute (mutate m) c"
  using silent_mutate by (auto simp: mute_def quiet_mutate)

lemma mute_review: "(\<And>review. mute (f review) c) \<Longrightarrow> mute (on_review f) c"
  by (auto simp: mute_def on_review_def split: sum.splits)

lemma mute_requesting: "\<not> apply_request req \<Longrightarrow> \<not> apply_flight waiting \<Longrightarrow> mute (requesting req waiting) c"
  by (auto simp: mute_def requesting_def Let_def case_prod_unfold quiet_send silent_send split: sum.splits)

lemma mute_drafts:
  "mute on_draft_opened c" "mute (on_reply_opened tid) c" "mute (on_defer_opened tid) c" "mute on_draft_discarded c"
  using silent_closed
  by (auto simp: mute_def on_draft_opened_def on_reply_opened_def on_defer_opened_def on_draft_discarded_def open_draft_def quiet_closed
      split: option.splits sum.splits thread_resolution.splits)

text \<open>A mutation, and then the editor is closed.\<close>

lemma mutate_close:
  assumes "quiet c c1" "out = (case mutate m c1 of (Inl e, c2) \<Rightarrow> (Inl e, c2) | (Inr effects, c2) \<Rightarrow> if P c2 then draft_closed effects c2 else (Inr effects, c2))"
  shows "quiet c (snd out) \<and> (\<forall>effects. fst out = Inr effects \<longrightarrow> silent effects)"
proof -
  have "quiet c (snd (mutate m c1))" by (rule quiet_mutate [OF assms(1)])
  then show ?thesis
    using silent_mutate [of m c1] silent_closed quiet_closed
    by (cases "mutate m c1"; cases "fst (mutate m c1)") (auto simp: assms(2))
qed

lemma mute_submitted: "mute (on_draft_submitted body) c"
proof -
  have one: "quiet c (snd (case mutate m (c\<lparr>cl_ids := ids\<rparr>) of (Inl e, c2) \<Rightarrow> (Inl e, c2) | (Inr effects, c2) \<Rightarrow> draft_closed effects c2))
    \<and> (\<forall>effects. fst (case mutate m (c\<lparr>cl_ids := ids\<rparr>) of (Inl e, c2) \<Rightarrow> (Inl e, c2) | (Inr effects, c2) \<Rightarrow> draft_closed effects c2) = Inr effects
         \<longrightarrow> silent effects)" for m ids
  proof -
    have "quiet c (c\<lparr>cl_ids := ids\<rparr>)" by simp
    from mutate_close [OF this refl, where P = "\<lambda>_. True" and m = m] show ?thesis unfolding if_True .
  qed
  show ?thesis
    using one by (auto simp: mute_def on_draft_submitted_def Let_def case_prod_unfold split: option.splits sum.splits draft_purpose.splits)
qed

lemma mute_deferring: "mute (on_defer_thread tid reason url) c"
  unfolding on_defer_thread_def
  by (rule mute_review) (use mutate_close [OF quiet_refl refl] in \<open>simp add: mute_def\<close>)

lemma mute_reply: "mute (on_reply tid body) c"
  unfolding on_reply_def
  by (rule mute_review) (auto simp: mute_def Let_def case_prod_unfold quiet_mutate dest: silent_mutate)

lemma mute_marked: "mute (on_mark_viewed repo_id path viewed) c"
  by (auto simp: mute_def on_mark_viewed_def Let_def case_prod_unfold silent_with quiet_with split: sum.splits)

lemma mute_preview: "mute (client_preview_suggestion cid) c"
  by (auto simp: mute_def client_preview_suggestion_def suggestion_sections_def set_progress_def Let_def case_prod_unfold quiet_send silent_send
      split: sum.splits)

lemma mute_connect: "mute on_connect c" "mute on_disconnect c" "mute on_close_review c"
  by (auto simp: mute_def on_connect_def on_disconnect_def on_close_review_def quiet_close
      intro!: quiet_same simp: subscribed_def split: connection.splits)

lemma mute_open: "mute (on_open_review review) c"
  using mute_requesting [of "Req_ReviewSnapshot review" "Flight_ReviewSnapshot review" c]
    mute_requesting [of "Req_OpenReview review (cf_render_opts (cl_config c))" "Flight_OpenReview review Content_AwaitingSnapshot" c]
  by (simp add: mute_def on_open_review_def)

lemma mute_action: "\<forall>cid. action \<noteq> Act_ApplySuggestion cid \<Longrightarrow> mute (on_action action) c"
  by (cases action)
    (simp_all add: mute_connect mute_requesting mute_drafts mute_submitted mute_deferring mute_reply mute_marked mute_preview
      mute_open mute_review mute_mutate)

lemma quiet_gone: "cl_pending c' = cl_pending c \<Longrightarrow> quiet c (clear_in_flight c')"
  by (rule quiet_clear) (simp add: none_pending_def)

lemma quiet_view: "quiet c c' \<Longrightarrow> quiet c (snd (restart_disconnected_view c'))"
  by (simp add: restart_disconnected_view_def split: recovery.split)

lemma mute_transport: "quiet c (snd (on_transport ev c)) \<and> silent (fst (on_transport ev c))"
proof (cases ev)
  case Transport_Connected
  then show ?thesis by (auto simp: subscribed_def intro!: quiet_same split: connection.split bool.split)
next
  case Transport_Disconnected
  have "quiet c (clear_in_flight (snd (suggestions_disconnected (c\<lparr>cl_connection := a\<rparr>))))" for a
    by (rule quiet_gone) (simp add: suggestions_disconnected_def)
  then show ?thesis using Transport_Disconnected by (auto simp: Let_def case_prod_unfold quiet_view)
qed

lemma mute_tick: "quiet c (snd (restart_tick c)) \<and> silent (fst (restart_tick c))"
proof -
  have "quiet c (clear_in_flight (c\<lparr>cl_connection_view := v, cl_connection := a\<rparr>))" for v a by (rule quiet_gone) simp
  then show ?thesis
    by (auto simp: restart_tick_def subscribed_def intro!: quiet_same split: recovery.split connection.split)
qed

lemma mute_rejected: "mute (on_rejected error) c"
proof -
  have "quiet c (clear_in_flight (c\<lparr>cl_connection := a\<rparr>))" for a by (rule quiet_gone) simp
  then show ?thesis
    by (auto simp: mute_def on_rejected_def Let_def case_prod_unfold quiet_view split: connection.splits rpc_error.splits if_splits)
qed

lemma mute_welcome: "mute on_welcome c"
  by (auto simp: mute_def on_welcome_def Let_def case_prod_unfold quiet_send silent_send split: connection.splits bool.splits)

lemma mute_event: "mute (on_event e) c"
proof -
  have "quiet c (snd (client_apply_event e (c\<lparr>cl_connection := Conn_Subscribed q\<rparr>)))" for q by (intro quiet_apply quiet_connection quiet_refl)
  moreover have "quiet c (snd (client_apply_event e (c\<lparr>cl_connection := a\<rparr>)))" if "\<not> subscribed c" for a
    using that by (intro quiet_apply quiet_same) simp_all
  ultimately show ?thesis
    by (auto simp: mute_def on_event_def Let_def case_prod_unfold silent_apply subscribed_def split: connection.splits bool.splits option.splits)
qed

lemma mute_stream: "mute (on_stream_item rid item) c" "mute (on_stream_end rid) c"
proof -
  have "quiet c (c'\<lparr>cl_in_flight := (cl_in_flight c')(rid \<mapsto> Flight_OpenReview review content)\<rparr>)" if "quiet c c'" for c' review content
    using that by (auto simp: quiet_def none_pending_def applying_def subscribed_def split: if_splits)
  then show "mute (on_stream_item rid item) c"
    by (auto simp: mute_def on_stream_item_def on_streamed_snapshot_def list_header_def Let_def case_prod_unfold quiet_list quiet_install silent_list
        split: stream_item.splits option.splits in_flight.splits if_splits)
  show "mute (on_stream_end rid) c"
    by (auto simp: mute_def on_stream_end_def quiet_forget split: option.splits in_flight.splits)
qed

lemma mute_error: "mute (on_error rid error) c"
proof -
  let ?c0 = "c\<lparr>cl_snapshot_events := (cl_snapshot_events c)(rid := None)\<rparr>"
  let ?c1 = "?c0\<lparr>cl_in_flight := (cl_in_flight ?c0)(rid := None)\<rparr>"
  have gone: "quiet c ?c1" by (auto simp: quiet_def none_pending_def applying_def subscribed_def split: if_splits)
  have failed: "quiet c (mutation_failed q error c')" if "quiet c c'" for q c'
  proof -
    have "list_all (\<lambda>p. \<not> is_apply (pd_mutation p)) (update_first P (\<lambda>p. p\<lparr>pd_delivery := d\<rparr>) ps) = list_all (\<lambda>p. \<not> is_apply (pd_mutation p)) ps"
      for P d and ps :: "pending list" by (induction ps) simp_all
    then show ?thesis using that by (auto simp: mutation_failed_def quiet_retire none_pending_def intro!: quiet_pending split: option.split)
  qed
  show ?thesis
    using gone failed
    by (auto simp: mute_def on_error_def Let_def case_prod_unfold quiet_rebase client_suggestion_failed_def set_progress_def
        split: option.splits in_flight.splits)
qed

lemma preview_each_mute: "quiet c c' \<Longrightarrow> quiet c (snd (preview_each cids c')) \<and> silent (fst (preview_each cids c'))"
proof (induction cids arbitrary: c')
  case (Cons cid rest)
  have one: "quiet c' (snd (client_preview_suggestion cid c'))" "fst (client_preview_suggestion cid c') = Inr effects \<Longrightarrow> silent effects" for effects
    using mute_preview [of cid c'] by (simp_all add: mute_def)
  then show ?case
    using Cons.IH [OF quiet_trans [OF Cons.prems one(1)]] by (auto simp: Let_def case_prod_unfold split: sum.split)
qed simp

lemma preview_each_silent: "silent (fst (preview_each cids c))"
  using preview_each_mute [OF quiet_refl] by simp

lemma mute_subscribed: "none_pending c \<Longrightarrow> mute (on_subscribed head) c"
proof -
  assume none: "none_pending c"
  let ?ps = "map (\<lambda>p. if pd_delivery p = NotAdmitted then p\<lparr>pd_delivery := AwaitingReceipt\<rparr> else p) (cl_pending c)"
  let ?reqs = "map (\<lambda>p. (Req_Mutate (pd_client_seq p) (pd_mutation p), Flight_Mutate (pd_client_seq p)))
      (filter (\<lambda>p. pd_delivery p = NotAdmitted) (cl_pending c)) @ [(Req_ListWorkspaces, Flight_ListWorkspaces)]"
  have "quiet c (c\<lparr>cl_pending := ?ps\<rparr>)" using none by (intro quiet_pending) (auto simp: none_pending_def list_all_iff)
  then have "quiet c (c\<lparr>cl_connection := Conn_Subscribed q, cl_connection_view := v, cl_recovery := r, cl_last_error := x, cl_pending := ?ps\<rparr>)" for q v r x
    by (auto simp: quiet_def none_pending_def applying_def subscribed_def)
  then have "quiet c (snd (send_requests ?reqs (c\<lparr>cl_connection := Conn_Subscribed q, cl_connection_view := v, cl_recovery := r,
      cl_last_error := x, cl_pending := ?ps\<rparr>)))" for q v r x
    by (rule quiet_sends) (simp add: list_all_iff)
  moreover have "silent (fst (send_requests ?reqs c'))" for c'
    by (rule silent_sends) (use none in \<open>auto simp: list_all_iff none_pending_def\<close>)
  ultimately show ?thesis
    using preview_each_mute
    by (auto simp: mute_def preview_each_silent on_subscribed_def suggestions_reconnected_def Let_def case_prod_unfold split: connection.splits)
qed

lemma mute_answer:
  assumes "none_pending c"
  shows "mute (answer rid waiting response) c"
proof -
  have event: "quiet c (snd (client_apply_event e (c\<lparr>cl_connection := Conn_Subscribed q\<rparr>)))"
    "quiet c (snd (client_apply_event e (c\<lparr>cl_progress := t, cl_connection := Conn_Subscribed q\<rparr>)))" for e q t
    by (intro quiet_apply quiet_connection; simp)+
  have "mute (on_committed q e) c" for q e
    by (auto simp: mute_def on_committed_def Let_def case_prod_unfold event silent_apply quiet_rebase quiet_retire split: connection.splits)
  moreover have "mute (client_suggestion_applied rid review cid e) c" for review cid e
    by (auto simp: mute_def client_suggestion_applied_def set_progress_def Let_def case_prod_unfold event silent_apply
        split: connection.splits option.splits)
  moreover have "mute (client_suggestion_previewed rid review cid preview) c" for review cid preview
    by (auto simp: mute_def client_suggestion_previewed_def set_progress_def Let_def quiet_rebase
        split: sum.splits option.splits suggestion_outcome.splits)
  moreover have "mute (wrong_response rid waiting response) c" "mute (on_workspaces ws) c" "mute (on_reviews wid rs) c"
    "mute (on_snapshot rid review sn) c" "quiet c (on_files rid review fs ts c)" for ws wid rs review sn fs ts
    by (auto simp: mute_def wrong_response_def on_workspaces_def on_reviews_def on_snapshot_def on_files_def Let_def case_prod_unfold
        quiet_list quiet_install silent_list list_all_iff intro!: quiet_sends silent_sends)
  ultimately show ?thesis
    using mute_subscribed [OF assms]
    by (auto simp: answer_def mute_def Let_def split: in_flight.split client_response.split)
qed

lemma mute_response:
  assumes "none_pending c"
  shows "mute (on_response rid response) c"
proof -
  have "mute (\<lambda>c. case answer rid waiting response c of (Inl e, c') \<Rightarrow> (Inl e, c') | (Inr effects, c') \<Rightarrow> (Inr effects, forget_request rid c')) c" for waiting
    using mute_answer [OF assms, of rid waiting response] quiet_forget [of c]
    by (auto simp: mute_def split: prod.splits sum.splits)
  then show ?thesis by (simp add: mute_def on_response_def quiet_forget split: option.split)
qed

lemma mute_server: "none_pending c \<Longrightarrow> mute (on_server msg) c"
  using mute_welcome mute_rejected mute_response mute_stream mute_error mute_event
  by (cases msg) (auto simp: mute_def Let_def restart_notice_def split: connection.splits)

lemma mute_input:
  assumes "none_pending c" "\<forall>cid. i \<noteq> In_User (Act_ApplySuggestion cid)"
  shows "mute (client_handle i) c"
proof (cases i)
  case (In_User action)
  then show ?thesis using mute_action [of action c] assms(2) by (simp add: mute_def)
next
  case (In_Server msg)
  then show ?thesis using mute_server [OF assms(1), of msg] by (simp add: mute_def)
next
  case (In_Transport ev)
  then show ?thesis using mute_transport [of c ev] by (simp add: mute_def Let_def case_prod_unfold)
next
  case (In_Tick ms)
  have "quiet c (c\<lparr>cl_now := max (cl_now c) ms\<rparr>)" by simp
  then have "quiet c (snd (restart_tick (c\<lparr>cl_now := max (cl_now c) ms\<rparr>)))" using mute_tick quiet_trans by blast
  then show ?thesis using In_Tick mute_tick by (auto simp: mute_def Let_def case_prod_unfold)
qed

section \<open>Reachable clients\<close>

definition applies_live :: "client \<Rightarrow> bool" where
  "applies_live c \<longleftrightarrow> none_pending c \<and> (\<forall>rid. applying c rid \<longrightarrow> subscribed c)"

lemma quiet_live: "applies_live c \<Longrightarrow> quiet c c' \<Longrightarrow> applies_live c'"
  by (auto simp: applies_live_def quiet_def)

lemma application_live: "applies_live c \<Longrightarrow> applies_live (snd (client_apply_suggestion cid c))"
  by (auto simp: client_apply_suggestion_def set_progress_def send_request_def require_subscribed_def applies_live_def none_pending_def
      applying_def subscribed_def Let_def result_simps split: sum.split suggestion_status.split connection.splits)

lemma reachable_live: "client_reachable c \<Longrightarrow> applies_live c"
proof (induction rule: client_reachable.induct)
  case (created config seed)
  show ?case by (simp add: applies_live_def client_new_def none_pending_def applying_def)
next
  case (handled c i)
  show ?case
  proof (cases "\<exists>cid. i = In_User (Act_ApplySuggestion cid)")
    case True
    then show ?thesis using application_live [OF handled.IH] by auto
  next
    case False
    then have "mute (client_handle i) c" using handled.IH by (intro mute_input) (auto simp: applies_live_def)
    then show ?thesis using quiet_live [OF handled.IH] by (simp add: mute_def)
  qed
qed

section \<open>Errors\<close>

lemma mutate_error: "mutate m c = (Inl err, c') \<Longrightarrow> c' = c"
  by (auto simp: mutate_def Let_def split: sum.splits prod.splits)

lemma closed_error: "draft_closed effects c \<noteq> (Inl err, c')"
  by (simp add: draft_closed_def Let_def split: prod.split)

lemma committed_error: "on_committed q e c = (Inl err, c') \<Longrightarrow> c' = c"
  by (auto simp: on_committed_def Let_def split: connection.splits prod.splits if_splits)

lemma previewed_error: "client_suggestion_previewed rid review cid preview c = (Inl err, c') \<Longrightarrow> c' = c"
  by (auto simp: client_suggestion_previewed_def Let_def split: if_splits sum.splits option.splits)

text \<open>The answer to an application finds the client subscribed.\<close>

lemma applied_error:
  "subscribed c \<Longrightarrow> client_suggestion_applied rid review cid e c = (Inl err, c') \<Longrightarrow> c' = c"
  by (auto simp: client_suggestion_applied_def set_progress_def subscribed_def Let_def split: if_splits connection.splits option.splits prod.splits)

lemma answer_error: "(apply_flight waiting \<Longrightarrow> subscribed c) \<Longrightarrow> answer rid waiting response c = (Inl err, c') \<Longrightarrow> c' = c"
  by (auto simp: answer_def committed_error previewed_error applied_error on_subscribed_def wrong_response_def on_workspaces_def on_reviews_def
      on_snapshot_def Let_def split: in_flight.splits client_response.splits connection.splits prod.splits if_splits)

lemma response_error: "applies_live c \<Longrightarrow> on_response rid response c = (Inl err, c') \<Longrightarrow> c' = c"
  using answer_error
  by (fastforce simp: on_response_def applies_live_def applying_def split: option.splits prod.splits sum.splits if_splits)

lemma error_error:
  "on_error rid error c = (Inl err, c') \<Longrightarrow> dom (cl_snapshot_events c) \<subseteq> dom (cl_in_flight c) \<Longrightarrow> c' = c"
proof -
  assume run: "on_error rid error c = (Inl err, c')" and within: "dom (cl_snapshot_events c) \<subseteq> dom (cl_in_flight c)"
  then have "cl_in_flight c rid = None" "c' = c\<lparr>cl_snapshot_events := (cl_snapshot_events c)(rid := None)\<rparr>"
    by (auto simp: on_error_def Let_def split: option.splits prod.splits if_splits in_flight.splits)
  moreover have "(cl_snapshot_events c)(rid := None) = cl_snapshot_events c"
    using within calculation(1) by (intro fun_upd_idem) (metis domIff subsetD)
  ultimately show ?thesis by simp
qed

lemma event_error: "on_event e c = (Inl err, c') \<Longrightarrow> c' = c"
  by (auto simp: on_event_def Let_def split: connection.splits bool.splits option.splits prod.splits if_splits)

lemma stream_error:
  "on_stream_item rid item c = (Inl err, c') \<Longrightarrow> c' = c"
  "on_stream_end rid c = (Inl err, c') \<Longrightarrow> c' = c"
  by (auto simp: on_stream_item_def on_streamed_snapshot_def on_stream_end_def Let_def
      split: stream_item.splits option.splits in_flight.splits prod.splits if_splits)

lemma draft_error:
  "on_draft_opened c = (Inl err, c') \<Longrightarrow> c' = c" "on_reply_opened tid c = (Inl err, c') \<Longrightarrow> c' = c"
  "on_defer_opened tid c = (Inl err, c') \<Longrightarrow> c' = c" "on_draft_discarded c = (Inl err, c') \<Longrightarrow> c' = c"
  by (auto simp: on_draft_opened_def on_reply_opened_def on_defer_opened_def on_draft_discarded_def open_draft_def closed_error
      split: if_splits option.splits sum.splits thread_resolution.splits)

lemma submit_error: "on_draft_submitted body c = (Inl err, c') \<Longrightarrow> c' = c\<lparr>cl_ids := cl_ids c'\<rparr>"
  by (auto simp: on_draft_submitted_def Let_def closed_error dest!: mutate_error
      split: option.splits sum.splits prod.splits draft_purpose.splits)

lemma review_error:
  "on_reply tid body c = (Inl err, c') \<Longrightarrow> c' = c\<lparr>cl_ids := cl_ids c'\<rparr>"
  "on_defer_thread tid reason url c = (Inl err, c') \<Longrightarrow> c' = c"
  "on_review (\<lambda>review. mutate (m review)) c = (Inl err, c') \<Longrightarrow> c' = c"
  by (auto simp: on_reply_def on_defer_thread_def on_review_def closed_error dest!: mutate_error
      split: sum.splits prod.splits if_splits)

lemma suggestion_error:
  "client_preview_suggestion cid c = (Inl err, c') \<Longrightarrow> c' = c" "client_apply_suggestion cid c = (Inl err, c') \<Longrightarrow> c' = c"
  "on_mark_viewed repo_id path viewed c = (Inl err, c') \<Longrightarrow> c' = c"
  by (auto simp: client_preview_suggestion_def client_apply_suggestion_def on_mark_viewed_def Let_def
      split: sum.splits prod.splits if_splits suggestion_status.splits)

lemma action_error: "on_action action c = (Inl err, c') \<Longrightarrow> c' = c\<lparr>cl_ids := cl_ids c'\<rparr>"
  by (cases action)
    (auto simp: on_connect_def on_disconnect_def on_open_review_def requesting_def on_close_review_def Let_def
      dest: draft_error submit_error review_error suggestion_error split: connection.splits sum.splits prod.splits if_splits)

lemma server_error:
  assumes "on_server msg c = (Inl err, c')" "dom (cl_snapshot_events c) \<subseteq> dom (cl_in_flight c)" "\<forall>e. err \<noteq> Client_Rejected e"
    and "applies_live c"
  shows "c' = c"
  using assms response_error error_error event_error stream_error
  by (cases msg)
    (auto simp: on_welcome_def on_rejected_def Let_def split: connection.splits bool.splits prod.splits rpc_error.splits if_splits)



section \<open>An application is never replayed\<close>

lemma application_sends:
  assumes "client_apply_suggestion cid c = (Inr effects, c')" "\<not> silent effects"
  shows "\<exists>record q. suggestion_record_of cid c = Inr record \<and> subscribed c
    \<and> suggestion_status_of (suggestion_progress cid c) record = Status_Ready
    \<and> effects = [Eff_Send (Client_Request (RequestId (cl_next_request c)) (Req_Mutate q (Mut_ApplySuggestion (sg_review_id record) cid))),
                 Eff_Render (suggestion_sections @ [Section_Focus])]
    \<and> suggestion_progress cid c' = (suggestion_progress cid c)\<lparr>ss_stage := Stage_Applying (RequestId (cl_next_request c))\<rparr>
    \<and> cl_in_flight c' (RequestId (cl_next_request c)) = Some (Flight_ApplySuggestion (sg_review_id record) cid)"
  using assms
  by (auto simp: client_apply_suggestion_def set_progress_def suggestion_progress_def send_request_def require_subscribed_def subscribed_def
      Let_def result_simps split: sum.splits suggestion_status.splits connection.splits)


text \<open>A client whose suggestion was previewed and is applied.\<close>

definition sample_suggestion :: "review_snapshot" where
  "sample_suggestion = sample_snapshot\<lparr>sn_suggestions :=
     [\<lparr>sg_review_id = ReviewId (Ulid 2 2), sg_comment_id = CommentId (Ulid 4 4),
       sg_anchor = Anchor_File (RepoId (Ulid 3 3)) (RepoPath ''f'') (BlobOid (Oid [7])), sg_patch = ''p'', sg_outcome = Outcome_Unapplied\<rparr>]\<rparr>"

definition sample_previewed :: "client_input list" where
  "sample_previewed = sample_join sample_suggestion
     @ [In_User (Act_PreviewSuggestion (CommentId (Ulid 4 4))),
        In_Server (Server_Response (RequestId 4)
          (Resp_SuggestionPreview \<lparr>pr_suggestion = hd (sn_suggestions sample_suggestion), pr_inspection = Report_Checked [] Report_Original\<rparr>))]"

lemma sample_previewed_run:
  "run_expected sample_previewed (client_new sample_config 0)"
  "fst (client_handle (In_User (Act_ApplySuggestion (CommentId (Ulid 4 4)))) (client_run sample_previewed (client_new sample_config 0)))
     = Inr [Eff_Send (Client_Request (RequestId 5) (Req_Mutate 1 (Mut_ApplySuggestion (ReviewId (Ulid 2 2)) (CommentId (Ulid 4 4))))),
            Eff_Render [Section_Threads, Section_Conversation, Section_Focus]]"
  by code_simp+


end
