(* ===== verification/Nits_Client_Follow.thy ===== *)
theory Nits_Client_Follow
  imports Nits_Client_Suggestion_Laws
begin

text \<open>
  The client and the daemon together: whatever the user does and however the connection goes, a client that
  was given the events of the log in order has the daemon's review, with the refreshes a draft holds back
  still to come.
\<close>

section \<open>The committed snapshot with what is held back\<close>

definition held :: "client \<Rightarrow> review_snapshot option" where
  "held c = map_option (\<lambda>sn. fold_events sn (cl_deferred c)) (cl_committed c)"

definition tidy :: "client \<Rightarrow> bool" where
  "tidy c \<longleftrightarrow> (cl_draft c = None \<longrightarrow> cl_deferred c = [])"

lemma fold_events_Nil [simp]: "fold_events sn [] = sn"
  by (simp add: fold_events_def)

lemma fold_events_snoc [simp]: "fold_events sn (es @ [e]) = snd (fold_event e (fold_events sn es))"
  by (simp add: fold_events_def)

lemma fold_events_Cons: "fold_events sn (e # es) = fold_events (snd (fold_event e sn)) es"
  by (simp add: fold_events_def)

lemma fold_events_append: "fold_events sn (es @ fs) = fold_events (fold_events sn es) fs"
  by (simp add: fold_events_def)

lemma fold_events_review: "rv_id (sn_review (fold_events sn es)) = rv_id (sn_review sn)"
  by (induction es arbitrary: sn) (simp_all add: fold_events_Cons fold_event_review)

text \<open>A refresh of the targets and any other event commute.\<close>

lemma fold_resolved:
  "is_resolved_body (ev_body d) \<Longrightarrow> body_review_id (ev_body d) = Some (rv_id (sn_review sn)) \<Longrightarrow>
     \<exists>ts. ev_body d = ReviewTargetsResolved (rv_id (sn_review sn)) ts \<and> snd (fold_event d sn) = sn\<lparr>sn_resolved := Some ts\<rparr>"
  by (cases "ev_body d")
    (auto simp: fold_event_def fold_body_def note_suggestion_def note_request_def note_checkpoint_def
      request_from_event_def checkpoint_from_event_def)

lemma fold_event_resolved:
  assumes "\<not> is_resolved_body (ev_body e)"
  shows "snd (fold_event e (sn\<lparr>sn_resolved := ts\<rparr>)) = (snd (fold_event e sn))\<lparr>sn_resolved := ts\<rparr>"
  using assms
  by (cases "ev_body e")
    (simp_all add: fold_event_def fold_body_def note_suggestion_def note_request_def note_checkpoint_def Let_def
      request_from_event_def checkpoint_from_event_def edit_comment_of_def resolve_thread_of_def created_locally_def
      split: option.split)

lemma fold_commute:
  assumes "is_resolved_body (ev_body d)" "body_review_id (ev_body d) = Some (rv_id (sn_review sn))" "\<not> is_resolved_body (ev_body e)"
  shows "snd (fold_event d (snd (fold_event e sn))) = snd (fold_event e (snd (fold_event d sn)))"
proof -
  have "body_review_id (ev_body d) = Some (rv_id (sn_review (snd (fold_event e sn))))" using assms(2) by (simp add: fold_event_review)
  from fold_resolved [OF assms(1) this] fold_resolved [OF assms(1,2)] fold_event_resolved [OF assms(3)]
  show ?thesis by auto
qed

lemma fold_past:
  assumes "\<forall>d\<in>set ds. is_resolved_body (ev_body d) \<and> body_review_id (ev_body d) = Some (rv_id (sn_review sn))"
    and "\<not> is_resolved_body (ev_body e)"
  shows "fold_events (snd (fold_event e sn)) ds = snd (fold_event e (fold_events sn ds))"
  using assms(1)
proof (induction ds arbitrary: sn)
  case (Cons d ds)
  have d: "is_resolved_body (ev_body d)" "body_review_id (ev_body d) = Some (rv_id (sn_review sn))" using Cons.prems by simp_all
  show ?case
    using Cons.IH [of "snd (fold_event d sn)"] Cons.prems by (simp add: fold_events_Cons fold_commute [OF d assms(2)] fold_event_review)
qed simp

section \<open>An event\<close>

definition deletes_open :: "event \<Rightarrow> client \<Rightarrow> bool" where
  "deletes_open e c \<longleftrightarrow> (case ev_body e of ReviewDeleted review \<Rightarrow> open_is review c | _ \<Rightarrow> False)"

lemma note_event_undeleted:
  "\<not> deletes_open e c \<Longrightarrow> same_sync c (snd (note_event (ev_body e) c))"
  by (cases "ev_body e")
    (simp_all add: same_sync_def note_event_steady deletes_open_def Let_def open_is_def split: option.split)

lemma apply_held:
  assumes c: "consistent c" "tidy c" and kept: "\<not> deletes_open e c"
  shows "held (snd (client_apply_event e c)) = map_option (\<lambda>sn. snd (fold_event e sn)) (held c)"
    and "tidy (snd (client_apply_event e c))"
proof -
  let ?c1 = "retired e c" and ?body = "ev_body e"
  let ?c2 = "snd (note_event ?body ?c1)"
  have paired: "paired c" and holding: "holds_back c" using c(1) shows_paired by (auto simp: consistent_def)
  have same: "same_sync ?c1 ?c2" using kept by (intro note_event_undeleted) (cases ?body; simp add: deletes_open_def open_is_def)
  then have c2: "cl_committed ?c2 = cl_committed c" "cl_deferred ?c2 = cl_deferred c" "cl_draft ?c2 = cl_draft c"
    by (simp_all add: same_sync_def)
  let ?hold = "is_resolved_body ?body \<and> (\<exists>review. body_review_id ?body = Some review \<and> open_is review ?c1) \<and> cl_draft ?c1 \<noteq> None"
  have "held (snd (client_apply_event e c)) = map_option (\<lambda>sn. snd (fold_event e sn)) (held c) \<and> tidy (snd (client_apply_event e c))"
  proof (cases ?hold)
    case True
    then have "snd (client_apply_event e c) = snd (hold_back e ?c1)" by (simp add: client_apply_event_alt)
    then show ?thesis using True
      by (auto simp: hold_back_def Let_def held_def tidy_def option.map_comp comp_def)
  next
    case False
    have run: "snd (client_apply_event e c) = snd (fold_committed e (fst (note_event ?body ?c1)) ?c2)"
      unfolding client_apply_event_alt by (rule if_not_P [OF False])
    show ?thesis
    proof (cases "concerns e c")
      case True
      then obtain sn where sn: "cl_committed c = Some sn" "body_review_id ?body = Some (rv_id (sn_review sn))"
        by (auto simp: concerns_def)
      have past: "fold_events (snd (fold_event e sn)) (cl_deferred c) = snd (fold_event e (fold_events sn (cl_deferred c)))"
      proof (cases "is_resolved_body ?body")
        case True
        have "open_is (rv_id (sn_review sn)) ?c1" using paired sn(1) by (auto simp: open_is_def paired_def split: option.splits)
        then have "cl_deferred c = []" using False True sn(2) c(2) by (auto simp: tidy_def)
        then show ?thesis by simp
      next
        case False
        then show ?thesis using holding sn(1) by (intro fold_past) (auto simp: holds_back_def)
      qed
      have "concerns e ?c2" using True c2 by (simp add: concerns_def)
      then show ?thesis
        using fold_committed_mine [of ?c2 sn e "fst (note_event ?body ?c1)"] sn(1) c2 c(2) past by (simp add: run held_def tidy_def same_sync_def)
    next
      case other: False
      then have "\<not> concerns e ?c2" using c2 by (simp add: concerns_def)
      then have unchanged: "snd (client_apply_event e c) = ?c2" by (simp add: run fold_committed_other)
      have "snd (fold_event e (fold_events sn ds)) = fold_events sn ds" if "cl_committed c = Some sn" for sn ds
        using other that by (intro fold_other) (auto simp: concerns_def fold_events_review)
      then show ?thesis using c2 c(2) by (cases "cl_committed c") (simp_all add: unchanged held_def tidy_def)
    qed
  qed
  then show "held (snd (client_apply_event e c)) = map_option (\<lambda>sn. snd (fold_event e sn)) (held c)"
    and "tidy (snd (client_apply_event e c))" by simp_all
qed

text \<open>The refreshes a draft held back, when it closes.\<close>

lemma apply_each_held:
  assumes "consistent c" "cl_draft c = None" "cl_deferred c = []" "\<forall>e\<in>set es. is_resolved_body (ev_body e) \<and> concerns e c"
  shows "held (snd (apply_each es c)) = map_option (\<lambda>sn. fold_events sn es) (held c)"
    and "cl_deferred (snd (apply_each es c)) = []" and "cl_draft (snd (apply_each es c)) = None"
proof -
  have "held (snd (apply_each es c)) = map_option (\<lambda>sn. fold_events sn es) (held c)
      \<and> cl_deferred (snd (apply_each es c)) = [] \<and> cl_draft (snd (apply_each es c)) = None"
    using assms
  proof (induction es arbitrary: c)
    case (Cons e es)
    have e: "is_resolved_body (ev_body e)" "concerns e c" using Cons.prems(4) by simp_all
    note step = apply_resolved [OF e(1) Cons.prems(2) e(2) Cons.prems(1)]
    have "\<not> deletes_open e c" using e(1) by (cases "ev_body e") (simp_all add: deletes_open_def)
    note one = apply_held [OF Cons.prems(1) _ this]
    have "cl_deferred (snd (client_apply_event e c)) = []"
      using one(2) step(2) Cons.prems(2,3) by (simp add: tidy_def)
    then have "held (snd (apply_each es (snd (client_apply_event e c)))) =
        map_option (\<lambda>sn. fold_events sn es) (held (snd (client_apply_event e c)))
      \<and> cl_deferred (snd (apply_each es (snd (client_apply_event e c)))) = []
      \<and> cl_draft (snd (apply_each es (snd (client_apply_event e c)))) = None"
      using Cons.prems(4) by (intro Cons.IH step) (simp_all add: step)
    then show ?case
      using one(1) Cons.prems(2,3) by (simp add: Let_def case_prod_unfold tidy_def option.map_comp comp_def fold_events_Cons)
  qed (simp add: option.map_ident)
  then show "held (snd (apply_each es c)) = map_option (\<lambda>sn. fold_events sn es) (held c)"
    and "cl_deferred (snd (apply_each es c)) = []" and "cl_draft (snd (apply_each es c)) = None" by simp_all
qed

lemma draft_closed_held:
  assumes "consistent c"
  shows "held (snd (draft_closed effects c)) = held c" and "tidy (snd (draft_closed effects c))"
proof -
  let ?c1 = "c\<lparr>cl_draft := None, cl_deferred := [], cl_pending_refresh := False\<rparr>"
  have run: "snd (draft_closed effects c) = snd (apply_each (cl_deferred c) ?c1)"
    by (simp add: draft_closed_def drain_deferred_def Let_def case_prod_unfold)
  have "consistent ?c1" using assms by (auto simp: consistent_def holds_back_def shows_pending_def split: option.splits)
  moreover have "\<forall>e\<in>set (cl_deferred c). is_resolved_body (ev_body e) \<and> concerns e ?c1"
    using assms resolved_review by (fastforce simp: consistent_def holds_back_def concerns_def)
  ultimately have "held (snd (apply_each (cl_deferred c) ?c1)) = map_option (\<lambda>sn. fold_events sn (cl_deferred c)) (held ?c1)"
    "cl_deferred (snd (apply_each (cl_deferred c) ?c1)) = []"
    by (intro apply_each_held; simp)+
  then show "held (snd (draft_closed effects c)) = held c" and "tidy (snd (draft_closed effects c))"
    by (cases "cl_committed c"; simp add: run held_def tidy_def)+
qed

section \<open>An input\<close>

text \<open>The events an input gives the client that it has not seen.\<close>

definition accepted :: "client_input \<Rightarrow> client \<Rightarrow> event list" where
  "accepted i c =
     (case i of
        In_Server (Server_Event e) \<Rightarrow>
          (case cl_connection c of
             Conn_Subscribed seen \<Rightarrow> if seen < ev_seq e then [e] else []
           | Conn_Connecting True (Some seen) \<Rightarrow> if seen < ev_seq e then [e] else []
           | _ \<Rightarrow> [])
      | In_Server (Server_Response rid (Resp_Committed e)) \<Rightarrow>
          (case (cl_in_flight c rid, cl_connection c) of
             (Some (Flight_Mutate _), Conn_Subscribed seen) \<Rightarrow> if seen < ev_seq e then [e] else []
           | (Some (Flight_ApplySuggestion review cid), Conn_Subscribed seen) \<Rightarrow>
               if is_application review cid (ev_body e) \<and> seen < ev_seq e then [e] else []
           | _ \<Rightarrow> [])
      | _ \<Rightarrow> [])"

text \<open>
  The event an application is answered with is folded again when it came before, by its broadcast. That
  changes nothing when the snapshot has its receipt.
\<close>

definition repeated :: "client_input \<Rightarrow> client \<Rightarrow> event list" where
  "repeated i c =
     (case i of
        In_Server (Server_Response rid (Resp_Committed e)) \<Rightarrow>
          (case (cl_in_flight c rid, cl_connection c) of
             (Some (Flight_ApplySuggestion review cid), Conn_Subscribed seen) \<Rightarrow>
               if is_application review cid (ev_body e) \<and> ev_seq e \<le> seen then [e] else []
           | _ \<Rightarrow> [])
      | _ \<Rightarrow> [])"

definition has_receipt :: "event \<Rightarrow> review_snapshot \<Rightarrow> bool" where
  "has_receipt e sn \<longleftrightarrow>
     (case ev_body e of
        SuggestionApplied review cid _ _ _ \<Rightarrow>
          (case find (\<lambda>r. sg_comment_id r = cid) (sn_suggestions sn) of
             None \<Rightarrow> True
           | Some record \<Rightarrow> (case sg_outcome record of Outcome_Unapplied \<Rightarrow> False | Outcome_Applied receipt \<Rightarrow> ev_seq e \<le> sr_seq receipt))
      | _ \<Rightarrow> False)"

lemma find_update_first:
  "(\<And>x. P (f x) = P x) \<Longrightarrow> find P (update_first P f xs) = map_option f (find P xs)"
  by (induction xs) simp_all

text \<open>Folding an application leaves its receipt, and folding it again then changes nothing.\<close>

lemma fold_receipt: "has_receipt e sn \<Longrightarrow> snd (fold_event e sn) = sn"
  by (auto simp: has_receipt_def fold_event_def fold_body_def note_suggestion_def note_request_def note_checkpoint_def
      request_from_event_def checkpoint_from_event_def split: event_body.splits option.splits suggestion_outcome.splits)

lemma fold_has_receipt:
  assumes "ev_body e = SuggestionApplied (rv_id (sn_review sn)) cid repo_id path blob"
  shows "has_receipt e (snd (fold_event e sn))"
proof -
  have "snd (fold_event e sn) = note_suggestion e sn"
    using assms by (simp add: fold_event_def fold_body_def note_request_def note_checkpoint_def request_from_event_def checkpoint_from_event_def
        note_suggestion_def split: option.split)
  moreover have "has_receipt e (note_suggestion e sn)"
    using assms
    by (auto simp: note_suggestion_def has_receipt_def find_update_first suggestion_applied_def split: option.split suggestion_outcome.splits)
  ultimately show ?thesis by simp
qed

text \<open>
  The user keeps the review open, no snapshot replaces it, it is not deleted, no preview tells of a receipt,
  and the snapshot has the receipt of an application that is answered again.
\<close>

definition steady :: "client_input \<Rightarrow> client \<Rightarrow> bool" where
  "steady i c \<longleftrightarrow>
     (case i of
        In_User Act_CloseReview \<Rightarrow> False
      | In_Server (Server_Response _ (Resp_ReviewSnapshot _)) \<Rightarrow> False
      | In_Server (Server_StreamItem _ (Item_ReviewSnapshot _)) \<Rightarrow> False
      | In_Server (Server_Response _ (Resp_SuggestionPreview preview)) \<Rightarrow> sg_outcome (pr_suggestion preview) = Outcome_Unapplied
      | _ \<Rightarrow> True)
     \<and> list_all (\<lambda>e. \<not> deletes_open e c) (accepted i c)
     \<and> list_all (\<lambda>e. case held c of None \<Rightarrow> True | Some sn \<Rightarrow> has_receipt e sn) (repeated i c)"

definition still :: "client \<Rightarrow> client \<Rightarrow> bool" where
  "still c c' \<longleftrightarrow> cl_committed c' = cl_committed c \<and> cl_deferred c' = cl_deferred c \<and> cl_draft c' = cl_draft c"

lemma stillD: "still c c' \<Longrightarrow> held c' = held c \<and> (tidy c \<longrightarrow> tidy c')"
  by (simp add: still_def held_def tidy_def)

lemma same_still: "same_sync c c' \<Longrightarrow> still c c'"
  by (simp add: same_sync_def still_def)

lemma still_refl [simp]: "still c c"
  by (simp add: still_def)

lemma still_trans: "still a b \<Longrightarrow> still b c \<Longrightarrow> still a c"
  by (simp add: still_def)

lemma still_rebase: "still c c' \<Longrightarrow> still c (snd (rebase c'))"
  by (simp add: still_def)

lemma still_send: "still c c' \<Longrightarrow> still c (snd (send_request req waiting c'))" "still c c' \<Longrightarrow> still c (snd (send_requests reqs c'))"
  using still_trans same_still send_same sends_same by blast+

lemma still_list: "still c c' \<Longrightarrow> still c (snd (list_files review c'))"
  by (simp add: list_files_def Let_def case_prod_unfold still_send)

lemma still_retire: "still c c' \<Longrightarrow> still c (snd (retire_pending q c'))"
  by (simp add: still_def retire_pending_def Let_def)

lemma still_clear: "still c c' \<Longrightarrow> still c (clear_in_flight c')"
  by (simp add: still_def clear_in_flight_def)

lemma still_forget: "still c c' \<Longrightarrow> still c (forget_request rid c')"
  by (simp add: still_def forget_request_def)

lemma still_update [simp]:
  "still c (c'\<lparr>cl_connection := a\<rparr>) = still c c'" "still c (c'\<lparr>cl_recovery := b\<rparr>) = still c c'"
  "still c (c'\<lparr>cl_connection_view := v\<rparr>) = still c c'" "still c (c'\<lparr>cl_last_error := x\<rparr>) = still c c'"
  "still c (c'\<lparr>cl_now := n\<rparr>) = still c c'" "still c (c'\<lparr>cl_ids := g\<rparr>) = still c c'"
  "still c (c'\<lparr>cl_latest_open := l\<rparr>) = still c c'" "still c (c'\<lparr>cl_workspaces := w\<rparr>) = still c c'"
  "still c (c'\<lparr>cl_reviews := r\<rparr>) = still c c'" "still c (c'\<lparr>cl_pending := p\<rparr>) = still c c'"
  "still c (c'\<lparr>cl_next_client_seq := q\<rparr>) = still c c'" "still c (c'\<lparr>cl_in_flight := f\<rparr>) = still c c'"
  "still c (c'\<lparr>cl_snapshot_events := s\<rparr>) = still c c'"
  "still c (c'\<lparr>cl_progress := sp\<rparr>) = still c c'" "still c (c'\<lparr>cl_files := fs\<rparr>) = still c c'"
  "still c (c'\<lparr>cl_latest_files := lf\<rparr>) = still c c'"
  by (simp_all add: still_def)

lemma still_preview: "still c c' \<Longrightarrow> still c (snd (client_preview_suggestion cid c'))"
  by (simp add: client_preview_suggestion_def set_progress_def Let_def case_prod_unfold still_send split: sum.split)

lemma still_preview_each: "still c c' \<Longrightarrow> still c (snd (preview_each cids c'))"
  by (induction cids arbitrary: c') (simp_all add: Let_def case_prod_unfold still_preview)

lemma still_application: "still c c' \<Longrightarrow> still c (snd (client_apply_suggestion cid c'))"
  by (simp add: client_apply_suggestion_def set_progress_def Let_def case_prod_unfold still_send split: sum.split suggestion_status.split)

lemma still_failed: "still c c' \<Longrightarrow> still c (snd (client_suggestion_failed rid review cid error c'))"
  by (simp add: client_suggestion_failed_def set_progress_def Let_def split: option.split)

lemma still_disconnected: "still c c' \<Longrightarrow> still c (snd (suggestions_disconnected c'))"
  by (simp add: suggestions_disconnected_def)

lemmas still_rules = still_list still_preview still_preview_each still_application still_failed still_disconnected still_rebase still_send still_retire still_clear still_forget

lemma still_with: "still c c' \<Longrightarrow> still c (snd (mutate_with m body c'))"
  by (simp add: mutate_with_def Let_def case_prod_unfold still_rules)

lemma still_mutate: "still c c' \<Longrightarrow> still c (snd (mutate m c'))"
  by (simp add: mutate_def Let_def case_prod_unfold still_with split: sum.split)

lemma still_marked: "still c (snd (on_mark_viewed repo_id path viewed c))"
  by (simp add: on_mark_viewed_def Let_def case_prod_unfold still_with split: sum.split)

lemma still_restart:
  "still c c' \<Longrightarrow> still c (snd (restart_tick c'))" "still c c' \<Longrightarrow> still c (snd (restart_notice operation c'))"
  "still c c' \<Longrightarrow> still c (snd (restart_disconnected_view c'))"
  by (simp_all add: restart_tick_def restart_notice_def restart_disconnected_view_def still_clear split: recovery.split connection.split)

lemma still_transport: "still c (snd (on_transport ev c))"
  by (cases ev) (simp_all add: Let_def case_prod_unfold still_rules still_restart split: connection.split bool.split)

lemma still_rejected: "still c (snd (on_rejected error c))"
  by (simp add: on_rejected_def Let_def case_prod_unfold still_rules still_restart split: connection.split rpc_error.split)

lemma still_frames:
  "still c (snd (on_welcome c))" "still c (snd (on_stream_end rid c))" "still c (snd (on_error rid error c))"
  "still c (snd (on_subscribed head c))"
  by (simp_all add: on_welcome_def on_stream_end_def on_error_def on_subscribed_def suggestions_reconnected_def mutation_failed_def Let_def case_prod_unfold still_rules
      split: connection.split bool.split option.split in_flight.split)

text \<open>An action of the user; an editor that closes applies what it held back.\<close>

definition steadied :: "client \<Rightarrow> client \<Rightarrow> bool" where
  "steadied c c' \<longleftrightarrow> held c' = held c \<and> (tidy c \<longrightarrow> tidy c')"

lemma still_steadied: "still c c' \<Longrightarrow> steadied c c'"
  unfolding steadied_def by (rule stillD)

lemma closed_steadied: "still c c' \<Longrightarrow> consistent c' \<Longrightarrow> steadied c (snd (draft_closed effects c'))"
  using stillD [of c c'] draft_closed_held [of c' effects] by (simp add: steadied_def)

lemma open_draft_steadied: "steadied c (snd (open_draft d c))"
  by (simp add: steadied_def open_draft_def held_def tidy_def)

lemma submitted_steadied: "consistent c \<Longrightarrow> steadied c (snd (on_draft_submitted body c))"
proof -
  assume c: "consistent c"
  have "steadied c (snd (case mutate m (c\<lparr>cl_ids := ids\<rparr>) of (Inl e, c2) \<Rightarrow> (Inl e, c2) | (Inr effects, c2) \<Rightarrow> draft_closed effects c2))" for m ids
    using still_mutate [of c "c\<lparr>cl_ids := ids\<rparr>" m] mutate_consistent [of "c\<lparr>cl_ids := ids\<rparr>" m] c closed_steadied still_steadied
    by (auto simp: consistent_view split: prod.split sum.split)
  then show ?thesis
    by (auto simp: on_draft_submitted_def Let_def case_prod_unfold still_steadied split: option.split sum.split draft_purpose.split)
qed

lemma deferring_steadied: "consistent c \<Longrightarrow> steadied c (snd (on_defer_thread tid reason url c))"
proof -
  assume c: "consistent c"
  have "steadied c (snd (case mutate m c of (Inl e, c1) \<Rightarrow> (Inl e, c1)
      | (Inr effects, c1) \<Rightarrow> if map_option dr_purpose (cl_draft c1) = Some (Draft_Defer tid) then draft_closed effects c1 else (Inr effects, c1)))" for m
    using still_mutate [of c c m] mutate_consistent [OF c, of m] closed_steadied still_steadied
    by (auto split: prod.split sum.split)
  then show ?thesis by (auto simp: on_defer_thread_def on_review_def still_steadied split: sum.split)
qed

lemma on_review_steadied: "(\<And>review. steadied c (snd (f review c))) \<Longrightarrow> steadied c (snd (on_review f c))"
  by (simp add: on_review_def still_steadied split: sum.split)

lemma action_steadied:
  assumes "consistent c" "action \<noteq> Act_CloseReview"
  shows "steadied c (snd (on_action action c))"
proof -
  have reply: "steadied c (snd (on_reply tid body c))" for tid body
    unfolding on_reply_def
    by (rule on_review_steadied) (simp add: case_prod_unfold Let_def still_steadied still_mutate)
  have drafts: "steadied c (snd (on_draft_opened c))" "steadied c (snd (on_reply_opened tid c))" "steadied c (snd (on_defer_opened tid c))" for tid
    by (simp_all add: on_draft_opened_def on_reply_opened_def on_defer_opened_def open_draft_steadied still_steadied
        split: option.split sum.split thread_resolution.split)
  have discard: "steadied c (snd (on_draft_discarded c))"
    using assms(1) by (simp add: on_draft_discarded_def closed_steadied still_steadied)
  have connect: "steadied c (snd (on_connect c))" "steadied c (snd (on_disconnect c))"
    by (simp_all add: on_connect_def on_disconnect_def still_steadied split: connection.split)
  have requesting: "steadied c (snd (requesting req waiting c))" for req waiting
    by (simp add: requesting_def Let_def case_prod_unfold still_steadied still_send split: sum.split)
  show ?thesis
    using assms
    by (cases action)
      (simp_all add: reply drafts discard connect requesting on_open_review_def submitted_steadied deferring_steadied
        on_review_steadied still_steadied still_mutate still_marked still_rules)
qed

definition follow_on :: "event list \<Rightarrow> client \<Rightarrow> client \<Rightarrow> bool" where
  "follow_on es c c' \<longleftrightarrow> held c' = map_option (\<lambda>sn. fold_events sn es) (held c) \<and> tidy c'"

lemma steadied_follow: "steadied c c' \<Longrightarrow> tidy c \<Longrightarrow> follow_on [] c c'"
  by (simp add: steadied_def follow_on_def option.map_ident)

lemma still_follow: "still c c' \<Longrightarrow> tidy c \<Longrightarrow> follow_on [] c c'"
  by (simp add: still_steadied steadied_follow)

lemma apply_follow:
  "consistent c \<Longrightarrow> tidy c \<Longrightarrow> \<not> deletes_open e c \<Longrightarrow> still c c' \<Longrightarrow> consistent c' \<Longrightarrow> cl_open c' = cl_open c \<Longrightarrow>
     follow_on [e] c (snd (client_apply_event e c'))"
  using apply_held [of c' e] stillD [of c c']
  by (simp add: follow_on_def fold_events_Cons deletes_open_def open_is_def split: event_body.splits)

lemma event_follow:
  assumes "consistent c" "tidy c" "steady (In_Server (Server_Event e)) c"
  shows "follow_on (accepted (In_Server (Server_Event e)) c) c (snd (on_event e c))"
proof -
  have new: "follow_on [e] c (snd (client_apply_event e (c\<lparr>cl_connection := a\<rparr>)))" if "\<not> deletes_open e c" for a
    using assms(1,2) that by (intro apply_follow) (simp_all add: consistent_view)
  have none: "follow_on [] c c" using assms(2) by (simp add: still_follow)
  show ?thesis
    using assms(3) new none
    by (auto simp: on_event_def accepted_def steady_def Let_def case_prod_unfold split: connection.splits bool.splits option.splits if_splits)
qed

lemma committed_follow:
  assumes "consistent c" "tidy c" "cl_in_flight c rid = Some (Flight_Mutate q)" "steady (In_Server (Server_Response rid (Resp_Committed e))) c"
  shows "follow_on (accepted (In_Server (Server_Response rid (Resp_Committed e))) c) c (snd (on_committed q e c))"
proof -
  have new: "follow_on [e] c (snd (client_apply_event e (c\<lparr>cl_connection := a\<rparr>)))" if "\<not> deletes_open e c" for a
    using assms(1,2) that by (intro apply_follow) (simp_all add: consistent_view)
  have none: "follow_on [] c c" "follow_on [] c (snd (rebase (snd (retire_pending q c))))" "follow_on [] c (snd (retire_pending q c))"
    using assms(2) by (simp_all add: still_follow still_rules)
  show ?thesis
    using assms(3,4) new none
    by (auto simp: on_committed_def accepted_def steady_def Let_def case_prod_unfold split: connection.splits if_splits)
qed

lemma applied_follow:
  assumes "consistent c" "tidy c" "cl_in_flight c rid = Some (Flight_ApplySuggestion review cid)"
    and "steady (In_Server (Server_Response rid (Resp_Committed e))) c"
  shows "follow_on (accepted (In_Server (Server_Response rid (Resp_Committed e))) c) c (snd (client_suggestion_applied rid review cid e c))"
proof -
  have new: "follow_on [e] c (snd (client_apply_event e (c\<lparr>cl_connection := a\<rparr>)))"
    "follow_on [e] c (snd (client_apply_event e (c\<lparr>cl_progress := t, cl_connection := a\<rparr>)))" if "\<not> deletes_open e c" for a t
    using assms(1,2) that by (intro apply_follow; simp add: consistent_view)+
  have old: "follow_on es c c' \<Longrightarrow> follow_on [] c c'" if "es = [e]" "case held c of None \<Rightarrow> True | Some sn \<Rightarrow> has_receipt e sn" for es c'
    using that by (cases "held c") (simp_all add: follow_on_def fold_events_Cons fold_receipt)
  have none: "follow_on [] c c" "follow_on [] c (c\<lparr>cl_progress := t\<rparr>)" for t using assms(2) by (simp_all add: still_follow)
  have kept: "\<not> deletes_open e c" if "is_application review cid (ev_body e)"
    using that by (cases "ev_body e") (simp_all add: deletes_open_def)
  show ?thesis
  proof (cases "is_application review cid (ev_body e)")
    case False
    then show ?thesis using assms(3) none by (simp add: client_suggestion_applied_def accepted_def split: connection.split)
  next
    case True
    note run = new [OF kept [OF True]] and idle = old [OF refl]
    show ?thesis
      using assms(3,4) True run idle [OF _ run(1)] idle [OF _ run(2)] none
      by (auto simp: client_suggestion_applied_def set_progress_def accepted_def repeated_def steady_def Let_def case_prod_unfold not_less
          split: connection.splits option.splits if_splits)
  qed
qed

lemma forget_follow: "follow_on es c c' \<Longrightarrow> follow_on es c (forget_request rid c')"
  by (simp add: follow_on_def held_def tidy_def forget_request_def)

lemma response_follow:
  assumes "consistent c" "tidy c" "steady (In_Server (Server_Response rid response)) c"
  shows "follow_on (accepted (In_Server (Server_Response rid response)) c) c (snd (on_response rid response c))"
proof (cases "cl_in_flight c rid")
  case None
  then have "accepted (In_Server (Server_Response rid response)) c = []"
    by (cases response) (simp_all add: accepted_def)
  then show ?thesis using None assms(2) by (simp add: on_response_def still_follow)
next
  case (Some waiting)
  let ?es = "accepted (In_Server (Server_Response rid response)) c"
  have kept: "\<nexists>sn. response = Resp_ReviewSnapshot sn" using assms(3) by (auto simp: steady_def)
  have answered: "follow_on ?es c (snd (answer rid waiting response c))"
  proof (cases "(\<exists>q. waiting = Flight_Mutate q \<or> apply_flight waiting) \<and> (\<exists>e. response = Resp_Committed e)")
    case True
    then show ?thesis using Some assms committed_follow applied_follow by (cases waiting) (auto simp: answer_def)
  next
    case False
    then have "?es = []" using Some by (cases response; cases waiting) (simp_all add: accepted_def)
    moreover have "still c (snd (client_suggestion_previewed rid review cid preview c))" if "sg_outcome (pr_suggestion preview) = Outcome_Unapplied"
      for review cid preview
      using that by (simp add: client_suggestion_previewed_def set_progress_def Let_def split: sum.split option.split)
    then have "still c (snd (answer rid waiting response c))"
      using False kept assms(3)
      by (auto simp: answer_def wrong_response_def on_workspaces_def on_reviews_def on_files_def steady_def still_frames still_rules Let_def
          case_prod_unfold split: in_flight.split client_response.split)
    ultimately show ?thesis using assms(2) by (simp add: still_follow)
  qed
  have "follow_on ?es c (snd (case answer rid waiting response c of (Inl e, c') \<Rightarrow> (Inl e, c') | (Inr effects, c') \<Rightarrow> (Inr effects, forget_request rid c')))"
    using answered forget_follow by (auto split: prod.split sum.split)
  moreover have "follow_on ?es c (forget_request rid c)" if "case waiting of Flight_ReviewSnapshot _ \<Rightarrow> True | _ \<Rightarrow> False"
  proof -
    have "?es = []" using that Some by (cases response; cases waiting) (simp_all add: accepted_def)
    then show ?thesis using assms(2) by (simp add: still_follow still_forget)
  qed
  ultimately show ?thesis using Some by (simp add: on_response_def)
qed

lemma input_follow:
  assumes "consistent c" "tidy c" "steady i c"
  shows "follow_on (accepted i c) c (snd (client_handle i c))"
proof (cases i)
  case (In_User action)
  then have "steadied c (snd (on_action action c))" using assms by (intro action_steadied) (auto simp: steady_def)
  then show ?thesis using assms(2) In_User by (simp add: accepted_def steadied_follow)
next
  case (In_Server msg)
  show ?thesis
  proof (cases msg)
    case (Server_Response rid response)
    then show ?thesis using assms In_Server response_follow by simp
  next
    case (Server_Event e)
    then show ?thesis using assms In_Server event_follow by simp
  next
    case (Server_StreamItem rid item)
    then have "still c (snd (on_stream_item rid item c))"
      using assms(3) In_Server by (auto simp: steady_def on_stream_item_def list_header_def Let_def split: stream_item.splits option.split in_flight.split)
    then show ?thesis using assms(2) In_Server Server_StreamItem by (simp add: accepted_def still_follow)
  qed (use assms(2) In_Server in \<open>simp_all add: accepted_def still_follow still_frames still_rejected still_restart Let_def case_prod_unfold
      split: connection.split\<close>)
qed (use assms(2) in \<open>simp_all add: accepted_def still_follow still_transport still_restart Let_def case_prod_unfold\<close>)

section \<open>A run\<close>

fun run_accepted :: "client_input list \<Rightarrow> client \<Rightarrow> event list" where
  "run_accepted [] c = []"
| "run_accepted (i # is) c = accepted i c @ run_accepted is (snd (client_handle i c))"

fun run_steady :: "client_input list \<Rightarrow> client \<Rightarrow> bool" where
  "run_steady [] c \<longleftrightarrow> True"
| "run_steady (i # is) c \<longleftrightarrow> expected_input i c \<and> steady i c \<and> run_steady is (snd (client_handle i c))"

lemma run_follow:
  "consistent c \<Longrightarrow> tidy c \<Longrightarrow> run_steady is c \<Longrightarrow> follow_on (run_accepted is c) c (client_run is c) \<and> consistent (client_run is c)"
proof (induction "is" arbitrary: c)
  case (Cons i "is")
  have i: "expected_input i c" "steady i c" "run_steady is (snd (client_handle i c))" using Cons.prems(3) by simp_all
  have one: "follow_on (accepted i c) c (snd (client_handle i c))" by (rule input_follow [OF Cons.prems(1,2) i(2)])
  then have "tidy (snd (client_handle i c))" by (simp add: follow_on_def)
  from Cons.IH [OF input_consistent [OF Cons.prems(1) i(1)] this i(3)] one show ?case
    by (simp add: follow_on_def option.map_comp comp_def fold_events_append)
qed (simp add: still_follow)

text \<open>
  C5: A client in step stays in step: let its committed snapshot follow the daemon's views, with nothing held
  back, and let the daemon append events that the core validated, that create a review only once and that have
  each file of a review marked viewed by one person only (\<open>client_guard\<close>; with two persons the daemon keeps
  one mark and the client both, lemma \<open>viewed_marks_drift\<close>). Take any run of inputs that is steady and in which the client takes exactly the
  appended events. Steady means that the user keeps the review open, that no snapshot replaces it and no event
  deletes it, that an event answering a pending mutation is of the open review and not a refresh a draft holds
  back, that no preview of a suggestion tells of a receipt, and that an application answered after its
  broadcast has left its receipt. Edits and refusals, suggestions, lost connections, restarts, drafts and
  reviews being listed may come in between. Then the client's committed snapshot, with the refreshes that an
  open draft still holds back, has the contents of the daemon's snapshot.
\<close>

theorem client_stays_in_step:
  assumes "client_reachable c" "cl_deferred c = []" "cl_committed c = Some sn" "follows r sn (st_views s)"
    and "reachable_by client_guard s" "append_all client_guard news s = Some s'" "store_len s' < 2 ^ 64 - 1"
    and "run_steady is c" "log_events s' = log_events s @ run_accepted is c" "store_review_snapshot s' r = Some theirs"
  shows "\<exists>ours. cl_committed (client_run is c) = Some ours \<and> same_contents (fold_events ours (cl_deferred (client_run is c))) theirs"
proof -
  have "consistent c" by (rule client_reachable_consistent [OF assms(1)])
  moreover have "tidy c" using assms(2) by (simp add: tidy_def)
  ultimately have run: "follow_on (run_accepted is c) c (client_run is c)" using run_follow assms(8) by blast
  have "held c = Some sn" using assms(2,3) by (simp add: held_def)
  with run obtain ours where ours: "cl_committed (client_run is c) = Some ours"
    "fold_events ours (cl_deferred (client_run is c)) = fold_events sn (run_accepted is c)"
    by (auto simp: follow_on_def held_def)
  obtain es where "log_events s' = log_events s @ es" "follows r (fold_events sn es) (st_views s')"
    using follow_all [OF assms(6,5,7,4)] by blast
  then have mine: "follows r (fold_events ours (cl_deferred (client_run is c))) (st_views s')" using assms(9) ours(2) by simp
  have "keys_ok (st_views s')" by (rule reachable_keys [OF append_all_reachable [OF assms(6,5)]])
  then have "follows r theirs (st_views s')" using snapshot_follows assms(10) by (simp add: store_review_snapshot_def)
  then show ?thesis using ours(1) follows_same [OF mine] by blast
qed

definition sample_session :: "event list \<Rightarrow> client_input list" where
  "sample_session es =
     [In_User (Act_ResolveThread (ThreadId (Ulid 4 4))), In_Server (Server_Event (es ! 0)), In_Transport Transport_Disconnected, In_User Act_Connect, In_Transport Transport_Connected,
      In_Server (Server_Welcome protocol_CURRENT (cf_client sample_config) 1 None),
      In_Server (Server_Event (es ! 1)), In_Server (Server_Event (es ! 2)),
      In_Server (Server_Response (RequestId 5) (Resp_Subscribed 7))]"

lemma sample_session_run:
  "(case append_all client_guard sample_log fresh_store of None \<Rightarrow> None | Some s \<Rightarrow>
    (case store_review_snapshot s (ReviewId (Ulid 2 2)) of None \<Rightarrow> None | Some sn \<Rightarrow>
    (case append_all client_guard sample_later s of None \<Rightarrow> None | Some s' \<Rightarrow>
    (case store_review_snapshot s' (ReviewId (Ulid 2 2)) of None \<Rightarrow> None | Some theirs \<Rightarrow>
      let c = client_run (sample_join sn) (client_new sample_config 0); es = events_after (Some 4) s' in
      Some (run_expected (sample_join sn) (client_new sample_config 0), cl_deferred c, cl_committed c = Some sn,
        store_len s', store_len s, run_steady (sample_session es) c, run_accepted (sample_session es) c = es,
        length (cl_pending (client_run (sample_session es) c)), conn_last_seq (cl_connection (client_run (sample_session es) c)))))))
   = Some (True, [], True, 7, 4, True, True, 1, Some 7)"
  by code_simp

theorem client_stays_in_step_witness:
  "\<exists>c is theirs ours. client_reachable c \<and> run_steady is c \<and> length (run_accepted is c) = 3 \<and> length (cl_pending (client_run is c)) = 1
     \<and> cl_committed (client_run is c) = Some ours \<and> same_contents (fold_events ours (cl_deferred (client_run is c))) theirs"
proof -
  let ?r = "ReviewId (Ulid 2 2)"
  obtain s sn s' theirs where s: "append_all client_guard sample_log fresh_store = Some s"
    and sn: "store_review_snapshot s ?r = Some sn" and s': "append_all client_guard sample_later s = Some s'"
    and theirs: "store_review_snapshot s' ?r = Some theirs"
    using sample_session_run by (auto split: option.splits)
  let ?c = "client_run (sample_join sn) (client_new sample_config 0)" and ?es = "events_after (Some 4) s'"
  have run: "run_expected (sample_join sn) (client_new sample_config 0)" "cl_deferred ?c = []" "cl_committed ?c = Some sn"
    "store_len s' = 7" "store_len s = 4" "run_steady (sample_session ?es) ?c" "run_accepted (sample_session ?es) ?c = ?es"
    "length (cl_pending (client_run (sample_session ?es) ?c)) = 1"
    using sample_session_run by (simp_all add: s sn s' theirs Let_def)
  have c: "client_reachable ?c" by (rule run_reachable [OF created run(1)])
  have reach: "reachable_by client_guard s" by (rule append_all_reachable [OF s reachable_fresh_store])
  have follows: "follows ?r sn (st_views s)"
    using snapshot_follows [OF reachable_keys [OF reach]] sn by (simp add: store_review_snapshot_def)
  have inv: "log_inv s" "log_inv s'"
    using reachable_log_inv [OF reach] reachable_log_inv [OF append_all_reachable [OF s' reach]] run(4,5) by simp_all
  have "log_events s = take 4 (log_events s')" using append_all_log [OF s' inv(1)] run(4,5) length_log_events [of s] by auto
  moreover have "?es = drop 4 (log_events s')" using events_after_drop [OF inv(2), of 4] run(4) by simp
  ultimately have log: "log_events s' = log_events s @ run_accepted (sample_session ?es) ?c" using run(7) by simp
  have "length ?es = 3" using \<open>?es = drop 4 (log_events s')\<close> length_log_events [of s'] run(4) by simp
  moreover obtain ours where "cl_committed (client_run (sample_session ?es) ?c) = Some ours"
    "same_contents (fold_events ours (cl_deferred (client_run (sample_session ?es) ?c))) theirs"
    using client_stays_in_step [OF c run(2,3) follows reach s' _ run(6) log theirs] run(4) by auto
  ultimately show ?thesis using c run by (intro exI [of _ ?c] exI [of _ "sample_session ?es"]) auto
qed

end
