(* ===== verification/Nits_Client_Order.thy ===== *)
theory Nits_Client_Order
  imports Nits_Client_Follow
begin

text \<open>
  The order in which the client takes events, and the reconnections of a planned restart: over any run of
  inputs the accepted events have increasing numbers, an event that comes after a later one is refused, and a
  restart is given up.
\<close>

section \<open>Connection, clock and recovery\<close>

definition settled :: "client \<Rightarrow> client \<Rightarrow> bool" where
  "settled c c' \<longleftrightarrow> cl_now c' = cl_now c \<and> cl_recovery c' = cl_recovery c \<and> cl_connection c' = cl_connection c"

lemma settled_refl [simp]: "settled c c"
  by (simp add: settled_def)

lemma settled_trans: "settled a b \<Longrightarrow> settled b c \<Longrightarrow> settled a c"
  by (simp add: settled_def)

lemma settled_update [simp]:
  "settled c (c'\<lparr>cl_connection_view := v\<rparr>) = settled c c'" "settled c (c'\<lparr>cl_last_error := x\<rparr>) = settled c c'"
  "settled c (c'\<lparr>cl_ids := g\<rparr>) = settled c c'" "settled c (c'\<lparr>cl_latest_open := l\<rparr>) = settled c c'"
  "settled c (c'\<lparr>cl_workspaces := w\<rparr>) = settled c c'" "settled c (c'\<lparr>cl_reviews := r\<rparr>) = settled c c'"
  "settled c (c'\<lparr>cl_pending := p\<rparr>) = settled c c'" "settled c (c'\<lparr>cl_next_client_seq := q\<rparr>) = settled c c'"
  "settled c (c'\<lparr>cl_in_flight := f\<rparr>) = settled c c'" "settled c (c'\<lparr>cl_snapshot_events := s\<rparr>) = settled c c'"
  "settled c (c'\<lparr>cl_draft := d\<rparr>) = settled c c'" "settled c (c'\<lparr>cl_deferred := ds\<rparr>) = settled c c'"
  "settled c (c'\<lparr>cl_pending_refresh := b\<rparr>) = settled c c'" "settled c (c'\<lparr>cl_committed := k\<rparr>) = settled c c'"
  "settled c (c'\<lparr>cl_open := op\<rparr>) = settled c c'"  "settled c (c'\<lparr>cl_next_request := n\<rparr>) = settled c c'"
  "settled c (c'\<lparr>cl_progress := sp\<rparr>) = settled c c'" "settled c (c'\<lparr>cl_files := fs\<rparr>) = settled c c'"
  "settled c (c'\<lparr>cl_latest_files := lf\<rparr>) = settled c c'"
  by (simp_all add: settled_def)

lemma settled_rebase: "settled c c' \<Longrightarrow> settled c (snd (rebase c'))"
  by (simp add: settled_def)

lemma settled_send: "settled c c' \<Longrightarrow> settled c (snd (send_request req waiting c'))"
  by (simp add: send_request_def Let_def)

lemma settled_sends: "settled c c' \<Longrightarrow> settled c (snd (send_requests reqs c'))"
proof (induction reqs arbitrary: c')
  case (Cons r reqs)
  obtain req waiting where r: "r = (req, waiting)" by (cases r)
  show ?case using Cons.IH [OF settled_send [OF Cons.prems, of req waiting]] by (simp add: r Let_def case_prod_unfold)
qed simp

lemma settled_list: "settled c c' \<Longrightarrow> settled c (snd (list_files review c'))"
  by (simp add: list_files_def Let_def case_prod_unfold settled_send)

lemma settled_retire: "settled c c' \<Longrightarrow> settled c (snd (retire_pending q c'))"
  by (simp add: retire_pending_def Let_def)

lemma settled_clear: "settled c c' \<Longrightarrow> settled c (clear_in_flight c')"
  by (simp add: clear_in_flight_def)

lemma settled_forget: "settled c c' \<Longrightarrow> settled c (forget_request rid c')"
  by (simp add: forget_request_def)

lemma settled_close: "settled c c' \<Longrightarrow> settled c (close_review c')"
  by (simp add: close_review_def)

lemma settled_install: "settled c c' \<Longrightarrow> settled c (install_snapshot rid snapshot c')"
  by (simp add: install_snapshot_def Let_def case_prod_unfold settled_rebase settled_close split: option.split)

lemma settled_fold: "settled c c' \<Longrightarrow> settled c (snd (fold_committed e sections c'))"
proof -
  assume "settled c c'"
  then have "settled c (supersede_opening review c')" for review by (simp add: settled_def)
  then show ?thesis using \<open>settled c c'\<close>
    by (simp add: fold_committed_def Let_def case_prod_unfold settled_rebase settled_list split: option.split)
qed

lemma settled_apply: "settled c c' \<Longrightarrow> settled c (snd (client_apply_event e c'))"
proof -
  assume c: "settled c c'"
  have one: "settled c (retired e c')" using c by (simp add: settled_def)
  then have "settled c (snd (note_event (ev_body e) (retired e c')))" by (simp add: settled_def)
  moreover have "settled c (snd (hold_back e (retired e c')))" using one by (simp add: hold_back_def Let_def)
  ultimately show ?thesis by (simp add: client_apply_event_alt settled_fold)
qed

lemma settled_apply_each: "settled c c' \<Longrightarrow> settled c (snd (apply_each es c'))"
  by (induction es arbitrary: c') (simp_all add: Let_def case_prod_unfold settled_apply)

lemma settled_closed: "settled c c' \<Longrightarrow> settled c (snd (draft_closed effects c'))"
  by (simp add: draft_closed_def drain_deferred_def Let_def case_prod_unfold settled_apply_each)

lemma settled_preview: "settled c c' \<Longrightarrow> settled c (snd (client_preview_suggestion cid c'))"
  by (simp add: client_preview_suggestion_def set_progress_def Let_def case_prod_unfold settled_send split: sum.split)

lemma settled_preview_each: "settled c c' \<Longrightarrow> settled c (snd (preview_each cids c'))"
  by (induction cids arbitrary: c') (simp_all add: Let_def case_prod_unfold settled_preview)

lemma settled_application: "settled c c' \<Longrightarrow> settled c (snd (client_apply_suggestion cid c'))"
  by (simp add: client_apply_suggestion_def set_progress_def Let_def case_prod_unfold settled_send split: sum.split suggestion_status.split)

lemma settled_failed: "settled c c' \<Longrightarrow> settled c (snd (client_suggestion_failed rid review cid error c'))"
  by (simp add: client_suggestion_failed_def set_progress_def Let_def split: option.split)

lemma settled_previewed: "settled c (snd (client_suggestion_previewed rid review cid preview c))"
  by (simp add: client_suggestion_previewed_def set_progress_def Let_def settled_rebase split: sum.split option.split suggestion_outcome.split)

lemmas settled_rules = settled_list settled_preview settled_preview_each settled_application settled_failed settled_rebase settled_send settled_sends settled_retire settled_clear settled_forget settled_close
  settled_install settled_apply settled_closed

lemma settled_with: "settled c c' \<Longrightarrow> settled c (snd (mutate_with m body c'))"
  by (simp add: mutate_with_def Let_def case_prod_unfold settled_rules)

lemma settled_mutate: "settled c c' \<Longrightarrow> settled c (snd (mutate m c'))"
  by (simp add: mutate_def Let_def case_prod_unfold settled_with split: sum.split)

lemma settled_marked: "settled c (snd (on_mark_viewed repo_id path viewed c))"
  by (simp add: on_mark_viewed_def Let_def case_prod_unfold settled_with split: sum.split)

lemma settled_on_review: "(\<And>review. settled c (snd (f review c))) \<Longrightarrow> settled c (snd (on_review f c))"
  by (simp add: on_review_def split: sum.split)

lemma settled_submitted: "settled c (snd (on_draft_submitted body c))"
proof -
  have "settled c (snd (case mutate m (c\<lparr>cl_ids := ids\<rparr>) of (Inl e, c2) \<Rightarrow> (Inl e, c2) | (Inr effects, c2) \<Rightarrow> draft_closed effects c2))" for m ids
    using settled_mutate [of c "c\<lparr>cl_ids := ids\<rparr>" m] settled_closed by (auto split: prod.split sum.split)
  then show ?thesis
    by (auto simp: on_draft_submitted_def Let_def case_prod_unfold split: option.split sum.split draft_purpose.split)
qed

lemma settled_deferring: "settled c (snd (on_defer_thread tid reason url c))"
proof -
  have "settled c (snd (case mutate m c of (Inl e, c1) \<Rightarrow> (Inl e, c1)
      | (Inr effects, c1) \<Rightarrow> if map_option dr_purpose (cl_draft c1) = Some (Draft_Defer tid) then draft_closed effects c1 else (Inr effects, c1)))" for m
    using settled_mutate [of c c m] settled_closed by (auto split: prod.split sum.split)
  then show ?thesis by (auto simp: on_defer_thread_def on_review_def split: sum.split)
qed

lemma settled_action:
  assumes "action \<noteq> Act_Connect"
  shows "settled c (snd (on_action action c))"
proof -
  have reply: "settled c (snd (on_reply tid body c))" for tid body
    unfolding on_reply_def by (rule settled_on_review) (simp add: case_prod_unfold Let_def settled_mutate)
  have drafts: "settled c (snd (on_draft_opened c))" "settled c (snd (on_reply_opened tid c))" "settled c (snd (on_defer_opened tid c))"
    "settled c (snd (on_draft_discarded c))" for tid
    by (simp_all add: on_draft_opened_def on_reply_opened_def on_defer_opened_def on_draft_discarded_def open_draft_def settled_closed
        split: option.split sum.split thread_resolution.split)
  have requesting: "settled c (snd (requesting req waiting c))" for req waiting
    by (simp add: requesting_def Let_def case_prod_unfold settled_send split: sum.split)
  show ?thesis
    using assms
    by (cases action)
      (simp_all add: reply drafts requesting on_disconnect_def on_open_review_def on_close_review_def settled_close settled_submitted
        settled_deferring settled_on_review settled_mutate settled_marked settled_rules split: connection.split)
qed

lemma settled_frames:
  "settled c (snd (on_welcome c))" "settled c (snd (on_stream_end rid c))" "settled c (snd (on_error rid error c))"
  "settled c (snd (on_stream_item rid item c))"
  by (simp_all add: on_welcome_def on_stream_end_def on_error_def mutation_failed_def on_stream_item_def on_streamed_snapshot_def
      list_header_def Let_def
      case_prod_unfold settled_rules split: connection.split bool.split option.split in_flight.split stream_item.split)

section \<open>Events are taken in order\<close>

definition seen_of :: "client \<Rightarrow> seq option" where
  "seen_of c = conn_last_seq (cl_connection c)"

text \<open>The newest event seen never goes back, and what is accepted moves it forward.\<close>

definition moves :: "event list \<Rightarrow> client \<Rightarrow> client \<Rightarrow> bool" where
  "moves es c c' \<longleftrightarrow>
     (\<forall>q. seen_of c = Some q \<longrightarrow> (\<exists>q'. seen_of c' = Some q' \<and> q \<le> q'))
     \<and> (es = [] \<or> (\<exists>e q. es = [e] \<and> seen_of c = Some q \<and> q < ev_seq e \<and> seen_of c' = Some (ev_seq e)))"

lemma settled_moves: "settled c c' \<Longrightarrow> moves [] c c'"
  by (simp add: settled_def moves_def seen_of_def)

lemma moves_same: "seen_of c' = seen_of c \<Longrightarrow> moves [] c c'"
  by (simp add: moves_def)

lemma applied_connection [simp]: "cl_connection (snd (client_apply_event e c)) = cl_connection c"
  using settled_apply [of c c e] by (simp add: settled_def)

lemma rejected_seen: "seen_of (snd (on_rejected error c)) = seen_of c"
  by (simp add: on_rejected_def Let_def case_prod_unfold seen_of_def clear_in_flight_def restart_disconnected_view_def
      split: connection.split rpc_error.split recovery.split)

lemma transport_seen: "seen_of (snd (on_transport ev c)) = seen_of c"
  by (cases ev) (simp_all add: Let_def case_prod_unfold seen_of_def clear_in_flight_def suggestions_disconnected_def restart_disconnected_view_def
      split: connection.split bool.split recovery.split)

lemma tick_seen: "seen_of (snd (restart_tick c)) = seen_of c"
  by (simp add: restart_tick_def seen_of_def clear_in_flight_def split: recovery.split connection.split)

lemma sends_connection [simp]: "cl_connection (snd (send_requests reqs c)) = cl_connection c"
  using settled_sends [of c c reqs] by (simp add: settled_def)

lemma previews_connection [simp]: "cl_connection (snd (suggestions_reconnected c)) = cl_connection c"
  using settled_preview_each [of c c] by (simp add: settled_def suggestions_reconnected_def)

lemma subscribed_moves: "moves [] c (snd (on_subscribed head c))"
  by (simp add: on_subscribed_def Let_def case_prod_unfold moves_def seen_of_def split: connection.split option.split)

lemma event_moves: "moves (accepted (In_Server (Server_Event e)) c) c (snd (on_event e c))"
  by (auto simp: on_event_def accepted_def moves_def seen_of_def Let_def case_prod_unfold
      split: connection.split bool.split option.split)

lemma committed_moves:
  "cl_in_flight c rid = Some (Flight_Mutate q) \<Longrightarrow>
     moves (accepted (In_Server (Server_Response rid (Resp_Committed e))) c) c (snd (on_committed q e c))"
  by (auto simp: on_committed_def accepted_def moves_def seen_of_def retire_pending_def Let_def case_prod_unfold split: connection.split)

lemma applied_moves:
  "cl_in_flight c rid = Some (Flight_ApplySuggestion review cid) \<Longrightarrow>
     moves (accepted (In_Server (Server_Response rid (Resp_Committed e))) c) c (snd (client_suggestion_applied rid review cid e c))"
  by (auto simp: client_suggestion_applied_def set_progress_def accepted_def moves_def seen_of_def max_def Let_def case_prod_unfold
      split: connection.split option.split)

lemma forget_moves: "moves es c c' \<Longrightarrow> moves es c (forget_request rid c')"
  by (simp add: moves_def seen_of_def forget_request_def)

lemma response_moves: "moves (accepted (In_Server (Server_Response rid response)) c) c (snd (on_response rid response c))"
proof (cases "cl_in_flight c rid")
  case None
  then have "accepted (In_Server (Server_Response rid response)) c = []" by (cases response) (simp_all add: accepted_def)
  then show ?thesis using None by (simp add: on_response_def moves_same)
next
  case (Some waiting)
  let ?es = "accepted (In_Server (Server_Response rid response)) c"
  have answered: "moves ?es c (snd (answer rid waiting response c))"
  proof (cases "((\<exists>q. waiting = Flight_Mutate q) \<or> apply_flight waiting) \<and> (\<exists>e. response = Resp_Committed e)")
    case True
    then show ?thesis using Some committed_moves applied_moves by (cases waiting) (auto simp: answer_def)
  next
    case False
    then have "?es = []" using Some by (cases response; cases waiting) (simp_all add: accepted_def)
    moreover have "moves [] c (snd (answer rid waiting response c))"
      using False
      by (auto simp: answer_def wrong_response_def on_workspaces_def on_reviews_def on_snapshot_def on_files_def subscribed_moves settled_moves
          settled_previewed settled_rules Let_def case_prod_unfold split: in_flight.split client_response.split)
    ultimately show ?thesis by simp
  qed
  have "moves ?es c (snd (case answer rid waiting response c of (Inl e, c') \<Rightarrow> (Inl e, c') | (Inr effects, c') \<Rightarrow> (Inr effects, forget_request rid c')))"
    using answered forget_moves by (auto split: prod.split sum.split)
  moreover have "moves ?es c (forget_request rid c)" if "case waiting of Flight_ReviewSnapshot _ \<Rightarrow> True | _ \<Rightarrow> False"
  proof -
    have "?es = []" using that Some by (cases response; cases waiting) (simp_all add: accepted_def)
    then show ?thesis by (simp add: settled_moves settled_forget)
  qed
  ultimately show ?thesis using Some by (simp add: on_response_def)
qed

lemma action_moves: "moves [] c (snd (on_action action c))"
proof (cases "action = Act_Connect")
  case True
  then show ?thesis by (simp add: on_connect_def moves_def seen_of_def split: connection.split)
qed (simp add: settled_moves settled_action)

lemma server_moves: "moves (accepted (In_Server msg) c) c (snd (on_server msg c))"
proof (cases msg)
  case (Server_Response rid response)
  then show ?thesis by (simp add: response_moves)
next
  case (Server_Event e)
  then show ?thesis by (simp add: event_moves)
next
  case (Server_Rejected error)
  then show ?thesis by (simp add: accepted_def moves_same rejected_seen)
next
  case (Server_Lifecycle operation)
  have "seen_of (snd (restart_notice operation c)) = seen_of c" by (simp add: restart_notice_def seen_of_def)
  then show ?thesis using Server_Lifecycle by (simp add: accepted_def moves_same Let_def case_prod_unfold)
qed (simp_all add: accepted_def settled_moves settled_frames moves_same Let_def split: connection.split)

lemma input_moves: "moves (accepted i c) c (snd (client_handle i c))"
proof (cases i)
  case (In_User action)
  then show ?thesis using action_moves by (simp add: accepted_def)
next
  case (In_Server msg)
  then show ?thesis using server_moves by simp
next
  case (In_Transport ev)
  then show ?thesis by (simp add: accepted_def Let_def case_prod_unfold moves_same transport_seen)
next
  case (In_Tick ms)
  have "seen_of (c\<lparr>cl_now := n\<rparr>) = seen_of c" for n by (simp add: seen_of_def)
  then show ?thesis using In_Tick by (simp add: accepted_def Let_def case_prod_unfold moves_same tick_seen)
qed

text \<open>Events that are folded again.\<close>

fun run_repeated :: "client_input list \<Rightarrow> client \<Rightarrow> event list" where
  "run_repeated [] c = []"
| "run_repeated (i # is) c = repeated i c @ run_repeated is (snd (client_handle i c))"

definition seen_by :: "client \<Rightarrow> event \<Rightarrow> bool" where
  "seen_by c e \<longleftrightarrow> (case conn_last_seq (cl_connection c) of Some q \<Rightarrow> ev_seq e \<le> q | None \<Rightarrow> False)"

lemma input_seen: "seen_by c e \<Longrightarrow> seen_by (snd (client_handle i c)) e"
  using input_moves [of i c] by (auto simp: moves_def seen_by_def seen_of_def split: option.splits)

lemma run_seen: "seen_by c e \<Longrightarrow> seen_by (client_run is c) e"
  by (induction "is" arbitrary: c) (simp_all add: input_seen)

lemma accepted_seen: "e \<in> set (accepted i c) \<Longrightarrow> seen_by (snd (client_handle i c)) e"
  using input_moves [of i c] by (auto simp: moves_def seen_by_def seen_of_def)

lemma repeated_seen: "e \<in> set (repeated i c) \<Longrightarrow> seen_by c e"
  by (cases "cl_connection c") (auto simp: repeated_def seen_by_def split: client_input.splits server_msg.splits client_response.splits option.splits
      in_flight.splits connection.splits if_splits)

fun is_suggestion_event :: "event_body \<Rightarrow> bool" where
  "is_suggestion_event (SuggestionApplied _ _ _ _ _) \<longleftrightarrow> True"
| "is_suggestion_event _ \<longleftrightarrow> False"

lemma repeated_application: "e \<in> set (repeated i c) \<Longrightarrow> is_suggestion_event (ev_body e)"
  by (cases "ev_body e") (auto simp: repeated_def split: client_input.splits server_msg.splits client_response.splits option.splits
      in_flight.splits connection.splits if_splits)

lemma accepted_in_order:
  "sorted_wrt (<) (map ev_seq (run_accepted is c)) \<and> list_all (\<lambda>e. \<not> seen_by c e) (run_accepted is c)"
proof (induction "is" arbitrary: c)
  case (Cons i "is")
  let ?c1 = "snd (client_handle i c)"
  have move: "moves (accepted i c) c ?c1" by (rule input_moves)
  have later: "q < ev_seq e" if "e \<in> set (run_accepted is ?c1)" "seen_of ?c1 = Some q" for e q
    using Cons.IH [of ?c1] that by (auto simp: list_all_iff seen_of_def seen_by_def not_le)
  have above: "q < ev_seq e" if "e \<in> set (run_accepted is ?c1)" "seen_of c = Some q" for e q
    using move that later by (fastforce simp: moves_def intro: le_less_trans)
  have "sorted_wrt (<) (map ev_seq (accepted i c @ run_accepted is ?c1))"
    using move later Cons.IH [of ?c1] by (auto simp: moves_def)
  moreover have "q < ev_seq e" if "e \<in> set (accepted i c @ run_accepted is ?c1)" "seen_of c = Some q" for e q
    using move that above by (auto simp: moves_def)
  ultimately show ?case by (auto simp: list_all_iff seen_of_def seen_by_def not_le split: option.split)
qed simp


text \<open>
  When the answer to the client's own mutation arrives before the broadcast of an earlier event of
  another client, that earlier event is refused as stale, and nothing of it reaches the state: the client
  goes on without it.
\<close>

lemma earlier_event_refused:
  assumes "cl_connection c = Conn_Subscribed seen" "cl_in_flight c rid = Some (Flight_Mutate q)"
    and "seen < ev_seq other" "ev_seq other < ev_seq mine" "c1 = snd (client_handle (In_Server (Server_Response rid (Resp_Committed mine))) c)"
  shows "client_handle (In_Server (Server_Event other)) c1 = (Inl (Client_StaleEvent (ev_seq other) (ev_seq mine)), c1)"
proof -
  have "cl_connection c1 = Conn_Subscribed (ev_seq mine)"
    using assms by (auto simp: on_response_def answer_def on_committed_def Let_def case_prod_unfold forget_request_def)
  then show ?thesis using assms(4) by (auto simp: on_event_def)
qed

text \<open>
  A refresh that a draft held back is applied when the draft is discarded, also while the connection is lost:
  the list of changed files is emptied, and the request for the new one is sent to no one. It stays in
  flight, and a reconnection does not ask again.
\<close>

lemma refresh_asked_offline:
  assumes "consistent c" "cl_connection c = Conn_Disconnected seen" "cl_draft c \<noteq> None" "cl_deferred c = [e]"
    and "c' = snd (client_handle (In_User Act_DraftDiscarded) c)"
  shows "cl_connection c' = Conn_Disconnected seen \<and> cl_files c' = [] \<and> cl_latest_files c' = Some (RequestId (cl_next_request c))
    \<and> (\<exists>review. cl_in_flight c' (RequestId (cl_next_request c)) = Some (Flight_ListFiles review))"
proof -
  let ?c1 = "c\<lparr>cl_draft := None, cl_deferred := [], cl_pending_refresh := False\<rparr>"
  have e: "is_resolved_body (ev_body e)" and mine: "concerns e c"
    using assms(1,4) resolved_review [of "ev_body e"] by (auto simp: consistent_def holds_back_def concerns_def)
  obtain sn op where sn: "cl_committed c = Some sn" and op: "cl_open c = Some op"
    using mine assms(1) by (auto simp: concerns_def consistent_def shows_pending_def split: option.splits)
  have noted: "note_event (ev_body e) x = ([], x)" for x using e by simp
  have "c' = snd (draft_closed [] c)" using assms(3,5) by (auto simp: on_draft_discarded_def)
  also have "\<dots> = snd (client_apply_event e ?c1)" using assms(4) by (simp add: draft_closed_def drain_deferred_def Let_def case_prod_unfold)
  also have "\<dots> = snd (fold_committed e [] (retired e ?c1))" by (simp add: client_apply_event_alt noted)
  finally have c': "c' = snd (list_files (rv_id (sn_review sn)) (snd (rebase (refreshed e sn (retired e ?c1)))))"
    using e mine sn by (simp add: fold_committed_def refreshed_def concerns_def Let_def case_prod_unfold)
  have fields: "cl_files (snd (rebase x)) = cl_files x" "cl_next_request (snd (rebase x)) = cl_next_request x" for x
    by (simp_all add: rebase_def Let_def case_prod_unfold split: option.split)
  have "cl_next_request (refreshed e sn (retired e ?c1)) = cl_next_request c" "cl_files (refreshed e sn (retired e ?c1)) = []"
    using e by (simp_all add: refreshed_def retired_def retire_pending_def hold_for_snapshots_def supersede_opening_def Let_def)
  then show ?thesis
    by (simp add: c' list_files_def send_request_def fields Let_def case_prod_unfold assms(2))
qed

definition sample_event_at :: "u64 \<Rightarrow> u64 \<Rightarrow> event" where
  "sample_event_at q who =
     \<lparr>ev_seq = q, ev_ts = 0, ev_author = Author_Human ''ada'' ''m'', ev_client_id = ClientId (Ulid (ucast who) 8), ev_client_seq = 1,
      ev_body = WorkspaceUpdated (WorkspaceId (Ulid 1 1)) ''w''\<rparr>"

end
