(* ===== verification/Nits_Client_Restart.thy ===== *)
theory Nits_Client_Restart
  imports Nits_Client_Order
begin

text \<open>
  A planned restart of the daemon on the client: it reconnects with growing pauses, a bounded number of times,
  and gives up after a minute of its clock.
\<close>

section \<open>The pauses\<close>

text \<open>The least time, in milliseconds, between the notice and the reconnection of this number.\<close>

fun restart_pause :: "nat \<Rightarrow> nat" where
  "restart_pause 0 = 100"
| "restart_pause (Suc k) = restart_pause k + 250 * 2 ^ min k 4"

lemma restart_pause_mono: "j \<le> k \<Longrightarrow> restart_pause j \<le> restart_pause k"
  by (induction k) (auto simp: le_Suc_eq)

lemma restart_pause_linear: "restart_pause (Suc (Suc (Suc (Suc k)))) = 3850 + 4000 * k"
  by (induction k) simp_all

lemma restart_pause_19: "restart_pause 19 = 63850"
  using restart_pause_linear [of 15] by simp

definition restart_ok :: "client \<Rightarrow> bool" where
  "restart_ok c \<longleftrightarrow>
     (case cl_recovery c of
        Recovery_Idle \<Rightarrow> True
      | Recovery_Restarting operation deadline next_attempt attempts \<Rightarrow>
          60000 \<le> unat deadline \<and> unat deadline + restart_pause (unat attempts) \<le> unat next_attempt + 60000 \<and> unat attempts \<le> 19)"

text \<open>How many reconnections are left.\<close>

definition attempts_left :: "client \<Rightarrow> nat" where
  "attempts_left c = (case cl_recovery c of Recovery_Idle \<Rightarrow> 0 | Recovery_Restarting _ _ _ attempts \<Rightarrow> 19 - unat attempts)"

definition reconnects_at :: "client_input \<Rightarrow> client \<Rightarrow> bool" where
  "reconnects_at i c \<longleftrightarrow> (case i of In_Tick _ \<Rightarrow> fst (client_handle i c) = Inr [Eff_Connect] | _ \<Rightarrow> False)"

fun reconnections :: "client_input list \<Rightarrow> client \<Rightarrow> nat" where
  "reconnections [] c = 0"
| "reconnections (i # is) c = (if reconnects_at i c then 1 else 0) + reconnections is (snd (client_handle i c))"

text \<open>No second restart is announced, and the clock stays far from its greatest value.\<close>

definition within_restart :: "client_input \<Rightarrow> bool" where
  "within_restart i \<longleftrightarrow>
     (case i of In_Server (Server_Lifecycle _) \<Rightarrow> False | In_Tick ms \<Rightarrow> unat ms < 2 ^ 63 | _ \<Rightarrow> True)"

lemma unat_greatest: "unat (- 1 :: 'a::len word) = 2 ^ LENGTH('a) - 1"
  by (simp add: unat_eq_nat_uint uint_word_ariths nat_diff_distrib nat_power_eq zmod_minus1)

lemma unat_saturating_add: "unat (u64_saturating_add a b) = min (unat a + unat b) (2 ^ 64 - 1)"
proof (cases "unat a + unat b < 2 ^ 64")
  case True
  then have "unat (a + b) = unat a + unat b" by (intro iffD1 [OF unat_add_lem]) simp
  then show ?thesis using True by (simp add: u64_saturating_add_def)
next
  case False
  then show ?thesis by (simp add: u64_saturating_add_def unat_greatest)
qed

lemma unat_saturating_next: "unat (u8_saturating_add a 1) = min (unat a + 1) 255"
proof (cases "unat a + 1 < 2 ^ 8")
  case True
  then have "unat (a + 1) = unat a + 1" using iffD1 [OF unat_add_lem, of a 1] by simp
  then show ?thesis using True by (simp add: u8_saturating_add_def)
next
  case False
  then show ?thesis by (simp add: u8_saturating_add_def unat_greatest)
qed

lemma unat_pause: "k \<le> 4 \<Longrightarrow> unat (push_bit k (250 :: u64)) = 250 * 2 ^ k"
proof -
  assume "k \<le> 4"
  then have "k \<in> {0, 1, 2, 3, 4}" by auto
  then show ?thesis by (auto simp: push_bit_eq_mult)
qed

section \<open>A tick\<close>

lemma tick_restart:
  assumes ok: "restart_ok c" and now: "unat (cl_now c) < 2 ^ 63"
  shows "restart_ok (snd (restart_tick c))"
    and "(if fst (restart_tick c) = [Eff_Connect] then 1 else 0) + attempts_left (snd (restart_tick c)) \<le> attempts_left c"
    and "cl_now (snd (restart_tick c)) = cl_now c"
proof -
  have "restart_ok (snd (restart_tick c)) \<and> cl_now (snd (restart_tick c)) = cl_now c
      \<and> (if fst (restart_tick c) = [Eff_Connect] then 1 else 0) + attempts_left (snd (restart_tick c)) \<le> attempts_left c"
  proof (cases "cl_recovery c")
    case Recovery_Idle
    then show ?thesis by (simp add: restart_tick_def restart_ok_def attempts_left_def)
  next
    case (Recovery_Restarting operation deadline next_attempt attempts)
    have bounds: "60000 \<le> unat deadline" "unat deadline + restart_pause (unat attempts) \<le> unat next_attempt + 60000" "unat attempts \<le> 19"
      using ok Recovery_Restarting by (simp_all add: restart_ok_def)
    show ?thesis
    proof (cases "\<not> deadline \<le> cl_now c \<and> next_attempt \<le> cl_now c \<and> (\<exists>seen. cl_connection c = Conn_Disconnected seen)")
      case True
      then have early: "cl_now c < deadline" "next_attempt \<le> cl_now c" and down: "\<exists>seen. cl_connection c = Conn_Disconnected seen"
        by auto
      then have "restart_pause (unat attempts) < 60000" using bounds(1,2) by (simp add: word_less_nat_alt word_le_nat_alt)
      then have "unat attempts < 19"
        using restart_pause_mono [of 19 "unat attempts"] restart_pause_19 by (cases "unat attempts < 19") simp_all
      moreover have "unat (u64_saturating_add (cl_now c) (push_bit (min (unat attempts) 4) 250)) = unat (cl_now c) + 250 * 2 ^ min (unat attempts) 4"
      proof -
        have "(250 :: nat) * 2 ^ min (unat attempts) 4 \<le> 250 * 2 ^ 4" by (intro mult_le_mono power_increasing) simp_all
        then show ?thesis using now by (simp add: unat_saturating_add unat_pause)
      qed
      moreover have "unat next_attempt \<le> unat (cl_now c)" using early(2) by (simp add: word_le_nat_alt)
      ultimately show ?thesis
        using bounds early down Recovery_Restarting
        by (auto simp: restart_tick_def restart_ok_def attempts_left_def unat_saturating_next not_le)
    next
      case False
      then show ?thesis
        using ok Recovery_Restarting
        by (auto simp: restart_tick_def restart_ok_def attempts_left_def clear_in_flight_def split: connection.split)
    qed
  qed
  then show "restart_ok (snd (restart_tick c))"
    and "(if fst (restart_tick c) = [Eff_Connect] then 1 else 0) + attempts_left (snd (restart_tick c)) \<le> attempts_left c"
    and "cl_now (snd (restart_tick c)) = cl_now c" by simp_all
qed

section \<open>Every other input\<close>

definition calm :: "client \<Rightarrow> client \<Rightarrow> bool" where
  "calm c c' \<longleftrightarrow> cl_now c' = cl_now c \<and> (cl_recovery c' = cl_recovery c \<or> cl_recovery c' = Recovery_Idle)"

lemma settled_calm: "settled c c' \<Longrightarrow> calm c c'"
  by (simp add: settled_def calm_def)

lemma applied_calm: "calm c c' \<Longrightarrow> calm c (snd (client_apply_event e c'))"
  using settled_apply [of c' c' e] by (simp add: settled_def calm_def)

lemma sends_clock [simp]:
  "cl_now (snd (send_requests reqs c)) = cl_now c" "cl_recovery (snd (send_requests reqs c)) = cl_recovery c"
  using settled_sends [of c c reqs] by (simp_all add: settled_def)

lemma response_calm: "calm c (snd (on_response rid response c))"
proof -
  have event: "calm c (snd (client_apply_event e (c\<lparr>cl_connection := a\<rparr>)))" for e a
    by (rule applied_calm) (simp add: calm_def)
  have subscribed: "calm c (snd (on_subscribed head c))" for head
    using settled_preview_each [of c' c' for c']
    by (auto simp: on_subscribed_def suggestions_reconnected_def settled_def Let_def case_prod_unfold calm_def split: connection.split)
  have committed: "calm c (snd (on_committed q e c))" for q e
    by (simp add: on_committed_def Let_def case_prod_unfold event settled_calm settled_rules split: connection.split)
  have applied: "calm c (snd (client_suggestion_applied rid review cid e c))" for review cid e
  proof -
    have "calm c (snd (client_apply_event e (c\<lparr>cl_progress := t, cl_connection := a\<rparr>)))" for t a by (rule applied_calm) (simp add: calm_def)
    then show ?thesis using event
      by (auto simp: client_suggestion_applied_def set_progress_def Let_def case_prod_unfold calm_def split: connection.split option.split)
  qed
  have answered: "calm c (snd (answer rid waiting response c))" for waiting
    by (auto simp: answer_def wrong_response_def on_workspaces_def on_reviews_def on_snapshot_def on_files_def subscribed committed applied
        settled_calm settled_previewed settled_rules Let_def case_prod_unfold split: in_flight.split client_response.split)
  have "calm c (forget_request rid c')" if "calm c c'" for c' using that by (simp add: calm_def forget_request_def)
  then have "calm c (snd (case answer rid waiting response c of (Inl e, c') \<Rightarrow> (Inl e, c') | (Inr effects, c') \<Rightarrow> (Inr effects, forget_request rid c')))" for waiting
    using answered [of waiting] by (auto split: prod.split sum.split)
  then show ?thesis by (simp add: on_response_def settled_calm settled_forget split: option.split)
qed

lemma event_calm: "calm c (snd (on_event e c))"
proof -
  have "calm c (snd (client_apply_event e (c\<lparr>cl_connection := a\<rparr>)))" for a by (rule applied_calm) (simp add: calm_def)
  then show ?thesis by (auto simp: on_event_def Let_def case_prod_unfold settled_calm split: connection.split bool.split option.split)
qed

lemma view_calm: "calm c c' \<Longrightarrow> calm c (snd (restart_disconnected_view c'))"
  by (simp add: restart_disconnected_view_def calm_def split: recovery.split)

lemma rejected_calm: "calm c (snd (on_rejected error c))"
proof -
  have "calm c (clear_in_flight (c\<lparr>cl_connection := a\<rparr>))" for a by (simp add: calm_def clear_in_flight_def)
  then have "calm c (snd (restart_disconnected_view (clear_in_flight (c\<lparr>cl_connection := a\<rparr>))))" for a by (rule view_calm)
  then show ?thesis
    by (auto simp: on_rejected_def Let_def case_prod_unfold calm_def clear_in_flight_def split: connection.split rpc_error.split)
qed

lemma transport_calm: "calm c (snd (on_transport ev c))"
proof (cases ev)
  case Transport_Disconnected
  have "calm c (clear_in_flight (snd (suggestions_disconnected (c\<lparr>cl_connection := a\<rparr>))))" for a
    by (simp add: calm_def clear_in_flight_def suggestions_disconnected_def)
  then have "calm c (snd (restart_disconnected_view (clear_in_flight (snd (suggestions_disconnected (c\<lparr>cl_connection := a\<rparr>))))))"
    "calm c (clear_in_flight (snd (suggestions_disconnected (c\<lparr>cl_connection := a\<rparr>))))" for a by (simp_all add: view_calm)
  then show ?thesis by (auto simp: Transport_Disconnected Let_def case_prod_unfold calm_def)
qed (simp add: calm_def split: connection.split bool.split)

lemma calm_restart: "calm c c' \<Longrightarrow> restart_ok c \<Longrightarrow> restart_ok c' \<and> attempts_left c' \<le> attempts_left c"
  by (auto simp: calm_def restart_ok_def attempts_left_def split: recovery.split)

lemma other_calm:
  assumes "within_restart i" "\<forall>ms. i \<noteq> In_Tick ms"
  shows "calm c (snd (client_handle i c))"
proof (cases i)
  case (In_User action)
  show ?thesis
  proof (cases "action = Act_Connect")
    case True
    then show ?thesis using In_User by (simp add: on_connect_def calm_def split: connection.split)
  qed (simp add: In_User settled_calm settled_action)
next
  case (In_Server msg)
  have "calm c (snd (on_server msg c))" if "\<forall>operation. msg \<noteq> Server_Lifecycle operation"
    using that by (cases msg)
      (simp_all add: settled_calm settled_frames rejected_calm response_calm event_calm split: connection.split)
  then show ?thesis using In_Server assms(1) by (cases msg) (simp_all add: within_restart_def)
next
  case (In_Transport ev)
  then show ?thesis using transport_calm by (simp add: Let_def case_prod_unfold)
next
  case (In_Tick ms)
  then show ?thesis using assms(2) by simp
qed

lemma input_restart:
  assumes "restart_ok c" "unat (cl_now c) < 2 ^ 63" "within_restart i"
  shows "restart_ok (snd (client_handle i c))" "unat (cl_now (snd (client_handle i c))) < 2 ^ 63"
    "(if reconnects_at i c then 1 else 0) + attempts_left (snd (client_handle i c)) \<le> attempts_left c"
proof -
  have "restart_ok (snd (client_handle i c)) \<and> unat (cl_now (snd (client_handle i c))) < 2 ^ 63
      \<and> (if reconnects_at i c then 1 else 0) + attempts_left (snd (client_handle i c)) \<le> attempts_left c"
  proof (cases "\<exists>ms. i = In_Tick ms")
    case True
    then obtain ms where i: "i = In_Tick ms" by blast
    let ?c1 = "c\<lparr>cl_now := max (cl_now c) ms\<rparr>"
    have "restart_ok ?c1" "attempts_left ?c1 = attempts_left c" using assms(1) by (simp_all add: restart_ok_def attempts_left_def)
    moreover have now: "unat (cl_now ?c1) < 2 ^ 63" using assms(2,3) by (simp add: i within_restart_def max_def)
    ultimately show ?thesis
      using tick_restart [of ?c1] by (simp add: i reconnects_at_def Let_def case_prod_unfold)
  next
    case False
    then have "calm c (snd (client_handle i c))" using assms(3) by (intro other_calm) auto
    moreover have "\<not> reconnects_at i c" using False by (cases i) (simp_all add: reconnects_at_def)
    moreover have "cl_now (snd (client_handle i c)) = cl_now c" using calculation(1) by (simp add: calm_def)
    ultimately show ?thesis using calm_restart [OF _ assms(1)] assms(2) by simp
  qed
  then show "restart_ok (snd (client_handle i c))" "unat (cl_now (snd (client_handle i c))) < 2 ^ 63"
    "(if reconnects_at i c then 1 else 0) + attempts_left (snd (client_handle i c)) \<le> attempts_left c" by simp_all
qed

lemma run_restart:
  "restart_ok c \<Longrightarrow> unat (cl_now c) < 2 ^ 63 \<Longrightarrow> list_all within_restart is \<Longrightarrow> reconnections is c \<le> attempts_left c"
proof (induction "is" arbitrary: c)
  case (Cons i "is")
  have "reconnections is (snd (client_handle i c)) \<le> attempts_left (snd (client_handle i c))"
    using Cons.prems input_restart [OF Cons.prems(1,2), of i] by (intro Cons.IH) simp_all
  then show ?case using input_restart(3) [OF Cons.prems(1,2), of i] Cons.prems(3) by simp
qed simp

text \<open>The recovery is over when its deadline has come.\<close>

definition due_by :: "u64 \<Rightarrow> client \<Rightarrow> bool" where
  "due_by d c \<longleftrightarrow> (case cl_recovery c of Recovery_Idle \<Rightarrow> True | Recovery_Restarting _ deadline _ _ \<Rightarrow> deadline \<le> d)"

lemma input_due: "due_by d c \<Longrightarrow> within_restart i \<Longrightarrow> due_by d (snd (client_handle i c))"
proof (cases "\<exists>ms. i = In_Tick ms")
  case True
  then obtain ms where "i = In_Tick ms" by blast
  then show "due_by d c \<Longrightarrow> ?thesis"
    by (simp add: due_by_def restart_tick_def Let_def case_prod_unfold split: recovery.splits connection.split)
next
  case False
  assume "due_by d c" "within_restart i"
  then show ?thesis using other_calm [of i c] False by (auto simp: calm_def due_by_def split: recovery.splits)
qed

lemma run_due: "due_by d c \<Longrightarrow> list_all within_restart is \<Longrightarrow> due_by d (client_run is c)"
  by (induction "is" arbitrary: c) (simp_all add: input_due)

lemma tick_due: "due_by d c \<Longrightarrow> d \<le> cl_now c \<Longrightarrow> cl_recovery (snd (restart_tick c)) = Recovery_Idle"
  by (auto simp: due_by_def restart_tick_def split: recovery.splits)

text \<open>
  C20: A restart of the daemon ends for the client: after its notice the client reconnects at most nineteen
  times on its own, whatever happens until the next notice, and the first tick a minute after the notice finds
  the recovery over.
\<close>

theorem restart_ends:
  assumes "unat (cl_now c) < 2 ^ 63" "list_all within_restart is"
    and "c1 = snd (client_handle (In_Server (Server_Lifecycle operation)) c)" "cl_now c + 60000 \<le> ms"
  shows "reconnections is c1 \<le> 19 \<and> cl_recovery (snd (client_handle (In_Tick ms) (client_run is c1))) = Recovery_Idle"
proof -
  have sums: "unat (u64_saturating_add (cl_now c) 60000) = unat (cl_now c) + 60000" "unat (u64_saturating_add (cl_now c) 100) = unat (cl_now c) + 100"
    using assms(1) by (simp_all add: unat_saturating_add)
  have c1: "cl_now c1 = cl_now c"
    "cl_recovery c1 = Recovery_Restarting operation (u64_saturating_add (cl_now c) 60000) (u64_saturating_add (cl_now c) 100) 0"
    by (simp_all add: assms(3) restart_notice_def Let_def)
  have "restart_ok c1" using sums by (simp add: restart_ok_def c1)
  then have bound: "reconnections is c1 \<le> attempts_left c1" using assms(1,2) by (intro run_restart) (simp_all add: c1)
  have "u64_saturating_add (cl_now c) 60000 = cl_now c + 60000" using assms(1) by (simp add: u64_saturating_add_def)
  then have "due_by ms c1" using assms(4) by (simp add: due_by_def c1)
  then have "due_by ms (client_run is c1)" using assms(2) by (rule run_due)
  then have "due_by ms ((client_run is c1)\<lparr>cl_now := max (cl_now (client_run is c1)) ms\<rparr>)" by (simp add: due_by_def)
  then have "cl_recovery (snd (client_handle (In_Tick ms) (client_run is c1))) = Recovery_Idle"
    by (simp add: Let_def case_prod_unfold tick_due)
  then show ?thesis using bound by (simp add: attempts_left_def c1)
qed

theorem restart_ends_witness:
  "\<exists>c1. reconnections [In_Tick 100, In_Transport Transport_Disconnected, In_Tick 400] c1 = 2
     \<and> cl_recovery (snd (client_handle (In_Tick 60000) (client_run [In_Tick 100, In_Transport Transport_Disconnected, In_Tick 400] c1)))
         = Recovery_Idle"
proof -
  let ?op = "\<lparr>uo_id = UpgradeId (Ulid 1 1), uo_target_protocol = protocol_CURRENT\<rparr>" and ?c = "client_new sample_config 0"
  let ?is = "[In_Tick 100, In_Transport Transport_Disconnected, In_Tick 400]"
  let ?c1 = "snd (client_handle (In_Server (Server_Lifecycle ?op)) ?c)"
  have "reconnections ?is ?c1 \<le> 19 \<and> cl_recovery (snd (client_handle (In_Tick 60000) (client_run ?is ?c1))) = Recovery_Idle"
    by (rule restart_ends [OF _ _ refl]) (simp_all add: client_new_def within_restart_def)
  moreover have "reconnections ?is ?c1 = 2"
    by (simp add: reconnects_at_def client_new_def restart_notice_def restart_tick_def u64_saturating_add_def u8_saturating_add_def
        clear_in_flight_def restart_disconnected_view_def suggestions_disconnected_def Let_def max_def)
  ultimately show ?thesis by blast
qed

end
