(* ===== verification/Nits_Content_Cache_Laws.thy ===== *)
theory Nits_Content_Cache_Laws
  imports Nits_Content_Cache
begin

text \<open>
  The content cache is a plain list of entries, least recently used first: every run of operations gives the
  answers of the list, entry by entry, and the cache stays within its budget as far as its pins allow.
\<close>

section \<open>The reference: a list, least recently used first\<close>

type_synonym lru_entry = "cache_key \<times> cache_value \<times> u64"

record lru =
  lru_entries :: "lru_entry list"
  lru_pinned :: "cache_key set"

abbreviation lru_total :: "lru_entry list \<Rightarrow> nat" where
  "lru_total es \<equiv> sum_list (map (\<lambda>(_, _, bytes). unat bytes) es)"

text \<open>What leaves and what stays when the least recently used unpinned entries go until \<open>used\<close> is at most the budget.\<close>

fun lru_shed :: "nat \<Rightarrow> cache_key set \<Rightarrow> nat \<Rightarrow> lru_entry list \<Rightarrow> lru_entry list \<times> lru_entry list" where
  "lru_shed budget pinned used [] = ([], [])"
| "lru_shed budget pinned used ((key, val, bytes) # es) =
     (if used \<le> budget then ([], (key, val, bytes) # es)
      else if key \<in> pinned
        then (case lru_shed budget pinned used es of (out, kept) \<Rightarrow> (out, (key, val, bytes) # kept))
        else (case lru_shed budget pinned (used - unat bytes) es of (out, kept) \<Rightarrow> ((key, val, bytes) # out, kept)))"

definition lru_settle :: "nat \<Rightarrow> lru \<Rightarrow> lru_entry list \<times> lru" where
  "lru_settle budget l =
     (case lru_shed budget (lru_pinned l) (lru_total (lru_entries l)) (lru_entries l) of
        (out, kept) \<Rightarrow> (out, l\<lparr>lru_entries := kept\<rparr>))"

definition without :: "cache_key \<Rightarrow> lru_entry list \<Rightarrow> lru_entry list" where
  "without key es = filter (\<lambda>e. fst e \<noteq> key) es"

datatype cache_op =
    Op_Get cache_key
  | Op_Insert cache_key cache_value u64
  | Op_Remove cache_key
  | Op_Pin cache_key
  | Op_Unpin cache_key
  | Op_RetainPins "cache_key \<Rightarrow> bool"
  | Op_ClearPins

type_synonym cache_answer = "cache_value option \<times> lru_entry list"

fun lru_op :: "nat \<Rightarrow> cache_op \<Rightarrow> lru \<Rightarrow> cache_answer \<times> lru" where
  "lru_op budget (Op_Get key) l =
     (case map_of (lru_entries l) key of
        None \<Rightarrow> ((None, []), l)
      | Some (val, bytes) \<Rightarrow> ((Some val, []), l\<lparr>lru_entries := without key (lru_entries l) @ [(key, val, bytes)]\<rparr>))"
| "lru_op budget (Op_Insert key val bytes) l =
     (case lru_settle budget (l\<lparr>lru_entries := without key (lru_entries l) @ [(key, val, bytes)]\<rparr>) of
        (out, l') \<Rightarrow> ((None, out), l'))"
| "lru_op budget (Op_Remove key) l =
     (case map_of (lru_entries l) key of
        None \<Rightarrow> ((None, []), l)
      | Some (val, bytes) \<Rightarrow>
          ((Some val, []), l\<lparr>lru_entries := without key (lru_entries l), lru_pinned := lru_pinned l - {key}\<rparr>))"
| "lru_op budget (Op_Pin key) l = ((None, []), l\<lparr>lru_pinned := insert key (lru_pinned l)\<rparr>)"
| "lru_op budget (Op_Unpin key) l = ((None, []), l\<lparr>lru_pinned := lru_pinned l - {key}\<rparr>)"
| "lru_op budget (Op_RetainPins keep) l =
     (case lru_settle budget (l\<lparr>lru_pinned := Set.filter keep (lru_pinned l)\<rparr>) of (out, l') \<Rightarrow> ((None, out), l'))"
| "lru_op budget Op_ClearPins l = (case lru_settle budget (l\<lparr>lru_pinned := {}\<rparr>) of (out, l') \<Rightarrow> ((None, out), l'))"

text \<open>The same operations on the cache.\<close>

abbreviation evicted_entry :: "evicted \<Rightarrow> lru_entry" where
  "evicted_entry x \<equiv> (evd_key x, evd_value x, evd_size x)"

fun cache_perform :: "cache_op \<Rightarrow> content_cache \<Rightarrow> cache_answer \<times> content_cache" where
  "cache_perform (Op_Get key) c = (case cache_get key c of (val, c') \<Rightarrow> ((val, []), c'))"
| "cache_perform (Op_Insert key val bytes) c = (case cache_insert key val bytes c of (out, c') \<Rightarrow> ((None, map evicted_entry out), c'))"
| "cache_perform (Op_Remove key) c = (case cache_remove key c of (val, c') \<Rightarrow> ((val, []), c'))"
| "cache_perform (Op_Pin key) c = ((None, []), cache_pin key c)"
| "cache_perform (Op_Unpin key) c = ((None, []), cache_unpin key c)"
| "cache_perform (Op_RetainPins keep) c = (case cache_retain_pins keep c of (out, c') \<Rightarrow> ((None, map evicted_entry out), c'))"
| "cache_perform Op_ClearPins c = (case cache_clear_pins c of (out, c') \<Rightarrow> ((None, map evicted_entry out), c'))"

fun op_bytes :: "cache_op \<Rightarrow> nat" where
  "op_bytes (Op_Insert _ _ bytes) = unat bytes"
| "op_bytes _ = 0"

fun run_ops :: "('op \<Rightarrow> 's \<Rightarrow> 'out \<times> 's) \<Rightarrow> 'op list \<Rightarrow> 's \<Rightarrow> 'out list \<times> 's" where
  "run_ops f [] s = ([], s)"
| "run_ops f (x # xs) s = (let (out, s1) = f x s; (outs, s2) = run_ops f xs s1 in (out # outs, s2))"

section \<open>The cache as the list\<close>

definition entry_of :: "content_cache \<Rightarrow> u64 \<times> cache_key \<Rightarrow> lru_entry" where
  "entry_of c tk = (snd tk, ce_value (the (cc_entries c (snd tk))), ce_size (the (cc_entries c (snd tk))))"

definition resident :: "content_cache \<Rightarrow> lru_entry list" where
  "resident c = map (entry_of c) (tbl_entries (cc_order c))"

definition as_lru :: "content_cache \<Rightarrow> lru" where
  "as_lru c = \<lparr>lru_entries = resident c, lru_pinned = cc_pinned c\<rparr>"

text \<open>Ticks and entries mirror each other, ticks were given out, and the bytes used are those of the entries.\<close>

definition cache_ok :: "content_cache \<Rightarrow> bool" where
  "cache_ok c \<longleftrightarrow>
     (\<forall>t k. tbl_get (cc_order c) t = Some k \<longleftrightarrow> (\<exists>e. cc_entries c k = Some e \<and> ce_tick e = t))
     \<and> (\<forall>t k. tbl_get (cc_order c) t = Some k \<longrightarrow> t < cc_next_tick c)
     \<and> unat (cc_used c) = lru_total (resident c)"

lemma cache_okD:
  assumes "cache_ok c"
  shows "tbl_get (cc_order c) t = Some k \<longleftrightarrow> (\<exists>e. cc_entries c k = Some e \<and> ce_tick e = t)"
    and "tbl_get (cc_order c) t = Some k \<Longrightarrow> t < cc_next_tick c"
    and "unat (cc_used c) = lru_total (resident c)"
  using assms by (auto simp: cache_ok_def)

lemma tick_of_key: "cache_ok c \<Longrightarrow> cc_entries c k = Some e \<Longrightarrow> (ce_tick e, k) \<in> set (tbl_entries (cc_order c))"
  by (simp add: tbl.in_entries_iff cache_okD(1))

lemma key_of_tick: "cache_ok c \<Longrightarrow> (t, k) \<in> set (tbl_entries (cc_order c)) \<Longrightarrow> \<exists>e. cc_entries c k = Some e \<and> ce_tick e = t"
  by (simp add: tbl.in_entries_iff cache_okD(1))

lemma resident_keys: "map fst (resident c) = map snd (tbl_entries (cc_order c))"
  by (simp add: resident_def entry_of_def)

lemma resident_distinct:
  assumes "cache_ok c"
  shows "distinct (map fst (resident c))"
proof -
  have "inj_on snd (set (tbl_entries (cc_order c)))"
  proof (rule inj_onI)
    fix a b assume ab: "a \<in> set (tbl_entries (cc_order c))" "b \<in> set (tbl_entries (cc_order c))" "snd a = snd b"
    have "\<exists>e. cc_entries c (snd a) = Some e \<and> ce_tick e = fst a" "\<exists>e. cc_entries c (snd b) = Some e \<and> ce_tick e = fst b"
      using ab(1,2) by (simp_all add: key_of_tick [OF assms])
    then show "a = b" using ab(3) by (auto simp: prod_eq_iff)
  qed
  then show ?thesis
    using tbl.entries_distinct [of "cc_order c"] by (simp add: resident_keys distinct_map)
qed

lemma resident_lookup:
  assumes "cache_ok c"
  shows "map_of (resident c) k = map_option (\<lambda>e. (ce_value e, ce_size e)) (cc_entries c k)"
proof (cases "cc_entries c k")
  case None
  have "k \<notin> set (map fst (resident c))"
  proof
    assume "k \<in> set (map fst (resident c))"
    then obtain t where "(t, k) \<in> set (tbl_entries (cc_order c))" by (auto simp: resident_keys)
    then show False using key_of_tick [OF assms] None by fastforce
  qed
  then have "map_of (resident c) k = None" by (simp add: map_of_eq_None_iff)
  then show ?thesis using None by simp
next
  case (Some e)
  have "entry_of c (ce_tick e, k) \<in> set (resident c)"
    using tick_of_key [OF assms Some] by (auto simp: resident_def)
  then have "map_of (resident c) k = Some (ce_value e, ce_size e)"
    by (intro map_of_is_SomeI [OF resident_distinct [OF assms]]) (simp add: entry_of_def Some)
  then show ?thesis using Some by simp
qed

section \<open>An entry leaves, an entry comes\<close>

definition drop_entry :: "cache_key \<Rightarrow> cache_entry \<Rightarrow> content_cache \<Rightarrow> content_cache" where
  "drop_entry key entry c =
     c\<lparr>cc_entries := (cc_entries c)(key := None), cc_order := tbl_remove (ce_tick entry) (cc_order c),
       cc_used := cc_used c - ce_size entry\<rparr>"

lemma entries_remove: "tbl_entries (tbl_remove k t) = filter (\<lambda>e. fst e \<noteq> k) (tbl_entries t)"
  by transfer simp

lemma order_drop:
  assumes "cache_ok c" "cc_entries c key = Some entry"
  shows "tbl_entries (tbl_remove (ce_tick entry) (cc_order c)) = filter (\<lambda>e. snd e \<noteq> key) (tbl_entries (cc_order c))"
proof -
  have "fst e \<noteq> ce_tick entry \<longleftrightarrow> snd e \<noteq> key" if "e \<in> set (tbl_entries (cc_order c))" for e
  proof -
    have "\<exists>x. cc_entries c (snd e) = Some x \<and> ce_tick x = fst e" using key_of_tick [OF assms(1), of "fst e" "snd e"] that by simp
    moreover have "tbl_get (cc_order c) (fst e) = Some (snd e)" using that by (simp flip: tbl.in_entries_iff)
    moreover have "tbl_get (cc_order c) (ce_tick entry) = Some key" using assms by (simp add: cache_okD(1))
    ultimately show ?thesis using assms(2) by auto
  qed
  then show ?thesis by (simp add: entries_remove cong: filter_cong)
qed

lemma resident_drop:
  assumes "cache_ok c" "cc_entries c key = Some entry"
  shows "resident (drop_entry key entry c) = without key (resident c)"
proof -
  have "entry_of (drop_entry key entry c) e = entry_of c e" if "snd e \<noteq> key" for e
    using that by (simp add: entry_of_def drop_entry_def)
  then show ?thesis
    by (simp add: resident_def drop_entry_def [of key entry c] order_drop [OF assms] without_def filter_map comp_def entry_of_def)
qed

lemma total_without:
  "distinct (map fst es) \<Longrightarrow> map_of es key = Some (val, bytes) \<Longrightarrow> lru_total es = unat bytes + lru_total (without key es)"
proof (induction es)
  case (Cons e es)
  obtain k v b where e: "e = (k, v, b)" by (cases e)
  show ?case
  proof (cases "k = key")
    case True
    then have "filter (\<lambda>e. fst e \<noteq> key) es = es" using Cons.prems(1) e by (auto simp: filter_id_conv)
    then show ?thesis using Cons.prems(2) True e by (simp add: without_def)
  qed (use Cons e in \<open>simp add: without_def\<close>)
qed simp

lemma drop_ok:
  assumes "cache_ok c" "cc_entries c key = Some entry"
  shows "cache_ok (drop_entry key entry c)" and "unat (cc_used (drop_entry key entry c)) = unat (cc_used c) - unat (ce_size entry)"
proof -
  have total: "lru_total (resident c) = unat (ce_size entry) + lru_total (without key (resident c))"
    by (rule total_without [OF resident_distinct [OF assms(1)]]) (simp add: resident_lookup [OF assms(1)] assms(2))
  then have "ce_size entry \<le> cc_used c" using cache_okD(3) [OF assms(1)] by (simp add: word_le_nat_alt)
  then show used: "unat (cc_used (drop_entry key entry c)) = unat (cc_used c) - unat (ce_size entry)"
    by (simp add: drop_entry_def unat_sub)
  have "tbl_get (cc_order c) t = Some k \<Longrightarrow> k \<noteq> key \<Longrightarrow> t \<noteq> ce_tick entry" for t k
    using cache_okD(1) [OF assms(1), of "ce_tick entry" key] assms(2) by auto
  then show "cache_ok (drop_entry key entry c)"
    using used total cache_okD(3) [OF assms(1)] cache_okD(1,2) [OF assms(1)] assms(2)
    by (auto simp: cache_ok_def resident_drop [OF assms]) (auto simp: drop_entry_def split: if_splits)
qed

definition put_entry :: "cache_key \<Rightarrow> cache_value \<Rightarrow> u64 \<Rightarrow> content_cache \<Rightarrow> content_cache" where
  "put_entry key val bytes c =
     c\<lparr>cc_next_tick := cc_next_tick c + 1, cc_used := cc_used c + bytes, cc_order := tbl_insert (cc_next_tick c) key (cc_order c),
       cc_entries := (cc_entries c)(key \<mapsto> \<lparr>ce_value = val, ce_size = bytes, ce_tick = cc_next_tick c\<rparr>)\<rparr>"

lemma next_tick_grows: "unat (cc_next_tick c) < 2 ^ 64 - 1 \<Longrightarrow> unat (cc_next_tick c + 1) = unat (cc_next_tick c) + 1"
  by (simp add: unat_word_ariths)

lemma put_entry_ok:
  assumes ok: "cache_ok c" and new: "cc_entries c key = None" and tick: "unat (cc_next_tick c) < 2 ^ 64 - 1"
    and bytes: "lru_total (resident c) + unat bytes < 2 ^ 64"
  shows "cache_ok (put_entry key val bytes c)" and "resident (put_entry key val bytes c) = resident c @ [(key, val, bytes)]"
proof -
  let ?c = "put_entry key val bytes c"
  have older: "t < cc_next_tick c" if "(t, k) \<in> set (tbl_entries (cc_order c))" for t k
    using that cache_okD(2) [OF ok] by (simp add: tbl.in_entries_iff)
  have order: "tbl_entries (cc_order ?c) = tbl_entries (cc_order c) @ [(cc_next_tick c, key)]"
    unfolding put_entry_def by (simp, rule tbl_insert_snoc) (use older in auto)
  have "entry_of ?c e = entry_of c e" if "e \<in> set (tbl_entries (cc_order c))" for e
    using key_of_tick [OF ok, of "fst e" "snd e"] that new by (auto simp: entry_of_def put_entry_def)
  then show resident: "resident ?c = resident c @ [(key, val, bytes)]"
    by (simp add: resident_def order) (simp add: entry_of_def put_entry_def)
  have used: "unat (cc_used ?c) = unat (cc_used c) + unat bytes"
    using bytes cache_okD(3) [OF ok] by (simp add: put_entry_def unat_add_lem [THEN iffD1])
  have "cc_next_tick c < cc_next_tick c + 1" using next_tick_grows [OF tick] by (simp add: word_less_nat_alt)
  then have "t < cc_next_tick c + 1" if "tbl_get (cc_order c) t = Some k" for t k
    using cache_okD(2) [OF ok that] by simp
  moreover have "tbl_get (cc_order c) (cc_next_tick c) = None"
    using cache_okD(2) [OF ok, of "cc_next_tick c"] by (cases "tbl_get (cc_order c) (cc_next_tick c)") auto
  moreover from this have "ce_tick e \<noteq> cc_next_tick c" if "cc_entries c k = Some e" for k e
    using cache_okD(1) [OF ok, of "cc_next_tick c" k] that by auto
  ultimately show "cache_ok ?c"
    using \<open>cc_next_tick c < cc_next_tick c + 1\<close> used resident cache_okD(1,3) [OF ok] new
    unfolding cache_ok_def by (auto simp: put_entry_def)
qed

section \<open>Eviction\<close>

lemma keys_of_rest:
  assumes "cache_ok c" "tbl_entries (cc_order c) = kept @ (tick, key) # rest"
  shows "key \<notin> snd ` set kept" "key \<notin> snd ` set rest" "\<exists>e. cc_entries c key = Some e \<and> ce_tick e = tick"
proof -
  have "distinct (map snd (kept @ (tick, key) # rest))"
    using resident_distinct [OF assms(1)] by (simp only: resident_keys assms(2))
  then show "key \<notin> snd ` set kept" "key \<notin> snd ` set rest" by auto
  show "\<exists>e. cc_entries c key = Some e \<and> ce_tick e = tick" by (rule key_of_tick [OF assms(1)]) (simp add: assms(2))
qed

lemma evict_loop:
  assumes "cache_ok c" "tbl_entries (cc_order c) = kept @ rest" "cache_evict_loop rest c = (out, c')"
  shows "cache_ok c' \<and> cc_budget c' = cc_budget c \<and> cc_pinned c' = cc_pinned c \<and> cc_next_tick c' = cc_next_tick c
    \<and> (\<exists>stays. lru_shed (unat (cc_budget c)) (cc_pinned c) (unat (cc_used c)) (map (entry_of c) rest) = (map evicted_entry out, stays)
        \<and> resident c' = map (entry_of c) kept @ stays)"
  using assms
proof (induction rest c arbitrary: kept out c' rule: cache_evict_loop.induct)
  case (1 c)
  then show ?case by (simp add: resident_def)
next
  case (2 tick key rest c)
  obtain e where e: "cc_entries c key = Some e" "ce_tick e = tick" using keys_of_rest [OF "2.prems"(1,2)] by blast
  have entry: "entry_of c (tick, key) = (key, ce_value e, ce_size e)" by (simp add: entry_of_def e)
  consider (settled) "cc_used c \<le> cc_budget c" | (pinned) "\<not> cc_used c \<le> cc_budget c" "key \<in> cc_pinned c"
    | (goes) "\<not> cc_used c \<le> cc_budget c" "key \<notin> cc_pinned c" by blast
  then show ?case
  proof cases
    case settled
    then have "out = []" "c' = c" using "2.prems"(3) by simp_all
    moreover have "resident c = map (entry_of c) kept @ entry_of c (tick, key) # map (entry_of c) rest"
      by (simp add: resident_def "2.prems"(2))
    ultimately show ?thesis using "2.prems"(1) settled by (simp add: entry word_le_nat_alt)
  next
    case pinned
    have run: "cache_evict_loop rest c = (out, c')" using "2.prems"(3) pinned by simp
    have "tbl_entries (cc_order c) = (kept @ [(tick, key)]) @ rest" using "2.prems"(2) by simp
    from "2.IH"(1) [OF pinned "2.prems"(1) this run] show ?thesis
      using pinned by (auto simp: entry word_le_nat_alt)
  next
    case goes
    let ?d = "drop_entry key e c"
    let ?c1 = "c\<lparr>cc_order := tbl_remove tick (cc_order c)\<rparr>"
    have d: "?d = ?c1\<lparr>cc_entries := (cc_entries ?c1)(key := None), cc_used := cc_used ?c1 - ce_size e\<rparr>"
      by (simp add: drop_entry_def e)
    obtain out' where out: "cache_evict_loop rest ?d = (out', c')"
      "out = \<lparr>evd_key = key, evd_value = ce_value e, evd_size = ce_size e\<rparr> # out'"
      using "2.prems"(3) goes e by (auto simp: d Let_def split: prod.splits)
    have others: "key \<notin> snd ` set kept" "key \<notin> snd ` set rest" using keys_of_rest [OF "2.prems"(1,2)] by blast+
    then have away: "\<forall>x\<in>set kept. snd x \<noteq> key" "\<forall>x\<in>set rest. snd x \<noteq> key" by (auto simp: image_iff)
    then have "filter (\<lambda>e. snd e \<noteq> key) (kept @ (tick, key) # rest) = kept @ rest" by simp
    then have order: "tbl_entries (cc_order ?d) = kept @ rest"
      using order_drop [OF "2.prems"(1) e(1)] "2.prems"(2) by (simp add: drop_entry_def)
    have same: "entry_of ?d x = entry_of c x" if "snd x \<noteq> key" for x using that by (simp add: entry_of_def drop_entry_def)
    have maps: "map (entry_of ?d) kept = map (entry_of c) kept" "map (entry_of ?d) rest = map (entry_of c) rest"
      using away by (auto intro!: map_cong same)
    have fields: "cc_budget ?d = cc_budget c" "cc_pinned ?d = cc_pinned c" "cc_next_tick ?d = cc_next_tick c"
      by (simp_all add: drop_entry_def)
    have "cc_entries ?c1 key = Some e" by (simp add: e)
    from "2.IH"(3) [OF goes refl this, folded d, OF drop_ok(1) [OF "2.prems"(1) e(1)] order out(1)]
    show ?thesis
      using goes by (auto simp: entry out(2) maps fields drop_ok(2) [OF "2.prems"(1) e(1)] word_le_nat_alt)
  qed
qed

lemma shed_total:
  "lru_shed budget pinned used es = (out, stays) \<Longrightarrow> lru_total es \<le> used \<Longrightarrow>
     lru_total stays \<le> lru_total es \<and> (used - (lru_total es - lru_total stays) \<le> budget \<or> fst ` set stays \<subseteq> pinned)"
proof (induction budget pinned used es arbitrary: out stays rule: lru_shed.induct)
  case (2 budget pinned used key val bytes es)
  consider (settled) "used \<le> budget" | (pinned) "\<not> used \<le> budget" "key \<in> pinned" | (goes) "\<not> used \<le> budget" "key \<notin> pinned" by blast
  then show ?case
  proof cases
    case settled
    then show ?thesis using "2.prems" by simp
  next
    case pinned
    obtain o1 s1 where rest: "lru_shed budget pinned used es = (o1, s1)" by fastforce
    have "stays = (key, val, bytes) # s1" using "2.prems"(1) pinned rest by simp
    then show ?thesis using "2.IH"(1) [OF pinned rest] "2.prems"(2) pinned(2) by auto
  next
    case goes
    obtain o1 s1 where rest: "lru_shed budget pinned (used - unat bytes) es = (o1, s1)" by fastforce
    have "stays = s1" using "2.prems"(1) goes rest by simp
    moreover have le: "lru_total es \<le> used - unat bytes" using "2.prems"(2) by simp
    note IH = "2.IH"(2) [OF goes rest le]
    moreover have "used - unat bytes - (lru_total es - lru_total s1) = used - (unat bytes + lru_total es - lru_total s1)"
      using IH by simp
    ultimately show ?thesis by auto
  qed
qed simp

lemma evict_settles:
  assumes "cache_ok c" "cache_evict c = (out, c')"
  shows "lru_settle (unat (cc_budget c)) (as_lru c) = (map evicted_entry out, as_lru c') \<and> cache_ok c'
    \<and> cc_budget c' = cc_budget c \<and> cc_next_tick c' = cc_next_tick c \<and> lru_total (resident c') \<le> lru_total (resident c)
    \<and> (cc_used c' \<le> cc_budget c \<or> dom (cc_entries c') \<subseteq> cc_pinned c')"
proof -
  obtain stays where shed: "lru_shed (unat (cc_budget c)) (cc_pinned c) (unat (cc_used c)) (resident c) = (map evicted_entry out, stays)"
    and after: "resident c' = stays" "cache_ok c'" "cc_budget c' = cc_budget c" "cc_pinned c' = cc_pinned c" "cc_next_tick c' = cc_next_tick c"
    using evict_loop [of c "[]" "tbl_entries (cc_order c)" out c'] assms by (auto simp: cache_evict_def resident_def)
  have used: "unat (cc_used c) = lru_total (resident c)" "unat (cc_used c') = lru_total stays"
    using cache_okD(3) [OF assms(1)] cache_okD(3) [OF after(2)] after(1) by simp_all
  have total: "lru_total stays \<le> lru_total (resident c)" "lru_total stays \<le> unat (cc_budget c) \<or> fst ` set stays \<subseteq> cc_pinned c"
    using shed_total [OF shed] used(1) by auto
  have "dom (cc_entries c') = fst ` set stays"
    using resident_lookup [OF after(2)] after(1) by (auto simp: dom_map_of_conv_image_fst [symmetric] dom_def)
  then show ?thesis
    using shed after total used by (auto simp: lru_settle_def as_lru_def word_le_nat_alt)
qed

section \<open>Every operation\<close>

lemma as_lru_drop: "cache_ok c \<Longrightarrow> cc_entries c key = Some e \<Longrightarrow> as_lru (drop_entry key e c) = \<lparr>lru_entries = without key (resident c), lru_pinned = cc_pinned c\<rparr>"
  by (simp add: as_lru_def resident_drop) (simp add: drop_entry_def)

lemma total_drop:
  "cache_ok c \<Longrightarrow> cc_entries c key = Some e \<Longrightarrow> lru_total (without key (resident c)) + unat (ce_size e) = lru_total (resident c)"
  using total_without [OF resident_distinct, of c key "ce_value e" "ce_size e"] by (simp add: resident_lookup)

lemma get_refines:
  assumes ok: "cache_ok c" and tick: "unat (cc_next_tick c) < 2 ^ 64 - 1" and run: "cache_get key c = (val, c')"
  shows "lru_op budget (Op_Get key) (as_lru c) = ((val, []), as_lru c') \<and> cache_ok c' \<and> cc_budget c' = cc_budget c
    \<and> unat (cc_next_tick c') \<le> unat (cc_next_tick c) + 1 \<and> lru_total (resident c') \<le> lru_total (resident c)"
proof (cases "cc_entries c key")
  case None
  have c': "c' = c\<lparr>cc_next_tick := cc_next_tick c + 1\<rparr>" "val = None"
    using run None by (simp_all add: cache_get_def cache_bump_def)
  have same: "resident c' = resident c" by (simp add: c' resident_def entry_of_def)
  have "t < cc_next_tick c + 1" if "tbl_get (cc_order c) t = Some k" for t k
    using cache_okD(2) [OF ok that] next_tick_grows [OF tick] by (simp add: word_less_nat_alt)
  then have "cache_ok c'" using cache_okD(1,3) [OF ok] same unfolding cache_ok_def same by (auto simp: c')
  moreover have "map_of (resident c) key = None" by (simp add: resident_lookup [OF ok] None)
  ultimately show ?thesis using same next_tick_grows [OF tick] by (simp add: as_lru_def) (simp add: c')
next
  case (Some e)
  let ?d = "drop_entry key e c"
  have c': "c' = put_entry key (ce_value e) (ce_size e) ?d" "val = Some (ce_value e)"
    using run Some by (cases e; auto simp: cache_get_def cache_bump_def put_entry_def drop_entry_def)+
  have d: "cache_ok ?d" "cc_entries ?d key = None" "unat (cc_next_tick ?d) < 2 ^ 64 - 1" "resident ?d = without key (resident c)"
    using drop_ok(1) [OF ok Some] tick resident_drop [OF ok Some] by (simp_all add: drop_entry_def)
  have total: "lru_total (resident ?d) + unat (ce_size e) = lru_total (resident c)" using total_drop [OF ok Some] d(4) by simp
  moreover have "unat (cc_used c) < 2 ^ 64" using unsigned_less [of "cc_used c"] by simp
  ultimately have "lru_total (resident ?d) + unat (ce_size e) < 2 ^ 64" using cache_okD(3) [OF ok] by simp
  note put = put_entry_ok [OF d(1,2,3) this, of "ce_value e"]
  have "map_of (resident c) key = Some (ce_value e, ce_size e)" by (simp add: resident_lookup [OF ok] Some)
  moreover have "cc_pinned c' = cc_pinned c" "cc_budget c' = cc_budget c" "cc_next_tick c' = cc_next_tick c + 1"
    by (simp_all add: c' put_entry_def drop_entry_def)
  ultimately show ?thesis
    using put total next_tick_grows [OF tick] d(4) by (simp add: as_lru_def c')
qed

lemma insert_refines:
  assumes ok: "cache_ok c" and tick: "unat (cc_next_tick c) < 2 ^ 64 - 1" and room: "lru_total (resident c) + unat bytes < 2 ^ 64"
    and run: "cache_insert key val bytes c = (out, c')"
  shows "lru_op (unat (cc_budget c)) (Op_Insert key val bytes) (as_lru c) = ((None, map evicted_entry out), as_lru c')
    \<and> cache_ok c' \<and> cc_budget c' = cc_budget c \<and> unat (cc_next_tick c') \<le> unat (cc_next_tick c) + 1
    \<and> lru_total (resident c') \<le> lru_total (resident c) + unat bytes \<and> (cc_used c' \<le> cc_budget c \<or> dom (cc_entries c') \<subseteq> cc_pinned c')"
proof -
  define d where "d = (case cc_entries c key of None \<Rightarrow> c | Some e \<Rightarrow> drop_entry key e c)"
  have absent: "without key (resident c) = resident c" if "cc_entries c key = None"
    using resident_lookup [OF ok, of key] that by (auto simp: without_def filter_id_conv map_of_eq_None_iff)
  have d: "cache_ok d" "cc_entries d key = None" "cc_next_tick d = cc_next_tick c" "cc_budget d = cc_budget c" "cc_pinned d = cc_pinned c"
    "resident d = without key (resident c)" "lru_total (resident d) \<le> lru_total (resident c)"
    using ok drop_ok(1) [OF ok] resident_drop [OF ok] total_drop [OF ok] absent
    by (cases "cc_entries c key"; simp add: d_def; force simp: drop_entry_def)+
  have put: "cache_ok (put_entry key val bytes d)" "resident (put_entry key val bytes d) = resident d @ [(key, val, bytes)]"
    using put_entry_ok [OF d(1,2), of bytes val] tick room d(3,7) by simp_all
  have "cache_evict (put_entry key val bytes d) = (out, c')"
    using run by (simp add: cache_insert_def cache_bump_def put_entry_def d_def drop_entry_def split: option.splits)
  note settle = evict_settles [OF put(1) this]
  have fields: "cc_budget (put_entry key val bytes d) = cc_budget c" "cc_next_tick (put_entry key val bytes d) = cc_next_tick c + 1"
    "as_lru (put_entry key val bytes d) = (as_lru c)\<lparr>lru_entries := without key (resident c) @ [(key, val, bytes)]\<rparr>"
    using d(3,4,5,6) put(2) by (simp_all add: as_lru_def) (simp_all add: put_entry_def)
  show ?thesis
    using settle put(2) d(7) next_tick_grows [OF tick] by (simp add: fields) (simp add: as_lru_def)
qed

lemma pins_ok:
  assumes "cache_ok c"
  shows "cache_ok (c\<lparr>cc_pinned := pins\<rparr>)" and "as_lru (c\<lparr>cc_pinned := pins\<rparr>) = (as_lru c)\<lparr>lru_pinned := pins\<rparr>"
    and "resident (c\<lparr>cc_pinned := pins\<rparr>) = resident c"
proof -
  show same: "resident (c\<lparr>cc_pinned := pins\<rparr>) = resident c" by (simp add: resident_def entry_of_def)
  show "cache_ok (c\<lparr>cc_pinned := pins\<rparr>)" using assms unfolding cache_ok_def same by simp
  show "as_lru (c\<lparr>cc_pinned := pins\<rparr>) = (as_lru c)\<lparr>lru_pinned := pins\<rparr>" by (simp add: as_lru_def same)
qed

lemma as_lru_fields: "lru_entries (as_lru c) = resident c" "lru_pinned (as_lru c) = cc_pinned c"
  by (simp_all add: as_lru_def)

lemma remove_refines:
  assumes ok: "cache_ok c" and run: "cache_remove key c = (val, c')"
  shows "lru_op budget (Op_Remove key) (as_lru c) = ((val, []), as_lru c') \<and> cache_ok c' \<and> cc_budget c' = cc_budget c
    \<and> cc_next_tick c' = cc_next_tick c \<and> lru_total (resident c') \<le> lru_total (resident c)"
proof (cases "cc_entries c key")
  case None
  then have "map_of (resident c) key = None" by (simp add: resident_lookup [OF ok])
  then show ?thesis using run None ok by (simp add: cache_remove_def as_lru_fields)
next
  case (Some e)
  let ?d = "drop_entry key e c"
  have c': "c' = ?d\<lparr>cc_pinned := cc_pinned c - {key}\<rparr>" "val = Some (ce_value e)"
    using run Some by (auto simp: cache_remove_def drop_entry_def)
  have "map_of (resident c) key = Some (ce_value e, ce_size e)" by (simp add: resident_lookup [OF ok] Some)
  moreover have "as_lru c' = \<lparr>lru_entries = without key (resident c), lru_pinned = cc_pinned c - {key}\<rparr>"
    by (simp add: c'(1) pins_ok(2) [OF drop_ok(1) [OF ok Some]] as_lru_drop [OF ok Some])
  moreover have "cache_ok c'" "lru_total (resident c') \<le> lru_total (resident c)"
    using total_drop [OF ok Some] by (simp_all add: c'(1) pins_ok [OF drop_ok(1) [OF ok Some]] resident_drop [OF ok Some])
  moreover have "cc_budget c' = cc_budget c" "cc_next_tick c' = cc_next_tick c" by (simp_all add: c'(1) drop_entry_def)
  ultimately show ?thesis by (simp add: as_lru_fields c'(2))
qed

text \<open>The operations that settle the cache to its budget.\<close>

fun sheds :: "cache_op \<Rightarrow> bool" where
  "sheds (Op_Insert _ _ _) \<longleftrightarrow> True"
| "sheds (Op_RetainPins _) \<longleftrightarrow> True"
| "sheds Op_ClearPins \<longleftrightarrow> True"
| "sheds _ \<longleftrightarrow> False"

definition steps_to :: "cache_op \<Rightarrow> content_cache \<Rightarrow> content_cache \<Rightarrow> bool" where
  "steps_to x c c' \<longleftrightarrow>
     cache_ok c' \<and> cc_budget c' = cc_budget c \<and> unat (cc_next_tick c') \<le> unat (cc_next_tick c) + 1
     \<and> lru_total (resident c') \<le> lru_total (resident c) + op_bytes x
     \<and> (sheds x \<longrightarrow> cc_used c' \<le> cc_budget c \<or> dom (cc_entries c') \<subseteq> cc_pinned c')"

lemma perform_refines:
  assumes ok: "cache_ok c" and tick: "unat (cc_next_tick c) < 2 ^ 64 - 1" and room: "lru_total (resident c) + op_bytes x < 2 ^ 64"
    and run: "cache_perform x c = (answer, c')"
  shows "lru_op (unat (cc_budget c)) x (as_lru c) = (answer, as_lru c') \<and> steps_to x c c'"
proof (cases x)
  case (Op_Get key)
  then show ?thesis using run get_refines [OF ok tick] by (auto simp: steps_to_def split: prod.splits)
next
  case (Op_Insert key val bytes)
  then obtain out where "cache_insert key val bytes c = (out, c')" "answer = (None, map evicted_entry out)"
    using run by (auto split: prod.splits)
  then show ?thesis using insert_refines [OF ok tick] room Op_Insert by (simp add: steps_to_def)
next
  case (Op_Remove key)
  then show ?thesis using run remove_refines [OF ok] by (auto simp: steps_to_def split: prod.splits)
next
  case (Op_Pin key)
  then show ?thesis using run by (auto simp: steps_to_def cache_pin_def pins_ok [OF ok] as_lru_fields)
next
  case (Op_Unpin key)
  then show ?thesis using run by (auto simp: steps_to_def cache_unpin_def pins_ok [OF ok] as_lru_fields)
next
  case (Op_RetainPins keep)
  then obtain out where "cache_evict (c\<lparr>cc_pinned := Set.filter keep (cc_pinned c)\<rparr>) = (out, c')" "answer = (None, map evicted_entry out)"
    using run by (auto simp: cache_retain_pins_def split: prod.splits)
  then show ?thesis
    using evict_settles [OF pins_ok(1) [OF ok]] Op_RetainPins by (auto simp: steps_to_def pins_ok [OF ok] as_lru_fields)
next
  case Op_ClearPins
  then obtain out where "cache_evict (c\<lparr>cc_pinned := {}\<rparr>) = (out, c')" "answer = (None, map evicted_entry out)"
    using run by (auto simp: cache_clear_pins_def split: prod.splits)
  then show ?thesis
    using evict_settles [OF pins_ok(1) [OF ok]] Op_ClearPins by (auto simp: steps_to_def pins_ok [OF ok] as_lru_fields)
qed

section \<open>Runs\<close>

lemma run_refines:
  assumes "cache_ok c" "unat (cc_next_tick c) + length ops < 2 ^ 64" "lru_total (resident c) + sum_list (map op_bytes ops) < 2 ^ 64"
    and "run_ops cache_perform ops c = (answers, c')"
  shows "run_ops (lru_op (unat (cc_budget c))) ops (as_lru c) = (answers, as_lru c') \<and> cc_budget c' = cc_budget c
    \<and> (ops \<noteq> [] \<and> sheds (last ops) \<longrightarrow> cc_used c' \<le> cc_budget c \<or> dom (cc_entries c') \<subseteq> cc_pinned c')"
  using assms
proof (induction ops arbitrary: c answers)
  case (Cons x ops)
  obtain answer c1 where one: "cache_perform x c = (answer, c1)" by fastforce
  obtain rest where run: "run_ops cache_perform ops c1 = (rest, c')" "answers = answer # rest"
    using Cons.prems(4) one by (auto split: prod.splits)
  have step: "lru_op (unat (cc_budget c)) x (as_lru c) = (answer, as_lru c1)" "steps_to x c c1"
    using perform_refines [OF Cons.prems(1) _ _ one] Cons.prems(2,3) by simp_all
  then have "run_ops (lru_op (unat (cc_budget c1))) ops (as_lru c1) = (rest, as_lru c') \<and> cc_budget c' = cc_budget c1
      \<and> (ops \<noteq> [] \<and> sheds (last ops) \<longrightarrow> cc_used c' \<le> cc_budget c1 \<or> dom (cc_entries c') \<subseteq> cc_pinned c')"
    using Cons.IH [of c1 rest] run(1) Cons.prems(2,3) by (simp add: steps_to_def)
  moreover have "c' = c1" if "ops = []" using run(1) that by simp
  ultimately show ?case using step run(2) by (auto simp: steps_to_def)
qed simp

lemma new_ok: "cache_ok (cache_new budget)" "as_lru (cache_new budget) = \<lparr>lru_entries = [], lru_pinned = {}\<rparr>"
  by (simp_all add: cache_ok_def as_lru_def cache_new_def resident_def)

text \<open>
  C15: The content cache is an LRU list: over any run of lookups, insertions, removals and pins from an empty
  cache, every answer - the value found, and the entries evicted with their order - is that of a plain list in
  which a use moves an entry to the end and shedding takes unpinned entries from the front until the rest fits
  the budget. After a run that ends with an insertion or a release of pins the bytes used are within the budget,
  unless every entry that is left is pinned.
\<close>

theorem cache_is_lru:
  assumes "length ops < 2 ^ 64" "sum_list (map op_bytes ops) < 2 ^ 64"
    and "run_ops cache_perform ops (cache_new budget) = (answers, c')"
  shows "run_ops (lru_op (unat budget)) ops \<lparr>lru_entries = [], lru_pinned = {}\<rparr> = (answers, as_lru c')
    \<and> (ops \<noteq> [] \<and> sheds (last ops) \<longrightarrow> cc_used c' \<le> budget \<or> dom (cc_entries c') \<subseteq> cc_pinned c')"
proof -
  have "cc_next_tick (cache_new budget) = 0" "resident (cache_new budget) = []" "cc_budget (cache_new budget) = budget"
    by (simp_all add: cache_new_def resident_def)
  then show ?thesis
    using run_refines [OF new_ok(1) _ _ assms(3)] assms(1,2) new_ok(2) [of budget] by simp
qed

text \<open>Three trees of 40 bytes in a cache of 100: the first is used again before the third comes.\<close>

definition sample_tree :: "u64 \<Rightarrow> cache_key \<times> cache_value" where
  "sample_tree n = (CacheKey_Tree \<lparr>tk_repo_id = RepoId (Ulid 1 (ucast n)), tk_root = TreeOid (Oid [])\<rparr>,
     CacheValue_Tree \<lparr>ts_repo_id = RepoId (Ulid 1 (ucast n)), ts_root_oid = TreeOid (Oid []), ts_entries = []\<rparr>)"

definition sample_ops :: "cache_op list" where
  "sample_ops =
     [Op_Insert (fst (sample_tree 1)) (snd (sample_tree 1)) 40, Op_Insert (fst (sample_tree 2)) (snd (sample_tree 2)) 40,
      Op_Get (fst (sample_tree 1)), Op_Insert (fst (sample_tree 3)) (snd (sample_tree 3)) 40]"

theorem cache_is_lru_witness:
  "\<exists>answers c'. run_ops cache_perform sample_ops (cache_new 100) = (answers, c')
     \<and> map (map fst \<circ> snd) answers = [[], [], [], [fst (sample_tree 2)]] \<and> cc_used c' \<le> 100"
proof -
  obtain answers c' where run: "run_ops cache_perform sample_ops (cache_new 100) = (answers, c')" by fastforce
  have "run_ops (lru_op 100) sample_ops \<lparr>lru_entries = [], lru_pinned = {}\<rparr> = (answers, as_lru c')
    \<and> (cc_used c' \<le> 100 \<or> dom (cc_entries c') \<subseteq> cc_pinned c')"
    using cache_is_lru [OF _ _ run] by (simp add: sample_ops_def)
  moreover have "map (map fst \<circ> snd) (fst (run_ops (lru_op 100) sample_ops \<lparr>lru_entries = [], lru_pinned = {}\<rparr>))
      = [[], [], [], [fst (sample_tree 2)]]"
    "lru_pinned (snd (run_ops (lru_op 100) sample_ops \<lparr>lru_entries = [], lru_pinned = {}\<rparr>)) = {}"
    by (simp_all add: sample_ops_def sample_tree_def lru_settle_def without_def)
  moreover have "cc_used (snd (run_ops cache_perform sample_ops (cache_new 100))) = 80" by code_simp
  ultimately show ?thesis using run by (intro exI [of _ answers] exI [of _ c']) simp
qed

end
