(* ===== verification/Nits_Explorer.thy ===== *)
theory Nits_Explorer
  imports Nits_Content_Cache
begin

text \<open>
  The explorer of the client, \<open>crates/nits-client-core/src/explorer.rs\<close>: the merged tree of files, what the
  viewer has seen of each, the progress over a review and the fuzzy search over paths. All of it is a function
  of the open review and of local state. Parameters: \<open>repo_text\<close>, the text of a repository id, and \<open>lower\<close>,
  \<open>char::to_lowercase\<close> on a character given by its UTF-8 bytes.
\<close>

section \<open>Types\<close>

record file_ref =
  fr_repo_id :: repo_id
  fr_path :: repo_path

datatype seen_state = Seen_Viewed | Seen_ChangedSinceViewed | Seen_Unviewed

text \<open>\<open>ChangeKindKind\<close>, the discriminant of a change.\<close>

datatype change_badge = Badge_Submodule | Badge_Added | Badge_Deleted | Badge_Modified | Badge_Renamed

fun badge_of :: "change_kind \<Rightarrow> change_badge" where
  "badge_of (Change_Submodule _) = Badge_Submodule"
| "badge_of (Change_Added _) = Badge_Added"
| "badge_of (Change_Deleted _) = Badge_Deleted"
| "badge_of (Change_Modified _ _) = Badge_Modified"
| "badge_of (Change_Renamed _ _ _) = Badge_Renamed"

datatype tree_node =
    Node_Dir (nd_name: string) (nd_repo_id: repo_id) (nd_dir: "repo_path option") (nd_expanded: bool) (nd_changed_below: u32)
      (nd_children: "tree_node list")
  | Node_File (nd_name: string) (nd_repo_id: repo_id) (nd_path: repo_path) (nd_change: "change_badge option")
      (nd_viewed: seen_state) (nd_open: bool) (nd_additions: "u32 option") (nd_deletions: "u32 option") (nd_threads: u32)

record search_hit =
  sh_file :: file_ref
  sh_matched :: "nat list"
  sh_change :: "change_badge option"

record search_view =
  sv_query :: string
  sv_hits :: "search_hit list"
  sv_selected :: nat

record tree_view =
  tv_roots :: "tree_node list"
  tv_breadcrumbs :: "string list"
  tv_search :: "search_view option"

record progress =
  pg_viewed :: u32
  pg_changed_since_viewed :: u32
  pg_total :: u32
  pg_additions :: u32
  pg_deletions :: u32

record explorer_state =
  xs_expanded :: "(repo_id \<times> repo_path option) set"
  xs_collapsed :: "(repo_id \<times> repo_path option) set"
  xs_search :: "string option"
  xs_search_selected :: nat

type_synonym file_stats = "repo_id \<times> string \<rightharpoonup> u32 \<times> u32"

record explorer_inputs =
  xi_snapshot :: review_snapshot
  xi_repo_names :: "(repo_id \<times> string) list"
  xi_trees :: "tree_snapshot list"
  xi_files :: "render_key list"
  xi_open_file :: "file_ref option"
  xi_viewer :: author
  xi_state :: explorer_state
  xi_stats :: file_stats
  xi_thread_counts :: "repo_id \<times> string \<rightharpoonup> u32"
  xi_changed_only :: bool

section \<open>Changes, viewed state and progress\<close>

definition change_of :: "render_key list \<Rightarrow> repo_id \<Rightarrow> repo_path \<Rightarrow> change_kind option" where
  "change_of files repo_id path =
     (case find (\<lambda>k. rk_repo_id k = repo_id \<and> rk_path k = path) files of
        None \<Rightarrow> None
      | Some k \<Rightarrow> (case rk_target k of Target_Diff change \<Rightarrow> Some change | Target_Blob _ \<Rightarrow> None))"

definition file_viewed_state :: "review_snapshot \<Rightarrow> author \<Rightarrow> repo_id \<Rightarrow> repo_path \<Rightarrow> viewed_content \<Rightarrow> seen_state" where
  "file_viewed_state snapshot viewer repo_id path head_content =
     (case as_human viewer of
        None \<Rightarrow> Seen_Unviewed
      | Some human \<Rightarrow>
          (case find (\<lambda>v. vm_repo_id v = repo_id \<and> vm_path v = path \<and> vm_viewer v = human) (sn_viewed snapshot) of
             None \<Rightarrow> Seen_Unviewed
           | Some mark \<Rightarrow> if vm_content mark = head_content then Seen_Viewed else Seen_ChangedSinceViewed))"

fun target_content :: "render_target \<Rightarrow> viewed_content" where
  "target_content (Target_Diff change) = change_viewed_content change"
| "target_content (Target_Blob entry) = Viewed_Blob entry"

definition count_file :: "review_snapshot \<Rightarrow> author \<Rightarrow> file_stats \<Rightarrow> render_key \<Rightarrow> progress \<Rightarrow> progress" where
  "count_file snapshot viewer stats f p =
     (let p1 = (case stats (rk_repo_id f, path_str (rk_path f)) of
                  None \<Rightarrow> p
                | Some (a, d) \<Rightarrow> p\<lparr>pg_additions := pg_additions p + a, pg_deletions := pg_deletions p + d\<rparr>);
          p2 = p1\<lparr>pg_total := pg_total p1 + 1\<rparr>
      in case file_viewed_state snapshot viewer (rk_repo_id f) (rk_path f) (target_content (rk_target f)) of
           Seen_Viewed \<Rightarrow> p2\<lparr>pg_viewed := pg_viewed p2 + 1\<rparr>
         | Seen_ChangedSinceViewed \<Rightarrow> p2\<lparr>pg_changed_since_viewed := pg_changed_since_viewed p2 + 1\<rparr>
         | Seen_Unviewed \<Rightarrow> p2)"

definition explorer_progress :: "review_snapshot \<Rightarrow> author \<Rightarrow> render_key list \<Rightarrow> file_stats \<Rightarrow> progress" where
  "explorer_progress snapshot viewer files stats =
     fold (count_file snapshot viewer stats) files
       \<lparr>pg_viewed = 0, pg_changed_since_viewed = 0, pg_total = 0, pg_additions = 0, pg_deletions = 0\<rparr>"

section \<open>The tree\<close>

record leaf =
  lf_path :: repo_path
  lf_head_content :: viewed_content

fun count_node :: "tree_node \<Rightarrow> u32" where
  "count_node (Node_Dir _ _ _ _ changed_below _) = changed_below"
| "count_node (Node_File _ _ _ change _ _ _ _ _) = (if change \<noteq> None then 1 else 0)"

definition count_changed :: "tree_node list \<Rightarrow> u32" where
  "count_changed nodes = sum_list (map count_node nodes)"

definition dir_expanded :: "explorer_inputs \<Rightarrow> repo_id \<Rightarrow> repo_path option \<Rightarrow> bool" where
  "dir_expanded inputs repo_id dir \<longleftrightarrow>
     (if xi_changed_only inputs then (repo_id, dir) \<notin> xs_collapsed (xi_state inputs)
      else (repo_id, dir) \<in> xs_expanded (xi_state inputs))"

definition file_node :: "explorer_inputs \<Rightarrow> repo_id \<Rightarrow> leaf \<Rightarrow> string \<Rightarrow> tree_node" where
  "file_node inputs repo_id leaf name =
     (let key = (repo_id, path_str (lf_path leaf)); stats = xi_stats inputs key
      in Node_File name repo_id (lf_path leaf)
           (map_option badge_of (change_of (xi_files inputs) repo_id (lf_path leaf)))
           (file_viewed_state (xi_snapshot inputs) (xi_viewer inputs) repo_id (lf_path leaf) (lf_head_content leaf))
           (case xi_open_file inputs of None \<Rightarrow> False | Some f \<Rightarrow> fr_repo_id f = repo_id \<and> fr_path f = lf_path leaf)
           (map_option fst stats) (map_option snd stats)
           (case xi_thread_counts inputs key of None \<Rightarrow> 0 | Some n \<Rightarrow> n))"

text \<open>Directories first, then files, each in the order of their names.\<close>

fun node_rank :: "tree_node \<Rightarrow> bool \<times> string" where
  "node_rank (Node_Dir name _ _ _ _ _) = (False, name)"
| "node_rank (Node_File name _ _ _ _ _ _ _ _) = (True, name)"

definition dir_prefix :: "repo_path option \<Rightarrow> string" where
  "dir_prefix dir = (case dir of None \<Rightarrow> '''' | Some d \<Rightarrow> path_str d @ ''/'')"

text \<open>Deeper directories have longer prefixes, and no prefix is longer than the paths below it.\<close>

definition longest :: "leaf list \<Rightarrow> nat" where
  "longest leaves = fold (\<lambda>l. max (length (path_str (lf_path l)))) leaves 0"

lemma longest_max: "fold (\<lambda>l. max (length (path_str (lf_path l)))) leaves n = max n (longest leaves)"
proof (induction leaves arbitrary: n)
  case (Cons l leaves)
  show ?case
    using Cons.IH [of "max (length (path_str (lf_path l))) n"] Cons.IH [of "length (path_str (lf_path l))"]
    by (simp add: longest_def max.assoc max.left_commute)
qed (simp add: longest_def)

lemma longest_Cons [simp]: "longest (l # ls) = max (length (path_str (lf_path l))) (longest ls)"
  using longest_max [of ls "length (path_str (lf_path l))"] by (simp add: longest_def)

lemma longest_append [simp]: "longest (xs @ ys) = max (longest xs) (longest ys)"
  by (induction xs) (simp_all add: longest_def [of "[]"] max.assoc)

lemma child_prefix:
  assumes "strip_prefix (dir_prefix dir) s = Some rest" "split_once ''/'' rest = Some (child_dir, x)"
    and "repo_path_new (dir_prefix dir @ child_dir) = Inr child_path"
  shows "length (dir_prefix dir) < length (dir_prefix (Some child_path))" "length (dir_prefix (Some child_path)) \<le> length s"
proof -
  have "s = dir_prefix dir @ child_dir @ ''/'' @ x"
    using assms(1,2) by (auto simp: strip_prefix_Some_iff dest: split_once_SomeD)
  moreover have "dir_prefix (Some child_path) = dir_prefix dir @ child_dir @ ''/''"
    using assms(3) by (simp add: repo_path_new_Inr_iff dir_prefix_def)
  ultimately show "length (dir_prefix dir) < length (dir_prefix (Some child_path))" "length (dir_prefix (Some child_path)) \<le> length s"
    by simp_all
qed

lemma child_decreases:
  assumes "strip_prefix (dir_prefix dir) (path_str (lf_path leaf)) = Some rest" "split_once ''/'' rest = Some (child_dir, x)"
    and "repo_path_new (dir_prefix dir @ child_dir) = Inr child_path"
  shows "longest leaves + 1 - length (dir_prefix (Some child_path))
    < longest (leaves @ leaf # rest_leaves) + 1 - length (dir_prefix dir)"
proof -
  have "length (path_str (lf_path leaf)) \<le> longest (leaves @ leaf # rest_leaves)" "longest leaves \<le> longest (leaves @ leaf # rest_leaves)"
    by simp_all
  then show ?thesis using child_prefix [OF assms] by linarith
qed

text \<open>\<open>nest\<close> and its loop over the sorted leaves, with the directories seen and the nodes built so far.\<close>

function nest :: "explorer_inputs \<Rightarrow> repo_id \<Rightarrow> leaf list \<Rightarrow> repo_path option \<Rightarrow> tree_node list"
  and nest_loop :: "explorer_inputs \<Rightarrow> repo_id \<Rightarrow> leaf list \<Rightarrow> repo_path option \<Rightarrow> leaf list \<Rightarrow> string list \<Rightarrow> tree_node list"
where
  "nest inputs repo_id leaves dir = sort_key node_rank (nest_loop inputs repo_id leaves dir leaves [])"
| "nest_loop inputs repo_id leaves dir [] seen_dirs = []"
| "nest_loop inputs repo_id leaves dir (leaf # rest_leaves) seen_dirs =
     (case strip_prefix (dir_prefix dir) (path_str (lf_path leaf)) of
        None \<Rightarrow> nest_loop inputs repo_id leaves dir rest_leaves seen_dirs
      | Some rest \<Rightarrow>
          (case split_once ''/'' rest of
             Some (child_dir, _) \<Rightarrow>
               if child_dir \<in> set seen_dirs then nest_loop inputs repo_id leaves dir rest_leaves seen_dirs
               else (case repo_path_new (dir_prefix dir @ child_dir) of
                       Inl _ \<Rightarrow> nest_loop inputs repo_id leaves dir rest_leaves (child_dir # seen_dirs)
                     | Inr child_path \<Rightarrow>
                         (let children = nest inputs repo_id leaves (Some child_path)
                          in Node_Dir child_dir repo_id (Some child_path) (dir_expanded inputs repo_id (Some child_path))
                               (count_changed children) children
                             # nest_loop inputs repo_id leaves dir rest_leaves (child_dir # seen_dirs)))
           | None \<Rightarrow> file_node inputs repo_id leaf rest # nest_loop inputs repo_id leaves dir rest_leaves seen_dirs))"
  by pat_completeness auto

termination
proof (relation "measures [\<lambda>x. case x of
      Inl (_, _, leaves, dir) \<Rightarrow> longest leaves + 1 - length (dir_prefix dir)
    | Inr (_, _, leaves, dir, todo, _) \<Rightarrow> longest (leaves @ todo) + 1 - length (dir_prefix dir),
    \<lambda>x. case x of Inl (_, _, leaves, _) \<Rightarrow> Suc (length leaves) | Inr (_, _, _, _, todo, _) \<Rightarrow> length todo]", goal_cases)
  case (7 inputs repo_id leaves dir leaf rest_leaves seen_dirs rest child child_dir x child_path)
  then have "longest leaves + 1 - length (dir_prefix (Some child_path))
      < longest (leaves @ leaf # rest_leaves) + 1 - length (dir_prefix dir)"
    by (intro child_decreases) auto
  then show ?case by simp
qed (auto simp: max_def)

section \<open>Fuzzy search\<close>

text \<open>The characters of a string, as their UTF-8 bytes: a character starts at each byte that does not continue one.\<close>

definition utf8_continues :: "char \<Rightarrow> bool" where
  "utf8_continues c \<longleftrightarrow> 0x80 \<le> byte_of c \<and> byte_of c < 0xC0"

fun utf8_chars :: "string \<Rightarrow> string list" where
  "utf8_chars [] = []"
| "utf8_chars (c # cs) =
     (case utf8_chars cs of
        [] \<Rightarrow> [[c]]
      | d # ds \<Rightarrow> if utf8_continues (hd d) then (c # d) # ds else [c] # d # ds)"

text \<open>\<open>char_indices\<close>: each character with the offset of its first byte.\<close>

fun with_offsets :: "nat \<Rightarrow> string list \<Rightarrow> (nat \<times> string) list" where
  "with_offsets n [] = []"
| "with_offsets n (c # cs) = (n, c) # with_offsets (n + length c) cs"

definition char_indices :: "string \<Rightarrow> (nat \<times> string) list" where
  "char_indices text = with_offsets 0 (utf8_chars text)"

text \<open>
  The loop of \<open>fuzzy\<close>: what of the query is left, the offsets matched, the score and whether the character
  before was a hit.
\<close>

definition first_lower :: "(string \<Rightarrow> string list) \<Rightarrow> string \<Rightarrow> string option" where
  "first_lower lower ch = (case lower ch of [] \<Rightarrow> None | l # _ \<Rightarrow> Some l)"

definition hit_score :: "string \<Rightarrow> nat \<Rightarrow> nat \<Rightarrow> bool \<Rightarrow> int" where
  "hit_score text file_name_start offset prev_hit =
     10 + (if prev_hit then 15 else 0) + (if file_name_start \<le> offset then 5 else 0)
        + (if offset = 0 \<or> text ! (offset - 1) = CHR ''/'' then 8 else 0)"

fun fuzzy_loop :: "(string \<Rightarrow> string list) \<Rightarrow> string \<Rightarrow> nat \<Rightarrow> (nat \<times> string) list \<Rightarrow> string list \<Rightarrow> bool
    \<Rightarrow> (int \<times> nat list) \<Rightarrow> string list \<times> int \<times> nat list" where
  "fuzzy_loop lower text start [] query prev_hit (score, matched) = (query, score, matched)"
| "fuzzy_loop lower text start ((offset, ch) # chars) [] prev_hit (score, matched) = ([], score, matched)"
| "fuzzy_loop lower text start ((offset, ch) # chars) (q # query) prev_hit (score, matched) =
     (if first_lower lower ch = Some q
      then fuzzy_loop lower text start chars query True (score + hit_score text start offset prev_hit, matched @ [offset])
      else fuzzy_loop lower text start chars (q # query) False (score, matched))"

definition file_name_start :: "string \<Rightarrow> nat" where
  "file_name_start text = length text - length (last (split_on slash text))"

definition fuzzy :: "(string \<Rightarrow> string list) \<Rightarrow> string \<Rightarrow> string list \<Rightarrow> (int \<times> nat list) option" where
  "fuzzy lower text query =
     (case fuzzy_loop lower text (file_name_start text) (char_indices text) query False (0, []) of
        (left, score, matched) \<Rightarrow>
          if left \<noteq> [] then None
          else Some (score - (if length text < 2 ^ 63 then int (length text) else 2 ^ 63 - 1) div 4, matched))"

definition MAX_HITS :: nat where
  "MAX_HITS = 50"

text \<open>Changed files first, then the files of the head trees that are not among them.\<close>

fun is_searchable :: "tree_entry_kind \<Rightarrow> bool" where
  "is_searchable (TreeEntry_File _ _ _) \<longleftrightarrow> True"
| "is_searchable (TreeEntry_Symlink _) \<longleftrightarrow> True"
| "is_searchable (TreeEntry_Dir _) \<longleftrightarrow> False"
| "is_searchable (TreeEntry_Submodule _) \<longleftrightarrow> False"

type_synonym candidate = "repo_id \<times> repo_path \<times> change_badge option"

definition file_candidate :: "render_key \<Rightarrow> candidate" where
  "file_candidate f =
     (rk_repo_id f, rk_path f, case rk_target f of Target_Diff change \<Rightarrow> Some (badge_of change) | Target_Blob _ \<Rightarrow> None)"

definition add_candidate :: "repo_id \<Rightarrow> tree_entry \<Rightarrow> candidate list \<Rightarrow> candidate list" where
  "add_candidate repo_id e candidates =
     (if is_searchable (te_kind e) \<and> \<not> list_ex (\<lambda>(r, p, _). r = repo_id \<and> p = te_path e) candidates
      then candidates @ [(repo_id, te_path e, None)] else candidates)"

definition search_candidates :: "explorer_inputs \<Rightarrow> candidate list" where
  "search_candidates inputs =
     fold (\<lambda>t. fold (add_candidate (ts_repo_id t)) (ts_entries t)) (xi_trees inputs) (map file_candidate (xi_files inputs))"

definition score_candidate :: "(string \<Rightarrow> string list) \<Rightarrow> string list \<Rightarrow> candidate \<Rightarrow> (int \<times> search_hit) option" where
  "score_candidate lower query cand =
     (case cand of (repo_id, path, change) \<Rightarrow>
        (case fuzzy lower (path_str path) query of
           None \<Rightarrow> None
         | Some (score, matched) \<Rightarrow>
             Some (score + (if change \<noteq> None then 1000 else 0),
                   \<lparr>sh_file = \<lparr>fr_repo_id = repo_id, fr_path = path\<rparr>, sh_matched = matched, sh_change = change\<rparr>)))"

text \<open>Best scores first, and paths in their order among equals.\<close>

definition hit_order :: "int \<times> search_hit \<Rightarrow> int \<times> string" where
  "hit_order x = (- fst x, path_str (fr_path (sh_file (snd x))))"

definition explorer_search :: "(string \<Rightarrow> string list) \<Rightarrow> explorer_inputs \<Rightarrow> string \<Rightarrow> search_hit list" where
  "explorer_search lower inputs text =
     (let query = concat (map lower (utf8_chars text))
      in if query = [] then []
         else map snd (take MAX_HITS (sort_key hit_order (List.map_filter (score_candidate lower query) (search_candidates inputs)))))"

section \<open>The whole view\<close>

definition tree_leaf :: "tree_entry \<Rightarrow> leaf option" where
  "tree_leaf e = map_option (\<lambda>entry. \<lparr>lf_path = te_path e, lf_head_content = Viewed_Blob entry\<rparr>) (tree_blob_entry (te_kind e))"

type_synonym repo_leaves = "(ulid, leaf list) table"

definition leaves_of :: "ulid \<Rightarrow> repo_leaves \<Rightarrow> leaf list" where
  "leaves_of repo repos = (case tbl_get repos repo of None \<Rightarrow> [] | Some leaves \<Rightarrow> leaves)"

definition add_tree :: "tree_snapshot \<Rightarrow> repo_leaves \<Rightarrow> repo_leaves" where
  "add_tree t repos =
     (let repo = repo_key (ts_repo_id t)
      in tbl_insert repo (leaves_of repo repos @ List.map_filter tree_leaf (ts_entries t)) repos)"

definition add_file :: "render_key \<Rightarrow> repo_leaves \<Rightarrow> repo_leaves" where
  "add_file f repos =
     (let repo = repo_key (rk_repo_id f); leaves = leaves_of repo repos
      in tbl_insert repo
           (if list_all (\<lambda>l. lf_path l \<noteq> rk_path f) leaves
            then leaves @ [\<lparr>lf_path = rk_path f, lf_head_content = target_content (rk_target f)\<rparr>] else leaves) repos)"

definition collect_leaves :: "explorer_inputs \<Rightarrow> repo_leaves" where
  "collect_leaves inputs =
     (let seeded = (if xi_changed_only inputs
                    then fold (\<lambda>f repos. tbl_insert (repo_key (rk_repo_id f)) (leaves_of (repo_key (rk_repo_id f)) repos) repos)
                           (xi_files inputs) tbl_empty
                    else tbl_empty);
          trees = fold add_tree (if xi_changed_only inputs then [] else xi_trees inputs) seeded
      in fold add_file (xi_files inputs) trees)"

definition repo_name_of :: "(repo_id \<Rightarrow> string) \<Rightarrow> explorer_inputs \<Rightarrow> repo_id \<Rightarrow> string" where
  "repo_name_of repo_text inputs repo_id =
     (case find (\<lambda>n. fst n = repo_id) (xi_repo_names inputs) of None \<Rightarrow> repo_text repo_id | Some (_, name) \<Rightarrow> name)"

definition root_node :: "(repo_id \<Rightarrow> string) \<Rightarrow> explorer_inputs \<Rightarrow> repo_id \<Rightarrow> leaf list \<Rightarrow> tree_node" where
  "root_node repo_text inputs repo_id leaves =
     (let children = nest inputs repo_id (sort_key (\<lambda>l. path_str (lf_path l)) leaves) None
      in Node_Dir (repo_name_of repo_text inputs repo_id) repo_id None (dir_expanded inputs repo_id None)
           (count_changed children) children)"

definition explorer_build :: "(repo_id \<Rightarrow> string) \<Rightarrow> (string \<Rightarrow> string list) \<Rightarrow> explorer_inputs \<Rightarrow> tree_view" where
  "explorer_build repo_text lower inputs =
     \<lparr>tv_roots = map (\<lambda>(repo, leaves). root_node repo_text inputs (RepoId repo) leaves) (tbl_entries (collect_leaves inputs)),
      tv_breadcrumbs =
        (case xi_open_file inputs of
           None \<Rightarrow> []
         | Some f \<Rightarrow> repo_name_of repo_text inputs (fr_repo_id f) # path_components (fr_path f)),
      tv_search =
        map_option (\<lambda>q. let hits = explorer_search lower inputs q
                         in \<lparr>sv_query = q, sv_hits = hits, sv_selected = min (xs_search_selected (xi_state inputs)) (length hits - 1)\<rparr>)
          (xs_search (xi_state inputs))\<rparr>"

end
