(* ===== verification/Nits_Explorer_Laws.thy ===== *)
theory Nits_Explorer_Laws
  imports Nits_Explorer "HOL-Library.Sublist" "HOL-Library.Multiset"
begin

text \<open>
  What the explorer guarantees: its tree shows every file of the review once, below the directories of its path,
  with counts that are those of the files below; and the fuzzy match finds exactly the subsequences.
\<close>

section \<open>Reading a tree\<close>

fun node_files :: "tree_node \<Rightarrow> string list" where
  "node_files (Node_Dir _ _ _ _ _ children) = concat (map node_files children)"
| "node_files (Node_File _ _ path _ _ _ _ _ _) = [path_str path]"

fun node_changes :: "tree_node \<Rightarrow> nat" where
  "node_changes (Node_Dir _ _ _ _ _ children) = sum_list (map node_changes children)"
| "node_changes (Node_File _ _ _ change _ _ _ _ _) = (if change \<noteq> None then 1 else 0)"

text \<open>A node is where its path says, sorted and counted.\<close>

fun well_shown :: "string \<Rightarrow> tree_node \<Rightarrow> bool" where
  "well_shown pre (Node_Dir name _ dir _ changed children) \<longleftrightarrow>
     dir = Some (RepoPath (pre @ name)) \<and> changed = of_nat (sum_list (map node_changes children))
     \<and> sorted (map node_rank children) \<and> list_all (well_shown (pre @ name @ ''/'')) children"
| "well_shown pre (Node_File name _ path _ _ _ _ _ _) \<longleftrightarrow> path_str path = pre @ name"

lemma count_shown: "well_shown pre n \<Longrightarrow> count_node n = of_nat (node_changes n)"
  by (cases n) auto

lemma counts_shown: "list_all (well_shown pre) ns \<Longrightarrow> count_changed ns = of_nat (sum_list (map node_changes ns))"
  by (induction ns) (auto simp: count_changed_def dest: count_shown)

lemma files_sort: "mset (concat (map node_files (sort_key f ns))) = mset (concat (map node_files ns))"
proof -
  have "mset (concat (map node_files xs)) = \<Sum>\<^sub># (image_mset (\<lambda>n. mset (node_files n)) (mset xs))" for xs
    by (induction xs) simp_all
  then show ?thesis by simp
qed

lemma list_all_sort: "list_all P (sort_key f ns) \<longleftrightarrow> list_all P ns"
  by (simp add: list_all_iff)

lemma nest_shown:
  "list_all (well_shown (dir_prefix dir)) (nest inputs repo_id leaves dir)"
  "list_all (well_shown (dir_prefix dir)) (nest_loop inputs repo_id leaves dir todo seen_dirs)"
proof (induction inputs repo_id leaves dir and inputs repo_id leaves dir todo seen_dirs rule: nest_nest_loop.induct)
  case (1 inputs repo_id leaves dir)
  then show ?case by (simp add: list_all_sort del: nest_loop.simps)
next
  case (3 inputs repo_id leaves dir leaf rest_leaves seen_dirs)
  show ?case
  proof (cases "strip_prefix (dir_prefix dir) (path_str (lf_path leaf))")
    case None
    then show ?thesis using 3(1) by simp
  next
    case rest: (Some rest)
    show ?thesis
    proof (cases "split_once ''/'' rest")
      case None
      have "path_str (lf_path leaf) = dir_prefix dir @ rest" using rest by (simp add: strip_prefix_Some_iff)
      then show ?thesis using rest None "3.IH" by (simp add: file_node_def Let_def)
    next
      case (Some split)
      obtain child_dir x where split: "split = (child_dir, x)" by (cases split)
      show ?thesis
      proof (cases "child_dir \<in> set seen_dirs")
        case True
        then show ?thesis using rest Some split "3.IH" by simp
      next
        case fresh: False
        show ?thesis
        proof (cases "repo_path_new (dir_prefix dir @ child_dir)")
          case (Inl e)
          then show ?thesis using rest Some split fresh "3.IH" by simp
        next
          case (Inr child_path)
          have path: "child_path = RepoPath (dir_prefix dir @ child_dir)" using Inr by (simp add: repo_path_new_Inr_iff)
          then have pre: "dir_prefix (Some child_path) = dir_prefix dir @ child_dir @ ''/''" by (simp add: dir_prefix_def)
          have children: "list_all (well_shown (dir_prefix dir @ child_dir @ ''/'')) (nest inputs repo_id leaves (Some child_path))"
            using "3.IH"(5) [OF rest Some split [symmetric] fresh Inr] by (simp only: pre)
          have others: "list_all (well_shown (dir_prefix dir)) (nest_loop inputs repo_id leaves dir rest_leaves (child_dir # seen_dirs))"
            by (rule "3.IH"(6) [OF rest Some split [symmetric] fresh Inr refl])
          have "sorted (map node_rank (nest inputs repo_id leaves (Some child_path)))" by simp
          then show ?thesis
            using rest Some split fresh Inr children others counts_shown [OF children]
            by (simp add: path Let_def del: nest.simps)
        qed
      qed
    qed
  qed
qed simp

section \<open>Every file once\<close>

definition dirs_in :: "string \<Rightarrow> leaf list \<Rightarrow> string set" where
  "dirs_in pre todo = {d. \<exists>l\<in>set todo. \<exists>r x. strip_prefix pre (path_str (lf_path l)) = Some r \<and> split_once ''/'' r = Some (d, x)}"

abbreviation paths :: "leaf list \<Rightarrow> string list" where
  "paths leaves \<equiv> map (\<lambda>l. path_str (lf_path l)) leaves"

text \<open>How often the loop shows a path: a file of the directory as often as it is left, a deeper one with its directory.\<close>

definition loop_shows :: "string \<Rightarrow> leaf list \<Rightarrow> leaf list \<Rightarrow> string list \<Rightarrow> string \<Rightarrow> nat" where
  "loop_shows pre leaves todo seen p =
     (case strip_prefix pre p of
        None \<Rightarrow> 0
      | Some r \<Rightarrow>
          (case split_once ''/'' r of
             None \<Rightarrow> count_list (paths todo) p
           | Some (d, _) \<Rightarrow> if d \<notin> set seen \<and> d \<in> dirs_in pre todo then count_list (paths leaves) p else 0))"

lemma split_once_slash: "split_once ''/'' s = Some (d, x) \<longleftrightarrow> s = d @ ''/'' @ x \<and> slash \<notin> set d"
proof (induction s arbitrary: d)
  case (Cons c s)
  show ?case
  proof (cases "c = slash")
    case True
    then show ?thesis by (cases d) auto
  next
    case False
    have "split_once ''/'' (c # s) = map_option (\<lambda>(a, b). (c # a, b)) (split_once ''/'' s)" using False by auto
    then show ?thesis using Cons.IH False by (cases d) auto
  qed
qed simp

lemma below_child:
  assumes "slash \<notin> set d"
  shows "starts_with (pre @ d @ ''/'') p \<longleftrightarrow> (\<exists>r x. strip_prefix pre p = Some r \<and> split_once ''/'' r = Some (d, x))"
  using assms by (auto simp: starts_with_iff strip_prefix_Some_iff split_once_slash)

lemma split_on_at: "split_on c (xs @ c # ys) = split_on c xs @ split_on c ys"
proof (induction xs)
  case (Cons x xs)
  obtain q qs where "split_on c xs = q # qs" by (cases "split_on c xs") auto
  with Cons show ?case by auto
qed simp

lemma child_is_path:
  assumes "path_wf l" "strip_prefix (dir_prefix dir) (path_str l) = Some rest" "split_once ''/'' rest = Some (child_dir, x)"
  shows "repo_path_new (dir_prefix dir @ child_dir) = Inr (RepoPath (dir_prefix dir @ child_dir))"
proof -
  have l: "path_str l = (dir_prefix dir @ child_dir) @ slash # x"
    using assms(2,3) by (simp add: strip_prefix_Some_iff split_once_slash)
  then have "split_on slash (path_str l) = split_on slash (dir_prefix dir @ child_dir) @ split_on slash x"
    by (simp add: split_on_at del: append_assoc)
  then show ?thesis using assms(1) l by (auto simp: repo_path_new_Inr_iff path_wf_def path_components_def)
qed

lemma dirs_in_Cons:
  "dirs_in pre (l # ls) = (case strip_prefix pre (path_str (lf_path l)) of
      None \<Rightarrow> dirs_in pre ls
    | Some r \<Rightarrow> (case split_once ''/'' r of None \<Rightarrow> dirs_in pre ls | Some (d, _) \<Rightarrow> insert d (dirs_in pre ls)))"
  by (auto simp: dirs_in_def split: option.splits)

lemma loop_shows_all: "loop_shows pre leaves leaves [] p = (if starts_with pre p then count_list (paths leaves) p else 0)"
proof (cases "strip_prefix pre p")
  case None
  then show ?thesis by (simp add: loop_shows_def starts_with_def)
next
  case (Some r)
  have "p \<notin> set (paths leaves)" if "split_once ''/'' r = Some (d, x)" "d \<notin> dirs_in pre leaves" for d x
    using that Some by (auto simp: dirs_in_def)
  then have "count_list (paths leaves) p = 0" if "split_once ''/'' r = Some (d, x)" "d \<notin> dirs_in pre leaves" for d x
    using that by (meson count_list_0_iff)
  then show ?thesis using Some by (auto simp: loop_shows_def starts_with_def split: option.split)
qed

lemma count_sorted: "count_list (concat (map node_files (sort_key f ns))) p = count_list (concat (map node_files ns)) p"
  using files_sort [of f ns] by (metis count_mset)

lemma nest_counts:
  "list_all (\<lambda>l. path_wf (lf_path l)) leaves \<Longrightarrow>
     count_list (concat (map node_files (nest inputs repo_id leaves dir))) p
       = (if starts_with (dir_prefix dir) p then count_list (paths leaves) p else 0)"
  "list_all (\<lambda>l. path_wf (lf_path l)) leaves \<Longrightarrow> list_all (\<lambda>l. path_wf (lf_path l)) todo \<Longrightarrow>
     count_list (concat (map node_files (nest_loop inputs repo_id leaves dir todo seen_dirs))) p
       = loop_shows (dir_prefix dir) leaves todo seen_dirs p"
proof (induction inputs repo_id leaves dir and inputs repo_id leaves dir todo seen_dirs rule: nest_nest_loop.induct)
  case (1 inputs repo_id leaves dir)
  then show ?case by (simp only: nest.simps count_sorted loop_shows_all)
next
  case (2 inputs repo_id leaves dir seen_dirs)
  then show ?case by (simp add: loop_shows_def dirs_in_def split: option.split)
next
  case (3 inputs repo_id leaves dir leaf rest_leaves seen_dirs)
  let ?pre = "dir_prefix dir" and ?s = "path_str (lf_path leaf)"
  have wf: "list_all (\<lambda>l. path_wf (lf_path l)) leaves" "path_wf (lf_path leaf)" "list_all (\<lambda>l. path_wf (lf_path l)) rest_leaves"
    using "3.prems" by simp_all
  show ?case
  proof (cases "strip_prefix ?pre ?s")
    case None
    then have "loop_shows ?pre leaves (leaf # rest_leaves) seen_dirs p = loop_shows ?pre leaves rest_leaves seen_dirs p"
      by (auto simp: loop_shows_def dirs_in_Cons split: option.split)
    then show ?thesis using "3.IH"(1) [OF None wf(1,3)] None by simp
  next
    case rest: (Some rest)
    show ?thesis
    proof (cases "split_once ''/'' rest")
      case None
      have "loop_shows ?pre leaves (leaf # rest_leaves) seen_dirs p
          = (if p = ?s then 1 else 0) + loop_shows ?pre leaves rest_leaves seen_dirs p"
        using rest None by (auto simp: loop_shows_def dirs_in_Cons split: option.split)
      then show ?thesis using "3.IH"(2) [OF rest None wf(1,3)] rest None by (simp add: file_node_def Let_def)
    next
      case (Some split)
      obtain child_dir x where split: "split = (child_dir, x)" by (cases split)
      have deep: "strip_prefix ?pre p = Some r \<Longrightarrow> split_once ''/'' r = None \<Longrightarrow> p \<noteq> ?s" for r
        using rest Some by auto
      show ?thesis
      proof (cases "child_dir \<in> set seen_dirs")
        case True
        then have "loop_shows ?pre leaves (leaf # rest_leaves) seen_dirs p = loop_shows ?pre leaves rest_leaves seen_dirs p"
          using rest Some split deep by (auto simp: loop_shows_def dirs_in_Cons split: option.split)
        then show ?thesis using "3.IH"(3) [OF rest Some split [symmetric] True wf(1,3)] rest Some split True by simp
      next
        case fresh: False
        let ?child = "RepoPath (?pre @ child_dir)"
        have Inr: "repo_path_new (?pre @ child_dir) = Inr ?child"
          by (rule child_is_path [OF wf(2) rest Some [unfolded split]])
        have pre: "dir_prefix (Some ?child) = ?pre @ child_dir @ ''/''" by (simp add: dir_prefix_def)
        have slash: "slash \<notin> set child_dir" using Some split by (simp add: split_once_slash)
        have children: "count_list (concat (map node_files (nest inputs repo_id leaves (Some ?child)))) p
            = (if starts_with (?pre @ child_dir @ ''/'') p then count_list (paths leaves) p else 0)"
          using "3.IH"(5) [OF rest Some split [symmetric] fresh Inr wf(1)] by (simp only: pre)
        have others: "count_list (concat (map node_files (nest_loop inputs repo_id leaves dir rest_leaves (child_dir # seen_dirs)))) p
            = loop_shows ?pre leaves rest_leaves (child_dir # seen_dirs) p"
          by (rule "3.IH"(6) [OF rest Some split [symmetric] fresh Inr refl wf(1,3)])
        have "loop_shows ?pre leaves (leaf # rest_leaves) seen_dirs p
            = (if starts_with (?pre @ child_dir @ ''/'') p then count_list (paths leaves) p else 0)
              + loop_shows ?pre leaves rest_leaves (child_dir # seen_dirs) p"
          using rest Some split fresh deep
          by (auto simp: loop_shows_def dirs_in_Cons below_child [OF slash] split: option.split)
        then show ?thesis
          using rest Some split fresh Inr children others by (simp add: Let_def del: nest.simps)
      qed
    qed
  qed
qed

lemma nest_files:
  assumes "list_all (\<lambda>l. path_wf (lf_path l)) leaves"
  shows "mset (concat (map node_files (nest inputs repo_id leaves None))) = mset (paths leaves)"
proof (rule multiset_eqI)
  fix p
  have "starts_with (dir_prefix None) p" by (simp add: dir_prefix_def starts_with_def)
  then show "count (mset (concat (map node_files (nest inputs repo_id leaves None)))) p = count (mset (paths leaves)) p"
    by (simp only: count_mset nest_counts(1) [OF assms] if_True)
qed

section \<open>What is shown\<close>

definition tree_paths :: "tree_snapshot \<Rightarrow> string list" where
  "tree_paths t = map (\<lambda>e. path_str (te_path e)) (filter (\<lambda>e. tree_blob_entry (te_kind e) \<noteq> None) (ts_entries t))"

definition shown_paths :: "explorer_inputs \<Rightarrow> repo_id \<Rightarrow> string set" where
  "shown_paths inputs repo =
     set (map (\<lambda>f. path_str (rk_path f)) (filter (\<lambda>f. rk_repo_id f = repo) (xi_files inputs)))
     \<union> (if xi_changed_only inputs then {} else set (concat (map tree_paths (filter (\<lambda>t. ts_repo_id t = repo) (xi_trees inputs)))))"

definition has_repo :: "ulid \<Rightarrow> repo_leaves \<Rightarrow> bool" where
  "has_repo k repos \<longleftrightarrow> tbl_get repos k \<noteq> None"

definition leaf_list :: "tree_snapshot \<Rightarrow> leaf list" where
  "leaf_list t = List.map_filter tree_leaf (ts_entries t)"

lemma leaf_list_paths: "paths (leaf_list t) = tree_paths t"
  unfolding leaf_list_def tree_paths_def
  by (induction "ts_entries t" arbitrary: t) (auto simp: List.map_filter_def tree_leaf_def split: option.splits)

lemma add_tree_leaves: "leaves_of k (add_tree t repos) = leaves_of k repos @ (if k = repo_key (ts_repo_id t) then leaf_list t else [])"
  by (simp add: add_tree_def leaves_of_def leaf_list_def Let_def)

lemma add_trees_leaves:
  "leaves_of k (fold add_tree ts repos) = leaves_of k repos @ concat (map leaf_list (filter (\<lambda>t. repo_key (ts_repo_id t) = k) ts))"
  by (induction ts arbitrary: repos) (simp_all add: add_tree_leaves)

lemma seeded_leaves:
  "leaves_of k (fold (\<lambda>f repos. tbl_insert (repo_key (rk_repo_id f)) (leaves_of (repo_key (rk_repo_id f)) repos) repos) fs repos)
     = leaves_of k repos"
proof (induction fs arbitrary: repos)
  case (Cons f fs)
  have "leaves_of k (tbl_insert (repo_key (rk_repo_id f)) (leaves_of (repo_key (rk_repo_id f)) repos) repos) = leaves_of k repos"
    by (simp add: leaves_of_def)
  then show ?case by (simp add: Cons.IH)
qed simp

lemma add_file_leaves:
  "leaves_of k (add_file f repos) =
     (if k = repo_key (rk_repo_id f) \<and> path_str (rk_path f) \<notin> set (paths (leaves_of k repos))
      then leaves_of k repos @ [\<lparr>lf_path = rk_path f, lf_head_content = target_content (rk_target f)\<rparr>] else leaves_of k repos)"
proof -
  have "list_all (\<lambda>l. lf_path l \<noteq> rk_path f) ls \<longleftrightarrow> path_str (rk_path f) \<notin> set (paths ls)" for ls
    by (simp add: list_all_iff image_iff) (metis repo_path.expand)
  then show ?thesis by (auto simp: add_file_def leaves_of_def Let_def)
qed

lemma add_files_leaves:
  assumes "distinct (paths (leaves_of k repos))"
  shows "distinct (paths (leaves_of k (fold add_file fs repos)))
    \<and> set (paths (leaves_of k (fold add_file fs repos)))
        = set (paths (leaves_of k repos)) \<union> {path_str (rk_path f) | f. f \<in> set fs \<and> repo_key (rk_repo_id f) = k}"
  using assms
proof (induction fs arbitrary: repos)
  case (Cons f fs)
  have "distinct (paths (leaves_of k (add_file f repos)))" using Cons.prems by (auto simp: add_file_leaves)
  from Cons.IH [OF this] show ?case by (auto simp: add_file_leaves)
qed simp

lemma add_file_has: "has_repo k (add_file f repos) \<longleftrightarrow> has_repo k repos \<or> k = repo_key (rk_repo_id f)"
  by (simp add: has_repo_def add_file_def Let_def)

lemma add_files_has: "has_repo k (fold add_file fs repos) \<longleftrightarrow> has_repo k repos \<or> k \<in> (\<lambda>f. repo_key (rk_repo_id f)) ` set fs"
  by (induction fs arbitrary: repos) (auto simp: add_file_has)

lemma add_files_wf:
  "list_all (\<lambda>f. path_wf (rk_path f)) fs \<Longrightarrow> list_all (\<lambda>l. path_wf (lf_path l)) (leaves_of k repos) \<Longrightarrow>
     list_all (\<lambda>l. path_wf (lf_path l)) (leaves_of k (fold add_file fs repos))"
proof (induction fs arbitrary: repos)
  case (Cons f fs)
  then have "list_all (\<lambda>l. path_wf (lf_path l)) (leaves_of k (add_file f repos))" by (auto simp: add_file_leaves)
  then show ?case using Cons by simp
qed simp

lemma leaf_list_wf: "list_all (\<lambda>e. path_wf (te_path e)) (ts_entries t) \<Longrightarrow> list_all (\<lambda>l. path_wf (lf_path l)) (leaf_list t)"
  by (auto simp: list_all_iff leaf_list_def List.map_filter_def tree_leaf_def)

text \<open>The files of the head trees, with their repositories.\<close>

definition tree_files :: "explorer_inputs \<Rightarrow> (repo_id \<times> string) list" where
  "tree_files inputs = concat (map (\<lambda>t. map (Pair (ts_repo_id t)) (tree_paths t)) (xi_trees inputs))"

lemma distinct_of_repo:
  "distinct (concat (map (\<lambda>t. map (Pair (ts_repo_id t)) (tree_paths t)) ts)) \<Longrightarrow>
     distinct (concat (map tree_paths (filter (\<lambda>t. ts_repo_id t = repo) ts)))"
proof (induction ts)
  case (Cons t ts)
  then show ?case by (auto simp: distinct_map)
qed simp

lemma collected:
  assumes "list_all (\<lambda>f. path_wf (rk_path f)) (xi_files inputs)"
    and "list_all (\<lambda>t. list_all (\<lambda>e. path_wf (te_path e)) (ts_entries t)) (xi_trees inputs)"
    and "distinct (tree_files inputs)"
  shows "distinct (paths (leaves_of (repo_key repo) (collect_leaves inputs)))
    \<and> set (paths (leaves_of (repo_key repo) (collect_leaves inputs))) = shown_paths inputs repo
    \<and> list_all (\<lambda>l. path_wf (lf_path l)) (leaves_of (repo_key repo) (collect_leaves inputs))"
proof -
  define seeded where "seeded = (if xi_changed_only inputs
      then fold (\<lambda>f repos. tbl_insert (repo_key (rk_repo_id f)) (leaves_of (repo_key (rk_repo_id f)) repos) repos) (xi_files inputs) tbl_empty
      else (tbl_empty :: repo_leaves))"
  define ts where "ts = (if xi_changed_only inputs then [] else xi_trees inputs)"
  let ?old = "leaves_of (repo_key repo) (fold add_tree ts seeded)"
  have same: "repo_key r = repo_key repo \<longleftrightarrow> r = repo" for r by (metis repo_id.expand)
  have "leaves_of (repo_key repo) seeded = []" by (simp add: seeded_def seeded_leaves) (simp add: leaves_of_def)
  then have old: "?old = concat (map leaf_list (filter (\<lambda>t. ts_repo_id t = repo) ts))"
    by (simp add: add_trees_leaves same)
  then have "paths ?old = concat (map tree_paths (filter (\<lambda>t. ts_repo_id t = repo) ts))"
    by (simp add: map_concat comp_def leaf_list_paths)
  moreover have "distinct (concat (map tree_paths (filter (\<lambda>t. ts_repo_id t = repo) ts)))"
    using distinct_of_repo [of "xi_trees inputs" repo] assms(3) by (simp add: ts_def tree_files_def)
  ultimately have before: "distinct (paths ?old)"
    "set (paths ?old) = (if xi_changed_only inputs then {} else set (concat (map tree_paths (filter (\<lambda>t. ts_repo_id t = repo) (xi_trees inputs)))))"
    by (simp_all add: ts_def)
  have "list_all (\<lambda>l. path_wf (lf_path l)) ?old"
    unfolding old using assms(2) leaf_list_wf by (auto simp: ts_def list_all_iff)
  moreover have "collect_leaves inputs = fold add_file (xi_files inputs) (fold add_tree ts seeded)"
    by (simp add: collect_leaves_def Let_def ts_def seeded_def)
  ultimately show ?thesis
    using add_files_leaves [OF before(1), of "xi_files inputs"] add_files_wf [OF assms(1)] before(2)
    by (auto simp: shown_paths_def same)
qed

text \<open>
  C16: The explorer shows every file once: each repository with files of the review has a root; below a root each
  path of its repository - the changed files, and outside the diffing mode the files of its head tree - occurs
  exactly once, under the directories its components name, with directories before files in the order of their
  names; and the count on each directory is the number of changed files below it.
\<close>

theorem explorer_shows_files:
  assumes "list_all (\<lambda>f. path_wf (rk_path f)) (xi_files inputs)"
    and "list_all (\<lambda>t. list_all (\<lambda>e. path_wf (te_path e)) (ts_entries t)) (xi_trees inputs)"
    and "distinct (tree_files inputs)"
  shows "rk_repo_id ` set (xi_files inputs) \<subseteq> nd_repo_id ` set (tv_roots (explorer_build repo_text lower inputs))
    \<and> list_all (\<lambda>root. distinct (node_files root) \<and> set (node_files root) = shown_paths inputs (nd_repo_id root)
        \<and> list_all (well_shown []) (nd_children root) \<and> sorted (map node_rank (nd_children root))
        \<and> nd_changed_below root = of_nat (node_changes root)) (tv_roots (explorer_build repo_text lower inputs))"
proof
  let ?roots = "tv_roots (explorer_build repo_text lower inputs)" and ?repos = "collect_leaves inputs"
  have roots: "?roots = map (\<lambda>(repo, leaves). root_node repo_text inputs (RepoId repo) leaves) (tbl_entries ?repos)"
    by (simp add: explorer_build_def)
  show "rk_repo_id ` set (xi_files inputs) \<subseteq> nd_repo_id ` set ?roots"
  proof
    fix repo assume "repo \<in> rk_repo_id ` set (xi_files inputs)"
    then have "has_repo (repo_key repo) ?repos" by (auto simp: collect_leaves_def Let_def add_files_has)
    then obtain leaves where "(repo_key repo, leaves) \<in> set (tbl_entries ?repos)" by (auto simp: has_repo_def tbl.in_entries_iff)
    then have "root_node repo_text inputs (RepoId (repo_key repo)) leaves \<in> set ?roots" by (force simp: roots)
    moreover have "nd_repo_id (root_node repo_text inputs (RepoId (repo_key repo)) leaves) = repo"
      by (simp add: root_node_def Let_def)
    ultimately show "repo \<in> nd_repo_id ` set ?roots" by (metis imageI)
  qed
  have "distinct (node_files root) \<and> set (node_files root) = shown_paths inputs (nd_repo_id root)
      \<and> list_all (well_shown []) (nd_children root) \<and> sorted (map node_rank (nd_children root))
      \<and> nd_changed_below root = of_nat (node_changes root)"
    if in_roots: "root \<in> set ?roots" for root
  proof -
    obtain k leaves where root: "root = root_node repo_text inputs (RepoId k) leaves" "(k, leaves) \<in> set (tbl_entries ?repos)"
      using in_roots by (auto simp: roots)
    then have leaves: "leaves_of k ?repos = leaves" by (simp add: leaves_of_def tbl.in_entries_iff)
    let ?nest = "nest inputs (RepoId k) (sort_key (\<lambda>l. path_str (lf_path l)) leaves) None"
    note of_repo = collected [OF assms, of "RepoId k", unfolded repo_id.sel leaves]
    have wf: "list_all (\<lambda>l. path_wf (lf_path l)) (sort_key (\<lambda>l. path_str (lf_path l)) leaves)"
      using of_repo by (simp add: list_all_iff)
    have shown: "list_all (well_shown []) ?nest"
      using nest_shown(1) [of None inputs "RepoId k" "sort_key (\<lambda>l. path_str (lf_path l)) leaves"]
      by (simp add: dir_prefix_def del: nest.simps)
    have parts: "nd_repo_id root = RepoId k" "nd_children root = ?nest" "nd_changed_below root = count_changed ?nest"
      "node_changes root = sum_list (map node_changes ?nest)" "node_files root = concat (map node_files ?nest)"
      by (simp_all add: root(1) root_node_def Let_def del: nest.simps)
    have files: "mset (node_files root) = mset (paths leaves)"
      unfolding parts(5) using nest_files [OF wf] by simp
    have "sorted (map node_rank ?nest)" by simp
    then show ?thesis
      using of_repo mset_eq_imp_distinct_iff [OF files] mset_eq_setD [OF files] shown counts_shown [OF shown]
      by (simp add: parts(1-4) del: nest.simps)
  qed
  then show "list_all (\<lambda>root. distinct (node_files root) \<and> set (node_files root) = shown_paths inputs (nd_repo_id root)
      \<and> list_all (well_shown []) (nd_children root) \<and> sorted (map node_rank (nd_children root))
      \<and> nd_changed_below root = of_nat (node_changes root)) ?roots"
    by (simp only: list_all_iff) blast
qed

text \<open>Two changed files, one of them in a directory of the head tree.\<close>

definition sample_file :: "string \<Rightarrow> render_key" where
  "sample_file p =
     \<lparr>rk_repo_id = RepoId (Ulid 3 3), rk_path = RepoPath p,
      rk_target = Target_Diff (Change_Added \<lparr>be_oid = BlobOid (Oid [7]), be_mode = Mode_Regular\<rparr>), rk_opts = render_opts_default\<rparr>"

definition sample_inputs :: "review_snapshot \<Rightarrow> explorer_inputs" where
  "sample_inputs sn =
     \<lparr>xi_snapshot = sn, xi_repo_names = [],
      xi_trees = [\<lparr>ts_repo_id = RepoId (Ulid 3 3), ts_root_oid = TreeOid (Oid [9]),
        ts_entries = [\<lparr>te_path = RepoPath ''d/a'', te_kind = TreeEntry_File (BlobOid (Oid [7])) 1 False\<rparr>,
                      \<lparr>te_path = RepoPath ''d/c'', te_kind = TreeEntry_File (BlobOid (Oid [8])) 1 False\<rparr>]\<rparr>],
      xi_files = [sample_file ''d/a'', sample_file ''b''], xi_open_file = None, xi_viewer = Author_Human ''bob'' ''m'',
      xi_state = \<lparr>xs_expanded = {}, xs_collapsed = {}, xs_search = None, xs_search_selected = 0\<rparr>,
      xi_stats = Map.empty, xi_thread_counts = Map.empty, xi_changed_only = False\<rparr>"

theorem explorer_shows_files_witness:
  "\<forall>sn. \<exists>root\<in>set (tv_roots (explorer_build (\<lambda>_. ''r'') (\<lambda>c. [c]) (sample_inputs sn))).
     distinct (node_files root) \<and> set (node_files root) = {''d/a'', ''d/c'', ''b''}"
proof
  fix sn
  have wf: "path_wf (RepoPath ''d/a'')" "path_wf (RepoPath ''d/c'')" "path_wf (RepoPath ''b'')" by code_simp+
  have shown: "shown_paths (sample_inputs sn) (RepoId (Ulid 3 3)) = {''d/a'', ''d/c'', ''b''}"
    by (auto simp: shown_paths_def sample_inputs_def sample_file_def tree_paths_def)
  have "list_all (\<lambda>f. path_wf (rk_path f)) (xi_files (sample_inputs sn))"
    "list_all (\<lambda>t. list_all (\<lambda>e. path_wf (te_path e)) (ts_entries t)) (xi_trees (sample_inputs sn))" "distinct (tree_files (sample_inputs sn))"
    using wf by (simp_all add: sample_inputs_def sample_file_def tree_files_def tree_paths_def)
  note hyps = this
  define roots where "roots = tv_roots (explorer_build (\<lambda>_. ''r'') (\<lambda>c. [c]) (sample_inputs sn))"
  note laws = explorer_shows_files [OF hyps, of "\<lambda>_. ''r''" "\<lambda>c. [c]", folded roots_def]
  have "RepoId (Ulid 3 3) \<in> rk_repo_id ` set (xi_files (sample_inputs sn))" by (simp add: sample_inputs_def sample_file_def)
  then have "RepoId (Ulid 3 3) \<in> nd_repo_id ` set roots" using laws by blast
  then obtain root where root: "root \<in> set roots" "nd_repo_id root = RepoId (Ulid 3 3)" by (metis imageE)
  then have "distinct (node_files root) \<and> set (node_files root) = shown_paths (sample_inputs sn) (nd_repo_id root)"
    using laws by (simp only: list_all_iff)
  then show "\<exists>root\<in>set (tv_roots (explorer_build (\<lambda>_. ''r'') (\<lambda>c. [c]) (sample_inputs sn))).
     distinct (node_files root) \<and> set (node_files root) = {''d/a'', ''d/c'', ''b''}"
    using root shown unfolding roots_def [symmetric] by metis
qed

section \<open>The fuzzy match\<close>

definition lowered :: "(string \<Rightarrow> string list) \<Rightarrow> string \<Rightarrow> string option list" where
  "lowered lower text = map (first_lower lower) (utf8_chars text)"

lemma utf8_chars_ne: "c \<in> set (utf8_chars s) \<Longrightarrow> c \<noteq> []"
  by (induction s arbitrary: c rule: utf8_chars.induct) (auto split: list.splits if_splits)

lemma concat_utf8_chars: "concat (utf8_chars s) = s"
  by (induction s rule: utf8_chars.induct) (auto split: list.splits)

lemma with_offsets_chars: "map snd (with_offsets n cs) = cs"
  by (induction n cs rule: with_offsets.induct) simp_all

lemma with_offsets_from: "(o1, c) \<in> set (with_offsets n cs) \<Longrightarrow> n \<le> o1 \<and> (\<exists>more. drop (o1 - n) (concat cs) = c @ more)"
proof (induction n cs rule: with_offsets.induct)
  case (2 n d ds)
  show ?case
  proof (cases "(o1, c) = (n, d)")
    case False
    then have "(o1, c) \<in> set (with_offsets (n + length d) ds)" using "2.prems" by auto
    then obtain more where "n + length d \<le> o1" "drop (o1 - (n + length d)) (concat ds) = c @ more" using "2.IH" by blast
    then show ?thesis by simp
  qed simp
qed simp

text \<open>A hit: an offset where a character stands whose lower case is the one sought.\<close>

definition hit_at :: "(string \<Rightarrow> string list) \<Rightarrow> string \<Rightarrow> nat \<Rightarrow> string \<Rightarrow> bool" where
  "hit_at lower text offset q \<longleftrightarrow>
     (\<exists>ch more. ch \<in> set (utf8_chars text) \<and> drop offset text = ch @ more \<and> first_lower lower ch = Some q)"

lemma char_hit:
  assumes "(offset, ch) \<in> set (char_indices text)" "first_lower lower ch = Some q"
  shows "hit_at lower text offset q"
proof -
  have "ch \<in> set (utf8_chars text)"
    using assms(1) with_offsets_chars [of 0 "utf8_chars text"] unfolding char_indices_def by (metis image_eqI set_map snd_conv)
  moreover have "\<exists>more. drop offset text = ch @ more"
    using with_offsets_from [of offset ch 0 "utf8_chars text"] assms(1) by (simp add: char_indices_def concat_utf8_chars)
  ultimately show ?thesis using assms(2) by (auto simp: hit_at_def)
qed

text \<open>The loop takes the leftmost hits: it is left with nothing exactly on a subsequence.\<close>

lemma loop_left:
  "fst (fuzzy_loop lower text start chars query prev (score, matched)) = []
     \<longleftrightarrow> subseq (map Some query) (map (first_lower lower \<circ> snd) chars)"
proof (induction lower "text" start chars query prev "(score, matched)" arbitrary: score matched rule: fuzzy_loop.induct)
  case (3 lower str start offset ch chars q query prev score matched)
  show ?case
  proof (cases "first_lower lower ch = Some q")
    case True
    then show ?thesis using "3.hyps"(1) by simp
  next
    case False
    then have "subseq (map Some (q # query)) (map (first_lower lower \<circ> snd) ((offset, ch) # chars))
        \<longleftrightarrow> subseq (map Some (q # query)) (map (first_lower lower \<circ> snd) chars)"
      by (auto simp: subseq_Cons2_neq)
    then show ?thesis using "3.hyps"(2) False by simp
  qed
qed (auto dest: list_emb_Nil2)

lemma loop_matched:
  assumes "fuzzy_loop lower text start chars query prev (score, matched) = (left, score', matched')"
    and "sorted_wrt (<) (map fst chars)" "\<forall>x\<in>set chars. \<forall>m\<in>set matched. m < fst x" "sorted_wrt (<) matched"
    and "\<forall>x\<in>set chars. x \<in> set (char_indices text)"
  shows "sorted_wrt (<) matched' \<and> (\<exists>used found. query = used @ left \<and> matched' = matched @ found \<and> list_all2 (hit_at lower text) found used)"
  using assms
proof (induction lower "text" start chars query prev "(score, matched)" arbitrary: score matched rule: fuzzy_loop.induct)
  case (3 lower str start offset ch chars q query prev score matched)
  show ?case
  proof (cases "first_lower lower ch = Some q")
    case True
    have hit: "hit_at lower str offset q" using "3.prems"(5) True by (auto intro: char_hit)
    have run: "fuzzy_loop lower str start chars query True (score + hit_score str start offset prev, matched @ [offset]) = (left, score', matched')"
      using "3.prems"(1) True by simp
    obtain used found where "sorted_wrt (<) matched'" "query = used @ left" "matched' = (matched @ [offset]) @ found"
      "list_all2 (hit_at lower str) found used"
      using "3.hyps"(1) [OF True run] "3.prems"(2-5) by (auto simp: sorted_wrt_append)
    then show ?thesis using hit by (intro conjI exI [of _ "q # used"] exI [of _ "offset # found"]) auto
  next
    case False
    then show ?thesis using "3.hyps"(2) [OF False] "3.prems" by simp
  qed
qed auto

lemma with_offsets_sorted: "\<forall>c\<in>set cs. c \<noteq> [] \<Longrightarrow> sorted_wrt (<) (map fst (with_offsets n cs))"
proof (induction n cs rule: with_offsets.induct)
  case (2 n c cs)
  have "n < o1" if "(o1, d) \<in> set (with_offsets (n + length c) cs)" for o1 d
    using with_offsets_from [OF that] "2.prems" by (cases c) auto
  then show ?case using 2 by auto
qed simp

lemma fuzzy_result:
  "fuzzy lower text query = None \<longleftrightarrow> \<not> subseq (map Some query) (lowered lower text)"
  "fuzzy lower text query = Some (score, matched) \<Longrightarrow> sorted_wrt (<) matched \<and> list_all2 (hit_at lower text) matched query"
proof -
  obtain left score' matched' where run:
      "fuzzy_loop lower text (file_name_start text) (char_indices text) query False (0, []) = (left, score', matched')"
    by (cases "fuzzy_loop lower text (file_name_start text) (char_indices text) query False (0, [])")
  have "map (first_lower lower \<circ> snd) (char_indices text) = lowered lower text"
    unfolding lowered_def char_indices_def by (simp add: with_offsets_chars flip: map_map)
  then have "left = [] \<longleftrightarrow> subseq (map Some query) (lowered lower text)"
    using loop_left [of lower "text" "file_name_start text" "char_indices text" query False 0 "[]"] run by simp
  then show "fuzzy lower text query = None \<longleftrightarrow> \<not> subseq (map Some query) (lowered lower text)"
    by (simp add: fuzzy_def run)
  have "sorted_wrt (<) (map fst (char_indices text))"
    unfolding char_indices_def by (rule with_offsets_sorted) (use utf8_chars_ne in blast)
  then have "sorted_wrt (<) matched' \<and> (\<exists>used. query = used @ left \<and> list_all2 (hit_at lower text) matched' used)"
    using loop_matched [OF run] by auto
  then show "fuzzy lower text query = Some (score, matched) \<Longrightarrow> sorted_wrt (<) matched \<and> list_all2 (hit_at lower text) matched query"
    by (auto simp: fuzzy_def run split: if_splits)
qed

text \<open>The search is not quite free of case: a character whose lower case is more than one character, such as
  the dotted capital I, is in the query with all of them and in the path with the first alone, so the path made
  of it does not match itself.\<close>

lemma fuzzy_misses_long_lower_case:
  assumes "utf8_chars text = [c]" "lower c = l # l' # ls"
  shows "fuzzy lower text (lower c) = None"
  using assms by (simp add: fuzzy_result(1) lowered_def first_lower_def)

text \<open>
  C30: The fuzzy search is exact: a path matches a query, given as the characters of its lower case, exactly
  when the query is a subsequence of the first lower case characters of the path's characters (of a character
  whose lower case is longer, only the first counts), and then the offsets reported are strictly increasing and
  one after the other those of characters of the path whose lower case begins with the one asked for.
\<close>

theorem fuzzy_exact:
  "case fuzzy lower text query of
     None \<Rightarrow> \<not> subseq (map Some query) (lowered lower text)
   | Some (score, matched) \<Rightarrow> subseq (map Some query) (lowered lower text) \<and> sorted_wrt (<) matched
       \<and> list_all2 (hit_at lower text) matched query"
proof (cases "fuzzy lower text query")
  case None
  then show ?thesis using fuzzy_result(1) [of lower "text" query] by simp
next
  case (Some hit)
  then show ?thesis
    using fuzzy_result(1) [of lower "text" query] fuzzy_result(2) [of lower "text" query "fst hit" "snd hit"]
    by (simp add: split_beta)
qed

end
