(* ===== verification/Nits_Migrate.thy ===== *)
theory Nits_Migrate
  imports Nits_Store_Log
begin

text \<open>
  Opening a store: the forward migrations of \<open>crates/nits-review-core/src/store/migrate.rs\<close> over raw
  JSON events, and \<open>Store::init\<close> of \<open>store/mod.rs\<close>. A raw row is its envelope with the event as a
  JSON value; the text of JSON is not modelled. Decoding an envelope into the current event types
  (serde's derived code) is the parameter \<open>decode\<close>. A migration step is one transaction: a failing
  step leaves the store as the step before it committed it.
\<close>

section \<open>JSON values\<close>

text \<open>\<open>serde_json::Value\<close>; an object is a map with ordered keys.\<close>

datatype json =
    J_Null
  | J_Bool bool
  | J_Number int
  | J_String string
  | J_Array "json list"
  | J_Object "(string \<times> json) list"

fun json_get :: "string \<Rightarrow> json \<Rightarrow> json option" where
  "json_get k (J_Object fs) = map_of fs k"
| "json_get k _ = None"

fun json_str :: "json \<Rightarrow> string option" where
  "json_str (J_String s) = Some s"
| "json_str _ = None"

definition json_type :: "json \<Rightarrow> string option" where
  "json_type j = Option.bind (json_get ''type'' j) json_str"

fun json_insert :: "string \<Rightarrow> json \<Rightarrow> json \<Rightarrow> json" where
  "json_insert k v (J_Object fs) = J_Object (ins_list k v fs)"
| "json_insert k v j = j"

fun json_remove :: "string \<Rightarrow> json \<Rightarrow> json" where
  "json_remove k (J_Object fs) = J_Object (filter (\<lambda>f. fst f \<noteq> k) fs)"
| "json_remove k j = j"

text \<open>\<open>value.pointer_mut("/a/b")\<close> with an assignment through the reference, when it is there.\<close>

fun pointer_update :: "string list \<Rightarrow> (json \<Rightarrow> json) \<Rightarrow> json \<Rightarrow> json" where
  "pointer_update [] f j = f j"
| "pointer_update (k # ks) f j =
     (case json_get k j of None \<Rightarrow> j | Some v \<Rightarrow> json_insert k (pointer_update ks f v) j)"

section \<open>Raw stores\<close>

record raw_stored_event =
  re_schema :: u32
  re_event :: json

record raw_store =
  rw_schema :: "u64 option"
  rw_view_seq :: "seq option"
  rw_events :: "(u64, raw_stored_event) table"
  rw_views :: views

definition raw_ensure :: "raw_store \<Rightarrow> u32 \<times> raw_store" where
  "raw_ensure r =
     (let v = (case rw_schema r of
                 Some v \<Rightarrow> v
               | None \<Rightarrow> if tbl_entries (rw_events r) = [] then ucast schema_CURRENT else 0)
      in (ucast v, r\<lparr>rw_schema := Some v\<rparr>))"

definition raw_last_seq :: "raw_store \<Rightarrow> seq option" where
  "raw_last_seq r = map_option fst (tbl_last (rw_events r))"

definition clear_views :: "raw_store \<Rightarrow> raw_store" where
  "clear_views r = r\<lparr>rw_views := views_empty\<rparr>"

definition clear_view_seq :: "raw_store \<Rightarrow> raw_store" where
  "clear_view_seq r = r\<lparr>rw_view_seq := None\<rparr>"

definition rewrite_raw_events :: "(raw_stored_event \<Rightarrow> (store_error, raw_stored_event) result) \<Rightarrow> raw_store
    \<Rightarrow> (store_error, raw_store) result" where
  "rewrite_raw_events f r =
     bindR (collectR (\<lambda>(key, stored). bindR (f stored) (\<lambda>stored'. Inr (key, stored'))) (tbl_entries (rw_events r)))
       (\<lambda>rows. Inr (r\<lparr>rw_events := fold (\<lambda>(key, stored). tbl_insert key stored) rows (rw_events r)\<rparr>))"

text \<open>The shape of a step: rewrite every event, stamp its envelope, and drop the views.\<close>

definition rewriting :: "u32 \<Rightarrow> (json \<Rightarrow> (store_error, json) result) \<Rightarrow> raw_store \<Rightarrow> (store_error, raw_store) result" where
  "rewriting version f r =
     bindR (rewrite_raw_events
              (\<lambda>stored. bindR (f (re_event stored)) (\<lambda>e. Inr \<lparr>re_schema = version, re_event = e\<rparr>)) r)
       (\<lambda>r'. Inr (clear_view_seq (clear_views r')))"

section \<open>The rewritings\<close>

definition diff_context :: "json \<Rightarrow> json" where
  "diff_context c =
     (if c = J_Null then c
      else J_Object (ins_list ''change'' c (ins_list ''type'' (J_String ''Diff'') [])))"

definition rewrite_4 :: "json \<Rightarrow> (store_error, json) result" where
  "rewrite_4 e = Inr (pointer_update [''body'', ''comment'', ''context''] diff_context e)"

definition rewrite_6 :: "json \<Rightarrow> (store_error, json) result" where
  "rewrite_6 e =
     Inr (pointer_update [''body'']
       (\<lambda>body. if json_type body = Some ''ReviewRequested''
               then json_insert ''targets'' (J_Object [(''type'', J_String ''Unknown'')]) body else body) e)"

text \<open>\<open>serde_json::from_value::<Option<BlobOid>>\<close>.\<close>

fun json_blob_oid :: "json \<Rightarrow> (store_error, blob_oid option) result" where
  "json_blob_oid J_Null = Inr None"
| "json_blob_oid (J_String s) = bindR (map_err (\<lambda>e. Json (Json_BadId e)) (oid_from_str s)) (\<lambda>oid. Inr (Some (BlobOid oid)))"
| "json_blob_oid _ = Inl (Json Json_NotAString)"

definition viewed_content_json :: "blob_oid option \<Rightarrow> json" where
  "viewed_content_json oid =
     (case oid of
        Some b \<Rightarrow> J_Object (ins_list ''oid'' (J_String (oid_display (blob_oid_oid b))) [(''type'', J_String ''Blob'')])
      | None \<Rightarrow> J_Object [(''type'', J_String ''Missing'')])"

definition rewrite_8 :: "json \<Rightarrow> (store_error, json) result" where
  "rewrite_8 e =
     (case json_get ''body'' e of
        Some body \<Rightarrow>
          if json_type body = Some ''FileViewed''
          then case json_get ''blob_oid'' body of
                 None \<Rightarrow> Inr e
               | Some blob \<Rightarrow>
                   bindR (json_blob_oid blob) (\<lambda>oid.
                     Inr (json_insert ''body''
                       (json_insert ''content'' (viewed_content_json oid) (json_remove ''blob_oid'' body)) e))
          else Inr e
      | None \<Rightarrow> Inr e)"

definition unknown_entry :: "json \<Rightarrow> json" where
  "unknown_entry oid = J_Object (ins_list ''oid'' oid [(''mode'', J_String ''Unknown'')])"

definition unknown_mode :: "json \<Rightarrow> json" where
  "unknown_mode blob = (if json_str blob \<noteq> None then unknown_entry blob else blob)"

definition content_entry :: "json \<Rightarrow> json" where
  "content_entry content =
     (if json_type content = Some ''Blob''
      then case json_get ''oid'' content of
             None \<Rightarrow> content
           | Some oid \<Rightarrow> json_insert ''entry'' (unknown_entry oid) (json_remove ''oid'' content)
      else content)"

definition change_fields :: "string option \<Rightarrow> string list" where
  "change_fields t =
     (if t = Some ''Added'' then [''new'']
      else if t = Some ''Deleted'' then [''old'']
      else if t = Some ''Modified'' \<or> t = Some ''Renamed'' then [''old'', ''new'']
      else [])"

definition submodule_field :: "string option \<Rightarrow> string option" where
  "submodule_field t =
     (if t = Some ''BlobToSubmodule'' then Some ''old''
      else if t = Some ''SubmoduleToBlob'' then Some ''new''
      else None)"

definition submodule_mode :: "json \<Rightarrow> json" where
  "submodule_mode submodule =
     (case submodule_field (json_type submodule) of
        None \<Rightarrow> submodule
      | Some field \<Rightarrow> pointer_update [field] unknown_mode submodule)"

definition change_modes :: "json \<Rightarrow> json" where
  "change_modes change =
     pointer_update [''change''] submodule_mode
       (fold (\<lambda>field. pointer_update [field] unknown_mode) (change_fields (json_type change)) change)"

definition rewrite_9 :: "json \<Rightarrow> (store_error, json) result" where
  "rewrite_9 e =
     Inr (pointer_update [''body'', ''comment'', ''context'', ''change''] change_modes
            (pointer_update [''body'', ''content''] content_entry e))"

section \<open>The migrations\<close>

type_synonym migration = "raw_store \<Rightarrow> (store_error, raw_store) result"

definition migrate_0_to_1 :: migration where
  "migrate_0_to_1 r = Inr r"

definition migrate_1_to_2 :: migration where
  "migrate_1_to_2 = rewriting 2 Inr"

definition migrate_2_to_3 :: migration where
  "migrate_2_to_3 r = Inr (clear_view_seq (clear_views r))"

definition migrate_3_to_4 :: migration where
  "migrate_3_to_4 = rewriting 4 rewrite_4"

definition migrate_4_to_5 :: migration where
  "migrate_4_to_5 = rewriting 5 Inr"

definition migrate_5_to_6 :: migration where
  "migrate_5_to_6 = rewriting 6 rewrite_6"

definition migrate_6_to_7 :: migration where
  "migrate_6_to_7 = rewriting 7 Inr"

definition migrate_7_to_8 :: migration where
  "migrate_7_to_8 = rewriting 8 rewrite_8"

definition migrate_8_to_9 :: migration where
  "migrate_8_to_9 = rewriting 9 rewrite_9"

definition migrate_9_to_10 :: migration where
  "migrate_9_to_10 r = Inr (clear_view_seq (clear_views r))"

definition migrate_10_to_11 :: migration where
  "migrate_10_to_11 r = Inr (clear_view_seq (clear_views r))"

definition MIGRATIONS :: "migration list" where
  "MIGRATIONS =
     [migrate_0_to_1, migrate_1_to_2, migrate_2_to_3, migrate_3_to_4, migrate_4_to_5, migrate_5_to_6,
      migrate_6_to_7, migrate_7_to_8, migrate_8_to_9, migrate_9_to_10, migrate_10_to_11]"

function migrate_loop :: "u32 \<Rightarrow> raw_store \<Rightarrow> (store_error, unit) result \<times> raw_store" where
  "migrate_loop at r =
     (if at < schema_CURRENT
      then case slice_at MIGRATIONS (unat at) of
             None \<Rightarrow> (Inl (Migration (Migration_Missing at (at + 1))), r)
           | Some step \<Rightarrow>
               (case step r of
                  Inl e \<Rightarrow> (Inl (Migration (Migration_Failed at (at + 1) e)), r)
                | Inr r' \<Rightarrow> migrate_loop (at + 1) (r'\<lparr>rw_schema := Some (ucast (at + 1))\<rparr>))
      else (Inr (), r))"
  by pat_completeness auto

termination
proof (relation "measure (\<lambda>(at, r). unat (schema_CURRENT - at))")
  fix at :: u32 and r r' step
  assume "at < schema_CURRENT"
  then have "unat at < 11" by (simp add: schema_CURRENT_def word_less_nat_alt)
  then have "unat (at + 1) = Suc (unat at)" by (simp add: unat_plus_if_size word_size)
  then show "((at + 1, r'\<lparr>rw_schema := Some (ucast (at + 1))\<rparr>), at, r) \<in> measure (\<lambda>(at, r). unat (schema_CURRENT - at))"
    using \<open>unat at < 11\<close> by (simp add: schema_CURRENT_def unat_sub word_le_nat_alt)
qed simp

declare migrate_loop.simps [simp del]

definition migrate_run :: "u32 \<Rightarrow> raw_store \<Rightarrow> (store_error, unit) result \<times> raw_store" where
  "migrate_run stored r =
     (if stored > schema_CURRENT then (Inl (SchemaTooNew stored schema_CURRENT), r) else migrate_loop stored r)"

section \<open>Opening\<close>

definition raw_all_events :: "(raw_stored_event \<Rightarrow> event option) \<Rightarrow> raw_store \<Rightarrow> (store_error, (seq \<times> event) list) result" where
  "raw_all_events decode r =
     collectR (\<lambda>(key, stored). bindR (ok_or (Corrupt key Undecodable) (decode stored)) (\<lambda>e. Inr (key, e)))
       (tbl_entries (rw_events r))"

definition raw_rebuild_views :: "(raw_stored_event \<Rightarrow> event option) \<Rightarrow> raw_store \<Rightarrow> (store_error, raw_store) result" where
  "raw_rebuild_views decode r =
     bindR (raw_all_events decode r) (\<lambda>rows.
     bindR (foldR (\<lambda>(seq, e) (t, lst). bindR (apply_event e t) (\<lambda>t'. Inr (t', Some seq))) rows (views_empty, None))
       (\<lambda>(t, lst). Inr (r\<lparr>rw_views := t, rw_view_seq := lst\<rparr>)))"

definition store_init :: "(raw_stored_event \<Rightarrow> event option) \<Rightarrow> raw_store \<Rightarrow> (store_error, unit) result \<times> raw_store" where
  "store_init decode r =
     (case raw_ensure r of (stored, r1) \<Rightarrow>
        case migrate_run stored r1 of
          (Inl e, r2) \<Rightarrow> (Inl e, r2)
        | (Inr _, r2) \<Rightarrow>
            if rw_view_seq r2 \<noteq> raw_last_seq r2
            then (case raw_rebuild_views decode r2 of
                    Inl e \<Rightarrow> (Inl e, r2)
                  | Inr r3 \<Rightarrow> (Inr (), r3))
            else (Inr (), r2))"

section \<open>What a rewriting may change\<close>

lemma json_get_insert_other: "k' \<noteq> k \<Longrightarrow> json_get k' (json_insert k v j) = json_get k' j"
  by (cases j) (simp_all add: map_of_ins_list)

lemma json_get_insert_there:
  "json_get k0 j = Some x \<Longrightarrow> json_get k' (json_insert k v j) = (if k' = k then Some v else json_get k' j)"
  by (cases j) (simp_all add: map_of_ins_list)

lemma json_get_remove: "json_get k' (json_remove k j) = (if k' = k then None else json_get k' j)"
  by (cases j) (simp_all add: map_of_filter_key)

lemma json_get_pointer [simp]:
  "json_get k' (pointer_update (k # ks) f j) =
     (if k' = k then map_option (pointer_update ks f) (json_get k j) else json_get k' j)"
  by (cases "json_get k j") (auto simp: json_get_insert_there)

declare pointer_update.simps(2) [simp del]

definition body_field :: "string \<Rightarrow> json \<Rightarrow> json option" where
  "body_field k e = Option.bind (json_get ''body'' e) (json_get k)"

definition comment_field :: "string \<Rightarrow> json \<Rightarrow> json option" where
  "comment_field k e = Option.bind (body_field ''comment'' e) (json_get k)"

text \<open>
  The identity of an event and its discussion: everything outside its body, every field of the
  body but the four that migrations introduce or rewrite, and every field of a comment but the
  diff it was made on.
\<close>

definition same_history :: "json \<Rightarrow> json \<Rightarrow> bool" where
  "same_history e e' \<longleftrightarrow>
     (\<forall>k. k \<noteq> ''body'' \<longrightarrow> json_get k e' = json_get k e)
     \<and> (\<forall>k. k \<notin> {''comment'', ''targets'', ''blob_oid'', ''content''} \<longrightarrow> body_field k e' = body_field k e)
     \<and> (\<forall>k. k \<noteq> ''context'' \<longrightarrow> comment_field k e' = comment_field k e)"

lemma same_history_refl [simp]: "same_history e e"
  by (simp add: same_history_def)

lemma same_history_trans: "same_history a b \<Longrightarrow> same_history b c \<Longrightarrow> same_history a c"
  by (simp add: same_history_def)

lemma body_update_history:
  assumes "\<And>body k. k \<notin> {''comment'', ''targets'', ''blob_oid'', ''content''} \<Longrightarrow> json_get k (f body) = json_get k body"
    and "\<And>body k. k \<noteq> ''context'' \<Longrightarrow>
      Option.bind (json_get ''comment'' (f body)) (json_get k) = Option.bind (json_get ''comment'' body) (json_get k)"
  shows "same_history e (pointer_update [''body''] f e)"
  unfolding same_history_def comment_field_def body_field_def
  by (cases "json_get ''body'' e") (simp_all add: assms)

lemma pointer_update_append: "pointer_update (ks @ ls) f = pointer_update ks (pointer_update ls f)"
proof
  fix j show "pointer_update (ks @ ls) f j = pointer_update ks (pointer_update ls f) j"
    by (induction ks arbitrary: j) (auto simp: pointer_update.simps(2) split: option.split)
qed

lemma rewrite_4_history: "rewrite_4 e = Inr e' \<Longrightarrow> same_history e e'"
proof -
  assume "rewrite_4 e = Inr e'"
  then have "e' = pointer_update [''body''] (pointer_update [''comment'', ''context''] diff_context) e"
    using pointer_update_append [of "[''body'']" "[''comment'', ''context'']"] by (simp add: rewrite_4_def)
  then show ?thesis
    by (auto intro!: body_update_history split: Option.bind_split)
qed

lemma rewrite_6_history: "rewrite_6 e = Inr e' \<Longrightarrow> same_history e e'"
proof -
  let ?f = "\<lambda>body. if json_type body = Some ''ReviewRequested''
    then json_insert ''targets'' (J_Object [(''type'', J_String ''Unknown'')]) body else body"
  assume "rewrite_6 e = Inr e'"
  then have "e' = pointer_update [''body''] ?f e" by (simp add: rewrite_6_def)
  moreover have "same_history e (pointer_update [''body''] ?f e)"
    by (rule body_update_history) (simp_all add: json_get_insert_other)
  ultimately show ?thesis by simp
qed

lemma rewrite_8_history: "rewrite_8 e = Inr e' \<Longrightarrow> same_history e e'"
  unfolding rewrite_8_def same_history_def comment_field_def body_field_def
  by (auto simp: result_simps json_get_insert_there [of "''body''" e] json_get_insert_other json_get_remove
      split: option.splits if_splits)

lemma rewrite_9_history: "rewrite_9 e = Inr e' \<Longrightarrow> same_history e e'"
proof -
  let ?e = "pointer_update [''body''] (pointer_update [''content''] content_entry) e"
  assume "rewrite_9 e = Inr e'"
  then have e': "e' = pointer_update [''body''] (pointer_update [''comment'', ''context'', ''change''] change_modes) ?e"
    using pointer_update_append [of "[''body'']" "[''comment'', ''context'', ''change'']"]
      pointer_update_append [of "[''body'']" "[''content'']"] by (simp add: rewrite_9_def)
  have content: "same_history e ?e" by (rule body_update_history) (auto)
  have "same_history ?e (pointer_update [''body''] (pointer_update [''comment'', ''context'', ''change''] change_modes) ?e)"
    by (rule body_update_history) (auto split: Option.bind_split)
  then show ?thesis unfolding e' by (rule same_history_trans [OF content])
qed

section \<open>What a step may change\<close>

definition history_kept :: "raw_store \<Rightarrow> raw_store \<Rightarrow> bool" where
  "history_kept r r' \<longleftrightarrow>
     list_all2 (\<lambda>a b. fst b = fst a \<and> same_history (re_event (snd a)) (re_event (snd b)))
       (tbl_entries (rw_events r)) (tbl_entries (rw_events r'))"

lemma history_kept_same: "rw_events r' = rw_events r \<Longrightarrow> history_kept r r'"
  by (simp add: history_kept_def list_all2_refl)

lemma history_kept_trans: "history_kept a b \<Longrightarrow> history_kept b c \<Longrightarrow> history_kept a c"
  unfolding history_kept_def
  by (rule list_all2_trans) (auto dest: same_history_trans)

lemma ins_list_replace:
  "\<forall>k'\<in>fst ` set xs. k' < k \<Longrightarrow> ins_list k v (xs @ (k, w) # ys) = xs @ (k, v) # ys"
  by (induction xs) auto

lemma fold_ins_list_same_keys:
  assumes "map fst ys = map fst rows" "sorted_keys (xs @ rows)"
  shows "fold (\<lambda>(k, v). ins_list k v) rows (xs @ ys) = xs @ rows"
  using assms
proof (induction rows arbitrary: xs ys)
  case (Cons row rows)
  obtain k v where row: "row = (k, v)" by (cases row)
  then obtain w zs where ys: "ys = (k, w) # zs" "map fst zs = map fst rows" using Cons.prems(1) by auto
  have "ins_list k v (xs @ ys) = (xs @ [row]) @ zs"
    using Cons.prems(2) by (simp add: row ys ins_list_replace sorted_wrt_append)
  then show ?case using Cons.IH [of zs "xs @ [row]"] Cons.prems(2) ys(2) by (simp add: row)
qed simp

lemma fold_tbl_insert_entries:
  "tbl_entries (fold (\<lambda>(k, v). tbl_insert k v) rows t) = fold (\<lambda>(k, v). ins_list k v) rows (tbl_entries t)"
  by (induction rows arbitrary: t) (auto simp: tbl_entries_insert)

lemma rewrite_raw_events_Inr:
  assumes "rewrite_raw_events f r = Inr r'"
  shows "\<exists>t. r' = r\<lparr>rw_events := t\<rparr>
    \<and> list_all2 (\<lambda>a b. fst b = fst a \<and> f (snd a) = Inr (snd b)) (tbl_entries (rw_events r)) (tbl_entries t)"
proof -
  let ?es = "tbl_entries (rw_events r)"
  obtain rows where rows: "collectR (\<lambda>(key, stored). bindR (f stored) (\<lambda>stored'. Inr (key, stored'))) ?es = Inr rows"
    and r': "r' = r\<lparr>rw_events := fold (\<lambda>(key, stored). tbl_insert key stored) rows (rw_events r)\<rparr>"
    using assms by (auto simp: rewrite_raw_events_def result_simps)
  have all: "list_all2 (\<lambda>a b. fst b = fst a \<and> f (snd a) = Inr (snd b)) ?es rows"
    using rows unfolding collectR_Inr_iff
    by (rule list_all2_mono) (auto simp: result_simps split: prod.splits)
  then have "map fst rows = map fst ?es" by (induction rule: list_all2_induct) auto
  then have "fold (\<lambda>(k, v). ins_list k v) rows ([] @ ?es) = [] @ rows"
    using tbl.entries_sorted [of "rw_events r"] by (intro fold_ins_list_same_keys) simp_all
  then show ?thesis using r' all by (auto simp: fold_tbl_insert_entries)
qed

lemma rewriting_Inr:
  assumes "rewriting v f r = Inr r'" "\<And>e e'. f e = Inr e' \<Longrightarrow> same_history e e'"
  shows "history_kept r r' \<and> rw_schema r' = rw_schema r \<and> rw_views r' = views_empty \<and> rw_view_seq r' = None"
proof -
  obtain t where t: "list_all2 (\<lambda>a b. fst b = fst a \<and> bindR (f (re_event (snd a))) (\<lambda>e. Inr \<lparr>re_schema = v, re_event = e\<rparr>)
        = Inr (snd b)) (tbl_entries (rw_events r)) (tbl_entries t)"
    and r': "r' = clear_view_seq (clear_views (r\<lparr>rw_events := t\<rparr>))"
    using assms(1) unfolding rewriting_def by (auto simp: result_simps dest!: rewrite_raw_events_Inr)
  have "list_all2 (\<lambda>a b. fst b = fst a \<and> same_history (re_event (snd a)) (re_event (snd b)))
      (tbl_entries (rw_events r)) (tbl_entries t)"
    by (rule list_all2_mono [OF t]) (use assms(2) in \<open>auto simp: result_simps\<close>)
  then have "history_kept r r'" by (simp add: history_kept_def r' clear_view_seq_def clear_views_def)
  then show ?thesis by (simp add: r' clear_view_seq_def clear_views_def)
qed

lemma migration_step:
  assumes "step \<in> set MIGRATIONS" "step r = Inr r'"
  shows "history_kept r r' \<and> rw_schema r' = rw_schema r
    \<and> (step \<in> set (tl MIGRATIONS) \<longrightarrow> rw_views r' = views_empty \<and> rw_view_seq r' = None)"
proof -
  have same: "rewriting v Inr r = Inr r' \<Longrightarrow> ?thesis" for v using rewriting_Inr [of v Inr r r'] by simp
  have r4: "rewriting v rewrite_4 r = Inr r' \<Longrightarrow> ?thesis" for v
    using rewriting_Inr [of v rewrite_4 r r'] rewrite_4_history by blast
  have r6: "rewriting v rewrite_6 r = Inr r' \<Longrightarrow> ?thesis" for v
    using rewriting_Inr [of v rewrite_6 r r'] rewrite_6_history by blast
  have r8: "rewriting v rewrite_8 r = Inr r' \<Longrightarrow> ?thesis" for v
    using rewriting_Inr [of v rewrite_8 r r'] rewrite_8_history by blast
  have r9: "rewriting v rewrite_9 r = Inr r' \<Longrightarrow> ?thesis" for v
    using rewriting_Inr [of v rewrite_9 r r'] rewrite_9_history by blast
  have cleared: "r' = clear_view_seq (clear_views r) \<Longrightarrow> ?thesis"
    by (simp add: clear_view_seq_def clear_views_def history_kept_same)
  have steps: "?thesis" if "step \<in> set (tl MIGRATIONS)"
  proof -
    have "r' = clear_view_seq (clear_views r) \<or> (\<exists>v. rewriting v Inr r = Inr r')
      \<or> (\<exists>v. rewriting v rewrite_4 r = Inr r') \<or> (\<exists>v. rewriting v rewrite_6 r = Inr r')
      \<or> (\<exists>v. rewriting v rewrite_8 r = Inr r') \<or> (\<exists>v. rewriting v rewrite_9 r = Inr r')"
      using that assms(2) unfolding MIGRATIONS_def
      by (auto simp: migrate_1_to_2_def migrate_2_to_3_def migrate_3_to_4_def migrate_4_to_5_def migrate_5_to_6_def
          migrate_6_to_7_def migrate_7_to_8_def migrate_8_to_9_def migrate_9_to_10_def migrate_10_to_11_def)
    then show ?thesis using same r4 r6 r8 r9 cleared by metis
  qed
  show ?thesis
  proof (cases "step \<in> set (tl MIGRATIONS)")
    case False
    then have "step = migrate_0_to_1" using assms(1) by (auto simp: MIGRATIONS_def)
    then show ?thesis using assms(2) False by (simp add: migrate_0_to_1_def history_kept_same)
  qed (rule steps)
qed

section \<open>What a run may change\<close>

lemma migration_at:
  assumes "at < schema_CURRENT"
  shows "\<exists>step\<in>set MIGRATIONS. slice_at MIGRATIONS (unat at) = Some step
    \<and> (at + 1 = schema_CURRENT \<longrightarrow> step \<in> set (tl MIGRATIONS))"
proof -
  have at: "unat at < 11" using assms by (simp add: schema_CURRENT_def word_less_nat_alt)
  then have "MIGRATIONS ! unat at \<in> set MIGRATIONS" by (intro nth_mem) (simp add: MIGRATIONS_def)
  moreover have "slice_at MIGRATIONS (unat at) = Some (MIGRATIONS ! unat at)" using at by (simp add: slice_at_def MIGRATIONS_def)
  moreover have "MIGRATIONS ! unat at \<in> set (tl MIGRATIONS)" if "at + 1 = schema_CURRENT"
  proof -
    have "at = 10" using that by (simp add: schema_CURRENT_def eq_diff_eq [symmetric])
    then show ?thesis by (simp add: MIGRATIONS_def)
  qed
  ultimately show ?thesis by blast
qed

lemma succ_version:
  "at < schema_CURRENT \<Longrightarrow> at < at + 1 \<and> at + 1 \<le> schema_CURRENT"
proof -
  assume "at < schema_CURRENT"
  then have "unat at < 11" by (simp add: schema_CURRENT_def word_less_nat_alt)
  then have "unat (at + 1) = Suc (unat at)" by (simp add: unat_plus_if_size word_size)
  then show ?thesis using \<open>unat at < 11\<close> by (simp add: schema_CURRENT_def word_less_nat_alt word_le_nat_alt)
qed

lemma migrate_loop_outcome:
  assumes "migrate_loop at r = (res, r')" "at \<le> schema_CURRENT"
  shows "history_kept r r' \<and>
    (case res of
       Inr _ \<Rightarrow> at < schema_CURRENT \<longrightarrow>
         rw_schema r' = Some (ucast schema_CURRENT) \<and> rw_views r' = views_empty \<and> rw_view_seq r' = None
     | Inl err \<Rightarrow> (\<exists>from e. err = Migration (Migration_Failed from (from + 1) e) \<and> at \<le> from \<and> from < schema_CURRENT
         \<and> (from = at \<and> r' = r \<or> rw_schema r' = Some (ucast from)) \<and> migrate_loop from r' = (res, r')))"
  using assms
proof (induction at r rule: migrate_loop.induct)
  case (1 at r)
  show ?case
  proof (cases "at < schema_CURRENT")
    case False
    then have "migrate_loop at r = (Inr (), r)" by (simp add: migrate_loop.simps [of at])
    then show ?thesis using 1(2) False by (simp add: history_kept_same)
  next
    case True
    obtain step where step: "step \<in> set MIGRATIONS" "slice_at MIGRATIONS (unat at) = Some step"
      "at + 1 = schema_CURRENT \<longrightarrow> step \<in> set (tl MIGRATIONS)" using migration_at [OF True] by blast
    note succ = succ_version [OF True]
    show ?thesis
    proof (cases "step r")
      case (Inl e)
      then have "migrate_loop at r = (Inl (Migration (Migration_Failed at (at + 1) e)), r)"
        using True step(2) by (simp add: migrate_loop.simps [of at])
      then show ?thesis using 1(2) True by (auto simp: history_kept_same)
    next
      case (Inr r1)
      let ?r = "r1\<lparr>rw_schema := Some (ucast (at + 1))\<rparr>"
      have run: "migrate_loop (at + 1) ?r = (res, r')"
        using 1(2) True step(2) Inr by (simp add: migrate_loop.simps [of at])
      note IH = 1(1) [OF True step(2) Inr run conjunct2 [OF succ]]
      have kept: "history_kept r ?r" using migration_step [OF step(1) Inr] by (simp add: history_kept_def)
      have fin: "at + 1 = schema_CURRENT \<Longrightarrow> res = Inr () \<and> r' = ?r"
        using run by (simp add: migrate_loop.simps [of schema_CURRENT])
      have cleared: "at + 1 = schema_CURRENT \<Longrightarrow> rw_views ?r = views_empty \<and> rw_view_seq ?r = None"
        using migration_step [OF step(1) Inr] step(3) by simp
      have "history_kept r r'" using IH kept history_kept_trans by blast
      moreover have "at + 1 < schema_CURRENT \<or> at + 1 = schema_CURRENT" using succ by (simp add: order_le_less)
      ultimately show ?thesis
        using IH succ fin cleared by (cases res) (auto simp: order_le_less intro: order.strict_trans)
    qed
  qed
qed

lemma migration_steps_outcome:
  assumes "migrate_run stored r = (Inr (), r')"
  shows "history_kept r r'" "stored \<le> schema_CURRENT"
    "stored < schema_CURRENT \<Longrightarrow>
      rw_schema r' = Some (ucast schema_CURRENT) \<and> rw_views r' = views_empty \<and> rw_view_seq r' = None"
  using assms migrate_loop_outcome [of stored r "Inr ()" r']
  by (auto simp: migrate_run_def split: if_splits)

text \<open>
  C28: A migration run keeps history and is resumable. Whatever its outcome, every event keeps its
  number, and its content outside the fields the migrations introduce. A store of a newer schema
  is refused and untouched. Otherwise the run either reaches the current schema, with the views
  dropped, or fails in one named step, with the store at that step's schema exactly as the steps
  before it committed it: running again from there fails in the same way without doing anything
  twice. No version is without its migration.
\<close>

theorem migration_outcome:
  assumes "migrate_run stored r = (res, r')"
  shows "history_kept r r' \<and>
    (case res of
       Inr _ \<Rightarrow> stored \<le> schema_CURRENT \<and> (stored < schema_CURRENT \<longrightarrow>
         rw_schema r' = Some (ucast schema_CURRENT) \<and> rw_views r' = views_empty \<and> rw_view_seq r' = None)
     | Inl err \<Rightarrow>
         err = SchemaTooNew stored schema_CURRENT \<and> schema_CURRENT < stored \<and> r' = r
         \<or> (\<exists>from e. err = Migration (Migration_Failed from (from + 1) e) \<and> stored \<le> from \<and> from < schema_CURRENT
              \<and> (from = stored \<and> r' = r \<or> rw_schema r' = Some (ucast from)) \<and> migrate_run from r' = (res, r')))"
proof (cases "stored > schema_CURRENT")
  case True
  then show ?thesis using assms by (auto simp: migrate_run_def history_kept_same)
next
  case False
  then have "migrate_loop stored r = (res, r')" "stored \<le> schema_CURRENT" using assms by (auto simp: migrate_run_def)
  from migrate_loop_outcome [OF this] show ?thesis
    using False by (cases res) (auto simp: migrate_run_def)
qed

text \<open>A log from before versioning: one request for a review, and one viewed mark that is damaged.\<close>

definition legacy_event :: "(string \<times> json) list \<Rightarrow> raw_stored_event" where
  "legacy_event body = \<lparr>re_schema = 0, re_event = J_Object [(''body'', J_Object body), (''seq'', J_Number 1)]\<rparr>"

definition legacy_store :: "(string \<times> json) list \<Rightarrow> raw_store" where
  "legacy_store body =
     \<lparr>rw_schema = None, rw_view_seq = Some 1, rw_events = tbl_insert 1 (legacy_event body) tbl_empty,
      rw_views = views_empty\<rparr>"

definition legacy_request :: "(string \<times> json) list" where
  "legacy_request = [(''agent'', J_String ''bot''), (''type'', J_String ''ReviewRequested'')]"

definition legacy_viewed :: "(string \<times> json) list" where
  "legacy_viewed = [(''blob_oid'', J_Bool True), (''type'', J_String ''FileViewed'')]"

theorem migration_outcome_witness:
  "\<exists>res r'. migrate_run 0 (legacy_store legacy_viewed) = (res, r')
     \<and> res = Inl (Migration (Migration_Failed 7 8 (Json Json_NotAString)))
     \<and> history_kept (legacy_store legacy_viewed) r' \<and> rw_schema r' = Some 7 \<and> migrate_run 7 r' = (res, r')"
proof -
  obtain res r' where run: "migrate_run 0 (legacy_store legacy_viewed) = (res, r')" by fastforce
  have "fst (migrate_run 0 (legacy_store legacy_viewed))
      = Inl (Migration (Migration_Failed 7 8 (Json Json_NotAString)))" by code_simp
  then have "res = Inl (Migration (Migration_Failed 7 8 (Json Json_NotAString)))" using run by simp
  then show ?thesis using run migration_outcome [OF run] by auto
qed

section \<open>Opening a store\<close>

definition views_of_log :: "(raw_stored_event \<Rightarrow> event option) \<Rightarrow> raw_store \<Rightarrow> (store_error, views) result" where
  "views_of_log decode r = bindR (raw_all_events decode r) (\<lambda>rows. foldR apply_event (map snd rows) views_empty)"

lemma raw_all_events_keys: "raw_all_events decode r = Inr rows \<Longrightarrow> map fst rows = map fst (tbl_entries (rw_events r))"
proof -
  assume "raw_all_events decode r = Inr rows"
  then have "list_all2 (\<lambda>a b. fst b = fst a) (tbl_entries (rw_events r)) rows"
    unfolding raw_all_events_def collectR_Inr_iff
    by (rule list_all2_mono) (auto simp: result_simps split: prod.splits)
  then show ?thesis by (induction rule: list_all2_induct) auto
qed

lemma raw_rebuild_fold:
  "foldR (\<lambda>(seq, e) (t, lst). bindR (apply_event e t) (\<lambda>t'. Inr (t', Some seq))) rows (t, q)
   = bindR (foldR apply_event (map snd rows) t) (\<lambda>t'. Inr (t', if rows = [] then q else Some (fst (last rows))))"
proof (induction rows arbitrary: t q)
  case (Cons row rows)
  then show ?case by (cases row; cases "apply_event (snd row) t") auto
qed simp

lemma raw_rebuild_views_eq:
  "raw_rebuild_views decode r = bindR (views_of_log decode r) (\<lambda>t. Inr (r\<lparr>rw_views := t, rw_view_seq := raw_last_seq r\<rparr>))"
proof (cases "raw_all_events decode r")
  case (Inr rows)
  note keys = raw_all_events_keys [OF Inr]
  have "(if rows = [] then None else Some (fst (last rows))) = raw_last_seq r"
  proof (cases "rows = []")
    case False
    then have "fst (last rows) = last (map fst rows)" by (simp add: last_map)
    also have "\<dots> = fst (last (tbl_entries (rw_events r)))" using keys False by (metis last_map list.map_disc_iff)
    finally show ?thesis using False keys by (auto simp: raw_last_seq_def tbl_last_def)
  qed (use keys in \<open>auto simp: raw_last_seq_def tbl_last_def\<close>)
  then show ?thesis
    by (cases "foldR apply_event (map snd rows) views_empty")
      (auto simp: raw_rebuild_views_def views_of_log_def Inr raw_rebuild_fold)
qed (simp add: raw_rebuild_views_def views_of_log_def)

lemma views_of_log_events: "rw_events r' = rw_events r \<Longrightarrow> views_of_log decode r' = views_of_log decode r"
  by (simp add: views_of_log_def raw_all_events_def)

lemma migrate_run_current [simp]: "migrate_run schema_CURRENT r = (Inr (), r)"
  by (simp add: migrate_run_def migrate_loop.simps [of schema_CURRENT])

lemma schema_stamp [simp]: "ucast (ucast schema_CURRENT :: u64) = schema_CURRENT"
  by (simp add: schema_CURRENT_def)

lemma store_init_settled:
  assumes "rw_schema r = Some v" "ucast v = schema_CURRENT" "rw_view_seq r = raw_last_seq r"
  shows "store_init decode r = (Inr (), r)"
proof -
  have "r\<lparr>rw_schema := Some v\<rparr> = r" using assms(1) by (cases r) simp
  then have "raw_ensure r = (schema_CURRENT, r)" using assms by (simp add: raw_ensure_def)
  then show ?thesis using assms(3) by (simp add: store_init_def)
qed

lemma store_init_migrated:
  assumes "store_init decode r = (Inr (), r')"
  shows "\<exists>stored v r1 r2. raw_ensure r = (stored, r1) \<and> stored = ucast v \<and> r1 = r\<lparr>rw_schema := Some v\<rparr>
    \<and> migrate_run stored r1 = (Inr (), r2)
    \<and> (if rw_view_seq r2 = raw_last_seq r2 then r' = r2 else raw_rebuild_views decode r2 = Inr r')"
proof -
  obtain v where v: "raw_ensure r = (ucast v, r\<lparr>rw_schema := Some v\<rparr>)" by (auto simp: raw_ensure_def Let_def)
  obtain res r2 where run: "migrate_run (ucast v) (r\<lparr>rw_schema := Some v\<rparr>) = (res, r2)" by fastforce
  show ?thesis
    using assms v run by (cases res) (auto simp: store_init_def split: if_splits sum.splits)
qed

text \<open>
  C27: Opening a store succeeds only in a consistent state, whatever the decoder does: the schema is
  the current one, the views are as far as the log and are what folding the decoded log gives,
  every event has kept its history, and opening it again changes nothing. What is relied on is
  only that a store of the current schema whose views are as far as its log has the views of its log.
\<close>

theorem store_init_consistent:
  assumes "store_init decode r = (Inr (), r')"
    and "fst (raw_ensure r) = schema_CURRENT \<Longrightarrow> rw_view_seq r = raw_last_seq r \<Longrightarrow>
      views_of_log decode r = Inr (rw_views r)"
  shows "map_option ucast (rw_schema r') = Some schema_CURRENT \<and> rw_view_seq r' = raw_last_seq r'
    \<and> views_of_log decode r' = Inr (rw_views r') \<and> history_kept r r' \<and> store_init decode r' = (Inr (), r')"
proof -
  obtain stored v r1 r2 where e: "raw_ensure r = (stored, r1)" "stored = ucast v" "r1 = r\<lparr>rw_schema := Some v\<rparr>"
    and run: "migrate_run stored r1 = (Inr (), r2)"
    and fin: "if rw_view_seq r2 = raw_last_seq r2 then r' = r2 else raw_rebuild_views decode r2 = Inr r'"
    using store_init_migrated [OF assms(1)] by blast
  note out = migration_steps_outcome [OF run]
  have kept: "history_kept r r2" using out(1) by (simp add: e(3) history_kept_def)
  have schema: "map_option ucast (rw_schema r2) = Some schema_CURRENT"
    using out(2,3) e(2,3) run by (cases "stored < schema_CURRENT") (auto simp: order_le_less)
  have settled: "views_of_log decode r2 = Inr (rw_views r2)" if view: "rw_view_seq r2 = raw_last_seq r2"
  proof (cases "stored < schema_CURRENT")
    case True
    then have "raw_last_seq r2 = None" "rw_views r2 = views_empty" using out(3) view by simp_all
    then show ?thesis
      by (simp add: raw_last_seq_def tbl_last_def views_of_log_def raw_all_events_def split: if_splits)
  next
    case False
    then have "stored = schema_CURRENT" using out(2) by simp
    then have "r2 = r1" using run by simp
    then show ?thesis using assms(2) view e \<open>stored = schema_CURRENT\<close> views_of_log_events [of r1 r]
      by (simp add: raw_last_seq_def)
  qed
  have facts: "rw_events r' = rw_events r2 \<and> rw_schema r' = rw_schema r2 \<and> rw_view_seq r' = raw_last_seq r'
      \<and> views_of_log decode r' = Inr (rw_views r')"
    using fin settled views_of_log_events [of r' r2 decode]
    by (auto simp: raw_rebuild_views_eq result_simps raw_last_seq_def split: if_splits)
  obtain v' where "rw_schema r' = Some v'" "ucast v' = schema_CURRENT" using facts schema by auto
  then have "store_init decode r' = (Inr (), r')" using facts by (intro store_init_settled) simp_all
  moreover have "history_kept r r'" using kept facts by (simp add: history_kept_def)
  ultimately show ?thesis using facts schema by simp
qed

definition legacy_decode :: "raw_stored_event \<Rightarrow> event option" where
  "legacy_decode stored =
     (if Option.bind (body_field ''targets'' (re_event stored)) json_type = Some ''Unknown''
      then Some \<lparr>ev_seq = 1, ev_ts = 5, ev_author = Author_Human ''ada'' ''m'', ev_client_id = ClientId (Ulid 9 9),
        ev_client_seq = 1,
        ev_body = ReviewRequested (ReviewId (Ulid 2 2)) ''bot'' [] Requested_Unknown Comparison_Unknown\<rparr>
      else None)"

theorem store_init_consistent_witness:
  "\<exists>r'. store_init legacy_decode (legacy_store legacy_request) = (Inr (), r')
     \<and> map_option ucast (rw_schema r') = Some schema_CURRENT \<and> rw_view_seq r' = Some 1
     \<and> views_of_log legacy_decode r' = Inr (rw_views r') \<and> history_kept (legacy_store legacy_request) r'"
proof -
  let ?run = "store_init legacy_decode (legacy_store legacy_request)"
  have "fst ?run = Inr () \<and> rw_view_seq (snd ?run) = Some 1 \<and> fst (raw_ensure (legacy_store legacy_request)) \<noteq> schema_CURRENT"
    by code_simp
  then show ?thesis
    using store_init_consistent [of legacy_decode "legacy_store legacy_request" "snd ?run"]
    by (metis prod.collapse)
qed

end
