(* ===== verification/Nits_Reference.thy ===== *)
theory Nits_Reference
  imports Nits_Texts Nits_Store_Views
begin

text \<open>
  Portable references to reviews, threads and comments, \<open>crates/nits-protocol/src/reference.rs\<close>: the
  percent encoding of a context, parsing and printing of a reference, and its resolution against a
  snapshot. The text of a ULID belongs to the \<open>ulid\<close> crate: printing and parsing it are the two
  fields of \<open>ulid_text\<close>, and what the round trip relies on is stated as \<open>ulid_text_ok\<close>.
\<close>

section \<open>Percent encoding\<close>

datatype reference_error =
    Ref_Malformed
  | Ref_WrongReview
  | Ref_Missing
  | Ref_Deleted

definition is_unreserved :: "char \<Rightarrow> bool" where
  "is_unreserved c \<longleftrightarrow> is_alphanumeric c \<or> c \<in> {CHR ''-'', CHR ''_'', CHR ''.'', CHR ''~''}"

definition upper_hex :: "nat \<Rightarrow> char" where
  "upper_hex n = ''0123456789ABCDEF'' ! n"

definition encode_byte :: "char \<Rightarrow> string" where
  "encode_byte c =
     (if is_unreserved c then [c]
      else [CHR ''%'', upper_hex (of_char c div 16), upper_hex (of_char c mod 16)])"

definition percent_encode :: "string \<Rightarrow> string" where
  "percent_encode value = concat (map encode_byte value)"

definition to_digit16 :: "char \<Rightarrow> nat option" where
  "to_digit16 c = map_option unat (hex_val (byte_of c))"

fun decode_bytes :: "string \<Rightarrow> (reference_error, string) result" where
  "decode_bytes [] = Inr []"
| "decode_bytes (b # bs) =
     (if b = CHR ''%''
      then case bs of
             h # l # rest \<Rightarrow>
               bindR (ok_or Ref_Malformed (to_digit16 h)) (\<lambda>hv.
               bindR (ok_or Ref_Malformed (to_digit16 l)) (\<lambda>lv.
               bindR (decode_bytes rest) (\<lambda>out. Inr (char_of (hv * 16 + lv) # out))))
           | _ \<Rightarrow> Inl Ref_Malformed
      else if is_unreserved b then bindR (decode_bytes bs) (\<lambda>out. Inr (b # out))
      else Inl Ref_Malformed)"

definition percent_decode :: "string \<Rightarrow> (reference_error, string) result" where
  "percent_decode value =
     bindR (decode_bytes value) (\<lambda>out. if well_formed out then Inr out else Inl Ref_Malformed)"

section \<open>Contexts\<close>

datatype reference_context = ReferenceContext (context_str: string)

datatype reference_locator =
    Locator_Named string
  | Locator_Socket string
  | Locator_WebSocket string

definition context_value_ok :: "string \<Rightarrow> string \<Rightarrow> bool" where
  "context_value_ok kind decoded \<longleftrightarrow>
     \<not> (decoded = [] \<or> str_trim decoded \<noteq> decoded \<or> any_scalar is_control decoded)
     \<and> \<not> (kind = ''socket'' \<and> \<not> starts_with ''/'' decoded
          \<or> kind = ''websocket'' \<and> \<not> (starts_with ''ws://'' decoded \<or> starts_with ''wss://'' decoded))"

definition context_from_str :: "string \<Rightarrow> (reference_error, reference_context) result" where
  "context_from_str s =
     bindR (ok_or Ref_Malformed (split_once ''/'' s)) (\<lambda>(kind, value).
       if kind \<notin> {''context'', ''socket'', ''websocket''} then Inl Ref_Malformed
       else bindR (percent_decode value) (\<lambda>decoded.
         if \<not> context_value_ok kind decoded then Inl Ref_Malformed
         else Inr (ReferenceContext (kind @ ''/'' @ percent_encode decoded))))"

definition context_new :: "string \<Rightarrow> string \<Rightarrow> (reference_error, reference_context) result" where
  "context_new kind value = context_from_str (kind @ ''/'' @ percent_encode value)"

definition context_named :: "string \<Rightarrow> (reference_error, reference_context) result" where
  "context_named name = context_new ''context'' name"

definition context_socket :: "string \<Rightarrow> (reference_error, reference_context) result" where
  "context_socket path = context_new ''socket'' path"

definition context_websocket :: "string \<Rightarrow> (reference_error, reference_context) result" where
  "context_websocket url = context_new ''websocket'' url"

definition context_locator :: "reference_context \<Rightarrow> (reference_error, reference_locator) result" where
  "context_locator c =
     bindR (ok_or Ref_Malformed (split_once ''/'' (context_str c))) (\<lambda>(kind, value).
     bindR (percent_decode value) (\<lambda>v.
       if kind = ''context'' then Inr (Locator_Named v)
       else if kind = ''socket'' then Inr (Locator_Socket v)
       else if kind = ''websocket'' then Inr (Locator_WebSocket v)
       else Inl Ref_Malformed))"

section \<open>References\<close>

datatype reference_target =
    Target_Review
  | Target_Thread thread_id
  | Target_Comment comment_id

record review_reference =
  rf_context :: reference_context
  rf_review_id :: review_id
  rf_target :: reference_target

record ulid_text =
  ut_show :: "ulid \<Rightarrow> string"
  ut_parse :: "string \<Rightarrow> ulid option"

definition reference_display :: "ulid_text \<Rightarrow> review_reference \<Rightarrow> string" where
  "reference_display T r =
     ''nits://'' @ context_str (rf_context r) @ ''/review/'' @ ut_show T (review_key (rf_review_id r)) @
     (case rf_target r of
        Target_Review \<Rightarrow> []
      | Target_Thread th \<Rightarrow> ''/thread/'' @ ut_show T (thread_key th)
      | Target_Comment c \<Rightarrow> ''/comment/'' @ ut_show T (comment_key c))"

definition target_from_parts :: "ulid_text \<Rightarrow> string list \<Rightarrow> (reference_error, reference_target) result" where
  "target_from_parts T parts =
     (if length parts = 4 then Inr Target_Review
      else if parts ! 4 = ''thread''
      then bindR (ok_or Ref_Malformed (ut_parse T (parts ! 5))) (\<lambda>u. Inr (Target_Thread (ThreadId u)))
      else if parts ! 4 = ''comment''
      then bindR (ok_or Ref_Malformed (ut_parse T (parts ! 5))) (\<lambda>u. Inr (Target_Comment (CommentId u)))
      else Inl Ref_Malformed)"

definition reference_from_str :: "ulid_text \<Rightarrow> string \<Rightarrow> (reference_error, review_reference) result" where
  "reference_from_str T s =
     (if length s > 16384 then Inl Ref_Malformed
      else
        bindR (ok_or Ref_Malformed (strip_prefix ''nits://'' s)) (\<lambda>rest.
          let parts = split_on (CHR ''/'') rest in
          if length parts \<noteq> 4 \<and> length parts \<noteq> 6 then Inl Ref_Malformed
          else if parts ! 2 \<noteq> ''review'' then Inl Ref_Malformed
          else
            bindR (context_from_str (parts ! 0 @ ''/'' @ parts ! 1)) (\<lambda>ctx.
            bindR (ok_or Ref_Malformed (ut_parse T (parts ! 3))) (\<lambda>review.
            bindR (target_from_parts T parts) (\<lambda>target.
              Inr \<lparr>rf_context = ctx, rf_review_id = ReviewId review, rf_target = target\<rparr>)))))"

definition browser_query :: "ulid_text \<Rightarrow> review_reference \<Rightarrow> string" where
  "browser_query T r = ''?reference='' @ percent_encode (reference_display T r)"

definition reference_resolve :: "review_reference \<Rightarrow> review_snapshot \<Rightarrow> (reference_error, comment_id option) result" where
  "reference_resolve r snapshot =
     (if rv_id (sn_review snapshot) \<noteq> rf_review_id r then Inl Ref_WrongReview
      else
        let live = (\<lambda>comment_id.
              bindR (ok_or Ref_Missing (find (\<lambda>c. cm_id c = comment_id) (sn_comments snapshot))) (\<lambda>comment.
              if cm_state comment = State_Deleted then Inl Ref_Deleted
              else
                bindR (ok_or Ref_Missing (find (\<lambda>t. th_id t = cm_thread_id comment) (sn_threads snapshot))) (\<lambda>thread.
                bindR (ok_or Ref_Missing (find (\<lambda>c. cm_id c = th_root thread) (sn_comments snapshot))) (\<lambda>root.
                if cm_state root = State_Deleted then Inl Ref_Deleted
                else Inr (Some comment_id)))))
        in case rf_target r of
             Target_Review \<Rightarrow> Inr None
           | Target_Thread th \<Rightarrow>
               bindR (ok_or Ref_Missing (find (\<lambda>t. th_id t = th) (sn_threads snapshot))) (\<lambda>t. live (th_root t))
           | Target_Comment c \<Rightarrow> live c)"

section \<open>Encoding is inverted by decoding\<close>

lemma upper_hex_facts:
  assumes "n < 16"
  shows "to_digit16 (upper_hex n) = Some n" "upper_hex n \<noteq> CHR ''/''"
proof -
  have "\<forall>n\<in>set [0..<16]. to_digit16 (upper_hex n) = Some n \<and> upper_hex n \<noteq> CHR ''/''" by code_simp
  then show "to_digit16 (upper_hex n) = Some n" "upper_hex n \<noteq> CHR ''/''" using assms by simp_all
qed

lemma char_nibbles:
  "(of_char c :: nat) div 16 < 16" "(of_char c :: nat) mod 16 < 16"
proof -
  have "(of_char c :: nat) < 256" by (metis of_char_mod_256 mod_less_divisor zero_less_numeral)
  then show "(of_char c :: nat) div 16 < 16" by (intro less_mult_imp_div_less) simp
qed simp

lemma decode_encode: "decode_bytes (percent_encode v) = Inr v"
proof (induction v)
  case Nil
  show ?case by (simp add: percent_encode_def)
next
  case (Cons c v)
  have enc: "percent_encode (c # v) = encode_byte c @ percent_encode v" by (simp add: percent_encode_def)
  show ?case
  proof (cases "is_unreserved c")
    case True
    then have "c \<noteq> CHR ''%''" by (auto simp: is_unreserved_def is_alphanumeric_def byte_in_def)
    then show ?thesis using True Cons.IH by (simp add: enc encode_byte_def)
  next
    case False
    have "of_char c div 16 * 16 + of_char c mod 16 = (of_char c :: nat)" by simp
    then have "char_of ((of_char c :: nat) div 16 * 16 + of_char c mod 16) = c" by (simp only: char_of_char)
    then show ?thesis using False Cons.IH by (simp add: enc encode_byte_def upper_hex_facts char_nibbles)
  qed
qed

lemma percent_decode_encode: "well_formed v \<Longrightarrow> percent_decode (percent_encode v) = Inr v"
  by (simp add: percent_decode_def decode_encode)

lemma encode_no_slash: "CHR ''/'' \<notin> set (percent_encode v)"
proof -
  have "CHR ''/'' \<notin> set (encode_byte c)" for c
    using upper_hex_facts(2) [OF char_nibbles(1) [of c]] upper_hex_facts(2) [OF char_nibbles(2) [of c]]
    by (auto simp: encode_byte_def is_unreserved_def is_alphanumeric_def byte_in_def)
  then show ?thesis by (auto simp: percent_encode_def)
qed

section \<open>References read back\<close>

lemma split_once_first: "c \<notin> set xs \<Longrightarrow> split_once [c] (xs @ c # ys) = Some (xs, ys)"
  by (induction xs) auto

definition context_kinds :: "string set" where
  "context_kinds = {''context'', ''socket'', ''websocket''}"

lemma kind_no_slash: "kind \<in> context_kinds \<Longrightarrow> CHR ''/'' \<notin> set kind"
  by (auto simp: context_kinds_def)

lemma context_from_parts:
  assumes "kind \<in> context_kinds" "well_formed v"
  shows "context_from_str (kind @ ''/'' @ percent_encode v) =
    (if context_value_ok kind v then Inr (ReferenceContext (kind @ ''/'' @ percent_encode v)) else Inl Ref_Malformed)"
  using assms split_once_first [OF kind_no_slash [OF assms(1)], of "percent_encode v"]
  by (auto simp: context_from_str_def percent_decode_encode context_kinds_def)

lemma context_from_str_Inr:
  assumes "context_from_str s = Inr ctx"
  shows "\<exists>kind v. kind \<in> context_kinds \<and> well_formed v \<and> context_value_ok kind v
    \<and> ctx = ReferenceContext (kind @ ''/'' @ percent_encode v)"
  using assms
  by (auto simp: context_from_str_def percent_decode_def context_kinds_def result_simps split: if_splits prod.splits)

definition ulid_text_ok :: "ulid_text \<Rightarrow> bool" where
  "ulid_text_ok T \<longleftrightarrow> (\<forall>u. ut_parse T (ut_show T u) = Some u \<and> CHR ''/'' \<notin> set (ut_show T u))"

lemma parts_of_reference:
  assumes "kind \<in> context_kinds" "CHR ''/'' \<notin> set a"
  shows "split_on (CHR ''/'') ((kind @ ''/'' @ percent_encode v) @ ''/review/'' @ a) = [kind, percent_encode v, ''review'', a]"
    and "CHR ''/'' \<notin> set b \<Longrightarrow> CHR ''/'' \<notin> set w \<Longrightarrow>
      split_on (CHR ''/'') ((kind @ ''/'' @ percent_encode v) @ ''/review/'' @ a @ ''/'' @ w @ ''/'' @ b)
        = [kind, percent_encode v, ''review'', a, w, b]"
proof -
  have eqs: "(kind @ ''/'' @ percent_encode v) @ ''/review/'' @ a = join_with (CHR ''/'') [kind, percent_encode v, ''review'', a]"
    "(kind @ ''/'' @ percent_encode v) @ ''/review/'' @ a @ ''/'' @ w @ ''/'' @ b
      = join_with (CHR ''/'') [kind, percent_encode v, ''review'', a, w, b]" by simp_all
  show "split_on (CHR ''/'') ((kind @ ''/'' @ percent_encode v) @ ''/review/'' @ a) = [kind, percent_encode v, ''review'', a]"
    unfolding eqs(1) using assms kind_no_slash encode_no_slash by (intro split_join_with) auto
  show "split_on (CHR ''/'') ((kind @ ''/'' @ percent_encode v) @ ''/review/'' @ a @ ''/'' @ w @ ''/'' @ b)
        = [kind, percent_encode v, ''review'', a, w, b]" if "CHR ''/'' \<notin> set b" "CHR ''/'' \<notin> set w"
    unfolding eqs(2) using assms that kind_no_slash encode_no_slash by (intro split_join_with) auto
qed

text \<open>
  C33: A printed reference reads back as itself: with a context that was parsed or built by the
  constructors, and up to the length the parser admits, printing a reference and parsing the text
  gives the same context, review and target; the context's locator is the value it was made from, with
  the kind of the constructor that makes it: a name, a socket or a WebSocket address.
\<close>

theorem reference_roundtrip:
  assumes "ulid_text_ok T" "context_from_str s = Inr (rf_context r)" "length (reference_display T r) \<le> 16384"
  shows "reference_from_str T (reference_display T r) = Inr r
    \<and> context_from_str (context_str (rf_context r)) = Inr (rf_context r)
    \<and> (\<exists>v. context_locator (rf_context r) = Inr (Locator_Named v) \<and> context_named v = Inr (rf_context r)
         \<or> context_locator (rf_context r) = Inr (Locator_Socket v) \<and> context_socket v = Inr (rf_context r)
         \<or> context_locator (rf_context r) = Inr (Locator_WebSocket v) \<and> context_websocket v = Inr (rf_context r))"
proof -
  obtain kind v where kv: "kind \<in> context_kinds" "well_formed v" "context_value_ok kind v"
    "rf_context r = ReferenceContext (kind @ ''/'' @ percent_encode v)"
    using context_from_str_Inr [OF assms(2)] by blast
  note ctx = context_from_parts [OF kv(1,2)]
  let ?u = "ut_show T (review_key (rf_review_id r))"
  have show_ok: "ut_parse T (ut_show T u) = Some u" "CHR ''/'' \<notin> set (ut_show T u)" for u
    using assms(1) by (simp_all add: ulid_text_ok_def)
  note parts = parts_of_reference [OF kv(1) show_ok(2)]
  have "reference_from_str T (reference_display T r) = Inr r"
  proof (cases "rf_target r")
    case Target_Review
    then show ?thesis using assms(3) ctx kv(3,4) parts(1) show_ok
      by (cases r) (simp add: reference_from_str_def reference_display_def target_from_parts_def)
  next
    case (Target_Thread th)
    then show ?thesis using assms(3) ctx kv(3,4) parts(2) [of _ "''thread''"] show_ok
      by (cases r) (simp add: reference_from_str_def reference_display_def target_from_parts_def)
  next
    case (Target_Comment c)
    then show ?thesis using assms(3) ctx kv(3,4) parts(2) [of _ "''comment''"] show_ok
      by (cases r) (simp add: reference_from_str_def reference_display_def target_from_parts_def)
  qed
  moreover have made: "context_new kind v = Inr (rf_context r)" using ctx kv(3,4) by (simp add: context_new_def)
  moreover have "split_once ''/'' (context_str (rf_context r)) = Some (kind, percent_encode v)"
    using kv(4) split_once_first [OF kind_no_slash [OF kv(1)], of "percent_encode v"] by simp
  note read = this percent_decode_encode [OF kv(2)]
  consider "kind = ''context''" | "kind = ''socket''" | "kind = ''websocket''"
    using kv(1) by (auto simp: context_kinds_def)
  then have "context_locator (rf_context r) = Inr (Locator_Named v) \<and> context_named v = Inr (rf_context r)
      \<or> context_locator (rf_context r) = Inr (Locator_Socket v) \<and> context_socket v = Inr (rf_context r)
      \<or> context_locator (rf_context r) = Inr (Locator_WebSocket v) \<and> context_websocket v = Inr (rf_context r)"
  proof cases
    case 1
    then show ?thesis using made by (simp add: context_locator_def read context_named_def)
  next
    case 2
    then show ?thesis using made by (simp add: context_locator_def read context_socket_def)
  next
    case 3
    then show ?thesis using made by (simp add: context_locator_def read context_websocket_def)
  qed
  ultimately show ?thesis using ctx kv(3,4) by (auto simp: context_new_def)
qed

text \<open>A concrete text for ULIDs with the two properties: both parts in decimal.\<close>

definition plain_ulids :: ulid_text where
  "plain_ulids =
     \<lparr>ut_show = (\<lambda>u. nat_digits (unat (ulid_timestamp_ms u)) @ ''-'' @ nat_digits (unat (ulid_random u))),
      ut_parse = (\<lambda>s. map_option (\<lambda>(a, b). Ulid (of_nat (decimal 0 a)) (of_nat (decimal 0 b))) (split_once ''-'' s))\<rparr>"

lemma plain_ulids_ok: "ulid_text_ok plain_ulids"
proof -
  have "CHR ''-'' \<notin> set (nat_digits n)" "CHR ''/'' \<notin> set (nat_digits n)" for n
    using nat_digits_digits(1) [of n] by (auto simp: list_all_iff ascii_digit_def)
  then show ?thesis
    by (simp add: ulid_text_ok_def plain_ulids_def split_once_first decimal_nat_digits)
qed

definition sample_reference :: review_reference where
  "sample_reference =
     \<lparr>rf_context = ReferenceContext ''context/my%20team'', rf_review_id = ReviewId (Ulid 2 2),
      rf_target = Target_Thread (ThreadId (Ulid 4 4))\<rparr>"

theorem reference_roundtrip_witness:
  "reference_display plain_ulids sample_reference = ''nits://context/my%20team/review/2-2/thread/4-4''
   \<and> reference_from_str plain_ulids (reference_display plain_ulids sample_reference) = Inr sample_reference"
proof -
  have shown: "reference_display plain_ulids sample_reference = ''nits://context/my%20team/review/2-2/thread/4-4''"
    by code_simp
  have "context_from_str ''context/%6dy%20team'' = Inr (rf_context sample_reference)" by code_simp
  from reference_roundtrip [OF plain_ulids_ok this] show ?thesis by (simp add: shown)
qed

section \<open>Resolution\<close>

definition comment_deleted :: "store \<Rightarrow> review_id \<Rightarrow> comment_id \<Rightarrow> bool" where
  "comment_deleted s review c \<longleftrightarrow>
     (case store_comment s review c of None \<Rightarrow> False | Some cm \<Rightarrow> cm_state cm = State_Deleted)"

lemma snapshot_rows:
  assumes "snapshot_in_transaction s review = Some sn"
  shows "sn_comments sn = rows_of review (v_comments (st_views s))" "sn_threads sn = rows_of review (v_threads (st_views s))"
    "store_review s review = Some rec \<Longrightarrow> sn_review sn = rec_review rec" "store_review s review \<noteq> None"
  using assms by (auto simp: snapshot_in_transaction_def store_review_def Let_def
      split: option.splits review_lifecycle.splits)

lemma thread_root_comment:
  assumes ok: "refs_ok (st_views s)" and cm: "store_comment s review c = Some cm"
  shows "\<exists>th root. tbl_get (v_threads (st_views s)) (review_key review, thread_key (cm_thread_id cm)) = Some th
    \<and> th_root th = CommentId (thread_key (cm_thread_id cm))
    \<and> store_comment s review (CommentId (thread_key (cm_thread_id cm))) = Some root"
proof -
  have keys: "keys_ok (st_views s)" using ok by (simp add: refs_ok_def)
  have "cm \<in> set (rows_of review (v_comments (st_views s)))" using cm by (auto simp: store_comment_def rows_of_iff)
  then obtain th where th: "th \<in> set (rows_of review (v_threads (st_views s)))" "th_id th = cm_thread_id cm"
    using thread_of_comment [OF ok] by blast
  then obtain k where k: "tbl_get (v_threads (st_views s)) (review_key review, k) = Some th" by (auto simp: rows_of_iff)
  then have key: "k = thread_key (cm_thread_id cm)" using keys_okD(5) [OF keys k] th(2) by simp
  have "comment_key (th_root th) = thread_key (cm_thread_id cm)" using comments_of_thread(1) [OF ok th(1)] th(2) by simp
  then have root: "th_root th = CommentId (thread_key (cm_thread_id cm))" by (metis comment_id.collapse)
  moreover obtain cm' where "store_comment s review (th_root th) = Some cm'"
    using comments_of_thread(2) [OF ok th(1), of "th_root th"] by (auto simp: store_comment_def)
  ultimately show ?thesis using k key by auto
qed

lemma thread_row_root:
  assumes ok: "refs_ok (st_views s)" and row: "tbl_get (v_threads (st_views s)) (review_key review, thread_key th) = Some t"
  shows "th_root t = CommentId (thread_key th)
    \<and> (\<exists>cm. store_comment s review (CommentId (thread_key th)) = Some cm \<and> cm_thread_id cm = th)"
proof -
  have keys: "keys_ok (st_views s)" using ok by (simp add: refs_ok_def)
  have mem: "t \<in> set (rows_of review (v_threads (st_views s)))" using row by (auto simp: rows_of_iff)
  have "thread_key (th_id t) = thread_key th" using keys_okD(5) [OF keys row] by simp
  then have "th_id t = th" by (rule thread_id.expand)
  then have "th_root t = CommentId (thread_key th)"
    using comments_of_thread(1) [OF ok mem] by (metis comment_id.collapse)
  then show ?thesis
    using comments_of_thread(2) [OF ok mem, of "th_root t"] \<open>th_id t = th\<close> by (auto simp: store_comment_def)
qed

text \<open>
  On a snapshot of a store the service can reach, resolving a reference never fails for a
  dangling thread or root. A reference to another review is rejected; one to the review selects no
  comment; one to a thread selects its root, whose id is the thread's, unless there is no such
  thread or the root is deleted; one to a comment selects it, unless it is missing, deleted, or in
  a thread whose root is deleted.
\<close>

lemma reference_resolve_exact:
  assumes "reachable_by validated s" "store_len s < 2 ^ 64 - 1" "snapshot_in_transaction s review = Some sn"
  shows "reference_resolve r sn =
    (if rf_review_id r \<noteq> review then Inl Ref_WrongReview
     else case rf_target r of
       Target_Review \<Rightarrow> Inr None
     | Target_Thread th \<Rightarrow>
         (case tbl_get (v_threads (st_views s)) (review_key review, thread_key th) of
            None \<Rightarrow> Inl Ref_Missing
          | Some _ \<Rightarrow>
              if comment_deleted s review (CommentId (thread_key th)) then Inl Ref_Deleted
              else Inr (Some (CommentId (thread_key th))))
     | Target_Comment c \<Rightarrow>
         (case store_comment s review c of
            None \<Rightarrow> Inl Ref_Missing
          | Some cm \<Rightarrow>
              if comment_deleted s review c \<or> comment_deleted s review (CommentId (thread_key (cm_thread_id cm)))
              then Inl Ref_Deleted else Inr (Some c)))"
proof -
  have ok: "refs_ok (st_views s)" by (rule references.reachable_inv [OF assms(1,2)])
  then have keys: "keys_ok (st_views s)" by (simp add: refs_ok_def)
  note rows = snapshot_rows [OF assms(3)]
  obtain rec where rec: "store_review s review = Some rec" using rows(4) by blast
  have own: "rv_id (sn_review sn) = review"
    using rows(3) [OF rec] keys_okD(2) [OF keys, of "review_key review" rec] rec
    by (auto simp: store_review_def intro: review_id.expand)
  let ?live = "\<lambda>c. bindR (ok_or Ref_Missing (find (\<lambda>x. cm_id x = c) (sn_comments sn))) (\<lambda>comment.
      if cm_state comment = State_Deleted then Inl Ref_Deleted
      else bindR (ok_or Ref_Missing (find (\<lambda>t. th_id t = cm_thread_id comment) (sn_threads sn))) (\<lambda>thread.
           bindR (ok_or Ref_Missing (find (\<lambda>x. cm_id x = th_root thread) (sn_comments sn))) (\<lambda>root.
           if cm_state root = State_Deleted then Inl Ref_Deleted else Inr (Some c))))"
  have live: "?live c = (case store_comment s review c of
      None \<Rightarrow> Inl Ref_Missing
    | Some cm \<Rightarrow> if comment_deleted s review c \<or> comment_deleted s review (CommentId (thread_key (cm_thread_id cm)))
        then Inl Ref_Deleted else Inr (Some c))" for c
  proof (cases "store_comment s review c")
    case None
    then show ?thesis by (simp add: rows(1) find_comment [OF keys] store_comment_def)
  next
    case (Some cm)
    then show ?thesis using thread_root_comment [OF ok Some]
      by (auto simp: rows(1,2) find_comment [OF keys] find_thread [OF keys] store_comment_def comment_deleted_def)
  qed
  have thread: "th_root t = CommentId (thread_key th)
      \<and> (\<exists>cm. store_comment s review (CommentId (thread_key th)) = Some cm \<and> cm_thread_id cm = th)"
    if "tbl_get (v_threads (st_views s)) (review_key review, thread_key th) = Some t" for th t
    using thread_row_root [OF ok that] by blast
  have resolve: "reference_resolve r sn =
      (if rf_review_id r \<noteq> review then Inl Ref_WrongReview
       else case rf_target r of Target_Review \<Rightarrow> Inr None
         | Target_Thread th \<Rightarrow> bindR (ok_or Ref_Missing (find (\<lambda>t. th_id t = th) (sn_threads sn))) (\<lambda>t. ?live (th_root t))
         | Target_Comment c \<Rightarrow> ?live c)"
    using own by (simp add: reference_resolve_def Let_def)
  show ?thesis
  proof (cases "rf_target r")
    case (Target_Thread th)
    show ?thesis
    proof (cases "tbl_get (v_threads (st_views s)) (review_key review, thread_key th)")
      case None
      then show ?thesis unfolding resolve Target_Thread by (simp add: rows(2) find_thread [OF keys])
    next
      case (Some t)
      then show ?thesis unfolding resolve live Target_Thread
        using thread [OF Some] by (auto simp: rows(2) find_thread [OF keys])
    qed
  qed (unfold resolve live, simp_all)
qed

end
