(* ===== verification/Nits_Request_Laws.thy ===== *)
theory Nits_Request_Laws
  imports Nits_Comment_Laws
begin

text \<open>
  Review requests: what a request captures, and the two operations on reviews that can leave
  an event behind although they report an error.
\<close>

section \<open>The latest checkpoint\<close>

lemma max_checkpoint_None: "max_checkpoint cps = None \<longleftrightarrow> cps = []"
  by (cases cps) (auto split: option.splits)

lemma max_checkpoint_Some:
  "max_checkpoint cps = Some cp \<Longrightarrow>
     cp \<in> set cps \<and> (\<forall>x\<in>set cps. checkpoint_event_seq (cp_id x) \<le> checkpoint_event_seq (cp_id cp))"
proof (induction cps arbitrary: cp)
  case (Cons x xs)
  then show ?case
    by (cases "max_checkpoint xs") (auto simp: max_checkpoint_None split: if_splits)
qed simp

section \<open>Requesting a review\<close>

lemma reanchor_review_keeps_requests:
  "preserves (\<lambda>s. v_requests (st_views s)) (reanchor_review E ctx review old new)"
  unfolding reanchor_review_def
  by (intro preserves_bindO preserves_reanchor_each preserves_append)
    (auto simp: preserves_readonly result_simps)

lemma record_resolved_keeps_requests:
  "preserves (\<lambda>s. v_requests (st_views s)) (record_resolved_targets E ctx rec resolved)"
proof -
  have "preserves (\<lambda>s. v_requests (st_views s)) (core_append ctx (ReviewTargetsResolved rid resolved))" for rid
    by (rule preserves_append) (auto simp: result_simps save_review_def)
  then show ?thesis
    unfolding record_resolved_targets_def
    by (auto simp: preserves_readonly reanchor_review_keeps_requests split: option.split intro!: preserves_bindO)
qed

text \<open>
  A review request captures the targets as Git resolves them at that moment and publishes the
  same resolution on the review; it is recorded under the id that was returned, by its caller,
  for the named agent, with the comparison against the review's checkpoint of the greatest id,
  if there is one.
\<close>

lemma request_captures_targets:
  assumes "reachable_by g (co_store c)"
    and "request_review E ctx review agent note c = (Inr qid, c')"
  shows "\<exists>rec targets cp. \<not> is_blank agent
    \<and> store_review (co_store c) review = Some rec \<and> is_live rec
    \<and> fst (resolve_review_targets E (rec_review rec) c) = Inr targets
    \<and> store_review (co_store c') review = Some (rec\<lparr>rec_resolved := Some targets\<rparr>)
    \<and> tbl_get (v_requests (st_views (co_store c'))) (review_key review, request_event_seq qid) =
        Some \<lparr>rq_id = qid, rq_review_id = review, rq_requester = cx_author ctx, rq_recipient = agent,
              rq_targets = Requested_Captured targets, rq_comparison = comparison_against cp targets,
              rq_note = note, rq_created = cx_now ctx\<rparr>
    \<and> (case cp of
         None \<Rightarrow> rows_of review (v_checkpoints (st_views (co_store c))) = []
       | Some latest \<Rightarrow> latest \<in> set (rows_of review (v_checkpoints (st_views (co_store c))))
           \<and> list_all (\<lambda>x. checkpoint_event_seq (cp_id x) \<le> checkpoint_event_seq (cp_id latest))
               (rows_of review (v_checkpoints (st_views (co_store c)))))"
proof -
  from assms(2) obtain rec targets c1 c2 sn e c3 changed where
    rec: "\<not> is_blank agent" "store_review (co_store c) review = Some rec" "is_live rec"
    and c1: "resolve_review_targets E (rec_review rec) c = (Inr targets, c1)"
    and c2: "retain_targets E review targets c1 = (Inr (), c2)"
    and sn: "store_review_snapshot (co_store c2) review = Some sn"
    and app: "core_append ctx (ReviewRequested review agent note (Requested_Captured targets)
              (comparison_against (max_checkpoint (sn_checkpoints sn)) targets)) c2 = (Inr e, c3)"
    and last: "record_resolved_targets E ctx rec targets c3 = (Inr changed, c')"
    and qid: "qid = ReviewRequestId (ev_seq e)"
    by (auto simp: request_review_def result_simps core_review_Inr core_review_snapshot_def split: if_splits)
  have st: "co_store c2 = co_store c"
    using readonlyD [OF readonly_resolve_review_targets c1] readonlyD [OF readonly_retain_targets c2] by simp
  let ?rq = "\<lparr>rq_id = qid, rq_review_id = review, rq_requester = cx_author ctx, rq_recipient = agent,
              rq_targets = Requested_Captured targets,
              rq_comparison = comparison_against (max_checkpoint (sn_checkpoints sn)) targets,
              rq_note = note, rq_created = cx_now ctx\<rparr>"
  have v3: "st_views (co_store c3) = (st_views (co_store c))\<lparr>v_requests :=
      tbl_insert (review_key review, request_event_seq qid) ?rq (v_requests (st_views (co_store c)))\<rparr>"
    using core_append_row [OF app] st by (auto simp: request_from_event_def qid)
  have id: "rv_id (rec_review rec) = review" by (rule reachable_review_id [OF assms(1) rec(2)])
  have "store_review (co_store c3) (rv_id (rec_review rec)) = Some rec"
    using rec(2) id by (simp add: store_review_def v3)
  from record_resolved_row [OF this last]
  have row: "store_review (co_store c') review = Some (rec\<lparr>rec_resolved := Some targets\<rparr>)" using id by simp
  have "v_requests (st_views (co_store c')) = v_requests (st_views (co_store c3))"
    using preservesD [OF record_resolved_keeps_requests last] .
  then have req: "tbl_get (v_requests (st_views (co_store c'))) (review_key review, request_event_seq qid) = Some ?rq"
    by (simp add: v3)
  have cps: "sn_checkpoints sn = rows_of review (v_checkpoints (st_views (co_store c)))"
    using sn st by (auto simp: store_review_snapshot_def snapshot_in_transaction_def Let_def
        split: option.splits review_lifecycle.splits)
  have "case max_checkpoint (sn_checkpoints sn) of
         None \<Rightarrow> rows_of review (v_checkpoints (st_views (co_store c))) = []
       | Some latest \<Rightarrow> latest \<in> set (rows_of review (v_checkpoints (st_views (co_store c))))
           \<and> list_all (\<lambda>x. checkpoint_event_seq (cp_id x) \<le> checkpoint_event_seq (cp_id latest))
               (rows_of review (v_checkpoints (st_views (co_store c))))"
    unfolding cps using max_checkpoint_None max_checkpoint_Some
    by (auto simp: list_all_iff split: option.split)
  then show ?thesis using rec row req c1 by auto
qed

section \<open>Errors that leave an event behind\<close>

lemma bindO_Inl_iff:
  "bindO m f c = (Inl e, c') \<longleftrightarrow> m c = (Inl e, c') \<or> (\<exists>x c1. m c = (Inr x, c1) \<and> f x c1 = (Inl e, c'))"
  by (auto simp: bindO_def split: sum.splits prod.splits)

lemma readonly_then:
  assumes "readonly m" "bindO m f c = (Inl e, c')"
  obtains "co_store c' = co_store c"
  | x c1 where "m c = (Inr x, c1)" "co_store c1 = co_store c" "f x c1 = (Inl e, c')"
  using assms readonlyD [OF assms(1)] by (auto simp: bindO_Inl_iff)

lemma core_append_failed: "core_append ctx body c = (Inl e, c') \<Longrightarrow> c' = c"
  by (auto simp: core_append_def split: sum.splits prod.splits)

lemma readonly_core_review_op: "readonly (core_review rid)"
  by auto

lemma first_resolution_fails:
  assumes "store_review (co_store c) rid = Some rec" "rec_resolved rec = None"
    and "resolve_targets E ctx rid c = (Inl e, c')"
  shows "co_store c' = co_store c"
  using assms(3) unfolding resolve_targets_def
proof (cases rule: readonly_then [OF readonly_core_review_op, consumes 1, case_names failed found])
  case (found rec' c1)
  then have c1: "c1 = c" "rec' = rec" using assms(1) by (auto simp: core_review_Inr)
  from found(3) show ?thesis
  proof (cases rule: readonly_then [OF readonly_resolve_review_targets, consumes 1, case_names failed found])
    case (found resolved c2)
    then have "record_resolved_targets E ctx rec resolved c2 = (Inl e, c')"
      using c1 by (auto simp: bindO_Inl_iff)
    then have "co_store c' = co_store c2" using assms(2)
      by (auto simp: record_resolved_targets_def bindO_Inl_iff result_simps
          dest!: readonlyD [OF readonly_retain_targets] core_append_failed)
    then show ?thesis using found c1 by simp
  qed (simp add: c1)
qed

text \<open>A call of \<open>create_review\<close> that fails leaves the store alone or, when only recording the
  first resolution failed, the new review without a resolution; the id is then taken.\<close>

lemma create_review_fails:
  assumes "create_review E ctx rid wid title targets c = (Inl e, c')"
  shows "co_store c' = co_store c
    \<or> (\<exists>rv. store_review (co_store c) rid = None \<and> rv_id rv = rid \<and> rv_workspace_id rv = wid \<and> rv_title rv = title
        \<and> ne_items (rv_targets rv) = targets
        \<and> store_review (co_store c') rid = Some \<lparr>rec_review = rv, rec_resolved = None, rec_lifecycle = Lifecycle_Live\<rparr>)"
proof -
  have lookups: "readonly (core_workspace w)" "readonly (forO (resolve_one E w) ts)"
    "readonly (forO (\<lambda>x. guardO (P x) (f x)) ys)" for w ts P f and ys :: "review_target list"
    by (auto intro!: readonly_forO)
  consider "co_store c' = co_store c"
    | parsed c1 x c2 where "create_targets_try_from_vec targets = Inr parsed" "store_review (co_store c1) rid = None"
      "co_store c1 = co_store c"
      "core_append ctx (ReviewCreated \<lparr>rv_id = rid, rv_workspace_id = wid, rv_title = title,
          rv_targets = as_targets parsed, rv_created = cx_now ctx, rv_status = Status_Open\<rparr>) c1 = (Inr x, c2)"
      "resolve_targets E ctx rid c2 = (Inl e, c')"
    using assms unfolding create_review_def Let_def bindO_Inl_iff
    by (elim disjE exE conjE)
      (auto simp: result_simps core_workspace_Inr split: if_splits prod.splits
        dest!: core_append_failed readonlyD [OF lookups(1)] readonlyD [OF lookups(2)] readonlyD [OF lookups(3)])
  then show ?thesis
  proof cases
    case (2 parsed c1 x c2)
    let ?rv = "\<lparr>rv_id = rid, rv_workspace_id = wid, rv_title = title,
        rv_targets = as_targets parsed, rv_created = cx_now ctx, rv_status = Status_Open\<rparr>"
    let ?rec = "\<lparr>rec_review = ?rv, rec_resolved = None, rec_lifecycle = Lifecycle_Live\<rparr>"
    have "store_review (co_store c2) rid = Some ?rec"
      using core_append_row [OF 2(4)] by (auto simp: store_review_def save_review_def)
    moreover from first_resolution_fails [OF this _ 2(5)] have "co_store c' = co_store c2" by simp
    moreover have "ne_items (rv_targets ?rv) = targets"
      using 2(1) by (auto simp: create_targets_try_from_vec_def create_targets_try_from_def ne_new_def result_simps split: if_splits)
    ultimately show ?thesis using 2(2,3) by (intro disjI2 exI [of _ ?rv]) simp
  qed blast
qed

text \<open>A checkout that resolves every revision but cannot pin one.\<close>

definition unpinned_env :: env where
  "unpinned_env = sample_env\<lparr>en_open := (\<lambda>path. Inr \<lparr>or_checkout = path,
     or_git = sample_git\<lparr>gr_retain_revision := (\<lambda>_ _. Inl (GitError ''locked''))\<rparr>\<rparr>)\<rparr>"

text \<open>The second case does occur: the preflight resolves every target, the review is created, and then the
  error of pinning is returned although the review now exists, so that repeating the call reports that it
  already exists.\<close>

lemma create_review_leaves_review:
  "map_prod (map_sum id (\<lambda>_. ())) (\<lambda>c. (store_review (co_store c) (ReviewId (Ulid 7 7)) \<noteq> None,
      map_sum id (\<lambda>_. ()) (fst (create_review sample_env sample_ctx (ReviewId (Ulid 7 7)) (WorkspaceId (Ulid 1 1)) ''u''
        [\<lparr>rt_repo_id = RepoId (Ulid 3 3), rt_base = RefSpec_Branch ''b'', rt_head = RefSpec_Head\<rparr>] c))))
     (create_review unpinned_env sample_ctx (ReviewId (Ulid 7 7)) (WorkspaceId (Ulid 1 1)) ''u''
        [\<lparr>rt_repo_id = RepoId (Ulid 3 3), rt_base = RefSpec_Branch ''b'', rt_head = RefSpec_Head\<rparr>]
        (sample_core\<lparr>co_opened := Map.empty\<rparr>))
   = (Inl (GitFailed (GitError ''locked'')), True, Inl (Invalid (ReviewExists (ReviewId (Ulid 7 7)))))"
  by code_simp

end
