(* ===== verification/Nits_Spans_Laws.thy ===== *)
theory Nits_Spans_Laws
  imports Nits_Spans Nits_Render_Laws
begin

text \<open>
  What the ranges within a line mean: the changed ranges of a pair of lines are separate, lie on token
  boundaries and leave the same text on both sides, and the spans of a highlighted line are in order.
\<close>

section \<open>Tokens\<close>

lemma utf8_scalars_nonempty: "x \<in> set (utf8_scalars s) \<Longrightarrow> x \<noteq> []"
  by (induction s rule: utf8_scalars.induct)
    (auto simp: utf8_step_def replacement_def split: prod.splits option.splits if_splits)

text \<open>The byte position of a token.\<close>

definition pos :: "string list \<Rightarrow> nat \<Rightarrow> nat" where
  "pos T k = length (concat (take k T))"

lemma pos_0 [simp]: "pos T 0 = 0"
  by (simp add: pos_def)

lemma pos_all: "length T \<le> k \<Longrightarrow> pos T k = length (concat T)"
  by (simp add: pos_def)

lemma pos_Suc: "k < length T \<Longrightarrow> pos T (Suc k) = pos T k + length (T ! k)"
  by (simp add: pos_def take_Suc_conv_app_nth)

lemma pos_mono: "j \<le> k \<Longrightarrow> pos T j \<le> pos T k"
  unfolding pos_def by (metis le_add1 le_add_diff_inverse length_append concat_append take_add)

lemma pos_split: "j \<le> k \<Longrightarrow> pos T k = pos T j + length (concat (take (k - j) (drop j T)))"
  unfolding pos_def by (metis concat_append le_add_diff_inverse length_append take_add)

lemma pos_less: "j < k \<Longrightarrow> k \<le> length T \<Longrightarrow> [] \<notin> set T \<Longrightarrow> pos T j < pos T k"
proof -
  assume jk: "j < k" "k \<le> length T" "[] \<notin> set T"
  then have "T ! j \<noteq> []" by (metis less_le_trans nth_mem)
  then have "pos T j < pos T (Suc j)" using jk by (simp add: pos_Suc)
  also have "\<dots> \<le> pos T k" using jk by (intro pos_mono) simp
  finally show ?thesis .
qed

lemma tokens_from_laid:
  "[] \<notin> set cs \<Longrightarrow> st + length (concat cs) < 2 ^ 32 \<Longrightarrow>
   concat (map tk_text (tokens_from alnum st cs)) = concat cs \<and> [] \<notin> set (map tk_text (tokens_from alnum st cs))
   \<and> (\<forall>k<length (tokens_from alnum st cs).
       unat (tk_start (tokens_from alnum st cs ! k)) = st + pos (map tk_text (tokens_from alnum st cs)) k
       \<and> unat (tk_end (tokens_from alnum st cs ! k)) = st + pos (map tk_text (tokens_from alnum st cs)) (Suc k))"
proof (induction alnum st cs rule: tokens_from.induct)
  case (2 alnum st c cs)
  let ?rest = "token_rest alnum c cs"
  let ?text = "concat (c # ?rest)"
  let ?cs = "drop (length ?rest) cs"
  let ?ts = "tokens_from alnum (st + length ?text) ?cs"
  have cs: "concat (c # cs) = ?text @ concat ?cs"
    using arg_cong [OF token_rest_split [of cs alnum c], of concat] by simp
  have "[] \<notin> set ?cs" using "2.prems"(1) by (auto dest: in_set_dropD)
  then have IH: "concat (map tk_text ?ts) = concat ?cs" "[] \<notin> set (map tk_text ?ts)"
    "\<forall>k<length ?ts. unat (tk_start (?ts ! k)) = st + length ?text + pos (map tk_text ?ts) k
       \<and> unat (tk_end (?ts ! k)) = st + length ?text + pos (map tk_text ?ts) (Suc k)"
    using "2.IH" [OF refl] "2.prems"(2) unfolding cs by simp_all
  have u: "unat (to_u32 st) = st" "unat (to_u32 (st + length ?text)) = st + length ?text"
    using "2.prems"(2) unfolding cs by (simp_all add: unat_to_u32)
  have "pos (?text # xs) (Suc k) = length ?text + pos xs k" for xs k by (simp add: pos_def)
  then show ?case using IH u cs "2.prems"(1)
    by (auto simp: Let_def nth_Cons less_Suc_eq_0_disj split: nat.split)
qed simp

section \<open>Covered bytes\<close>

definition covered :: "col_range list \<Rightarrow> nat \<Rightarrow> bool" where
  "covered out i \<longleftrightarrow> (\<exists>r\<in>set out. unat (col_start r) \<le> i \<and> i < unat (col_end r))"

text \<open>Ranges that are nonempty, ascend, do not touch each other and end by \<open>p\<close>.\<close>

definition ranges_ok :: "col_range list \<Rightarrow> nat \<Rightarrow> bool" where
  "ranges_ok out p \<longleftrightarrow> sorted_wrt (\<lambda>r r'. col_end r < col_start r') out
     \<and> (\<forall>r\<in>set out. col_start r < col_end r \<and> unat (col_end r) \<le> p)"

definition laid :: "tok list \<Rightarrow> bool" where
  "laid toks \<longleftrightarrow> [] \<notin> set (map tk_text toks) \<and> (\<forall>k<length toks.
     unat (tk_start (toks ! k)) = pos (map tk_text toks) k \<and> unat (tk_end (toks ! k)) = pos (map tk_text toks) (Suc k))"

lemma push_range_spec:
  assumes laid: "laid toks" and se: "s \<le> e" "e \<le> length toks"
    and ok: "ranges_ok out (pos (map tk_text toks) s)"
  shows "ranges_ok (push_range toks out s e) (pos (map tk_text toks) e)
    \<and> (\<forall>i. covered (push_range toks out s e) i \<longleftrightarrow>
         covered out i \<or> pos (map tk_text toks) s \<le> i \<and> i < pos (map tk_text toks) e)"
proof (cases "s < e")
  case False
  then show ?thesis using se ok by (auto simp: push_range_def)
next
  case True
  let ?p = "pos (map tk_text toks)"
  let ?s = "tk_start (toks ! s)"
  let ?e = "tk_end (toks ! (e - Suc 0))"
  have us: "unat ?s = ?p s" "unat ?e = ?p e"
    using laid True se(2) by (simp_all add: laid_def)
  have lt: "?p s < ?p e" using pos_less [of s e "map tk_text toks"] laid True se(2) by (simp add: laid_def)
  then have se': "?s < ?e" unfolding word_less_nat_alt us by this
  show ?thesis
  proof (cases "out \<noteq> [] \<and> col_end (last out) = ?s")
    case merge: True
    then obtain xs r where out: "out = xs @ [r]" "col_end r = ?s" by (metis append_butlast_last_id)
    have r: "col_start r < ?s" using ok by (simp add: ranges_ok_def out)
    then have "is_ok (col_new (col_start (last out)) ?e)" using se' by (simp add: col_new_def out)
    then have push: "push_range toks out s e = xs @ [ColRange (col_start r) ?e]"
      using True merge by (simp add: push_range_def Let_def out)
    have "ranges_ok (xs @ [ColRange (col_start r) ?e]) (?p e)"
      using ok r se' lt us by (auto simp: ranges_ok_def out sorted_wrt_append)
    moreover have "covered (xs @ [ColRange (col_start r) ?e]) i \<longleftrightarrow> covered out i \<or> ?p s \<le> i \<and> i < ?p e" for i
      using r us lt by (auto simp: covered_def out word_less_nat_alt)
    ultimately show ?thesis by (simp add: push)
  next
    case False
    then have push: "push_range toks out s e = out @ [ColRange ?s ?e]"
      using True se' by (auto simp: push_range_def Let_def col_new_def)
    have "col_end r < ?s" if "r \<in> set out" for r
    proof -
      have "col_end (last out) \<noteq> ?s" "out \<noteq> []" using False that by auto
      moreover have "unat (col_end (last out)) \<le> ?p s" using ok \<open>out \<noteq> []\<close> by (simp add: ranges_ok_def)
      ultimately have last: "col_end (last out) < ?s" using us(1)
        by (simp add: word_less_nat_alt word_unat_eq_iff)
      show ?thesis
      proof (cases "r = last out")
        case False
        then have "r \<in> set (butlast out)" using that \<open>out \<noteq> []\<close> by (metis append_butlast_last_id rotate1.simps(2) set_ConsD set_rotate1)
        moreover have "sorted_wrt (\<lambda>r r'. col_end r < col_start r') (butlast out @ [last out])"
          using ok \<open>out \<noteq> []\<close> by (simp add: ranges_ok_def)
        ultimately have "col_end r < col_start (last out)" by (simp add: sorted_wrt_append)
        also have "col_start (last out) < col_end (last out)" using ok \<open>out \<noteq> []\<close> by (simp add: ranges_ok_def)
        finally show ?thesis using last by simp
      qed (use last in simp)
    qed
    then have "ranges_ok (out @ [ColRange ?s ?e]) (?p e)"
      using ok se' lt us by (auto simp: ranges_ok_def sorted_wrt_append)
    moreover have "covered (out @ [ColRange ?s ?e]) i \<longleftrightarrow> covered out i \<or> ?p s \<le> i \<and> i < ?p e" for i
      using us by (auto simp: covered_def)
    ultimately show ?thesis by (simp add: push)
  qed
qed

text \<open>Ascending token ranges from \<open>p\<close> on, what they leave, and what their bytes leave.\<close>

fun ascending :: "(nat \<times> nat) list \<Rightarrow> nat \<Rightarrow> nat \<Rightarrow> bool" where
  "ascending [] p n \<longleftrightarrow> p \<le> n"
| "ascending ((s, e) # rs) p n \<longleftrightarrow> p \<le> s \<and> s \<le> e \<and> ascending rs e n"

fun unchanged :: "string list \<Rightarrow> nat \<Rightarrow> (nat \<times> nat) list \<Rightarrow> string list" where
  "unchanged T p [] = drop p T"
| "unchanged T p ((s, e) # rs) = take (s - p) (drop p T) @ unchanged T e rs"

definition kept :: "string \<Rightarrow> col_range list \<Rightarrow> string" where
  "kept s ranges = map ((!) s) (filter (\<lambda>i. \<not> covered ranges i) [0..<length s])"

lemma ascending_le: "ascending rs p n \<Longrightarrow> p \<le> n"
  by (induction rs arbitrary: p) (auto, fastforce)

lemma push_ranges_spec:
  assumes laid: "laid toks"
  shows "ascending rs p (length toks) \<Longrightarrow> ranges_ok out (pos (map tk_text toks) p) \<Longrightarrow>
    ranges_ok (foldl (\<lambda>out (s, e). push_range toks out s e) out rs) (pos (map tk_text toks) (length toks))
    \<and> (\<forall>i. covered (foldl (\<lambda>out (s, e). push_range toks out s e) out rs) i \<longleftrightarrow>
         covered out i \<or> (\<exists>(s, e)\<in>set rs. pos (map tk_text toks) s \<le> i \<and> i < pos (map tk_text toks) e))"
proof (induction rs arbitrary: p out)
  case Nil
  then show ?case using pos_mono [of p "length toks" "map tk_text toks"] by (fastforce simp: ranges_ok_def)
next
  case (Cons r rs)
  obtain s e where r: "r = (s, e)" by fastforce
  have se: "p \<le> s" "s \<le> e" "ascending rs e (length toks)" using Cons.prems(1) by (simp_all add: r)
  have "ranges_ok out (pos (map tk_text toks) s)"
    using Cons.prems(2) pos_mono [OF se(1), of "map tk_text toks"] by (fastforce simp: ranges_ok_def)
  note step = push_range_spec [OF laid se(2) ascending_le [OF se(3)] this]
  show ?case using Cons.IH [OF se(3) conjunct1 [OF step]] step by (auto simp: r)
qed

lemma bytes_between:
  assumes "j \<le> k"
  shows "map ((!) (concat T)) [pos T j..<pos T k] = concat (take (k - j) (drop j T))"
proof -
  have "concat T = concat (take j T) @ concat (take (k - j) (drop j T)) @ concat (drop k T)"
    using assms by (metis append_take_drop_id concat_append drop_drop le_add_diff_inverse2)
  moreover have "pos T k = pos T j + length (concat (take (k - j) (drop j T)))" by (rule pos_split [OF assms])
  ultimately show ?thesis by (intro nth_equalityI) (simp_all add: nth_append pos_def)
qed

lemma kept_from:
  "ascending rs p (length T) \<Longrightarrow>
     (\<And>i. pos T p \<le> i \<Longrightarrow> c i \<longleftrightarrow> (\<exists>(s, e)\<in>set rs. pos T s \<le> i \<and> i < pos T e)) \<Longrightarrow>
     map ((!) (concat T)) (filter (\<lambda>i. \<not> c i) [pos T p..<pos T (length T)]) = concat (unchanged T p rs)"
proof (induction rs arbitrary: p)
  case Nil
  then have "filter (\<lambda>i. \<not> c i) [pos T p..<pos T (length T)] = [pos T p..<pos T (length T)]" by simp
  then show ?case using bytes_between [of p "length T" T] Nil.prems(1) by simp
next
  case (Cons r rs)
  obtain s e where r: "r = (s, e)" by fastforce
  have se: "p \<le> s" "s \<le> e" "ascending rs e (length T)" using Cons.prems(1) by (simp_all add: r)
  have m: "pos T p \<le> pos T s" "pos T s \<le> pos T e" "pos T e \<le> pos T (length T)"
    using se ascending_le [OF se(3)] by (simp_all add: pos_mono)
  have later: "pos T e \<le> pos T s'" if "(s', e') \<in> set rs" for s' e'
  proof -
    have "ascending us q n \<Longrightarrow> (s', e') \<in> set us \<Longrightarrow> q \<le> s'" for us q n
      by (induction us arbitrary: q) fastforce+
    from this [OF se(3) that] show ?thesis by (rule pos_mono)
  qed
  have c: "c i \<longleftrightarrow> pos T s \<le> i \<and> i < pos T e \<or> (\<exists>(s, e)\<in>set rs. pos T s \<le> i \<and> i < pos T e)" if "pos T p \<le> i" for i
    using Cons.prems(2) [OF that] by (simp add: r)
  have "filter (\<lambda>i. \<not> c i) [pos T p..<pos T s] = [pos T p..<pos T s]"
    using c later m by (intro filter_True) fastforce
  moreover have "filter (\<lambda>i. \<not> c i) [pos T s..<pos T e] = []"
    using c m by (intro filter_False) auto
  moreover have "map ((!) (concat T)) (filter (\<lambda>i. \<not> c i) [pos T e..<pos T (length T)]) = concat (unchanged T e rs)"
    by (rule Cons.IH [OF se(3)]) (use c m in auto)
  moreover have "[pos T p..<pos T (length T)] = [pos T p..<pos T s] @ [pos T s..<pos T e] @ [pos T e..<pos T (length T)]"
    using m by (metis append_assoc le_trans upt_add_eq_append le_add_diff_inverse)
  ultimately show ?case using bytes_between [OF se(1), of T] by (simp add: r)
qed

text \<open>The two sides of an edit script leave the same tokens.\<close>

lemma script_unchanged:
  "script a b hs p q \<Longrightarrow>
     unchanged a p (map (\<lambda>h. (hb_start h, hb_end h)) hs) = unchanged b q (map (\<lambda>h. (ha_start h, ha_end h)) hs)
     \<and> ascending (map (\<lambda>h. (hb_start h, hb_end h)) hs) p (length a)
     \<and> ascending (map (\<lambda>h. (ha_start h, ha_end h)) hs) q (length b)"
proof (induction hs arbitrary: p q)
  case Nil
  then have "drop p a = drop q b" by (intro nth_equalityI) (auto simp: same_run_def)
  then show ?case using Nil by auto
next
  case (Cons h hs)
  have sc: "p \<le> hb_start h" "hb_start h \<le> hb_end h" "ha_start h = q + (hb_start h - p)" "ha_start h \<le> ha_end h"
    "same_run a b p q (hb_start h - p)" "script a b hs (hb_end h) (ha_end h)"
    using Cons.prems unfolding script.simps by blast+
  have "take (hb_start h - p) (drop p a) = take (ha_start h - q) (drop q b)"
    using sc(3,5) by (intro nth_equalityI) (auto simp: same_run_def)
  then show ?case using Cons.IH [OF sc(6)] sc(1-4) by simp
qed

lemma tokens_laid:
  assumes "well_formed s" "length s < 2 ^ 32"
  shows "laid (tokens alnum s)" "concat (map tk_text (tokens alnum s)) = s"
  using tokens_from_laid [of "utf8_scalars s" 0 alnum] utf8_scalars_nonempty [of _ s] assms
  by (auto simp: laid_def tokens_def well_formed_def from_utf8_lossy_def)

text \<open>
  C29: The changed ranges of a modified pair of lines are right: on each side they are nonempty, in order,
  inside the line and apart from each other, and the bytes outside them read the same on both sides, so
  everything that differs is marked.
\<close>

theorem changed_ranges_exact:
  assumes lib: "\<And>a b. script a b (rl_token_diff L a b) 0 0"
    and left: "well_formed left" "length left < 2 ^ 32" and right: "well_formed right" "length right < 2 ^ 32"
  shows "ranges_ok (fst (changed_ranges L left right)) (length left)
    \<and> ranges_ok (snd (changed_ranges L left right)) (length right)
    \<and> kept left (fst (changed_ranges L left right)) = kept right (snd (changed_ranges L left right))"
proof -
  let ?lt = "tokens (rl_alphanumeric L) left"
  let ?rt = "tokens (rl_alphanumeric L) right"
  let ?a = "map tk_text ?lt"
  let ?b = "map tk_text ?rt"
  let ?hs = "rl_token_diff L ?a ?b"
  let ?bs = "map (\<lambda>h. (hb_start h, hb_end h)) ?hs"
  let ?as = "map (\<lambda>h. (ha_start h, ha_end h)) ?hs"
  note l = tokens_laid [OF left, of "rl_alphanumeric L"]
  note r = tokens_laid [OF right, of "rl_alphanumeric L"]
  note u = script_unchanged [OF lib [of ?a ?b]]
  have ch: "changed_ranges L left right = (foldl (\<lambda>out (s, e). push_range ?lt out s e) [] ?bs,
      foldl (\<lambda>out (s, e). push_range ?rt out s e) [] ?as)"
    by (simp add: changed_ranges_def Let_def foldl_map)
  have none: "ranges_ok [] n" "\<not> covered [] i" for n i by (simp_all add: ranges_ok_def covered_def)
  have L: "ranges_ok (fst (changed_ranges L left right)) (pos ?a (length ?lt))"
    "\<And>i. covered (fst (changed_ranges L left right)) i \<longleftrightarrow> (\<exists>(s, e)\<in>set ?bs. pos ?a s \<le> i \<and> i < pos ?a e)"
    using push_ranges_spec [OF l(1), of ?bs 0 "[]"] u none by (simp_all add: ch)
  have R: "ranges_ok (snd (changed_ranges L left right)) (pos ?b (length ?rt))"
    "\<And>i. covered (snd (changed_ranges L left right)) i \<longleftrightarrow> (\<exists>(s, e)\<in>set ?as. pos ?b s \<le> i \<and> i < pos ?b e)"
    using push_ranges_spec [OF r(1), of ?as 0 "[]"] u none by (simp_all add: ch)
  have ends: "pos ?a (length ?lt) = length left" "pos ?b (length ?rt) = length right"
    using l(2) r(2) by (simp_all add: pos_all)
  have "kept left (fst (changed_ranges L left right)) = concat (unchanged ?a 0 ?bs)"
    using kept_from [of ?bs 0 ?a "covered (fst (changed_ranges L left right))"] L(2) u l(2) ends by (simp add: kept_def)
  moreover have "kept right (snd (changed_ranges L left right)) = concat (unchanged ?b 0 ?as)"
    using kept_from [of ?as 0 ?b "covered (snd (changed_ranges L left right))"] R(2) u r(2) ends by (simp add: kept_def)
  ultimately show ?thesis using u L(1) R(1) ends by simp
qed

theorem changed_ranges_exact_witness:
  "kept ''a b'' (fst (changed_ranges replace_all_libs ''a b'' ''a c'')) = kept ''a c'' (snd (changed_ranges replace_all_libs ''a b'' ''a c''))"
proof -
  have "script a b (rl_token_diff replace_all_libs a b) 0 0" for a b
    by (simp add: replace_all_libs_def same_run_def)
  moreover have "well_formed ''a b''" "well_formed ''a c''" by code_simp+
  ultimately show ?thesis using changed_ranges_exact [of replace_all_libs "''a b''" "''a c''"] by simp
qed

end
