(* ===== verification/Nits_Subscription.thy ===== *)
theory Nits_Subscription
  imports Nits_Connection Nits_Core
begin

text \<open>
  Subscriptions of a connection, \<open>crates/nitsd/src/connection.rs\<close>: the replay of \<open>subscribe\<close>, the live
  tail and its watermarks, over the log of the store and the broadcast of \<open>daemon.rs\<close>. The workspace of a
  review, which the scopes ask for, is a parameter of the delivery; \<open>daemon_workspace_of\<close> is the
  daemon's. The watermarks, a hash map in the code, are a list of pairs with different scopes.
\<close>

section \<open>The daemon's answers\<close>

text \<open>The workspace of a review, from the cache or from the stored review, which is then cached.\<close>

definition daemon_workspace_of :: "store \<Rightarrow> (review_id \<rightharpoonup> workspace_id) \<Rightarrow> review_id
    \<Rightarrow> workspace_id option \<times> (review_id \<rightharpoonup> workspace_id)" where
  "daemon_workspace_of s cache review =
     (case cache review of
        Some w \<Rightarrow> (Some w, cache)
      | None \<Rightarrow>
          (case stored_review_workspace s review of
             Inl _ \<Rightarrow> (None, cache)
           | Inr w \<Rightarrow> (Some w, cache(review \<mapsto> w))))"

text \<open>What the writer does with the events of a job: remember a new review's workspace.\<close>

definition publish_workspace :: "event \<Rightarrow> (review_id \<rightharpoonup> workspace_id) \<Rightarrow> (review_id \<rightharpoonup> workspace_id)" where
  "publish_workspace e cache =
     (case ev_body e of ReviewCreated review \<Rightarrow> cache(rv_id review \<mapsto> rv_workspace_id review) | _ \<Rightarrow> cache)"

section \<open>Delivery\<close>

type_synonym watermarks = "(subscribe_scope \<times> seq) list"

definition live_hit :: "(review_id \<Rightarrow> workspace_id option) \<Rightarrow> event \<Rightarrow> subscribe_scope \<times> seq \<Rightarrow> bool" where
  "live_hit wo e = (\<lambda>(scope, delivered). ev_seq e > delivered \<and> scope_matches scope e wo)"

definition deliver_live :: "(review_id \<Rightarrow> workspace_id option) \<Rightarrow> event \<Rightarrow> watermarks \<Rightarrow> watermarks \<times> event list" where
  "deliver_live wo e scopes =
     (map (\<lambda>sd. if live_hit wo e sd then (fst sd, ev_seq e) else sd) scopes,
      if list_ex (live_hit wo e) scopes then [e] else [])"

text \<open>
  \<open>subscribe\<close>: the events come from one read of the store, the head of an empty replay from a later one.
\<close>

definition others_of :: "subscribe_scope \<Rightarrow> watermarks \<Rightarrow> watermarks" where
  "others_of scope scopes = filter (\<lambda>sd. fst sd \<noteq> scope) scopes"

definition replay_after :: "seq option \<Rightarrow> watermarks \<Rightarrow> seq option" where
  "replay_after after others =
     (let active = (case map snd others of [] \<Rightarrow> None | d # ds \<Rightarrow> Some (fold min ds d)) in
      case (after, active) of
        (Some requested, Some a) \<Rightarrow> Some (min requested a)
      | (Some requested, None) \<Rightarrow> Some requested
      | (None, a) \<Rightarrow> a)"

definition subscribe :: "(review_id \<Rightarrow> workspace_id option) \<Rightarrow> store \<Rightarrow> store \<Rightarrow> subscribe_scope \<Rightarrow> since
    \<Rightarrow> watermarks \<Rightarrow> seq \<times> watermarks \<times> event list" where
  "subscribe wo s later scope since scopes =
     (let after = (case since of Since_Now \<Rightarrow> None | Since_After q \<Rightarrow> Some q);
          others = others_of scope scopes;
          from_seq = replay_after after others;
          events = events_after from_seq s;
          sent = filter (\<lambda>e. (case after of None \<Rightarrow> False | Some q \<Rightarrow> ev_seq e > q \<and> scope_matches scope e wo)
                             \<or> list_ex (live_hit wo e) others) events;
          head = (if events \<noteq> [] then ev_seq (last events)
                  else case from_seq of Some h \<Rightarrow> h
                       | None \<Rightarrow> (case last_seq later of None \<Rightarrow> 0 | Some q \<Rightarrow> q));
          requested_head = (case after of None \<Rightarrow> head | Some q \<Rightarrow> max head q)
      in (requested_head, (scope, requested_head) # map (\<lambda>sd. (fst sd, max (snd sd) head)) others, sent))"

definition unsubscribe :: "subscribe_scope \<Rightarrow> watermarks \<Rightarrow> watermarks" where
  "unsubscribe scope scopes = filter (\<lambda>sd. fst sd \<noteq> scope) scopes"

section \<open>A connection over the log\<close>

text \<open>
  The log, how many of its events the writer has broadcast, the broadcast receiver of the connection, its
  watermarks and what it has sent.
\<close>

record ('r, 'u) feed =
  fd_store :: store
  fd_published :: nat
  fd_queue :: "event list"
  fd_scopes :: watermarks
  fd_out :: "('r, 'u) server_msg list"

definition feed_send :: "event list \<Rightarrow> ('r, 'u) feed \<Rightarrow> ('r, 'u) feed" where
  "feed_send es c = c\<lparr>fd_out := fd_out c @ map Server_Event es\<rparr>"

definition feed_subscribe :: "(review_id \<Rightarrow> workspace_id option) \<Rightarrow> store \<Rightarrow> subscribe_scope \<Rightarrow> since
    \<Rightarrow> ('r, 'u) feed \<Rightarrow> ('r, 'u) feed" where
  "feed_subscribe wo s scope since c =
     (let (_, scopes, sent) = subscribe wo s (fd_store c) scope since (fd_scopes c)
      in feed_send sent (c\<lparr>fd_scopes := scopes\<rparr>))"

definition feed_tail :: "(review_id \<Rightarrow> workspace_id option) \<Rightarrow> event \<Rightarrow> ('r, 'u) feed \<Rightarrow> ('r, 'u) feed" where
  "feed_tail wo e c =
     (let (scopes, sent) = deliver_live wo e (fd_scopes c) in feed_send sent (c\<lparr>fd_scopes := scopes\<rparr>))"

definition feed_lagged :: "('r, 'u) feed \<Rightarrow> ('r, 'u) feed" where
  "feed_lagged c = c\<lparr>fd_out := fd_out c @ [Server_Error (RequestId 0)
     (Rpc_SeqTooOld (case last_seq (fd_store c) of None \<Rightarrow> seq_FIRST | Some q \<Rightarrow> q))]\<rparr>"

text \<open>The writer: it commits an event to the store, and broadcasts the events in the order of the log.\<close>

inductive writer_step :: "('r, 'u) feed \<Rightarrow> ('r, 'u) feed \<Rightarrow> bool" where
  committed: "append_event new (fd_store c) = Inr (e, s) \<Longrightarrow> writer_step c (c\<lparr>fd_store := s\<rparr>)"
| published: "fd_published c < length (log_events (fd_store c)) \<Longrightarrow>
    writer_step c (c\<lparr>fd_queue := fd_queue c @ [log_events (fd_store c) ! fd_published c],
                     fd_published := Suc (fd_published c)\<rparr>)"

text \<open>With the live tail; nothing here changes which scopes there are.\<close>

inductive live_step :: "(review_id \<Rightarrow> workspace_id option) \<Rightarrow> ('r, 'u) feed \<Rightarrow> ('r, 'u) feed \<Rightarrow> bool" for wo where
  wrote: "writer_step c c' \<Longrightarrow> live_step wo c c'"
| tailed: "fd_queue c = e # q \<Longrightarrow> live_step wo c (feed_tail wo e (c\<lparr>fd_queue := q\<rparr>))"

text \<open>
  With the client's requests and a receiver that falls behind the broadcast: it loses the oldest events
  and says so. The writer may be at work between the two reads of a subscription.
\<close>

inductive feed_step :: "(review_id \<Rightarrow> workspace_id option) \<Rightarrow> ('r, 'u) feed \<Rightarrow> ('r, 'u) feed \<Rightarrow> bool" for wo where
  live: "live_step wo c c' \<Longrightarrow> feed_step wo c c'"
| subscribed: "writer_step\<^sup>*\<^sup>* c c' \<Longrightarrow> feed_step wo c (feed_subscribe wo (fd_store c) scope since c')"
| unsubscribed: "feed_step wo c (c\<lparr>fd_scopes := unsubscribe scope (fd_scopes c)\<rparr>)"
| lagged: "fd_queue c = lost @ q \<Longrightarrow> lost \<noteq> [] \<Longrightarrow> feed_step wo c (feed_lagged (c\<lparr>fd_queue := q\<rparr>))"

text \<open>A connection starts without scopes, at whatever the writer has broadcast by then.\<close>

inductive feed_reachable :: "(review_id \<Rightarrow> workspace_id option) \<Rightarrow> ('r, 'u) feed \<Rightarrow> bool" for wo where
  start: "reachable s \<Longrightarrow> p \<le> store_len s \<Longrightarrow>
    feed_reachable wo \<lparr>fd_store = s, fd_published = p, fd_queue = [], fd_scopes = [], fd_out = []\<rparr>"
| step: "feed_reachable wo c \<Longrightarrow> feed_step wo c c' \<Longrightarrow> feed_reachable wo c'"

fun event_of :: "('r, 'u) server_msg \<Rightarrow> event list" where
  "event_of (Server_Event e) = [e]"
| "event_of _ = []"

definition sent_events :: "('r, 'u) server_msg list \<Rightarrow> event list" where
  "sent_events out = concat (map event_of out)"

section \<open>The log of a connection\<close>

declare length_log_events [simp]

text \<open>The number of events that have left the broadcast queue.\<close>

definition tailed_to :: "('r, 'u) feed \<Rightarrow> nat" where
  "tailed_to c = fd_published c - length (fd_queue c)"

definition feed_inv :: "('r, 'u) feed \<Rightarrow> bool" where
  "feed_inv c \<longleftrightarrow> reachable (fd_store c) \<and> fd_published c \<le> store_len (fd_store c)
     \<and> length (fd_queue c) \<le> fd_published c
     \<and> fd_queue c = drop (tailed_to c) (take (fd_published c) (log_events (fd_store c)))"

end
