(* ===== verification/Nits_Subscription_Laws.thy ===== *)
theory Nits_Subscription_Laws
  imports Nits_Subscription
begin

text \<open>
  A subscription loses nothing: what a connection sends after \<open>subscribe\<close> is, for the scope, exactly the
  events after the requested position, in order and once each, and other subscriptions of the connection
  do not change that any of them arrives.
\<close>

section \<open>The log\<close>

lemma seq_at:
  assumes "log_inv s" "store_len s < 2 ^ 64" "i < store_len s"
  shows "unat (ev_seq (log_events s ! i)) = Suc i"
proof -
  have "map ev_seq (log_events s) ! i = of_nat (Suc i)" unfolding log_inv_seqs [OF assms(1)] using assms(3) by simp
  then have "ev_seq (log_events s ! i) = of_nat (Suc i)" using assms(3) by simp
  moreover have "unat (of_nat (Suc i) :: seq) = Suc i"
    using assms(2,3) by (simp only: unat_of_nat) (simp add: take_bit_nat_eq_self)
  ultimately show ?thesis by simp
qed

lemma events_after_filter:
  assumes "log_inv s"
  shows "events_after after s = filter (\<lambda>e. case after of None \<Rightarrow> True | Some q \<Rightarrow> q < ev_seq e) (log_events s)"
proof -
  let ?P = "\<lambda>k :: seq. case after of None \<Rightarrow> True | Some q \<Rightarrow> q < k"
  have "filter (\<lambda>e. ?P (fst e)) (tbl_entries (st_events s)) = filter (\<lambda>e. ?P (ev_seq (se_event (snd e)))) (tbl_entries (st_events s))"
  proof (rule filter_cong [OF refl])
    fix e assume "e \<in> set (tbl_entries (st_events s))"
    then have "ev_seq (se_event (snd e)) = fst e" using assms by (simp only: log_inv_def list_all_iff)
    then show "?P (fst e) = ?P (ev_seq (se_event (snd e)))" by (cases after) simp_all
  qed
  then show ?thesis
    by (simp add: events_after_def tbl_range_def log_events_def filter_map comp_def)
qed

lemma log_sorted:
  assumes "log_inv s" "store_len s < 2 ^ 64"
  shows "sorted_wrt (\<lambda>a b. ev_seq a < ev_seq b) (log_events s)"
  using seq_at [OF assms] by (simp add: sorted_wrt_iff_nth_less word_less_nat_alt)

lemma log_append:
  assumes "append_event new s = Inr (e, s')" "log_inv s" "Suc (store_len s) < 2 ^ 64"
  shows "log_events s' = log_events s @ [e]"
  using append_entries [OF assms(2,3,1)] by (simp add: log_events_def)

section \<open>The writer and the queue\<close>

definition small :: "('r, 'u) feed \<Rightarrow> bool" where
  "small c \<longleftrightarrow> store_len (fd_store c) < 2 ^ 64 - 1"

text \<open>From one state to a later one: the log has grown, and the invariant holds.\<close>

definition later :: "('r, 'u) feed \<Rightarrow> ('r, 'u) feed \<Rightarrow> bool" where
  "later c c' \<longleftrightarrow> feed_inv c' \<and> small c \<and> (\<exists>es. log_events (fd_store c') = log_events (fd_store c) @ es)"

lemma feed_inv_log: "feed_inv c \<Longrightarrow> small c \<Longrightarrow> log_inv (fd_store c)"
  using reachable_log_inv by (auto simp: feed_inv_def small_def)

lemma writer_step_later:
  assumes "writer_step c c'" "feed_inv c" "small c'"
  shows "later c c' \<and> tailed_to c' = tailed_to c \<and> fd_scopes c' = fd_scopes c \<and> fd_out c' = fd_out c"
  using assms
proof (cases rule: writer_step.cases)
  case (committed new e s)
  have len: "store_len (fd_store c) \<le> store_len s" using append_store_len [OF committed(2)] .
  then have small: "small c" using assms(3) by (simp add: small_def committed)
  have log: "log_events s = log_events (fd_store c) @ [e]"
    using log_append [OF committed(2) feed_inv_log [OF assms(2) small]] small by (simp add: small_def)
  have "reachable s" using assms(2) committed(2) by (auto simp: feed_inv_def intro: reachable_by.appended)
  then show ?thesis using assms(2) small len by (auto simp: later_def feed_inv_def committed log tailed_to_def)
next
  case published
  let ?t = "tailed_to c" and ?p = "fd_published c" and ?log = "log_events (fd_store c)"
  have inv: "length (fd_queue c) \<le> ?p" "fd_queue c = drop ?t (take ?p ?log)" "?t \<le> ?p"
    using assms(2) by (auto simp: feed_inv_def tailed_to_def)
  have "fd_queue c @ [?log ! ?p] = drop ?t (take (Suc ?p) ?log)"
    using inv published by (simp add: take_Suc_conv_app_nth)
  moreover have t: "tailed_to c' = ?t" by (simp add: published(1) tailed_to_def)
  moreover have fields: "fd_store c' = fd_store c" "fd_published c' = Suc ?p" "fd_queue c' = fd_queue c @ [?log ! ?p]"
    by (simp_all add: published(1))
  ultimately have "feed_inv c'"
    unfolding feed_inv_def t fields using assms(2) published(2) by (simp add: feed_inv_def)
  moreover have same: "fd_store c' = fd_store c" "fd_scopes c' = fd_scopes c" "fd_out c' = fd_out c"
    by (simp_all add: published(1))
  moreover have "small c" using assms(3) same by (simp add: small_def)
  ultimately show ?thesis using \<open>tailed_to c' = ?t\<close> unfolding later_def same by auto
qed

lemma writer_steps_later:
  "writer_step\<^sup>*\<^sup>* c c' \<Longrightarrow> feed_inv c \<Longrightarrow> small c' \<Longrightarrow>
   later c c' \<and> tailed_to c' = tailed_to c \<and> fd_scopes c' = fd_scopes c \<and> fd_out c' = fd_out c"
proof (induction rule: converse_rtranclp_induct)
  case base
  then show ?case by (simp add: later_def)
next
  case (step c1 c2)
  have grown: "store_len (fd_store a) \<le> store_len (fd_store b)" if "writer_step\<^sup>*\<^sup>* a b" for a b :: "('r, 'u) feed"
    using that
  proof (induction rule: rtranclp_induct)
    case (step b c)
    from step.hyps(2) have "store_len (fd_store b) \<le> store_len (fd_store c)"
      by (cases rule: writer_step.cases) (auto dest: append_store_len)
    then show ?case using step.IH by simp
  qed simp
  then have "small c2" using step.hyps(2) step.prems(2) by (auto simp: small_def intro: le_less_trans)
  then have one: "later c1 c2" "tailed_to c2 = tailed_to c1" "fd_scopes c2 = fd_scopes c1" "fd_out c2 = fd_out c1"
    using writer_step_later [OF step.hyps(1) step.prems(1)] by simp_all
  then show ?case using step.IH step.prems(2) by (auto simp: later_def)
qed

lemma small_before: "later c c' \<Longrightarrow> small c"
  by (simp add: later_def)

lemma queue_head:
  assumes "feed_inv c" "fd_queue c = e # q"
  shows "tailed_to c < fd_published c" "e = log_events (fd_store c) ! tailed_to c"
    "q = drop (Suc (tailed_to c)) (take (fd_published c) (log_events (fd_store c)))"
proof -
  let ?l = "take (fd_published c) (log_events (fd_store c))"
  have q: "e # q = drop (tailed_to c) ?l" "length (fd_queue c) \<le> fd_published c"
    using assms by (simp_all add: feed_inv_def)
  then have lt: "tailed_to c < length ?l" by (metis drop_all list.distinct(1) not_le_imp_less)
  then show "tailed_to c < fd_published c" by simp
  have "drop (tailed_to c) ?l = ?l ! tailed_to c # drop (Suc (tailed_to c)) ?l" by (rule Cons_nth_drop_Suc [OF lt, symmetric])
  then show "e = log_events (fd_store c) ! tailed_to c" "q = drop (Suc (tailed_to c)) ?l" using q lt by auto
qed

lemma feed_send_simps [simp]:
  "fd_store (feed_send es c) = fd_store c" "fd_published (feed_send es c) = fd_published c"
  "fd_queue (feed_send es c) = fd_queue c" "fd_scopes (feed_send es c) = fd_scopes c"
  "fd_out (feed_send es c) = fd_out c @ map Server_Event es"
  by (simp_all add: feed_send_def)

lemma feed_tail_simps [simp]:
  "fd_store (feed_tail wo e c) = fd_store c" "fd_published (feed_tail wo e c) = fd_published c"
  "fd_queue (feed_tail wo e c) = fd_queue c"
  "fd_scopes (feed_tail wo e c) = fst (deliver_live wo e (fd_scopes c))"
  "fd_out (feed_tail wo e c) = fd_out c @ map Server_Event (snd (deliver_live wo e (fd_scopes c)))"
  by (simp_all add: feed_tail_def split: prod.splits)

lemma feed_subscribe_simps [simp]:
  "fd_store (feed_subscribe wo s scope since c) = fd_store c"
  "fd_published (feed_subscribe wo s scope since c) = fd_published c"
  "fd_queue (feed_subscribe wo s scope since c) = fd_queue c"
  "fd_scopes (feed_subscribe wo s scope since c) = fst (snd (subscribe wo s (fd_store c) scope since (fd_scopes c)))"
  "fd_out (feed_subscribe wo s scope since c) =
     fd_out c @ map Server_Event (snd (snd (subscribe wo s (fd_store c) scope since (fd_scopes c))))"
  by (simp_all add: feed_subscribe_def split: prod.splits)

lemma feed_inv_cong:
  "feed_inv c \<Longrightarrow> fd_store c' = fd_store c \<Longrightarrow> fd_published c' = fd_published c \<Longrightarrow> fd_queue c' = fd_queue c \<Longrightarrow> feed_inv c'"
  by (simp add: feed_inv_def tailed_to_def)

lemma tailed_to_cong: "fd_published c' = fd_published c \<Longrightarrow> fd_queue c' = fd_queue c \<Longrightarrow> tailed_to c' = tailed_to c"
  by (simp add: tailed_to_def)

lemma tail_step_later:
  assumes "feed_inv c" "fd_queue c = e # q" "small c"
  shows "later c (feed_tail wo e (c\<lparr>fd_queue := q\<rparr>))" "tailed_to (feed_tail wo e (c\<lparr>fd_queue := q\<rparr>)) = Suc (tailed_to c)"
proof -
  note h = queue_head [OF assms(1,2)]
  have len: "length (fd_queue c) \<le> fd_published c" using assms(1) by (simp add: feed_inv_def)
  then have t: "fd_published c - length q = Suc (tailed_to c)" using assms(2) h(1) by (simp add: tailed_to_def)
  then show "tailed_to (feed_tail wo e (c\<lparr>fd_queue := q\<rparr>)) = Suc (tailed_to c)" by (simp add: tailed_to_def)
  then show "later c (feed_tail wo e (c\<lparr>fd_queue := q\<rparr>))"
    using assms h(3) len by (simp add: later_def feed_inv_def)
qed

section \<open>A subscription's replay\<close>

lemma fold_min_le: "fold min ds d \<le> d \<and> (\<forall>x\<in>set ds. fold min ds d \<le> (x :: seq))"
proof (induction ds arbitrary: d)
  case (Cons x ds)
  then show ?case using Cons [of "min x d"] by (auto intro: order_trans)
qed simp

lemma replay_after_le:
  "replay_after after others = Some r \<Longrightarrow> sd \<in> set others \<Longrightarrow> r \<le> snd sd"
proof (cases others)
  case (Cons x xs)
  assume r: "replay_after after others = Some r" "sd \<in> set others"
  have "fold min (map snd xs) (snd x) \<le> snd sd" using fold_min_le [of "map snd xs" "snd x"] r(2) by (auto simp: Cons)
  then show ?thesis using r(1) by (auto simp: replay_after_def Cons Let_def min.coboundedI2 split: option.splits)
qed simp

lemma replay_after_requested:
  "\<exists>r. replay_after (Some q) others = Some r \<and> r \<le> q"
  by (cases others) (simp_all add: replay_after_def)

lemma replay_after_other: "others \<noteq> [] \<Longrightarrow> \<exists>r. replay_after after others = Some r"
  by (cases others; cases after) (simp_all add: replay_after_def)

text \<open>The head a replay reaches: the log's, or the position it started after when there was nothing.\<close>

definition reached :: "store \<Rightarrow> store \<Rightarrow> seq option \<Rightarrow> seq" where
  "reached s s2 from_seq =
     (if events_after from_seq s \<noteq> [] then ev_seq (last (events_after from_seq s))
      else case from_seq of Some h \<Rightarrow> h | None \<Rightarrow> (case last_seq s2 of None \<Rightarrow> 0 | Some q \<Rightarrow> q))"

lemma reached_bounds:
  assumes inv: "log_inv s" "store_len s < 2 ^ 64"
  shows "store_len s \<le> unat (reached s s2 from_seq)"
    and "from_seq = Some r \<Longrightarrow> unat (reached s s2 from_seq) \<le> max (store_len s) (unat r)"
proof -
  let ?es = "events_after from_seq s"
  note es = events_after_filter [OF inv(1), of from_seq]
  have last: "unat (ev_seq (last (log_events s))) = store_len s" if "store_len s \<noteq> 0"
    using seq_at [OF inv, of "store_len s - 1"] that by (simp add: last_conv_nth flip: length_0_conv)
  have all: "unat (reached s s2 from_seq) = store_len s" if "?es \<noteq> []"
  proof -
    let ?e = "hd ?es"
    have "?e \<in> set ?es" using that by simp
    then obtain e where e: "e \<in> set (log_events s)" "case from_seq of None \<Rightarrow> True | Some q \<Rightarrow> q < ev_seq e"
      unfolding es by auto
    obtain i where i: "i < store_len s" "e = log_events s ! i" using e(1) by (auto simp: in_set_conv_nth)
    have ne: "store_len s \<noteq> 0" using i by simp
    have "ev_seq e \<le> ev_seq (last (log_events s))"
      using seq_at [OF inv i(1)] last [OF ne] i by (simp add: word_le_nat_alt)
    then have "case from_seq of None \<Rightarrow> True | Some q \<Rightarrow> q < ev_seq (last (log_events s))"
      using e(2) by (auto split: option.splits)
    moreover have "log_events s = butlast (log_events s) @ [last (log_events s)]"
      using ne by (metis append_butlast_last_id length_log_events list.size(3))
    ultimately have "last ?es = last (log_events s)"
      unfolding es by (metis filter.simps(1,2) filter_append last_snoc)
    then show ?thesis using that last [OF ne] by (simp add: reached_def)
  qed
  have none: "store_len s \<le> unat r" if "?es = []" "from_seq = Some r" for r
  proof (cases "store_len s = 0")
    case False
    then have "last (log_events s) \<in> set (log_events s)" by (intro last_in_set) (auto simp flip: length_0_conv)
    moreover have "\<forall>e\<in>set (log_events s). \<not> r < ev_seq e"
      using that(1) events_after_filter [OF inv(1), of "Some r"] by (simp add: that(2) filter_empty_conv)
    ultimately have "\<not> r < ev_seq (last (log_events s))" by blast
    then show ?thesis using last [OF False] by (simp add: word_le_nat_alt not_less)
  qed simp
  have empty: "store_len s = 0" if "?es = []" "from_seq = None"
    using that unfolding es by (simp add: length_0_conv [symmetric] del: length_0_conv)
  show "store_len s \<le> unat (reached s s2 from_seq)"
    using all none empty by (cases "?es = []"; cases from_seq) (auto simp: reached_def)
  show "unat (reached s s2 from_seq) \<le> max (store_len s) (unat r)" if "from_seq = Some r"
    using all none that by (cases "?es = []") (auto simp: reached_def)
qed

text \<open>The events a subscription is for.\<close>

definition wanted :: "(review_id \<Rightarrow> workspace_id option) \<Rightarrow> subscribe_scope \<Rightarrow> seq \<Rightarrow> event \<Rightarrow> bool" where
  "wanted wo scope q e \<longleftrightarrow> q < ev_seq e \<and> scope_matches scope e wo"

lemma subscribe_parts:
  fixes scopes scope since
  defines "others \<equiv> others_of scope scopes"
    and "after \<equiv> (case since of Since_Now \<Rightarrow> None | Since_After q \<Rightarrow> Some q)"
  shows "snd (snd (subscribe wo s s2 scope since scopes)) =
      filter (\<lambda>e. (case after of None \<Rightarrow> False | Some q \<Rightarrow> wanted wo scope q e) \<or> list_ex (live_hit wo e) others)
        (events_after (replay_after after others) s)"
    and "fst (snd (subscribe wo s s2 scope since scopes)) =
      (scope, case after of None \<Rightarrow> reached s s2 (replay_after after others)
              | Some q \<Rightarrow> max (reached s s2 (replay_after after others)) q)
      # map (\<lambda>sd. (fst sd, max (snd sd) (reached s s2 (replay_after after others)))) others"
  unfolding subscribe_def Let_def wanted_def reached_def others_def after_def by (simp_all only: fst_conv snd_conv)

lemma unat_max: "unat (max a b) = max (unat a) (unat (b :: seq))"
  by (simp add: max_def word_le_nat_alt)

lemma subscribe_watermarks:
  assumes "log_inv s" "store_len s < 2 ^ 64" "sd \<in> set (fst (snd (subscribe wo s s2 scope since scopes)))"
  shows "store_len s \<le> unat (snd sd)"
  using assms(3) reached_bounds(1) [OF assms(1,2)]
  by (auto simp: subscribe_parts(2) unat_max le_max_iff_disj split: option.splits)

lemma subscribe_own:
  assumes "log_inv s" "store_len s < 2 ^ 64" "(scope, w) \<in> set (fst (snd (subscribe wo s s2 scope (Since_After q) scopes)))"
  shows "unat w \<le> max (store_len s) (unat q)"
proof -
  obtain r where r: "replay_after (Some q) (others_of scope scopes) = Some r" "r \<le> q" using replay_after_requested by blast
  have "w = max (reached s s2 (Some r)) q"
    using assms(3) r(1) by (auto simp: subscribe_parts(2) others_of_def)
  moreover have "unat (reached s s2 (Some r)) \<le> max (store_len s) (unat r)"
    by (rule reached_bounds(2) [OF assms(1,2) refl])
  ultimately show ?thesis using r(2) by (auto simp: unat_max word_le_nat_alt)
qed

text \<open>The replay has every event the subscription asks for, and every one another scope still waits for.\<close>

lemma subscribe_sent:
  assumes "log_inv s"
  shows "filter (wanted wo scope q) (snd (snd (subscribe wo s s2 scope (Since_After q) scopes)))
      = filter (wanted wo scope q) (log_events s)"
proof -
  obtain r where r: "replay_after (Some q) (others_of scope scopes) = Some r" "r \<le> q" using replay_after_requested by blast
  then show ?thesis
    by (simp add: subscribe_parts(1) events_after_filter [OF assms] filter_filter)
      (rule filter_cong; auto simp: wanted_def)
qed

lemma subscribe_pending:
  assumes "log_inv s" "e \<in> set (log_events s)" "sd \<in> set scopes" "fst sd \<noteq> scope" "live_hit wo e sd"
  shows "e \<in> set (snd (snd (subscribe wo s s2 scope since scopes)))"
proof -
  have sd: "sd \<in> set (others_of scope scopes)" using assms by (simp add: others_of_def)
  then obtain r where "replay_after (case since of Since_Now \<Rightarrow> None | Since_After q \<Rightarrow> Some q) (others_of scope scopes) = Some r"
    using replay_after_other by (metis empty_iff list.set(1))
  moreover then have "r \<le> snd sd" using sd by (rule replay_after_le)
  ultimately show ?thesis using assms sd
    by (auto simp: subscribe_parts(1) events_after_filter [OF assms(1)] list_ex_iff live_hit_def split: prod.splits)
qed

lemma subscribe_sorted:
  assumes "log_inv s" "store_len s < 2 ^ 64"
  shows "sorted_wrt (\<lambda>a b. ev_seq a < ev_seq b) (snd (snd (subscribe wo s s2 scope since scopes)))"
    and "e \<in> set (snd (snd (subscribe wo s s2 scope since scopes))) \<Longrightarrow> unat (ev_seq e) \<le> store_len s"
proof -
  show "sorted_wrt (\<lambda>a b. ev_seq a < ev_seq b) (snd (snd (subscribe wo s s2 scope since scopes)))"
    by (simp add: subscribe_parts(1) events_after_filter [OF assms(1)] sorted_wrt_filter log_sorted [OF assms])
  assume "e \<in> set (snd (snd (subscribe wo s s2 scope since scopes)))"
  then have "e \<in> set (log_events s)" by (simp add: subscribe_parts(1) events_after_filter [OF assms(1)])
  then show "unat (ev_seq e) \<le> store_len s" using seq_at [OF assms] by (auto simp: in_set_conv_nth)
qed

section \<open>Exactly once\<close>

lemma sent_events_simps [simp]:
  "sent_events (xs @ ys) = sent_events xs @ sent_events ys" "sent_events (map Server_Event es) = es"
  by (simp_all add: sent_events_def comp_def)

definition exact :: "(review_id \<Rightarrow> workspace_id option) \<Rightarrow> subscribe_scope \<Rightarrow> seq \<Rightarrow> nat \<Rightarrow> event list
    \<Rightarrow> nat \<Rightarrow> event list \<Rightarrow> watermarks \<Rightarrow> bool" where
  "exact wo scope q n log k new scopes \<longleftrightarrow>
     sorted_wrt (\<lambda>a b. ev_seq a < ev_seq b) new \<and> (\<forall>e\<in>set new. unat (ev_seq e) \<le> k)
     \<and> filter (wanted wo scope q) new = filter (wanted wo scope q) (take k log)
     \<and> (\<forall>sd\<in>set scopes. n \<le> unat (snd sd))
     \<and> (\<exists>w. (scope, w) \<in> set scopes \<and> unat w \<le> max k (unat q))"

lemma deliver_past:
  assumes "\<forall>sd\<in>set scopes. n \<le> unat (snd sd)" "unat (ev_seq e) \<le> n"
  shows "deliver_live wo e scopes = (scopes, [])"
proof -
  have "\<not> live_hit wo e sd" if "sd \<in> set scopes" for sd
    using assms that by (fastforce simp: live_hit_def word_less_nat_alt split: prod.splits)
  then show ?thesis by (auto simp: deliver_live_def list_ex_iff map_idI)
qed

lemma exact_deliver:
  assumes ex: "exact wo scope q n log k new scopes" and k: "n \<le> k" "k < length log"
    and seq: "unat (ev_seq (log ! k)) = Suc k"
  shows "exact wo scope q n log (Suc k) (new @ snd (deliver_live wo (log ! k) scopes)) (fst (deliver_live wo (log ! k) scopes))"
proof -
  let ?e = "log ! k"
  obtain w where w: "(scope, w) \<in> set scopes" "unat w \<le> max k (unat q)" using ex unfolding exact_def by blast
  have sent: "snd (deliver_live wo ?e scopes) = (if list_ex (live_hit wo ?e) scopes then [?e] else [])"
    by (simp add: deliver_live_def)
  have hit: "list_ex (live_hit wo ?e) scopes" if "wanted wo scope q ?e"
  proof -
    have "w < ev_seq ?e" using that w(2) seq by (auto simp: wanted_def word_less_nat_alt)
    then have "live_hit wo ?e (scope, w)" using that by (simp add: live_hit_def wanted_def)
    then show ?thesis using w(1) by (auto simp: list_ex_iff)
  qed
  have "sorted_wrt (\<lambda>a b. ev_seq a < ev_seq b) (new @ snd (deliver_live wo ?e scopes))"
    using ex seq by (fastforce simp: exact_def sent sorted_wrt_append word_less_nat_alt)
  moreover have "\<forall>e\<in>set (new @ snd (deliver_live wo ?e scopes)). unat (ev_seq e) \<le> Suc k"
    using ex seq by (auto simp: exact_def sent)
  moreover have "filter (wanted wo scope q) (new @ snd (deliver_live wo ?e scopes)) = filter (wanted wo scope q) (take (Suc k) log)"
    using ex hit k(2) by (auto simp: exact_def sent take_Suc_conv_app_nth)
  moreover have "n \<le> unat (snd sd)" if "sd \<in> set (fst (deliver_live wo ?e scopes))" for sd
    using that ex seq k(1) by (auto simp: deliver_live_def exact_def split: if_splits)
  moreover have "(scope, if live_hit wo ?e (scope, w) then ev_seq ?e else w) \<in> set (fst (deliver_live wo ?e scopes))"
    using w(1) by (force simp: deliver_live_def)
  moreover have "unat (if live_hit wo ?e (scope, w) then ev_seq ?e else w) \<le> max (Suc k) (unat q)"
    using w(2) seq by auto
  ultimately show ?thesis unfolding exact_def by blast
qed

definition exact_feed :: "(review_id \<Rightarrow> workspace_id option) \<Rightarrow> subscribe_scope \<Rightarrow> seq \<Rightarrow> nat
    \<Rightarrow> ('r, 'u) server_msg list \<Rightarrow> ('r, 'u) feed \<Rightarrow> bool" where
  "exact_feed wo scope q n base c \<longleftrightarrow> n \<le> store_len (fd_store c) \<and> (\<exists>new. fd_out c = base @ map Server_Event new
     \<and> exact wo scope q n (log_events (fd_store c)) (max n (tailed_to c)) new (fd_scopes c))"

lemma tailed_le: "feed_inv c \<Longrightarrow> tailed_to c \<le> store_len (fd_store c)"
  by (auto simp: feed_inv_def tailed_to_def)

lemma small_log: "feed_inv c \<Longrightarrow> small c \<Longrightarrow> log_inv (fd_store c) \<and> store_len (fd_store c) < 2 ^ 64"
  using feed_inv_log by (auto simp: small_def)

lemma exact_live:
  assumes "live_step wo c c'" "feed_inv c" "small c'" "exact_feed wo scope q n base c"
  shows "later c c' \<and> exact_feed wo scope q n base c'"
  using assms(1)
proof (cases rule: live_step.cases)
  case wrote
  have w: "later c c'" "tailed_to c' = tailed_to c" "fd_scopes c' = fd_scopes c" "fd_out c' = fd_out c"
    using writer_step_later [OF wrote(1) assms(2,3)] by simp_all
  then obtain es where log: "log_events (fd_store c') = log_events (fd_store c) @ es" unfolding later_def by blast
  have len: "store_len (fd_store c') = store_len (fd_store c) + length es"
    using arg_cong [OF log, of length] by simp
  have "max n (tailed_to c) \<le> store_len (fd_store c)"
    using tailed_le [OF assms(2)] assms(4) by (simp add: exact_feed_def)
  then have "exact_feed wo scope q n base c'" using assms(4) w len by (auto simp: exact_feed_def exact_def log)
  then show ?thesis using w(1) by simp
next
  case (tailed e queue)
  let ?t = "tailed_to c"
  have small: "small c" using assms(3) by (simp add: tailed small_def)
  note l = tail_step_later [OF assms(2) tailed(2) small, of wo]
  note e = queue_head [OF assms(2) tailed(2)]
  have t: "?t < store_len (fd_store c)" using e(1) assms(2) by (auto simp: feed_inv_def)
  have seq: "unat (ev_seq e) = Suc ?t" using seq_at [of "fd_store c" ?t] small_log [OF assms(2) small] t by (simp add: e(2))
  obtain new where new: "n \<le> store_len (fd_store c)" "fd_out c = base @ map Server_Event new"
    "exact wo scope q n (log_events (fd_store c)) (max n ?t) new (fd_scopes c)"
    using assms(4) unfolding exact_feed_def by blast
  have "exact wo scope q n (log_events (fd_store c)) (max n (Suc ?t)) (new @ snd (deliver_live wo e (fd_scopes c)))
      (fst (deliver_live wo e (fd_scopes c)))"
  proof (cases "?t < n")
    case True
    then have "deliver_live wo e (fd_scopes c) = (fd_scopes c, [])"
      using deliver_past [of "fd_scopes c" n e wo] new(3) seq by (simp add: exact_def)
    moreover have "max n (Suc ?t) = n" "max n ?t = n" using True by simp_all
    ultimately show ?thesis using new(3) by simp
  next
    case False
    then show ?thesis using exact_deliver [of wo scope q n "log_events (fd_store c)" ?t new "fd_scopes c"] new(3) t seq e(2)
      by (simp add: max_def not_less)
  qed
  then have "exact_feed wo scope q n base c'"
    using new(1,2) l(2) unfolding exact_feed_def
    by (intro conjI exI [of _ "new @ snd (deliver_live wo e (fd_scopes c))"]) (simp_all add: tailed)
  then show ?thesis using l(1) tailed by simp
qed

text \<open>The store only grows.\<close>

lemma writer_step_len: "writer_step c c' \<Longrightarrow> store_len (fd_store c) \<le> store_len (fd_store c')"
  by (cases rule: writer_step.cases) (auto dest: append_store_len)

lemma writer_steps_len: "writer_step\<^sup>*\<^sup>* c c' \<Longrightarrow> store_len (fd_store c) \<le> store_len (fd_store c')"
  by (induction rule: rtranclp_induct) (auto dest: writer_step_len)

lemma live_step_len: "live_step wo c c' \<Longrightarrow> store_len (fd_store c) \<le> store_len (fd_store c')"
  by (cases rule: live_step.cases) (auto dest: writer_step_len)

lemma feed_step_len: "feed_step wo c c' \<Longrightarrow> store_len (fd_store c) \<le> store_len (fd_store c')"
  by (cases rule: feed_step.cases) (auto dest: live_step_len writer_steps_len simp: feed_lagged_def)

lemma feed_inv_subscribe:
  assumes "writer_step\<^sup>*\<^sup>* c c0" "feed_inv c" "small c0"
  shows "feed_inv (feed_subscribe wo (fd_store c) scope since c0)"
    "tailed_to (feed_subscribe wo (fd_store c) scope since c0) = tailed_to c"
proof -
  have w: "feed_inv c0" "tailed_to c0 = tailed_to c" using writer_steps_later [OF assms] by (simp_all add: later_def)
  show "feed_inv (feed_subscribe wo (fd_store c) scope since c0)" by (rule feed_inv_cong [OF w(1)]) simp_all
  show "tailed_to (feed_subscribe wo (fd_store c) scope since c0) = tailed_to c" using w(2) by (simp add: tailed_to_def)
qed

lemma feed_inv_live:
  assumes "live_step wo c c'" "feed_inv c" "small c'"
  shows "feed_inv c'"
  using assms(1)
proof (cases rule: live_step.cases)
  case wrote
  from writer_step_later [OF this assms(2,3)] show ?thesis by (simp add: later_def)
next
  case (tailed e queue)
  then show ?thesis using tail_step_later(1) [of c e queue wo] assms(2,3) by (simp add: later_def small_def)
qed

lemma feed_inv_lagged:
  assumes "feed_inv c" "fd_queue c = lost @ q"
  shows "feed_inv (feed_lagged (c\<lparr>fd_queue := q\<rparr>))"
proof -
  let ?l = "take (fd_published c) (log_events (fd_store c))"
  have inv: "length lost + length q \<le> fd_published c" "lost @ q = drop (tailed_to c) ?l"
    "fd_published c \<le> store_len (fd_store c)" "reachable (fd_store c)"
    using assms by (simp_all add: feed_inv_def)
  have "tailed_to c + length lost = fd_published c - length q" using inv(1) assms(2) by (simp add: tailed_to_def)
  moreover have "q = drop (tailed_to c + length lost) ?l"
    using arg_cong [OF inv(2), of "drop (length lost)"] by (simp add: add.commute)
  ultimately show ?thesis using inv by (simp add: feed_inv_def feed_lagged_def tailed_to_def)
qed

lemma feed_step_inv:
  assumes "feed_step wo c c'" "feed_inv c" "small c'"
  shows "feed_inv c'"
  using assms(1)
proof (cases rule: feed_step.cases)
  case live
  then show ?thesis using feed_inv_live assms by blast
next
  case (subscribed c0 scope since)
  then show ?thesis using feed_inv_subscribe(1) assms by (simp add: small_def)
next
  case (unsubscribed scope)
  then show ?thesis by (intro feed_inv_cong [OF assms(2)]) simp_all
next
  case (lagged lost q)
  then show ?thesis using feed_inv_lagged [OF assms(2)] by simp
qed

lemma feed_reachable_inv: "feed_reachable wo c \<Longrightarrow> small c \<Longrightarrow> feed_inv c"
proof (induction rule: feed_reachable.induct)
  case (start s p)
  then show ?case by (simp add: feed_inv_def tailed_to_def)
next
  case (step c c')
  then have "small c" using feed_step_len [of wo c c'] by (simp add: small_def)
  then show ?case using feed_step_inv [OF step.hyps(2)] step.IH step.prems by blast
qed

lemma exact_subscribe:
  assumes "writer_step\<^sup>*\<^sup>* c c0" "feed_inv c" "small c0"
  shows "exact_feed wo scope q (store_len (fd_store c)) (fd_out c) (feed_subscribe wo (fd_store c) scope (Since_After q) c0)"
proof -
  let ?n = "store_len (fd_store c)"
  let ?sub = "subscribe wo (fd_store c) (fd_store c0) scope (Since_After q) (fd_scopes c)"
  have w: "later c c0" "fd_scopes c0 = fd_scopes c" "fd_out c0 = fd_out c"
    using writer_steps_later [OF assms] by simp_all
  then obtain es where log: "log_events (fd_store c0) = log_events (fd_store c) @ es" unfolding later_def by blast
  have small: "log_inv (fd_store c)" "store_len (fd_store c) < 2 ^ 64" using small_log [OF assms(2) small_before [OF w(1)]] by simp_all
  have t: "max ?n (tailed_to c) = ?n" using tailed_le [OF assms(2)] by simp
  obtain w' where w': "(scope, w') \<in> set (fst (snd ?sub))" by (simp add: subscribe_parts(2)) blast
  have "take ?n (log_events (fd_store c) @ es) = log_events (fd_store c)" by simp
  then have "exact wo scope q ?n (log_events (fd_store c0)) ?n (snd (snd ?sub)) (fst (snd ?sub))"
    unfolding exact_def log
    using subscribe_sorted [OF small] subscribe_watermarks [OF small] subscribe_own [OF small w'] subscribe_sent [OF small(1)] w'
    by auto
  then show ?thesis
    using w(2,3) t feed_inv_subscribe(2) [OF assms] writer_steps_len [OF assms(1)] by (auto simp: exact_feed_def)
qed

text \<open>
  C12: A subscription delivers exactly once and in order: after \<open>subscribe\<close> from a position, and for as
  long as only the writer and the live tail are at work, what the connection sends are events in the
  strictly ascending order of the log, and when the tail has caught up, those that the scope asks for are
  exactly the events of the log after the position that match the scope; also when the writer commits in
  the middle of the subscription and when events were already waiting in the broadcast queue.
\<close>

theorem subscription_exact:
  assumes "feed_reachable wo c" "writer_step\<^sup>*\<^sup>* c c0"
    and "(live_step wo)\<^sup>*\<^sup>* (feed_subscribe wo (fd_store c) scope (Since_After q) c0) c'"
    and "store_len (fd_store c') < 2 ^ 64 - 1" "fd_queue c' = []" "fd_published c' = store_len (fd_store c')"
  shows "\<exists>new. fd_out c' = fd_out c @ map Server_Event new \<and> sorted_wrt (\<lambda>a b. ev_seq a < ev_seq b) new
    \<and> filter (\<lambda>e. q < ev_seq e \<and> scope_matches scope e wo) new
      = filter (\<lambda>e. scope_matches scope e wo) (events_after (Some q) (fd_store c'))"
proof -
  let ?c1 = "feed_subscribe wo (fd_store c) scope (Since_After q) c0"
  let ?n = "store_len (fd_store c)"
  have len: "store_len (fd_store a) \<le> store_len (fd_store b)" if "(live_step wo)\<^sup>*\<^sup>* a b" for a b :: "('a, 'b) feed"
    using that by (induction rule: rtranclp_induct) (auto dest: live_step_len)
  have small1: "small ?c1" using len [OF assms(3)] assms(4) by (simp add: small_def)
  then have small0: "small c0" by (simp add: small_def)
  then have "small c" using writer_steps_len [OF assms(2)] by (simp add: small_def)
  then have inv: "feed_inv c" by (rule feed_reachable_inv [OF assms(1)])
  have "feed_inv c' \<and> exact_feed wo scope q ?n (fd_out c) c'" using assms(3,4)
  proof (induction rule: rtranclp_induct)
    case base
    then show ?case using exact_subscribe [OF assms(2) inv small0] feed_inv_subscribe(1) [OF assms(2) inv small0] by blast
  next
    case (step a b)
    then have "small a" "small b" using live_step_len [OF step.hyps(2)] by (simp_all add: small_def)
    then show ?case using exact_live [OF step.hyps(2)] step.IH by (auto simp: small_def later_def)
  qed
  then obtain new where new: "feed_inv c'" "fd_out c' = fd_out c @ map Server_Event new" "?n \<le> store_len (fd_store c')"
    "exact wo scope q ?n (log_events (fd_store c')) (max ?n (tailed_to c')) new (fd_scopes c')"
    unfolding exact_feed_def by blast
  have "max ?n (tailed_to c') = store_len (fd_store c')" using assms(5,6) new(3) by (simp add: tailed_to_def)
  then have "filter (wanted wo scope q) new = filter (wanted wo scope q) (log_events (fd_store c'))"
    using new(4) by (simp add: exact_def)
  moreover have "log_inv (fd_store c')" using feed_inv_log [OF new(1)] assms(4) by (simp add: small_def)
  ultimately have "filter (\<lambda>e. q < ev_seq e \<and> scope_matches scope e wo) new
      = filter (\<lambda>e. scope_matches scope e wo) (events_after (Some q) (fd_store c'))"
    by (simp add: events_after_filter wanted_def [abs_def] conj_commute)
  moreover have "sorted_wrt (\<lambda>a b. ev_seq a < ev_seq b) new" using new(4) by (simp add: exact_def)
  ultimately show ?thesis using new(2) by blast
qed

definition connected :: "store \<Rightarrow> (unit, unit) feed" where
  "connected s = \<lparr>fd_store = s, fd_published = store_len s, fd_queue = [], fd_scopes = [], fd_out = []\<rparr>"

theorem subscription_exact_witness:
  "\<exists>s new. append_all (\<lambda>_ _. True) sample_log fresh_store = Some s
     \<and> fd_out (feed_subscribe Map.empty s Scope_Everything (Since_After 1) (connected s)) = map Server_Event new
     \<and> filter (\<lambda>e. 1 < ev_seq e) new = events_after (Some 1) s"
proof -
  obtain s where s: "append_all (\<lambda>_ _. True) sample_log fresh_store = Some s" "store_len s = 4"
    using sample_log_appends by blast
  have r: "reachable s" by (rule append_all_reachable [OF s(1) reachable_fresh_store])
  let ?c' = "feed_subscribe Map.empty (fd_store (connected s)) Scope_Everything (Since_After 1) (connected s)"
  have start: "feed_reachable Map.empty (connected s)" unfolding connected_def by (rule feed_reachable.start [OF r]) simp
  have fields: "store_len (fd_store ?c') < 2 ^ 64 - 1" "fd_queue ?c' = []" "fd_published ?c' = store_len (fd_store ?c')"
    using s(2) by (simp_all add: connected_def)
  obtain new where "fd_out ?c' = fd_out (connected s) @ map Server_Event new"
    "filter (\<lambda>e. 1 < ev_seq e \<and> scope_matches Scope_Everything e Map.empty) new
      = filter (\<lambda>e. scope_matches Scope_Everything e Map.empty) (events_after (Some 1) (fd_store ?c'))"
    using subscription_exact [OF start rtranclp.rtrancl_refl rtranclp.rtrancl_refl fields] by blast
  then show ?thesis using s(1) by (auto simp: connected_def)
qed

section \<open>At least once, whatever else the client subscribes to\<close>

text \<open>The steps that leave the subscription of a scope alone.\<close>

inductive other_step :: "(review_id \<Rightarrow> workspace_id option) \<Rightarrow> subscribe_scope \<Rightarrow> ('r, 'u) feed \<Rightarrow> ('r, 'u) feed \<Rightarrow> bool"
  for wo scope where
  live: "live_step wo c c' \<Longrightarrow> other_step wo scope c c'"
| subscribed: "writer_step\<^sup>*\<^sup>* c c' \<Longrightarrow> other \<noteq> scope \<Longrightarrow> other_step wo scope c (feed_subscribe wo (fd_store c) other since c')"
| unsubscribed: "other \<noteq> scope \<Longrightarrow> other_step wo scope c (c\<lparr>fd_scopes := unsubscribe other (fd_scopes c)\<rparr>)"

lemma other_step_feed: "other_step wo scope c c' \<Longrightarrow> feed_step wo c c'"
  by (cases rule: other_step.cases) (auto intro: feed_step.intros)

text \<open>What is wanted of the log has been sent, or its watermark and the queue still wait for it.\<close>

definition awaited :: "(review_id \<Rightarrow> workspace_id option) \<Rightarrow> subscribe_scope \<Rightarrow> seq \<Rightarrow> event list \<Rightarrow> nat
    \<Rightarrow> event list \<Rightarrow> watermarks \<Rightarrow> bool" where
  "awaited wo scope q log t new scopes \<longleftrightarrow> (\<exists>w. (scope, w) \<in> set scopes \<and> unat w \<le> max (length log) (unat q)
     \<and> (\<forall>i<length log. wanted wo scope q (log ! i) \<longrightarrow> log ! i \<in> set new \<or> t \<le> i \<and> unat w < Suc i))"

lemma awaited_grows:
  assumes "awaited wo scope q log t new scopes" "t \<le> length log"
    and seqs: "\<And>i. i < length (log @ es) \<Longrightarrow> unat (ev_seq ((log @ es) ! i)) = Suc i"
  shows "awaited wo scope q (log @ es) t new scopes"
proof -
  obtain w where w: "(scope, w) \<in> set scopes" "unat w \<le> max (length log) (unat q)"
    "\<forall>i<length log. wanted wo scope q (log ! i) \<longrightarrow> log ! i \<in> set new \<or> t \<le> i \<and> unat w < Suc i"
    using assms(1) unfolding awaited_def by blast
  have "(log @ es) ! i \<in> set new \<or> t \<le> i \<and> unat w < Suc i"
    if i: "i < length (log @ es)" "wanted wo scope q ((log @ es) ! i)" for i
  proof (cases "i < length log")
    case True
    then show ?thesis using w(3) i(2) by (simp add: nth_append)
  next
    case False
    have "unat q < Suc i" using i(2) seqs [OF i(1)] by (simp add: wanted_def word_less_nat_alt)
    then have "unat w < Suc i" using w(2) False by linarith
    then show ?thesis using False assms(2) by simp
  qed
  moreover have "unat w \<le> max (length (log @ es)) (unat q)" using w(2) by auto
  ultimately show ?thesis using w(1) unfolding awaited_def by blast
qed

lemma awaited_deliver:
  assumes "awaited wo scope q log t new scopes" "t < length log"
    and seq: "unat (ev_seq (log ! t)) = Suc t"
  shows "awaited wo scope q log (Suc t) (new @ snd (deliver_live wo (log ! t) scopes)) (fst (deliver_live wo (log ! t) scopes))"
proof -
  let ?e = "log ! t"
  obtain w where w: "(scope, w) \<in> set scopes" "unat w \<le> max (length log) (unat q)"
    "\<forall>i<length log. wanted wo scope q (log ! i) \<longrightarrow> log ! i \<in> set new \<or> t \<le> i \<and> unat w < Suc i"
    using assms(1) unfolding awaited_def by blast
  let ?hit = "live_hit wo ?e (scope, w)"
  let ?w = "if ?hit then ev_seq ?e else w"
  have "(scope, ?w) \<in> set (fst (deliver_live wo ?e scopes))" using w(1) by (force simp: deliver_live_def)
  moreover have "unat ?w \<le> max (length log) (unat q)" using w(2) seq assms(2) by auto
  moreover have sent: "?e \<in> set (snd (deliver_live wo ?e scopes))" if ?hit
    using that w(1) by (auto simp: deliver_live_def list_ex_iff)
  have "log ! i \<in> set (new @ snd (deliver_live wo ?e scopes)) \<or> Suc t \<le> i \<and> unat ?w < Suc i"
    if i: "i < length log" "wanted wo scope q (log ! i)" for i
  proof (cases "log ! i \<in> set new")
    case False
    then have ti: "t \<le> i" "unat w < Suc i" using w(3) i by blast+
    show ?thesis
    proof (cases "i = t")
      case True
      then have ?hit using ti i seq by (simp add: live_hit_def wanted_def word_less_nat_alt)
      then show ?thesis using sent True by simp
    qed (use ti seq in auto)
  qed simp
  ultimately show ?thesis unfolding awaited_def by blast
qed

lemma awaited_subscribe:
  assumes aw: "awaited wo scope q (log_events s) t new scopes" and s: "log_inv s" "store_len s < 2 ^ 64" and other: "other \<noteq> scope"
  shows "awaited wo scope q (log_events s) t (new @ snd (snd (subscribe wo s s2 other since scopes)))
    (fst (snd (subscribe wo s s2 other since scopes)))"
proof -
  let ?sub = "subscribe wo s s2 other since scopes"
  obtain w where w: "(scope, w) \<in> set scopes" "unat w \<le> max (store_len s) (unat q)"
    "\<forall>i < store_len s. wanted wo scope q (log_events s ! i) \<longrightarrow> log_events s ! i \<in> set new \<or> t \<le> i \<and> unat w < Suc i"
    using aw unfolding awaited_def by auto
  have sd: "(scope, w) \<in> set (others_of other scopes)" using w(1) other by (simp add: others_of_def)
  let ?after = "case since of Since_Now \<Rightarrow> None | Since_After q \<Rightarrow> Some q"
  obtain r where r: "replay_after ?after (others_of other scopes) = Some r" "r \<le> w"
    using replay_after_other [of "others_of other scopes" ?after] replay_after_le [OF _ sd] sd by fastforce
  let ?w = "max w (reached s s2 (Some r))"
  have "unat (reached s s2 (Some r)) \<le> max (store_len s) (unat w)"
    using reached_bounds(2) [OF s refl, of s2 r] r(2) by (auto simp: word_le_nat_alt)
  then have "unat ?w \<le> max (store_len s) (unat q)" using w(2) by (auto simp: unat_max)
  moreover have "(scope, ?w) \<in> set (fst (snd ?sub))" using sd r(1) by (force simp: subscribe_parts(2))
  moreover have "log_events s ! i \<in> set (new @ snd (snd ?sub))"
    if i: "i < store_len s" "wanted wo scope q (log_events s ! i)" for i
  proof (cases "log_events s ! i \<in> set new")
    case False
    then have "unat w < Suc i" using w(3) i by blast
    then have "live_hit wo (log_events s ! i) (scope, w)"
      using i seq_at [OF s i(1)] by (simp add: live_hit_def wanted_def word_less_nat_alt)
    then have "log_events s ! i \<in> set (snd (snd ?sub))"
      using subscribe_pending [OF s(1) _ w(1)] other i(1) by auto
    then show ?thesis by simp
  qed simp
  ultimately show ?thesis unfolding awaited_def by auto
qed

definition awaited_feed :: "(review_id \<Rightarrow> workspace_id option) \<Rightarrow> subscribe_scope \<Rightarrow> seq
    \<Rightarrow> ('r, 'u) server_msg list \<Rightarrow> ('r, 'u) feed \<Rightarrow> bool" where
  "awaited_feed wo scope q base c \<longleftrightarrow> (\<exists>new. fd_out c = base @ map Server_Event new
     \<and> awaited wo scope q (log_events (fd_store c)) (tailed_to c) new (fd_scopes c))"

lemma exact_awaited:
  assumes ex: "exact_feed wo scope q n base c" and t: "tailed_to c \<le> n"
    and seqs: "\<And>i. i < store_len (fd_store c) \<Longrightarrow> unat (ev_seq (log_events (fd_store c) ! i)) = Suc i"
  shows "awaited_feed wo scope q base c"
proof -
  let ?log = "log_events (fd_store c)"
  have n: "max n (tailed_to c) = n" "n \<le> store_len (fd_store c)" using t ex by (simp_all add: exact_feed_def)
  obtain new w where new: "fd_out c = base @ map Server_Event new"
    "filter (wanted wo scope q) new = filter (wanted wo scope q) (take n ?log)"
    and w: "(scope, w) \<in> set (fd_scopes c)" "unat w \<le> max n (unat q)"
    using ex unfolding exact_feed_def exact_def n(1) by blast
  have "?log ! i \<in> set new \<or> tailed_to c \<le> i \<and> unat w < Suc i"
    if i: "i < length ?log" "wanted wo scope q (?log ! i)" for i
  proof (cases "i < n")
    case True
    then have "?log ! i \<in> set (filter (wanted wo scope q) (take n ?log))" using i by (auto simp: in_set_conv_nth)
    then show ?thesis unfolding new(2) [symmetric] by simp
  next
    case False
    have "unat q < Suc i" using i(2) seqs [of i] i(1) by (simp add: wanted_def word_less_nat_alt)
    then show ?thesis using False t w(2) by linarith
  qed
  moreover have "unat w \<le> max (length ?log) (unat q)" using w(2) n(2) by auto
  ultimately show ?thesis using new(1) w(1) unfolding awaited_feed_def awaited_def by blast
qed

lemma awaited_later:
  assumes "later c c'" "awaited wo scope q (log_events (fd_store c)) t new scopes" "t \<le> store_len (fd_store c)" "small c'"
  shows "awaited wo scope q (log_events (fd_store c')) t new scopes"
proof -
  obtain es where log: "log_events (fd_store c') = log_events (fd_store c) @ es" using assms(1) unfolding later_def by blast
  have inv: "feed_inv c'" using assms(1) by (simp add: later_def)
  have "unat (ev_seq (log_events (fd_store c') ! i)) = Suc i" if "i < length (log_events (fd_store c'))" for i
    using seq_at [of "fd_store c'" i] small_log [OF inv assms(4)] that by simp
  then show ?thesis unfolding log using awaited_grows [OF assms(2)] assms(3) by simp
qed

lemma awaited_step:
  assumes "other_step wo scope c c'" "feed_inv c" "small c'" "awaited_feed wo scope q base c"
  shows "awaited_feed wo scope q base c'"
  using assms(1)
proof (cases rule: other_step.cases)
  case live
  obtain new where new: "fd_out c = base @ map Server_Event new"
    "awaited wo scope q (log_events (fd_store c)) (tailed_to c) new (fd_scopes c)"
    using assms(4) unfolding awaited_feed_def by blast
  from live show ?thesis
  proof (cases rule: live_step.cases)
    case wrote
    note w = writer_step_later [OF wrote assms(2,3)]
    have "awaited wo scope q (log_events (fd_store c')) (tailed_to c) new (fd_scopes c)"
      using awaited_later [OF _ new(2) tailed_le [OF assms(2)] assms(3)] w by blast
    then show ?thesis using w new(1) by (auto simp: awaited_feed_def)
  next
    case (tailed e queue)
    have small: "small c" using assms(3) by (simp add: tailed small_def)
    note e = queue_head [OF assms(2) tailed(2)]
    have t: "tailed_to c < store_len (fd_store c)" using e(1) assms(2) by (auto simp: feed_inv_def)
    have "unat (ev_seq e) = Suc (tailed_to c)"
      using seq_at [of "fd_store c" "tailed_to c"] small_log [OF assms(2) small] t by (simp add: e(2))
    then have "awaited wo scope q (log_events (fd_store c)) (Suc (tailed_to c)) (new @ snd (deliver_live wo e (fd_scopes c)))
        (fst (deliver_live wo e (fd_scopes c)))"
      using awaited_deliver [OF new(2), of] t e(2) by simp
    then show ?thesis using new(1) tail_step_later(2) [OF assms(2) tailed(2) small, of wo] unfolding awaited_feed_def
      by (intro exI [of _ "new @ snd (deliver_live wo e (fd_scopes c))"]) (simp add: tailed)
  qed
next
  case (subscribed c0 other since)
  obtain new where new: "fd_out c = base @ map Server_Event new"
    "awaited wo scope q (log_events (fd_store c)) (tailed_to c) new (fd_scopes c)"
    using assms(4) unfolding awaited_feed_def by blast
  have small0: "small c0" using assms(3) by (simp add: subscribed(1) small_def)
  have w: "later c c0" "fd_scopes c0 = fd_scopes c" "fd_out c0 = fd_out c"
    using writer_steps_later [OF subscribed(2) assms(2) small0] by simp_all
  let ?sub = "subscribe wo (fd_store c) (fd_store c0) other since (fd_scopes c)"
  have "awaited wo scope q (log_events (fd_store c)) (tailed_to c) (new @ snd (snd ?sub)) (fst (snd ?sub))"
    using awaited_subscribe [OF new(2)] small_log [OF assms(2) small_before [OF w(1)]] subscribed(3) by blast
  then have "awaited wo scope q (log_events (fd_store c0)) (tailed_to c) (new @ snd (snd ?sub)) (fst (snd ?sub))"
    using awaited_later [OF w(1) _ tailed_le [OF assms(2)] small0] by blast
  then show ?thesis
    using new(1) w feed_inv_subscribe(2) [OF subscribed(2) assms(2) small0, of wo other since] unfolding awaited_feed_def subscribed(1)
    by (intro exI [of _ "new @ snd (snd ?sub)"]) simp
next
  case (unsubscribed other)
  then have "set (fd_scopes c') = {sd \<in> set (fd_scopes c). fst sd \<noteq> other}" by (simp add: unsubscribe_def)
  then show ?thesis using assms(4) unsubscribed
    by (auto simp: awaited_feed_def awaited_def unsubscribe_def tailed_to_def)
qed

text \<open>
  No subscription is lost: whatever the client subscribes to or unsubscribes from besides, and however
  the writer's commits fall between, once the live tail has caught up everything in the log after the
  subscribed position that matches the scope has been sent after the subscription.
\<close>

lemma subscription_complete:
  assumes "feed_reachable wo c" "writer_step\<^sup>*\<^sup>* c c0"
    and "(other_step wo scope)\<^sup>*\<^sup>* (feed_subscribe wo (fd_store c) scope (Since_After q) c0) c'"
    and "store_len (fd_store c') < 2 ^ 64 - 1" "fd_queue c' = []" "fd_published c' = store_len (fd_store c')"
  shows "\<exists>new. fd_out c' = fd_out c @ map Server_Event new
    \<and> set (filter (\<lambda>e. scope_matches scope e wo) (events_after (Some q) (fd_store c'))) \<subseteq> set new"
proof -
  let ?c1 = "feed_subscribe wo (fd_store c) scope (Since_After q) c0"
  have len: "store_len (fd_store a) \<le> store_len (fd_store b)" if "(other_step wo scope)\<^sup>*\<^sup>* a b" for a b :: "('a, 'b) feed"
    using that by (induction rule: rtranclp_induct) (auto dest!: other_step_feed feed_step_len)
  have small1: "small ?c1" using len [OF assms(3)] assms(4) by (simp add: small_def)
  then have small0: "small c0" by (simp add: small_def)
  then have small: "small c" using writer_steps_len [OF assms(2)] by (simp add: small_def)
  then have inv: "feed_inv c" by (rule feed_reachable_inv [OF assms(1)])
  have inv1: "feed_inv ?c1" by (rule feed_inv_subscribe(1) [OF assms(2) inv small0])
  have log1: "unat (ev_seq (log_events (fd_store c0) ! i)) = Suc i" if "i < store_len (fd_store c0)" for i
    using seq_at [of "fd_store c0" i] small_log [OF inv1 small1] that by simp
  have aw: "awaited_feed wo scope q (fd_out c) ?c1"
    by (rule exact_awaited [OF exact_subscribe [OF assms(2) inv small0]])
      (use feed_inv_subscribe(2) [OF assms(2) inv small0] tailed_le [OF inv] log1 in simp_all)
  have "feed_inv c' \<and> awaited_feed wo scope q (fd_out c) c'" using assms(3,4)
  proof (induction rule: rtranclp_induct)
    case base
    then show ?case using inv1 aw by blast
  next
    case (step a b)
    then have "small a" "small b" using feed_step_len [OF other_step_feed [OF step.hyps(2)]] by (simp_all add: small_def)
    then show ?case
      using awaited_step [OF step.hyps(2)] feed_step_inv [OF other_step_feed [OF step.hyps(2)]] step.IH step.prems
      by (auto simp: small_def)
  qed
  then obtain new where new: "feed_inv c'" "fd_out c' = fd_out c @ map Server_Event new"
    "awaited wo scope q (log_events (fd_store c')) (tailed_to c') new (fd_scopes c')"
    unfolding awaited_feed_def by blast
  have t: "tailed_to c' = store_len (fd_store c')" using assms(5,6) by (simp add: tailed_to_def)
  have "e \<in> set new" if "e \<in> set (log_events (fd_store c'))" "wanted wo scope q e" for e
    using new(3) that by (auto simp: awaited_def t in_set_conv_nth)
  moreover have "log_inv (fd_store c')" using feed_inv_log [OF new(1)] assms(4) by (simp add: small_def)
  ultimately show ?thesis using new(2) by (auto simp: events_after_filter wanted_def)
qed

text \<open>The same after a second subscription, which another position and scope make replay older events.\<close>

section \<open>The workspace cache\<close>

text \<open>The cache is transparent: while what it holds is what the store holds, an answer is the store's.\<close>

lemma workspace_cache_transparent:
  assumes "\<forall>review w. cache review = Some w \<longrightarrow> stored_review_workspace s review = Inr w"
  shows "fst (daemon_workspace_of s cache review) = (case stored_review_workspace s review of Inr w \<Rightarrow> Some w | Inl _ \<Rightarrow> None)
    \<and> (\<forall>r w. snd (daemon_workspace_of s cache review) r = Some w \<longrightarrow> stored_review_workspace s r = Inr w)"
  using assms by (auto simp: daemon_workspace_of_def split: option.splits sum.splits)

end
