(* ===== verification/Spec2Isabelle.thy ===== *)
theory Spec2Isabelle
  imports Nits_Admission Nits_Anchor Nits_Checkpoint_Laws Nits_Client_Events Nits_Client_Follow
    Nits_Client_Laws Nits_Client_Order Nits_Client_Restart Nits_Client_State
    Nits_Client_Suggestion_Laws Nits_Client_Suggestions Nits_Client_Sync Nits_Client_Sync_Laws
    Nits_Comment_Laws Nits_Comment_Ops Nits_Comment_Query Nits_Connection Nits_Content_Cache
    Nits_Content_Cache_Laws Nits_Core Nits_Core_Machine Nits_Directory Nits_Discovery Nits_Dispatch
    Nits_Dispatch_Laws Nits_Domain Nits_Explorer Nits_Explorer_Laws Nits_Ids Nits_Invariants
    Nits_Lines Nits_Migrate Nits_Patch Nits_Patch_Laws Nits_Prelude Nits_Reference Nits_Render
    Nits_Render_Laws Nits_Replay Nits_Request_Laws Nits_Review_Laws Nits_Review_Ops Nits_Spans
    Nits_Spans_Laws Nits_Store Nits_Store_Log Nits_Store_Views Nits_Subscription
    Nits_Subscription_Laws Nits_Suggestion_Laws Nits_Targets Nits_Texts Nits_Thread_Laws Nits_Wire
    Ordered_Table
begin

text \<open>
  This development verifies the review engine of nits, a local code-review server. All source paths
  are under \<open>src/crates\<close>.

  \<^bold>\<open>The program.\<close> Clients (a user interface, a command line and agents) talk to the daemon
  \<open>nitsd\<close> in the types of \<open>nits-protocol\<close>. The daemon owns one \<open>Core\<close>
  (\<open>nits-review-core/src/core.rs\<close>). Every mutation of the core validates its arguments against the
  stored views, asks Git for what it needs, and appends one or more events to an embedded database
  (\<open>store/\<close>); each append applies the event to a set of view tables in the same transaction. The log
  is the only source of truth: the views can be rebuilt from it, and clients follow it by replaying
  pages of events.

  \<^bold>\<open>Foundations.\<close>
  \<^item> \<open>Nits_Prelude\<close>: \<open>Result\<close> as a sum with \<open>bindR\<close> for the \<open>?\<close> operator, loops that fail as \<open>foldR\<close>,
    and the string and iterator functions the sources use.
  \<^item> \<open>Ordered_Table\<close>: the contract of a database table (lookup, overwrite, removal, iteration in key
    order) as a locale, interpreted on sorted association lists; every view table is one of these.

  \<^bold>\<open>Protocol\<close> (\<open>nits-protocol/src\<close>).
  \<^item> \<open>Nits_Ids\<close> (\<open>ids.rs\<close>): ULIDs, object ids and sequence numbers at their widths; times as
    integers, which the code only stores and compares.
  \<^item> \<open>Nits_Invariants\<close> (\<open>invariants.rs\<close>): nonempty lists, line ranges, repository paths and their order.
  \<^item> \<open>Nits_Domain\<close>, \<open>Nits_Targets\<close> (\<open>domain.rs\<close>, \<open>events.rs\<close>, \<open>suggestion.rs\<close>, \<open>creation.rs\<close>): the
    records and enums, the event bodies, target lists, expansions, checkpoint freshness.
  \<^item> \<open>Nits_Texts\<close> (\<open>revision.rs\<close>, \<open>deferral.rs\<close>, \<open>version.rs\<close>, \<open>lifecycle.rs\<close>) and \<open>Nits_Reference\<close>
    (\<open>reference.rs\<close>): validated texts; references with parser, printer and resolution, their round trip.

  \<^bold>\<open>Store\<close> (\<open>nits-review-core/src/store\<close>).
  \<^item> \<open>Nits_Store\<close> (\<open>tables.rs\<close>, \<open>views.rs\<close>, \<open>mod.rs\<close>): the log, the view tables, \<open>apply_event\<close> with one
    equation per event body, \<open>append_event\<close>, \<open>rebuild_views\<close> and the queries.
  \<^item> \<open>Nits_Store_Log\<close>: reachable stores, the log invariant, that the log is contiguous and that a
    rebuild is the identity; the locale \<open>view_invariant\<close> carries an invariant of the views from the
    application of one event to every reachable store.
  \<^item> \<open>Nits_Store_Views\<close>: interpretations of that locale (keys, referential integrity through an
    abstract skeleton, the index from blobs to comments).
  \<^item> \<open>Nits_Comment_Query\<close>, \<open>Nits_Discovery\<close> (\<open>comment_query.rs\<close>, \<open>discovery.rs\<close>): the two listings, each
    proved equal to a declarative selection over the log and the views.
  \<^item> \<open>Nits_Replay\<close> (\<open>replay.rs\<close>): replay pages are bounded, and following the cursor delivers every
    event of a scope once and in order.
  \<^item> \<open>Nits_Migrate\<close> (\<open>migrate.rs\<close>): migrations over raw JSON events, and opening a store.

  \<^bold>\<open>Text.\<close> \<open>Nits_Lines\<close> (\<open>render/lines.rs\<close>) splits blobs into lines; \<open>Nits_Patch\<close> and
  \<open>Nits_Patch_Laws\<close> (\<open>patch.rs\<close>) parse, apply and preview unified diffs, with a declarative relation
  that application computes exactly; \<open>Nits_Anchor\<close> (\<open>anchor.rs\<close>) maps a line range through a diff and
  re-anchors comments.

  \<^bold>\<open>Core\<close> (\<open>nits-review-core/src\<close>).
  \<^item> \<open>Nits_Core\<close> (\<open>core.rs\<close>, \<open>repository.rs\<close>): the state (\<open>core\<close>: the store and the registry of opened
    checkouts), operations as functions from a state to a result and a state, so that the state a failed
    call leaves behind is part of the model, and the locale \<open>store_client\<close>: a client that appends only
    validated bodies keeps the store's invariants.
  \<^item> \<open>Nits_Review_Ops\<close> (\<open>review.rs\<close>, \<open>checkpoints.rs\<close>), \<open>Nits_Comment_Ops\<close> (\<open>comments.rs\<close>),
    \<open>Nits_Directory\<close> (\<open>directory.rs\<close>): the operations, in the order of the sources.
  \<^item> \<open>Nits_Review_Laws\<close>, \<open>Nits_Checkpoint_Laws\<close>, \<open>Nits_Comment_Laws\<close>, \<open>Nits_Thread_Laws\<close>,
    \<open>Nits_Suggestion_Laws\<close>, \<open>Nits_Request_Laws\<close>: what they guarantee on success and on error.
  \<^item> \<open>Nits_Core_Machine\<close>: all operations, restarts and rebuilds as one step relation; every reachable
    core is consistent.

  \<^bold>\<open>Rendering\<close> (\<open>nits-review-core/src/render\<close>).
  \<^item> \<open>Nits_Spans\<close> (\<open>highlight.rs\<close>, \<open>intraline.rs\<close>) and \<open>Nits_Render\<close> (\<open>mod.rs\<close>): spans within a line; the
    rows of a diff with context windows, expanders and hunk headers, gap tables and chunks.
  \<^item> \<open>Nits_Render_Laws\<close>: for any correct line diff the rows, with what the expanders hide, read off both
    files exactly. \<open>Nits_Spans_Laws\<close>: the changed ranges cover exactly what differs between two lines.

  \<^bold>\<open>Daemon\<close> (\<open>nitsd/src\<close>).
  \<^item> \<open>Nits_Wire\<close> (\<open>codec.rs\<close>, \<open>transport.rs\<close>): frames on byte streams and WebSockets; the locale \<open>framed\<close>
    is their common contract, interpreted on both. What the WebSocket library delivers of the messages handed to
    it is a parameter; its default limit of 16 MiB per frame is below the 64 MiB the writer checks.
  \<^item> \<open>Nits_Connection\<close> (\<open>handshake.rs\<close>, \<open>connection.rs\<close>): the greeting, and the read loop as a step
    relation over requests in flight, each with its own cancellation token; the streaming of a render.
  \<^item> \<open>Nits_Subscription\<close>, \<open>Nits_Subscription_Laws\<close> (\<open>connection.rs\<close>, \<open>daemon.rs\<close>): replay and live tail of a
    connection over the growing log, with the writer, the broadcast queue and lagging as separate steps.
  \<^item> \<open>Nits_Admission\<close> (\<open>admission.rs\<close>, \<open>ownership.rs\<close>): the gate that drains before a restart as a step
    relation of permits and the waiter, and that draining ends; process phases and socket paths.
  \<^item> \<open>Nits_Dispatch\<close> (\<open>dispatch.rs\<close>, \<open>daemon.rs\<close>): mutations on the writer, what they publish and acknowledge.
  \<^item> \<open>Nits_Dispatch_Laws\<close>: the publications of a run of mutations are the events it added to the log, and
    the client's local prediction of a mutation agrees with what the daemon does with it, but for the time.

  \<^bold>\<open>Client\<close> (\<open>nits-client-core/src\<close>).
  \<^item> \<open>Nits_Client_Events\<close> (\<open>events.rs\<close>): the event a mutation will become and the fold of events over a
    review snapshot. \<open>Nits_Client_Laws\<close>: the fold refines the store, event by event, so a client that follows
    the log holds the snapshot the daemon would send.
  \<^item> \<open>Nits_Client_State\<close> (\<open>lib.rs\<close>, \<open>connection.rs\<close>, \<open>lifecycle.rs\<close>, \<open>ids.rs\<close>, \<open>view.rs\<close>): the record \<open>client\<close>, the
    part of \<open>ClientCore\<close> that follows the daemon, with its requests, pending mutations, committed events and
    snapshots; \<open>Nits_Client_Suggestions\<close> (\<open>suggestion.rs\<close>): the preview and application of suggestions;
    \<open>Nits_Client_Sync\<close>: the handlers, and \<open>client_handle\<close>, which answers one input with effects or an error and
    the state left behind. Keys, what the host stored, the scope of the diff, forms (\<open>SelectRef\<close>,
    \<open>CreateReview\<close>), checks, rendered content, focus, references and daemon management are not inputs.
  \<^item> \<open>Nits_Client_Sync_Laws\<close>: the invariant of every reachable client (what is shown is the committed snapshot
    with the pending mutations on top). \<open>Nits_Client_Suggestion_Laws\<close>: failing inputs change nothing, and the
    application of a suggestion is never replayed. \<open>Nits_Client_Order\<close>: events are taken once and in order, but
    for the application of a suggestion, which its answer may fold again. \<open>Nits_Client_Follow\<close>: over any steady
    run that takes exactly the appended events, the client holds the contents of the daemon's snapshot, by the
    refinement of \<open>Nits_Client_Laws\<close>.
    \<open>Nits_Client_Restart\<close>: a restart ends after at most nineteen reconnections and one minute, on clocks
    below \<open>2^63\<close>, where the saturating sums of the code do not saturate.
  \<^item> \<open>Nits_Content_Cache\<close> (\<open>cache.rs\<close>): the memory tier of the content cache, and \<open>Nits_Content_Cache_Laws\<close>: it
    refines a plain list of entries, least recently used first, for fewer than \<open>2^64\<close> operations and bytes.
  \<^item> \<open>Nits_Explorer\<close> (\<open>explorer.rs\<close>): the tree of files with its counts, viewed state, progress and fuzzy search;
    \<open>Nits_Explorer_Laws\<close>: each file is shown once, below its directories, and the fuzzy match is exact.

  \<^bold>\<open>Parameters.\<close> Code outside the repository is an argument of the definitions that use it. Git and the
  file system are the records \<open>git_repo\<close> (one checkout), \<open>env\<close> (opening and canonicalizing paths) and
  \<open>dir_env\<close>; the hash and the line diff behind anchors are \<open>anchor_libs\<close>; the sizes of stored and
  encoded events are \<open>byte_lengths\<close>; lower-casing, the JSON decoder of the current event type, the text
  of a ULID and the URL parser are plain function arguments. Theorems quantify over them; what they need
  of them is a named hypothesis, and their witnesses instantiate them. Within one call, and across the calls
  of a statement that share an environment, Git and the file system answer the same question the same way;
  statements about answers that change use a second environment.

  \<^bold>\<open>Bounds.\<close> Sequence numbers are 64-bit words, so statements about the whole log assume fewer than
  \<open>2^64 - 1\<close> events, the number at which \<open>next_seq\<close> would wrap. Counts that the code keeps in 32 bits are
  stated up to \<open>2^32\<close>. No definition of the store, the core or the patch code uses fuel: loops are
  recursions on lists or have a termination proof.

  \<^bold>\<open>Not modelled.\<close> The Git object database (\<open>git.rs\<close>) and the replacement of working files
  (\<open>suggestion_file.rs\<close>) are I/O; serde encodings, JSON text and the database's own file format are
  library code. The render cache, the daemon's processes, listening sockets, file watching and upgrades, the
  parts of the client core around its state machine (focus, keys, tree, diff pane, content loading, forms),
  the command line, the MCP server, the client hosts, configuration and fixtures are outside the model.
\<close>

end
